(* ===== verification/SFS_Prelude.thy ===== *)
theory SFS_Prelude
  imports Main "HOL-Library.Word"
begin

text \<open>
  Shared vocabulary of the SeamlessStack models: the ways a C function can stop
  without returning, the error numbers the sources use, and generic facts on
  lists and maps that several components need.
\<close>

section \<open>Outcomes of C code\<close>

text \<open>
  A C function either returns or stops abnormally.  \<open>Assert_Failed\<close> is a failed
  \<^verbatim>\<open>assert\<close> (the build never defines \<^verbatim>\<open>NDEBUG\<close>), \<open>Null_Deref\<close> an access through a
  null pointer, \<open>Bad_Access\<close> an access outside the object or through the sentinel,
  \<open>Undefined\<close> an operation that C leaves undefined (an over-wide shift, a division
  by zero), \<open>Deadlock\<close> a second acquisition of a lock the caller already holds.
\<close>

datatype crash = Assert_Failed | Null_Deref | Bad_Access | Undefined | Deadlock

type_synonym 'a exec = "crash + 'a"

definition exec_bind :: "'a exec \<Rightarrow> ('a \<Rightarrow> 'b exec) \<Rightarrow> 'b exec" where
  "exec_bind m f = (case m of Inl e \<Rightarrow> Inl e | Inr x \<Rightarrow> f x)"

definition exec_guard :: "bool \<Rightarrow> crash \<Rightarrow> unit exec" where
  "exec_guard b e = (if b then Inr () else Inl e)"

lemma exec_bind_simps [simp]:
  "exec_bind (Inl e) f = Inl e"
  "exec_bind (Inr x) f = f x"
  by (simp_all add: exec_bind_def)

lemma exec_bind_Inr_iff:
  "exec_bind m f = Inr y \<longleftrightarrow> (\<exists>x. m = Inr x \<and> f x = Inr y)"
  by (cases m) auto

lemma exec_bind_assoc:
  "exec_bind (exec_bind m f) g = exec_bind m (\<lambda>x. exec_bind (f x) g)"
  by (cases m) auto

lemma exec_bind_cong [fundef_cong]:
  "m = m' \<Longrightarrow> (\<And>x. m' = Inr x \<Longrightarrow> f x = g x) \<Longrightarrow> exec_bind m f = exec_bind m' g"
  by (cases m') auto

lemma exec_guard_simps [simp]:
  "exec_guard True e = Inr ()"
  "exec_guard False e = Inl e"
  by (simp_all add: exec_guard_def)

lemma exec_guard_Inr_iff [simp]: "exec_guard b e = Inr u \<longleftrightarrow> b"
  by (simp add: exec_guard_def)

text \<open>
  A spin lock is a flag.  Acquiring one that the calling thread already holds
  never returns.
\<close>

definition pthread_spin_lock :: "bool \<Rightarrow> bool exec" where
  "pthread_spin_lock held = (if held then Inl Deadlock else Inr True)"

lemma pthread_spin_lock_simps [simp]:
  "pthread_spin_lock False = Inr True"
  "pthread_spin_lock True = Inl Deadlock"
  by (simp_all add: pthread_spin_lock_def)

section \<open>Taking one element out of a list\<close>

definition taken :: "'a \<Rightarrow> 'a list \<Rightarrow> 'a list \<Rightarrow> bool" where
  "taken a xs ys \<longleftrightarrow> (\<exists>us vs. xs = us @ a # vs \<and> ys = us @ vs)"

lemma taken_here [intro]: "taken a (us @ a # vs) (us @ vs)"
  by (auto simp: taken_def)

lemma taken_appendR: "taken a xs ys \<Longrightarrow> taken a (xs @ zs) (ys @ zs)"
  unfolding taken_def by (metis append.assoc append_Cons)

lemma taken_appendL: "taken a xs ys \<Longrightarrow> taken a (zs @ xs) (zs @ ys)"
  unfolding taken_def by (metis append.assoc)

lemma image_replace:
  assumes "n \<in> A"
  shows "(\<lambda>x. if x = n then n' else x) ` A = insert n' (A - {n})"
proof (rule set_eqI)
  fix y
  show "y \<in> (\<lambda>x. if x = n then n' else x) ` A \<longleftrightarrow> y \<in> insert n' (A - {n})"
    using assms by (cases "y = n'") force+
qed

section \<open>Signed readings of words\<close>

lemma sint_of_nat_small:
  assumes "n < 2 ^ 31"
  shows "sint (of_nat n :: 32 word) = int n"
  using assms by (simp add: sint_uint uint_nat unat_of_nat signed_take_bit_int_eq_self)

lemma nat_sint_pos: "0 < sint (x :: 32 word) \<Longrightarrow> nat (sint x) = unat x"
proof -
  assume "0 < sint x"
  moreover have "sint x < 2 ^ 31" using sint_lt [of x] by simp
  ultimately have "uint x = sint x" unfolding uint_sint [of x] by (simp add: take_bit_int_eq_self)
  then show ?thesis by (metis nat_uint_eq)
qed

section \<open>Decimal numbers\<close>

text \<open>\<^verbatim>\<open>sprintf\<close> with \<^verbatim>\<open>%u\<close>.\<close>

fun decimal :: "nat \<Rightarrow> string" where
  "decimal n = (if n < 10 then [char_of (48 + n)] else decimal (n div 10) @ [char_of (48 + n mod 10)])"

declare decimal.simps [simp del]

lemma decimal_digits: "c \<in> set (decimal n) \<Longrightarrow> 48 \<le> (of_char c :: nat) \<and> (of_char c :: nat) < 58"
proof (induction n rule: decimal.induct)
  case (1 n)
  then show ?case by (cases "n < 10") (auto simp: decimal.simps [of n])
qed

lemma decimal_value: "foldl (\<lambda>a c. 10 * a + (of_char c - 48)) 0 (decimal n) = (n :: nat)"
proof (induction n rule: decimal.induct)
  case (1 n)
  then show ?case by (cases "n < 10") (simp_all add: decimal.simps [of n])
qed

lemma decimal_inj: "decimal m = decimal n \<longleftrightarrow> m = n"
  by (metis decimal_value)

lemma decimal_not_nil: "decimal n \<noteq> []"
  by (simp add: decimal.simps [of n])

section \<open>Strings\<close>

text \<open>The bytes of a string, the string up to the terminator of an array, and strings that C can hold.\<close>

definition str_bytes :: "string \<Rightarrow> 8 word list" where
  "str_bytes t = map of_char t"

definition bytes_str :: "8 word list \<Rightarrow> string" where
  "bytes_str b = map (\<lambda>x. char_of (unat x)) (takeWhile (\<lambda>x. x \<noteq> 0) b)"

definition c_string :: "string \<Rightarrow> bool" where
  "c_string t \<longleftrightarrow> CHR 0x00 \<notin> set t"

lemma unat_of_char: "unat (of_char c :: 8 word) = of_char c"
proof -
  have "(of_char c :: 8 word) = of_nat (of_char c)" by (simp add: of_nat_of_char)
  moreover have "(of_char c :: nat) < 256" by simp
  ultimately show ?thesis by (simp add: unat_of_nat take_bit_nat_eq_self_iff del: nat_of_char_less_256)
qed

lemma of_char_zero: "(of_char c :: 8 word) = 0 \<longleftrightarrow> c = CHR 0x00"
proof -
  have "(of_char c :: 8 word) = 0 \<longleftrightarrow> (of_char c :: nat) = of_char (CHR 0x00)"
    using unat_of_char [of c] by (auto simp: unat_eq_0)
  then show ?thesis by (simp only: of_char_eq_iff)
qed

lemma bytes_str_append:
  assumes "c_string t"
  shows "bytes_str (str_bytes t @ 0 # b) = t" "bytes_str (str_bytes t) = t"
proof -
  have w: "takeWhile (\<lambda>x. x \<noteq> 0) (str_bytes t @ 0 # b) = str_bytes t" "takeWhile (\<lambda>x. x \<noteq> 0) (str_bytes t) = str_bytes t"
    using assms by (induction t) (auto simp: str_bytes_def c_string_def of_char_zero)
  show "bytes_str (str_bytes t @ 0 # b) = t" "bytes_str (str_bytes t) = t"
    unfolding bytes_str_def w by (simp_all add: str_bytes_def unat_of_char comp_def)
qed

lemma length_str_bytes [simp]: "length (str_bytes t) = length t"
  by (simp add: str_bytes_def)

section \<open>Error numbers\<close>

text \<open>The values of \<^verbatim>\<open>errno.h\<close> on Linux for the names the sources use.\<close>

abbreviation ENOENT :: int where "ENOENT \<equiv> 2"
abbreviation EIO :: int where "EIO \<equiv> 5"
abbreviation EAGAIN :: int where "EAGAIN \<equiv> 11"
abbreviation ENOMEM :: int where "ENOMEM \<equiv> 12"
abbreviation EFAULT :: int where "EFAULT \<equiv> 14"
abbreviation EINVAL :: int where "EINVAL \<equiv> 22"

end
