(* ===== verification/Rb_Tree.thy ===== *)
theory Rb_Tree
  imports SFS_Prelude
begin

text \<open>
  The left-leaning red-black tree of \<^verbatim>\<open>oss/rb.h\<close>, from which the job map, job id,
  file lock and storage trees are generated (\<^verbatim>\<open>rb_gen\<close>).  The macro argument
  \<^verbatim>\<open>a_cmp\<close> is the parameter \<open>cmp\<close>.  Nodes carry no parent pointers, so a tree
  value is exact; the explicit \<^verbatim>\<open>path\<close> array of the C code is a list of frames,
  innermost first.  A \<^verbatim>\<open>return\<close> in the middle of an unwinding loop leaves the
  rest of the path as it is linked, which is \<open>rb_plug\<close>.  Assertions, and writes
  through the \<^verbatim>\<open>rbt_nil\<close> sentinel, are outcomes.
\<close>

section \<open>Nodes, accessors and rotations\<close>

datatype 'a rb_tree = RbNil | RbNode bool "'a rb_tree" 'a "'a rb_tree"

fun rbtn_left_get :: "'a rb_tree \<Rightarrow> 'a rb_tree" where
  "rbtn_left_get RbNil = RbNil"
| "rbtn_left_get (RbNode c l x r) = l"

fun rbtn_right_get :: "'a rb_tree \<Rightarrow> 'a rb_tree" where
  "rbtn_right_get RbNil = RbNil"
| "rbtn_right_get (RbNode c l x r) = r"

fun rbtn_red_get :: "'a rb_tree \<Rightarrow> bool" where
  "rbtn_red_get RbNil = False"
| "rbtn_red_get (RbNode c l x r) = c"

fun rbtn_left_set :: "'a rb_tree \<Rightarrow> 'a rb_tree \<Rightarrow> 'a rb_tree exec" where
  "rbtn_left_set RbNil l' = Inl Bad_Access"
| "rbtn_left_set (RbNode c l x r) l' = Inr (RbNode c l' x r)"

fun rbtn_right_set :: "'a rb_tree \<Rightarrow> 'a rb_tree \<Rightarrow> 'a rb_tree exec" where
  "rbtn_right_set RbNil r' = Inl Bad_Access"
| "rbtn_right_set (RbNode c l x r) r' = Inr (RbNode c l x r')"

fun rbtn_color_set :: "bool \<Rightarrow> 'a rb_tree \<Rightarrow> 'a rb_tree exec" where
  "rbtn_color_set c' RbNil = Inl Bad_Access"
| "rbtn_color_set c' (RbNode c l x r) = Inr (RbNode c' l x r)"

fun rbtn_rotate_left :: "'a rb_tree \<Rightarrow> 'a rb_tree exec" where
  "rbtn_rotate_left (RbNode c l x (RbNode cr rl y rr)) = Inr (RbNode cr (RbNode c l x rl) y rr)"
| "rbtn_rotate_left _ = Inl Bad_Access"

fun rbtn_rotate_right :: "'a rb_tree \<Rightarrow> 'a rb_tree exec" where
  "rbtn_rotate_right (RbNode c (RbNode cl ll y lr) x r) = Inr (RbNode cl ll y (RbNode c lr x r))"
| "rbtn_rotate_right _ = Inl Bad_Access"

definition rb_new :: "'a rb_tree" where
  "rb_new = RbNil"

section \<open>Search\<close>

fun rb_search :: "('a \<Rightarrow> 'a \<Rightarrow> int) \<Rightarrow> 'a \<Rightarrow> 'a rb_tree \<Rightarrow> 'a option" where
  "rb_search cmp key RbNil = None"
| "rb_search cmp key (RbNode c l x r) =
     (let k = cmp key x in
      if k \<noteq> 0 then (if k < 0 then rb_search cmp key l else rb_search cmp key r)
      else Some x)"

section \<open>Insertion\<close>

datatype 'a rb_frame = Frame bool "'a rb_tree" 'a "'a rb_tree" int

text \<open>Linking a subtree back under the nodes of the path, as they stand.\<close>

fun rb_plug :: "'a rb_frame list \<Rightarrow> 'a rb_tree \<Rightarrow> 'a rb_tree" where
  "rb_plug [] t = t"
| "rb_plug (Frame c l x r k # p) t =
     rb_plug p (if k < 0 then RbNode c t x r else RbNode c l x t)"

fun rb_insert_wind ::
  "('a \<Rightarrow> 'a \<Rightarrow> int) \<Rightarrow> 'a \<Rightarrow> 'a rb_tree \<Rightarrow> 'a rb_frame list \<Rightarrow> 'a rb_frame list exec" where
  "rb_insert_wind cmp node RbNil p = Inr p"
| "rb_insert_wind cmp node (RbNode c l x r) p =
     (let k = cmp node x in
      if k = 0 then Inl Assert_Failed
      else if k < 0 then rb_insert_wind cmp node l (Frame c l x r k # p)
      else rb_insert_wind cmp node r (Frame c l x r k # p))"

text \<open>
  One turn of the unwinding loop at a node \<open>(c, l, x, r)\<close> whose left (right) child
  became \<open>ch\<close>.  The flag says whether the loop goes on.
\<close>

definition rb_insert_step_left ::
  "bool \<Rightarrow> 'a rb_tree \<Rightarrow> 'a \<Rightarrow> 'a rb_tree \<Rightarrow> (bool \<times> 'a rb_tree) exec" where
  "rb_insert_step_left c ch x r =
     (if rbtn_red_get ch then
        (let leftleft = rbtn_left_get ch in
         if rbtn_red_get leftleft then
           exec_bind (rbtn_color_set False leftleft) (\<lambda>leftleft'.
           exec_bind (rbtn_left_set ch leftleft') (\<lambda>left'.
           exec_bind (rbtn_rotate_right (RbNode c left' x r)) (\<lambda>tnode.
           Inr (True, tnode))))
         else Inr (True, RbNode c ch x r))
      else Inr (False, RbNode c ch x r))"

definition rb_insert_step_right ::
  "bool \<Rightarrow> 'a rb_tree \<Rightarrow> 'a \<Rightarrow> 'a rb_tree \<Rightarrow> (bool \<times> 'a rb_tree) exec" where
  "rb_insert_step_right c l x ch =
     (if rbtn_red_get ch then
        (if rbtn_red_get l then
           exec_bind (rbtn_color_set False l) (\<lambda>left'.
           exec_bind (rbtn_color_set False ch) (\<lambda>right'.
           Inr (True, RbNode True left' x right')))
         else
           exec_bind (rbtn_rotate_left (RbNode True l x ch)) (\<lambda>tnode.
           exec_bind (rbtn_color_set c tnode) (\<lambda>tnode'.
           Inr (True, tnode'))))
      else Inr (False, RbNode c l x ch))"

fun rb_insert_unwind :: "'a rb_frame list \<Rightarrow> 'a rb_tree \<Rightarrow> 'a rb_tree exec" where
  "rb_insert_unwind [] t = rbtn_color_set False t"
| "rb_insert_unwind (Frame c l x r k # p) ch =
     exec_bind (if k < 0 then rb_insert_step_left c ch x r else rb_insert_step_right c l x ch)
       (\<lambda>(go, cnode). if go then rb_insert_unwind p cnode else Inr (rb_plug p cnode))"

definition rb_insert :: "('a \<Rightarrow> 'a \<Rightarrow> int) \<Rightarrow> 'a \<Rightarrow> 'a rb_tree \<Rightarrow> 'a rb_tree exec" where
  "rb_insert cmp node t =
     exec_bind (rb_insert_wind cmp node t [])
       (\<lambda>p. rb_insert_unwind p (RbNode True RbNil node RbNil))"

section \<open>Removal\<close>

fun rb_wind_min :: "'a rb_tree \<Rightarrow> 'a rb_frame list \<Rightarrow> 'a rb_frame list" where
  "rb_wind_min RbNil q = q"
| "rb_wind_min (RbNode c l x r) q = rb_wind_min l (Frame c l x r (-1) # q)"

text \<open>
  The winding loop of removal: the path above the node (\<open>p\<close>), the frame of the
  node itself (\<^verbatim>\<open>nodep\<close>) and the path from its right child to its successor.
  Falling off the tree leaves \<^verbatim>\<open>nodep\<close> null, which the assertion dereferences.
\<close>

fun rb_remove_wind ::
  "('a \<Rightarrow> 'a \<Rightarrow> int) \<Rightarrow> 'a \<Rightarrow> 'a rb_tree \<Rightarrow> 'a rb_frame list \<Rightarrow>
   ('a rb_frame list \<times> 'a rb_frame \<times> 'a rb_frame list) exec" where
  "rb_remove_wind cmp node RbNil p = Inl Null_Deref"
| "rb_remove_wind cmp node (RbNode c l x r) p =
     (let k = cmp node x in
      if k < 0 then rb_remove_wind cmp node l (Frame c l x r k # p)
      else if k = 0 then
        (if x = node then Inr (p, Frame c l x r 1, rb_wind_min r []) else Inl Assert_Failed)
      else rb_remove_wind cmp node r (Frame c l x r k # p))"

text \<open>
  One turn of the rebalancing loop after the left (right) child of
  \<open>(c, l, x, r)\<close> lost a black level; \<open>first\<close> says that the frame is the first
  entry of the path.  The flag says whether the loop goes on.
\<close>

definition rb_remove_step_left ::
  "bool \<Rightarrow> bool \<Rightarrow> 'a rb_tree \<Rightarrow> 'a \<Rightarrow> 'a rb_tree \<Rightarrow> (bool \<times> 'a rb_tree) exec" where
  "rb_remove_step_left first c ch x r =
     exec_bind (exec_guard (\<not> rbtn_red_get ch) Assert_Failed) (\<lambda>_.
     (let right = r; rightleft = rbtn_left_get right in
      if c then
        (if rbtn_red_get rightleft then
           exec_bind (rbtn_rotate_right right) (\<lambda>t.
           exec_bind (rbtn_rotate_left (RbNode False ch x t)) (\<lambda>tnode.
           exec_bind (exec_guard (\<not> first) Assert_Failed) (\<lambda>_. Inr (False, tnode))))
         else
           exec_bind (rbtn_rotate_left (RbNode c ch x right)) (\<lambda>tnode.
           exec_bind (exec_guard (\<not> first) Assert_Failed) (\<lambda>_. Inr (False, tnode))))
      else
        (if rbtn_red_get rightleft then
           exec_bind (rbtn_color_set False rightleft) (\<lambda>rightleft'.
           exec_bind (rbtn_left_set right rightleft') (\<lambda>right'.
           exec_bind (rbtn_rotate_right right') (\<lambda>t.
           exec_bind (rbtn_rotate_left (RbNode c ch x t)) (\<lambda>tnode.
           Inr (False, tnode)))))
         else
           exec_bind (rbtn_rotate_left (RbNode True ch x right)) (\<lambda>tnode.
           Inr (True, tnode)))))"

definition rb_remove_step_right ::
  "bool \<Rightarrow> bool \<Rightarrow> 'a rb_tree \<Rightarrow> 'a \<Rightarrow> 'a rb_tree \<Rightarrow> (bool \<times> 'a rb_tree) exec" where
  "rb_remove_step_right first c l x ch =
     (let left = l in
      if rbtn_red_get left then
        (let leftright = rbtn_right_get left; leftrightleft = rbtn_left_get leftright in
         if rbtn_red_get leftrightleft then
           exec_bind (rbtn_color_set False leftrightleft) (\<lambda>lrl.
           exec_bind (rbtn_left_set leftright lrl) (\<lambda>lr.
           exec_bind (rbtn_rotate_right (RbNode c lr x ch)) (\<lambda>tnode.
           exec_bind (rbtn_right_set left tnode) (\<lambda>unode.
           exec_bind (rbtn_rotate_left unode) (\<lambda>tnode'.
           Inr (False, tnode'))))))
         else
           exec_bind (exec_guard (leftright \<noteq> RbNil) Assert_Failed) (\<lambda>_.
           exec_bind (rbtn_color_set True leftright) (\<lambda>lr.
           exec_bind (rbtn_right_set left lr) (\<lambda>left'.
           exec_bind (rbtn_rotate_right (RbNode c left' x ch)) (\<lambda>tnode.
           exec_bind (rbtn_color_set False tnode) (\<lambda>tnode'.
           Inr (False, tnode')))))))
      else if c then
        (let leftleft = rbtn_left_get left in
         if rbtn_red_get leftleft then
           exec_bind (rbtn_color_set False leftleft) (\<lambda>ll.
           exec_bind (rbtn_left_set left ll) (\<lambda>left'.
           exec_bind (rbtn_color_set True left') (\<lambda>left''.
           exec_bind (rbtn_rotate_right (RbNode False left'' x ch)) (\<lambda>tnode.
           exec_bind (exec_guard (\<not> first) Assert_Failed) (\<lambda>_. Inr (False, tnode))))))
         else
           exec_bind (rbtn_color_set True left) (\<lambda>left'.
           Inr (False, RbNode False left' x ch)))
      else
        (let leftleft = rbtn_left_get left in
         if rbtn_red_get leftleft then
           exec_bind (rbtn_color_set False leftleft) (\<lambda>ll.
           exec_bind (rbtn_left_set left ll) (\<lambda>left'.
           exec_bind (rbtn_rotate_right (RbNode c left' x ch)) (\<lambda>tnode.
           Inr (False, tnode))))
         else
           exec_bind (rbtn_color_set True left) (\<lambda>left'.
           Inr (True, RbNode c left' x ch))))"

fun rb_remove_unwind :: "'a rb_frame list \<Rightarrow> 'a rb_tree \<Rightarrow> 'a rb_tree exec" where
  "rb_remove_unwind [] t =
     exec_bind (exec_guard (\<not> rbtn_red_get t) Assert_Failed) (\<lambda>_. Inr t)"
| "rb_remove_unwind (Frame c l x r k # p) ch =
     exec_bind (if k < 0 then rb_remove_step_left (p = []) c ch x r
                else rb_remove_step_right (p = []) c l x ch)
       (\<lambda>(go, t). if go then rb_remove_unwind p t else Inr (rb_plug p t))"

text \<open>Cutting off the node at the end of the path, whose colour is \<open>red\<close>.\<close>

definition rb_prune :: "bool \<Rightarrow> 'a rb_frame list \<Rightarrow> 'a rb_tree exec" where
  "rb_prune red p =
     (if red then
        (case p of
           [] \<Rightarrow> Inl Bad_Access
         | Frame c l x r k # p' \<Rightarrow>
             exec_bind (exec_guard (k < 0) Assert_Failed)
               (\<lambda>_. Inr (rb_plug p' (RbNode c RbNil x r))))
      else rb_remove_unwind p RbNil)"

definition rb_remove :: "('a \<Rightarrow> 'a \<Rightarrow> int) \<Rightarrow> 'a \<Rightarrow> 'a rb_tree \<Rightarrow> 'a rb_tree exec" where
  "rb_remove cmp node t =
     exec_bind (rb_remove_wind cmp node t [])
       (\<lambda>(p, nodep, q).
         case nodep of Frame c l x r k \<Rightarrow>
         (case q of
            Frame sc sl sx sr sk # q' \<Rightarrow> rb_prune sc (q' @ Frame c l sx r k # p)
          | [] \<Rightarrow>
              if l \<noteq> RbNil then
                exec_bind (exec_guard (\<not> c) Assert_Failed) (\<lambda>_.
                exec_bind (exec_guard (rbtn_red_get l) Assert_Failed) (\<lambda>_.
                exec_bind (rbtn_color_set False l) (\<lambda>left'.
                Inr (rb_plug p left'))))
              else if p = [] then Inr RbNil
              else rb_prune c p))"

section \<open>Iteration\<close>

text \<open>
  The callback reads and updates its argument \<open>'s\<close> and may stop the walk by
  returning a value.
\<close>

fun rb_iter_recurse :: "('a \<Rightarrow> 's \<Rightarrow> 's \<times> 'b option) \<Rightarrow> 'a rb_tree \<Rightarrow> 's \<Rightarrow> 's \<times> 'b option" where
  "rb_iter_recurse cb RbNil s = (s, None)"
| "rb_iter_recurse cb (RbNode c l x r) s =
     (case rb_iter_recurse cb l s of
        (s1, Some b) \<Rightarrow> (s1, Some b)
      | (s1, None) \<Rightarrow>
          (case cb x s1 of
             (s2, Some b) \<Rightarrow> (s2, Some b)
           | (s2, None) \<Rightarrow> rb_iter_recurse cb r s2))"

fun rb_iter_start ::
  "('a \<Rightarrow> 'a \<Rightarrow> int) \<Rightarrow> 'a \<Rightarrow> ('a \<Rightarrow> 's \<Rightarrow> 's \<times> 'b option) \<Rightarrow> 'a rb_tree \<Rightarrow> 's \<Rightarrow>
   ('s \<times> 'b option) exec" where
  "rb_iter_start cmp start cb RbNil s = Inl Bad_Access"
| "rb_iter_start cmp start cb (RbNode c l x r) s =
     (let k = cmp start x in
      if k < 0 then
        exec_bind (rb_iter_start cmp start cb l s) (\<lambda>res.
          case res of
            (s1, Some b) \<Rightarrow> Inr (s1, Some b)
          | (s1, None) \<Rightarrow>
              (case cb x s1 of
                 (s2, Some b) \<Rightarrow> Inr (s2, Some b)
               | (s2, None) \<Rightarrow> Inr (rb_iter_recurse cb r s2)))
      else if k > 0 then rb_iter_start cmp start cb r s
      else
        (case cb x s of
           (s2, Some b) \<Rightarrow> Inr (s2, Some b)
         | (s2, None) \<Rightarrow> Inr (rb_iter_recurse cb r s2)))"

definition rb_iter ::
  "('a \<Rightarrow> 'a \<Rightarrow> int) \<Rightarrow> 'a option \<Rightarrow> ('a \<Rightarrow> 's \<Rightarrow> 's \<times> 'b option) \<Rightarrow> 'a rb_tree \<Rightarrow> 's \<Rightarrow>
   ('s \<times> 'b option) exec" where
  "rb_iter cmp start cb t s =
     (case start of
        Some st \<Rightarrow> rb_iter_start cmp st cb t s
      | None \<Rightarrow> Inr (rb_iter_recurse cb t s))"

fun rb_reverse_iter_recurse ::
  "('a \<Rightarrow> 's \<Rightarrow> 's \<times> 'b option) \<Rightarrow> 'a rb_tree \<Rightarrow> 's \<Rightarrow> 's \<times> 'b option" where
  "rb_reverse_iter_recurse cb RbNil s = (s, None)"
| "rb_reverse_iter_recurse cb (RbNode c l x r) s =
     (case rb_reverse_iter_recurse cb r s of
        (s1, Some b) \<Rightarrow> (s1, Some b)
      | (s1, None) \<Rightarrow>
          (case cb x s1 of
             (s2, Some b) \<Rightarrow> (s2, Some b)
           | (s2, None) \<Rightarrow> rb_reverse_iter_recurse cb l s2))"

fun rb_reverse_iter_start ::
  "('a \<Rightarrow> 'a \<Rightarrow> int) \<Rightarrow> 'a \<Rightarrow> ('a \<Rightarrow> 's \<Rightarrow> 's \<times> 'b option) \<Rightarrow> 'a rb_tree \<Rightarrow> 's \<Rightarrow>
   ('s \<times> 'b option) exec" where
  "rb_reverse_iter_start cmp start cb RbNil s = Inl Bad_Access"
| "rb_reverse_iter_start cmp start cb (RbNode c l x r) s =
     (let k = cmp start x in
      if k > 0 then
        exec_bind (rb_reverse_iter_start cmp start cb r s) (\<lambda>res.
          case res of
            (s1, Some b) \<Rightarrow> Inr (s1, Some b)
          | (s1, None) \<Rightarrow>
              (case cb x s1 of
                 (s2, Some b) \<Rightarrow> Inr (s2, Some b)
               | (s2, None) \<Rightarrow> Inr (rb_reverse_iter_recurse cb l s2)))
      else if k < 0 then rb_reverse_iter_start cmp start cb l s
      else
        (case cb x s of
           (s2, Some b) \<Rightarrow> Inr (s2, Some b)
         | (s2, None) \<Rightarrow> Inr (rb_reverse_iter_recurse cb l s2)))"

definition rb_reverse_iter ::
  "('a \<Rightarrow> 'a \<Rightarrow> int) \<Rightarrow> 'a option \<Rightarrow> ('a \<Rightarrow> 's \<Rightarrow> 's \<times> 'b option) \<Rightarrow> 'a rb_tree \<Rightarrow> 's \<Rightarrow>
   ('s \<times> 'b option) exec" where
  "rb_reverse_iter cmp start cb t s =
     (case start of
        Some st \<Rightarrow> rb_reverse_iter_start cmp st cb t s
      | None \<Rightarrow> Inr (rb_reverse_iter_recurse cb t s))"

section \<open>Writing to a node in place\<close>

text \<open>
  A client that found a node may assign to its fields while it is linked in the
  tree.  Nodes of a tree have distinct keys, so the node is known by its value.
\<close>

definition rb_write :: "'a \<Rightarrow> 'a \<Rightarrow> 'a rb_tree \<Rightarrow> 'a rb_tree" where
  "rb_write node node' t = map_rb_tree (\<lambda>x. if x = node then node' else x) t"

end
