(* ===== verification/Rb_Correct.thy ===== *)
theory Rb_Correct
  imports Rb_Tree
begin

text \<open>
  Correctness of the tree of \<^verbatim>\<open>oss/rb.h\<close>.  The loops over the explicit path are
  shown equal to recursive functions (\<open>rb_ins\<close>, \<open>rb_del\<close>); on these the
  left-leaning red-black invariant and the in-order contents are proved by
  induction on the tree.  The locale \<open>ordered_nodes\<close> states what a comparison
  function must satisfy and derives the map laws of search, insertion and removal.
\<close>

section \<open>Contents and shape\<close>

fun rb_inorder :: "'a rb_tree \<Rightarrow> 'a list" where
  "rb_inorder RbNil = []"
| "rb_inorder (RbNode c l x r) = rb_inorder l @ x # rb_inorder r"

fun rb_bheight :: "'a rb_tree \<Rightarrow> nat" where
  "rb_bheight RbNil = 0"
| "rb_bheight (RbNode c l x r) = rb_bheight l + (if c then 0 else 1)"

fun rb_height :: "'a rb_tree \<Rightarrow> nat" where
  "rb_height RbNil = 0"
| "rb_height (RbNode c l x r) = Suc (max (rb_height l) (rb_height r))"

text \<open>
  Below the root: no red right child, no red node with a red left child, and
  every way down has the same number of black nodes.
\<close>

fun rb_shape :: "'a rb_tree \<Rightarrow> bool" where
  "rb_shape RbNil = True"
| "rb_shape (RbNode c l x r) =
     (\<not> rbtn_red_get r \<and> (c \<longrightarrow> \<not> rbtn_red_get l) \<and> rb_bheight l = rb_bheight r \<and>
      rb_shape l \<and> rb_shape r)"

definition llrb :: "'a rb_tree \<Rightarrow> bool" where
  "llrb t \<longleftrightarrow> rb_shape t \<and> \<not> rbtn_red_get t"

lemma rb_inorder_empty [simp]: "rb_inorder t = [] \<longleftrightarrow> t = RbNil"
  by (cases t) auto

section \<open>Insertion as a recursive function\<close>

fun rb_ins :: "('a \<Rightarrow> 'a \<Rightarrow> int) \<Rightarrow> 'a \<Rightarrow> 'a rb_tree \<Rightarrow> (bool \<times> 'a rb_tree) exec" where
  "rb_ins cmp node RbNil = Inr (True, RbNode True RbNil node RbNil)"
| "rb_ins cmp node (RbNode c l x r) =
     (if cmp node x = 0 then Inl Assert_Failed
      else if cmp node x < 0 then
        exec_bind (rb_ins cmp node l) (\<lambda>(go, l').
          if go then rb_insert_step_left c l' x r else Inr (False, RbNode c l' x r))
      else
        exec_bind (rb_ins cmp node r) (\<lambda>(go, r').
          if go then rb_insert_step_right c l x r' else Inr (False, RbNode c l x r')))"

lemma rb_insert_unwind_wind:
  "exec_bind (rb_insert_wind cmp node t p)
     (\<lambda>p'. rb_insert_unwind p' (RbNode True RbNil node RbNil)) =
   exec_bind (rb_ins cmp node t)
     (\<lambda>(go, t'). if go then rb_insert_unwind p t' else Inr (rb_plug p t'))"
proof (induction t arbitrary: p)
  case RbNil
  show ?case by simp
next
  case (RbNode c l x r)
  show ?case
    by (cases "rb_ins cmp node l"; cases "rb_ins cmp node r")
      (simp_all add: Let_def RbNode.IH split: prod.split)
qed

lemma rb_insert_rec:
  "rb_insert cmp node t =
   exec_bind (rb_ins cmp node t) (\<lambda>(go, t'). if go then rbtn_color_set False t' else Inr t')"
  unfolding rb_insert_def rb_insert_unwind_wind
  by (auto simp: exec_bind_def split: sum.split)

lemma rb_step_left_inorder:
  "rb_insert_step_left c l x r = Inr (go, t) \<Longrightarrow> rb_inorder t = rb_inorder l @ x # rb_inorder r"
  by (cases l; cases "rbtn_left_get l")
    (auto simp: rb_insert_step_left_def Let_def split: if_splits)

lemma rb_step_right_inorder:
  "rb_insert_step_right c l x r = Inr (go, t) \<Longrightarrow> rb_inorder t = rb_inorder l @ x # rb_inorder r"
  by (cases l; cases r) (auto simp: rb_insert_step_right_def split: if_splits)

text \<open>The tree handed up by the unwinding loop: its root may be red above a red left child.\<close>

definition rb_ins_ok :: "bool \<Rightarrow> nat \<Rightarrow> bool \<Rightarrow> 'a rb_tree \<Rightarrow> bool" where
  "rb_ins_ok c n go t \<longleftrightarrow> rb_bheight t = n \<and>
     (if go then \<exists>c' l x r. t = RbNode c' l x r \<and> rb_shape l \<and> rb_shape r \<and>
        \<not> rbtn_red_get r \<and> rb_bheight l = rb_bheight r \<and> (c' \<and> \<not> c \<longrightarrow> \<not> rbtn_red_get l)
      else rb_shape t \<and> rbtn_red_get t = c)"

lemma rb_ins_ok_simps [simp]:
  "rb_ins_ok c n True RbNil \<longleftrightarrow> False"
  "rb_ins_ok c n True (RbNode c' l x r) \<longleftrightarrow>
     rb_bheight (RbNode c' l x r) = n \<and> rb_shape l \<and> rb_shape r \<and> \<not> rbtn_red_get r \<and>
     rb_bheight l = rb_bheight r \<and> (c' \<and> \<not> c \<longrightarrow> \<not> rbtn_red_get l)"
  "rb_ins_ok c n False t \<longleftrightarrow> rb_bheight t = n \<and> rb_shape t \<and> rbtn_red_get t = c"
  by (simp_all add: rb_ins_ok_def)

fun rb_ins_res :: "bool \<Rightarrow> nat \<Rightarrow> (bool \<times> 'a rb_tree) exec \<Rightarrow> bool" where
  "rb_ins_res c n (Inl e) = False"
| "rb_ins_res c n (Inr (go, t)) = rb_ins_ok c n go t"

lemma rb_step_left_ok:
  assumes "rb_shape (RbNode c l x r)" "rb_ins_ok (rbtn_red_get l) (rb_bheight l) True l'"
  shows "rb_ins_res c (rb_bheight (RbNode c l x r)) (rb_insert_step_left c l' x r)"
  using assms
  by (cases l'; cases "rbtn_left_get l'") (auto simp: rb_insert_step_left_def Let_def)

lemma rb_step_right_ok:
  assumes "rb_shape (RbNode c l x r)" "rb_ins_ok (rbtn_red_get r) (rb_bheight r) True r'"
  shows "rb_ins_res c (rb_bheight (RbNode c l x r)) (rb_insert_step_right c l x r')"
  using assms
  by (cases l; cases r') (auto simp: rb_insert_step_right_def split: if_splits)

lemma rb_ins_res_cases:
  assumes "rb_ins_res c n m"
  obtains go t where "m = Inr (go, t)" "rb_ins_ok c n go t"
  using assms by (cases m) auto

lemma rb_ins_res:
  assumes "rb_shape t" "\<forall>x\<in>set (rb_inorder t). cmp node x \<noteq> 0"
  shows "rb_ins_res (rbtn_red_get t) (rb_bheight t) (rb_ins cmp node t)"
  using assms
proof (induction t)
  case RbNil
  show ?case by simp
next
  case (RbNode c l x r)
  note shape = RbNode.prems(1)
  have k: "cmp node x \<noteq> 0" using RbNode.prems(2) by simp
  have "rb_ins_res (rbtn_red_get l) (rb_bheight l) (rb_ins cmp node l)"
    using RbNode.IH(1) RbNode.prems by simp
  then obtain gl l' where l': "rb_ins cmp node l = Inr (gl, l')"
    "rb_ins_ok (rbtn_red_get l) (rb_bheight l) gl l'"
    by (rule rb_ins_res_cases)
  have "rb_ins_res (rbtn_red_get r) (rb_bheight r) (rb_ins cmp node r)"
    using RbNode.IH(2) RbNode.prems by simp
  then obtain gr r' where r': "rb_ins cmp node r = Inr (gr, r')"
    "rb_ins_ok (rbtn_red_get r) (rb_bheight r) gr r'"
    by (rule rb_ins_res_cases)
  have "gl \<Longrightarrow> ?case" if "cmp node x < 0"
    using rb_step_left_ok [OF shape, of l'] l' that by simp
  moreover have "gr \<Longrightarrow> ?case" if "\<not> cmp node x < 0"
    using rb_step_right_ok [OF shape, of r'] r' that k by simp
  moreover have "?case" if "\<not> gl" "cmp node x < 0"
    using l' shape that by simp
  moreover have "?case" if "\<not> gr" "\<not> cmp node x < 0"
    using r' shape that k by simp
  ultimately show ?case by blast
qed

lemma rb_insert_llrb:
  assumes "llrb t" "\<forall>x\<in>set (rb_inorder t). cmp node x \<noteq> 0"
  shows "\<exists>t'. rb_insert cmp node t = Inr t' \<and> llrb t'"
proof -
  have "rb_ins_res False (rb_bheight t) (rb_ins cmp node t)"
    using rb_ins_res [of t cmp node] assms by (simp add: llrb_def)
  then obtain go t' where "rb_ins cmp node t = Inr (go, t')" "rb_ins_ok False (rb_bheight t) go t'"
    by (rule rb_ins_res_cases)
  then show ?thesis
    by (cases go; cases t') (auto simp: rb_insert_rec llrb_def)
qed

section \<open>Removal as a recursive function\<close>

text \<open>
  What a subtree hands to its parent: \<open>Done\<close>, nothing is left to do; \<open>Short\<close>,
  one black level is missing; \<open>Pruned\<close>, the subtree was the red leaf to be cut off.
\<close>

datatype rb_status = Done | Short | Pruned

definition rb_up ::
  "bool \<Rightarrow> bool \<Rightarrow> bool \<Rightarrow> 'a rb_tree \<Rightarrow> 'a \<Rightarrow> 'a rb_tree \<Rightarrow> rb_status \<times> 'a rb_tree \<Rightarrow>
   (rb_status \<times> 'a rb_tree) exec" where
  "rb_up first isleft c l x r = (\<lambda>(st, ch).
     case st of
       Done \<Rightarrow> Inr (Done, if isleft then RbNode c ch x r else RbNode c l x ch)
     | Pruned \<Rightarrow>
         exec_bind (exec_guard isleft Assert_Failed) (\<lambda>_. Inr (Done, RbNode c RbNil x r))
     | Short \<Rightarrow>
         exec_bind (if isleft then rb_remove_step_left first c ch x r
                    else rb_remove_step_right first c l x ch)
           (\<lambda>(go, t). Inr (if go then Short else Done, t)))"

definition rb_resume :: "'a rb_frame list \<Rightarrow> rb_status \<times> 'a rb_tree \<Rightarrow> 'a rb_tree exec" where
  "rb_resume p = (\<lambda>(st, t).
     case st of
       Done \<Rightarrow> Inr (rb_plug p t)
     | Pruned \<Rightarrow> rb_prune True p
     | Short \<Rightarrow> rb_remove_unwind p t)"

lemma rb_resume_Frame:
  "rb_resume (Frame c l x r k # p) =
   (\<lambda>s. exec_bind (rb_up (p = []) (k < 0) c l x r s) (rb_resume p))"
proof
  fix s
  show "rb_resume (Frame c l x r k # p) s =
    exec_bind (rb_up (p = []) (k < 0) c l x r s) (rb_resume p)"
    by (cases s; cases "fst s")
      (auto simp: rb_resume_def rb_up_def rb_prune_def exec_guard_def exec_bind_assoc
        intro!: exec_bind_cong)
qed

fun rb_min :: "'a rb_tree \<Rightarrow> 'a" where
  "rb_min RbNil = undefined"
| "rb_min (RbNode c l x r) = (if l = RbNil then x else rb_min l)"

fun rb_del_min :: "'a rb_tree \<Rightarrow> (rb_status \<times> 'a rb_tree) exec" where
  "rb_del_min RbNil = Inl Bad_Access"
| "rb_del_min (RbNode c l x r) =
     (if l = RbNil then Inr (if c then Pruned else Short, RbNil)
      else exec_bind (rb_del_min l) (rb_up False True c l x r))"

lemma rb_wind_min:
  assumes "t \<noteq> RbNil" "p \<noteq> []"
  shows "\<exists>sc sl sr sk q'. rb_wind_min t q = Frame sc sl (rb_min t) sr sk # q' \<and>
           rb_prune sc (q' @ p) = exec_bind (rb_del_min t) (rb_resume (q @ p))"
  using assms(1)
proof (induction t arbitrary: q)
  case (RbNode c l x r)
  show ?case
  proof (cases "l = RbNil")
    case True
    then show ?thesis
      by (auto simp: rb_resume_def rb_prune_def)
  next
    case False
    from RbNode.IH(1) [OF this, of "Frame c l x r (-1) # q"] False assms(2) show ?thesis
      by (auto simp: rb_resume_Frame exec_bind_assoc)
  qed
qed simp

fun rb_del :: "('a \<Rightarrow> 'a \<Rightarrow> int) \<Rightarrow> 'a \<Rightarrow> bool \<Rightarrow> 'a rb_tree \<Rightarrow> (rb_status \<times> 'a rb_tree) exec" where
  "rb_del cmp node first RbNil = Inl Null_Deref"
| "rb_del cmp node first (RbNode c l x r) =
     (if cmp node x < 0 then exec_bind (rb_del cmp node False l) (rb_up first True c l x r)
      else if cmp node x > 0 then exec_bind (rb_del cmp node False r) (rb_up first False c l x r)
      else if x \<noteq> node then Inl Assert_Failed
      else if r \<noteq> RbNil then exec_bind (rb_del_min r) (rb_up first False c l (rb_min r) r)
      else if l \<noteq> RbNil then
        (if \<not> c \<and> rbtn_red_get l
         then exec_bind (rbtn_color_set False l) (\<lambda>l'. Inr (Done, l'))
         else Inl Assert_Failed)
      else Inr (if first then Done else if c then Pruned else Short, RbNil))"

definition rb_remove_cut ::
  "'a rb_frame list \<times> 'a rb_frame \<times> 'a rb_frame list \<Rightarrow> 'a rb_tree exec" where
  "rb_remove_cut = (\<lambda>(p, nodep, q).
     case nodep of Frame c l x r k \<Rightarrow>
     (case q of
        Frame sc sl sx sr sk # q' \<Rightarrow> rb_prune sc (q' @ Frame c l sx r k # p)
      | [] \<Rightarrow>
          if l \<noteq> RbNil then
            exec_bind (exec_guard (\<not> c) Assert_Failed) (\<lambda>_.
            exec_bind (exec_guard (rbtn_red_get l) Assert_Failed) (\<lambda>_.
            exec_bind (rbtn_color_set False l) (\<lambda>left'.
            Inr (rb_plug p left'))))
          else if p = [] then Inr RbNil
          else rb_prune c p))"

lemma rb_remove_cut_succ:
  assumes "r \<noteq> RbNil"
  shows "rb_remove_cut (p, Frame c l x r 1, rb_wind_min r []) =
    exec_bind (exec_bind (rb_del_min r) (rb_up (p = []) False c l (rb_min r) r)) (rb_resume p)"
  using rb_wind_min [OF assms, of "Frame c l (rb_min r) r 1 # p" "[]"]
  by (auto simp: rb_remove_cut_def rb_resume_Frame exec_bind_assoc)

lemma rb_remove_cut_leaf:
  "rb_remove_cut (p, Frame c l x RbNil 1, []) =
   exec_bind (if l \<noteq> RbNil then
        (if \<not> c \<and> rbtn_red_get l
         then exec_bind (rbtn_color_set False l) (\<lambda>l'. Inr (Done, l'))
         else Inl Assert_Failed)
      else Inr (if p = [] then Done else if c then Pruned else Short, RbNil)) (rb_resume p)"
  by (cases l) (auto simp: rb_remove_cut_def rb_resume_def rb_prune_def exec_guard_def)

lemma rb_remove_wind_rec:
  "exec_bind (rb_remove_wind cmp node t p) rb_remove_cut =
   exec_bind (rb_del cmp node (p = []) t) (rb_resume p)"
proof (induction t arbitrary: p)
  case (RbNode c l x r)
  consider "cmp node x < 0" | "cmp node x > 0" | "cmp node x = 0" "r = RbNil"
    | "cmp node x = 0" "r \<noteq> RbNil" by linarith
  then show ?case
    by cases
      (auto simp: Let_def RbNode.IH rb_resume_Frame exec_bind_assoc rb_remove_cut_succ
        rb_remove_cut_leaf)
qed simp

lemma rb_remove_rec:
  "rb_remove cmp node t = exec_bind (rb_del cmp node True t) (rb_resume [])"
  using rb_remove_wind_rec [of cmp node t "[]"]
  by (simp add: rb_remove_def rb_remove_cut_def)

subsection \<open>The invariant\<close>

fun rb_del_res :: "bool \<Rightarrow> nat \<Rightarrow> (rb_status \<times> 'a rb_tree) exec \<Rightarrow> bool" where
  "rb_del_res c n (Inl e) = False"
| "rb_del_res c n (Inr (Done, t)) \<longleftrightarrow> rb_shape t \<and> rb_bheight t = n \<and> (rbtn_red_get t \<longrightarrow> c)"
| "rb_del_res c n (Inr (Short, t)) \<longleftrightarrow>
     rb_shape t \<and> \<not> rbtn_red_get t \<and> \<not> c \<and> n = Suc (rb_bheight t)"
| "rb_del_res c n (Inr (Pruned, t)) \<longleftrightarrow> c \<and> n = 0"

lemma rb_del_res_cases:
  assumes "rb_del_res c n m"
  obtains st t where "m = Inr (st, t)" "rb_del_res c n (Inr (st, t))"
  using assms by (cases m) auto

lemma rb_remove_step_left_ok:
  assumes "rb_shape (RbNode c l x r)" "rb_shape l'" "\<not> rbtn_red_get l'" "\<not> rbtn_red_get l"
    "rb_bheight l = Suc (rb_bheight l')" "first \<longrightarrow> \<not> c"
  shows "rb_del_res c (rb_bheight (RbNode c l x r)) (rb_up first True c l x r (Short, l'))"
  using assms
  by (cases r; cases "rbtn_left_get r")
    (auto simp: rb_up_def rb_remove_step_left_def Let_def split: if_splits)

lemma rb_remove_step_right_ok:
  assumes "rb_shape (RbNode c l x r)" "rb_shape r'" "\<not> rbtn_red_get r'" "\<not> rbtn_red_get r"
    "rb_bheight r = Suc (rb_bheight r')" "first \<longrightarrow> \<not> c"
  shows "rb_del_res c (rb_bheight (RbNode c l y r)) (rb_up first False c l x r (Short, r'))"
  using assms
  by (cases l; cases "rbtn_left_get l"; cases "rbtn_right_get l";
      cases "rbtn_left_get (rbtn_right_get l)")
    (auto simp: rb_up_def rb_remove_step_right_def Let_def split: if_splits)

lemma rb_up_left_ok:
  assumes "rb_shape (RbNode c l x r)" "rb_del_res (rbtn_red_get l) (rb_bheight l) m" "first \<longrightarrow> \<not> c"
  shows "rb_del_res c (rb_bheight (RbNode c l x r)) (exec_bind m (rb_up first True c l x r))"
proof -
  obtain st l' where m: "m = Inr (st, l')"
    "rb_del_res (rbtn_red_get l) (rb_bheight l) (Inr (st, l'))"
    using assms(2) by (rule rb_del_res_cases)
  show ?thesis
  proof (cases st)
    case Short
    then show ?thesis using m assms rb_remove_step_left_ok [OF assms(1), of l' first] by simp
  qed (use m assms in \<open>auto simp: rb_up_def\<close>)
qed

lemma rb_up_right_ok:
  assumes "rb_shape (RbNode c l x r)" "rb_del_res False (rb_bheight r) m" "first \<longrightarrow> \<not> c"
  shows "rb_del_res c (rb_bheight (RbNode c l x r)) (exec_bind m (rb_up first False c l y r))"
proof -
  obtain st r' where m: "m = Inr (st, r')" "rb_del_res False (rb_bheight r) (Inr (st, r'))"
    using assms(2) by (rule rb_del_res_cases)
  show ?thesis
  proof (cases st)
    case Short
    then show ?thesis
      using m assms rb_remove_step_right_ok [of c l y r r' first] by simp
  qed (use m assms in \<open>auto simp: rb_up_def\<close>)
qed

lemma rb_del_min_ok:
  assumes "rb_shape t" "t \<noteq> RbNil"
  shows "rb_del_res (rbtn_red_get t) (rb_bheight t) (rb_del_min t)"
  using assms
proof (induction t)
  case (RbNode c l x r)
  then show ?case
    using rb_up_left_ok [of c l x r "rb_del_min l" False] by (cases "l = RbNil") auto
qed simp

lemma rb_shape_bheight_0:
  assumes "rb_shape t" "rb_bheight t = 0" "t \<noteq> RbNil"
  obtains x where "t = RbNode True RbNil x RbNil"
proof -
  have nil: "u = RbNil" if "rb_shape u" "rb_bheight u = 0" "\<not> rbtn_red_get u" for u :: "'a rb_tree"
    using that by (cases u) (auto split: if_splits)
  show thesis
    using assms nil that by (cases t) (auto split: if_splits)
qed

lemma rb_shape_black_0:
  "rb_shape t \<Longrightarrow> rb_bheight t = 0 \<Longrightarrow> \<not> rbtn_red_get t \<Longrightarrow> t = RbNil"
  by (metis rb_shape_bheight_0 rbtn_red_get.simps(2))

lemma rb_del_at_ok:
  assumes "rb_shape (RbNode c l x r)" "first \<longrightarrow> \<not> c" "cmp node x = 0" "x = node"
    "\<not> first \<or> l \<noteq> RbNil \<or> r \<noteq> RbNil"
  shows "rb_del_res c (rb_bheight (RbNode c l x r)) (rb_del cmp node first (RbNode c l x r))"
proof (cases "r = RbNil")
  case True
  show ?thesis
  proof (cases "l = RbNil")
    case True
    then show ?thesis using assms \<open>r = RbNil\<close> by simp
  next
    case False
    then obtain y where "l = RbNode True RbNil y RbNil"
      using assms(1) \<open>r = RbNil\<close> by (auto intro: rb_shape_bheight_0 [of l])
    then show ?thesis using assms \<open>r = RbNil\<close> by simp
  qed
next
  case False
  then show ?thesis
    using assms rb_up_right_ok [OF assms(1) _ assms(2), of "rb_del_min r" "rb_min r"]
      rb_del_min_ok [of r] by simp
qed

lemma rb_del_ok:
  assumes "rb_shape t" "rb_search cmp node t = Some node"
  shows "rb_del_res (rbtn_red_get t) (rb_bheight t) (rb_del cmp node False t)"
  using assms
proof (induction t)
  case (RbNode c l x r)
  consider "cmp node x < 0" | "cmp node x > 0" | "cmp node x = 0" by linarith
  then show ?case
  proof cases
    case 1
    then show ?thesis
      using RbNode rb_up_left_ok [of c l x r "rb_del cmp node False l" False] by (simp add: Let_def)
  next
    case 2
    then show ?thesis
      using RbNode rb_up_right_ok [of c l x r "rb_del cmp node False r" False x]
      by (simp add: Let_def)
  next
    case 3
    then show ?thesis
      using RbNode.prems rb_del_at_ok [of c l x r False cmp node] by (simp add: Let_def)
  qed
qed simp

lemma rb_del_first_ok:
  assumes "llrb t" "rb_search cmp node t = Some node"
  shows "\<exists>st t'. rb_del cmp node True t = Inr (st, t') \<and> st \<noteq> Pruned \<and> llrb t'"
proof (cases t)
  case RbNil
  then show ?thesis using assms by simp
next
  case (RbNode c l x r)
  have c: "\<not> c" and shape: "rb_shape (RbNode c l x r)"
    using assms(1) RbNode by (auto simp: llrb_def)
  have res: "\<exists>st t'. m = Inr (st, t') \<and> st \<noteq> Pruned \<and> llrb t'"
    if "rb_del_res c n m" for m :: "(rb_status \<times> 'a rb_tree) exec" and n
    using that
  proof (rule rb_del_res_cases)
    fix st and t :: "'a rb_tree"
    assume "m = Inr (st, t)" "rb_del_res c n (Inr (st, t))"
    with c show ?thesis by (cases st) (auto simp: llrb_def)
  qed
  consider "cmp node x < 0" | "cmp node x > 0" | "cmp node x = 0" "l = RbNil" "r = RbNil"
    | "cmp node x = 0" "l \<noteq> RbNil \<or> r \<noteq> RbNil" by linarith
  then show ?thesis
  proof cases
    case 1
    then show ?thesis
      using res [OF rb_up_left_ok [OF shape rb_del_ok [of l cmp node], of True]] shape assms(2) c RbNode
      by (simp add: Let_def)
  next
    case 2
    then show ?thesis
      using res [OF rb_up_right_ok [OF shape, of "rb_del cmp node False r" True x]]
        rb_del_ok [of r cmp node] shape assms(2) c RbNode
      by (simp add: Let_def)
  next
    case 3
    then show ?thesis using assms(2) c RbNode by (simp add: llrb_def Let_def)
  next
    case 4
    then show ?thesis
      using res [OF rb_del_at_ok [OF shape, of True cmp node]] assms(2) c RbNode
      by (simp add: Let_def)
  qed
qed

lemma rb_remove_llrb:
  assumes "llrb t" "rb_search cmp node t = Some node"
  shows "\<exists>t'. rb_remove cmp node t = Inr t' \<and> llrb t'"
proof -
  obtain st t' where "rb_del cmp node True t = Inr (st, t')" "st \<noteq> Pruned" "llrb t'"
    using rb_del_first_ok [OF assms] by blast
  then show ?thesis
    by (cases st) (auto simp: rb_remove_rec rb_resume_def llrb_def)
qed

subsection \<open>The contents\<close>

lemma rb_up_left_inorder:
  assumes "rb_up first True c l x r (st, ch) = Inr (st', t)" "st = Pruned \<longrightarrow> ch = RbNil"
  shows "rb_inorder t = rb_inorder ch @ x # rb_inorder r \<and> st' \<noteq> Pruned"
  using assms
  by (cases st; cases r; cases "rbtn_left_get r")
    (auto simp: rb_up_def rb_remove_step_left_def Let_def exec_guard_def split: if_splits)

lemma rb_up_right_inorder:
  assumes "rb_up first False c l x r (st, ch) = Inr (st', t)"
  shows "rb_inorder t = rb_inorder l @ x # rb_inorder ch \<and> st' \<noteq> Pruned"
  using assms
  by (cases st; cases l; cases "rbtn_left_get l"; cases "rbtn_right_get l";
      cases "rbtn_left_get (rbtn_right_get l)")
    (auto simp: rb_up_def rb_remove_step_right_def Let_def exec_guard_def split: if_splits)

lemma rb_del_min_inorder:
  assumes "rb_shape t" "rb_del_min t = Inr (st, t')"
  shows "rb_inorder t = rb_min t # rb_inorder t' \<and> (st = Pruned \<longrightarrow> t' = RbNil)"
  using assms
proof (induction t arbitrary: st t')
  case (RbNode c l x r)
  show ?case
  proof (cases "l = RbNil")
    case True
    then show ?thesis using RbNode.prems rb_shape_black_0 [of r] by auto
  next
    case False
    then obtain sl l' where l': "rb_del_min l = Inr (sl, l')"
      "rb_up False True c l x r (sl, l') = Inr (st, t')"
      using RbNode.prems(2) by (auto simp: exec_bind_Inr_iff)
    show ?thesis
      using RbNode.IH(1) [OF _ l'(1)] rb_up_left_inorder [OF l'(2)] RbNode.prems(1) False by auto
  qed
qed simp

lemma rb_del_inorder:
  assumes "rb_shape t" "rb_del cmp node first t = Inr (st, t')"
  shows "taken node (rb_inorder t) (rb_inorder t') \<and> (st = Pruned \<longrightarrow> t' = RbNil)"
  using assms
proof (induction t arbitrary: first st t')
  case (RbNode c l x r)
  have shape: "rb_shape l" "rb_shape r" using RbNode.prems(1) by auto
  consider "cmp node x < 0" | "cmp node x > 0" | "cmp node x = 0" "r = RbNil"
    | "cmp node x = 0" "r \<noteq> RbNil" by linarith
  then show ?case
  proof cases
    case 1
    then obtain sl l' where l': "rb_del cmp node False l = Inr (sl, l')"
      "rb_up first True c l x r (sl, l') = Inr (st, t')"
      using RbNode.prems(2) by (auto simp: exec_bind_Inr_iff)
    then show ?thesis
      using RbNode.IH(1) [OF shape(1) l'(1)] rb_up_left_inorder [OF l'(2)]
      by (simp add: taken_appendR)
  next
    case 2
    then obtain sr r' where r': "rb_del cmp node False r = Inr (sr, r')"
      "rb_up first False c l x r (sr, r') = Inr (st, t')"
      using RbNode.prems(2) by (auto simp: exec_bind_Inr_iff)
    then show ?thesis
      using RbNode.IH(2) [OF shape(2) r'(1)] rb_up_right_inorder [OF r'(2)]
        taken_appendL [of node "rb_inorder r" "rb_inorder r'" "rb_inorder l @ [x]"]
      by simp
  next
    case 3
    then show ?thesis
      using RbNode.prems(2) taken_here [of node "rb_inorder l" "[]"]
      by (cases l) (auto split: if_splits)
  next
    case 4
    then obtain sr r' where r': "rb_del_min r = Inr (sr, r')" "x = node"
      "rb_up first False c l (rb_min r) r (sr, r') = Inr (st, t')"
      using RbNode.prems(2) by (auto simp: exec_bind_Inr_iff split: if_splits)
    then show ?thesis
      using rb_up_right_inorder [OF r'(3)] rb_del_min_inorder [OF shape(2) r'(1)]
      by auto
  qed
qed simp

lemma rb_remove_inorder:
  assumes "llrb t" "rb_remove cmp node t = Inr t'"
  shows "taken node (rb_inorder t) (rb_inorder t')"
proof -
  obtain st u where u: "rb_del cmp node True t = Inr (st, u)" "rb_resume [] (st, u) = Inr t'"
    using assms(2) by (auto simp: rb_remove_rec exec_bind_Inr_iff)
  then have "t' = u"
    by (cases st) (auto simp: rb_resume_def rb_prune_def exec_guard_def split: if_splits)
  then show ?thesis
    using rb_del_inorder [OF _ u(1)] assms(1) by (simp add: llrb_def)
qed

section \<open>Height and the length of the path array\<close>

lemma rb_shape_size:
  "rb_shape t \<Longrightarrow> 2 ^ rb_bheight t \<le> Suc (length (rb_inorder t))"
  by (induction t) (auto split: if_splits)

lemma rb_shape_height:
  "rb_shape t \<Longrightarrow> rb_height t \<le> 2 * rb_bheight t + (if rbtn_red_get t then 1 else 0)"
proof (induction t)
  case (RbNode c l x r)
  then show ?case by (cases "rbtn_red_get l") auto
qed simp

lemma llrb_height:
  assumes "llrb t" "Suc (length (rb_inorder t)) < 2 ^ n"
  shows "rb_height t < 2 * n"
proof -
  have "(2::nat) ^ rb_bheight t < 2 ^ n"
    using rb_shape_size [of t] assms unfolding llrb_def by (meson le_less_trans)
  then have "rb_bheight t < n" by simp
  moreover have "rb_height t \<le> 2 * rb_bheight t"
    using rb_shape_height [of t] assms(1) by (simp add: llrb_def)
  ultimately show ?thesis by linarith
qed

lemma rb_insert_wind_length:
  "rb_insert_wind cmp node t p = Inr p' \<Longrightarrow> length p' \<le> length p + rb_height t"
proof (induction t arbitrary: p)
  case (RbNode c l x r)
  have "rb_insert_wind cmp node l (Frame c l x r (cmp node x) # p) = Inr p' \<or>
    rb_insert_wind cmp node r (Frame c l x r (cmp node x) # p) = Inr p'"
    using RbNode.prems by (auto simp: Let_def split: if_splits)
  then show ?case
    using RbNode.IH [of "Frame c l x r (cmp node x) # p"] by fastforce
qed simp

lemma rb_wind_min_length: "length (rb_wind_min t q) \<le> length q + rb_height t"
proof (induction t arbitrary: q)
  case (RbNode c l x r)
  then show ?case using RbNode.IH(1) [of "Frame c l x r (-1) # q"] by simp
qed simp

lemma rb_remove_wind_length:
  "rb_remove_wind cmp node t p = Inr (p', f, q) \<Longrightarrow> length p' + 1 + length q \<le> length p + rb_height t"
proof (induction t arbitrary: p)
  case (RbNode c l x r)
  let ?p = "Frame c l x r (cmp node x) # p"
  consider "rb_remove_wind cmp node l ?p = Inr (p', f, q)" | "rb_remove_wind cmp node r ?p = Inr (p', f, q)"
    | "p' = p" "q = rb_wind_min r []"
    using RbNode.prems by (auto simp: Let_def split: if_splits)
  then show ?case
  proof cases
    case 3
    then show ?thesis using rb_wind_min_length [of r "[]"] by simp
  qed (use RbNode.IH [of ?p] in fastforce)+
qed simp

section \<open>In-place writes\<close>

lemma rb_inorder_map: "rb_inorder (map_rb_tree f t) = map f (rb_inorder t)"
  by (induction t) auto

lemma rb_shape_map:
  "rb_shape (map_rb_tree f t) = rb_shape t"
  "rbtn_red_get (map_rb_tree f t) = rbtn_red_get t"
  "rb_bheight (map_rb_tree f t) = rb_bheight t"
proof -
  have c: "rbtn_red_get (map_rb_tree f t) = rbtn_red_get t" for t by (cases t) auto
  have b: "rb_bheight (map_rb_tree f t) = rb_bheight t" for t by (induction t) auto
  show "rb_shape (map_rb_tree f t) = rb_shape t" by (induction t) (auto simp: b c)
  show "rbtn_red_get (map_rb_tree f t) = rbtn_red_get t" by (rule c)
  show "rb_bheight (map_rb_tree f t) = rb_bheight t" by (rule b)
qed

section \<open>Iteration visits the nodes in order\<close>

text \<open>Calling back on the elements of a list until one call returns a value.\<close>

fun cb_list :: "('a \<Rightarrow> 's \<Rightarrow> 's \<times> 'b option) \<Rightarrow> 'a list \<Rightarrow> 's \<Rightarrow> 's \<times> 'b option" where
  "cb_list cb [] s = (s, None)"
| "cb_list cb (x # xs) s =
     (case cb x s of (s', Some b) \<Rightarrow> (s', Some b) | (s', None) \<Rightarrow> cb_list cb xs s')"

lemma cb_list_append:
  "cb_list cb (xs @ ys) s =
   (case cb_list cb xs s of (s', Some b) \<Rightarrow> (s', Some b) | (s', None) \<Rightarrow> cb_list cb ys s')"
  by (induction xs arbitrary: s) (auto split: prod.split option.split)

lemma rb_iter_recurse_list: "rb_iter_recurse cb t s = cb_list cb (rb_inorder t) s"
  by (induction t arbitrary: s) (auto simp: cb_list_append split: prod.split option.split)

lemma rb_reverse_iter_recurse_list:
  "rb_reverse_iter_recurse cb t s = cb_list cb (rev (rb_inorder t)) s"
  by (induction t arbitrary: s) (auto simp: cb_list_append split: prod.split option.split)

section \<open>Ordered nodes\<close>

text \<open>
  What a user of the tree owes: on the nodes it puts into the tree the comparison
  agrees with a linear order of keys.
\<close>

definition rb_map :: "('a \<Rightarrow> 'k) \<Rightarrow> 'a rb_tree \<Rightarrow> 'k \<rightharpoonup> 'a" where
  "rb_map key t = map_of (map (\<lambda>x. (key x, x)) (rb_inorder t))"

definition rb_sorted :: "('a \<Rightarrow> 'k::linorder) \<Rightarrow> 'a rb_tree \<Rightarrow> bool" where
  "rb_sorted key t \<longleftrightarrow> sorted_wrt (\<lambda>x y. key x < key y) (rb_inorder t)"

definition rb_ok :: "('a \<Rightarrow> bool) \<Rightarrow> ('a \<Rightarrow> 'k::linorder) \<Rightarrow> 'a rb_tree \<Rightarrow> bool" where
  "rb_ok valid key t \<longleftrightarrow> llrb t \<and> rb_sorted key t \<and> (\<forall>x\<in>set (rb_inorder t). valid x)"

lemma rb_sorted_simps [simp]:
  "rb_sorted key RbNil"
  "rb_sorted key (RbNode c l x r) \<longleftrightarrow>
     rb_sorted key l \<and> rb_sorted key r \<and> (\<forall>y\<in>set (rb_inorder l). key y < key x) \<and>
     (\<forall>y\<in>set (rb_inorder r). key x < key y)"
  by (auto simp: rb_sorted_def sorted_wrt_append) (meson order_less_trans)

lemma rb_map_simps [simp]:
  "rb_map key RbNil = Map.empty"
  "rb_map key (RbNode c l x r) = (rb_map key r)(key x \<mapsto> x) ++ rb_map key l"
  by (simp_all add: rb_map_def)

lemma rb_map_None: "k \<notin> key ` set (rb_inorder t) \<Longrightarrow> rb_map key t k = None"
  by (auto simp: rb_map_def map_of_eq_None_iff image_image)

lemma rb_map_SomeD: "rb_map key t k = Some x \<Longrightarrow> x \<in> set (rb_inorder t) \<and> key x = k"
  by (auto simp: rb_map_def dest: map_of_SomeD)

lemma rb_sorted_distinct: "rb_sorted key t \<Longrightarrow> distinct (map key (rb_inorder t))"
proof -
  assume "rb_sorted key t"
  then have "sorted_wrt (<) (map key (rb_inorder t))" by (simp add: rb_sorted_def sorted_wrt_map)
  then show ?thesis by (simp add: strict_sorted_iff)
qed

lemma rb_map_eq:
  assumes "rb_sorted key t"
  shows "rb_map key t k = Some x \<longleftrightarrow> x \<in> set (rb_inorder t) \<and> key x = k"
proof -
  have "map fst (map (\<lambda>x. (key x, x)) (rb_inorder t)) = map key (rb_inorder t)" by simp
  then have "distinct (map fst (map (\<lambda>x. (key x, x)) (rb_inorder t)))"
    using rb_sorted_distinct [OF assms] by metis
  then show ?thesis unfolding rb_map_def by (subst map_of_eq_Some_iff) auto
qed

lemma rb_map_ext:
  assumes "rb_sorted key t" "rb_sorted key u"
    and "\<And>x. x \<in> set (rb_inorder u) \<longleftrightarrow> (if key x = k then v = Some x else x \<in> set (rb_inorder t))"
    and "\<And>x. v = Some x \<Longrightarrow> key x = k"
  shows "rb_map key u = (rb_map key t)(k := v)"
proof
  fix k'
  have "rb_map key u k' = Some x \<longleftrightarrow> ((rb_map key t)(k := v)) k' = Some x" for x
    using assms(3) [of x] assms(4) [of x]
    by (auto simp: rb_map_eq [OF assms(1)] rb_map_eq [OF assms(2)] split: if_splits)
  then show "rb_map key u k' = ((rb_map key t)(k := v)) k'"
    by (metis not_None_eq)
qed

lemma taken_sorted:
  assumes "rb_sorted key t" "taken x (rb_inorder t) (rb_inorder u)"
  shows "rb_sorted key u \<and> set (rb_inorder u) = set (rb_inorder t) - {x}"
proof -
  obtain us vs where *: "rb_inorder t = us @ x # vs" "rb_inorder u = us @ vs"
    using assms(2) by (auto simp: taken_def)
  have "distinct (rb_inorder t)"
    using rb_sorted_distinct [OF assms(1)] by (simp add: distinct_map)
  then show ?thesis
    using assms(1) * by (auto simp: rb_sorted_def sorted_wrt_append)
qed

locale ordered_nodes =
  fixes cmp :: "'a \<Rightarrow> 'a \<Rightarrow> int"
    and valid :: "'a \<Rightarrow> bool"
    and key :: "'a \<Rightarrow> 'k::linorder"
  assumes cmp_less: "valid x \<Longrightarrow> valid y \<Longrightarrow> cmp x y < 0 \<longleftrightarrow> key x < key y"
    and cmp_eq: "valid x \<Longrightarrow> valid y \<Longrightarrow> cmp x y = 0 \<longleftrightarrow> key x = key y"
begin

lemma search_map:
  assumes "rb_sorted key t" "\<forall>x\<in>set (rb_inorder t). valid x" "valid k"
  shows "rb_search cmp k t = rb_map key t (key k)"
  using assms
proof (induction t)
  case (RbNode c l x r)
  have k: "cmp k x < 0 \<longleftrightarrow> key k < key x" "cmp k x = 0 \<longleftrightarrow> key k = key x"
    using RbNode.prems cmp_less cmp_eq by auto
  consider "key k < key x" | "key k = key x" | "key x < key k" by (rule linorder_cases)
  then show ?case
  proof cases
    case 1
    then have "key k \<notin> key ` set (rb_inorder r)"
      using RbNode.prems(1) by (auto dest: less_trans)
    then show ?thesis
      using RbNode k 1 rb_map_None [of "key k" key r]
      by (auto simp: Let_def map_add_def split: option.split)
  next
    case 2
    then have "key k \<notin> key ` set (rb_inorder l)"
      using RbNode.prems(1) by auto
    then show ?thesis
      using k 2 rb_map_None [of "key k" key l] by (simp add: Let_def map_add_def)
  next
    case 3
    then have "key k \<notin> key ` set (rb_inorder l)"
      using RbNode.prems(1) by (auto dest: less_trans)
    then show ?thesis
      using RbNode k 3 rb_map_None [of "key k" key l] by (auto simp: Let_def map_add_def)
  qed
qed simp

lemma search_ok: "rb_ok valid key t \<Longrightarrow> valid k \<Longrightarrow> rb_search cmp k t = rb_map key t (key k)"
  by (simp add: rb_ok_def search_map)

lemma ins_set:
  assumes "rb_ins cmp node t = Inr (go, t')"
  shows "set (rb_inorder t') = insert node (set (rb_inorder t))"
  using assms
  by (induction t arbitrary: go t')
    (auto simp: exec_bind_Inr_iff split: if_splits
      dest!: rb_step_left_inorder rb_step_right_inorder)

lemma ins_sorted:
  assumes "rb_ins cmp node t = Inr (go, t')" "rb_sorted key t"
    "\<forall>x\<in>set (rb_inorder t). valid x" "valid node"
  shows "rb_sorted key t'"
  using assms
proof (induction t arbitrary: go t')
  case RbNil
  then show ?case by auto
next
  case (RbNode c l x r)
  have k: "cmp node x < 0 \<longleftrightarrow> key node < key x" "cmp node x = 0 \<longleftrightarrow> key node = key x"
    using RbNode.prems cmp_less cmp_eq by auto
  have eq: "rb_sorted key t' \<longleftrightarrow> rb_sorted key (RbNode c l' x r')"
    if "rb_inorder t' = rb_inorder l' @ x # rb_inorder r'" for l' r'
    using that by (simp add: rb_sorted_def)
  show ?case
  proof (cases "cmp node x < 0")
    case True
    then obtain gl l' where l': "rb_ins cmp node l = Inr (gl, l')"
      "rb_inorder t' = rb_inorder l' @ x # rb_inorder r"
      using RbNode.prems(1) k
      by (auto simp: exec_bind_Inr_iff split: if_splits dest!: rb_step_left_inorder)
    then show ?thesis
      using RbNode.IH(1) [OF l'(1)] RbNode.prems(2-) ins_set [OF l'(1)] k True eq [OF l'(2)]
      by auto
  next
    case False
    then obtain gr r' where r': "rb_ins cmp node r = Inr (gr, r')"
      "rb_inorder t' = rb_inorder l @ x # rb_inorder r'" "cmp node x \<noteq> 0"
      using RbNode.prems(1) k
      by (auto simp: exec_bind_Inr_iff split: if_splits dest!: rb_step_right_inorder)
    then show ?thesis
      using RbNode.IH(2) [OF r'(1)] RbNode.prems(2-) ins_set [OF r'(1)] k False eq [OF r'(2)]
      by auto
  qed
qed

lemma no_zero:
  assumes "rb_ok valid key t" "valid node" "rb_map key t (key node) = None"
  shows "\<forall>x\<in>set (rb_inorder t). cmp node x \<noteq> 0"
proof
  fix x assume x: "x \<in> set (rb_inorder t)"
  then have "key x \<noteq> key node"
    using assms(1, 3) rb_map_eq [of key t "key node" x] by (auto simp: rb_ok_def)
  then show "cmp node x \<noteq> 0"
    using assms(1, 2) x cmp_eq [of node x] by (auto simp: rb_ok_def)
qed

lemma insert_ok:
  assumes "rb_ok valid key t" "valid node" "rb_map key t (key node) = None"
  shows "\<exists>t'. rb_insert cmp node t = Inr t' \<and> rb_ok valid key t' \<and>
           rb_map key t' = (rb_map key t)(key node \<mapsto> node)"
proof -
  obtain t' where t': "rb_insert cmp node t = Inr t'" "llrb t'"
    using rb_insert_llrb [of t cmp node] no_zero [OF assms] assms(1) by (auto simp: rb_ok_def)
  then obtain go u where u: "rb_ins cmp node t = Inr (go, u)" "rb_inorder t' = rb_inorder u"
  proof -
    assume a: "\<And>go u. rb_ins cmp node t = Inr (go, u) \<Longrightarrow> rb_inorder t' = rb_inorder u \<Longrightarrow> thesis"
    from t'(1) obtain go u where "rb_ins cmp node t = Inr (go, u)"
      "(if go then rbtn_color_set False u else Inr u) = Inr t'"
      by (auto simp: rb_insert_rec exec_bind_Inr_iff)
    then show thesis by (intro a [of go u]) (cases u; auto split: if_splits)+
  qed
  have sorted: "rb_sorted key t'"
    using ins_sorted [OF u(1)] assms u(2) by (simp add: rb_ok_def rb_sorted_def)
  have set: "set (rb_inorder t') = insert node (set (rb_inorder t))"
    using ins_set [OF u(1)] u(2) by simp
  have "rb_map key t' = (rb_map key t)(key node \<mapsto> node)"
    using assms(1, 3) sorted set rb_map_eq [of key t "key node"]
    by (intro rb_map_ext) (auto simp: rb_ok_def)
  then show ?thesis
    using t' sorted set assms(1, 2) by (auto simp: rb_ok_def)
qed

lemma ins_dup:
  assumes "rb_sorted key t" "\<forall>x\<in>set (rb_inorder t). valid x" "valid node"
    "rb_map key t (key node) \<noteq> None"
  shows "rb_ins cmp node t = Inl Assert_Failed"
proof -
  have "rb_search cmp node t \<noteq> None" using assms search_map by simp
  then show ?thesis by (induction t) (auto simp: Let_def split: if_splits)
qed

lemma insert_dup:
  "rb_ok valid key t \<Longrightarrow> valid node \<Longrightarrow> rb_map key t (key node) \<noteq> None \<Longrightarrow>
   rb_insert cmp node t = Inl Assert_Failed"
  using ins_dup by (simp add: rb_ok_def rb_insert_rec)

lemma remove_ok:
  assumes "rb_ok valid key t" "valid node" "rb_map key t (key node) = Some node"
  shows "\<exists>t'. rb_remove cmp node t = Inr t' \<and> rb_ok valid key t' \<and>
           rb_map key t' = (rb_map key t)(key node := None)"
proof -
  have "rb_search cmp node t = Some node" using assms search_ok by simp
  then obtain t' where t': "rb_remove cmp node t = Inr t'" "llrb t'"
    using rb_remove_llrb [of t cmp node] assms(1) by (auto simp: rb_ok_def)
  have taken: "taken node (rb_inorder t) (rb_inorder t')"
    using rb_remove_inorder [OF _ t'(1)] assms(1) by (simp add: rb_ok_def)
  have st: "rb_sorted key t" using assms(1) by (simp add: rb_ok_def)
  note s = taken_sorted [OF st taken]
  have "rb_map key t' = (rb_map key t)(key node := None)"
    using s st assms(3) rb_map_eq [OF st, of "key node"]
    by (intro rb_map_ext) (auto, metis option.inject)
  then show ?thesis
    using t' s assms(1) by (auto simp: rb_ok_def)
qed

lemma found:
  assumes "rb_ok valid key t" "valid k" "rb_search cmp k t = Some n"
  shows "valid n" "key n = key k" "rb_map key t (key k) = Some n"
  using assms search_ok [OF assms(1, 2)] by (auto simp: rb_ok_def dest: rb_map_SomeD)

lemma remove_found:
  assumes "rb_ok valid key t" "valid k" "rb_search cmp k t = Some n"
  shows "\<exists>t'. rb_remove cmp n t = Inr t' \<and> rb_ok valid key t' \<and>
           rb_map key t' = (rb_map key t)(key k := None)"
  using remove_ok [OF assms(1), of n] found [OF assms] by simp

lemma del_absent:
  assumes "rb_search cmp node t = None"
  shows "rb_del cmp node first t = Inl Null_Deref"
  using assms by (induction t arbitrary: first) (auto simp: Let_def split: if_splits)

lemma remove_absent:
  "rb_ok valid key t \<Longrightarrow> valid node \<Longrightarrow> rb_map key t (key node) = None \<Longrightarrow>
   rb_remove cmp node t = Inl Null_Deref"
  by (simp add: rb_remove_rec del_absent search_ok)

lemma write_ok:
  assumes "rb_ok valid key t" "rb_map key t (key n) = Some n" "key n' = key n" "valid n'"
  shows "rb_ok valid key (rb_write n n' t) \<and>
    rb_map key (rb_write n n' t) = (rb_map key t)(key n \<mapsto> n')"
proof -
  let ?f = "\<lambda>x. if x = n then n' else x"
  have io: "rb_inorder (rb_write n n' t) = map ?f (rb_inorder t)"
    by (simp add: rb_write_def rb_inorder_map)
  have st: "rb_sorted key t" using assms(1) by (simp add: rb_ok_def)
  have keys: "key (?f x) = key x" for x using assms(3) by simp
  have sorted: "rb_sorted key (rb_write n n' t)"
    using st by (simp only: rb_sorted_def io sorted_wrt_map keys)
  have n: "n \<in> set (rb_inorder t)" using rb_map_eq [OF st, of "key n" n] assms(2) by simp
  have uniq: "x = n" if "x \<in> set (rb_inorder t)" "key x = key n" for x
    using rb_map_eq [OF st, of "key n" x] assms(2) that by (metis option.inject)
  have set: "set (rb_inorder (rb_write n n' t)) = insert n' (set (rb_inorder t) - {n})"
    unfolding io set_map using n by (rule image_replace)
  have mem: "x \<in> set (rb_inorder (rb_write n n' t)) \<longleftrightarrow>
    (if key x = key n then Some n' = Some x else x \<in> set (rb_inorder t))" for x
  proof (cases "key x = key n")
    case True
    then show ?thesis unfolding set using uniq [of x] by auto
  next
    case False
    then have "x \<noteq> n'" "x \<noteq> n" using assms(3) by metis+
    then show ?thesis unfolding set using False by simp
  qed
  have "rb_map key (rb_write n n' t) = (rb_map key t)(key n \<mapsto> n')"
    by (rule rb_map_ext [OF st sorted mem]) (simp add: assms(3))
  moreover have "llrb (rb_write n n' t)"
    using assms(1) by (simp add: rb_ok_def llrb_def rb_write_def rb_shape_map)
  moreover have "\<forall>x\<in>set (rb_inorder (rb_write n n' t)). valid x"
    unfolding set using assms(1, 4) by (simp add: rb_ok_def)
  ultimately show ?thesis
    using sorted by (simp add: rb_ok_def)
qed

lemma iter_start_list:
  assumes "rb_sorted key t" "\<forall>x\<in>set (rb_inorder t). valid x" "valid start"
  shows "rb_iter_start cmp start cb t s =
    (if rb_map key t (key start) = None then Inl Bad_Access
     else Inr (cb_list cb (filter (\<lambda>x. key start \<le> key x) (rb_inorder t)) s))"
  using assms
proof (induction t arbitrary: s)
  case (RbNode c l x r)
  have k: "cmp start x < 0 \<longleftrightarrow> key start < key x" "cmp start x = 0 \<longleftrightarrow> key start = key x"
    using RbNode.prems cmp_less cmp_eq by auto
  have lt: "\<forall>y\<in>set (rb_inorder l). key y < key x" and gt: "\<forall>y\<in>set (rb_inorder r). key x < key y"
    using RbNode.prems(1) by auto
  have all: "filter (\<lambda>y. key start \<le> key y) (rb_inorder r) = rb_inorder r" if "key start \<le> key x"
    using that gt by (intro filter_True) (auto dest: le_less_trans)
  have none: "filter (\<lambda>y. key start \<le> key y) (rb_inorder l) = []" if "key x \<le> key start"
    using that lt by (intro filter_False) (auto dest: leD less_le_trans)
  consider "key start < key x" | "key start = key x" | "key x < key start" by (rule linorder_cases)
  then show ?case
  proof cases
    case 1
    then have "key start \<notin> key ` set (rb_inorder r)" using gt by (auto dest: less_trans)
    then show ?thesis
      using RbNode k 1 all rb_map_None [of "key start" key r]
      by (auto simp: Let_def map_add_def cb_list_append rb_iter_recurse_list
          split: option.split prod.split)
  next
    case 2
    then show ?thesis
      using k all none by (auto simp: Let_def rb_iter_recurse_list split: option.split prod.split)
  next
    case 3
    then have "key start \<notin> key ` set (rb_inorder l)" using lt by (auto dest: less_trans)
    then show ?thesis
      using RbNode k 3 none rb_map_None [of "key start" key l] by (auto simp: Let_def map_add_def)
  qed
qed simp

lemma new_ok: "rb_ok valid key rb_new \<and> rb_map key rb_new = Map.empty"
  by (simp add: rb_ok_def rb_new_def llrb_def)

end

section \<open>The tree operations as a whole\<close>

text \<open>
  C5: inserting a node whose key is new into a balanced, ordered tree ends without a failed
  assertion in a balanced, ordered tree that holds the old nodes and the new one.
\<close>

theorem rb_insert_adds:
  assumes "ordered_nodes cmp valid key" "rb_ok valid key t" "valid node" "rb_map key t (key node) = None"
  shows "\<exists>t'. rb_insert cmp node t = Inr t' \<and> rb_ok valid key t' \<and>
    rb_map key t' = (rb_map key t)(key node \<mapsto> node)"
  by (rule ordered_nodes.insert_ok [OF assms])

theorem rb_insert_adds_witness:
  "\<exists>t'. rb_insert (\<lambda>a b :: int. a - b) 5 rb_new = Inr t' \<and> rb_ok (\<lambda>_. True) id t' \<and>
     rb_map id t' = (rb_map id rb_new)(5 \<mapsto> 5)"
proof -
  have ord: "ordered_nodes (\<lambda>a b :: int. a - b) (\<lambda>_. True) id" by unfold_locales auto
  then show ?thesis
    using rb_insert_adds [OF ord, of rb_new 5] ordered_nodes.new_ok [OF ord] by simp
qed

text \<open>
  C6: removing the node found for a key from a balanced, ordered tree ends without a failed
  assertion in a balanced, ordered tree that holds exactly the other nodes.
\<close>

theorem rb_remove_deletes:
  assumes "ordered_nodes cmp valid key" "rb_ok valid key t" "valid k" "rb_search cmp k t = Some n"
  shows "\<exists>t'. rb_remove cmp n t = Inr t' \<and> rb_ok valid key t' \<and> rb_map key t' = (rb_map key t)(key k := None)"
  by (rule ordered_nodes.remove_found [OF assms])

theorem rb_remove_deletes_witness:
  "\<exists>t'. rb_remove (\<lambda>a b :: int. a - b) 5 (RbNode False RbNil 5 RbNil) = Inr t' \<and> rb_ok (\<lambda>_. True) id t' \<and>
     rb_map id t' = (rb_map id (RbNode False RbNil 5 RbNil))(5 := None)"
proof -
  have ord: "ordered_nodes (\<lambda>a b :: int. a - b) (\<lambda>_. True) id" by unfold_locales auto
  then show ?thesis
    using rb_remove_deletes [OF ord, of "RbNode False RbNil 5 RbNil" 5 5] by (simp add: rb_ok_def llrb_def)
qed

text \<open>
  C38: in a balanced tree with fewer than \<open>2 ^ 64 - 1\<close> nodes the paths of insertion and
  removal fit into the 128 entries of the \<^verbatim>\<open>path\<close> array, the entry of the sentinel included.
\<close>

theorem rb_path_bound:
  assumes "llrb t" "Suc (length (rb_inorder t)) < 2 ^ 64"
  shows "(\<forall>p. rb_insert_wind cmp node t [] = Inr p \<longrightarrow> length p + 1 \<le> 128) \<and>
    (\<forall>p f q. rb_remove_wind cmp node t [] = Inr (p, f, q) \<longrightarrow> length p + 1 + length q + 1 \<le> 128)"
proof -
  have h: "rb_height t < 2 * 64" by (rule llrb_height [OF assms])
  then show ?thesis
    using rb_insert_wind_length [of cmp node t "[]"] rb_remove_wind_length [of cmp node t "[]"] by fastforce
qed

theorem rb_path_bound_witness:
  "\<exists>p. rb_insert_wind (\<lambda>a b :: int. a - b) 3 (RbNode False RbNil 5 RbNil) [] = Inr p \<and> length p + 1 \<le> 128"
proof -
  have t: "llrb (RbNode False RbNil (5::int) RbNil)" by (simp add: llrb_def)
  show ?thesis
    using rb_path_bound [OF t, of "\<lambda>a b. a - b" 3] by (simp add: Let_def)
qed

text \<open>
  C39: iterating from a start node that is present calls back on the nodes with at least
  its key, in the order of the keys, until a call returns a value.
\<close>

theorem rb_iter_in_order:
  assumes "ordered_nodes cmp valid key" "rb_ok valid key t" "valid start" "rb_map key t (key start) \<noteq> None"
  shows "rb_iter cmp (Some start) cb t s = Inr (cb_list cb (filter (\<lambda>x. key start \<le> key x) (rb_inorder t)) s) \<and>
    sorted_wrt (\<lambda>x y. key x < key y) (rb_inorder t)"
  using ordered_nodes.iter_start_list [OF assms(1), of t start cb s] assms(2-4)
  by (auto simp: rb_iter_def rb_ok_def rb_sorted_def)

theorem rb_iter_in_order_witness:
  "rb_iter (\<lambda>a b :: int. a - b) (Some 5) (\<lambda>x s. (x # s, None :: unit option)) (RbNode False RbNil 5 RbNil) [] =
     Inr (cb_list (\<lambda>x s. (x # s, None)) (filter (\<lambda>x. id 5 \<le> id x) (rb_inorder (RbNode False RbNil 5 RbNil))) []) \<and>
   sorted_wrt (\<lambda>x y. id x < id y) (rb_inorder (RbNode False RbNil (5::int) RbNil))"
proof -
  have ord: "ordered_nodes (\<lambda>a b :: int. a - b) (\<lambda>_. True) id" by unfold_locales auto
  show ?thesis by (rule rb_iter_in_order [OF ord]) (simp_all add: rb_ok_def llrb_def)
qed

end
