(* ===== verification/Job_Trees.thy ===== *)
theory Job_Trees
  imports Rb_Correct
begin

text \<open>
  The job map tree (\<^verbatim>\<open>sfs/include/sfs_jobmap_tree.h\<close>, thread id to job map) and the
  job id tree (\<^verbatim>\<open>sfs/include/sfs_jobid_tree.h\<close>, job id to waiting thread and job):
  their node types, comparison functions and the insert and remove operations on
  the global tree under its spin lock.  Pointers to job maps and jobs are opaque
  addresses, \<open>None\<close> being null; whether \<^verbatim>\<open>malloc\<close> succeeds is a parameter.
\<close>

type_synonym ptr = "nat option"

section \<open>The job map tree\<close>

definition JMNODE_MAGIC :: "32 word" where
  "JMNODE_MAGIC = 0x5a5a5a5a"

record sstack_jm =
  jm_magic :: "32 word"
  jm_thread_id :: "64 word"
  jm_job_map :: ptr

definition jobmap_tree_cmp :: "sstack_jm option \<Rightarrow> sstack_jm option \<Rightarrow> int" where
  "jobmap_tree_cmp node1 node2 =
     (case (node1, node2) of
        (Some n1, Some n2) \<Rightarrow>
          if jm_magic n1 \<noteq> JMNODE_MAGIC \<or> jm_magic n2 \<noteq> JMNODE_MAGIC then EFAULT
          else of_bool (jm_thread_id n1 > jm_thread_id n2) - of_bool (jm_thread_id n1 < jm_thread_id n2)
      | _ \<Rightarrow> EINVAL)"

abbreviation jm_cmp :: "sstack_jm \<Rightarrow> sstack_jm \<Rightarrow> int" where
  "jm_cmp a b \<equiv> jobmap_tree_cmp (Some a) (Some b)"

definition jm_valid :: "sstack_jm \<Rightarrow> bool" where
  "jm_valid n \<longleftrightarrow> jm_magic n = JMNODE_MAGIC"

interpretation jm: ordered_nodes jm_cmp jm_valid jm_thread_id
  by unfold_locales (auto simp: jobmap_tree_cmp_def jm_valid_def of_bool_def)

text \<open>The globals \<^verbatim>\<open>jobmap_tree\<close>, \<^verbatim>\<open>jobmap_lock\<close> and \<^verbatim>\<open>errno\<close>.\<close>

record jm_state =
  jobmap_tree :: "sstack_jm rb_tree"
  jobmap_lock :: bool
  jm_errno :: int

definition jobmap_tree_init :: "bool \<Rightarrow> sstack_jm rb_tree option" where
  "jobmap_tree_init mem = (if mem then Some rb_new else None)"

text \<open>A fresh node has unspecified contents, the parameter \<open>junk\<close>.\<close>

definition create_jmtree_node :: "sstack_jm option \<Rightarrow> sstack_jm option" where
  "create_jmtree_node junk = junk"

definition sfs_job_context_insert ::
  "sstack_jm option \<Rightarrow> 64 word \<Rightarrow> ptr \<Rightarrow> jm_state \<Rightarrow> (int \<times> jm_state) exec" where
  "sfs_job_context_insert mem thread_id job_map s =
     (if thread_id < 0 \<or> job_map = None then Inr (-1, s\<lparr>jm_errno := EINVAL\<rparr>)
      else case create_jmtree_node mem of
        None \<Rightarrow> Inr (-1, s\<lparr>jm_errno := ENOMEM\<rparr>)
      | Some node \<Rightarrow>
          let node = node\<lparr>jm_magic := JMNODE_MAGIC, jm_thread_id := thread_id, jm_job_map := job_map\<rparr> in
          exec_bind (pthread_spin_lock (jobmap_lock s)) (\<lambda>l.
          exec_bind (rb_insert jm_cmp node (jobmap_tree s)) (\<lambda>t.
          Inr (0, s\<lparr>jobmap_tree := t, jobmap_lock := False\<rparr>))))"

text \<open>The local \<^verbatim>\<open>snode\<close> has unspecified contents beyond the fields set here.\<close>

definition sfs_job_context_remove ::
  "sstack_jm \<Rightarrow> 64 word \<Rightarrow> jm_state \<Rightarrow> jm_state exec" where
  "sfs_job_context_remove snode thread_id s =
     (if thread_id < 0 then Inr (s\<lparr>jm_errno := EINVAL\<rparr>)
      else
        let snode = snode\<lparr>jm_magic := JMNODE_MAGIC, jm_thread_id := thread_id\<rparr> in
        exec_bind (pthread_spin_lock (jobmap_lock s)) (\<lambda>l.
        case rb_search jm_cmp snode (jobmap_tree s) of
          None \<Rightarrow> Inr (s\<lparr>jm_errno := EFAULT, jobmap_lock := False\<rparr>)
        | Some node \<Rightarrow>
            exec_bind (rb_remove jm_cmp node (jobmap_tree s)) (\<lambda>t.
            Inr (s\<lparr>jobmap_tree := t, jobmap_lock := False, jm_errno := 0\<rparr>))))"

text \<open>The tree as a map from thread ids to job maps, and the state between operations.\<close>

definition jm_abs :: "jm_state \<Rightarrow> 64 word \<rightharpoonup> ptr" where
  "jm_abs s = map_option jm_job_map \<circ> rb_map jm_thread_id (jobmap_tree s)"

definition jm_inv :: "jm_state \<Rightarrow> bool" where
  "jm_inv s \<longleftrightarrow> rb_ok jm_valid jm_thread_id (jobmap_tree s) \<and> \<not> jobmap_lock s"

lemma jm_insert_new:
  assumes "jm_inv s" "jm_abs s tid = None" "job_map \<noteq> None"
  shows "\<exists>s'. sfs_job_context_insert (Some junk) tid job_map s = Inr (0, s') \<and> jm_inv s' \<and>
           jm_abs s' = (jm_abs s)(tid \<mapsto> job_map) \<and> jm_errno s' = jm_errno s"
proof -
  let ?n = "junk\<lparr>jm_magic := JMNODE_MAGIC, jm_thread_id := tid, jm_job_map := job_map\<rparr>"
  obtain t where "rb_insert jm_cmp ?n (jobmap_tree s) = Inr t" "rb_ok jm_valid jm_thread_id t"
    "rb_map jm_thread_id t = (rb_map jm_thread_id (jobmap_tree s))(tid \<mapsto> ?n)"
    using jm.insert_ok [of "jobmap_tree s" ?n] assms
    by (auto simp: jm_inv_def jm_abs_def jm_valid_def)
  then show ?thesis
    using assms
    by (auto simp: sfs_job_context_insert_def create_jmtree_node_def jm_inv_def jm_abs_def fun_eq_iff)
qed

lemma jm_insert_dup:
  assumes "jm_inv s" "jm_abs s tid \<noteq> None" "job_map \<noteq> None"
  shows "sfs_job_context_insert (Some junk) tid job_map s = Inl Assert_Failed"
proof -
  let ?n = "junk\<lparr>jm_magic := JMNODE_MAGIC, jm_thread_id := tid, jm_job_map := job_map\<rparr>"
  have "rb_insert jm_cmp ?n (jobmap_tree s) = Inl Assert_Failed"
    using jm.insert_dup [of "jobmap_tree s" ?n] assms
    by (auto simp: jm_inv_def jm_abs_def jm_valid_def)
  then show ?thesis
    using assms
    by (auto simp: sfs_job_context_insert_def create_jmtree_node_def jm_inv_def)
qed

lemma jm_remove:
  assumes "jm_inv s"
  shows "\<exists>s'. sfs_job_context_remove snode tid s = Inr s' \<and> jm_inv s' \<and>
           jm_abs s' = (jm_abs s)(tid := None) \<and>
           jm_errno s' = (if jm_abs s tid = None then EFAULT else 0)"
proof -
  let ?n = "snode\<lparr>jm_magic := JMNODE_MAGIC, jm_thread_id := tid\<rparr>"
  have search: "rb_search jm_cmp ?n (jobmap_tree s) = rb_map jm_thread_id (jobmap_tree s) tid"
    using jm.search_ok [of "jobmap_tree s" ?n] assms by (simp add: jm_inv_def jm_valid_def)
  show ?thesis
  proof (cases "rb_search jm_cmp ?n (jobmap_tree s)")
    case None
    then show ?thesis
      using assms search
      by (auto simp: sfs_job_context_remove_def jm_inv_def jm_abs_def fun_eq_iff)
  next
    case (Some n)
    obtain t where "rb_remove jm_cmp n (jobmap_tree s) = Inr t" "rb_ok jm_valid jm_thread_id t"
      "rb_map jm_thread_id t = (rb_map jm_thread_id (jobmap_tree s))(tid := None)"
      using jm.remove_found [OF _ _ Some] assms by (auto simp: jm_inv_def jm_valid_def)
    then show ?thesis
      using assms search Some
      by (auto simp: sfs_job_context_remove_def jm_inv_def jm_abs_def fun_eq_iff)
  qed
qed

section \<open>The job id tree\<close>

definition JTNODE_MAGIC :: "32 word" where
  "JTNODE_MAGIC = 0xa5a5a5a5"

record sstack_jt =
  jt_magic :: "32 word"
  jt_job_id :: "64 word"
  jt_thread_id :: "64 word"
  jt_job :: ptr

definition jobid_tree_cmp :: "sstack_jt option \<Rightarrow> sstack_jt option \<Rightarrow> int" where
  "jobid_tree_cmp node1 node2 =
     (case (node1, node2) of
        (Some n1, Some n2) \<Rightarrow>
          if jt_magic n1 \<noteq> JTNODE_MAGIC \<or> jt_magic n2 \<noteq> JTNODE_MAGIC then EFAULT
          else of_bool (jt_job_id n1 > jt_job_id n2) - of_bool (jt_job_id n1 < jt_job_id n2)
      | _ \<Rightarrow> EINVAL)"

abbreviation jt_cmp :: "sstack_jt \<Rightarrow> sstack_jt \<Rightarrow> int" where
  "jt_cmp a b \<equiv> jobid_tree_cmp (Some a) (Some b)"

definition jt_valid :: "sstack_jt \<Rightarrow> bool" where
  "jt_valid n \<longleftrightarrow> jt_magic n = JTNODE_MAGIC"

interpretation jt: ordered_nodes jt_cmp jt_valid jt_job_id
  by unfold_locales (auto simp: jobid_tree_cmp_def jt_valid_def of_bool_def)

record jt_state =
  jobid_tree :: "sstack_jt rb_tree"
  jobid_lock :: bool
  jt_errno :: int

definition jobid_tree_init :: "bool \<Rightarrow> sstack_jt rb_tree option" where
  "jobid_tree_init mem = (if mem then Some rb_new else None)"

definition create_jttree_node :: "sstack_jt option \<Rightarrow> sstack_jt option" where
  "create_jttree_node junk = junk"

definition sfs_job2thread_map_insert ::
  "sstack_jt option \<Rightarrow> 64 word \<Rightarrow> 64 word \<Rightarrow> ptr \<Rightarrow> jt_state \<Rightarrow> (int \<times> jt_state) exec" where
  "sfs_job2thread_map_insert mem thread_id job_id job s =
     (if thread_id < 0 \<or> job_id < 0 then Inr (-1, s\<lparr>jt_errno := EINVAL\<rparr>)
      else case create_jttree_node mem of
        None \<Rightarrow> Inr (-1, s\<lparr>jt_errno := ENOMEM\<rparr>)
      | Some node \<Rightarrow>
          let node = node\<lparr>jt_magic := JTNODE_MAGIC, jt_thread_id := thread_id,
                          jt_job_id := job_id, jt_job := job\<rparr> in
          exec_bind (pthread_spin_lock (jobid_lock s)) (\<lambda>l.
          exec_bind (rb_insert jt_cmp node (jobid_tree s)) (\<lambda>t.
          Inr (0, s\<lparr>jobid_tree := t, jobid_lock := False\<rparr>))))"

definition sfs_job2thread_map_remove ::
  "sstack_jt \<Rightarrow> 64 word \<Rightarrow> jt_state \<Rightarrow> jt_state exec" where
  "sfs_job2thread_map_remove snode job_id s =
     (if job_id < 0 then Inr (s\<lparr>jt_errno := EINVAL\<rparr>)
      else
        let snode = snode\<lparr>jt_magic := JTNODE_MAGIC, jt_job_id := job_id\<rparr> in
        exec_bind (pthread_spin_lock (jobid_lock s)) (\<lambda>l.
        case rb_search jt_cmp snode (jobid_tree s) of
          None \<Rightarrow> Inr (s\<lparr>jt_errno := EFAULT, jobid_lock := False\<rparr>)
        | Some node \<Rightarrow>
            exec_bind (rb_remove jt_cmp node (jobid_tree s)) (\<lambda>t.
            Inr (s\<lparr>jobid_tree := t, jobid_lock := False, jt_errno := 0\<rparr>))))"

definition jt_abs :: "jt_state \<Rightarrow> 64 word \<rightharpoonup> 64 word \<times> ptr" where
  "jt_abs s = map_option (\<lambda>n. (jt_thread_id n, jt_job n)) \<circ> rb_map jt_job_id (jobid_tree s)"

definition jt_inv :: "jt_state \<Rightarrow> bool" where
  "jt_inv s \<longleftrightarrow> rb_ok jt_valid jt_job_id (jobid_tree s) \<and> \<not> jobid_lock s"

lemma jt_insert_new:
  assumes "jt_inv s" "jt_abs s jid = None"
  shows "\<exists>s'. sfs_job2thread_map_insert (Some junk) tid jid job s = Inr (0, s') \<and> jt_inv s' \<and>
           jt_abs s' = (jt_abs s)(jid \<mapsto> (tid, job)) \<and> jt_errno s' = jt_errno s"
proof -
  let ?n = "junk\<lparr>jt_magic := JTNODE_MAGIC, jt_thread_id := tid, jt_job_id := jid, jt_job := job\<rparr>"
  obtain t where "rb_insert jt_cmp ?n (jobid_tree s) = Inr t" "rb_ok jt_valid jt_job_id t"
    "rb_map jt_job_id t = (rb_map jt_job_id (jobid_tree s))(jid \<mapsto> ?n)"
    using jt.insert_ok [of "jobid_tree s" ?n] assms
    by (auto simp: jt_inv_def jt_abs_def jt_valid_def)
  then show ?thesis
    using assms
    by (auto simp: sfs_job2thread_map_insert_def create_jttree_node_def jt_inv_def jt_abs_def
        fun_eq_iff)
qed

lemma jt_insert_dup:
  assumes "jt_inv s" "jt_abs s jid \<noteq> None"
  shows "sfs_job2thread_map_insert (Some junk) tid jid job s = Inl Assert_Failed"
proof -
  let ?n = "junk\<lparr>jt_magic := JTNODE_MAGIC, jt_thread_id := tid, jt_job_id := jid, jt_job := job\<rparr>"
  have "rb_insert jt_cmp ?n (jobid_tree s) = Inl Assert_Failed"
    using jt.insert_dup [of "jobid_tree s" ?n] assms
    by (auto simp: jt_inv_def jt_abs_def jt_valid_def)
  then show ?thesis
    using assms by (auto simp: sfs_job2thread_map_insert_def create_jttree_node_def jt_inv_def)
qed

lemma jt_remove:
  assumes "jt_inv s"
  shows "\<exists>s'. sfs_job2thread_map_remove snode jid s = Inr s' \<and> jt_inv s' \<and>
           jt_abs s' = (jt_abs s)(jid := None) \<and>
           jt_errno s' = (if jt_abs s jid = None then EFAULT else 0)"
proof -
  let ?n = "snode\<lparr>jt_magic := JTNODE_MAGIC, jt_job_id := jid\<rparr>"
  have search: "rb_search jt_cmp ?n (jobid_tree s) = rb_map jt_job_id (jobid_tree s) jid"
    using jt.search_ok [of "jobid_tree s" ?n] assms by (simp add: jt_inv_def jt_valid_def)
  show ?thesis
  proof (cases "rb_search jt_cmp ?n (jobid_tree s)")
    case None
    then show ?thesis
      using assms search
      by (auto simp: sfs_job2thread_map_remove_def jt_inv_def jt_abs_def fun_eq_iff)
  next
    case (Some n)
    obtain t where "rb_remove jt_cmp n (jobid_tree s) = Inr t" "rb_ok jt_valid jt_job_id t"
      "rb_map jt_job_id t = (rb_map jt_job_id (jobid_tree s))(jid := None)"
      using jt.remove_found [OF _ _ Some] assms by (auto simp: jt_inv_def jt_valid_def)
    then show ?thesis
      using assms search Some
      by (auto simp: sfs_job2thread_map_remove_def jt_inv_def jt_abs_def fun_eq_iff)
  qed
qed

section \<open>The trees as maps\<close>

text \<open>
  C14: the job map tree behaves as a finite map from thread ids to job maps: inserting a
  new thread adds it, inserting a thread that is present fails the assertion of the tree,
  removing a thread deletes it or sets \<^verbatim>\<open>errno\<close> to \<^verbatim>\<open>EFAULT\<close>; the lock is free afterwards and
  the tree balanced.
\<close>

theorem jobmap_tree_refines_map:
  assumes "jm_inv s" "job_map \<noteq> None"
  shows "(jm_abs s tid = None \<longrightarrow>
      (\<exists>s'. sfs_job_context_insert (Some junk) tid job_map s = Inr (0, s') \<and> jm_inv s' \<and>
         jm_abs s' = (jm_abs s)(tid \<mapsto> job_map))) \<and>
    (jm_abs s tid \<noteq> None \<longrightarrow> sfs_job_context_insert (Some junk) tid job_map s = Inl Assert_Failed) \<and>
    (\<exists>s'. sfs_job_context_remove snode tid s = Inr s' \<and> jm_inv s' \<and> jm_abs s' = (jm_abs s)(tid := None) \<and>
       jm_errno s' = (if jm_abs s tid = None then EFAULT else 0))"
  using jm_insert_new [OF assms(1) _ assms(2)] jm_insert_dup [OF assms(1) _ assms(2)] jm_remove [OF assms(1)]
  by blast

definition sample_jm :: jm_state where
  "sample_jm = \<lparr>jobmap_tree = rb_new, jobmap_lock = False, jm_errno = 0\<rparr>"

lemma sample_jm: "jm_inv sample_jm" "jm_abs sample_jm = Map.empty"
  using jm.new_ok by (simp_all add: jm_inv_def jm_abs_def sample_jm_def fun_eq_iff)

theorem jobmap_tree_refines_map_witness:
  "\<exists>s'. sfs_job_context_insert (Some \<lparr>jm_magic = 0, jm_thread_id = 0, jm_job_map = None\<rparr>) 7 (Some 100) sample_jm = Inr (0, s') \<and>
     jm_inv s' \<and> jm_abs s' = (jm_abs sample_jm)(7 \<mapsto> Some 100)"
  using jobmap_tree_refines_map [OF sample_jm(1), of "Some 100" 7] sample_jm(2) by simp

text \<open>
  C15: the job id tree behaves as a finite map from job ids to waiting thread and job, with
  the same outcomes.
\<close>

theorem jobid_tree_refines_map:
  assumes "jt_inv s"
  shows "(jt_abs s jid = None \<longrightarrow>
      (\<exists>s'. sfs_job2thread_map_insert (Some junk) tid jid job s = Inr (0, s') \<and> jt_inv s' \<and>
         jt_abs s' = (jt_abs s)(jid \<mapsto> (tid, job)))) \<and>
    (jt_abs s jid \<noteq> None \<longrightarrow> sfs_job2thread_map_insert (Some junk) tid jid job s = Inl Assert_Failed) \<and>
    (\<exists>s'. sfs_job2thread_map_remove snode jid s = Inr s' \<and> jt_inv s' \<and> jt_abs s' = (jt_abs s)(jid := None) \<and>
       jt_errno s' = (if jt_abs s jid = None then EFAULT else 0))"
  using jt_insert_new [OF assms] jt_insert_dup [OF assms] jt_remove [OF assms] by blast

definition sample_jt :: jt_state where
  "sample_jt = \<lparr>jobid_tree = rb_new, jobid_lock = False, jt_errno = 0\<rparr>"

lemma sample_jt: "jt_inv sample_jt" "jt_abs sample_jt = Map.empty"
  using jt.new_ok by (simp_all add: jt_inv_def jt_abs_def sample_jt_def fun_eq_iff)

theorem jobid_tree_refines_map_witness:
  "\<exists>s'. sfs_job2thread_map_insert (Some \<lparr>jt_magic = 0, jt_job_id = 0, jt_thread_id = 0, jt_job = None\<rparr>) 3 7 (Some 100) sample_jt =
       Inr (0, s') \<and> jt_inv s' \<and> jt_abs s' = (jt_abs sample_jt)(7 \<mapsto> (3, Some 100))"
  using jobid_tree_refines_map [OF sample_jt(1), of 7] sample_jt(2) by simp

end
