(* ===== verification/File_Lock.thy ===== *)
theory File_Lock
  imports Rb_Correct
begin

text \<open>
  The file lock tree of \<^verbatim>\<open>sfs/include/sfs_lock_tree.h\<close>: one node per locked inode,
  read and write locking and unlocking of inodes.  The spin lock of the tree and
  that of each node are flags; each operation runs to its end before the next.
\<close>

definition LOCKNODE_MAGIC :: "32 word" where
  "LOCKNODE_MAGIC = 0x28071937"

text \<open>\<open>Lock_Other\<close> is any value of the enumeration type that none of its constants has.\<close>

datatype sstack_lock_state = RDLOCKED | WRLOCKED | UNLOCKED | Lock_Other int

record sstack_file_lock =
  fl_magic :: "32 word"
  fl_inode_num :: "64 word"
  fl_state :: sstack_lock_state
  fl_lock :: bool

definition filelock_tree_cmp :: "sstack_file_lock option \<Rightarrow> sstack_file_lock option \<Rightarrow> int" where
  "filelock_tree_cmp node1 node2 =
     (case (node1, node2) of
        (Some n1, Some n2) \<Rightarrow>
          if fl_magic n1 \<noteq> LOCKNODE_MAGIC \<or> fl_magic n2 \<noteq> LOCKNODE_MAGIC then EFAULT
          else of_bool (fl_inode_num n1 > fl_inode_num n2) - of_bool (fl_inode_num n1 < fl_inode_num n2)
      | _ \<Rightarrow> EINVAL)"

abbreviation fl_cmp :: "sstack_file_lock \<Rightarrow> sstack_file_lock \<Rightarrow> int" where
  "fl_cmp a b \<equiv> filelock_tree_cmp (Some a) (Some b)"

definition fl_valid :: "sstack_file_lock \<Rightarrow> bool" where
  "fl_valid n \<longleftrightarrow> fl_magic n = LOCKNODE_MAGIC"

interpretation fl: ordered_nodes fl_cmp fl_valid fl_inode_num
  by unfold_locales (auto simp: filelock_tree_cmp_def fl_valid_def of_bool_def)

text \<open>The globals \<^verbatim>\<open>filelock_tree\<close>, \<^verbatim>\<open>filelock_lock\<close> and \<^verbatim>\<open>errno\<close>.\<close>

record fl_globals =
  filelock_tree :: "sstack_file_lock rb_tree"
  filelock_lock :: bool
  fl_errno :: int

definition filelock_tree_init :: "bool \<Rightarrow> sstack_file_lock rb_tree option" where
  "filelock_tree_init mem = (if mem then Some rb_new else None)"

definition create_filelocktree_node :: "sstack_file_lock option \<Rightarrow> sstack_file_lock option" where
  "create_filelocktree_node mem =
     (case mem of
        None \<Rightarrow> None
      | Some node \<Rightarrow> Some (node\<lparr>fl_magic := LOCKNODE_MAGIC, fl_state := UNLOCKED, fl_lock := False\<rparr>))"

definition sfs_filelock_context_insert ::
  "sstack_file_lock option \<Rightarrow> 64 word \<Rightarrow> fl_globals \<Rightarrow> (int \<times> fl_globals) exec" where
  "sfs_filelock_context_insert mem inode_num s =
     (if inode_num < 0 then Inr (-1, s\<lparr>fl_errno := EINVAL\<rparr>)
      else case create_filelocktree_node mem of
        None \<Rightarrow> Inr (-1, s\<lparr>fl_errno := ENOMEM\<rparr>)
      | Some node \<Rightarrow>
          let node = node\<lparr>fl_inode_num := inode_num\<rparr> in
          exec_bind (pthread_spin_lock (filelock_lock s)) (\<lambda>_.
          exec_bind (rb_insert fl_cmp node (filelock_tree s)) (\<lambda>t.
          Inr (0, s\<lparr>filelock_tree := t, filelock_lock := False\<rparr>))))"

definition sfs_filelock_context_remove ::
  "sstack_file_lock \<Rightarrow> 64 word \<Rightarrow> fl_globals \<Rightarrow> fl_globals exec" where
  "sfs_filelock_context_remove snode inode_num s =
     (if inode_num < 0 then Inr (s\<lparr>fl_errno := EINVAL\<rparr>)
      else
        let snode = snode\<lparr>fl_magic := LOCKNODE_MAGIC, fl_inode_num := inode_num\<rparr> in
        exec_bind (pthread_spin_lock (filelock_lock s)) (\<lambda>_.
        case rb_search fl_cmp snode (filelock_tree s) of
          None \<Rightarrow> Inr (s\<lparr>fl_errno := EFAULT, filelock_lock := False\<rparr>)
        | Some node \<Rightarrow>
            exec_bind (rb_remove fl_cmp node (filelock_tree s)) (\<lambda>t.
            Inr (s\<lparr>filelock_tree := t, filelock_lock := False, fl_errno := 0\<rparr>))))"

text \<open>
  \<open>mem\<close> is the outcome of \<^verbatim>\<open>malloc\<close>: \<open>None\<close> if it fails, otherwise the contents of
  the new node before they are set.  \<open>node\<close> is the uninitialised local of that name.
\<close>

definition sfs_rdlock ::
  "sstack_file_lock option \<Rightarrow> sstack_file_lock \<Rightarrow> 64 word \<Rightarrow> fl_globals \<Rightarrow> (int \<times> fl_globals) exec" where
  "sfs_rdlock mem node inode_num s =
     (if inode_num < 0 then Inr (-1, s\<lparr>fl_errno := EINVAL\<rparr>)
      else
        let node = node\<lparr>fl_magic := LOCKNODE_MAGIC, fl_inode_num := inode_num\<rparr> in
        exec_bind (pthread_spin_lock (filelock_lock s)) (\<lambda>_.
        case rb_search fl_cmp node (filelock_tree s) of
          None \<Rightarrow>
            (case create_filelocktree_node mem of
               None \<Rightarrow> Inr (-1, s\<lparr>fl_errno := ENOMEM, filelock_lock := False\<rparr>)
             | Some file_lock \<Rightarrow>
                 let file_lock = file_lock\<lparr>fl_inode_num := inode_num\<rparr> in
                 exec_bind (pthread_spin_lock (fl_lock file_lock)) (\<lambda>_.
                 let file_lock = file_lock\<lparr>fl_state := RDLOCKED, fl_lock := False\<rparr> in
                 exec_bind (rb_insert fl_cmp file_lock (filelock_tree s)) (\<lambda>t.
                 Inr (0, s\<lparr>filelock_tree := t, filelock_lock := False\<rparr>))))
        | Some file_lock \<Rightarrow>
            exec_bind (pthread_spin_lock (fl_lock file_lock)) (\<lambda>_.
            case fl_state file_lock of
              RDLOCKED \<Rightarrow> Inr (0, s\<lparr>filelock_lock := False\<rparr>)
            | WRLOCKED \<Rightarrow> Inr (-1, s\<lparr>fl_errno := EAGAIN, filelock_lock := False\<rparr>)
            | UNLOCKED \<Rightarrow>
                let file_lock' = file_lock\<lparr>fl_state := RDLOCKED, fl_lock := False\<rparr> in
                exec_bind (rb_insert fl_cmp file_lock'
                            (rb_write file_lock file_lock' (filelock_tree s))) (\<lambda>t.
                Inr (0, s\<lparr>filelock_tree := t, filelock_lock := False\<rparr>))
            | Lock_Other v \<Rightarrow>
                exec_bind (pthread_spin_lock True) (\<lambda>_.
                Inr (-1, s\<lparr>filelock_lock := False\<rparr>)))))"

definition sfs_wrlock ::
  "sstack_file_lock option \<Rightarrow> sstack_file_lock \<Rightarrow> 64 word \<Rightarrow> fl_globals \<Rightarrow> (int \<times> fl_globals) exec" where
  "sfs_wrlock mem node inode_num s =
     (if inode_num < 0 then Inr (-1, s\<lparr>fl_errno := EINVAL\<rparr>)
      else
        let node = node\<lparr>fl_magic := LOCKNODE_MAGIC, fl_inode_num := inode_num\<rparr> in
        exec_bind (pthread_spin_lock (filelock_lock s)) (\<lambda>_.
        case rb_search fl_cmp node (filelock_tree s) of
          None \<Rightarrow>
            (case create_filelocktree_node mem of
               None \<Rightarrow> Inr (-1, s\<lparr>fl_errno := ENOMEM, filelock_lock := False\<rparr>)
             | Some file_lock \<Rightarrow>
                 let file_lock = file_lock\<lparr>fl_inode_num := inode_num\<rparr> in
                 exec_bind (pthread_spin_lock (fl_lock file_lock)) (\<lambda>_.
                 let file_lock = file_lock\<lparr>fl_state := WRLOCKED, fl_lock := False\<rparr> in
                 exec_bind (rb_insert fl_cmp file_lock (filelock_tree s)) (\<lambda>t.
                 Inr (0, s\<lparr>filelock_tree := t, filelock_lock := False\<rparr>))))
        | Some file_lock \<Rightarrow>
            let s = s\<lparr>filelock_lock := False\<rparr> in
            exec_bind (pthread_spin_lock (fl_lock file_lock)) (\<lambda>_.
            case fl_state file_lock of
              RDLOCKED \<Rightarrow> Inr (-1, s\<lparr>fl_errno := EAGAIN\<rparr>)
            | WRLOCKED \<Rightarrow> Inr (-1, s\<lparr>fl_errno := EAGAIN\<rparr>)
            | UNLOCKED \<Rightarrow>
                let file_lock' = file_lock\<lparr>fl_state := WRLOCKED, fl_lock := False\<rparr> in
                exec_bind (rb_insert fl_cmp file_lock'
                            (rb_write file_lock file_lock' (filelock_tree s))) (\<lambda>t.
                Inr (0, s\<lparr>filelock_tree := t\<rparr>))
            | Lock_Other v \<Rightarrow>
                exec_bind (pthread_spin_lock True) (\<lambda>_. Inr (-1, s)))))"

definition sfs_unlock ::
  "sstack_file_lock \<Rightarrow> 64 word \<Rightarrow> fl_globals \<Rightarrow> (int \<times> fl_globals) exec" where
  "sfs_unlock node inode_num s =
     (if inode_num < 0 then Inr (-1, s\<lparr>fl_errno := EINVAL\<rparr>)
      else
        let node = node\<lparr>fl_magic := LOCKNODE_MAGIC, fl_inode_num := inode_num\<rparr> in
        exec_bind (pthread_spin_lock (filelock_lock s)) (\<lambda>_.
        case rb_search fl_cmp node (filelock_tree s) of
          None \<Rightarrow> Inr (-1, s\<lparr>fl_errno := ENOENT, filelock_lock := False\<rparr>)
        | Some file_lock \<Rightarrow>
            exec_bind (pthread_spin_lock (fl_lock file_lock)) (\<lambda>_.
            let file_lock' = file_lock\<lparr>fl_state := UNLOCKED, fl_lock := False\<rparr> in
            exec_bind (rb_remove fl_cmp file_lock'
                        (rb_write file_lock file_lock' (filelock_tree s))) (\<lambda>t.
            Inr (0, s\<lparr>filelock_tree := t, filelock_lock := False\<rparr>)))))"

section \<open>The lock table as a map\<close>

definition fl_abs :: "fl_globals \<Rightarrow> 64 word \<rightharpoonup> sstack_lock_state" where
  "fl_abs s = map_option fl_state \<circ> rb_map fl_inode_num (filelock_tree s)"

definition fl_inv :: "fl_globals \<Rightarrow> bool" where
  "fl_inv s \<longleftrightarrow> rb_ok fl_valid fl_inode_num (filelock_tree s) \<and> \<not> filelock_lock s \<and>
     (\<forall>n\<in>set (rb_inorder (filelock_tree s)). \<not> fl_lock n)"

text \<open>What a caller of an operation sees: the return value, \<^verbatim>\<open>errno\<close> and the lock table.\<close>

type_synonym fl_view = "int \<times> int \<times> (64 word \<rightharpoonup> sstack_lock_state)"

definition fl_view :: "(int \<times> fl_globals) exec \<Rightarrow> fl_view exec" where
  "fl_view m = exec_bind m (\<lambda>(r, s). Inr (r, fl_errno s, fl_abs s))"

definition fl_keeps :: "(int \<times> fl_globals) exec \<Rightarrow> bool" where
  "fl_keeps m \<longleftrightarrow> (case m of Inl e \<Rightarrow> True | Inr (r, s) \<Rightarrow> fl_inv s)"

fun rdlock_spec :: "bool \<Rightarrow> 64 word \<Rightarrow> int \<Rightarrow> (64 word \<rightharpoonup> sstack_lock_state) \<Rightarrow> fl_view exec" where
  "rdlock_spec mem i e m =
     (case m i of
        None \<Rightarrow> if mem then Inr (0, e, m(i \<mapsto> RDLOCKED)) else Inr (-1, ENOMEM, m)
      | Some RDLOCKED \<Rightarrow> Inr (0, e, m)
      | Some WRLOCKED \<Rightarrow> Inr (-1, EAGAIN, m)
      | Some UNLOCKED \<Rightarrow> Inl Assert_Failed
      | Some (Lock_Other v) \<Rightarrow> Inl Deadlock)"

fun wrlock_spec :: "bool \<Rightarrow> 64 word \<Rightarrow> int \<Rightarrow> (64 word \<rightharpoonup> sstack_lock_state) \<Rightarrow> fl_view exec" where
  "wrlock_spec mem i e m =
     (case m i of
        None \<Rightarrow> if mem then Inr (0, e, m(i \<mapsto> WRLOCKED)) else Inr (-1, ENOMEM, m)
      | Some RDLOCKED \<Rightarrow> Inr (-1, EAGAIN, m)
      | Some WRLOCKED \<Rightarrow> Inr (-1, EAGAIN, m)
      | Some UNLOCKED \<Rightarrow> Inl Assert_Failed
      | Some (Lock_Other v) \<Rightarrow> Inl Deadlock)"

fun unlock_spec :: "64 word \<Rightarrow> int \<Rightarrow> (64 word \<rightharpoonup> sstack_lock_state) \<Rightarrow> fl_view exec" where
  "unlock_spec i e m =
     (case m i of
        None \<Rightarrow> Inr (-1, ENOENT, m)
      | Some st \<Rightarrow> Inr (0, e, m(i := None)))"

subsection \<open>What the tree contributes\<close>

lemma fl_search:
  assumes "fl_inv s"
  shows "rb_search fl_cmp (n\<lparr>fl_magic := LOCKNODE_MAGIC, fl_inode_num := i\<rparr>) (filelock_tree s) =
    rb_map fl_inode_num (filelock_tree s) i"
  using fl.search_ok [of "filelock_tree s" "n\<lparr>fl_magic := LOCKNODE_MAGIC, fl_inode_num := i\<rparr>"] assms
  by (simp add: fl_inv_def fl_valid_def)

lemma fl_found:
  assumes "fl_inv s" "rb_map fl_inode_num (filelock_tree s) i = Some n"
  shows "fl_valid n" "fl_inode_num n = i" "\<not> fl_lock n"
  using assms rb_map_SomeD [OF assms(2)] by (auto simp: fl_inv_def rb_ok_def)

lemma fl_inv_map:
  assumes "fl_inv s" "rb_ok fl_valid fl_inode_num t"
    "rb_map fl_inode_num t = (rb_map fl_inode_num (filelock_tree s))(i := v)"
    "\<And>n. v = Some n \<Longrightarrow> \<not> fl_lock n"
  shows "fl_inv (s\<lparr>filelock_tree := t, filelock_lock := False\<rparr>)"
proof -
  have "\<not> fl_lock n" if n: "n \<in> set (rb_inorder t)" for n
  proof -
    have "rb_map fl_inode_num t (fl_inode_num n) = Some n"
      using assms(2) n by (simp add: rb_map_eq rb_ok_def)
    then have "v = Some n \<or> n \<in> set (rb_inorder (filelock_tree s))"
      unfolding assms(3) by (auto split: if_splits dest: rb_map_SomeD)
    then show ?thesis using assms(1, 4) by (auto simp: fl_inv_def)
  qed
  then show ?thesis using assms(2) by (simp add: fl_inv_def)
qed

lemma fl_insert:
  assumes "fl_inv s" "fl_valid n" "\<not> fl_lock n"
    "rb_map fl_inode_num (filelock_tree s) (fl_inode_num n) = None"
  shows "\<exists>t. rb_insert fl_cmp n (filelock_tree s) = Inr t \<and>
    fl_inv (s\<lparr>filelock_tree := t, filelock_lock := False\<rparr>) \<and>
    rb_map fl_inode_num t = (rb_map fl_inode_num (filelock_tree s))(fl_inode_num n \<mapsto> n)"
proof -
  obtain t where t: "rb_insert fl_cmp n (filelock_tree s) = Inr t"
    "rb_ok fl_valid fl_inode_num t"
    "rb_map fl_inode_num t = (rb_map fl_inode_num (filelock_tree s))(fl_inode_num n \<mapsto> n)"
    using fl.insert_ok [of "filelock_tree s" n] assms by (auto simp: fl_inv_def)
  then show ?thesis
    using fl_inv_map [OF assms(1) t(2, 3)] assms(3) by auto
qed

lemma fl_rewrite:
  assumes "fl_inv s" "rb_map fl_inode_num (filelock_tree s) i = Some n"
    "fl_valid n'" "fl_inode_num n' = i"
  shows "rb_ok fl_valid fl_inode_num (rb_write n n' (filelock_tree s))"
    "rb_map fl_inode_num (rb_write n n' (filelock_tree s)) =
     (rb_map fl_inode_num (filelock_tree s))(i \<mapsto> n')"
  using fl.write_ok [of "filelock_tree s" n n'] assms fl_found [OF assms(1, 2)]
  by (simp_all add: fl_inv_def)

lemma fl_reinsert:
  assumes "fl_inv s" "rb_map fl_inode_num (filelock_tree s) i = Some n"
    "fl_valid n'" "fl_inode_num n' = i"
  shows "rb_insert fl_cmp n' (rb_write n n' (filelock_tree s)) = Inl Assert_Failed"
  using fl.insert_dup [OF fl_rewrite(1) [OF assms] assms(3)] fl_rewrite(2) [OF assms] assms(4)
  by simp

lemma fl_takeout:
  assumes "fl_inv s" "rb_map fl_inode_num (filelock_tree s) i = Some n"
    "fl_valid n'" "fl_inode_num n' = i"
  shows "\<exists>t. rb_remove fl_cmp n' (rb_write n n' (filelock_tree s)) = Inr t \<and>
    fl_inv (s\<lparr>filelock_tree := t, filelock_lock := False\<rparr>) \<and>
    rb_map fl_inode_num t = (rb_map fl_inode_num (filelock_tree s))(i := None)"
  using fl.remove_ok [OF fl_rewrite(1) [OF assms] assms(3)] fl_rewrite(2) [OF assms] assms(4)
    fl_inv_map [OF assms(1), of _ i None]
  by auto

subsection \<open>The operations implement the map\<close>

lemmas fl_simps = create_filelocktree_node_def fl_view_def fl_keeps_def fl_abs_def fl_valid_def Let_def

lemma fl_inv_lock [simp]: "fl_inv s \<Longrightarrow> \<not> filelock_lock s"
  by (simp add: fl_inv_def)

lemma fl_inv_update [simp]:
  "fl_inv s \<Longrightarrow> fl_inv (s\<lparr>fl_errno := e\<rparr>)"
  "fl_inv s \<Longrightarrow> fl_inv (s\<lparr>filelock_lock := False\<rparr>)"
  "fl_inv s \<Longrightarrow> fl_inv (s\<lparr>fl_errno := e, filelock_lock := False\<rparr>)"
  "fl_inv s \<Longrightarrow> fl_inv (s\<lparr>filelock_lock := False, fl_errno := e\<rparr>)"
  by (simp_all add: fl_inv_def)

lemma fl_new_node:
  assumes "fl_inv s" "rb_map fl_inode_num (filelock_tree s) i = None"
  shows "\<exists>t. rb_insert fl_cmp (junk\<lparr>fl_magic := LOCKNODE_MAGIC, fl_inode_num := i, fl_state := st,
      fl_lock := False\<rparr>) (filelock_tree s) = Inr t \<and>
    fl_inv (s\<lparr>filelock_tree := t, filelock_lock := False\<rparr>) \<and>
    map_option fl_state \<circ> rb_map fl_inode_num t =
      (map_option fl_state \<circ> rb_map fl_inode_num (filelock_tree s))(i \<mapsto> st)"
proof -
  let ?n = "junk\<lparr>fl_magic := LOCKNODE_MAGIC, fl_inode_num := i, fl_state := st, fl_lock := False\<rparr>"
  obtain t where "rb_insert fl_cmp ?n (filelock_tree s) = Inr t"
    "fl_inv (s\<lparr>filelock_tree := t, filelock_lock := False\<rparr>)"
    "rb_map fl_inode_num t = (rb_map fl_inode_num (filelock_tree s))(i \<mapsto> ?n)"
    using fl_insert [OF assms(1), of ?n] assms(2) by (auto simp: fl_valid_def)
  then show ?thesis by (auto simp: fun_eq_iff)
qed

lemma fl_rdlock:
  assumes "fl_inv s"
  shows "fl_view (sfs_rdlock mem n i s) = rdlock_spec (mem \<noteq> None) i (fl_errno s) (fl_abs s)"
    and "fl_keeps (sfs_rdlock mem n i s)"
proof -
  let ?m = "rb_map fl_inode_num (filelock_tree s)"
  have "fl_view (sfs_rdlock mem n i s) = rdlock_spec (mem \<noteq> None) i (fl_errno s) (fl_abs s) \<and>
    fl_keeps (sfs_rdlock mem n i s)"
  proof (cases "?m i")
    case None
    show ?thesis
    proof (cases mem)
      case None
      then show ?thesis
        using assms fl_search [OF assms] \<open>?m i = None\<close> by (simp add: sfs_rdlock_def fl_simps)
    next
      case (Some junk)
      then show ?thesis
        using assms fl_search [OF assms] \<open>?m i = None\<close> fl_new_node [OF assms, of i RDLOCKED junk]
        by (auto simp: sfs_rdlock_def fl_simps)
    qed
  next
    case (Some f)
    have "rb_insert fl_cmp (f\<lparr>fl_state := RDLOCKED, fl_lock := False\<rparr>)
      (rb_write f (f\<lparr>fl_state := RDLOCKED, fl_lock := False\<rparr>) (filelock_tree s)) = Inl Assert_Failed"
      using fl_found [OF assms Some] by (intro fl_reinsert [OF assms Some]) (auto simp: fl_valid_def)
    then show ?thesis
      using assms fl_search [OF assms] Some fl_found [OF assms Some]
      by (cases "fl_state f") (simp_all add: sfs_rdlock_def fl_simps)
  qed
  then show "fl_view (sfs_rdlock mem n i s) = rdlock_spec (mem \<noteq> None) i (fl_errno s) (fl_abs s)"
    and "fl_keeps (sfs_rdlock mem n i s)" by auto
qed

lemma fl_wrlock:
  assumes "fl_inv s"
  shows "fl_view (sfs_wrlock mem n i s) = wrlock_spec (mem \<noteq> None) i (fl_errno s) (fl_abs s)"
    and "fl_keeps (sfs_wrlock mem n i s)"
proof -
  let ?m = "rb_map fl_inode_num (filelock_tree s)"
  have "fl_view (sfs_wrlock mem n i s) = wrlock_spec (mem \<noteq> None) i (fl_errno s) (fl_abs s) \<and>
    fl_keeps (sfs_wrlock mem n i s)"
  proof (cases "?m i")
    case None
    show ?thesis
    proof (cases mem)
      case None
      then show ?thesis
        using assms fl_search [OF assms] \<open>?m i = None\<close> by (simp add: sfs_wrlock_def fl_simps)
    next
      case (Some junk)
      then show ?thesis
        using assms fl_search [OF assms] \<open>?m i = None\<close> fl_new_node [OF assms, of i WRLOCKED junk]
        by (auto simp: sfs_wrlock_def fl_simps)
    qed
  next
    case (Some f)
    have "rb_insert fl_cmp (f\<lparr>fl_state := WRLOCKED, fl_lock := False\<rparr>)
      (rb_write f (f\<lparr>fl_state := WRLOCKED, fl_lock := False\<rparr>) (filelock_tree s)) = Inl Assert_Failed"
      using fl_found [OF assms Some] by (intro fl_reinsert [OF assms Some]) (auto simp: fl_valid_def)
    then show ?thesis
      using assms fl_search [OF assms] Some fl_found [OF assms Some]
      by (cases "fl_state f") (simp_all add: sfs_wrlock_def fl_simps)
  qed
  then show "fl_view (sfs_wrlock mem n i s) = wrlock_spec (mem \<noteq> None) i (fl_errno s) (fl_abs s)"
    and "fl_keeps (sfs_wrlock mem n i s)" by auto
qed

lemma fl_unlock:
  assumes "fl_inv s"
  shows "fl_view (sfs_unlock n i s) = unlock_spec i (fl_errno s) (fl_abs s)"
    and "fl_keeps (sfs_unlock n i s)"
proof -
  let ?m = "rb_map fl_inode_num (filelock_tree s)"
  have "fl_view (sfs_unlock n i s) = unlock_spec i (fl_errno s) (fl_abs s) \<and>
    fl_keeps (sfs_unlock n i s)"
  proof (cases "?m i")
    case None
    then show ?thesis
      using assms fl_search [OF assms] by (simp add: sfs_unlock_def fl_simps)
  next
    case (Some f)
    obtain t where "rb_remove fl_cmp (f\<lparr>fl_state := UNLOCKED, fl_lock := False\<rparr>)
        (rb_write f (f\<lparr>fl_state := UNLOCKED, fl_lock := False\<rparr>) (filelock_tree s)) = Inr t"
      "fl_inv (s\<lparr>filelock_tree := t, filelock_lock := False\<rparr>)" "rb_map fl_inode_num t = ?m(i := None)"
      using fl_takeout [OF assms Some, of "f\<lparr>fl_state := UNLOCKED, fl_lock := False\<rparr>"]
        fl_found [OF assms Some] by (auto simp: fl_valid_def)
    then show ?thesis
      using assms fl_search [OF assms] Some fl_found [OF assms Some]
      by (auto simp: sfs_unlock_def fl_simps fun_eq_iff)
  qed
  then show "fl_view (sfs_unlock n i s) = unlock_spec i (fl_errno s) (fl_abs s)"
    and "fl_keeps (sfs_unlock n i s)" by auto
qed

section \<open>Sequences of operations\<close>

datatype fl_op =
  Op_rdlock "sstack_file_lock option" sstack_file_lock "64 word"
| Op_wrlock "sstack_file_lock option" sstack_file_lock "64 word"
| Op_unlock sstack_file_lock "64 word"

fun fl_do :: "fl_op \<Rightarrow> fl_globals \<Rightarrow> (int \<times> fl_globals) exec" where
  "fl_do (Op_rdlock mem n i) s = sfs_rdlock mem n i s"
| "fl_do (Op_wrlock mem n i) s = sfs_wrlock mem n i s"
| "fl_do (Op_unlock n i) s = sfs_unlock n i s"

fun fl_unlocks :: "64 word \<Rightarrow> fl_op \<Rightarrow> bool" where
  "fl_unlocks i (Op_unlock n j) \<longleftrightarrow> i = j"
| "fl_unlocks i _ \<longleftrightarrow> False"

inductive fl_run :: "fl_globals \<Rightarrow> (fl_op \<times> int) list \<Rightarrow> fl_globals \<Rightarrow> bool" where
  fl_run_Nil: "fl_run s [] s"
| fl_run_Cons: "fl_do op s = Inr (r, s1) \<Longrightarrow> fl_run s1 tr s2 \<Longrightarrow> fl_run s ((op, r) # tr) s2"

inductive_simps fl_run_simps: "fl_run s [] s'" "fl_run s (x # tr) s'"

definition fl_init :: fl_globals where
  "fl_init = \<lparr>filelock_tree = rb_new, filelock_lock = False, fl_errno = 0\<rparr>"

text \<open>The states between operations: every inode in the table is read or write locked.\<close>

definition fl_good :: "fl_globals \<Rightarrow> bool" where
  "fl_good s \<longleftrightarrow> fl_inv s \<and> (\<forall>i. fl_abs s i \<in> {None, Some RDLOCKED, Some WRLOCKED})"

lemma fl_view_Inr: "fl_view m = Inr (r, e, a) \<longleftrightarrow> (\<exists>s. m = Inr (r, s) \<and> fl_errno s = e \<and> fl_abs s = a)"
  by (auto simp: fl_view_def exec_bind_Inr_iff)

lemma fl_view_of_Inr: "m = Inr (r, s) \<Longrightarrow> fl_view m = Inr (r, fl_errno s, fl_abs s)"
  by (simp add: fl_view_def)

lemma fl_good_init: "fl_good fl_init"
  using fl.new_ok by (auto simp: fl_good_def fl_inv_def fl_init_def fl_abs_def rb_new_def)

lemma fl_good_cases:
  "fl_good s \<Longrightarrow> fl_abs s i = None \<or> fl_abs s i = Some RDLOCKED \<or> fl_abs s i = Some WRLOCKED"
  by (auto simp: fl_good_def)

text \<open>One operation, seen on the table.\<close>

lemma fl_do_view:
  assumes "fl_inv s"
  shows "fl_view (fl_do op s) =
    (case op of
       Op_rdlock mem n i \<Rightarrow> rdlock_spec (mem \<noteq> None) i (fl_errno s) (fl_abs s)
     | Op_wrlock mem n i \<Rightarrow> wrlock_spec (mem \<noteq> None) i (fl_errno s) (fl_abs s)
     | Op_unlock n i \<Rightarrow> unlock_spec i (fl_errno s) (fl_abs s))"
  using fl_rdlock(1) [OF assms] fl_wrlock(1) [OF assms] fl_unlock(1) [OF assms]
  by (cases op) simp_all

lemma fl_do_keeps: "fl_inv s \<Longrightarrow> fl_keeps (fl_do op s)"
  by (cases op) (simp_all add: fl_rdlock(2) fl_wrlock(2) fl_unlock(2))

lemma fl_do_total:
  assumes "fl_good s"
  shows "\<exists>r s'. fl_do op s = Inr (r, s')"
proof -
  have inv: "fl_inv s" using assms by (simp add: fl_good_def)
  have "\<exists>v. fl_view (fl_do op s) = Inr v"
  proof (cases op)
    case (Op_rdlock mem n i)
    then show ?thesis
      unfolding fl_do_view [OF inv] using fl_good_cases [OF assms, of i] by auto
  next
    case (Op_wrlock mem n i)
    then show ?thesis
      unfolding fl_do_view [OF inv] using fl_good_cases [OF assms, of i] by auto
  next
    case (Op_unlock n i)
    then show ?thesis
      unfolding fl_do_view [OF inv] using fl_good_cases [OF assms, of i] by auto
  qed
  then show ?thesis by (auto simp: fl_view_def exec_bind_Inr_iff)
qed

lemma fl_do_table:
  assumes "fl_good s" "fl_do op s = Inr (r, s')"
  shows "fl_abs s' i \<in> {None, Some RDLOCKED, Some WRLOCKED} \<and>
    (\<not> fl_unlocks i op \<longrightarrow> fl_abs s i \<noteq> None \<longrightarrow> fl_abs s' i = fl_abs s i)"
proof -
  have inv: "fl_inv s" using assms(1) by (simp add: fl_good_def)
  note v = fl_view_of_Inr [OF assms(2), unfolded fl_do_view [OF inv], symmetric]
  show ?thesis
  proof (cases op)
    case (Op_rdlock mem n j)
    then show ?thesis
      using v fl_good_cases [OF assms(1), of i] fl_good_cases [OF assms(1), of j]
      by (auto split: if_splits)
  next
    case (Op_wrlock mem n j)
    then show ?thesis
      using v fl_good_cases [OF assms(1), of i] fl_good_cases [OF assms(1), of j]
      by (auto split: if_splits)
  next
    case (Op_unlock n j)
    then show ?thesis
      using v fl_good_cases [OF assms(1), of i] fl_good_cases [OF assms(1), of j]
      by (auto split: if_splits)
  qed
qed

lemma fl_do_good:
  assumes "fl_good s" "fl_do op s = Inr (r, s')"
  shows "fl_good s'"
  using fl_do_table [OF assms] fl_do_keeps [of s op] assms by (simp add: fl_good_def fl_keeps_def)

lemma fl_run_good: "fl_run s tr s' \<Longrightarrow> fl_good s \<Longrightarrow> fl_good s'"
  by (induction rule: fl_run.induct) (auto dest: fl_do_good)

lemma fl_run_stays:
  assumes "fl_run s tr s'" "fl_good s" "fl_abs s i \<noteq> None" "\<forall>(op, r)\<in>set tr. \<not> fl_unlocks i op"
  shows "fl_abs s' i = fl_abs s i"
  using assms
proof (induction rule: fl_run.induct)
  case (fl_run_Cons op s r s1 tr s2)
  have "fl_abs s1 i = fl_abs s i"
    using fl_do_table [OF fl_run_Cons.prems(1) fl_run_Cons.hyps(1)] fl_run_Cons.prems by simp
  then show ?case
    using fl_run_Cons.IH fl_do_good [OF fl_run_Cons.prems(1) fl_run_Cons.hyps(1)] fl_run_Cons.prems
    by simp
qed simp

section \<open>Properties\<close>

text \<open>
  C25: Starting from the empty table, no sequence of \<^verbatim>\<open>sfs_rdlock\<close>, \<^verbatim>\<open>sfs_wrlock\<close> and
  \<^verbatim>\<open>sfs_unlock\<close> calls on any inodes, with allocations failing or not, ever fails an
  assertion, reaches the sentinel or blocks on a lock: the next call always
  returns.
\<close>

theorem filelock_calls_return:
  assumes "fl_run fl_init tr s"
  shows "\<exists>r s'. fl_do op s = Inr (r, s') \<and> fl_inv s'"
proof -
  have "fl_good s" using fl_run_good [OF assms fl_good_init] .
  then obtain r s' where "fl_do op s = Inr (r, s')" using fl_do_total by blast
  then show ?thesis using fl_do_good [OF \<open>fl_good s\<close>] by (auto simp: fl_good_def)
qed

text \<open>
  C26: While an inode is write locked nobody else gets a lock on it: once
  \<^verbatim>\<open>sfs_wrlock\<close> has returned 0 for an inode, and as long as nobody unlocks that inode,
  every further read or write lock call on it returns -1 with \<^verbatim>\<open>errno\<close> \<^verbatim>\<open>EAGAIN\<close>,
  whatever happens to other inodes in between.
\<close>

theorem filelock_writer_excludes:
  assumes "fl_run fl_init tr s" "sfs_wrlock mem n i s = Inr (0, s1)"
    and "fl_run s1 tr1 s2" "\<forall>(op, r)\<in>set tr1. \<not> fl_unlocks i op"
  shows "fl_view (sfs_rdlock mem' n' i s2) = Inr (-1, EAGAIN, fl_abs s2) \<and>
    fl_view (sfs_wrlock mem' n' i s2) = Inr (-1, EAGAIN, fl_abs s2)"
proof -
  have s: "fl_good s" using fl_run_good [OF assms(1) fl_good_init] .
  have s1: "fl_good s1" using fl_do_good [OF s, of "Op_wrlock mem n i"] assms(2) by simp
  have "fl_inv s" using s by (simp add: fl_good_def)
  note v = fl_view_of_Inr [OF assms(2), unfolded fl_wrlock(1) [OF this], symmetric]
  have "fl_abs s1 i = Some WRLOCKED"
    using v fl_good_cases [OF s, of i] by (auto split: if_splits)
  then have "fl_abs s2 i = Some WRLOCKED"
    using fl_run_stays [OF assms(3) s1 _ assms(4)] by simp
  moreover have "fl_inv s2" using fl_run_good [OF assms(3) s1] by (simp add: fl_good_def)
  ultimately show ?thesis
    by (simp add: fl_rdlock(1) fl_wrlock(1))
qed

text \<open>A concrete table for the witnesses: inode 7 write locked, nothing else.\<close>

definition fl_n0 :: sstack_file_lock where
  "fl_n0 = \<lparr>fl_magic = 0, fl_inode_num = 0, fl_state = UNLOCKED, fl_lock = False\<rparr>"

definition fl_one :: "sstack_lock_state \<Rightarrow> fl_globals" where
  "fl_one st = \<lparr>filelock_tree = RbNode False RbNil \<lparr>fl_magic = LOCKNODE_MAGIC, fl_inode_num = 7,
      fl_state = st, fl_lock = False\<rparr> RbNil, filelock_lock = False, fl_errno = 0\<rparr>"

lemmas fl_eval = sfs_wrlock_def sfs_rdlock_def sfs_unlock_def fl_one_def fl_init_def fl_n0_def
  rb_new_def create_filelocktree_node_def rb_insert_def rb_remove_def filelock_tree_cmp_def
  rb_insert_step_left_def rb_insert_step_right_def

lemma fl_eval_lock:
  "sfs_wrlock (Some fl_n0) fl_n0 7 fl_init = Inr (0, fl_one WRLOCKED)"
  "sfs_rdlock (Some fl_n0) fl_n0 7 fl_init = Inr (0, fl_one RDLOCKED)"
  by (simp_all add: fl_eval)

lemma fl_eval_run: "fl_run (fl_one st) [(Op_unlock fl_n0 8, -1)] (fl_one st\<lparr>fl_errno := ENOENT\<rparr>)"
  by (simp add: fl_run_simps fl_eval)

theorem filelock_calls_return_witness:
  "fl_run fl_init [(Op_wrlock (Some fl_n0) fl_n0 7, 0)] (fl_one WRLOCKED) \<and>
   (\<exists>r s'. fl_do (Op_unlock fl_n0 7) (fl_one WRLOCKED) = Inr (r, s') \<and> fl_inv s')"
proof -
  have run: "fl_run fl_init [(Op_wrlock (Some fl_n0) fl_n0 7, 0)] (fl_one WRLOCKED)"
    by (simp add: fl_run_simps fl_eval_lock)
  then show ?thesis using filelock_calls_return [OF run, of "Op_unlock fl_n0 7"] by blast
qed

theorem filelock_writer_excludes_witness:
  "fl_run (fl_one WRLOCKED) [(Op_unlock fl_n0 8, -1)] (fl_one WRLOCKED\<lparr>fl_errno := ENOENT\<rparr>) \<and>
   fl_view (sfs_rdlock None fl_n0 7 (fl_one WRLOCKED\<lparr>fl_errno := ENOENT\<rparr>)) =
     Inr (-1, EAGAIN, fl_abs (fl_one WRLOCKED\<lparr>fl_errno := ENOENT\<rparr>))"
  using filelock_writer_excludes [OF fl_run_Nil fl_eval_lock(1) fl_eval_run, of None fl_n0] fl_eval_run
  by simp

text \<open>
  Readers share an inode and keep writers out: once \<^verbatim>\<open>sfs_rdlock\<close> has returned 0,
  and as long as nobody unlocks that inode, every further \<^verbatim>\<open>sfs_rdlock\<close> on it returns
  0 and changes nothing in the table, and every \<^verbatim>\<open>sfs_wrlock\<close> on it returns -1 with
  \<^verbatim>\<open>EAGAIN\<close>.
\<close>

theorem filelock_readers_share:
  assumes "fl_run fl_init tr s" "sfs_rdlock mem n i s = Inr (0, s1)"
    and "fl_run s1 tr1 s2" "\<forall>(op, r)\<in>set tr1. \<not> fl_unlocks i op"
  shows "fl_view (sfs_rdlock mem' n' i s2) = Inr (0, fl_errno s2, fl_abs s2) \<and>
    fl_view (sfs_wrlock mem' n' i s2) = Inr (-1, EAGAIN, fl_abs s2)"
proof -
  have s: "fl_good s" using fl_run_good [OF assms(1) fl_good_init] .
  have s1: "fl_good s1" using fl_do_good [OF s, of "Op_rdlock mem n i"] assms(2) by simp
  have "fl_inv s" using s by (simp add: fl_good_def)
  note v = fl_view_of_Inr [OF assms(2), unfolded fl_rdlock(1) [OF this], symmetric]
  have "fl_abs s1 i = Some RDLOCKED"
    using v fl_good_cases [OF s, of i] by (auto split: if_splits)
  then have "fl_abs s2 i = Some RDLOCKED"
    using fl_run_stays [OF assms(3) s1 _ assms(4)] by simp
  moreover have "fl_inv s2" using fl_run_good [OF assms(3) s1] by (simp add: fl_good_def)
  ultimately show ?thesis
    by (simp add: fl_rdlock(1) fl_wrlock(1))
qed

theorem filelock_readers_share_witness:
  "fl_run (fl_one RDLOCKED) [(Op_unlock fl_n0 8, -1)] (fl_one RDLOCKED\<lparr>fl_errno := ENOENT\<rparr>) \<and>
   fl_view (sfs_wrlock None fl_n0 7 (fl_one RDLOCKED\<lparr>fl_errno := ENOENT\<rparr>)) =
     Inr (-1, EAGAIN, fl_abs (fl_one RDLOCKED\<lparr>fl_errno := ENOENT\<rparr>))"
  using filelock_readers_share [OF fl_run_Nil fl_eval_lock(2) fl_eval_run, of None fl_n0] fl_eval_run
  by simp

text \<open>
  C7: The three operations are exactly the abstract lock table: on every state
  between operations, the return value, \<^verbatim>\<open>errno\<close>, the table afterwards and the way of
  not returning are those of \<open>rdlock_spec\<close>, \<open>wrlock_spec\<close> and \<open>unlock_spec\<close> on the
  table before; the balanced tree and both kinds of spin lock stay in order.
\<close>

theorem filelock_refines_table:
  assumes "fl_inv s"
  shows "fl_view (sfs_rdlock mem n i s) = rdlock_spec (mem \<noteq> None) i (fl_errno s) (fl_abs s) \<and>
    fl_view (sfs_wrlock mem n i s) = wrlock_spec (mem \<noteq> None) i (fl_errno s) (fl_abs s) \<and>
    fl_view (sfs_unlock n i s) = unlock_spec i (fl_errno s) (fl_abs s) \<and>
    fl_keeps (sfs_rdlock mem n i s) \<and> fl_keeps (sfs_wrlock mem n i s) \<and> fl_keeps (sfs_unlock n i s)"
  using fl_rdlock [OF assms] fl_wrlock [OF assms] fl_unlock [OF assms] by blast

lemma fl_inv_one: "fl_inv (fl_one st)"
  by (simp add: fl_inv_def fl_one_def rb_ok_def llrb_def fl_valid_def)

theorem filelock_refines_table_witness:
  "fl_inv (fl_one WRLOCKED) \<and>
   fl_view (sfs_unlock fl_n0 7 (fl_one WRLOCKED)) = unlock_spec 7 0 (fl_abs (fl_one WRLOCKED))"
proof -
  have "fl_errno (fl_one WRLOCKED) = 0" by (simp add: fl_one_def)
  then show ?thesis
    using filelock_refines_table [OF fl_inv_one, of None fl_n0 7 WRLOCKED] fl_inv_one by simp
qed

text \<open>
  The table does not count readers.  When two callers have read locked a free
  inode and only one of them unlocks it, a writer is let in although the other
  reader still holds its lock.
\<close>

theorem filelock_readers_not_counted:
  assumes "fl_run fl_init tr s" "fl_abs s i = None"
  shows "\<exists>s1 s2 s3 s4.
    sfs_rdlock (Some m1) n i s = Inr (0, s1) \<and> sfs_rdlock (Some m2) n i s1 = Inr (0, s2) \<and>
    sfs_unlock n i s2 = Inr (0, s3) \<and> sfs_wrlock (Some m3) n i s3 = Inr (0, s4)"
proof -
  have s: "fl_inv s" using fl_run_good [OF assms(1) fl_good_init] by (simp add: fl_good_def)
  obtain s1 where s1: "sfs_rdlock (Some m1) n i s = Inr (0, s1)" "fl_abs s1 i = Some RDLOCKED"
    using fl_rdlock(1) [OF s, of "Some m1" n i] assms(2) by (auto simp: fl_view_Inr)
  have i1: "fl_inv s1" using fl_rdlock(2) [OF s, of "Some m1" n i] s1(1) by (simp add: fl_keeps_def)
  obtain s2 where s2: "sfs_rdlock (Some m2) n i s1 = Inr (0, s2)" "fl_abs s2 i = Some RDLOCKED"
    using fl_rdlock(1) [OF i1, of "Some m2" n i] s1(2) by (auto simp: fl_view_Inr)
  have i2: "fl_inv s2" using fl_rdlock(2) [OF i1, of "Some m2" n i] s2(1) by (simp add: fl_keeps_def)
  obtain s3 where s3: "sfs_unlock n i s2 = Inr (0, s3)" "fl_abs s3 i = None"
    using fl_unlock(1) [OF i2, of n i] s2(2) by (auto simp: fl_view_Inr)
  have i3: "fl_inv s3" using fl_unlock(2) [OF i2, of n i] s3(1) by (simp add: fl_keeps_def)
  obtain s4 where "sfs_wrlock (Some m3) n i s3 = Inr (0, s4)"
    using fl_wrlock(1) [OF i3, of "Some m3" n i] s3(2) by (auto simp: fl_view_Inr)
  then show ?thesis using s1(1) s2(1) s3(1) by blast
qed

theorem filelock_readers_not_counted_witness:
  "fl_abs (fl_one WRLOCKED) 9 = None \<and>
   (\<exists>s1 s2 s3 s4.
     sfs_rdlock (Some fl_n0) fl_n0 9 (fl_one WRLOCKED) = Inr (0, s1) \<and>
     sfs_rdlock (Some fl_n0) fl_n0 9 s1 = Inr (0, s2) \<and>
     sfs_unlock fl_n0 9 s2 = Inr (0, s3) \<and> sfs_wrlock (Some fl_n0) fl_n0 9 s3 = Inr (0, s4))"
proof -
  have run: "fl_run fl_init [(Op_wrlock (Some fl_n0) fl_n0 7, 0)] (fl_one WRLOCKED)"
    by (simp add: fl_run_simps fl_eval_lock)
  have free: "fl_abs (fl_one WRLOCKED) 9 = None" by (simp add: fl_abs_def fl_one_def)
  show ?thesis
    using filelock_readers_not_counted [OF run free, of fl_n0 fl_n0 fl_n0 fl_n0] free by blast
qed

end
