(* ===== verification/Storage_Tree.thy ===== *)
theory Storage_Tree
  imports Rb_Correct
begin

text \<open>
  The storage tree of \<^verbatim>\<open>sfs/include/sfs_storage_tree.h\<close>.  The address structure is
  compared with \<^verbatim>\<open>memcmp\<close>, so it is the list of its bytes; the remote path is the
  string up to its terminator.  The comparison never yields 0, so this user of the
  tree is no \<open>ordered_nodes\<close>; what it does instead is stated at the end.
\<close>

definition STNODE_MAGIC :: "32 word" where
  "STNODE_MAGIC = 0xb3b3b3b3"

definition PATH_MAX :: nat where
  "PATH_MAX = 4096"

text \<open>Nothing keeps a number that is no enumerator out of the variables of these types.\<close>

datatype sfs_protocol = NFS | CIFS | ISCSI | NATIVE | Unlisted_Protocol "32 word"

datatype sstack_storage_type = SSTACK_STORAGE_HDD | SSTACK_STORAGE_SSD | Unlisted_Type "32 word"

record sfs_st =
  st_magic :: "32 word"
  st_address :: "8 word list"
  st_rpath :: string
  st_access_protocol :: sfs_protocol
  st_type :: sstack_storage_type
  st_size :: "64 word"

text \<open>\<^verbatim>\<open>memcmp\<close> on equally many bytes, and \<^verbatim>\<open>strcmp\<close>; only the sign is used.\<close>

fun memcmp :: "8 word list \<Rightarrow> 8 word list \<Rightarrow> int" where
  "memcmp (x # xs) (y # ys) = (if x < y then -1 else if y < x then 1 else memcmp xs ys)"
| "memcmp _ _ = 0"

fun strcmp :: "string \<Rightarrow> string \<Rightarrow> int" where
  "strcmp [] [] = 0"
| "strcmp [] (y # ys) = -1"
| "strcmp (x # xs) [] = 1"
| "strcmp (x # xs) (y # ys) =
     (if (of_char x :: nat) < of_char y then -1
      else if (of_char y :: nat) < of_char x then 1 else strcmp xs ys)"

definition storage_tree_cmp :: "sfs_st option \<Rightarrow> sfs_st option \<Rightarrow> int" where
  "storage_tree_cmp node1 node2 =
     (case (node1, node2) of
        (Some n1, Some n2) \<Rightarrow>
          if st_magic n1 \<noteq> STNODE_MAGIC \<or> st_magic n2 \<noteq> STNODE_MAGIC then EFAULT
          else
            let ret = -1;
                cmp = memcmp (st_address n1) (st_address n2);
                ret = (if cmp > 0 then 1 else if cmp < 0 then -1 else ret)
            in if ret = 0 then
                 let cmp = strcmp (st_rpath n1) (st_rpath n2)
                 in (if cmp > 0 then 1 else if cmp < 0 then -1 else ret)
               else ret
      | _ \<Rightarrow> EINVAL)"

abbreviation st_cmp :: "sfs_st \<Rightarrow> sfs_st \<Rightarrow> int" where
  "st_cmp a b \<equiv> storage_tree_cmp (Some a) (Some b)"

record st_globals =
  storage_tree :: "sfs_st rb_tree"
  st_errno :: int

definition storage_tree_init :: "bool \<Rightarrow> sfs_st rb_tree option" where
  "storage_tree_init mem = (if mem then Some rb_new else None)"

definition create_sttree_node :: "sfs_st option \<Rightarrow> sfs_st option" where
  "create_sttree_node mem = mem"

text \<open>\<^verbatim>\<open>strcpy\<close> into the path array of a node, with room for the terminator.\<close>

definition st_set_rpath :: "string \<Rightarrow> sfs_st \<Rightarrow> sfs_st exec" where
  "st_set_rpath path node =
     exec_bind (exec_guard (length path < PATH_MAX) Bad_Access) (\<lambda>_. Inr (node\<lparr>st_rpath := path\<rparr>))"

definition sfs_storage_node_insert ::
  "sfs_st option \<Rightarrow> 8 word list \<Rightarrow> string \<Rightarrow> sfs_protocol \<Rightarrow> sstack_storage_type \<Rightarrow> 64 word \<Rightarrow>
   st_globals \<Rightarrow> (int \<times> st_globals) exec" where
  "sfs_storage_node_insert mem address path proto type sz s =
     (case create_sttree_node mem of
        None \<Rightarrow> Inr (-1, s\<lparr>st_errno := ENOMEM\<rparr>)
      | Some node \<Rightarrow>
          exec_bind (st_set_rpath path (node\<lparr>st_magic := STNODE_MAGIC, st_address := address\<rparr>)) (\<lambda>node.
          let node = node\<lparr>st_access_protocol := proto, st_type := type, st_size := sz\<rparr> in
          exec_bind (rb_insert st_cmp node (storage_tree s)) (\<lambda>t.
          Inr (0, s\<lparr>storage_tree := t\<rparr>))))"

definition sfs_storage_node_remove ::
  "sfs_st \<Rightarrow> 8 word list \<Rightarrow> string \<Rightarrow> st_globals \<Rightarrow> st_globals exec" where
  "sfs_storage_node_remove snode address path s =
     exec_bind (st_set_rpath path (snode\<lparr>st_magic := STNODE_MAGIC, st_address := address\<rparr>)) (\<lambda>snode.
     case rb_search st_cmp snode (storage_tree s) of
       None \<Rightarrow> Inr (s\<lparr>st_errno := EFAULT\<rparr>)
     | Some node \<Rightarrow>
         exec_bind (rb_remove st_cmp node (storage_tree s)) (\<lambda>t.
         Inr (s\<lparr>storage_tree := t\<rparr>)))"

definition sfs_storage_node_update ::
  "sfs_st \<Rightarrow> 8 word list \<Rightarrow> string \<Rightarrow> 64 word \<Rightarrow> st_globals \<Rightarrow> st_globals exec" where
  "sfs_storage_node_update snode address path sz s =
     exec_bind (st_set_rpath path (snode\<lparr>st_magic := STNODE_MAGIC, st_address := address\<rparr>)) (\<lambda>snode.
     case rb_search st_cmp snode (storage_tree s) of
       None \<Rightarrow> Inr (s\<lparr>st_errno := EFAULT\<rparr>)
     | Some node \<Rightarrow>
         exec_bind (rb_remove st_cmp node (storage_tree s)) (\<lambda>t.
         exec_bind (rb_insert st_cmp (node\<lparr>st_size := sz\<rparr>) t) (\<lambda>t'.
         Inr (s\<lparr>storage_tree := t'\<rparr>))))"

definition sfs_storage_tree_iter ::
  "(sfs_st \<Rightarrow> 's \<Rightarrow> 's \<times> 'b option) \<Rightarrow> st_globals \<Rightarrow> 's \<Rightarrow> 's exec" where
  "sfs_storage_tree_iter cb g s =
     exec_bind (rb_iter st_cmp None cb (storage_tree g) s) (\<lambda>(s', r). Inr s')"

section \<open>Properties\<close>

lemma st_cmp_nonzero: "st_cmp a b \<noteq> 0"
  by (simp add: storage_tree_cmp_def Let_def)

lemma st_search_None: "rb_search st_cmp k t = None"
  by (induction t) (simp_all add: st_cmp_nonzero Let_def)

lemma rb_ins_mset:
  assumes "rb_ins cmp node t = Inr (go, t')"
  shows "length (rb_inorder t') = Suc (length (rb_inorder t)) \<and>
    set (rb_inorder t') = insert node (set (rb_inorder t))"
  using assms
  by (induction t arbitrary: go t')
    (auto simp: exec_bind_Inr_iff split: if_splits
      dest!: rb_step_left_inorder rb_step_right_inorder)

lemma rb_insert_counts:
  assumes "rb_insert cmp node t = Inr t'"
  shows "length (rb_inorder t') = Suc (length (rb_inorder t)) \<and>
    set (rb_inorder t') = insert node (set (rb_inorder t))"
proof -
  obtain go u where u: "rb_ins cmp node t = Inr (go, u)"
    "(if go then rbtn_color_set False u else Inr u) = Inr t'"
    using assms by (auto simp: rb_insert_rec exec_bind_Inr_iff)
  then have "rb_inorder t' = rb_inorder u" by (cases u) (auto split: if_splits)
  then show ?thesis using rb_ins_mset [OF u(1)] by simp
qed

text \<open>
  Adding a storage device always succeeds when memory is available and the path
  fits: it returns 0, the tree stays balanced, and exactly the new device is added,
  even when the same address and path are already there.
\<close>

theorem storage_insert_adds:
  assumes "llrb (storage_tree s)" "length path < PATH_MAX"
  shows "\<exists>s'. sfs_storage_node_insert (Some junk) a path p ty sz s = Inr (0, s') \<and>
    llrb (storage_tree s') \<and> st_errno s' = st_errno s \<and>
    length (rb_inorder (storage_tree s')) = Suc (length (rb_inorder (storage_tree s))) \<and>
    set (rb_inorder (storage_tree s')) =
      insert \<lparr>st_magic = STNODE_MAGIC, st_address = a, st_rpath = path, st_access_protocol = p,
              st_type = ty, st_size = sz\<rparr> (set (rb_inorder (storage_tree s)))"
proof -
  let ?n = "\<lparr>st_magic = STNODE_MAGIC, st_address = a, st_rpath = path, st_access_protocol = p,
    st_type = ty, st_size = sz\<rparr> :: sfs_st"
  obtain t where t: "rb_insert st_cmp ?n (storage_tree s) = Inr t" "llrb t"
    using rb_insert_llrb [OF assms(1), of st_cmp ?n] st_cmp_nonzero by blast
  have "sfs_storage_node_insert (Some junk) a path p ty sz s = Inr (0, s\<lparr>storage_tree := t\<rparr>)"
    using t(1) assms(2)
    by (cases junk) (simp add: sfs_storage_node_insert_def create_sttree_node_def st_set_rpath_def)
  then show ?thesis using t(2) rb_insert_counts [OF t(1)] by simp
qed

theorem storage_insert_adds_witness:
  "\<exists>s'. sfs_storage_node_insert
     (Some \<lparr>st_magic = 0, st_address = [], st_rpath = [], st_access_protocol = NFS,
            st_type = SSTACK_STORAGE_HDD, st_size = 0\<rparr>)
     [1, 2] ''/a'' CIFS SSTACK_STORAGE_SSD 5 \<lparr>storage_tree = rb_new, st_errno = 0\<rparr> = Inr (0, s') \<and>
   length (rb_inorder (storage_tree s')) = 1"
proof -
  have "llrb (storage_tree \<lparr>storage_tree = rb_new, st_errno = 0\<rparr>)" "length ''/a'' < PATH_MAX"
    by (simp_all add: llrb_def rb_new_def PATH_MAX_def)
  from storage_insert_adds [OF this, of _ "[1, 2]" CIFS SSTACK_STORAGE_SSD 5] show ?thesis
    by (fastforce simp: rb_new_def)
qed

text \<open>
  A storage device can neither be removed nor resized: for every tree, address and
  path that fits, \<^verbatim>\<open>sfs_storage_node_remove\<close> and \<^verbatim>\<open>sfs_storage_node_update\<close> report
  \<^verbatim>\<open>EFAULT\<close> and leave the tree as it is, because \<^verbatim>\<open>storage_tree_cmp\<close> never returns 0.
\<close>

theorem storage_never_found:
  assumes "length path < PATH_MAX"
  shows "sfs_storage_node_remove n a path s = Inr (s\<lparr>st_errno := EFAULT\<rparr>) \<and>
    sfs_storage_node_update n a path sz s = Inr (s\<lparr>st_errno := EFAULT\<rparr>)"
  using assms
  by (simp add: sfs_storage_node_remove_def sfs_storage_node_update_def st_set_rpath_def st_search_None)

theorem storage_never_found_witness:
  "sfs_storage_node_remove
     \<lparr>st_magic = 0, st_address = [], st_rpath = [], st_access_protocol = NFS,
      st_type = SSTACK_STORAGE_HDD, st_size = 0\<rparr> [1] ''/a''
     \<lparr>storage_tree = RbNode False RbNil \<lparr>st_magic = STNODE_MAGIC, st_address = [1], st_rpath = ''/a'',
        st_access_protocol = NFS, st_type = SSTACK_STORAGE_HDD, st_size = 3\<rparr> RbNil, st_errno = 0\<rparr> =
   Inr \<lparr>storage_tree = RbNode False RbNil \<lparr>st_magic = STNODE_MAGIC, st_address = [1], st_rpath = ''/a'',
        st_access_protocol = NFS, st_type = SSTACK_STORAGE_HDD, st_size = 3\<rparr> RbNil, st_errno = EFAULT\<rparr>"
proof -
  have "length ''/a'' < PATH_MAX" by (simp add: PATH_MAX_def)
  from storage_never_found [OF this] show ?thesis by simp
qed

end
