(* ===== verification/Job_Ids.thy ===== *)
theory Job_Ids
  imports SFS_Prelude
begin

text \<open>
  The bitmap operations of \<^verbatim>\<open>common/include/sstack_bitops.h\<close> and the allocator of job
  ids on top of them (\<^verbatim>\<open>get_next_job_id\<close> and \<^verbatim>\<open>free_job_id\<close> of \<^verbatim>\<open>sfs/src/sfs_job.c\<close>).
\<close>

unbundle bit_operations_syntax

section \<open>Bitmaps\<close>

definition BITMASK :: "nat \<Rightarrow> 8 word" where
  "BITMASK b = push_bit (b mod 8) 1"

definition BITSLOT :: "nat \<Rightarrow> nat" where
  "BITSLOT b = b div 8"

definition BITNSLOTS :: "nat \<Rightarrow> nat" where
  "BITNSLOTS nb = (nb + 8 - 1) div 8"

definition BITSET :: "8 word list \<Rightarrow> nat \<Rightarrow> 8 word list" where
  "BITSET a b = a[BITSLOT b := a ! BITSLOT b OR BITMASK b]"

definition BITCLEAR :: "8 word list \<Rightarrow> nat \<Rightarrow> 8 word list" where
  "BITCLEAR a b = a[BITSLOT b := a ! BITSLOT b AND NOT (BITMASK b)]"

definition BITTEST :: "8 word list \<Rightarrow> nat \<Rightarrow> 8 word" where
  "BITTEST a b = a ! BITSLOT b AND BITMASK b"

definition sfs_init_bitmap :: "bool \<Rightarrow> nat \<Rightarrow> 8 word list option" where
  "sfs_init_bitmap mem num_bits = (if mem then Some (replicate (BITNSLOTS num_bits) 0) else None)"

lemma bit_BITMASK: "bit (BITMASK b) n \<longleftrightarrow> n = b mod 8"
proof -
  have "b mod 8 < 8" by simp
  then show ?thesis unfolding BITMASK_def by (auto simp: push_bit_of_1 bit_exp_iff)
qed

lemma BITTEST_zero: "BITTEST a b = 0 \<longleftrightarrow> \<not> bit (a ! (b div 8)) (b mod 8)"
proof -
  have "bit (BITTEST a b) n \<longleftrightarrow> n = b mod 8 \<and> bit (a ! (b div 8)) (b mod 8)" for n
    by (auto simp: BITTEST_def BITSLOT_def bit_and_iff bit_BITMASK)
  then show ?thesis
    by (metis bit_0_eq bot_apply bot_bool_def bit_eqI)
qed

lemma BITSET_length [simp]: "length (BITSET a b) = length a"
  by (simp add: BITSET_def)

lemma BITCLEAR_length [simp]: "length (BITCLEAR a b) = length a"
  by (simp add: BITCLEAR_def)

lemma div_mod_8_eq: "b div 8 = c div 8 \<Longrightarrow> b mod 8 = c mod 8 \<Longrightarrow> b = (c::nat)"
  by (metis div_mult_mod_eq)

lemma BITTEST_BITSET:
  assumes "b < 8 * length a"
  shows "BITTEST (BITSET a b) c = 0 \<longleftrightarrow> BITTEST a c = 0 \<and> b \<noteq> c"
proof -
  have "b div 8 < length a" using assms by (simp add: less_mult_imp_div_less mult.commute)
  then show ?thesis
    unfolding BITTEST_zero
    by (cases "b div 8 = c div 8")
      (auto simp: BITSET_def BITSLOT_def bit_or_iff bit_BITMASK dest: div_mod_8_eq)
qed

lemma BITTEST_BITCLEAR:
  assumes "b < 8 * length a"
  shows "BITTEST (BITCLEAR a b) c = 0 \<longleftrightarrow> BITTEST a c = 0 \<or> b = c"
proof -
  have "b div 8 < length a" using assms by (simp add: less_mult_imp_div_less mult.commute)
  moreover have "c mod 8 < 8" by simp
  ultimately show ?thesis
    unfolding BITTEST_zero
    by (cases "b div 8 = c div 8")
      (auto simp: BITCLEAR_def BITSLOT_def bit_and_iff bit_not_iff bit_BITMASK dest: div_mod_8_eq)
qed

section \<open>The allocator\<close>

definition MAX_OUTSTANDING_JOBS :: nat where
  "MAX_OUTSTANDING_JOBS = 8192"

text \<open>The globals: bitmap of busy ids, next id to hand out, mutex, \<^verbatim>\<open>errno\<close>.\<close>

record job_ids =
  sstack_job_id_bitmap :: "8 word list"
  current_job_id :: "64 word"
  sfs_job_id_mutex :: bool
  ji_errno :: int

text \<open>The loop \<^verbatim>\<open>for (i = start; i < start + k; i++) if (BITTEST(a, i) == 0) break;\<close>\<close>

fun first_clear :: "8 word list \<Rightarrow> nat \<Rightarrow> nat \<Rightarrow> nat" where
  "first_clear a i 0 = i"
| "first_clear a i (Suc k) = (if BITTEST a i = 0 then i else first_clear a (Suc i) k)"

definition get_next_job_id :: "job_ids \<Rightarrow> (64 word \<times> job_ids) exec" where
  "get_next_job_id s =
     (if sfs_job_id_mutex s then Inl Deadlock
      else if unat (current_job_id s) \<ge> MAX_OUTSTANDING_JOBS then
        (let i = first_clear (sstack_job_id_bitmap s) 0 MAX_OUTSTANDING_JOBS in
         if i = MAX_OUTSTANDING_JOBS then Inr (-1, s\<lparr>sfs_job_id_mutex := True\<rparr>)
         else
           let bm = BITSET (sstack_job_id_bitmap s) i;
               j = first_clear bm i (MAX_OUTSTANDING_JOBS - i);
               cur = (if j < MAX_OUTSTANDING_JOBS then j else MAX_OUTSTANDING_JOBS)
           in Inr (of_nat i, s\<lparr>sstack_job_id_bitmap := bm, current_job_id := of_nat cur\<rparr>))
      else
        let job_id = current_job_id s in
        Inr (job_id, s\<lparr>sstack_job_id_bitmap := BITSET (sstack_job_id_bitmap s) (unat job_id),
                        current_job_id := job_id + 1\<rparr>))"

definition free_job_id :: "int \<Rightarrow> job_ids \<Rightarrow> int \<times> job_ids" where
  "free_job_id job_id s =
     (if job_id < 0 \<or> job_id \<ge> int MAX_OUTSTANDING_JOBS then (-1, s\<lparr>ji_errno := EINVAL\<rparr>)
      else (0, s\<lparr>sstack_job_id_bitmap := BITCLEAR (sstack_job_id_bitmap s) (nat job_id)\<rparr>))"

text \<open>An id is busy while its bit is set.\<close>

definition busy :: "job_ids \<Rightarrow> nat \<Rightarrow> bool" where
  "busy s i \<longleftrightarrow> BITTEST (sstack_job_id_bitmap s) i \<noteq> 0"

definition ji_ok :: "job_ids \<Rightarrow> bool" where
  "ji_ok s \<longleftrightarrow> 8 * length (sstack_job_id_bitmap s) = MAX_OUTSTANDING_JOBS \<and>
     unat (current_job_id s) \<le> MAX_OUTSTANDING_JOBS"

definition ji_init :: job_ids where
  "ji_init = \<lparr>sstack_job_id_bitmap = replicate (BITNSLOTS MAX_OUTSTANDING_JOBS) 0,
     current_job_id = 0, sfs_job_id_mutex = False, ji_errno = 0\<rparr>"

lemma first_clear_spec:
  "i \<le> first_clear a i k \<and> first_clear a i k \<le> i + k \<and>
   (\<forall>j. i \<le> j \<and> j < first_clear a i k \<longrightarrow> BITTEST a j \<noteq> 0) \<and>
   (first_clear a i k < i + k \<longrightarrow> BITTEST a (first_clear a i k) = 0)"
proof (induction k arbitrary: i)
  case (Suc k)
  show ?case
  proof (cases "BITTEST a i = 0")
    case False
    have "BITTEST a j \<noteq> 0" if "i \<le> j" "j < first_clear a (Suc i) k" for j
      using Suc.IH [of "Suc i"] False that by (cases "i = j") auto
    then show ?thesis using Suc.IH [of "Suc i"] False by simp
  qed auto
qed auto

lemma first_clear_MAX:
  "first_clear a 0 MAX_OUTSTANDING_JOBS \<le> MAX_OUTSTANDING_JOBS"
  "first_clear a 0 MAX_OUTSTANDING_JOBS = MAX_OUTSTANDING_JOBS \<longleftrightarrow>
     (\<forall>i<MAX_OUTSTANDING_JOBS. BITTEST a i \<noteq> 0)"
proof -
  note fc = first_clear_spec [of 0 a MAX_OUTSTANDING_JOBS]
  then show le: "first_clear a 0 MAX_OUTSTANDING_JOBS \<le> MAX_OUTSTANDING_JOBS" by simp
  show "first_clear a 0 MAX_OUTSTANDING_JOBS = MAX_OUTSTANDING_JOBS \<longleftrightarrow>
    (\<forall>i<MAX_OUTSTANDING_JOBS. BITTEST a i \<noteq> 0)"
  proof
    assume "\<forall>i<MAX_OUTSTANDING_JOBS. BITTEST a i \<noteq> 0"
    then have "\<not> first_clear a 0 MAX_OUTSTANDING_JOBS < MAX_OUTSTANDING_JOBS" using fc by auto
    then show "first_clear a 0 MAX_OUTSTANDING_JOBS = MAX_OUTSTANDING_JOBS" using le by simp
  qed (use fc in simp)
qed

lemma unat_of_nat_jobs: "i \<le> MAX_OUTSTANDING_JOBS \<Longrightarrow> unat (of_nat i :: 64 word) = i"
  by (simp add: unat_of_nat MAX_OUTSTANDING_JOBS_def)

lemma ji_ok_init: "ji_ok ji_init"
  by (simp add: ji_ok_def ji_init_def BITNSLOTS_def MAX_OUTSTANDING_JOBS_def)

lemma not_busy_init: "i < MAX_OUTSTANDING_JOBS \<Longrightarrow> \<not> busy ji_init i"
  by (simp add: busy_def BITTEST_zero ji_init_def BITNSLOTS_def MAX_OUTSTANDING_JOBS_def)

text \<open>The two ways through \<^verbatim>\<open>get_next_job_id\<close>.\<close>

lemma get_straight:
  assumes "ji_ok s" "\<not> sfs_job_id_mutex s" "unat (current_job_id s) < MAX_OUTSTANDING_JOBS"
  shows "\<exists>s'. get_next_job_id s = Inr (current_job_id s, s') \<and> ji_ok s' \<and> \<not> sfs_job_id_mutex s' \<and>
    unat (current_job_id s') = Suc (unat (current_job_id s)) \<and>
    (\<forall>i. busy s' i \<longleftrightarrow> busy s i \<or> i = unat (current_job_id s))"
proof -
  have "unat (current_job_id s + 1) = Suc (unat (current_job_id s))"
    using assms(3) by (simp add: unat_word_ariths MAX_OUTSTANDING_JOBS_def)
  then show ?thesis
    using assms BITTEST_BITSET [of "unat (current_job_id s)" "sstack_job_id_bitmap s"]
    by (auto simp: get_next_job_id_def ji_ok_def busy_def Let_def)
qed

lemma get_wrapped:
  assumes "ji_ok s" "\<not> sfs_job_id_mutex s" "unat (current_job_id s) \<ge> MAX_OUTSTANDING_JOBS"
    and "i < MAX_OUTSTANDING_JOBS" "\<not> busy s i" "\<And>j. j < i \<Longrightarrow> busy s j"
  shows "\<exists>s'. get_next_job_id s = Inr (of_nat i, s') \<and> ji_ok s' \<and> \<not> sfs_job_id_mutex s' \<and>
    unat (current_job_id s') =
      first_clear (BITSET (sstack_job_id_bitmap s) i) i (MAX_OUTSTANDING_JOBS - i) \<and>
    (\<forall>j. busy s' j \<longleftrightarrow> busy s j \<or> j = i)"
proof -
  let ?bm = "sstack_job_id_bitmap s"
  have "first_clear ?bm 0 MAX_OUTSTANDING_JOBS = i"
    using first_clear_spec [of 0 ?bm MAX_OUTSTANDING_JOBS] assms(4-6)
    by (metis add_0 busy_def le0 le_neq_implies_less linorder_neqE_nat)
  moreover have fc: "first_clear (BITSET ?bm i) i (MAX_OUTSTANDING_JOBS - i) \<le> MAX_OUTSTANDING_JOBS"
    using first_clear_spec [of i "BITSET ?bm i" "MAX_OUTSTANDING_JOBS - i"] assms(4) by simp
  ultimately show ?thesis
    using assms BITTEST_BITSET [of i ?bm] unat_of_nat_jobs [OF fc]
    by (auto simp: get_next_job_id_def ji_ok_def busy_def Let_def)
qed

lemma get_full:
  assumes "\<not> sfs_job_id_mutex s" "unat (current_job_id s) \<ge> MAX_OUTSTANDING_JOBS"
    and "\<forall>i<MAX_OUTSTANDING_JOBS. busy s i"
  shows "get_next_job_id s = Inr (-1, s\<lparr>sfs_job_id_mutex := True\<rparr>)"
  using assms first_clear_MAX(2) [of "sstack_job_id_bitmap s"]
  by (simp add: get_next_job_id_def busy_def)

lemma free_spec:
  assumes "ji_ok s" "i < MAX_OUTSTANDING_JOBS"
  shows "\<exists>s'. free_job_id (int i) s = (0, s') \<and> ji_ok s' \<and> sfs_job_id_mutex s' = sfs_job_id_mutex s \<and>
    current_job_id s' = current_job_id s \<and> (\<forall>j. busy s' j \<longleftrightarrow> busy s j \<and> j \<noteq> i)"
  using assms BITTEST_BITCLEAR [of i "sstack_job_id_bitmap s"]
  by (auto simp: free_job_id_def ji_ok_def busy_def)

section \<open>Sequences of allocations and releases\<close>

datatype ji_op = Get | Free int

fun ji_exec :: "ji_op list \<Rightarrow> job_ids \<Rightarrow> (64 word list \<times> job_ids) exec" where
  "ji_exec [] s = Inr ([], s)"
| "ji_exec (Get # ops) s =
     exec_bind (get_next_job_id s) (\<lambda>(id, s').
     exec_bind (ji_exec ops s') (\<lambda>(ids, s'').
     Inr (id # ids, s'')))"
| "ji_exec (Free i # ops) s = ji_exec ops (snd (free_job_id i s))"

abbreviation gets :: "ji_op list \<Rightarrow> nat" where
  "gets ops \<equiv> length (filter (\<lambda>op. op = Get) ops)"

lemma free_keeps:
  assumes "ji_ok s"
  shows "ji_ok (snd (free_job_id i s))"
    "sfs_job_id_mutex (snd (free_job_id i s)) = sfs_job_id_mutex s"
    "current_job_id (snd (free_job_id i s)) = current_job_id s"
    "busy (snd (free_job_id i s)) j \<Longrightarrow> busy s j"
proof -
  have "ji_ok (snd (free_job_id i s)) \<and> sfs_job_id_mutex (snd (free_job_id i s)) = sfs_job_id_mutex s \<and>
    current_job_id (snd (free_job_id i s)) = current_job_id s \<and>
    (busy (snd (free_job_id i s)) j \<longrightarrow> busy s j)"
  proof (cases "0 \<le> i \<and> i < int MAX_OUTSTANDING_JOBS")
    case True
    then obtain k where k: "i = int k" using nonneg_int_cases by blast
    obtain s' where "free_job_id (int k) s = (0, s')" "ji_ok s'"
      "sfs_job_id_mutex s' = sfs_job_id_mutex s" "current_job_id s' = current_job_id s"
      "\<forall>j. busy s' j \<longleftrightarrow> busy s j \<and> j \<noteq> k"
      using free_spec [OF assms, of k] True k by auto
    then show ?thesis using k by simp
  next
    case False
    then show ?thesis using assms by (auto simp: free_job_id_def ji_ok_def busy_def)
  qed
  then show "ji_ok (snd (free_job_id i s))"
    "sfs_job_id_mutex (snd (free_job_id i s)) = sfs_job_id_mutex s"
    "current_job_id (snd (free_job_id i s)) = current_job_id s"
    "busy (snd (free_job_id i s)) j \<Longrightarrow> busy s j" by auto
qed

lemma ji_exec_straight:
  assumes "ji_ok s" "\<not> sfs_job_id_mutex s" "unat (current_job_id s) = c"
    "c + gets ops \<le> MAX_OUTSTANDING_JOBS" "\<forall>i. c \<le> i \<and> i < MAX_OUTSTANDING_JOBS \<longrightarrow> \<not> busy s i"
  shows "\<exists>s'. ji_exec ops s = Inr (map of_nat [c..<c + gets ops], s') \<and> ji_ok s' \<and>
    \<not> sfs_job_id_mutex s' \<and> unat (current_job_id s') = c + gets ops \<and>
    (\<forall>i. c + gets ops \<le> i \<and> i < MAX_OUTSTANDING_JOBS \<longrightarrow> \<not> busy s' i)"
  using assms
proof (induction ops arbitrary: s c)
  case Nil
  then show ?case by simp
next
  case (Cons op ops)
  show ?case
  proof (cases op)
    case Get
    then have lt: "c < MAX_OUTSTANDING_JOBS" using Cons.prems(4) by simp
    have cid: "current_job_id s = of_nat c" unfolding Cons.prems(3) [symmetric] by simp
    obtain s1 where s1: "get_next_job_id s = Inr (of_nat c, s1)" "ji_ok s1" "\<not> sfs_job_id_mutex s1"
      "unat (current_job_id s1) = Suc c" "\<forall>i. busy s1 i \<longleftrightarrow> busy s i \<or> i = c"
      using get_straight [OF Cons.prems(1, 2)] lt Cons.prems(3) cid by auto
    obtain s2 where "ji_exec ops s1 = Inr (map of_nat [Suc c..<Suc c + gets ops], s2)" "ji_ok s2"
      "\<not> sfs_job_id_mutex s2" "unat (current_job_id s2) = Suc c + gets ops"
      "\<forall>i. Suc c + gets ops \<le> i \<and> i < MAX_OUTSTANDING_JOBS \<longrightarrow> \<not> busy s2 i"
      using Cons.IH [OF s1(2-4)] Cons.prems(4, 5) s1(5) Get by auto
    then show ?thesis using s1(1) Get by (simp add: upt_conv_Cons del: upt_Suc)
  next
    case (Free i)
    then show ?thesis
      using Cons.IH [of "snd (free_job_id i s)" c] Cons.prems free_keeps [OF Cons.prems(1), of i]
      by auto
  qed
qed

lemma ji_exec_gets:
  assumes "ji_ok s" "\<not> sfs_job_id_mutex s" "unat (current_job_id s) + n \<le> MAX_OUTSTANDING_JOBS"
  shows "\<exists>ids s'. ji_exec (replicate n Get) s = Inr (ids, s') \<and> ji_ok s' \<and> \<not> sfs_job_id_mutex s' \<and>
    unat (current_job_id s') = unat (current_job_id s) + n \<and>
    (\<forall>i. busy s' i \<longleftrightarrow> busy s i \<or> unat (current_job_id s) \<le> i \<and> i < unat (current_job_id s) + n)"
  using assms
proof (induction n arbitrary: s)
  case (Suc n)
  obtain s1 where s1: "get_next_job_id s = Inr (current_job_id s, s1)" "ji_ok s1"
    "\<not> sfs_job_id_mutex s1" "unat (current_job_id s1) = Suc (unat (current_job_id s))"
    "\<forall>i. busy s1 i \<longleftrightarrow> busy s i \<or> i = unat (current_job_id s)"
    using get_straight [OF Suc.prems(1, 2)] Suc.prems(3) by auto
  have "unat (current_job_id s1) + n \<le> MAX_OUTSTANDING_JOBS" using s1(4) Suc.prems(3) by simp
  from Suc.IH [OF s1(2, 3) this] obtain ids s2 where s2: "ji_exec (replicate n Get) s1 = Inr (ids, s2)"
    "ji_ok s2" "\<not> sfs_job_id_mutex s2" "unat (current_job_id s2) = unat (current_job_id s1) + n"
    "\<forall>i. busy s2 i \<longleftrightarrow> busy s1 i \<or>
       unat (current_job_id s1) \<le> i \<and> i < unat (current_job_id s1) + n" by blast
  have "busy s2 i \<longleftrightarrow> busy s i \<or> unat (current_job_id s) \<le> i \<and> i < unat (current_job_id s) + Suc n" for i
    unfolding s2(5) [rule_format] s1(5) [rule_format] s1(4) by (cases "busy s i") auto
  moreover have "ji_exec (replicate (Suc n) Get) s = Inr (current_job_id s # ids, s2)"
    using s1(1) s2(1) by simp
  moreover have "unat (current_job_id s2) = unat (current_job_id s) + Suc n"
    using s1(4) s2(4) by simp
  ultimately show ?case using s2(2, 3) by blast
qed auto

lemma ji_exec_append:
  "ji_exec (xs @ ys) s =
   exec_bind (ji_exec xs s) (\<lambda>(ids, s').
   exec_bind (ji_exec ys s') (\<lambda>(ids', s''). Inr (ids @ ids', s'')))"
proof (induction xs arbitrary: s)
  case (Cons op xs)
  then show ?case
    by (cases op) (auto simp: exec_bind_assoc split_beta intro!: exec_bind_cong)
qed (auto simp: exec_bind_def split: sum.split)

section \<open>Properties\<close>

text \<open>
  C37: The first 8192 job ids handed out are 0, 1, 2, ... in this order, whatever ids
  are released in between: released bits are not looked at before the wrap-around.
\<close>

theorem job_ids_first_round:
  assumes "gets ops \<le> MAX_OUTSTANDING_JOBS"
  shows "\<exists>s'. ji_exec ops ji_init = Inr (map of_nat [0..<gets ops], s') \<and>
    unat (current_job_id s') = gets ops \<and> \<not> sfs_job_id_mutex s'"
  using ji_exec_straight [OF ji_ok_init, of 0 ops] assms not_busy_init
  by (auto simp: ji_init_def)

theorem job_ids_first_round_witness:
  "gets [Get, Get, Free 0, Get] \<le> MAX_OUTSTANDING_JOBS \<and>
   (\<exists>s'. ji_exec [Get, Get, Free 0, Get] ji_init = Inr ([0, 1, 2], s'))"
proof -
  have le: "gets [Get, Get, Free 0, Get] \<le> MAX_OUTSTANDING_JOBS"
    by (simp add: MAX_OUTSTANDING_JOBS_def)
  have "[0..<gets [Get, Get, Free 0, Get]] = [0, 1, 2]" by (simp add: upt_rec)
  then show ?thesis using job_ids_first_round [OF le] le by auto
qed

text \<open>
  After the wrap-around the scan is right: when the next-id counter is exhausted
  and the lowest free id is \<open>i\<close>, exactly \<open>i\<close> is handed out, it was not in use, it is
  the only bit that changes, and the counter moves to the next free id above it, or
  to 8192 if there is none.
\<close>

theorem job_id_scan_finds_lowest_free:
  assumes "ji_ok s" "\<not> sfs_job_id_mutex s" "unat (current_job_id s) = MAX_OUTSTANDING_JOBS"
    and "i < MAX_OUTSTANDING_JOBS" "\<not> busy s i" "\<forall>j<i. busy s j"
  shows "\<exists>s' c. get_next_job_id s = Inr (of_nat i, s') \<and> ji_ok s' \<and>
    (\<forall>j. busy s' j \<longleftrightarrow> busy s j \<or> j = i) \<and> unat (current_job_id s') = c \<and>
    i < c \<and> (\<forall>j. i < j \<and> j < c \<longrightarrow> busy s j) \<and> (c < MAX_OUTSTANDING_JOBS \<longrightarrow> \<not> busy s c)"
proof -
  let ?bm = "BITSET (sstack_job_id_bitmap s) i"
  let ?c = "first_clear ?bm i (MAX_OUTSTANDING_JOBS - i)"
  obtain s' where s': "get_next_job_id s = Inr (of_nat i, s')" "ji_ok s'"
    "unat (current_job_id s') = ?c" "\<forall>j. busy s' j \<longleftrightarrow> busy s j \<or> j = i"
    using get_wrapped [OF assms(1, 2), of i] assms(3-6) by auto
  have "i < 8 * length (sstack_job_id_bitmap s)" using assms(1, 4) by (simp add: ji_ok_def)
  note bm = BITTEST_BITSET [OF this]
  have c: "?c < i + (MAX_OUTSTANDING_JOBS - i) \<longrightarrow> BITTEST ?bm ?c = 0"
    and up: "\<And>j. i \<le> j \<Longrightarrow> j < ?c \<Longrightarrow> BITTEST ?bm j \<noteq> 0" and le: "i \<le> ?c"
    using first_clear_spec [of i ?bm "MAX_OUTSTANDING_JOBS - i"] by blast+
  have "?c \<noteq> i" using c assms(4) bm [of i] by (metis add_diff_inverse_nat less_or_eq_imp_le not_less)
  then have "i < ?c" using le by simp
  moreover have "busy s j" if "i < j" "j < ?c" for j
    using up [of j] bm [of j] that by (simp add: busy_def)
  moreover have "\<not> busy s ?c" if "?c < MAX_OUTSTANDING_JOBS"
    using c bm [of ?c] that assms(4) by (simp add: busy_def)
  ultimately show ?thesis using s' by blast
qed

text \<open>A state in which every id is busy and the counter is exhausted.\<close>

definition ji_full :: job_ids where
  "ji_full = \<lparr>sstack_job_id_bitmap = replicate 1024 0xff, current_job_id = 8192,
     sfs_job_id_mutex = False, ji_errno = 0\<rparr>"

lemma ji_full: "ji_ok ji_full" "unat (current_job_id ji_full) = MAX_OUTSTANDING_JOBS"
  "\<not> sfs_job_id_mutex ji_full" "i < MAX_OUTSTANDING_JOBS \<Longrightarrow> busy ji_full i"
proof -
  have ff: "bit (0xff :: 8 word) n" if "n < 8" for n
  proof -
    have "n \<in> {0, 1, 2, 3, 4, 5, 6, 7}" using that by auto
    then show ?thesis by auto
  qed
  show "ji_ok ji_full" "unat (current_job_id ji_full) = MAX_OUTSTANDING_JOBS"
    "\<not> sfs_job_id_mutex ji_full"
    by (simp_all add: ji_ok_def ji_full_def MAX_OUTSTANDING_JOBS_def)
  show "busy ji_full i" if "i < MAX_OUTSTANDING_JOBS"
    using that ff by (simp add: busy_def BITTEST_zero ji_full_def MAX_OUTSTANDING_JOBS_def)
qed

lemma ji_full_free:
  assumes "i < MAX_OUTSTANDING_JOBS"
  shows "ji_ok (snd (free_job_id (int i) ji_full))"
    "unat (current_job_id (snd (free_job_id (int i) ji_full))) = MAX_OUTSTANDING_JOBS"
    "\<not> sfs_job_id_mutex (snd (free_job_id (int i) ji_full))"
    "j < MAX_OUTSTANDING_JOBS \<Longrightarrow> busy (snd (free_job_id (int i) ji_full)) j \<longleftrightarrow> j \<noteq> i"
  using free_spec [OF ji_full(1) assms] ji_full by auto

theorem job_id_scan_finds_lowest_free_witness:
  "\<exists>s' c. get_next_job_id (snd (free_job_id 5 ji_full)) = Inr (5, s') \<and>
     unat (current_job_id s') = c \<and> 5 < c"
proof -
  have five: "(5::nat) < MAX_OUTSTANDING_JOBS" by (simp add: MAX_OUTSTANDING_JOBS_def)
  note f = ji_full_free [OF five]
  have "\<forall>j<5. busy (snd (free_job_id (int 5) ji_full)) j" using f(4) five by auto
  with job_id_scan_finds_lowest_free [OF f(1) f(3) f(2) five] f(4) [OF five] show ?thesis
    by (simp, blast)
qed

text \<open>
  When all ids are busy and the counter is exhausted, \<^verbatim>\<open>get_next_job_id\<close> returns -1
  (as an unsigned value \<open>2 ^ 64 - 1\<close>) and leaves the mutex locked, so that the next
  call never returns.
\<close>

theorem job_ids_exhausted_locks_up:
  assumes "\<not> sfs_job_id_mutex s" "unat (current_job_id s) \<ge> MAX_OUTSTANDING_JOBS"
    and "\<forall>i<MAX_OUTSTANDING_JOBS. busy s i"
  shows "\<exists>s'. get_next_job_id s = Inr (-1, s') \<and> get_next_job_id s' = Inl Deadlock"
  using get_full [OF assms] by (simp add: get_next_job_id_def)

theorem job_ids_exhausted_locks_up_witness:
  "\<exists>s'. get_next_job_id ji_full = Inr (-1, s') \<and> get_next_job_id s' = Inl Deadlock"
proof -
  have "MAX_OUTSTANDING_JOBS \<le> unat (current_job_id ji_full)" "\<forall>i<MAX_OUTSTANDING_JOBS. busy ji_full i"
    using ji_full(2, 4) by auto
  then show ?thesis by (rule job_ids_exhausted_locks_up [OF ji_full(3)])
qed

lemma ji_reuse_state:
  assumes "ji_ok s" "\<not> sfs_job_id_mutex s" "unat (current_job_id s) = MAX_OUTSTANDING_JOBS"
    "\<And>i. i < MAX_OUTSTANDING_JOBS \<Longrightarrow> busy s i"
  shows "\<exists>s'. ji_exec [Free 0, Free 1, Get, Get] s = Inr ([0, 1], s') \<and>
    get_next_job_id s' \<noteq> Inl Deadlock \<and> busy s' 2 \<and> (\<exists>s''. get_next_job_id s' = Inr (2, s''))"
proof -
  have lt: "0 < MAX_OUTSTANDING_JOBS" "1 < MAX_OUTSTANDING_JOBS" "2 < MAX_OUTSTANDING_JOBS"
    by (simp_all add: MAX_OUTSTANDING_JOBS_def)
  obtain s1 where s1: "free_job_id 0 s = (0, s1)" "ji_ok s1" "sfs_job_id_mutex s1 = sfs_job_id_mutex s"
    "current_job_id s1 = current_job_id s" "\<forall>j. busy s1 j \<longleftrightarrow> busy s j \<and> j \<noteq> 0"
    using free_spec [OF assms(1) lt(1)] by auto
  obtain s2 where s2: "free_job_id 1 s1 = (0, s2)" "ji_ok s2" "sfs_job_id_mutex s2 = sfs_job_id_mutex s1"
    "current_job_id s2 = current_job_id s1" "\<forall>j. busy s2 j \<longleftrightarrow> busy s1 j \<and> j \<noteq> 1"
    using free_spec [OF s1(2) lt(2)] by auto
  have cur: "unat (current_job_id s2) = MAX_OUTSTANDING_JOBS" "\<not> sfs_job_id_mutex s2"
    using s1 s2 assms by auto
  obtain s3 where s3: "get_next_job_id s2 = Inr (0, s3)" "ji_ok s3" "\<not> sfs_job_id_mutex s3"
    "unat (current_job_id s3) =
       first_clear (BITSET (sstack_job_id_bitmap s2) 0) 0 (MAX_OUTSTANDING_JOBS - 0)"
    "\<forall>j. busy s3 j \<longleftrightarrow> busy s2 j \<or> j = 0"
    using get_wrapped [OF s2(2) cur(2), of 0] cur(1) lt s1(5) s2(5) by auto
  have 3: "unat (current_job_id s3) = 1"
  proof -
    let ?bm = "BITSET (sstack_job_id_bitmap s2) 0"
    have "0 < 8 * length (sstack_job_id_bitmap s2)" using s2(2) lt by (simp add: ji_ok_def)
    note bm = BITTEST_BITSET [OF this]
    have "BITTEST ?bm 0 \<noteq> 0" "BITTEST ?bm 1 = 0"
      using bm [of 0] bm [of 1] s2(5) by (auto simp: busy_def)
    moreover obtain k where k: "MAX_OUTSTANDING_JOBS - 0 = Suc (Suc k)"
      using lt(3) by (metis Suc_diff_Suc diff_zero lessI less_trans numeral_2_eq_2)
    ultimately show ?thesis unfolding s3(4) k by simp
  qed
  have c3: "current_job_id s3 = 1" using 3 by (metis unat_1 word_unat_eq_iff)
  obtain s4 where s4: "get_next_job_id s3 = Inr (1, s4)" "ji_ok s4" "\<not> sfs_job_id_mutex s4"
    "unat (current_job_id s4) = 2" "\<forall>j. busy s4 j \<longleftrightarrow> busy s3 j \<or> j = 1"
    using get_straight [OF s3(2, 3)] c3 lt by auto
  have "current_job_id s4 = 2" using s4(4) by (simp add: word_unat_eq_iff)
  then have "\<exists>s5. get_next_job_id s4 = Inr (2, s5)"
    using get_straight [OF s4(2, 3)] s4(4) lt by auto
  moreover have "busy s4 2" using s4(5) s3(5) s2(5) s1(5) assms(4) lt(3) by simp
  moreover have "ji_exec [Free 0, Free 1, Get, Get] s = Inr ([0, 1], s4)"
    using s1(1) s2(1) s3(1) s4(1) by simp
  ultimately show ?thesis by auto
qed

text \<open>
  Job ids can be handed out twice.  There is a sequence of allocations and
  releases from the initial state after which \<^verbatim>\<open>get_next_job_id\<close> returns the id 2
  although the id 2 is busy: it was handed out before and has not been released since.
\<close>

theorem job_id_handed_out_twice:
  "\<exists>ops ids s s'. Free 2 \<notin> set ops \<and> ji_exec ops ji_init = Inr (ids, s) \<and> 2 \<in> set ids \<and> busy s 2 \<and>
     get_next_job_id s = Inr (2, s')"
proof -
  let ?gets = "replicate MAX_OUTSTANDING_JOBS Get"
  have g: "filter (\<lambda>op. op = Get) ?gets = ?gets" by simp
  obtain s1 where run: "ji_exec ?gets ji_init = Inr (map of_nat [0..<MAX_OUTSTANDING_JOBS], s1)"
    using ji_exec_straight [OF ji_ok_init, of 0 ?gets] not_busy_init g by (auto simp: ji_init_def)
  have s1: "ji_ok s1" "\<not> sfs_job_id_mutex s1" "unat (current_job_id s1) = MAX_OUTSTANDING_JOBS"
    "\<forall>i<MAX_OUTSTANDING_JOBS. busy s1 i"
    using ji_exec_gets [OF ji_ok_init, of MAX_OUTSTANDING_JOBS] run by (auto simp: ji_init_def)
  obtain s2 s3 where "ji_exec [Free 0, Free 1, Get, Get] s1 = Inr ([0, 1], s2)" "busy s2 2"
    "get_next_job_id s2 = Inr (2, s3)"
    using ji_reuse_state [OF s1(1-3)] s1(4) by auto
  then have "ji_exec (?gets @ [Free 0, Free 1, Get, Get]) ji_init =
    Inr (map of_nat [0..<MAX_OUTSTANDING_JOBS] @ [0, 1], s2)"
    using run by (simp add: ji_exec_append)
  moreover have "(2::64 word) \<in> set (map of_nat [0..<MAX_OUTSTANDING_JOBS] @ [0, 1])"
  proof -
    have "(2::nat) \<in> {0..<MAX_OUTSTANDING_JOBS}" by (simp add: MAX_OUTSTANDING_JOBS_def)
    then show ?thesis by (force intro: image_eqI [of _ of_nat 2])
  qed
  moreover have "Free 2 \<notin> set (?gets @ [Free 0, Free 1, Get, Get])" by simp
  ultimately show ?thesis using \<open>busy s2 2\<close> \<open>get_next_job_id s2 = Inr (2, s3)\<close> by blast
qed

end
