(* ===== verification/Bds_List.thy ===== *)
theory Bds_List
  imports SFS_Prelude
begin

text \<open>
  The circular doubly linked lists of \<^verbatim>\<open>common/include/bds_slab/bds_list.h\<close>.  A list node
  is an address; the heap gives the \<^verbatim>\<open>next\<close> and \<^verbatim>\<open>prev\<close> fields of every address.
  The predicate \<open>dlist\<close> says that a head and its links represent a list of
  addresses; the locale \<open>linked_list\<close> is the contract the clients rely on.
\<close>

type_synonym addr = nat

record list_heap =
  nxt :: "addr \<Rightarrow> addr"
  prv :: "addr \<Rightarrow> addr"

definition INIT_LIST_HEAD :: "addr \<Rightarrow> list_heap \<Rightarrow> list_heap" where
  "INIT_LIST_HEAD head h = h\<lparr>nxt := (nxt h)(head := head), prv := (prv h)(head := head)\<rparr>"

text \<open>The four assignments, in their order.\<close>

definition bds_list_insert :: "addr \<Rightarrow> addr \<Rightarrow> addr \<Rightarrow> list_heap \<Rightarrow> list_heap" where
  "bds_list_insert new p n h =
     (let h = h\<lparr>nxt := (nxt h)(p := new)\<rparr>;
          h = h\<lparr>nxt := (nxt h)(new := n)\<rparr>;
          h = h\<lparr>prv := (prv h)(new := p)\<rparr>
      in h\<lparr>prv := (prv h)(n := new)\<rparr>)"

definition bds_list_add :: "addr \<Rightarrow> addr \<Rightarrow> list_heap \<Rightarrow> list_heap" where
  "bds_list_add new head h = bds_list_insert new head (nxt h head) h"

definition bds_list_add_tail :: "addr \<Rightarrow> addr \<Rightarrow> list_heap \<Rightarrow> list_heap" where
  "bds_list_add_tail new head h = bds_list_insert new (prv h head) head h"

definition bds_list_unlink :: "addr \<Rightarrow> addr \<Rightarrow> list_heap \<Rightarrow> list_heap" where
  "bds_list_unlink p n h =
     (let h = h\<lparr>prv := (prv h)(n := p)\<rparr> in h\<lparr>nxt := (nxt h)(p := n)\<rparr>)"

definition bds_list_del :: "addr \<Rightarrow> list_heap \<Rightarrow> list_heap" where
  "bds_list_del entry h = bds_list_unlink (prv h entry) (nxt h entry) h"

definition list_empty :: "addr \<Rightarrow> list_heap \<Rightarrow> bool" where
  "list_empty head h \<longleftrightarrow> nxt h head = head"

text \<open>
  A \<^verbatim>\<open>list_for_each_entry\<close> loop that stops at the first entry satisfying \<open>P\<close>: the
  entry, or \<open>None\<close> when the walk comes back to the head.
\<close>

partial_function (option) list_find ::
  "(addr \<Rightarrow> bool) \<Rightarrow> list_heap \<Rightarrow> addr \<Rightarrow> addr \<Rightarrow> addr option option" where
  "list_find P h head pos =
     (if pos = head then Some None
      else if P pos then Some (Some pos)
      else list_find P h head (nxt h pos))"

section \<open>Representation\<close>

fun chain :: "list_heap \<Rightarrow> addr \<Rightarrow> addr list \<Rightarrow> addr \<Rightarrow> bool" where
  "chain h a [] b \<longleftrightarrow> nxt h a = b \<and> prv h b = a"
| "chain h a (x # xs) b \<longleftrightarrow> nxt h a = x \<and> prv h x = a \<and> chain h x xs b"

definition dlist :: "list_heap \<Rightarrow> addr \<Rightarrow> addr list \<Rightarrow> bool" where
  "dlist h head xs \<longleftrightarrow> distinct (head # xs) \<and> chain h head xs head"

lemma chain_append: "chain h a (xs @ y # ys) b \<longleftrightarrow> chain h a xs y \<and> chain h y ys b"
  by (induction xs arbitrary: a) auto

lemma chain_cong:
  assumes "\<And>x. x \<in> insert a (set xs) \<Longrightarrow> nxt h' x = nxt h x"
    and "\<And>x. x \<in> insert b (set xs) \<Longrightarrow> prv h' x = prv h x"
  shows "chain h' a xs b = chain h a xs b"
  using assms by (induction xs arbitrary: a) auto

lemma chain_ends:
  assumes "chain h a xs b"
  shows "nxt h a = (case xs of [] \<Rightarrow> b | x # _ \<Rightarrow> x)" "prv h b = last (a # xs)"
  using assms by (induction xs arbitrary: a) (auto split: list.splits)

lemma bds_list_insert_fields [simp]:
  "nxt (bds_list_insert new p n h) = (nxt h)(p := new, new := n)"
  "prv (bds_list_insert new p n h) = (prv h)(new := p, n := new)"
  by (simp_all add: bds_list_insert_def Let_def)

lemma bds_list_unlink_fields [simp]:
  "nxt (bds_list_unlink p n h) = (nxt h)(p := n)"
  "prv (bds_list_unlink p n h) = (prv h)(n := p)"
  by (simp_all add: bds_list_unlink_def Let_def)

lemma dlist_insert:
  assumes "distinct (head # xs @ ys)" "chain h head (xs @ ys) head" "new \<notin> set (head # xs @ ys)"
  shows "dlist (bds_list_insert new (last (head # xs)) (case ys of [] \<Rightarrow> head | y # _ \<Rightarrow> y) h) head (xs @ new # ys)"
proof -
  let ?p = "last (head # xs)" and ?n = "case ys of [] \<Rightarrow> head | y # _ \<Rightarrow> y"
  let ?h = "bds_list_insert new ?p ?n h"
  have left: "chain ?h head xs new"
  proof (cases xs rule: rev_cases)
    case Nil
    then show ?thesis using assms(3) by (auto split: list.splits)
  next
    case (snoc us z)
    have "chain h head us z" using assms(2) snoc by (simp add: chain_append)
    moreover have "chain ?h head us z = chain h head us z"
      using assms(1, 3) snoc by (intro chain_cong) (auto split: list.splits)
    moreover have "new \<noteq> z" "new \<noteq> ?n" using assms(3) snoc by (auto split: list.splits)
    ultimately show ?thesis using snoc by (simp add: chain_append)
  qed
  have right: "chain ?h new ys head"
  proof (cases ys)
    case Nil
    then show ?thesis using assms(3) by simp
  next
    case (Cons y us)
    have "chain h y us head" using assms(2) Cons by (simp add: chain_append)
    moreover have p: "?p \<in> insert head (set xs)" by (cases xs rule: rev_cases) auto
    moreover have "chain ?h y us head = chain h y us head"
      using assms(1, 3) Cons p by (intro chain_cong) auto
    moreover have "new \<noteq> y" "new \<noteq> ?p" using assms(3) Cons p by auto
    ultimately show ?thesis using Cons by simp
  qed
  show ?thesis
    using assms(1, 3) left right by (auto simp: dlist_def chain_append)
qed

lemma dlist_init: "dlist (INIT_LIST_HEAD head h) head []"
  by (simp add: dlist_def INIT_LIST_HEAD_def)

lemma dlist_add:
  assumes "dlist h head xs" "new \<notin> set (head # xs)"
  shows "dlist (bds_list_add new head h) head (new # xs)"
  using dlist_insert [of head "[]" xs h new] assms chain_ends(1) [of h head xs head]
  by (simp add: dlist_def bds_list_add_def)

lemma dlist_add_tail:
  assumes "dlist h head xs" "new \<notin> set (head # xs)"
  shows "dlist (bds_list_add_tail new head h) head (xs @ [new])"
  using dlist_insert [of head xs "[]" h new] assms chain_ends(2) [of h head xs head]
  by (simp add: dlist_def bds_list_add_tail_def)

lemma dlist_del:
  assumes "dlist h head (xs @ x # ys)"
  shows "dlist (bds_list_del x h) head (xs @ ys)"
proof -
  let ?p = "last (head # xs)" and ?n = "case ys of [] \<Rightarrow> head | y # _ \<Rightarrow> y"
  have d: "distinct (head # xs @ x # ys)" and c: "chain h head xs x" "chain h x ys head"
    using assms by (auto simp: dlist_def chain_append)
  have pn: "prv h x = ?p" "nxt h x = ?n" using chain_ends(2) [OF c(1)] chain_ends(1) [OF c(2)] by auto
  let ?h = "bds_list_unlink ?p ?n h"
  have "chain ?h head (xs @ ys) head"
  proof (cases xs rule: rev_cases)
    case Nil
    then show ?thesis
    proof (cases ys)
      case (Cons y us)
      have "chain ?h y us head = chain h y us head"
        using d Nil Cons by (intro chain_cong) auto
      then show ?thesis using c(2) Nil Cons by simp
    qed (use Nil in simp)
  next
    case (snoc us z)
    have left: "chain ?h head us z"
    proof -
      have "chain ?h head us z = chain h head us z"
        using d snoc by (intro chain_cong) (auto split: list.splits)
      then show ?thesis using c(1) snoc by (simp add: chain_append)
    qed
    have "chain ?h z ys head"
    proof (cases ys)
      case (Cons y vs)
      have "chain ?h y vs head = chain h y vs head"
        using d snoc Cons by (intro chain_cong) auto
      then show ?thesis using c(2) snoc Cons by simp
    qed (use snoc in simp)
    then show ?thesis using left snoc by (simp add: chain_append)
  qed
  then show ?thesis using d pn by (auto simp: dlist_def bds_list_del_def)
qed

lemma dlist_empty: "dlist h head xs \<Longrightarrow> list_empty head h \<longleftrightarrow> xs = []"
  by (cases xs) (auto simp: dlist_def list_empty_def)

text \<open>Lists that share no node do not disturb each other.\<close>

lemma dlist_frame:
  assumes "dlist h head xs" "\<And>x. x \<in> set (head # xs) \<Longrightarrow> nxt h' x = nxt h x \<and> prv h' x = prv h x"
  shows "dlist h' head xs"
  using assms chain_cong [of head xs h' h head] by (auto simp: dlist_def)

lemma dlist_nodes:
  assumes "dlist h head xs"
  shows "x \<in> set (head # xs) \<Longrightarrow> nxt h x \<in> set (head # xs) \<and> prv h x \<in> set (head # xs)"
proof -
  have "nxt h y \<in> set (xs @ [b])" if "chain h a xs b" "y \<in> set (a # xs)" for a b y
    using that by (induction xs arbitrary: a) auto
  moreover have "prv h y \<in> set (a # xs)" if "chain h a xs b" "y \<in> set (b # xs)" for a b y
    using that by (induction xs arbitrary: a) auto
  ultimately show "x \<in> set (head # xs) \<Longrightarrow> nxt h x \<in> set (head # xs) \<and> prv h x \<in> set (head # xs)"
    using assms unfolding dlist_def by fastforce
qed

section \<open>The walk\<close>

lemma list_find_chain:
  assumes "chain h a xs b" "b \<notin> set xs"
  shows "list_find P h b (nxt h a) = Some (List.find P xs)"
  using assms
proof (induction xs arbitrary: a)
  case Nil
  then show ?case by (simp add: list_find.simps)
next
  case (Cons x xs)
  then show ?case by (simp add: list_find.simps [of P h b x])
qed

lemma list_find_dlist: "dlist h head xs \<Longrightarrow> list_find P h head (nxt h head) = Some (List.find P xs)"
  by (rule list_find_chain) (auto simp: dlist_def)

section \<open>The contract\<close>

text \<open>Several lists in one heap that share no node, indexed by the elements of \<open>I\<close>.\<close>

definition lists_in ::
  "('h \<Rightarrow> 'n \<Rightarrow> 'n list \<Rightarrow> bool) \<Rightarrow> ('i \<Rightarrow> 'n) \<Rightarrow> 'i set \<Rightarrow> ('i \<Rightarrow> 'n list) \<Rightarrow> 'h \<Rightarrow> bool" where
  "lists_in rep head I f h \<longleftrightarrow> (\<forall>i\<in>I. rep h (head i) (f i)) \<and>
     (\<forall>i\<in>I. \<forall>j\<in>I. i \<noteq> j \<longrightarrow> set (head i # f i) \<inter> set (head j # f j) = {})"

text \<open>
  What the users of the lists rely on: \<open>rep h head xs\<close> says that in heap \<open>h\<close> the head
  \<open>head\<close> holds the nodes \<open>xs\<close>, first to last, and \<open>same h h' ns\<close> that the links
  of the nodes \<open>ns\<close> are the same in two heaps.
\<close>

locale linked_list =
  fixes rep :: "'h \<Rightarrow> 'n \<Rightarrow> 'n list \<Rightarrow> bool"
    and same :: "'h \<Rightarrow> 'h \<Rightarrow> 'n set \<Rightarrow> bool"
    and init :: "'n \<Rightarrow> 'h \<Rightarrow> 'h"
    and add :: "'n \<Rightarrow> 'n \<Rightarrow> 'h \<Rightarrow> 'h"
    and add_tail :: "'n \<Rightarrow> 'n \<Rightarrow> 'h \<Rightarrow> 'h"
    and del :: "'n \<Rightarrow> 'h \<Rightarrow> 'h"
    and is_empty :: "'n \<Rightarrow> 'h \<Rightarrow> bool"
    and first :: "'n \<Rightarrow> 'h \<Rightarrow> 'n"
    and search :: "('n \<Rightarrow> bool) \<Rightarrow> 'h \<Rightarrow> 'n \<Rightarrow> 'n option option"
  assumes init_rep: "rep (init head h) head []"
    and rep_distinct: "rep h head xs \<Longrightarrow> distinct (head # xs)"
    and add_rep: "rep h head xs \<Longrightarrow> n \<notin> set (head # xs) \<Longrightarrow> rep (add n head h) head (n # xs)"
    and add_tail_rep: "rep h head xs \<Longrightarrow> n \<notin> set (head # xs) \<Longrightarrow> rep (add_tail n head h) head (xs @ [n])"
    and del_rep: "rep h head (xs @ n # ys) \<Longrightarrow> rep (del n h) head (xs @ ys)"
    and first_rep: "rep h head (n # xs) \<Longrightarrow> first head h = n"
    and empty_rep: "rep h head xs \<Longrightarrow> is_empty head h \<longleftrightarrow> xs = []"
    and search_rep: "rep h head xs \<Longrightarrow> search P h head = Some (List.find P xs)"
    and add_same: "rep h head xs \<Longrightarrow> ns \<inter> set (n # head # xs) = {} \<Longrightarrow> same h (add n head h) ns"
    and add_tail_same: "rep h head xs \<Longrightarrow> ns \<inter> set (n # head # xs) = {} \<Longrightarrow> same h (add_tail n head h) ns"
    and del_same: "rep h head xs \<Longrightarrow> n \<in> set xs \<Longrightarrow> ns \<inter> set (head # xs) = {} \<Longrightarrow> same h (del n h) ns"
    and init_same: "head \<notin> ns \<Longrightarrow> same h (init head h) ns"
    and same_rep: "rep h head xs \<Longrightarrow> same h h' (set (head # xs)) \<Longrightarrow> rep h' head xs"
begin

lemma add_all_rep:
  assumes "rep h head xs" "distinct ns" "set ns \<inter> set (head # xs) = {}"
  shows "rep (fold (\<lambda>n. add_tail n head) ns h) head (xs @ ns)"
  using assms
proof (induction ns arbitrary: h xs)
  case (Cons n ns)
  then have "rep (add_tail n head h) head (xs @ [n])" by (intro add_tail_rep) auto
  then have "rep (fold (\<lambda>n. add_tail n head) ns (add_tail n head h)) head ((xs @ [n]) @ ns)"
    using Cons.prems by (intro Cons.IH) auto
  then show ?case by simp
qed simp

lemma del_first_match:
  assumes "rep h head xs" "search P h head = Some (Some n)"
  shows "rep (del n h) head (remove1 n xs) \<and> n \<in> set xs \<and> P n"
proof -
  have f: "List.find P xs = Some n" using search_rep [OF assms(1), of P] assms(2) by simp
  then obtain i where "i < length xs" "xs ! i = n" "P n" by (auto simp: find_Some_iff)
  then have n: "n \<in> set xs" by auto
  then obtain us vs where xs: "xs = us @ n # vs" by (auto dest: split_list)
  moreover have "n \<notin> set us" using rep_distinct [OF assms(1)] xs by auto
  ultimately have "remove1 n xs = us @ vs" by (simp add: remove1_append)
  then show ?thesis using del_rep [of h head us n vs] assms(1) xs n \<open>P n\<close> by simp
qed

lemma del_member:
  assumes "rep h head xs" "n \<in> set xs"
  shows "rep (del n h) head (remove1 n xs)"
proof -
  obtain us vs where xs: "xs = us @ n # vs" using assms(2) by (auto dest: split_list)
  moreover have "n \<notin> set us" using rep_distinct [OF assms(1)] xs by auto
  ultimately have "remove1 n xs = us @ vs" by (simp add: remove1_append)
  then show ?thesis using del_rep [of h head us n vs] assms(1) xs by simp
qed

lemma lists_update:
  assumes lists: "lists_in rep head I f h" and i: "i \<in> I" and rep: "rep h' (head i) ys"
    and frame: "\<And>j. j \<in> I \<Longrightarrow> j \<noteq> i \<Longrightarrow> same h h' (set (head j # f j))"
    and disj: "\<And>j. j \<in> I \<Longrightarrow> j \<noteq> i \<Longrightarrow> set ys \<inter> set (head j # f j) = {}"
  shows "lists_in rep head I (f(i := ys)) h'"
proof -
  have "rep h' (head j) ((f(i := ys)) j)" if j: "j \<in> I" for j
  proof (cases "j = i")
    case True
    then show ?thesis using rep by simp
  next
    case False
    then have "rep h (head j) (f j)" using lists j by (simp add: lists_in_def)
    from same_rep [OF this frame [OF j False]] show ?thesis using False by simp
  qed
  moreover have "set (head a # (f(i := ys)) a) \<inter> set (head b # (f(i := ys)) b) = {}"
    if "a \<in> I" "b \<in> I" "a \<noteq> b" for a b
  proof -
    have "set (head a # f a) \<inter> set (head b # f b) = {}"
      using lists that unfolding lists_in_def by blast
    then show ?thesis
      using disj [OF that(1)] disj [OF that(2)] that(3) by (cases "a = i"; cases "b = i") auto
  qed
  ultimately show ?thesis unfolding lists_in_def by blast
qed

lemma lists_init:
  assumes "lists_in rep head I f h" "\<And>j. j \<in> I \<Longrightarrow> n \<notin> set (head j # f j)"
  shows "lists_in rep head I f (init n h)"
  using assms same_rep init_same unfolding lists_in_def by metis

lemma lists_reps:
  assumes "lists_in rep head I f h" "i \<in> I"
  shows "rep h (head i) (f i)" "j \<in> I \<Longrightarrow> j \<noteq> i \<Longrightarrow> set (head j # f j) \<inter> set (head i # f i) = {}"
  using assms unfolding lists_in_def by blast+

lemma lists_add:
  assumes "lists_in rep head I f h" "i \<in> I" "\<And>j. j \<in> I \<Longrightarrow> n \<notin> set (head j # f j)"
  shows "lists_in rep head I (f(i := n # f i)) (add n (head i) h)"
proof (rule lists_update [OF assms(1, 2)])
  note r = lists_reps [OF assms(1, 2)]
  show "rep (add n (head i) h) (head i) (n # f i)" by (rule add_rep [OF r(1) assms(3) [OF assms(2)]])
  fix j assume j: "j \<in> I" "j \<noteq> i"
  show "same h (add n (head i) h) (set (head j # f j))"
    by (rule add_same [OF r(1)]) (use r(2) [OF j] assms(3) [OF j(1)] in auto)
  show "set (n # f i) \<inter> set (head j # f j) = {}" using r(2) [OF j] assms(3) [OF j(1)] by auto
qed

lemma lists_add_tail:
  assumes "lists_in rep head I f h" "i \<in> I" "\<And>j. j \<in> I \<Longrightarrow> n \<notin> set (head j # f j)"
  shows "lists_in rep head I (f(i := f i @ [n])) (add_tail n (head i) h)"
proof (rule lists_update [OF assms(1, 2)])
  note r = lists_reps [OF assms(1, 2)]
  show "rep (add_tail n (head i) h) (head i) (f i @ [n])" by (rule add_tail_rep [OF r(1) assms(3) [OF assms(2)]])
  fix j assume j: "j \<in> I" "j \<noteq> i"
  show "same h (add_tail n (head i) h) (set (head j # f j))"
    by (rule add_tail_same [OF r(1)]) (use r(2) [OF j] assms(3) [OF j(1)] in auto)
  show "set (f i @ [n]) \<inter> set (head j # f j) = {}" using r(2) [OF j] assms(3) [OF j(1)] by auto
qed

lemma lists_del:
  assumes "lists_in rep head I f h" "i \<in> I" "n \<in> set (f i)"
  shows "lists_in rep head I (f(i := remove1 n (f i))) (del n h)"
proof (rule lists_update [OF assms(1, 2)])
  note r = lists_reps [OF assms(1, 2)]
  show "rep (del n h) (head i) (remove1 n (f i))" by (rule del_member [OF r(1) assms(3)])
  fix j assume j: "j \<in> I" "j \<noteq> i"
  show "same h (del n h) (set (head j # f j))" by (rule del_same [OF r(1) assms(3) r(2) [OF j]])
  show "set (remove1 n (f i)) \<inter> set (head j # f j) = {}"
    using r(2) [OF j] set_remove1_subset [of n "f i"] by auto
qed

text \<open>A node taken out of one of the lists is in none of them.\<close>

lemma lists_del_fresh:
  assumes "lists_in rep head I f h" "i \<in> I" "n \<in> set (f i)" "k \<in> I"
  shows "n \<notin> set (head k # (f(i := remove1 n (f i))) k)"
proof -
  note r = lists_reps [OF assms(1, 2)]
  show ?thesis
    using rep_distinct [OF r(1)] r(2) [OF assms(4)] assms(3) by (cases "k = i") auto
qed

lemma lists_move:
  assumes "lists_in rep head I f h" "i \<in> I" "j \<in> I" "n \<in> set (f i)"
  shows "lists_in rep head I ((f(i := remove1 n (f i)))(j := n # (f(i := remove1 n (f i))) j))
    (add n (head j) (del n h))"
  by (rule lists_add [OF lists_del [OF assms(1, 2, 4)] assms(3) lists_del_fresh [OF assms(1, 2, 4)]])

lemma lists_move_tail:
  assumes "lists_in rep head I f h" "i \<in> I" "j \<in> I" "n \<in> set (f i)"
  shows "lists_in rep head I ((f(i := remove1 n (f i)))(j := (f(i := remove1 n (f i))) j @ [n]))
    (add_tail n (head j) (del n h))"
  by (rule lists_add_tail [OF lists_del [OF assms(1, 2, 4)] assms(3) lists_del_fresh [OF assms(1, 2, 4)]])

lemma other_add_tail:
  assumes "rep h head xs" "rep h head' ys" "set (head # xs) \<inter> set (head' # ys) = {}" "n \<notin> set (head' # ys)"
  shows "rep (add_tail n head h) head' ys"
  by (rule same_rep [OF assms(2) add_tail_same [OF assms(1)]]) (use assms(3, 4) in auto)

lemma other_del:
  assumes "rep h head xs" "rep h head' ys" "set (head # xs) \<inter> set (head' # ys) = {}" "n \<in> set xs"
  shows "rep (del n h) head' ys"
  by (rule same_rep [OF assms(2) del_same [OF assms(1, 4)]]) (use assms(3) in auto)

end

definition same_links :: "list_heap \<Rightarrow> list_heap \<Rightarrow> addr set \<Rightarrow> bool" where
  "same_links h h' ns \<longleftrightarrow> (\<forall>x\<in>ns. nxt h' x = nxt h x \<and> prv h' x = prv h x)"

lemma dlist_insert_same:
  "ns \<inter> {p, n, new} = {} \<Longrightarrow> same_links h (bds_list_insert new p n h) ns"
  by (auto simp: same_links_def)

interpretation bds: linked_list dlist same_links INIT_LIST_HEAD bds_list_add bds_list_add_tail
  bds_list_del list_empty "\<lambda>head h. nxt h head" "\<lambda>P h head. list_find P h head (nxt h head)"
proof unfold_locales
  fix h head xs ns n
  assume d: "dlist h head xs" "ns \<inter> set (n # head # xs) = {}"
  have "nxt h head \<in> set (head # xs)" using dlist_nodes [OF d(1)] by simp
  then show "same_links h (bds_list_add n head h) ns"
    unfolding bds_list_add_def using d(2) by (intro dlist_insert_same) auto
next
  fix h head xs ns n
  assume d: "dlist h head xs" "ns \<inter> set (n # head # xs) = {}"
  have "prv h head \<in> set (head # xs)" using dlist_nodes [OF d(1)] by simp
  then show "same_links h (bds_list_add_tail n head h) ns"
    unfolding bds_list_add_tail_def using d(2) by (intro dlist_insert_same) auto
next
  fix h head xs n ns
  assume d: "dlist h head xs" "n \<in> set xs" "ns \<inter> set (head # xs) = {}"
  have "nxt h n \<in> set (head # xs) \<and> prv h n \<in> set (head # xs)" using dlist_nodes [OF d(1)] d(2) by simp
  then show "same_links h (bds_list_del n h) ns"
    using d(3) by (auto simp: same_links_def bds_list_del_def)
next
  fix h head xs h'
  assume "dlist h head xs" "same_links h h' (set (head # xs))"
  then show "dlist h' head xs" unfolding same_links_def by (blast intro: dlist_frame)
next
  fix h head xs
  show "dlist h head xs \<Longrightarrow> distinct (head # xs)" by (simp add: dlist_def)
next
  fix head ns h
  assume "(head::addr) \<notin> ns"
  then show "same_links h (INIT_LIST_HEAD head h) ns" by (auto simp: same_links_def INIT_LIST_HEAD_def)
next
  fix h head n xs
  show "dlist h head (n # xs) \<Longrightarrow> nxt h head = n" by (simp add: dlist_def)
qed (rule dlist_init dlist_add dlist_add_tail dlist_del dlist_empty list_find_dlist; assumption)+

end
