(* ===== verification/Job_Queue.thy ===== *)
theory Job_Queue
  imports Bds_List
begin

text \<open>
  The job queues of \<^verbatim>\<open>sfs/src/sfs_job.c\<close>: one FIFO list per priority, linked through
  the \<^verbatim>\<open>wait_list\<close> field of the jobs.  A job is known by the address of that field;
  \<open>jq_id\<close> gives the \<^verbatim>\<open>id\<close> of the job at an address.
\<close>

definition HIGH_PRIORITY :: int where "HIGH_PRIORITY = 0"
definition MEDIUM_PRIORITY :: int where "MEDIUM_PRIORITY = 1"
definition LOW_PRIORITY :: int where "LOW_PRIORITY = 2"
definition NUM_PRIORITY_MAX :: int where "NUM_PRIORITY_MAX = 2"

record sfs_job_queue =
  q_priority :: int
  q_list :: addr
  q_lock :: bool

record jq_state =
  jq_links :: list_heap
  jq_queues :: "sfs_job_queue list"
  jq_id :: "addr \<Rightarrow> 64 word"
  jq_errno :: int

text \<open>
  The loop of \<^verbatim>\<open>sfs_job_list_init\<close> from element \<open>i\<close> on, over the freshly allocated
  array \<open>qs\<close> of which each element has its list head at the address \<^verbatim>\<open>q_list\<close>.
\<close>

fun job_list_init_loop ::
  "nat \<Rightarrow> nat \<Rightarrow> sfs_job_queue list \<times> list_heap \<Rightarrow> sfs_job_queue list \<times> list_heap" where
  "job_list_init_loop i 0 st = st"
| "job_list_init_loop i (Suc k) (qs, h) =
     job_list_init_loop (Suc i) k
       (qs[i := (qs ! i)\<lparr>q_priority := HIGH_PRIORITY + int i, q_lock := False\<rparr>],
        INIT_LIST_HEAD (q_list (qs ! i)) h)"

definition sfs_job_list_init :: "sfs_job_queue list option \<Rightarrow> jq_state \<Rightarrow> int \<times> jq_state" where
  "sfs_job_list_init mem s =
     (case mem of
        None \<Rightarrow> (-1, s)
      | Some qs \<Rightarrow>
          let (qs', h') = job_list_init_loop 0 (nat NUM_PRIORITY_MAX) (qs, jq_links s)
          in (0, s\<lparr>jq_queues := qs', jq_links := h'\<rparr>))"

fun job_queue_destroy_loop ::
  "nat \<Rightarrow> nat \<Rightarrow> sfs_job_queue list \<times> list_heap \<Rightarrow> sfs_job_queue list \<times> list_heap" where
  "job_queue_destroy_loop i 0 st = st"
| "job_queue_destroy_loop i (Suc k) (qs, h) =
     job_queue_destroy_loop (Suc i) k (qs[i := (qs ! i)\<lparr>q_priority := -1\<rparr>], INIT_LIST_HEAD (q_list (qs ! i)) h)"

text \<open>\<open>job_list\<close> says that the array exists; it is freed, so that no queue is left.\<close>

definition sfs_job_queue_destroy :: "bool \<Rightarrow> jq_state \<Rightarrow> int \<times> jq_state" where
  "sfs_job_queue_destroy job_list s =
     (if \<not> job_list then (-1, s)
      else
        let (qs, h) = job_queue_destroy_loop 0 (nat NUM_PRIORITY_MAX) (jq_queues s, jq_links s)
        in (0, s\<lparr>jq_queues := [], jq_links := h\<rparr>))"

definition jq_bad_args :: "int \<Rightarrow> bool \<Rightarrow> addr option \<Rightarrow> bool" where
  "jq_bad_args priority job_list job \<longleftrightarrow>
     priority < HIGH_PRIORITY \<or> priority > NUM_PRIORITY_MAX \<or> \<not> job_list \<or> job = None"

text \<open>\<open>job_list\<close> says that the pointer to the queues is not null.\<close>

definition sfs_enqueue_job ::
  "int \<Rightarrow> bool \<Rightarrow> addr option \<Rightarrow> jq_state \<Rightarrow> (int \<times> jq_state) exec" where
  "sfs_enqueue_job priority job_list job s =
     (if jq_bad_args priority job_list job then Inr (-1, s\<lparr>jq_errno := EINVAL\<rparr>)
      else
        let p = nat priority; q = jq_queues s ! p in
        exec_bind (pthread_spin_lock (q_lock q)) (\<lambda>_.
        Inr (0, s\<lparr>jq_links := bds_list_add_tail (the job) (q_list q) (jq_links s),
                  jq_queues := (jq_queues s)[p := q\<lparr>q_lock := False\<rparr>]\<rparr>)))"

definition sfs_submit_job ::
  "int \<Rightarrow> bool \<Rightarrow> addr option \<Rightarrow> jq_state \<Rightarrow> (int \<times> jq_state) exec" where
  "sfs_submit_job priority job_list job s =
     (if jq_bad_args priority job_list job then Inr (-1, s\<lparr>jq_errno := EINVAL\<rparr>)
      else
        exec_bind (sfs_enqueue_job priority job_list job s) (\<lambda>(ret, s').
        if ret \<noteq> 0 then Inr (-1, s') else Inr (0, s')))"

text \<open>\<open>None\<close> is a walk over the list that never comes back to its head.\<close>

definition sfs_dequeue_job ::
  "int \<Rightarrow> bool \<Rightarrow> addr option \<Rightarrow> jq_state \<Rightarrow> (int \<times> jq_state) exec option" where
  "sfs_dequeue_job priority job_list job s =
     (if jq_bad_args priority job_list job then Some (Inr (-1, s\<lparr>jq_errno := EINVAL\<rparr>))
      else
        let p = nat priority; q = jq_queues s ! p; head = q_list q; h = jq_links s;
            s' = s\<lparr>jq_queues := (jq_queues s)[p := q\<lparr>q_lock := False\<rparr>]\<rparr>
        in if q_lock q then Some (Inl Deadlock)
           else if list_empty head h then Some (Inr (-1, s'))
           else
             map_option
               (\<lambda>found. case found of
                  Some temp \<Rightarrow> Inr (0, s'\<lparr>jq_links := bds_list_del temp h\<rparr>)
                | None \<Rightarrow> Inr (-1, s'))
               (list_find (\<lambda>a. jq_id s a = jq_id s (the job)) h head (nxt h head)))"

section \<open>The queues as lists of jobs\<close>

text \<open>
  \<open>jq_rep s p xs\<close>: the queue of priority \<open>p\<close> holds the jobs \<open>xs\<close>, oldest first, and
  its lock is free.
\<close>

definition jq_rep :: "jq_state \<Rightarrow> nat \<Rightarrow> addr list \<Rightarrow> bool" where
  "jq_rep s p xs \<longleftrightarrow> p < length (jq_queues s) \<and> \<not> q_lock (jq_queues s ! p) \<and>
     dlist (jq_links s) (q_list (jq_queues s ! p)) xs"

lemma jq_prio:
  "p \<le> 2 \<Longrightarrow> jq_bad_args (int p) True (Some j) = False"
  by (simp add: jq_bad_args_def HIGH_PRIORITY_def NUM_PRIORITY_MAX_def)

lemma jq_enqueue:
  assumes "jq_rep s p xs" "p \<le> 2" "j \<notin> set (q_list (jq_queues s ! p) # xs)"
  shows "\<exists>s'. sfs_enqueue_job (int p) True (Some j) s = Inr (0, s') \<and> jq_rep s' p (xs @ [j]) \<and>
    jq_id s' = jq_id s \<and> jq_errno s' = jq_errno s \<and>
    map q_list (jq_queues s') = map q_list (jq_queues s) \<and>
    jq_links s' = bds_list_add_tail j (q_list (jq_queues s ! p)) (jq_links s)"
proof -
  let ?q = "jq_queues s ! p"
  have r: "p < length (jq_queues s)" "\<not> q_lock ?q" "dlist (jq_links s) (q_list ?q) xs"
    using assms(1) by (auto simp: jq_rep_def)
  have "dlist (bds_list_add_tail j (q_list ?q) (jq_links s)) (q_list ?q) (xs @ [j])"
    using bds.add_tail_rep [OF r(3) assms(3)] .
  moreover have "map q_list ((jq_queues s)[p := ?q\<lparr>q_lock := False\<rparr>]) = map q_list (jq_queues s)"
    using r(1) by (simp add: map_update list_update_same_conv)
  ultimately show ?thesis
    using r jq_prio [OF assms(2)] by (simp add: sfs_enqueue_job_def jq_rep_def Let_def)
qed

lemma jq_dequeue:
  assumes "jq_rep s p xs" "p \<le> 2"
  shows "\<exists>s'. sfs_dequeue_job (int p) True (Some j) s =
      Some (Inr (if find (\<lambda>a. jq_id s a = jq_id s j) xs = None then -1 else 0, s')) \<and>
    jq_rep s' p (case find (\<lambda>a. jq_id s a = jq_id s j) xs of None \<Rightarrow> xs | Some t \<Rightarrow> remove1 t xs) \<and>
    jq_id s' = jq_id s \<and> jq_errno s' = jq_errno s \<and>
    map q_list (jq_queues s') = map q_list (jq_queues s) \<and>
    jq_links s' = (case find (\<lambda>a. jq_id s a = jq_id s j) xs of
       None \<Rightarrow> jq_links s | Some t \<Rightarrow> bds_list_del t (jq_links s))"
proof -
  let ?q = "jq_queues s ! p" and ?P = "\<lambda>a. jq_id s a = jq_id s j"
  have r: "p < length (jq_queues s)" "\<not> q_lock ?q" "dlist (jq_links s) (q_list ?q) xs"
    using assms(1) by (auto simp: jq_rep_def)
  have heads: "map q_list ((jq_queues s)[p := ?q\<lparr>q_lock := False\<rparr>]) = map q_list (jq_queues s)"
    using r(1) by (simp add: map_update list_update_same_conv)
  have f: "list_find ?P (jq_links s) (q_list ?q) (nxt (jq_links s) (q_list ?q)) = Some (find ?P xs)"
    by (rule bds.search_rep [OF r(3)])
  note e = bds.empty_rep [OF r(3)]
  show ?thesis
  proof (cases "find ?P xs")
    case None
    then show ?thesis
      using r heads f e jq_prio [OF assms(2)]
      by (cases "xs = []") (simp_all add: sfs_dequeue_job_def jq_rep_def Let_def)
  next
    case (Some t)
    then have "xs \<noteq> []" by auto
    moreover have "dlist (bds_list_del t (jq_links s)) (q_list ?q) (remove1 t xs)"
      using bds.del_first_match [OF r(3), of ?P t] f Some by simp
    ultimately show ?thesis
      using Some r heads f e jq_prio [OF assms(2)]
      by (simp add: sfs_dequeue_job_def jq_rep_def Let_def)
  qed
qed

text \<open>
  The first \<open>n\<close> queues hold the job lists \<open>f 0, f 1, ...\<close> and share no node.
\<close>

definition jq_inv :: "nat \<Rightarrow> jq_state \<Rightarrow> (nat \<Rightarrow> addr list) \<Rightarrow> bool" where
  "jq_inv n s f \<longleftrightarrow> (\<forall>p<n. jq_rep s p (f p)) \<and>
     (\<forall>p<n. \<forall>p'<n. p \<noteq> p' \<longrightarrow>
        set (q_list (jq_queues s ! p) # f p) \<inter> set (q_list (jq_queues s ! p') # f p') = {})"

definition jq_nodes :: "nat \<Rightarrow> jq_state \<Rightarrow> (nat \<Rightarrow> addr list) \<Rightarrow> addr set" where
  "jq_nodes n s f = (\<Union>p<n. set (q_list (jq_queues s ! p) # f p))"

lemma jq_heads:
  assumes "map q_list (jq_queues s') = map q_list (jq_queues s)" "p < length (jq_queues s)"
  shows "q_list (jq_queues s' ! p) = q_list (jq_queues s ! p)"
  using assms by (metis length_map nth_map)

lemma jq_inv_change:
  assumes "jq_inv n s f" "p < n" "jq_rep s' p xs"
    and heads: "map q_list (jq_queues s') = map q_list (jq_queues s)"
    and locks: "\<And>p'. p' \<noteq> p \<Longrightarrow> jq_queues s' ! p' = jq_queues s ! p'"
    and others: "\<And>p'. p' < n \<Longrightarrow> p' \<noteq> p \<Longrightarrow> dlist (jq_links s') (q_list (jq_queues s ! p')) (f p')"
    and disj: "\<And>p'. p' < n \<Longrightarrow> p' \<noteq> p \<Longrightarrow> set xs \<inter> set (q_list (jq_queues s ! p') # f p') = {}"
  shows "jq_inv n s' (f(p := xs))"
proof -
  have len: "length (jq_queues s') = length (jq_queues s)" using map_eq_imp_length_eq [OF heads] .
  have head: "q_list (jq_queues s' ! p') = q_list (jq_queues s ! p')" if "p' < n" for p'
    using jq_heads [OF heads] assms(1) that by (auto simp: jq_inv_def jq_rep_def)
  have "jq_rep s' p' ((f(p := xs)) p')" if "p' < n" for p'
    using assms(1, 3) that locks [of p'] others [of p'] len
    by (cases "p' = p") (auto simp: jq_inv_def jq_rep_def)
  moreover have "set (q_list (jq_queues s' ! a) # (f(p := xs)) a) \<inter>
      set (q_list (jq_queues s' ! b) # (f(p := xs)) b) = {}" if ab: "a < n" "b < n" "a \<noteq> b" for a b
  proof -
    have "set (q_list (jq_queues s ! a) # f a) \<inter> set (q_list (jq_queues s ! b) # f b) = {}"
      using assms(1) ab by (auto simp: jq_inv_def)
    then show ?thesis
      using head [OF ab(1)] head [OF ab(2)] disj [OF ab(1)] disj [OF ab(2)] ab(3)
      by (cases "a = p"; cases "b = p") auto
  qed
  ultimately show ?thesis unfolding jq_inv_def by blast
qed

lemma jq_inv_dlist:
  assumes "jq_inv n s f" "p < n" "p' < n" "p' \<noteq> p"
  shows "dlist (jq_links s) (q_list (jq_queues s ! p)) (f p)"
    "dlist (jq_links s) (q_list (jq_queues s ! p')) (f p')"
    "set (q_list (jq_queues s ! p) # f p) \<inter> set (q_list (jq_queues s ! p') # f p') = {}"
  using assms unfolding jq_inv_def jq_rep_def by blast+

lemma jq_inv_enqueue:
  assumes "jq_inv n s f" "p < n" "p \<le> 2" "j \<notin> jq_nodes n s f"
  shows "\<exists>s'. sfs_enqueue_job (int p) True (Some j) s = Inr (0, s') \<and> jq_inv n s' (f(p := f p @ [j])) \<and>
    jq_nodes n s' (f(p := f p @ [j])) = insert j (jq_nodes n s f) \<and> jq_id s' = jq_id s"
proof -
  have rep: "jq_rep s p (f p)" using assms(1, 2) by (simp add: jq_inv_def)
  have fresh: "j \<notin> set (q_list (jq_queues s ! p') # f p')" if "p' < n" for p'
    using assms(4) that by (auto simp: jq_nodes_def)
  obtain s' where s': "sfs_enqueue_job (int p) True (Some j) s = Inr (0, s')"
    "jq_rep s' p (f p @ [j])" "jq_id s' = jq_id s"
    "map q_list (jq_queues s') = map q_list (jq_queues s)"
    "jq_links s' = bds_list_add_tail j (q_list (jq_queues s ! p)) (jq_links s)"
    "\<And>p'. p' \<noteq> p \<Longrightarrow> jq_queues s' ! p' = jq_queues s ! p'"
    using jq_enqueue [OF rep assms(3) fresh [OF assms(2)]] rep
    by (auto simp: sfs_enqueue_job_def jq_prio [OF assms(3)] Let_def jq_rep_def)
  have "jq_inv n s' (f(p := f p @ [j]))"
  proof (rule jq_inv_change [OF assms(1, 2) s'(2, 4, 6)])
    fix p' assume p': "p' < n" "p' \<noteq> p"
    show "dlist (jq_links s') (q_list (jq_queues s ! p')) (f p')"
      unfolding s'(5) using jq_inv_dlist [OF assms(1, 2) p'] fresh [OF p'(1)]
      by (rule bds.other_add_tail)
    show "set (f p @ [j]) \<inter> set (q_list (jq_queues s ! p') # f p') = {}"
      using jq_inv_dlist(3) [OF assms(1, 2) p'] fresh [OF p'(1)] by auto
  qed
  moreover have "q_list (jq_queues s' ! p') = q_list (jq_queues s ! p')" if "p' < n" for p'
    using jq_heads [OF s'(4)] assms(1) that by (auto simp: jq_inv_def jq_rep_def)
  then have "jq_nodes n s' (f(p := f p @ [j])) = insert j (jq_nodes n s f)"
    using assms(2) by (auto simp: jq_nodes_def split: if_splits)
  ultimately show ?thesis using s'(1, 3) by blast
qed

lemma jq_inv_dequeue:
  assumes "jq_inv n s f" "p < n" "p \<le> 2"
  shows "\<exists>s'. sfs_dequeue_job (int p) True (Some j) s =
      Some (Inr (if find (\<lambda>a. jq_id s a = jq_id s j) (f p) = None then -1 else 0, s')) \<and>
    jq_inv n s' (f(p := case find (\<lambda>a. jq_id s a = jq_id s j) (f p) of
       None \<Rightarrow> f p | Some t \<Rightarrow> remove1 t (f p))) \<and> jq_id s' = jq_id s"
proof -
  let ?f = "find (\<lambda>a. jq_id s a = jq_id s j) (f p)"
  let ?xs = "case ?f of None \<Rightarrow> f p | Some t \<Rightarrow> remove1 t (f p)"
  have rep: "jq_rep s p (f p)" using assms(1, 2) by (simp add: jq_inv_def)
  obtain s' where s': "sfs_dequeue_job (int p) True (Some j) s =
      Some (Inr (if ?f = None then -1 else 0, s'))" "jq_rep s' p ?xs" "jq_id s' = jq_id s"
    "map q_list (jq_queues s') = map q_list (jq_queues s)"
    "jq_links s' = (case ?f of None \<Rightarrow> jq_links s | Some t \<Rightarrow> bds_list_del t (jq_links s))"
    using jq_dequeue [OF rep assms(3), of j] by auto
  have q: "jq_queues s' ! p' = jq_queues s ! p'" if "p' \<noteq> p" for p'
    using s'(1) that
    by (auto simp: sfs_dequeue_job_def jq_prio [OF assms(3)] Let_def split: if_splits option.splits)
  have "jq_inv n s' (f(p := ?xs))"
  proof (rule jq_inv_change [OF assms(1, 2) s'(2, 4) q])
    fix p' assume p': "p' < n" "p' \<noteq> p"
    note d = jq_inv_dlist [OF assms(1, 2) p']
    have "t \<in> set (f p)" if "?f = Some t" for t using that by (auto simp: find_Some_iff)
    then show "dlist (jq_links s') (q_list (jq_queues s ! p')) (f p')"
      unfolding s'(5) using d(2) bds.other_del [OF d] by (auto split: option.split)
    show "set ?xs \<inter> set (q_list (jq_queues s ! p') # f p') = {}"
      using d(3) set_remove1_subset [of _ "f p"] by (auto split: option.split)
  qed
  then show ?thesis using s'(1, 3) by blast
qed

fun submit_all :: "int \<Rightarrow> addr list \<Rightarrow> jq_state \<Rightarrow> jq_state exec" where
  "submit_all p [] s = Inr s"
| "submit_all p (j # js) s =
     exec_bind (sfs_submit_job p True (Some j) s) (\<lambda>(r, s').
     exec_bind (exec_guard (r = 0) Undefined) (\<lambda>_. submit_all p js s'))"

lemma jq_submit:
  assumes "p \<le> 2"
  shows "sfs_submit_job (int p) True (Some j) s =
    exec_bind (sfs_enqueue_job (int p) True (Some j) s) (\<lambda>(r, s'). Inr (if r \<noteq> 0 then -1 else 0, s'))"
  by (auto simp: sfs_submit_job_def jq_prio [OF assms] intro!: exec_bind_cong)

lemma submit_all_rep:
  assumes "jq_inv n s f" "p < n" "p \<le> 2" "distinct js" "set js \<inter> jq_nodes n s f = {}"
  shows "\<exists>s'. submit_all (int p) js s = Inr s' \<and> jq_inv n s' (f(p := f p @ js)) \<and> jq_id s' = jq_id s"
  using assms
proof (induction js arbitrary: s f)
  case (Cons j js)
  obtain s1 where s1: "sfs_enqueue_job (int p) True (Some j) s = Inr (0, s1)"
    "jq_inv n s1 (f(p := f p @ [j]))"
    "jq_nodes n s1 (f(p := f p @ [j])) = insert j (jq_nodes n s f)" "jq_id s1 = jq_id s"
    using jq_inv_enqueue [OF Cons.prems(1-3), of j] Cons.prems(5) by auto
  have "distinct js" "set js \<inter> jq_nodes n s1 (f(p := f p @ [j])) = {}"
    unfolding s1(3) using Cons.prems(4, 5) by auto
  moreover have "(f(p := f p @ [j]))(p := (f(p := f p @ [j])) p @ js) = f(p := f p @ j # js)" by auto
  ultimately obtain s2 where "submit_all (int p) js s1 = Inr s2"
    "jq_inv n s2 (f(p := f p @ j # js))" "jq_id s2 = jq_id s1"
    using Cons.IH [OF s1(2) Cons.prems(2, 3)] by metis
  moreover from this(1) have "submit_all (int p) (j # js) s = Inr s2"
    using s1(1) by (simp add: jq_submit [OF Cons.prems(3)])
  ultimately show ?case using s1(4) by metis
qed simp

lemma job_list_init_two:
  assumes "length qs = 3"
  shows "job_list_init_loop 0 (nat NUM_PRIORITY_MAX) (qs, h) =
    ([(qs ! 0)\<lparr>q_priority := 0, q_lock := False\<rparr>, (qs ! 1)\<lparr>q_priority := 1, q_lock := False\<rparr>, qs ! 2],
     INIT_LIST_HEAD (q_list (qs ! 1)) (INIT_LIST_HEAD (q_list (qs ! 0)) h))"
proof -
  obtain a b c where "qs = [a, b, c]" using assms by (auto simp: length_Suc_conv numeral_eq_Suc)
  then show ?thesis by (simp add: NUM_PRIORITY_MAX_def HIGH_PRIORITY_def numeral_eq_Suc)
qed

section \<open>Properties\<close>

text \<open>
  C16: The queues are FIFO and independent: submitting distinct new jobs one after
  the other to a queue returns 0 each time and puts them at its end in the order of
  submission, behind the jobs that were waiting, and no other queue changes.
\<close>

theorem job_queue_fifo:
  assumes "jq_inv n s f" "p < n" "p \<le> 2" "distinct js" "set js \<inter> jq_nodes n s f = {}"
  shows "\<exists>s'. submit_all (int p) js s = Inr s' \<and> jq_inv n s' (f(p := f p @ js))"
  using submit_all_rep [OF assms] by blast

text \<open>Three queues, all links of every node pointing to itself.\<close>

definition jq_s0 :: jq_state where
  "jq_s0 = \<lparr>jq_links = \<lparr>nxt = id, prv = id\<rparr>,
     jq_queues = [\<lparr>q_priority = 0, q_list = 100, q_lock = False\<rparr>,
                  \<lparr>q_priority = 1, q_list = 101, q_lock = False\<rparr>,
                  \<lparr>q_priority = -1, q_list = 102, q_lock = True\<rparr>],
     jq_id = of_nat, jq_errno = 0\<rparr>"

lemma less_2_cases_nat: "p < 2 \<Longrightarrow> p = 0 \<or> p = (1::nat)" by auto

lemma jq_s0_inv: "jq_inv 2 jq_s0 (\<lambda>_. [])"
  by (auto simp: jq_inv_def jq_rep_def jq_s0_def dlist_def dest!: less_2_cases_nat)

lemma jq_s0_nodes: "jq_nodes 2 jq_s0 (\<lambda>_. []) = {100, 101}"
proof -
  have "{..<2::nat} = {0, 1}" by auto
  then show ?thesis by (simp add: jq_nodes_def jq_s0_def insert_commute)
qed

theorem job_queue_fifo_witness:
  "\<exists>s'. submit_all 1 [7, 3, 5] jq_s0 = Inr s' \<and> jq_inv 2 s' ((\<lambda>_. [])(1 := [7, 3, 5]))"
proof -
  have "distinct [7, 3, 5::addr]" "set [7, 3, 5] \<inter> jq_nodes 2 jq_s0 (\<lambda>_. []) = {}"
    by (simp_all add: jq_s0_nodes)
  with job_queue_fifo [OF jq_s0_inv, of 1 "[7, 3, 5]"] show ?thesis by simp
qed

text \<open>
  Removing a job always returns: the walk over the list comes to an end.  If a
  job with the same id waits in the queue, the first such job is unlinked and 0 is
  returned; otherwise -1 is returned and all queues are as before.
\<close>

theorem job_dequeue_removes_first_match:
  assumes "jq_inv n s f" "p < n" "p \<le> 2"
  shows "\<exists>s'. sfs_dequeue_job (int p) True (Some j) s =
      Some (Inr (if find (\<lambda>a. jq_id s a = jq_id s j) (f p) = None then -1 else 0, s')) \<and>
    jq_inv n s' (f(p := case find (\<lambda>a. jq_id s a = jq_id s j) (f p) of
       None \<Rightarrow> f p | Some t \<Rightarrow> remove1 t (f p)))"
  using jq_inv_dequeue [OF assms, of j] by blast

theorem job_dequeue_removes_first_match_witness:
  "\<exists>s' s''. submit_all 1 [7, 3] jq_s0 = Inr s' \<and> sfs_dequeue_job 1 True (Some 7) s' = Some (Inr (0, s'')) \<and>
     jq_inv 2 s'' ((\<lambda>_. [])(1 := [3]))"
proof -
  have "distinct [7, 3::addr]" "set [7, 3] \<inter> jq_nodes 2 jq_s0 (\<lambda>_. []) = {}"
    by (simp_all add: jq_s0_nodes)
  then obtain s' where s': "submit_all 1 [7, 3] jq_s0 = Inr s'"
    "jq_inv 2 s' ((\<lambda>_. [])(1 := [7, 3]))" "jq_id s' = jq_id jq_s0"
    using submit_all_rep [OF jq_s0_inv, of 1 "[7, 3]"] by auto
  have "find (\<lambda>a. jq_id s' a = jq_id s' 7) [7, 3] = Some 7" by simp
  then show ?thesis
    using job_dequeue_removes_first_match [OF s'(2), of 1 7] s'(1) by auto
qed

text \<open>
  Initialisation makes the high and the medium priority queue empty and leaves
  the third element of the array, the low priority queue that the bounds check of
  \<^verbatim>\<open>sfs_enqueue_job\<close> admits, exactly as the allocator delivered it.
\<close>

theorem job_list_init_skips_low_priority:
  assumes "length qs = 3" "distinct (map q_list qs)"
  shows "\<exists>s'. sfs_job_list_init (Some qs) s = (0, s') \<and> jq_inv 2 s' (\<lambda>_. []) \<and>
    jq_queues s' ! 2 = qs ! 2 \<and> same_links (jq_links s) (jq_links s') {q_list (qs ! 2)} \<and>
    \<not> jq_bad_args LOW_PRIORITY True (Some j)"
proof -
  obtain a b c where qs: "qs = [a, b, c]" using assms(1) by (auto simp: length_Suc_conv numeral_eq_Suc)
  let ?h = "INIT_LIST_HEAD (q_list b) (INIT_LIST_HEAD (q_list a) (jq_links s))"
  have d: "q_list a \<noteq> q_list b" "q_list a \<noteq> q_list c" "q_list b \<noteq> q_list c" using assms(2) qs by auto
  have "dlist ?h (q_list b) []" by (rule bds.init_rep)
  moreover have "dlist ?h (q_list a) []"
    using d(1) by (intro bds.same_rep [OF bds.init_rep bds.init_same]) auto
  ultimately show ?thesis
    using d job_list_init_two [OF assms(1), of "jq_links s"]
    by (auto simp: sfs_job_list_init_def qs jq_inv_def jq_rep_def same_links_def INIT_LIST_HEAD_def
        jq_bad_args_def LOW_PRIORITY_def HIGH_PRIORITY_def NUM_PRIORITY_MAX_def dest!: less_2_cases_nat)
qed

theorem job_list_init_skips_low_priority_witness:
  "\<exists>s'. sfs_job_list_init (Some (jq_queues jq_s0)) jq_s0 = (0, s') \<and> jq_inv 2 s' (\<lambda>_. []) \<and>
     q_lock (jq_queues s' ! 2)"
proof -
  have "length (jq_queues jq_s0) = 3" "distinct (map q_list (jq_queues jq_s0))" "q_lock (jq_queues jq_s0 ! 2)"
    by (simp_all add: jq_s0_def)
  then show ?thesis using job_list_init_skips_low_priority [of "jq_queues jq_s0" jq_s0 0] by auto
qed

end
