(* ===== verification/Slab_Size.thy ===== *)
theory Slab_Size
  imports SFS_Prelude
begin

text \<open>
  The sizing of slabs in \<^verbatim>\<open>common/src/bds_slab/bds_slab.c\<close>: how many objects fit into a
  slab of a given page order, which page order a cache uses, and the cache descriptor
  set up from this.  The page size is \<open>2 ^ pshift\<close>, as \<^verbatim>\<open>getpagesize\<close> and \<^verbatim>\<open>__getpageshift\<close>
  report it; the cache line size is a parameter.  Unsigned C arithmetic is written
  out: \<open>w64\<close> and \<open>w32\<close> reduce to the width of \<^verbatim>\<open>size_t\<close> and \<^verbatim>\<open>bds_uint\<close>, \<open>s16\<close> converts
  to \<^verbatim>\<open>bds_sint\<close>.
\<close>

definition w64 :: "int \<Rightarrow> nat" where "w64 x = nat (x mod 2 ^ 64)"
definition w32 :: "int \<Rightarrow> nat" where "w32 x = nat (x mod 2 ^ 32)"
definition s16 :: "int \<Rightarrow> int" where "s16 x = (x + 2 ^ 15) mod 2 ^ 16 - 2 ^ 15"

definition CFLGS_OFF_SLAB :: nat where "CFLGS_OFF_SLAB = 31"

abbreviation OFF_SLAB :: "32 word \<Rightarrow> bool" where
  "OFF_SLAB flags \<equiv> bit flags CFLGS_OFF_SLAB"

definition SLAB_LIMIT :: nat where "SLAB_LIMIT = 2 ^ 32 - 1 - 3"

definition BDS_ALLOC_SHIFT_HIGH :: nat where "BDS_ALLOC_SHIFT_HIGH = 25"

text \<open>\<^verbatim>\<open>sizeof(struct _slab_desc)\<close> and \<^verbatim>\<open>sizeof(bds_bufctl_t)\<close> on x86-64.\<close>

definition sizeof_slab_desc :: nat where "sizeof_slab_desc = 104"
definition sizeof_bufctl :: nat where "sizeof_bufctl = 2"

text \<open>The scalar fields of \<^verbatim>\<open>struct _cache_desc\<close> that the allocator uses.\<close>

record cache_desc =
  c_flags :: "32 word"
  c_num :: nat
  c_colour :: int
  c_colour_offset :: int
  c_colour_next :: int
  c_page_order :: nat
  c_slab_size :: nat
  c_mgmt_size :: nat
  c_buffer_size :: nat
  c_slab_magic :: "32 word"
  c_refcount :: int
  c_free_slab_count :: int
  c_total_slab_count :: int
  c_linger :: nat

section \<open>Objects per slab\<close>

text \<open>The pair of outputs \<^verbatim>\<open>*left_over\<close> and \<^verbatim>\<open>*num\<close>.\<close>

definition cache_estimate :: "nat \<Rightarrow> nat \<Rightarrow> nat \<Rightarrow> 32 word \<Rightarrow> (nat \<times> nat) exec" where
  "cache_estimate pshift page_order buffer_size flags =
     (let slab_size = 2 ^ (pshift + page_order) :: nat in
      if OFF_SLAB flags then
        if buffer_size = 0 then Inl Undefined
        else
          let nr = w32 (int (slab_size div buffer_size));
              nr = (if nr > SLAB_LIMIT then SLAB_LIMIT else nr)
          in Inr (w64 (int slab_size - int (nr * buffer_size)), nr)
      else
        let per = w64 (int (buffer_size + sizeof_bufctl)) in
        if per = 0 then Inl Undefined
        else
          let nr = w32 (int (w64 (int slab_size - int sizeof_slab_desc) div per));
              nr = (if nr > SLAB_LIMIT then SLAB_LIMIT else nr);
              mgmt_size = sizeof_slab_desc + nr * sizeof_bufctl
          in Inr (w64 (int slab_size - int (nr * buffer_size + mgmt_size)), nr))"

fun order_loop ::
  "nat \<Rightarrow> nat \<Rightarrow> 32 word \<Rightarrow> nat \<Rightarrow> nat \<Rightarrow> cache_desc \<times> nat \<Rightarrow> (cache_desc \<times> nat) exec" where
  "order_loop pshift buffer_size flags page_order 0 st = Inr st"
| "order_loop pshift buffer_size flags page_order (Suc k) (cache_p, left_over) =
     exec_bind (cache_estimate pshift page_order buffer_size flags) (\<lambda>(remainder, num).
     if num = 0 then order_loop pshift buffer_size flags (Suc page_order) k (cache_p, left_over)
     else
       let cache_p = cache_p\<lparr>c_num := num, c_page_order := page_order,
                             c_slab_size := 2 ^ (pshift + page_order)\<rparr>;
           offslab_limit = w32 (int buffer_size - 8) div sizeof_bufctl
       in if w64 (int (remainder * 16)) \<le> 2 ^ (pshift + page_order) then Inr (cache_p, remainder)
          else if OFF_SLAB flags \<and> num > offslab_limit then Inr (cache_p, remainder)
          else order_loop pshift buffer_size flags (Suc page_order) k (cache_p, remainder))"

definition calculate_slab_order ::
  "nat \<Rightarrow> cache_desc \<Rightarrow> nat \<Rightarrow> 32 word \<Rightarrow> (cache_desc \<times> nat) exec" where
  "calculate_slab_order pshift cache_p buffer_size flags =
     order_loop pshift buffer_size flags 0 (Suc (BDS_ALLOC_SHIFT_HIGH - pshift)) (cache_p, 0)"

definition setup_cache_desc ::
  "nat \<Rightarrow> nat \<Rightarrow> cache_desc \<Rightarrow> 32 word \<Rightarrow> nat \<Rightarrow> (int \<times> cache_desc) exec" where
  "setup_cache_desc pshift linesize cache_p flags sz =
     (let flags = (if sz \<ge> 2 ^ pshift div 8 then set_bit CFLGS_OFF_SLAB flags else flags) in
      exec_bind (calculate_slab_order pshift cache_p sz flags) (\<lambda>(cache_p, lo).
      let left_over = w32 (int lo) in
      if c_num cache_p = 0 then Inr (-ENOMEM, cache_p)
      else
        let mgmt_size = sizeof_bufctl * c_num cache_p + sizeof_slab_desc;
            fits = OFF_SLAB flags \<and> left_over \<ge> mgmt_size;
            flags' = (if fits then unset_bit CFLGS_OFF_SLAB flags else flags);
            left_over' = (if fits then left_over - mgmt_size else left_over);
            colour_offset = s16 (int linesize);
            divisor = w32 colour_offset
        in if divisor = 0 then Inl Undefined
           else
             let colour = s16 (int (left_over' div divisor)) in
             Inr (0, cache_p\<lparr>c_mgmt_size := mgmt_size, c_flags := flags', c_buffer_size := sz,
                   c_colour := colour, c_colour_offset := (if colour = 0 then 0 else colour_offset),
                   c_slab_magic := 0xdeadbeef, c_refcount := 0, c_free_slab_count := 0,
                   c_total_slab_count := 0\<rparr>)))"

section \<open>How the slab is filled\<close>

lemma w_small [simp]:
  "0 \<le> x \<Longrightarrow> x < 2 ^ 64 \<Longrightarrow> w64 x = nat x"
  "0 \<le> x \<Longrightarrow> x < 2 ^ 32 \<Longrightarrow> w32 x = nat x"
  by (simp_all add: w64_def w32_def)

lemma w_int: "a < 2 ^ 64 \<Longrightarrow> w64 (int a) = a" "a < 2 ^ 32 \<Longrightarrow> w32 (int a) = a"
proof -
  show "w64 (int a) = a" if "a < 2 ^ 64"
  proof -
    have "int a < 2 ^ 64" using that by (metis of_nat_less_iff of_nat_numeral of_nat_power)
    then show ?thesis by simp
  qed
  show "w32 (int a) = a" if "a < 2 ^ 32"
  proof -
    have "int a < 2 ^ 32" using that by (metis of_nat_less_iff of_nat_numeral of_nat_power)
    then show ?thesis by simp
  qed
qed

lemma s16_small: "- (2 ^ 15) \<le> x \<Longrightarrow> x < 2 ^ 15 \<Longrightarrow> s16 x = x"
  by (simp add: s16_def)

text \<open>Management data on the slab, for \<open>n\<close> objects.\<close>

definition on_slab_mgmt :: "32 word \<Rightarrow> nat \<Rightarrow> nat" where
  "on_slab_mgmt flags n = (if OFF_SLAB flags then 0 else sizeof_slab_desc + n * sizeof_bufctl)"

lemma slab_power:
  assumes "pshift + ord \<le> BDS_ALLOC_SHIFT_HIGH"
  shows "(2::nat) ^ (pshift + ord) \<le> 33554432"
  using power_increasing [OF assms, of "2::nat"] by (simp add: BDS_ALLOC_SHIFT_HIGH_def)

lemma cache_estimate_spec:
  assumes "7 \<le> pshift" "pshift + ord \<le> BDS_ALLOC_SHIFT_HIGH" "0 < bs" "bs < 2 ^ 63"
  shows "\<exists>left n. cache_estimate pshift ord bs flags = Inr (left, n) \<and>
    n * bs + on_slab_mgmt flags n + left = 2 ^ (pshift + ord) \<and>
    left < bs + (if OFF_SLAB flags then 0 else sizeof_bufctl)"
proof (cases "OFF_SLAB flags")
  case True
  let ?S = "2 ^ (pshift + ord) :: nat" and ?n = "2 ^ (pshift + ord) div bs :: nat"
  have S: "?S \<le> 33554432" using slab_power [OF assms(2)] .
  have n: "?n \<le> 33554432" using S div_le_dividend [of ?S bs] by linarith
  have sum: "?n * bs + ?S mod bs = ?S" by (rule div_mult_mod_eq)
  have lt: "?S mod bs < bs" using assms(3) by simp
  have left: "int ?S - int (?n * bs) = int (?S mod bs)"
    using sum by (metis add_diff_cancel_left' of_nat_add)
  have "?S mod bs \<le> 33554432" using S mod_less_eq_dividend [of ?S bs] by (rule order.trans [rotated])
  then have "cache_estimate pshift ord bs flags = Inr (?S mod bs, ?n)"
    using True n assms(3) left by (simp add: cache_estimate_def SLAB_LIMIT_def Let_def)
  then show ?thesis using sum lt True by (simp add: on_slab_mgmt_def)
next
  case False
  let ?S = "2 ^ (pshift + ord) :: nat" and ?per = "bs + sizeof_bufctl"
  let ?U = "?S - sizeof_slab_desc" and ?n = "(2 ^ (pshift + ord) - sizeof_slab_desc) div (bs + sizeof_bufctl) :: nat"
  have S: "?S \<le> 33554432" using slab_power [OF assms(2)] .
  have "(2::nat) ^ 7 \<le> ?S" using assms(1) by (intro power_increasing) auto
  then have D: "sizeof_slab_desc \<le> ?S" by (simp add: sizeof_slab_desc_def)
  have n: "?n \<le> 33554432" using S div_le_dividend [of ?U ?per] by linarith
  have sum: "?n * ?per + ?U mod ?per = ?U" by (rule div_mult_mod_eq)
  have lt: "?U mod ?per < ?per" using assms(3) by simp
  have all: "?n * bs + (sizeof_slab_desc + ?n * sizeof_bufctl) + ?U mod ?per = ?S"
    using sum D by (simp add: algebra_simps)
  have left: "int ?S - int (?n * bs + (sizeof_slab_desc + ?n * sizeof_bufctl)) = int (?U mod ?per)"
    using all by (metis add_diff_cancel_left' of_nat_add)
  have m: "?U mod ?per \<le> 33554432"
    using order.trans [OF mod_less_eq_dividend [of ?U ?per] order.trans [OF diff_le_self S]] .
  have U: "int ?S - int sizeof_slab_desc = int ?U" using D by (simp add: of_nat_diff)
  have w1: "w64 (int ?S - int sizeof_slab_desc) = ?U"
    unfolding U using S by (intro w_int(1)) (simp add: less_imp_diff_less)
  have w2: "w64 (int ?per) = ?per" using assms(4) by (intro w_int(1)) (simp add: sizeof_bufctl_def)
  have w3: "w32 (int ?n) = ?n" using n by (intro w_int(2)) simp
  have w4: "w64 (int (?U mod ?per)) = ?U mod ?per" using m by (intro w_int(1)) simp
  have "\<not> SLAB_LIMIT < ?n" "?per \<noteq> 0" using n by (simp_all add: SLAB_LIMIT_def sizeof_bufctl_def)
  then have "cache_estimate pshift ord bs flags = Inr (?U mod ?per, ?n)"
    using False unfolding cache_estimate_def Let_def
    by (simp only: w1 w2 w3 w4 left if_False)
  then show ?thesis using all lt False by (simp add: on_slab_mgmt_def)
qed

text \<open>
  What the loop leaves in the descriptor: nothing yet, or a page order in range whose
  slab is used up by the objects, their management data and the left-over bytes.
\<close>

definition slab_fill :: "nat \<Rightarrow> nat \<Rightarrow> 32 word \<Rightarrow> cache_desc \<times> nat \<Rightarrow> bool" where
  "slab_fill pshift bs flags = (\<lambda>(c, left).
     0 < c_num c \<and> pshift + c_page_order c \<le> BDS_ALLOC_SHIFT_HIGH \<and>
     c_slab_size c = 2 ^ (pshift + c_page_order c) \<and>
     c_num c * bs + on_slab_mgmt flags (c_num c) + left = c_slab_size c \<and>
     left < bs + (if OFF_SLAB flags then 0 else sizeof_bufctl))"

lemma order_loop_spec:
  assumes "7 \<le> pshift" "pshift + ord + k = Suc BDS_ALLOC_SHIFT_HIGH" "0 < bs" "bs < 2 ^ 63"
    and "c_num (fst st) = 0 \<or> slab_fill pshift bs flags st"
  shows "\<exists>st'. order_loop pshift bs flags ord k st = Inr st' \<and>
    (c_num (fst st') = 0 \<or> slab_fill pshift bs flags st') \<and>
    (c_num (fst st') = 0 \<longrightarrow> c_num (fst st) = 0 \<and>
       (\<forall>i<k. \<exists>left. cache_estimate pshift (ord + i) bs flags = Inr (left, 0)))"
  using assms
proof (induction k arbitrary: ord st)
  case (Suc k)
  obtain c lo where st: "st = (c, lo)" by (cases st)
  have ord: "pshift + ord \<le> BDS_ALLOC_SHIFT_HIGH" using Suc.prems(2) by simp
  obtain left n where e: "cache_estimate pshift ord bs flags = Inr (left, n)"
    "n * bs + on_slab_mgmt flags n + left = 2 ^ (pshift + ord)"
    "left < bs + (if OFF_SLAB flags then 0 else sizeof_bufctl)"
    using cache_estimate_spec [OF Suc.prems(1) ord Suc.prems(3, 4)] by blast
  show ?case
  proof (cases "n = 0")
    case True
    obtain st' where st': "order_loop pshift bs flags (Suc ord) k st = Inr st'"
      "c_num (fst st') = 0 \<or> slab_fill pshift bs flags st'"
      "c_num (fst st') = 0 \<longrightarrow> c_num (fst st) = 0 \<and>
         (\<forall>i<k. \<exists>left. cache_estimate pshift (Suc ord + i) bs flags = Inr (left, 0))"
      using Suc.IH [OF Suc.prems(1) _ Suc.prems(3-5), of "Suc ord"] Suc.prems(2) by auto
    have "\<exists>left. cache_estimate pshift (ord + i) bs flags = Inr (left, 0)"
      if "c_num (fst st') = 0" "i < Suc k" for i
      using that e(1) True st'(3) by (cases i) auto
    then show ?thesis using st' e(1) True st by auto
  next
    case False
    let ?c = "c\<lparr>c_num := n, c_page_order := ord, c_slab_size := 2 ^ (pshift + ord)\<rparr>"
    have fill: "slab_fill pshift bs flags (?c, left)"
      using e False ord by (simp add: slab_fill_def)
    obtain st' where "order_loop pshift bs flags (Suc ord) k (?c, left) = Inr st'"
      "c_num (fst st') = 0 \<or> slab_fill pshift bs flags st'" "c_num (fst st') = 0 \<longrightarrow> n = 0"
      using Suc.IH [OF Suc.prems(1) _ Suc.prems(3, 4), of "Suc ord" "(?c, left)"] Suc.prems(2) fill by auto
    then show ?thesis using e(1) False fill st by (cases st') (simp add: Let_def)
  qed
qed simp

lemma calculate_slab_order_spec:
  assumes "7 \<le> pshift" "pshift \<le> BDS_ALLOC_SHIFT_HIGH" "0 < bs" "bs < 2 ^ 63" "c_num c = 0"
  shows "\<exists>st. calculate_slab_order pshift c bs flags = Inr st \<and>
    (c_num (fst st) = 0 \<or> slab_fill pshift bs flags st) \<and>
    (bs + sizeof_slab_desc + sizeof_bufctl \<le> 2 ^ BDS_ALLOC_SHIFT_HIGH \<longrightarrow> 0 < c_num (fst st))"
proof -
  let ?k = "Suc (BDS_ALLOC_SHIFT_HIGH - pshift)"
  have k: "pshift + 0 + ?k = Suc BDS_ALLOC_SHIFT_HIGH" using assms(2) by simp
  obtain st where st: "calculate_slab_order pshift c bs flags = Inr st"
    "c_num (fst st) = 0 \<or> slab_fill pshift bs flags st"
    "c_num (fst st) = 0 \<longrightarrow> (\<forall>i<?k. \<exists>left. cache_estimate pshift (0 + i) bs flags = Inr (left, 0))"
    using order_loop_spec [OF assms(1) k assms(3, 4), of "(c, 0)" flags] assms(5)
    by (auto simp: calculate_slab_order_def)
  have "0 < c_num (fst st)" if big: "bs + sizeof_slab_desc + sizeof_bufctl \<le> 2 ^ BDS_ALLOC_SHIFT_HIGH"
  proof (rule ccontr)
    assume "\<not> 0 < c_num (fst st)"
    then obtain left where "cache_estimate pshift (BDS_ALLOC_SHIFT_HIGH - pshift) bs flags = Inr (left, 0)"
      using st(3) by auto
    moreover have "pshift + (BDS_ALLOC_SHIFT_HIGH - pshift) = BDS_ALLOC_SHIFT_HIGH" using assms(2) by simp
    ultimately have "on_slab_mgmt flags 0 + left = 2 ^ BDS_ALLOC_SHIFT_HIGH"
      "left < bs + (if OFF_SLAB flags then 0 else sizeof_bufctl)"
      using cache_estimate_spec [OF assms(1) _ assms(3, 4), of "BDS_ALLOC_SHIFT_HIGH - pshift" flags]
      by auto
    then show False using big by (auto simp: on_slab_mgmt_def split: if_splits)
  qed
  then show ?thesis using st(1, 2) by blast
qed

section \<open>Properties\<close>

text \<open>
  Sizing a slab loses nothing and overflows nothing: for every page order in
  range and object size, the objects, the management data on the slab and the
  left-over bytes add up to the slab size exactly, and no further object would fit.
\<close>

theorem slab_estimate_exact:
  assumes "7 \<le> pshift" "pshift + ord \<le> BDS_ALLOC_SHIFT_HIGH" "0 < bs" "bs < 2 ^ 63"
  shows "\<exists>left n. cache_estimate pshift ord bs flags = Inr (left, n) \<and>
    n * bs + on_slab_mgmt flags n + left = 2 ^ (pshift + ord) \<and>
    left < bs + (if OFF_SLAB flags then 0 else sizeof_bufctl)"
  using cache_estimate_spec [OF assms] .

theorem slab_estimate_exact_witness:
  "\<exists>left n. cache_estimate 12 0 100 0 = Inr (left, n) \<and> n * 100 + on_slab_mgmt 0 n + left = 4096"
proof -
  have "(7::nat) \<le> 12" "12 + 0 \<le> BDS_ALLOC_SHIFT_HIGH" "(0::nat) < 100" "(100::nat) < 2 ^ 63"
    by (simp_all add: BDS_ALLOC_SHIFT_HIGH_def)
  from slab_estimate_exact [OF this, of 0] show ?thesis by auto
qed

lemma left_over_bound:
  assumes "slab_fill pshift bs flags (c, left)"
  shows "left \<le> 33554432"
proof -
  have "left \<le> c_slab_size c" "c_slab_size c = 2 ^ (pshift + c_page_order c)"
    "pshift + c_page_order c \<le> BDS_ALLOC_SHIFT_HIGH"
    using assms by (auto simp: slab_fill_def)
  then show ?thesis using slab_power by (metis order.trans)
qed

text \<open>The bytes of a slab that the descriptor accounts for.\<close>

definition slab_bytes :: "cache_desc \<Rightarrow> nat" where
  "slab_bytes c = (if OFF_SLAB (c_flags c) then 0 else c_mgmt_size c) + c_num c * c_buffer_size c +
     nat (c_colour c * c_colour_offset c)"

lemma s16_int: "x < 2 ^ 15 \<Longrightarrow> s16 (int x) = int x"
  by (rule s16_small) simp_all

lemma colour_fits:
  assumes "0 < linesize" "linesize < 2 ^ 15" "left < linesize * 2 ^ 15"
  shows "s16 (int linesize) = int linesize" "s16 (int (left div linesize)) = int (left div linesize)"
proof -
  show "s16 (int linesize) = int linesize" by (rule s16_int [OF assms(2)])
  have "left < 2 ^ 15 * linesize" using assms(3) by (simp only: mult.commute)
  then have "left div linesize < 2 ^ 15" by (rule less_mult_imp_div_less)
  then show "s16 (int (left div linesize)) = int (left div linesize)" by (rule s16_int)
qed

text \<open>
  Setting up a cache succeeds for every object size up to 32 MB less the
  management data, as long as an object spans fewer than 32768 cache lines, and the
  slab layout it chooses is sound: at least one object per slab, and management data
  (if kept on the slab), objects and colouring together fit into the slab.
\<close>

theorem slab_layout_fits:
  assumes "7 \<le> pshift" "pshift \<le> BDS_ALLOC_SHIFT_HIGH" "0 < sz"
    and "sz + sizeof_slab_desc + sizeof_bufctl \<le> 2 ^ BDS_ALLOC_SHIFT_HIGH"
    and "0 < linesize" "linesize < 2 ^ 15" "sz + sizeof_bufctl \<le> linesize * 2 ^ 15" "c_num c = 0"
  shows "\<exists>c'. setup_cache_desc pshift linesize c flags sz = Inr (0, c') \<and> 0 < c_num c' \<and>
    c_buffer_size c' = sz \<and> c_slab_size c' = 2 ^ (pshift + c_page_order c') \<and>
    pshift + c_page_order c' \<le> BDS_ALLOC_SHIFT_HIGH \<and> slab_bytes c' \<le> c_slab_size c'"
proof -
  define f where "f = (if sz \<ge> 2 ^ pshift div 8 then set_bit CFLGS_OFF_SLAB flags else flags)"
  have sz: "sz < 2 ^ 63" using assms(4) by (simp add: BDS_ALLOC_SHIFT_HIGH_def)
  obtain d left where d: "calculate_slab_order pshift c sz f = Inr (d, left)" "0 < c_num d"
    "slab_fill pshift sz f (d, left)"
    using calculate_slab_order_spec [OF assms(1-3) sz assms(8), of f] assms(4) by auto
  have fill: "c_num d * sz + on_slab_mgmt f (c_num d) + left = c_slab_size d"
    "left < sz + (if OFF_SLAB f then 0 else sizeof_bufctl)" "c_slab_size d = 2 ^ (pshift + c_page_order d)"
    "pshift + c_page_order d \<le> BDS_ALLOC_SHIFT_HIGH"
    using d(3) by (auto simp: slab_fill_def)
  have left: "w32 (int left) = left" using left_over_bound [OF d(3)] by (intro w_int(2)) simp
  define m where "m = sizeof_bufctl * c_num d + sizeof_slab_desc"
  define fits where "fits = (OFF_SLAB f \<and> left \<ge> m)"
  define f' where "f' = (if fits then unset_bit CFLGS_OFF_SLAB f else f)"
  define l where "l = (if fits then left - m else left)"
  have "left < linesize * 2 ^ 15"
    using fill(2) assms(7) by (simp split: if_splits add: sizeof_bufctl_def)
  then have "l < linesize * 2 ^ 15" by (simp add: l_def less_imp_diff_less)
  note col = colour_fits [OF assms(5, 6) this]
  have off: "OFF_SLAB f' \<longleftrightarrow> OFF_SLAB f \<and> \<not> fits" by (simp add: f'_def bit_unset_bit_iff)
  have bytes: "(if OFF_SLAB f' then 0 else m) + c_num d * sz + l = c_slab_size d"
    unfolding off l_def using fill(1)
    by (cases fits; cases "OFF_SLAB f") (simp_all add: on_slab_mgmt_def fits_def m_def mult.commute)
  have wl: "w32 (int linesize) = linesize" using assms(6) by (intro w_int(2)) simp
  define c' where "c' = d\<lparr>c_mgmt_size := m, c_flags := f',
      c_buffer_size := sz, c_colour := int (l div linesize),
      c_colour_offset := (if int (l div linesize) = 0 then 0 else int linesize),
      c_slab_magic := 0xdeadbeef, c_refcount := 0, c_free_slab_count := 0, c_total_slab_count := 0\<rparr>"
  have "setup_cache_desc pshift linesize c flags sz = Inr (0, c')"
    unfolding setup_cache_desc_def Let_def f_def [symmetric] d(1) exec_bind_simps prod.case left
      m_def [symmetric] fits_def [symmetric] f'_def [symmetric] l_def [symmetric] col wl
    using d(2) assms(5) by (simp add: c'_def)
  moreover have "nat (int (l div linesize) * (if int (l div linesize) = 0 then 0 else int linesize)) \<le> l"
    by (simp del: of_nat_div of_nat_mult add: of_nat_mult [symmetric])
  then have "slab_bytes c' \<le> (if OFF_SLAB f' then 0 else m) + c_num d * sz + l"
    unfolding slab_bytes_def c'_def by simp
  moreover have "0 < c_num c'" "c_buffer_size c' = sz" "c_slab_size c' = c_slab_size d"
    "c_page_order c' = c_page_order d" using d(2) by (simp_all add: c'_def)
  ultimately show ?thesis using fill(3, 4) bytes by metis
qed

theorem slab_layout_fits_witness:
  "\<exists>c'. setup_cache_desc 12 64 \<lparr>c_flags = 0, c_num = 0, c_colour = 0, c_colour_offset = 0,
      c_colour_next = 0, c_page_order = 0, c_slab_size = 0, c_mgmt_size = 0, c_buffer_size = 0,
      c_slab_magic = 0, c_refcount = 0, c_free_slab_count = 0, c_total_slab_count = 0,
      c_linger = 0\<rparr> 0 1000 = Inr (0, c') \<and> slab_bytes c' \<le> c_slab_size c'"
proof -
  have "(7::nat) \<le> 12" "12 \<le> BDS_ALLOC_SHIFT_HIGH" "(0::nat) < 1000"
    "1000 + sizeof_slab_desc + sizeof_bufctl \<le> 2 ^ BDS_ALLOC_SHIFT_HIGH"
    "(0::nat) < 64" "(64::nat) < 2 ^ 15" "1000 + sizeof_bufctl \<le> 64 * 2 ^ 15"
    by (simp_all add: BDS_ALLOC_SHIFT_HIGH_def sizeof_slab_desc_def sizeof_bufctl_def)
  from slab_layout_fits [OF this, of "\<lparr>c_flags = 0, c_num = 0, c_colour = 0, c_colour_offset = 0,
      c_colour_next = 0, c_page_order = 0, c_slab_size = 0, c_mgmt_size = 0, c_buffer_size = 0,
      c_slab_magic = 0, c_refcount = 0, c_free_slab_count = 0, c_total_slab_count = 0,
      c_linger = 0\<rparr>" 0] show ?thesis by auto
qed

end
