(* ===== verification/Slab_Alloc.thy ===== *)
theory Slab_Alloc
  imports Bds_List Slab_Size
begin

text \<open>
  The slab allocator of \<^verbatim>\<open>common/src/bds_slab/bds_slab.c\<close>: growing a cache, allocating
  and freeing objects, and reclaiming free slabs.  A slab is known by the address of
  its descriptor; its list node is identified with it (\<^verbatim>\<open>container_of\<close>).  The free
  objects of a slab are chained through its \<^verbatim>\<open>bufctl\<close> array.  The list and slab mutexes
  are released before each function returns and the functions run one at a time, so
  they do not appear; constructors of objects do not touch the descriptors.  Addresses
  of new pages and of off-slab descriptors are parameters (\<open>None\<close>: the request failed).
  The pages that are unmapped and the descriptors that are freed are recorded.
\<close>

datatype slab_list = Slabs_partial | Slabs_full | Slabs_free

record slab_desc =
  s_magic :: "32 word"
  s_colour_offset :: int
  s_mem :: nat
  s_free :: nat
  s_refcount :: int
  s_bufctl :: "nat list"

record slab_cache =
  sc_desc :: cache_desc
  sc_links :: list_heap
  sc_head :: "slab_list \<Rightarrow> addr"
  sc_slabs :: "addr \<rightharpoonup> slab_desc"
  sc_unmapped :: "(int \<times> nat) list"
  sc_freed :: "addr list"

text \<open>\<^verbatim>\<open>__reclaim_free_pages\<close>: the address and the number of pages are passed to \<^verbatim>\<open>munmap\<close>.\<close>

definition reclaim_free_pages :: "int \<Rightarrow> nat \<Rightarrow> slab_cache \<Rightarrow> slab_cache" where
  "reclaim_free_pages pages nr_pages sc = sc\<lparr>sc_unmapped := sc_unmapped sc @ [(pages, nr_pages)]\<rparr>"

section \<open>Growing\<close>

definition setup_slab_desc :: "nat \<Rightarrow> nat \<Rightarrow> slab_cache \<Rightarrow> slab_cache exec" where
  "setup_slab_desc mgmt_mem page sc =
     (let c = sc_desc sc;
          bufctl = map (\<lambda>i. (i + 1) mod 2 ^ 16) [0..<c_num c];
          offset = c_colour_next c
      in if c_colour c \<noteq> 0 \<and> c_colour c * c_colour_offset c = 0 then Inl Undefined
         else
           let c = (if c_colour c \<noteq> 0
                    then c\<lparr>c_colour_next :=
                      s16 ((c_colour_next c + c_colour_offset c) mod (c_colour c * c_colour_offset c))\<rparr>
                    else c);
               mem = (if OFF_SLAB (c_flags c) then nat (int page + offset)
                      else nat (int page + offset) + c_mgmt_size c);
               slab_p = \<lparr>s_magic = c_slab_magic c, s_colour_offset = offset, s_mem = mem, s_free = 0,
                         s_refcount = 0, s_bufctl = bufctl\<rparr>
           in Inr (sc\<lparr>sc_desc := c\<lparr>c_total_slab_count := c_total_slab_count c + 1\<rparr>,
                     sc_slabs := (sc_slabs sc)(mgmt_mem \<mapsto> slab_p),
                     sc_links := bds_list_add mgmt_mem (sc_head sc Slabs_partial) (sc_links sc)\<rparr>))"

definition bds_cache_grow :: "nat option \<Rightarrow> nat option \<Rightarrow> slab_cache \<Rightarrow> (int \<times> slab_cache) exec" where
  "bds_cache_grow pages mgmt sc =
     (case pages of
        None \<Rightarrow> Inr (-ENOMEM, sc)
      | Some page \<Rightarrow>
          if OFF_SLAB (c_flags (sc_desc sc)) then
            (case mgmt of
               None \<Rightarrow> Inr (-ENOMEM, reclaim_free_pages (int page) (2 ^ c_page_order (sc_desc sc)) sc)
             | Some mgmt_mem \<Rightarrow>
                 exec_bind (setup_slab_desc mgmt_mem page sc) (\<lambda>sc'. Inr (0, sc')))
          else exec_bind (setup_slab_desc page page sc) (\<lambda>sc'. Inr (0, sc')))"

section \<open>Allocating\<close>

definition move_slab :: "addr \<Rightarrow> slab_list \<Rightarrow> slab_cache \<Rightarrow> slab_cache" where
  "move_slab slab_p l sc =
     sc\<lparr>sc_links := bds_list_add slab_p (sc_head sc l) (bds_list_del slab_p (sc_links sc))\<rparr>"

text \<open>Taking the first free object of a slab that has one.\<close>

definition alloc_object :: "addr \<Rightarrow> slab_desc \<Rightarrow> slab_cache \<Rightarrow> (nat \<times> slab_cache) exec" where
  "alloc_object slab_p d sc =
     (let c = sc_desc sc in
      if s_free d \<ge> length (s_bufctl d) then Inl Bad_Access
      else
        let obj = s_mem d + s_free d * c_buffer_size c;
            d = d\<lparr>s_free := s_bufctl d ! s_free d, s_refcount := s_refcount d + 1\<rparr>;
            sc = sc\<lparr>sc_slabs := (sc_slabs sc)(slab_p \<mapsto> d),
                    sc_desc := c\<lparr>c_refcount := c_refcount c + 1\<rparr>\<rparr>;
            sc = (if w32 (s_refcount d) = c_num c then move_slab slab_p Slabs_full sc else sc)
        in Inr (obj, sc))"

text \<open>
  \<open>env\<close> lists the outcomes of the successive requests for pages and off-slab
  descriptors.  \<open>None\<close> is a call that never returns.
\<close>

partial_function (option) bds_cache_alloc ::
  "(nat option \<times> nat option) list \<Rightarrow> slab_cache \<Rightarrow> (nat \<times> slab_cache) exec option" where
  "bds_cache_alloc env sc =
     (let h = sc_links sc; partial = sc_head sc Slabs_partial; free = sc_head sc Slabs_free in
      if list_empty partial h \<and> list_empty free h then
        (case bds_cache_grow (if env = [] then None else fst (hd env))
                (if env = [] then None else snd (hd env)) sc of
           Inl e \<Rightarrow> Some (Inl e)
         | Inr (status, sc') \<Rightarrow>
             if status < 0 then Some (Inl Null_Deref) else bds_cache_alloc (tl env) sc')
      else
        let sc = (if list_empty partial h then move_slab (nxt h free) Slabs_partial sc else sc);
            slab_p = nxt (sc_links sc) partial
        in case sc_slabs sc slab_p of
             None \<Rightarrow> Some (Inl Bad_Access)
           | Some d \<Rightarrow>
               if w32 (s_refcount d) < c_num (sc_desc sc) then Some (alloc_object slab_p d sc)
               else bds_cache_alloc env sc)"

section \<open>Freeing\<close>

definition free_one :: "addr \<Rightarrow> nat \<Rightarrow> slab_cache \<Rightarrow> slab_cache exec" where
  "free_one slab_p obj sc =
     (case sc_slabs sc slab_p of
        None \<Rightarrow> Inl Bad_Access
      | Some d \<Rightarrow>
          let c = sc_desc sc in
          if c_buffer_size c = 0 then Inl Undefined
          else
            let offset = w64 (int obj - int (s_mem d)) div c_buffer_size c in
            if offset \<ge> length (s_bufctl d) then Inl Bad_Access
            else
              let d = d\<lparr>s_bufctl := (s_bufctl d)[offset := s_free d mod 2 ^ 16], s_free := offset,
                        s_refcount := s_refcount d - 1\<rparr>;
                  sc = sc\<lparr>sc_slabs := (sc_slabs sc)(slab_p \<mapsto> d),
                          sc_desc := c\<lparr>c_refcount := c_refcount c - 1\<rparr>\<rparr>;
                  val = w32 (s_refcount d);
                  sc = (if val = w32 (int (c_num c) - 1) then move_slab slab_p Slabs_partial sc else sc);
                  sc = (if val = 0
                        then (move_slab slab_p Slabs_free sc)
                          \<lparr>sc_desc := (sc_desc sc)\<lparr>c_free_slab_count := c_free_slab_count (sc_desc sc) + 1\<rparr>\<rparr>
                        else sc)
              in Inr sc)"

definition object_in_slab :: "nat \<Rightarrow> slab_cache \<Rightarrow> addr \<Rightarrow> bool" where
  "object_in_slab obj sc slab_p =
     (case sc_slabs sc slab_p of
        None \<Rightarrow> False
      | Some d \<Rightarrow> s_mem d \<le> obj \<and>
          obj \<le> s_mem d + w32 (int (c_num (sc_desc sc)) - 1) * c_buffer_size (sc_desc sc))"

definition find_object_in_slab_list :: "slab_list \<Rightarrow> nat \<Rightarrow> slab_cache \<Rightarrow> addr option option" where
  "find_object_in_slab_list l obj sc =
     (let h = sc_links sc; head = sc_head sc l in
      if list_empty head h then Some None
      else list_find (object_in_slab obj sc) h head (nxt h head))"

text \<open>
  Looking for the descriptor of an on-slab slab: page by page backwards from the
  object until a page starts with the magic number.  \<open>mem32\<close> reads the first word of
  a page.
\<close>

function find_slab_magic :: "nat \<Rightarrow> (nat \<Rightarrow> 32 word) \<Rightarrow> 32 word \<Rightarrow> nat \<Rightarrow> nat exec" where
  "find_slab_magic pshift mem32 magic iter =
     (if mem32 iter = magic then Inr iter
      else if iter < 2 ^ pshift then Inl Bad_Access
      else find_slab_magic pshift mem32 magic (iter - 2 ^ pshift))"
  by pat_completeness auto

termination find_slab_magic
proof (relation "measure (\<lambda>(pshift, mem32, magic, iter). iter)")
  fix pshift iter :: nat and mem32 :: "nat \<Rightarrow> 32 word" and magic :: "32 word"
  assume "\<not> iter < 2 ^ pshift"
  moreover have "(0::nat) < 2 ^ pshift" by simp
  ultimately have "iter - 2 ^ pshift < iter" by linarith
  then show "((pshift, mem32, magic, iter - 2 ^ pshift), pshift, mem32, magic, iter)
      \<in> measure (\<lambda>(pshift, mem32, magic, iter). iter)" by simp
qed simp

definition bds_cache_free ::
  "nat \<Rightarrow> (nat \<Rightarrow> 32 word) \<Rightarrow> nat \<Rightarrow> slab_cache \<Rightarrow> (int \<times> slab_cache) exec option" where
  "bds_cache_free pshift mem32 obj sc =
     (if OFF_SLAB (c_flags (sc_desc sc)) then
        Option.bind (find_object_in_slab_list Slabs_partial obj sc) (\<lambda>p.
        Option.bind (case p of Some s \<Rightarrow> Some (Some s) | None \<Rightarrow> find_object_in_slab_list Slabs_full obj sc)
          (\<lambda>found. Some
            (case found of
               None \<Rightarrow> Inr (-1, sc)
             | Some slab_p \<Rightarrow> exec_bind (free_one slab_p obj sc) (\<lambda>sc'. Inr (0, sc')))))
      else
        Some (exec_bind (find_slab_magic pshift mem32 (c_slab_magic (sc_desc sc)) (obj - obj mod 2 ^ pshift))
          (\<lambda>slab_p. exec_bind (free_one slab_p obj sc) (\<lambda>sc'. Inr (0, sc')))))"

section \<open>Reclaiming free slabs\<close>

text \<open>
  Taking a slab off its list, unmapping its pages and freeing its descriptor, as \<^verbatim>\<open>__destroy_slab_list\<close> and
  \<^verbatim>\<open>__destroy_free_slabs\<close> do it.  The descriptor of a slab that has it on its own pages goes with them.
\<close>

definition slab_pages :: "cache_desc \<Rightarrow> slab_desc \<Rightarrow> int \<times> nat" where
  "slab_pages c d =
     (if OFF_SLAB (c_flags c) then int (s_mem d) - s_colour_offset d
      else int (s_mem d) - s_colour_offset d - int (c_mgmt_size c), 2 ^ c_page_order c)"

definition reclaim_slab :: "addr \<Rightarrow> slab_desc \<Rightarrow> slab_cache \<Rightarrow> slab_cache" where
  "reclaim_slab slab_p d sc =
     (let c = sc_desc sc;
          sc = sc\<lparr>sc_links := bds_list_del slab_p (sc_links sc)\<rparr>;
          sc = reclaim_free_pages (fst (slab_pages c d)) (snd (slab_pages c d)) sc;
          sc = sc\<lparr>sc_slabs := (sc_slabs sc)(slab_p := None)\<rparr>
      in if OFF_SLAB (c_flags c) then sc\<lparr>sc_freed := sc_freed sc @ [slab_p]\<rparr> else sc)"

text \<open>One pass of \<^verbatim>\<open>__destroy_free_slabs\<close>: \<open>None\<close> when the loop stops.\<close>

definition destroy_one_free_slab :: "nat \<Rightarrow> slab_cache \<Rightarrow> slab_cache option exec" where
  "destroy_one_free_slab gc_threshold sc =
     (let c = sc_desc sc;
          total_slabs = w32 (c_total_slab_count c);
          free_slabs = w32 (c_free_slab_count c)
      in if total_slabs = 0 then Inl Undefined
         else if w32 (int (free_slabs * 100)) div total_slabs < gc_threshold \<or> free_slabs < c_linger c
         then Inr None
         else
           let slab_p = nxt (sc_links sc) (sc_head sc Slabs_free) in
           if slab_p = sc_head sc Slabs_free then Inl Bad_Access
           else
             case sc_slabs sc slab_p of
               None \<Rightarrow> Inl Bad_Access
             | Some d \<Rightarrow>
                 Inr (Some ((reclaim_slab slab_p d sc)
                   \<lparr>sc_desc := c\<lparr>c_total_slab_count := c_total_slab_count c - 1,
                                c_free_slab_count := c_free_slab_count c - 1\<rparr>\<rparr>)))"

partial_function (option) destroy_free_slabs :: "nat \<Rightarrow> slab_cache \<Rightarrow> slab_cache exec option" where
  "destroy_free_slabs gc_threshold sc =
     (case destroy_one_free_slab gc_threshold sc of
        Inl e \<Rightarrow> Some (Inl e)
      | Inr None \<Rightarrow> Some (Inr sc)
      | Inr (Some sc') \<Rightarrow> destroy_free_slabs gc_threshold sc')"

text \<open>The work of the collector thread on one cache, per round.\<close>

definition garbage_collect_one :: "nat \<Rightarrow> slab_cache \<Rightarrow> slab_cache exec option" where
  "garbage_collect_one gc_threshold sc =
     (let total = w32 (c_total_slab_count (sc_desc sc));
          free = w32 (c_free_slab_count (sc_desc sc))
      in if free > w32 (int (gc_threshold * total)) div 100
         then destroy_free_slabs gc_threshold sc
         else Some (Inr sc))"

text \<open>\<^verbatim>\<open>__destroy_slab_list\<close> and \<^verbatim>\<open>bds_cache_destroy\<close>, up to giving back the descriptor.\<close>

partial_function (option) destroy_slab_list :: "slab_list \<Rightarrow> slab_cache \<Rightarrow> slab_cache exec option" where
  "destroy_slab_list l sc =
     (let h = sc_links sc; head = sc_head sc l in
      if list_empty head h then Some (Inr sc)
      else
        let slab_p = nxt h head in
        case sc_slabs sc slab_p of
          None \<Rightarrow> Some (Inl Bad_Access)
        | Some d \<Rightarrow> destroy_slab_list l (reclaim_slab slab_p d sc))"

definition bds_cache_destroy :: "bool \<Rightarrow> slab_cache \<Rightarrow> slab_cache exec option" where
  "bds_cache_destroy force sc =
     (if c_refcount (sc_desc sc) > 0 \<and> \<not> force then Some (Inr sc)
      else
        Option.bind (destroy_slab_list Slabs_free sc) (\<lambda>r.
        case r of Inl e \<Rightarrow> Some (Inl e) | Inr sc \<Rightarrow>
        Option.bind (destroy_slab_list Slabs_partial sc) (\<lambda>r.
        case r of Inl e \<Rightarrow> Some (Inl e) | Inr sc \<Rightarrow>
        destroy_slab_list Slabs_full sc)))"

section \<open>The free objects of a slab\<close>

fun free_chain :: "nat list \<Rightarrow> nat \<Rightarrow> nat \<Rightarrow> nat list" where
  "free_chain bc i 0 = []"
| "free_chain bc i (Suc k) = i # free_chain bc (bc ! i) k"

definition free_list :: "slab_desc \<Rightarrow> nat list" where
  "free_list d = free_chain (s_bufctl d) (s_free d) (length (s_bufctl d) - nat (s_refcount d))"

definition slab_ok :: "nat \<Rightarrow> slab_desc \<Rightarrow> bool" where
  "slab_ok n d \<longleftrightarrow> length (s_bufctl d) = n \<and> 0 \<le> s_refcount d \<and> s_refcount d \<le> int n \<and>
     s_free d \<le> n \<and> (\<forall>x\<in>set (s_bufctl d). x \<le> n) \<and> distinct (free_list d) \<and> set (free_list d) \<subseteq> {..<n}"

text \<open>The objects of a slab that are in use.\<close>

definition in_use :: "slab_desc \<Rightarrow> nat set" where
  "in_use d = {..<length (s_bufctl d)} - set (free_list d)"

lemma free_chain_length [simp]: "length (free_chain bc i k) = k"
  by (induction k arbitrary: i) auto

lemma free_chain_update:
  "j \<notin> set (free_chain bc i k) \<Longrightarrow> free_chain (bc[j := v]) i k = free_chain bc i k"
  by (induction k arbitrary: i) auto

lemma card_in_use:
  assumes "slab_ok n d"
  shows "card (in_use d) = nat (s_refcount d)"
proof -
  have "card (set (free_list d)) = length (free_list d)"
    using assms by (intro distinct_card) (simp add: slab_ok_def)
  then have "card (set (free_list d)) = n - nat (s_refcount d)"
    using assms by (simp add: slab_ok_def free_list_def)
  moreover have "nat (s_refcount d) \<le> n" using assms by (simp add: slab_ok_def nat_le_iff)
  ultimately show ?thesis
    using assms by (simp add: in_use_def slab_ok_def card_Diff_subset)
qed

text \<open>Taking an object out of the free list, and putting one back.\<close>

lemma slab_take:
  assumes "slab_ok n d" "s_refcount d < int n"
    and d': "d' = d\<lparr>s_free := s_bufctl d ! s_free d, s_refcount := s_refcount d + 1\<rparr>"
  shows "s_free d < n" "slab_ok n d'" "s_free d \<notin> in_use d" "in_use d' = insert (s_free d) (in_use d)"
proof -
  have n: "length (s_bufctl d) = n" using assms(1) by (simp add: slab_ok_def)
  obtain k where k: "n - nat (s_refcount d) = Suc k" "n - nat (s_refcount d + 1) = k"
    using assms(1, 2) by (intro that [of "n - nat (s_refcount d) - 1"]) (auto simp: slab_ok_def)
  have fl: "free_list d = s_free d # free_list d'"
    using k n by (simp add: free_list_def d')
  have sub: "set (free_list d) \<subseteq> {..<n}" "distinct (free_list d)" using assms(1) by (auto simp: slab_ok_def)
  show lt: "s_free d < n" using sub(1) fl by auto
  then show "s_free d \<notin> in_use d" "in_use d' = insert (s_free d) (in_use d)"
    using sub fl n by (auto simp: in_use_def d')
  have "s_bufctl d ! s_free d \<le> n" using assms(1) lt n by (auto simp: slab_ok_def)
  then show "slab_ok n d'" using assms(1, 2) fl sub by (auto simp: slab_ok_def d')
qed

lemma slab_give:
  assumes "slab_ok n d" "n < 2 ^ 16" "i \<in> in_use d"
    and d': "d' = d\<lparr>s_bufctl := (s_bufctl d)[i := s_free d mod 2 ^ 16], s_free := i,
                    s_refcount := s_refcount d - 1\<rparr>"
  shows "0 < s_refcount d" "slab_ok n d'" "in_use d' = in_use d - {i}"
proof -
  have n: "length (s_bufctl d) = n" and i: "i < n" "i \<notin> set (free_list d)"
    using assms(1, 3) by (auto simp: slab_ok_def in_use_def)
  have "finite (in_use d)" by (simp add: in_use_def)
  then have "0 < card (in_use d)" using assms(3) by (auto simp: card_gt_0_iff)
  then show pos: "0 < s_refcount d" using card_in_use [OF assms(1)] by simp
  have free: "s_free d mod 2 ^ 16 = s_free d" using assms(1, 2) by (simp add: slab_ok_def)
  have k: "n - nat (s_refcount d - 1) = Suc (n - nat (s_refcount d))"
    using pos assms(1) by (simp add: slab_ok_def nat_diff_distrib) linarith
  have fl: "free_list d' = i # free_list d"
    using k n i(1) free i(2) by (simp add: free_list_def d' free_chain_update)
  then show "in_use d' = in_use d - {i}" using n by (auto simp: in_use_def d')
  have "\<forall>x\<in>set ((s_bufctl d)[i := s_free d]). x \<le> n"
    using assms(1) set_update_subset_insert [of "s_bufctl d" i "s_free d"] by (auto simp: slab_ok_def)
  then show "slab_ok n d'"
    using assms(1) fl i pos n free by (auto simp: slab_ok_def d')
qed

section \<open>The invariant of a cache\<close>

fun slab_class :: "slab_list \<Rightarrow> nat \<Rightarrow> int \<Rightarrow> bool" where
  "slab_class Slabs_partial n r \<longleftrightarrow> r < int n"
| "slab_class Slabs_full n r \<longleftrightarrow> r = int n"
| "slab_class Slabs_free n r \<longleftrightarrow> r = 0"

text \<open>
  \<open>cache_ok sc f\<close>: the three lists are \<open>f Slabs_partial\<close>, \<open>f Slabs_full\<close> and
  \<open>f Slabs_free\<close>, they hold exactly the slabs of the cache according to their use
  counts, every slab has a proper free list, and slabs do not overlap in memory.
\<close>

definition slab_range :: "cache_desc \<Rightarrow> slab_desc \<Rightarrow> nat set" where
  "slab_range c d = {s_mem d..<s_mem d + c_num c * c_buffer_size c}"

definition cache_ok :: "slab_cache \<Rightarrow> (slab_list \<Rightarrow> addr list) \<Rightarrow> bool" where
  "cache_ok sc f \<longleftrightarrow>
     lists_in dlist (sc_head sc) UNIV f (sc_links sc) \<and>
     dom (sc_slabs sc) = (\<Union>l. set (f l)) \<and>
     (\<forall>l a d. a \<in> set (f l) \<longrightarrow> sc_slabs sc a = Some d \<longrightarrow>
        slab_ok (c_num (sc_desc sc)) d \<and> slab_class l (c_num (sc_desc sc)) (s_refcount d) \<and>
        s_mem d + c_num (sc_desc sc) * c_buffer_size (sc_desc sc) \<le> 2 ^ 64) \<and>
     (\<forall>a b d e. sc_slabs sc a = Some d \<longrightarrow> sc_slabs sc b = Some e \<longrightarrow> a \<noteq> b \<longrightarrow>
        slab_range (sc_desc sc) d \<inter> slab_range (sc_desc sc) e = {}) \<and>
     0 < c_num (sc_desc sc) \<and> c_num (sc_desc sc) < 2 ^ 16 \<and> 0 < c_buffer_size (sc_desc sc)"

text \<open>The addresses of the objects in use.\<close>

definition slab_objs :: "cache_desc \<Rightarrow> slab_desc \<Rightarrow> nat set" where
  "slab_objs c d = (\<lambda>i. s_mem d + i * c_buffer_size c) ` in_use d"

definition cache_objs :: "slab_cache \<Rightarrow> nat set" where
  "cache_objs sc = (\<Union>d\<in>ran (sc_slabs sc). slab_objs (sc_desc sc) d)"

lemma slab_obj_inj:
  assumes "0 < c_buffer_size c"
  shows "s_mem d + i * c_buffer_size c = s_mem d + j * c_buffer_size c \<longleftrightarrow> i = j"
  using assms by simp

lemma obj_in_range:
  assumes "i < c_num c" "0 < c_buffer_size c"
  shows "s_mem d + i * c_buffer_size c \<in> slab_range c d"
proof -
  have "i * c_buffer_size c < c_num c * c_buffer_size c" using assms by simp
  then show ?thesis by (simp add: slab_range_def)
qed

lemma slab_objs_range:
  assumes "slab_ok (c_num c) d" "0 < c_buffer_size c"
  shows "slab_objs c d \<subseteq> slab_range c d"
  using assms obj_in_range by (fastforce simp: slab_objs_def in_use_def slab_ok_def)

lemma cache_ok_slab:
  assumes "cache_ok sc f" "sc_slabs sc a = Some d"
  obtains l where "a \<in> set (f l)" "slab_ok (c_num (sc_desc sc)) d"
    "slab_class l (c_num (sc_desc sc)) (s_refcount d)"
    "s_mem d + c_num (sc_desc sc) * c_buffer_size (sc_desc sc) \<le> 2 ^ 64"
proof -
  have "a \<in> dom (sc_slabs sc)" using assms(2) by blast
  then obtain l where "a \<in> set (f l)" using assms(1) by (auto simp: cache_ok_def)
  then show thesis using that assms unfolding cache_ok_def by blast
qed

lemma cache_ok_lookup:
  assumes "cache_ok sc f" "a \<in> set (f l)"
  obtains d where "sc_slabs sc a = Some d" "slab_ok (c_num (sc_desc sc)) d"
    "slab_class l (c_num (sc_desc sc)) (s_refcount d)"
    "s_mem d + c_num (sc_desc sc) * c_buffer_size (sc_desc sc) \<le> 2 ^ 64"
proof -
  have "a \<in> dom (sc_slabs sc)" using assms by (auto simp: cache_ok_def)
  then obtain d where "sc_slabs sc a = Some d" by blast
  then show thesis using that assms unfolding cache_ok_def by blast
qed

lemma cache_ok_dlist: "cache_ok sc f \<Longrightarrow> dlist (sc_links sc) (sc_head sc l) (f l)"
  by (simp add: cache_ok_def lists_in_def)

text \<open>One slab changes its free list, and possibly the list it is on.\<close>

lemma cache_ok_change:
  assumes ok: "cache_ok sc f" and a: "sc_slabs sc a = Some d"
    and d': "slab_ok (c_num (sc_desc sc)) d'" "s_mem d' = s_mem d"
    and sc': "sc_slabs sc' = (sc_slabs sc)(a \<mapsto> d')" "c_num (sc_desc sc') = c_num (sc_desc sc)"
      "c_buffer_size (sc_desc sc') = c_buffer_size (sc_desc sc)" "sc_head sc' = sc_head sc"
    and links: "lists_in dlist (sc_head sc) UNIV f' (sc_links sc')"
    and nodes: "(\<Union>l. set (f' l)) = (\<Union>l. set (f l))"
    and others: "\<And>l b. b \<noteq> a \<Longrightarrow> b \<in> set (f' l) \<Longrightarrow> b \<in> set (f l)"
    and cls: "\<And>l. a \<in> set (f' l) \<Longrightarrow> slab_class l (c_num (sc_desc sc)) (s_refcount d')"
  shows "cache_ok sc' f'"
proof -
  have range: "slab_range (sc_desc sc') x = slab_range (sc_desc sc) x" for x
    using sc'(2, 3) by (simp add: slab_range_def)
  have range': "slab_range (sc_desc sc) d' = slab_range (sc_desc sc) d"
    using d'(2) by (simp add: slab_range_def)
  have mem: "s_mem d + c_num (sc_desc sc) * c_buffer_size (sc_desc sc) \<le> 2 ^ 64"
    using cache_ok_slab [OF ok a] by blast
  have dom: "dom (sc_slabs sc') = (\<Union>l. set (f' l))"
    using ok a nodes sc'(1) by (auto simp: cache_ok_def)
  have slabs: "slab_ok (c_num (sc_desc sc)) e \<and> slab_class l (c_num (sc_desc sc)) (s_refcount e) \<and>
      s_mem e + c_num (sc_desc sc) * c_buffer_size (sc_desc sc) \<le> 2 ^ 64"
    if "b \<in> set (f' l)" "sc_slabs sc' b = Some e" for b l e
  proof (cases "b = a")
    case True
    then show ?thesis using that d' sc'(1) cls mem by simp
  next
    case False
    then have "sc_slabs sc b = Some e" "b \<in> set (f l)" using that others [OF False that(1)] sc'(1) by auto
    then show ?thesis using ok unfolding cache_ok_def by blast
  qed
  have disj: "slab_range (sc_desc sc) x \<inter> slab_range (sc_desc sc) y = {}"
    if "sc_slabs sc' b = Some x" "sc_slabs sc' b' = Some y" "b \<noteq> b'" for b b' x y
  proof -
    have old: "slab_range (sc_desc sc) x' \<inter> slab_range (sc_desc sc) y' = {}"
      if "sc_slabs sc b = Some x'" "sc_slabs sc b' = Some y'" for x' y'
      using that \<open>b \<noteq> b'\<close> ok unfolding cache_ok_def by blast
    show ?thesis
      using that old a range' sc'(1) by (cases "b = a"; cases "b' = a") auto
  qed
  show ?thesis
    using ok dom slabs disj links sc'(2-4) unfolding cache_ok_def range by auto
qed

lemma cache_objs_change:
  assumes ok: "cache_ok sc f" and a: "sc_slabs sc a = Some d"
    and sc': "sc_slabs sc' = (sc_slabs sc)(a \<mapsto> d')" "c_buffer_size (sc_desc sc') = c_buffer_size (sc_desc sc)"
    and mem: "s_mem d' = s_mem d"
  shows "cache_objs sc' = (cache_objs sc - slab_objs (sc_desc sc) d) \<union> slab_objs (sc_desc sc) d'"
proof -
  have bs: "slab_objs (sc_desc sc') x = slab_objs (sc_desc sc) x" for x
    using sc'(2) by (simp add: slab_objs_def)
  have pos: "0 < c_buffer_size (sc_desc sc)" using ok by (simp add: cache_ok_def)
  have "slab_objs (sc_desc sc) e \<inter> slab_objs (sc_desc sc) d = {}"
    if "sc_slabs sc b = Some e" "b \<noteq> a" for b e
  proof -
    have "slab_range (sc_desc sc) e \<inter> slab_range (sc_desc sc) d = {}"
      using ok that a unfolding cache_ok_def by blast
    moreover have "slab_ok (c_num (sc_desc sc)) e" "slab_ok (c_num (sc_desc sc)) d"
      using cache_ok_slab [OF ok that(1)] cache_ok_slab [OF ok a] by blast+
    ultimately show ?thesis using slab_objs_range [OF _ pos] by blast
  qed
  moreover have "ran (sc_slabs sc') = insert d' {e. \<exists>b. b \<noteq> a \<and> sc_slabs sc b = Some e}"
    using sc'(1) by (auto simp: ran_def)
  moreover have "ran (sc_slabs sc) = insert d {e. \<exists>b. b \<noteq> a \<and> sc_slabs sc b = Some e}"
    using a by (auto simp: ran_def) (metis option.inject)
  ultimately show ?thesis unfolding cache_objs_def bs by auto
qed

lemma list_membership:
  assumes "lists_in dlist h UNIV f links" "a \<in> set (f l)" "a \<in> set (f l')"
  shows "l = l'"
  using assms unfolding lists_in_def by (metis UNIV_I disjoint_iff list.set_intros(2))

lemma lists_distinct: "lists_in dlist h UNIV f links \<Longrightarrow> distinct (f l)"
  by (auto simp: lists_in_def dlist_def)

lemma w32_count: "0 \<le> r \<Longrightarrow> r \<le> int n \<Longrightarrow> n < 2 ^ 16 \<Longrightarrow> w32 r = nat r"
  by (rule w_small(2)) simp_all

text \<open>The lists after \<^verbatim>\<open>bds_list_del\<close> and \<^verbatim>\<open>bds_list_add\<close>.\<close>

definition moved :: "addr \<Rightarrow> slab_list \<Rightarrow> slab_list \<Rightarrow> (slab_list \<Rightarrow> addr list) \<Rightarrow> slab_list \<Rightarrow> addr list" where
  "moved a l l' f = (f(l := remove1 a (f l)))(l' := a # (f(l := remove1 a (f l))) l')"

lemma move_slab_lists:
  assumes "lists_in dlist (sc_head sc) UNIV f (sc_links sc)" "a \<in> set (f l)"
  shows "lists_in dlist (sc_head sc) UNIV (moved a l l' f) (sc_links (move_slab a l' sc))"
  using bds.lists_move [OF assms(1) UNIV_I UNIV_I assms(2), of l'] by (simp add: moved_def move_slab_def)

lemma moved_set:
  assumes "lists_in dlist h UNIV f links" "a \<in> set (f l)"
  shows "b \<noteq> a \<Longrightarrow> b \<in> set (moved a l l' f k) \<longleftrightarrow> b \<in> set (f k)"
    and "a \<in> set (moved a l l' f k) \<longleftrightarrow> k = l'"
proof -
  show "b \<in> set (moved a l l' f k) \<longleftrightarrow> b \<in> set (f k)" if "b \<noteq> a" for b
    using that by (simp add: moved_def in_set_remove1)
  have "a \<notin> set (remove1 a (f l))" using lists_distinct [OF assms(1), of l] by simp
  moreover have "a \<notin> set (f k)" if "k \<noteq> l" using list_membership [OF assms] that by blast
  ultimately show "a \<in> set (moved a l l' f k) \<longleftrightarrow> k = l'" by (simp add: moved_def)
qed

lemma moved_nodes:
  assumes "lists_in dlist h UNIV f links" "a \<in> set (f l)"
  shows "(\<Union>k. set (moved a l l' f k)) = (\<Union>k. set (f k))"
proof -
  have "b \<in> (\<Union>k. set (moved a l l' f k)) \<longleftrightarrow> b \<in> (\<Union>k. set (f k))" for b
    using moved_set(1) [OF assms, where b = b] moved_set(2) [OF assms] assms(2) by (cases "b = a") auto
  then show ?thesis by blast
qed

lemma move_slab_fields [simp]:
  "sc_desc (move_slab a l sc) = sc_desc sc" "sc_slabs (move_slab a l sc) = sc_slabs sc"
  "sc_head (move_slab a l sc) = sc_head sc"
  by (simp_all add: move_slab_def)

section \<open>Allocation takes a free object\<close>

lemma alloc_object_ok:
  assumes ok: "cache_ok sc f" and a: "a \<in> set (f Slabs_partial)" "sc_slabs sc a = Some d"
  shows "\<exists>obj sc' f'. alloc_object a d sc = Inr (obj, sc') \<and> cache_ok sc' f' \<and>
    obj \<notin> cache_objs sc \<and> cache_objs sc' = insert obj (cache_objs sc)"
proof -
  let ?c = "sc_desc sc" and ?n = "c_num (sc_desc sc)"
  have lists: "lists_in dlist (sc_head sc) UNIV f (sc_links sc)" using ok by (simp add: cache_ok_def)
  have d: "slab_ok ?n d" "s_refcount d < int ?n"
    using ok a unfolding cache_ok_def by fastforce+
  have n: "?n < 2 ^ 16" "0 < c_buffer_size ?c" using ok by (simp_all add: cache_ok_def)
  define d' where "d' = d\<lparr>s_free := s_bufctl d ! s_free d, s_refcount := s_refcount d + 1\<rparr>"
  note t = slab_take [OF d d'_def]
  have len: "length (s_bufctl d) = ?n" using d(1) by (simp add: slab_ok_def)
  define obj where "obj = s_mem d + s_free d * c_buffer_size ?c"
  define sc1 where "sc1 = sc\<lparr>sc_slabs := (sc_slabs sc)(a \<mapsto> d'), sc_desc := ?c\<lparr>c_refcount := c_refcount ?c + 1\<rparr>\<rparr>"
  define full where "full = (w32 (s_refcount d') = ?n)"
  have full: "full \<longleftrightarrow> s_refcount d' = int ?n"
    using t(2) n(1) w32_count [of "s_refcount d'" ?n] unfolding full_def slab_ok_def by auto
  define sc2 where "sc2 = (if full then move_slab a Slabs_full sc1 else sc1)"
  have run: "alloc_object a d sc = Inr (obj, sc2)"
    using t(1) len unfolding alloc_object_def Let_def obj_def sc2_def full_def sc1_def d'_def by simp
  have l1: "lists_in dlist (sc_head sc) UNIV f (sc_links sc1)" using lists by (simp add: sc1_def)
  have fields: "sc_slabs sc2 = (sc_slabs sc)(a \<mapsto> d')" "c_num (sc_desc sc2) = ?n"
    "c_buffer_size (sc_desc sc2) = c_buffer_size ?c" "sc_head sc2 = sc_head sc"
    by (simp_all add: sc2_def sc1_def)
  have mem: "s_mem d' = s_mem d" by (simp add: d'_def)
  have "\<exists>f'. cache_ok sc2 f'"
  proof (cases full)
    case True
    have "cache_ok sc2 (moved a Slabs_partial Slabs_full f)"
    proof (rule cache_ok_change [OF ok a(2) t(2) mem fields])
      show "lists_in dlist (sc_head sc) UNIV (moved a Slabs_partial Slabs_full f) (sc_links sc2)"
        using move_slab_lists [of sc1 f a Slabs_partial Slabs_full] l1 a(1) True by (simp add: sc2_def sc1_def)
      show "slab_class l ?n (s_refcount d')" if "a \<in> set (moved a Slabs_partial Slabs_full f l)" for l
        using that moved_set(2) [OF lists a(1)] True full by simp
      show "b \<in> set (f l)" if "b \<noteq> a" "b \<in> set (moved a Slabs_partial Slabs_full f l)" for l b
        using that moved_set(1) [OF lists a(1)] by blast
    qed (rule moved_nodes [OF lists a(1)])
    then show ?thesis by blast
  next
    case False
    have "slab_class l ?n (s_refcount d')" if "a \<in> set (f l)" for l
      using list_membership [OF lists a(1) that] False full t(2) by (auto simp: slab_ok_def)
    then show ?thesis
      using cache_ok_change [OF ok a(2) t(2) mem fields, of f] l1 False by (auto simp: sc2_def)
  qed
  moreover have "slab_objs ?c d' = insert obj (slab_objs ?c d)"
    using t(4) by (simp add: slab_objs_def obj_def mem)
  then have "cache_objs sc2 = insert obj (cache_objs sc)"
    using cache_objs_change [OF ok a(2) fields(1, 3) mem] a(2) by (auto simp: cache_objs_def ran_def)
  moreover have "obj \<notin> cache_objs sc"
  proof
    assume "obj \<in> cache_objs sc"
    then obtain b e where e: "sc_slabs sc b = Some e" "obj \<in> slab_objs ?c e"
      by (auto simp: cache_objs_def ran_def)
    show False
    proof (cases "b = a")
      case True
      then show False using e a(2) t(3) n(2) by (auto simp: slab_objs_def obj_def)
    next
      case False
      have "slab_range ?c e \<inter> slab_range ?c d = {}" using ok e(1) a(2) False unfolding cache_ok_def by blast
      moreover have "slab_ok ?n e" using cache_ok_slab [OF ok e(1)] by blast
      ultimately show False
        using e(2) slab_objs_range [OF _ n(2)] obj_in_range [OF t(1) n(2), of d] unfolding obj_def by blast
    qed
  qed
  ultimately show ?thesis using run by blast
qed

lemma cache_alloc_partial:
  assumes ok: "cache_ok sc f" and "f Slabs_partial \<noteq> []"
  shows "\<exists>obj sc' f'. bds_cache_alloc env sc = Some (Inr (obj, sc')) \<and> cache_ok sc' f' \<and>
    obj \<notin> cache_objs sc \<and> cache_objs sc' = insert obj (cache_objs sc)"
proof -
  obtain a as where a: "f Slabs_partial = a # as" using assms(2) by (cases "f Slabs_partial") auto
  have l: "dlist (sc_links sc) (sc_head sc Slabs_partial) (a # as)"
    using cache_ok_dlist [OF ok, of Slabs_partial] a by simp
  have e: "\<not> list_empty (sc_head sc Slabs_partial) (sc_links sc)" using bds.empty_rep [OF l] by simp
  have f: "nxt (sc_links sc) (sc_head sc Slabs_partial) = a" by (rule bds.first_rep [OF l])
  have mem: "a \<in> set (f Slabs_partial)" using a by simp
  obtain d where d: "sc_slabs sc a = Some d" "slab_ok (c_num (sc_desc sc)) d"
    "slab_class Slabs_partial (c_num (sc_desc sc)) (s_refcount d)"
    by (rule cache_ok_lookup [OF ok mem])
  have "w32 (s_refcount d) < c_num (sc_desc sc)"
    using d(2, 3) ok w32_count [of "s_refcount d" "c_num (sc_desc sc)"]
    by (auto simp: slab_ok_def cache_ok_def)
  then have "bds_cache_alloc env sc = Some (alloc_object a d sc)"
    using e f d(1) by (subst bds_cache_alloc.simps) (simp add: Let_def)
  then show ?thesis using alloc_object_ok [OF ok mem d(1)] by auto
qed

lemma cache_alloc_free:
  assumes ok: "cache_ok sc f" and "f Slabs_partial = []" "f Slabs_free \<noteq> []"
  shows "\<exists>obj sc' f'. bds_cache_alloc env sc = Some (Inr (obj, sc')) \<and> cache_ok sc' f' \<and>
    obj \<notin> cache_objs sc \<and> cache_objs sc' = insert obj (cache_objs sc)"
proof -
  obtain a as where a: "f Slabs_free = a # as" using assms(3) by (cases "f Slabs_free") auto
  have lists: "lists_in dlist (sc_head sc) UNIV f (sc_links sc)" using ok by (simp add: cache_ok_def)
  have l: "dlist (sc_links sc) (sc_head sc Slabs_free) (a # as)"
    "dlist (sc_links sc) (sc_head sc Slabs_partial) []"
    using cache_ok_dlist [OF ok, of Slabs_free] cache_ok_dlist [OF ok, of Slabs_partial] a assms(2) by simp_all
  have e: "list_empty (sc_head sc Slabs_partial) (sc_links sc)"
    "\<not> list_empty (sc_head sc Slabs_free) (sc_links sc)"
    using bds.empty_rep [OF l(1)] bds.empty_rep [OF l(2)] by simp_all
  have first: "nxt (sc_links sc) (sc_head sc Slabs_free) = a" by (rule bds.first_rep [OF l(1)])
  have mem: "a \<in> set (f Slabs_free)" using a by simp
  obtain d where d: "sc_slabs sc a = Some d" "slab_ok (c_num (sc_desc sc)) d"
    "slab_class Slabs_free (c_num (sc_desc sc)) (s_refcount d)"
    by (rule cache_ok_lookup [OF ok mem])
  let ?sc = "move_slab a Slabs_partial sc" and ?f = "moved a Slabs_free Slabs_partial f"
  have same: "(sc_slabs sc)(a \<mapsto> d) = sc_slabs sc" using d(1) by (simp add: fun_upd_idem)
  have n: "0 < c_num (sc_desc sc)" using ok by (simp add: cache_ok_def)
  have ok': "cache_ok ?sc ?f"
  proof (rule cache_ok_change [OF ok d(1, 2) refl])
    show "sc_slabs ?sc = (sc_slabs sc)(a \<mapsto> d)" using same by simp
    show "lists_in dlist (sc_head sc) UNIV ?f (sc_links ?sc)" by (rule move_slab_lists [OF lists mem])
    show "slab_class k (c_num (sc_desc sc)) (s_refcount d)" if "a \<in> set (?f k)" for k
      using that moved_set(2) [OF lists mem] d(3) n by simp
    show "b \<in> set (f k)" if "b \<noteq> a" "b \<in> set (?f k)" for k b
      using that moved_set(1) [OF lists mem] by blast
  qed (simp_all add: moved_nodes [OF lists mem])
  have "?f Slabs_partial = [a]" by (simp add: moved_def assms(2))
  then have l': "dlist (sc_links ?sc) (sc_head sc Slabs_partial) [a]"
    using cache_ok_dlist [OF ok', of Slabs_partial] by simp
  have "w32 (s_refcount d) < c_num (sc_desc sc)" using d(3) n by (simp add: w32_def)
  moreover have "sc_head sc Slabs_partial = sc_head ?sc Slabs_partial" by simp
  ultimately have run: "bds_cache_alloc env sc = Some (alloc_object a d ?sc)"
    using e first d(1) bds.first_rep [OF l'] by (subst bds_cache_alloc.simps) (simp add: Let_def)
  have mem': "a \<in> set (?f Slabs_partial)" using moved_set(2) [OF lists mem] by simp
  have objs: "cache_objs ?sc = cache_objs sc" by (simp add: cache_objs_def)
  have slab: "sc_slabs ?sc a = Some d" using d(1) by simp
  show ?thesis using alloc_object_ok [OF ok' mem' slab] unfolding run objs by simp
qed

section \<open>Growing adds an unused slab\<close>

lemma free_chain_new:
  assumes "\<And>j. j < n \<Longrightarrow> bc ! j = Suc j" "i + k \<le> n"
  shows "free_chain bc i k = [i..<i + k]"
  using assms(2)
proof (induction k arbitrary: i)
  case (Suc k)
  then show ?case using assms(1) [of i] by (simp add: upt_conv_Cons del: upt_Suc)
qed simp

definition new_slab_mem :: "cache_desc \<Rightarrow> nat \<Rightarrow> nat" where
  "new_slab_mem c page =
     (if OFF_SLAB (c_flags c) then nat (int page + c_colour_next c)
      else nat (int page + c_colour_next c) + c_mgmt_size c)"

text \<open>
  What the system must deliver for a slab: a descriptor address that is no slab or
  list head yet, and pages whose objects lie beside those of the other slabs.
\<close>

definition fresh_slab :: "slab_cache \<Rightarrow> nat \<Rightarrow> nat \<Rightarrow> bool" where
  "fresh_slab sc page node \<longleftrightarrow>
     node \<notin> dom (sc_slabs sc) \<and> node \<notin> range (sc_head sc) \<and>
     new_slab_mem (sc_desc sc) page + c_num (sc_desc sc) * c_buffer_size (sc_desc sc) \<le> 2 ^ 64 \<and>
     (\<forall>d\<in>ran (sc_slabs sc). slab_range (sc_desc sc) d \<inter>
        {new_slab_mem (sc_desc sc) page..<new_slab_mem (sc_desc sc) page +
           c_num (sc_desc sc) * c_buffer_size (sc_desc sc)} = {}) \<and>
     (c_colour (sc_desc sc) \<noteq> 0 \<longrightarrow> c_colour (sc_desc sc) * c_colour_offset (sc_desc sc) \<noteq> 0)"

lemma setup_slab_ok:
  assumes ok: "cache_ok sc f" and fresh: "fresh_slab sc page node"
  shows "\<exists>sc'. setup_slab_desc node page sc = Inr sc' \<and>
    cache_ok sc' (f(Slabs_partial := node # f Slabs_partial)) \<and> cache_objs sc' = cache_objs sc"
proof -
  let ?c = "sc_desc sc" and ?n = "c_num (sc_desc sc)" and ?bs = "c_buffer_size (sc_desc sc)"
  have n: "0 < ?n" "?n < 2 ^ 16" using ok by (simp_all add: cache_ok_def)
  define bc where "bc = map (\<lambda>i. (i + 1) mod 2 ^ 16) [0..<?n]"
  define d where "d = \<lparr>s_magic = c_slab_magic ?c, s_colour_offset = c_colour_next ?c,
    s_mem = new_slab_mem ?c page, s_free = 0, s_refcount = 0, s_bufctl = bc\<rparr>"
  have bc: "bc ! j = Suc j" if "j < ?n" for j using that n(2) by (simp add: bc_def)
  have fl: "free_list d = [0..<?n]"
    using free_chain_new [of ?n bc 0 ?n] bc by (simp add: free_list_def d_def bc_def)
  have le: "x \<le> ?n" if "x \<in> set bc" for x
    using that bc by (auto simp: in_set_conv_nth bc_def)
  have dok: "slab_ok ?n d" using fl le n by (auto simp: slab_ok_def d_def bc_def)
  have use: "in_use d = {}" using fl by (auto simp: in_use_def d_def bc_def)
  obtain sc' where sc': "setup_slab_desc node page sc = Inr sc'"
    "sc_slabs sc' = (sc_slabs sc)(node \<mapsto> d)" "c_num (sc_desc sc') = ?n"
    "c_buffer_size (sc_desc sc') = ?bs" "sc_head sc' = sc_head sc"
    "sc_links sc' = bds_list_add node (sc_head sc Slabs_partial) (sc_links sc)"
    using fresh
    by (cases "c_colour ?c = 0")
      (auto simp: setup_slab_desc_def Let_def fresh_slab_def d_def bc_def new_slab_mem_def)
  have range: "slab_range (sc_desc sc') x = slab_range ?c x" for x
    using sc'(3, 4) by (simp add: slab_range_def)
  have new: "node \<notin> set (sc_head sc l # f l)" for l
    using fresh ok by (auto simp: fresh_slab_def cache_ok_def)
  have lists: "lists_in dlist (sc_head sc) UNIV (f(Slabs_partial := node # f Slabs_partial)) (sc_links sc')"
    unfolding sc'(6) using ok new by (intro bds.lists_add) (auto simp: cache_ok_def)
  have notin: "sc_slabs sc node = None" using fresh by (auto simp: fresh_slab_def)
  have dom: "dom (sc_slabs sc') = (\<Union>l. set ((f(Slabs_partial := node # f Slabs_partial)) l))"
    using ok sc'(2) by (auto simp: cache_ok_def split: if_splits)
  have slabs: "slab_ok ?n e \<and> slab_class l ?n (s_refcount e) \<and> s_mem e + ?n * ?bs \<le> 2 ^ 64"
    if "b \<in> set ((f(Slabs_partial := node # f Slabs_partial)) l)" "sc_slabs sc' b = Some e" for b l e
  proof (cases "b = node")
    case True
    then have "e = d" "l = Slabs_partial" using that sc'(2) new [of l] by (auto split: if_splits)
    then show ?thesis using dok n(1) fresh by (simp add: d_def fresh_slab_def)
  next
    case False
    then have "b \<in> set (f l)" "sc_slabs sc b = Some e" using that sc'(2) by (auto split: if_splits)
    then show ?thesis using ok unfolding cache_ok_def by blast
  qed
  have disj: "slab_range ?c x \<inter> slab_range ?c y = {}"
    if xy: "sc_slabs sc' b = Some x" "sc_slabs sc' b' = Some y" "b \<noteq> b'" for b b' x y
  proof -
    have dr: "slab_range ?c z \<inter> slab_range ?c d = {}" if "sc_slabs sc b'' = Some z" for b'' z
      using that fresh by (auto simp: fresh_slab_def slab_range_def d_def ran_def)
    have old: "slab_range ?c x \<inter> slab_range ?c y = {}" if "sc_slabs sc b = Some x" "sc_slabs sc b' = Some y"
      using that xy(3) ok unfolding cache_ok_def by blast
    show ?thesis
      using xy sc'(2) dr [of b x] dr [of b' y] old by (cases "b = node"; cases "b' = node") auto
  qed
  have "cache_ok sc' (f(Slabs_partial := node # f Slabs_partial))"
    using ok lists dom slabs disj sc'(3-5) unfolding cache_ok_def range by auto
  moreover have "cache_objs sc' = cache_objs sc"
  proof -
    have "ran (sc_slabs sc') = insert d (ran (sc_slabs sc))" using sc'(2) notin by (simp add: ran_map_upd)
    then show ?thesis using use sc'(4) by (simp add: cache_objs_def slab_objs_def)
  qed
  ultimately show ?thesis using sc'(1) by blast
qed

section \<open>Allocation as a whole\<close>

text \<open>The next request for memory is answered with the means for a new slab.\<close>

fun slab_request :: "slab_cache \<Rightarrow> (nat option \<times> nat option) list \<Rightarrow> bool" where
  "slab_request sc ((Some page, mgmt) # env) \<longleftrightarrow>
     (if OFF_SLAB (c_flags (sc_desc sc)) then (case mgmt of None \<Rightarrow> False | Some node \<Rightarrow> fresh_slab sc page node)
      else fresh_slab sc page page)"
| "slab_request sc env \<longleftrightarrow> False"

lemma cache_grow_ok:
  assumes ok: "cache_ok sc f" and req: "slab_request sc env"
  shows "\<exists>sc' node. bds_cache_grow (fst (hd env)) (snd (hd env)) sc = Inr (0, sc') \<and>
    cache_ok sc' (f(Slabs_partial := node # f Slabs_partial)) \<and> cache_objs sc' = cache_objs sc"
proof -
  obtain page mgmt es where env: "env = (Some page, mgmt) # es"
    using req by (cases "(sc, env)" rule: slab_request.cases) auto
  define node where "node = (if OFF_SLAB (c_flags (sc_desc sc)) then the mgmt else page)"
  have fresh: "fresh_slab sc page node" and m: "OFF_SLAB (c_flags (sc_desc sc)) \<Longrightarrow> mgmt = Some node"
    "\<not> OFF_SLAB (c_flags (sc_desc sc)) \<Longrightarrow> page = node"
    using req by (auto simp: env node_def split: if_splits option.splits)
  obtain sc' where sc': "setup_slab_desc node page sc = Inr sc'"
    "cache_ok sc' (f(Slabs_partial := node # f Slabs_partial))" "cache_objs sc' = cache_objs sc"
    using setup_slab_ok [OF ok fresh] by blast
  have "bds_cache_grow (fst (hd env)) (snd (hd env)) sc = Inr (0, sc')"
    using sc'(1) m by (cases "OFF_SLAB (c_flags (sc_desc sc))") (simp_all add: bds_cache_grow_def env)
  then show ?thesis using sc'(2, 3) by blast
qed

lemma lists_empty:
  assumes "cache_ok sc f"
  shows "list_empty (sc_head sc l) (sc_links sc) \<longleftrightarrow> f l = []"
  by (rule bds.empty_rep [OF cache_ok_dlist [OF assms]])

lemma cache_alloc_grow:
  assumes ok: "cache_ok sc f" and empty: "f Slabs_partial = []" "f Slabs_free = []"
    and req: "slab_request sc env"
  shows "\<exists>obj sc' f'. bds_cache_alloc env sc = Some (Inr (obj, sc')) \<and> cache_ok sc' f' \<and>
    obj \<notin> cache_objs sc \<and> cache_objs sc' = insert obj (cache_objs sc)"
proof -
  have env: "env \<noteq> []" using req by auto
  obtain sc' node where g: "bds_cache_grow (fst (hd env)) (snd (hd env)) sc = Inr (0, sc')"
    "cache_ok sc' (f(Slabs_partial := node # f Slabs_partial))" "cache_objs sc' = cache_objs sc"
    using cache_grow_ok [OF ok req] by blast
  have "bds_cache_alloc env sc = bds_cache_alloc (tl env) sc'"
    using lists_empty [OF ok] empty env g(1)
    by (subst bds_cache_alloc.simps) (simp add: Let_def)
  then show ?thesis using cache_alloc_partial [OF g(2), of "tl env"] unfolding g(3) by simp
qed

text \<open>
  C8: \<^verbatim>\<open>bds_cache_alloc\<close> on a cache in order returns an object that nobody holds, records it as
  in use and leaves the cache in order, whether it comes from a partial slab, from a
  free slab or, when the request for memory is answered, from a new one.
\<close>

theorem slab_alloc_fresh:
  assumes "cache_ok sc f" "f Slabs_partial = [] \<and> f Slabs_free = [] \<longrightarrow> slab_request sc env"
  shows "\<exists>obj sc' f'. bds_cache_alloc env sc = Some (Inr (obj, sc')) \<and> cache_ok sc' f' \<and>
    obj \<notin> cache_objs sc \<and> cache_objs sc' = insert obj (cache_objs sc)"
proof (cases "f Slabs_partial = []")
  case partial: True
  show ?thesis
  proof (cases "f Slabs_free = []")
    case True
    then show ?thesis using cache_alloc_grow [OF assms(1) partial] assms(2) partial by blast
  next
    case False
    then show ?thesis by (rule cache_alloc_free [OF assms(1) partial])
  qed
next
  case False
  then show ?thesis by (rule cache_alloc_partial [OF assms(1)])
qed

text \<open>A cache of two objects per slab, with off-slab descriptors and no slab yet.\<close>

definition sample_cache :: slab_cache where
  "sample_cache =
     \<lparr>sc_desc = \<lparr>c_flags = push_bit 31 1, c_num = 2, c_colour = 0, c_colour_offset = 0, c_colour_next = 0,
        c_page_order = 0, c_slab_size = 4096, c_mgmt_size = 108, c_buffer_size = 2048,
        c_slab_magic = 0xdeadbeef, c_refcount = 0, c_free_slab_count = 0, c_total_slab_count = 0,
        c_linger = 1\<rparr>,
      sc_links = INIT_LIST_HEAD 1 (INIT_LIST_HEAD 2 (INIT_LIST_HEAD 3 \<lparr>nxt = \<lambda>_. 0, prv = \<lambda>_. 0\<rparr>)),
      sc_head = (\<lambda>l. case l of Slabs_partial \<Rightarrow> 1 | Slabs_full \<Rightarrow> 2 | Slabs_free \<Rightarrow> 3),
      sc_slabs = Map.empty, sc_unmapped = [], sc_freed = []\<rparr>"

lemma sample_cache_ok: "cache_ok sample_cache (\<lambda>l. [])"
  by (auto simp: cache_ok_def lists_in_def sample_cache_def dlist_def INIT_LIST_HEAD_def split: slab_list.splits)

lemma sample_cache_request: "slab_request sample_cache [(Some 4096, Some 100)]"
  by (auto simp: fresh_slab_def sample_cache_def new_slab_mem_def CFLGS_OFF_SLAB_def bit_push_bit_iff
      split: slab_list.splits)

theorem slab_alloc_fresh_witness:
  "\<exists>obj sc' f'. bds_cache_alloc [(Some 4096, Some 100)] sample_cache = Some (Inr (obj, sc')) \<and>
     cache_ok sc' f' \<and> obj \<notin> cache_objs sample_cache \<and>
     cache_objs sc' = insert obj (cache_objs sample_cache)"
  using slab_alloc_fresh [OF sample_cache_ok] sample_cache_request by simp

text \<open>
  when there is no slab to allocate from and the request for pages fails,
  \<^verbatim>\<open>bds_cache_alloc\<close> does not return \<^verbatim>\<open>NULL\<close>: it goes on and reads through the null slab pointer.
\<close>

theorem slab_alloc_no_memory:
  assumes "cache_ok sc f" "f Slabs_partial = []" "f Slabs_free = []" "fst (hd env) = None"
  shows "bds_cache_alloc env sc = Some (Inl Null_Deref)"
  using lists_empty [OF assms(1)] assms(2-4)
  by (subst bds_cache_alloc.simps) (simp add: Let_def bds_cache_grow_def)

theorem slab_alloc_no_memory_witness:
  "bds_cache_alloc [(None, None)] sample_cache = Some (Inl Null_Deref)"
  by (rule slab_alloc_no_memory [OF sample_cache_ok]) simp_all

end
