(* ===== verification/Slab_Free.thy ===== *)
theory Slab_Free
  imports Slab_Alloc
begin

text \<open>
  Correctness of freeing and reclaiming in \<^verbatim>\<open>common/src/bds_slab/bds_slab.c\<close>: the search for
  the slab of an object, \<^verbatim>\<open>__free_one\<close>, the garbage collector and the destruction of a
  cache, over the definitions of \<^verbatim>\<open>Slab_Alloc\<close>.
\<close>

section \<open>Moving a slab between the lists\<close>

text \<open>The lists \<open>g\<close> are the lists \<open>f\<close> but for the slab \<open>a\<close>, which is on list \<open>l\<close>.\<close>

definition relisted ::
  "slab_cache \<Rightarrow> (slab_list \<Rightarrow> addr list) \<Rightarrow> addr \<Rightarrow> (slab_list \<Rightarrow> addr list) \<Rightarrow> slab_list \<Rightarrow> bool" where
  "relisted sc f a g l \<longleftrightarrow>
     lists_in dlist (sc_head sc) UNIV g (sc_links sc) \<and>
     (\<forall>k. a \<in> set (g k) \<longleftrightarrow> k = l) \<and>
     (\<forall>k b. b \<noteq> a \<longrightarrow> (b \<in> set (g k) \<longleftrightarrow> b \<in> set (f k)))"

lemma relisted_start:
  assumes "lists_in dlist (sc_head sc) UNIV f (sc_links sc)" "a \<in> set (f l)"
  shows "relisted sc f a f l"
  using assms list_membership [OF assms(1)] unfolding relisted_def by blast

lemma relisted_move:
  assumes "relisted sc f a g l"
  shows "relisted (move_slab a l' sc) f a (moved a l l' g) l'"
proof -
  have g: "lists_in dlist (sc_head sc) UNIV g (sc_links sc)" "a \<in> set (g l)"
    using assms by (auto simp: relisted_def)
  show ?thesis
    using move_slab_lists [OF g] moved_set [OF g] assms by (simp add: relisted_def)
qed

lemma relisted_cong:
  "relisted sc f a g l \<Longrightarrow> sc_head sc' = sc_head sc \<Longrightarrow> sc_links sc' = sc_links sc \<Longrightarrow> relisted sc' f a g l"
  by (simp add: relisted_def)

lemma cache_ok_relisted:
  assumes ok: "cache_ok sc f" and a: "sc_slabs sc a = Some d"
    and d': "slab_ok (c_num (sc_desc sc)) d'" "s_mem d' = s_mem d"
    and sc': "sc_slabs sc' = (sc_slabs sc)(a \<mapsto> d')" "c_num (sc_desc sc') = c_num (sc_desc sc)"
      "c_buffer_size (sc_desc sc') = c_buffer_size (sc_desc sc)" "sc_head sc' = sc_head sc"
    and g: "relisted sc' f a g l" and cls: "slab_class l (c_num (sc_desc sc)) (s_refcount d')"
  shows "cache_ok sc' g"
proof (rule cache_ok_change [OF ok a d' sc'])
  show "lists_in dlist (sc_head sc) UNIV g (sc_links sc')" using g sc'(4) by (simp add: relisted_def)
  obtain l0 where l0: "a \<in> set (f l0)" using cache_ok_slab [OF ok a] by blast
  have "b \<in> (\<Union>k. set (g k)) \<longleftrightarrow> b \<in> (\<Union>k. set (f k))" for b
    using g l0 by (cases "b = a") (auto simp: relisted_def)
  then show "(\<Union>k. set (g k)) = (\<Union>k. set (f k))" by blast
  show "b \<in> set (f k)" if "b \<noteq> a" "b \<in> set (g k)" for k b
    using that g by (auto simp: relisted_def)
  show "slab_class k (c_num (sc_desc sc)) (s_refcount d')" if "a \<in> set (g k)" for k
    using that g cls by (auto simp: relisted_def)
qed

section \<open>Freeing one object\<close>

lemma object_offset:
  assumes "i < n" "0 < bs" "m + n * bs \<le> 2 ^ 64"
  shows "w64 (int (m + i * bs) - int m) div bs = i"
proof -
  have "i * bs < n * bs" using assms(1, 2) by simp
  then have "i * bs < 2 ^ 64" using assms(3) by linarith
  then have "w64 (int (m + i * bs) - int m) = i * bs" using w_int(1) [of "i * bs"] by simp
  then show ?thesis using assms(2) by simp
qed

text \<open>The list a slab is on after one of its objects was freed.\<close>

definition list_after_free :: "nat \<Rightarrow> int \<Rightarrow> slab_list \<Rightarrow> slab_list" where
  "list_after_free n r l = (if r = 1 then Slabs_free else if r = int n then Slabs_partial else l)"

lemma list_after_free_class:
  assumes "slab_class l n r" "0 < r" "0 < n"
  shows "slab_class (list_after_free n r l) n (r - 1)"
  using assms by (cases l) (auto simp: list_after_free_def)

lemma free_one_ok:
  assumes ok: "cache_ok sc f" and a: "sc_slabs sc a = Some d" and obj: "obj \<in> slab_objs (sc_desc sc) d"
  shows "\<exists>sc' f'. free_one a obj sc = Inr sc' \<and> cache_ok sc' f' \<and> cache_objs sc' = cache_objs sc - {obj}"
proof -
  let ?c = "sc_desc sc" and ?n = "c_num (sc_desc sc)" and ?bs = "c_buffer_size (sc_desc sc)"
  have n: "0 < ?n" "?n < 2 ^ 16" "0 < ?bs" using ok by (simp_all add: cache_ok_def)
  obtain l where l: "a \<in> set (f l)" "slab_ok ?n d" "slab_class l ?n (s_refcount d)" "s_mem d + ?n * ?bs \<le> 2 ^ 64"
    by (rule cache_ok_slab [OF ok a])
  obtain i where i: "i \<in> in_use d" "obj = s_mem d + i * ?bs" using obj by (auto simp: slab_objs_def)
  have len: "length (s_bufctl d) = ?n" and ilt: "i < ?n" using l(2) i(1) by (auto simp: slab_ok_def in_use_def)
  define d' where "d' = d\<lparr>s_bufctl := (s_bufctl d)[i := s_free d mod 2 ^ 16], s_free := i,
    s_refcount := s_refcount d - 1\<rparr>"
  note give = slab_give [OF l(2) n(2) i(1) d'_def]
  have r: "s_refcount d' = s_refcount d - 1" "s_mem d' = s_mem d" by (simp_all add: d'_def)
  have rn: "s_refcount d \<le> int ?n" using l(2) by (simp add: slab_ok_def)
  have w: "w32 (s_refcount d') = nat (s_refcount d - 1)" "w32 (int ?n - 1) = ?n - 1"
    using give(1) rn n(1, 2) r by (simp_all add: nat_diff_distrib)
  have off: "w64 (int obj - int (s_mem d)) div ?bs = i" unfolding i(2) by (rule object_offset [OF ilt n(3) l(4)])
  define sc1 where "sc1 = sc\<lparr>sc_slabs := (sc_slabs sc)(a \<mapsto> d'), sc_desc := ?c\<lparr>c_refcount := c_refcount ?c - 1\<rparr>\<rparr>"
  define sc2 where "sc2 = (if w32 (s_refcount d') = w32 (int ?n - 1) then move_slab a Slabs_partial sc1 else sc1)"
  define sc3 where "sc3 = (if w32 (s_refcount d') = 0 then (move_slab a Slabs_free sc2)
      \<lparr>sc_desc := (sc_desc sc2)\<lparr>c_free_slab_count := c_free_slab_count (sc_desc sc2) + 1\<rparr>\<rparr> else sc2)"
  have run: "free_one a obj sc = Inr sc3"
    using a n(3) off ilt len unfolding free_one_def sc3_def sc2_def sc1_def d'_def Let_def by simp
  have fields: "sc_slabs sc3 = (sc_slabs sc)(a \<mapsto> d')" "c_num (sc_desc sc3) = ?n"
    "c_buffer_size (sc_desc sc3) = ?bs" "sc_head sc3 = sc_head sc"
    by (simp_all add: sc3_def sc2_def sc1_def)
  have b: "w32 (s_refcount d') = w32 (int ?n - 1) \<longleftrightarrow> s_refcount d = int ?n" "w32 (s_refcount d') = 0 \<longleftrightarrow> s_refcount d = 1"
    unfolding w using give(1) rn n(1) by linarith+
  have g1: "relisted sc1 f a f l"
    using relisted_start [of sc f a l] l(1) ok by (simp add: sc1_def cache_ok_def relisted_def)
  obtain g2 where g2: "relisted sc2 f a g2 (if s_refcount d = int ?n then Slabs_partial else l)"
    using relisted_move [OF g1, of Slabs_partial] g1 unfolding sc2_def b by (cases "s_refcount d = int ?n") auto
  obtain g3 where "relisted sc3 f a g3 (list_after_free ?n (s_refcount d) l)"
    using relisted_cong [OF relisted_move [OF g2, of Slabs_free], of sc3] g2
    unfolding sc3_def b list_after_free_def by (cases "s_refcount d = 1") auto
  then have "cache_ok sc3 g3"
    by (rule cache_ok_relisted [OF ok a give(2) r(2) fields])
      (use list_after_free_class [OF l(3) give(1) n(1)] r(1) in simp)
  moreover have "inj (\<lambda>j. s_mem d + j * ?bs)" using n(3) by (intro injI) simp
  then have "slab_objs ?c d' = slab_objs ?c d - {obj}"
    by (simp add: slab_objs_def r(2) i(2) give(3) image_set_diff)
  then have "cache_objs sc3 = cache_objs sc - {obj}"
    using cache_objs_change [OF ok a fields(1, 3) r(2)] a obj by (auto simp: cache_objs_def ran_def)
  ultimately show ?thesis using run by blast
qed

section \<open>Finding the slab of an object\<close>

lemma obj_in_slab:
  assumes ok: "cache_ok sc f" and a: "sc_slabs sc a = Some d" and obj: "obj \<in> slab_objs (sc_desc sc) d"
  shows "object_in_slab obj sc b \<longleftrightarrow> b = a"
proof -
  let ?c = "sc_desc sc" and ?n = "c_num (sc_desc sc)" and ?bs = "c_buffer_size (sc_desc sc)"
  have n: "0 < ?n" "?n < 2 ^ 16" "0 < ?bs" using ok by (simp_all add: cache_ok_def)
  have w: "w32 (int ?n - 1) = ?n - 1" using n(1, 2) by (simp add: nat_diff_distrib)
  have dok: "slab_ok ?n d" using cache_ok_slab [OF ok a] by blast
  obtain i where i: "i < ?n" "obj = s_mem d + i * ?bs"
    using obj dok by (auto simp: slab_objs_def in_use_def slab_ok_def)
  have "i * ?bs \<le> (?n - 1) * ?bs" using i(1) by (intro mult_le_mono1) simp
  then have "object_in_slab obj sc a" using a i(2) w by (simp add: object_in_slab_def)
  moreover have "b = a" if inb: "object_in_slab obj sc b"
  proof (rule ccontr)
    assume "b \<noteq> a"
    obtain e where e': "sc_slabs sc b = Some e" "s_mem e \<le> obj" "obj \<le> s_mem e + w32 (int ?n - 1) * ?bs"
      using inb by (auto simp: object_in_slab_def split: option.splits)
    note e = e' [unfolded w]
    have "(?n - 1) * ?bs < ?n * ?bs" using n by simp
    then have "obj < s_mem e + ?n * ?bs" using e(3) by linarith
    then have "obj \<in> slab_range ?c e" using e(2) by (simp add: slab_range_def)
    moreover have "obj \<in> slab_range ?c d" using slab_objs_range [OF dok n(3)] obj by blast
    moreover have "slab_range ?c e \<inter> slab_range ?c d = {}"
      using ok e(1) a \<open>b \<noteq> a\<close> unfolding cache_ok_def by blast
    ultimately show False by blast
  qed
  ultimately show ?thesis by blast
qed

lemma find_object_list:
  assumes "cache_ok sc f"
  shows "find_object_in_slab_list l obj sc = Some (List.find (object_in_slab obj sc) (f l))"
  using bds.search_rep [OF cache_ok_dlist [OF assms], of "object_in_slab obj sc" l] lists_empty [OF assms, of l]
  by (simp add: find_object_in_slab_list_def Let_def)

lemma find_unique:
  assumes "\<And>b. P b \<longleftrightarrow> b = a"
  shows "List.find P xs = (if a \<in> set xs then Some a else None)"
  using assms by (induction xs) auto

lemma cache_free_off_slab:
  assumes ok: "cache_ok sc f" and off: "OFF_SLAB (c_flags (sc_desc sc))"
    and a: "sc_slabs sc a = Some d" and obj: "obj \<in> slab_objs (sc_desc sc) d"
  shows "bds_cache_free pshift mem32 obj sc =
    Some (exec_bind (free_one a obj sc) (\<lambda>sc'. Inr (0, sc')))"
proof -
  obtain l where l: "a \<in> set (f l)" "slab_ok (c_num (sc_desc sc)) d" "slab_class l (c_num (sc_desc sc)) (s_refcount d)"
    by (rule cache_ok_slab [OF ok a])
  have "in_use d \<noteq> {}" using obj by (auto simp: slab_objs_def)
  then have "s_refcount d \<noteq> 0" using card_in_use [OF l(2)] by (auto simp: in_use_def)
  then have "l \<noteq> Slabs_free" using l(3) by auto
  then have "a \<in> set (f Slabs_partial) \<or> a \<in> set (f Slabs_full)" using l(1) by (cases l) auto
  moreover have "find_object_in_slab_list k obj sc = Some (if a \<in> set (f k) then Some a else None)" for k
    unfolding find_object_list [OF ok] by (subst find_unique [OF obj_in_slab [OF ok a obj]]) (rule refl)
  ultimately show ?thesis using off by (auto simp: bds_cache_free_def)
qed

lemma find_slab_magic_back:
  assumes "mem32 a = magic" "\<forall>k. 0 < k \<longrightarrow> k \<le> j \<longrightarrow> mem32 (a + k * 2 ^ pshift) \<noteq> magic"
  shows "find_slab_magic pshift mem32 magic (a + j * 2 ^ pshift) = Inr a"
  using assms(2)
proof (induction j)
  case 0
  then show ?case using assms(1) by (subst find_slab_magic.simps) simp
next
  case (Suc j)
  have "mem32 (a + Suc j * 2 ^ pshift) \<noteq> magic" using Suc.prems by blast
  moreover have "a + Suc j * 2 ^ pshift - 2 ^ pshift = a + j * 2 ^ pshift" by simp
  ultimately have "find_slab_magic pshift mem32 magic (a + Suc j * 2 ^ pshift) =
      find_slab_magic pshift mem32 magic (a + j * 2 ^ pshift)"
    by (subst find_slab_magic.simps) (simp del: mult_Suc find_slab_magic.simps, simp)
  then show ?case using Suc by simp
qed

lemma page_start:
  assumes "a mod P = 0" "a \<le> obj"
  shows "obj - obj mod P = a + ((obj - a) div P) * (P::nat)"
proof -
  have "(obj - a) mod P = obj mod P"
  proof -
    have "obj mod P = ((obj - a) + a) mod P" using assms(2) by simp
    also have "\<dots> = ((obj - a) mod P + a mod P) mod P" by (simp add: mod_add_eq)
    finally show ?thesis using assms(1) by simp
  qed
  moreover have "(obj - a) div P * P + (obj - a) mod P = obj - a" by simp
  ultimately show ?thesis using assms(2) by linarith
qed

text \<open>
  The first words of the pages of an on-slab slab: its first page starts with the
  descriptor, hence with the magic number, and none of the other pages up to the object
  does.
\<close>

definition magic_marks :: "nat \<Rightarrow> (nat \<Rightarrow> 32 word) \<Rightarrow> 32 word \<Rightarrow> nat \<Rightarrow> nat \<Rightarrow> bool" where
  "magic_marks pshift mem32 magic a obj \<longleftrightarrow> a mod 2 ^ pshift = 0 \<and> a \<le> obj \<and> mem32 a = magic \<and>
     (\<forall>k\<in>{1..(obj - a) div 2 ^ pshift}. mem32 (a + k * 2 ^ pshift) \<noteq> magic)"

lemma cache_free_on_slab:
  assumes "\<not> OFF_SLAB (c_flags (sc_desc sc))" "magic_marks pshift mem32 (c_slab_magic (sc_desc sc)) a obj"
  shows "bds_cache_free pshift mem32 obj sc = Some (exec_bind (free_one a obj sc) (\<lambda>sc'. Inr (0, sc')))"
proof -
  have a: "a mod 2 ^ pshift = 0" "a \<le> obj" using assms(2) by (simp_all add: magic_marks_def)
  have "find_slab_magic pshift mem32 (c_slab_magic (sc_desc sc)) (obj - obj mod 2 ^ pshift) = Inr a"
    using assms(2) unfolding page_start [OF a] by (intro find_slab_magic_back) (auto simp: magic_marks_def)
  then show ?thesis using assms(1) by (simp add: bds_cache_free_def)
qed

text \<open>
  C23: freeing an object that is in use takes exactly this object out of use and leaves
  the cache in order; with the descriptors off the slab the slab is found by the address
  ranges, with the descriptors on the slab by the magic number at the start of its
  first page.
\<close>

theorem slab_free_releases:
  assumes "cache_ok sc f" "sc_slabs sc a = Some d" "obj \<in> slab_objs (sc_desc sc) d"
    and "\<not> OFF_SLAB (c_flags (sc_desc sc)) \<longrightarrow> magic_marks pshift mem32 (c_slab_magic (sc_desc sc)) a obj"
  shows "\<exists>sc' f'. bds_cache_free pshift mem32 obj sc = Some (Inr (0, sc')) \<and> cache_ok sc' f' \<and>
    cache_objs sc' = cache_objs sc - {obj}"
proof -
  have "bds_cache_free pshift mem32 obj sc = Some (exec_bind (free_one a obj sc) (\<lambda>sc'. Inr (0, sc')))"
    using cache_free_off_slab [OF assms(1) _ assms(2, 3)] cache_free_on_slab [of sc pshift mem32 a obj] assms(4)
    by blast
  moreover obtain sc' f' where "free_one a obj sc = Inr sc'" "cache_ok sc' f'" "cache_objs sc' = cache_objs sc - {obj}"
    using free_one_ok [OF assms(1-3)] by blast
  ultimately show ?thesis by auto
qed

text \<open>The sample cache with one slab, whose first object is in use.\<close>

definition sample_slab :: slab_desc where
  "sample_slab = \<lparr>s_magic = 0xdeadbeef, s_colour_offset = 0, s_mem = 4096, s_free = 1, s_refcount = 1,
     s_bufctl = [1, 2]\<rparr>"

definition sample_used :: slab_cache where
  "sample_used = sample_cache\<lparr>sc_links := bds_list_add 100 1 (sc_links sample_cache),
     sc_slabs := [100 \<mapsto> sample_slab]\<rparr>"

lemma sample_slab_facts: "slab_ok 2 sample_slab" "in_use sample_slab = {0}"
proof -
  have fl: "free_list sample_slab = [1]" by (simp add: free_list_def sample_slab_def numeral_2_eq_2)
  then show "slab_ok 2 sample_slab" by (simp add: slab_ok_def) (simp add: sample_slab_def)
  show "in_use sample_slab = {0}" using fl by (simp add: in_use_def) (auto simp: sample_slab_def)
qed

lemma sample_used_ok: "cache_ok sample_used ((\<lambda>l. [])(Slabs_partial := [100]))"
proof -
  have "lists_in dlist (sc_head sample_cache) UNIV ((\<lambda>l. [])(Slabs_partial := 100 # []))
      (bds_list_add 100 (sc_head sample_cache Slabs_partial) (sc_links sample_cache))"
    using sample_cache_ok
    by (intro bds.lists_add) (auto simp: cache_ok_def sample_cache_def split: slab_list.splits)
  then have "lists_in dlist (sc_head sample_used) UNIV ((\<lambda>l. [])(Slabs_partial := [100])) (sc_links sample_used)"
    by (simp add: sample_used_def sample_cache_def)
  moreover have "s_mem sample_slab = 4096" "s_refcount sample_slab = 1" by (simp_all add: sample_slab_def)
  moreover have "c_num (sc_desc sample_used) = 2" "c_buffer_size (sc_desc sample_used) = 2048"
    by (simp_all add: sample_used_def sample_cache_def)
  moreover have "sc_slabs sample_used = [100 \<mapsto> sample_slab]" by (simp add: sample_used_def)
  ultimately show ?thesis
    using sample_slab_facts(1) by (auto simp: cache_ok_def split: if_splits)
qed

theorem slab_free_releases_witness:
  "\<exists>sc' f'. bds_cache_free 12 (\<lambda>_. 0) 4096 sample_used = Some (Inr (0, sc')) \<and> cache_ok sc' f' \<and>
     cache_objs sc' = cache_objs sample_used - {4096}"
proof (rule slab_free_releases [OF sample_used_ok])
  show "sc_slabs sample_used 100 = Some sample_slab" by (simp add: sample_used_def)
  show "4096 \<in> slab_objs (sc_desc sample_used) sample_slab"
    by (simp add: slab_objs_def sample_slab_facts(2)) (simp add: sample_slab_def)
  show "\<not> OFF_SLAB (c_flags (sc_desc sample_used)) \<longrightarrow>
      magic_marks 12 (\<lambda>_. 0) (c_slab_magic (sc_desc sample_used)) 100 4096"
    by (simp add: sample_used_def sample_cache_def CFLGS_OFF_SLAB_def bit_push_bit_iff)
qed

text \<open>
  with the descriptors off the slab, freeing an address that lies in no slab of the
  cache returns -1 and changes nothing.
\<close>

theorem slab_free_foreign:
  assumes "cache_ok sc f" "OFF_SLAB (c_flags (sc_desc sc))"
    and "\<forall>d\<in>ran (sc_slabs sc). obj \<notin> slab_range (sc_desc sc) d"
  shows "bds_cache_free pshift mem32 obj sc = Some (Inr (-1, sc))"
proof -
  let ?n = "c_num (sc_desc sc)" and ?bs = "c_buffer_size (sc_desc sc)"
  have n: "0 < ?n" "?n < 2 ^ 16" "0 < ?bs" using assms(1) by (simp_all add: cache_ok_def)
  have w: "w32 (int ?n - 1) = ?n - 1" using n(1, 2) by (simp add: nat_diff_distrib)
  have lt: "(?n - 1) * ?bs < ?n * ?bs" using n by simp
  have "\<not> object_in_slab obj sc b" for b
  proof (cases "sc_slabs sc b")
    case (Some e)
    then have "obj \<notin> slab_range (sc_desc sc) e" using assms(3) by (auto simp: ran_def)
    then have "\<not> (s_mem e \<le> obj \<and> obj \<le> s_mem e + (?n - 1) * ?bs)"
      using lt unfolding slab_range_def atLeastLessThan_iff by linarith
    then show ?thesis unfolding object_in_slab_def w Some by simp
  qed (simp add: object_in_slab_def)
  then have "List.find (object_in_slab obj sc) xs = None" for xs by (simp add: find_None_iff)
  then show ?thesis using assms(2) by (simp add: bds_cache_free_def find_object_list [OF assms(1)])
qed

theorem slab_free_foreign_witness: "bds_cache_free 12 (\<lambda>_. 0) 20 sample_used = Some (Inr (-1, sample_used))"
proof (rule slab_free_foreign [OF sample_used_ok])
  show "OFF_SLAB (c_flags (sc_desc sample_used))"
    by (simp add: sample_used_def sample_cache_def CFLGS_OFF_SLAB_def bit_push_bit_iff)
  show "\<forall>d\<in>ran (sc_slabs sample_used). 20 \<notin> slab_range (sc_desc sample_used) d"
    by (simp add: sample_used_def slab_range_def sample_slab_def)
qed

end
