(* ===== verification/Slab_Reclaim.thy ===== *)
theory Slab_Reclaim
  imports Slab_Free
begin

text \<open>
  Correctness of the garbage collector (\<^verbatim>\<open>__destroy_free_slabs\<close> and one round of
  \<^verbatim>\<open>bds_garbage_collect\<close>) and of \<^verbatim>\<open>bds_cache_destroy\<close> in \<^verbatim>\<open>common/src/bds_slab/bds_slab.c\<close>.
\<close>

section \<open>Giving a slab back\<close>

lemma reclaim_slab_fields [simp]:
  "sc_desc (reclaim_slab a d sc) = sc_desc sc" "sc_head (reclaim_slab a d sc) = sc_head sc"
  "sc_slabs (reclaim_slab a d sc) = (sc_slabs sc)(a := None)" "sc_links (reclaim_slab a d sc) = bds_list_del a (sc_links sc)"
  "sc_unmapped (reclaim_slab a d sc) = sc_unmapped sc @ [slab_pages (sc_desc sc) d]"
  "sc_freed (reclaim_slab a d sc) = (if OFF_SLAB (c_flags (sc_desc sc)) then sc_freed sc @ [a] else sc_freed sc)"
  by (simp_all add: reclaim_slab_def reclaim_free_pages_def Let_def)

text \<open>The pages of a slab are those that it has been set up with.\<close>

lemma new_slab_pages:
  assumes "setup_slab_desc node page sc = Inr sc'" "0 \<le> int page + c_colour_next (sc_desc sc)"
  shows "\<exists>d. sc_slabs sc' node = Some d \<and> slab_pages (sc_desc sc') d = (int page, 2 ^ c_page_order (sc_desc sc))"
  using assms by (auto simp: setup_slab_desc_def slab_pages_def Let_def split: if_splits)

lemma cache_ok_drop:
  assumes ok: "cache_ok sc f" and a: "f l = a # as"
  shows "cache_ok (reclaim_slab a d sc) (f(l := as))"
proof -
  have lists: "lists_in dlist (sc_head sc) UNIV f (sc_links sc)" using ok by (simp add: cache_ok_def)
  have mem: "a \<in> set (f l)" using a by simp
  have l': "lists_in dlist (sc_head sc) UNIV (f(l := as)) (bds_list_del a (sc_links sc))"
    using bds.lists_del [OF lists UNIV_I mem] a by simp
  have notin: "a \<notin> set as" using lists_distinct [OF lists, of l] a by simp
  have other: "a \<notin> set (f k)" if "k \<noteq> l" for k using list_membership [OF lists mem] that by blast
  have sub: "b \<in> set ((f(l := as)) k) \<longleftrightarrow> b \<noteq> a \<and> b \<in> set (f k)" for b k
    using notin other a by (cases "k = l") auto
  have dom: "dom ((sc_slabs sc)(a := None)) = (\<Union>k. set ((f(l := as)) k))"
    unfolding sub [abs_def] using ok sub by (auto simp: cache_ok_def)
  have slabs: "slab_ok (c_num (sc_desc sc)) d \<and> slab_class k (c_num (sc_desc sc)) (s_refcount d) \<and>
      s_mem d + c_num (sc_desc sc) * c_buffer_size (sc_desc sc) \<le> 2 ^ 64"
    if "b \<in> set ((f(l := as)) k)" "((sc_slabs sc)(a := None)) b = Some d" for b k d
  proof -
    have "b \<in> set (f k)" "sc_slabs sc b = Some d" using that sub by (auto split: if_splits)
    then show ?thesis using ok unfolding cache_ok_def by blast
  qed
  have disj: "slab_range (sc_desc sc) x \<inter> slab_range (sc_desc sc) y = {}"
    if "((sc_slabs sc)(a := None)) b = Some x" "((sc_slabs sc)(a := None)) c = Some y" "b \<noteq> c" for b c x y
  proof -
    have "sc_slabs sc b = Some x" "sc_slabs sc c = Some y" using that by (auto split: if_splits)
    then show ?thesis using ok that(3) unfolding cache_ok_def by blast
  qed
  show ?thesis
    using ok l' dom slabs disj unfolding cache_ok_def reclaim_slab_fields
    by simp
qed

lemma cache_objs_drop:
  assumes "sc_slabs sc a = Some d" "in_use d = {}"
  shows "cache_objs (reclaim_slab a d sc) = cache_objs sc"
proof -
  have "ran (sc_slabs sc) \<subseteq> insert d (ran ((sc_slabs sc)(a := None)))"
    using assms(1) by (auto simp: ran_def) (metis option.inject)
  moreover have "ran ((sc_slabs sc)(a := None)) \<subseteq> ran (sc_slabs sc)" by (auto simp: ran_def split: if_splits)
  moreover have "slab_objs (sc_desc sc) d = {}" using assms(2) by (simp add: slab_objs_def)
  ultimately show ?thesis unfolding cache_objs_def reclaim_slab_fields by blast
qed

lemma cache_ok_desc:
  assumes "cache_ok sc f" "c_num c = c_num (sc_desc sc)" "c_buffer_size c = c_buffer_size (sc_desc sc)"
  shows "cache_ok (sc\<lparr>sc_desc := c\<rparr>) f" "cache_objs (sc\<lparr>sc_desc := c\<rparr>) = cache_objs sc"
proof -
  have "slab_range c = slab_range (sc_desc sc)" "slab_objs c = slab_objs (sc_desc sc)"
    using assms(2, 3) by (simp_all add: slab_range_def slab_objs_def fun_eq_iff)
  then show "cache_ok (sc\<lparr>sc_desc := c\<rparr>) f" "cache_objs (sc\<lparr>sc_desc := c\<rparr>) = cache_objs sc"
    using assms by (simp_all add: cache_ok_def cache_objs_def)
qed

section \<open>The garbage collector\<close>

text \<open>
  The counter of all slabs agrees with the lists, and both counters are far from wrapping around.  Nothing is said about the counter of
  free slabs: \<^verbatim>\<open>bds_cache_alloc\<close> does not lower it when it takes a free slab.
\<close>

definition total_ok :: "slab_cache \<Rightarrow> (slab_list \<Rightarrow> addr list) \<Rightarrow> bool" where
  "total_ok sc f \<longleftrightarrow>
     c_total_slab_count (sc_desc sc) = int (length (f Slabs_partial) + length (f Slabs_full) + length (f Slabs_free)) \<and>
     0 \<le> c_free_slab_count (sc_desc sc) \<and> c_total_slab_count (sc_desc sc) * 100 < 2 ^ 32 \<and> c_free_slab_count (sc_desc sc) * 100 < 2 ^ 32"

text \<open>The number of slabs that the loop of the collector takes, going by the counters alone.\<close>

fun gc_takes :: "nat \<Rightarrow> nat \<Rightarrow> nat \<Rightarrow> nat \<Rightarrow> nat" where
  "gc_takes thr linger tot 0 = 0"
| "gc_takes thr linger tot (Suc free) =
     (if Suc free * 100 div tot < thr \<or> Suc free < linger then 0 else Suc (gc_takes thr linger (tot - 1) free))"

definition gc_starts :: "nat \<Rightarrow> cache_desc \<Rightarrow> bool" where
  "gc_starts thr c \<longleftrightarrow> w32 (int (thr * nat (c_total_slab_count c))) div 100 < nat (c_free_slab_count c)"

definition gc_slabs :: "nat \<Rightarrow> cache_desc \<Rightarrow> nat" where
  "gc_slabs thr c = (if gc_starts thr c then gc_takes thr (c_linger c) (nat (c_total_slab_count c)) (nat (c_free_slab_count c)) else 0)"

lemma gc_takes_bound: "1 < linger \<Longrightarrow> 0 < free \<Longrightarrow> gc_takes thr linger tot free < free"
proof (induction thr linger tot free rule: gc_takes.induct)
  case (2 thr linger tot free)
  show ?case
  proof (cases "free = 0")
    case False
    then show ?thesis using 2 by auto
  qed (use 2 in auto)
qed simp

lemma total_words:
  assumes "total_ok sc f"
  shows "w32 (c_total_slab_count (sc_desc sc)) = nat (c_total_slab_count (sc_desc sc))"
    "w32 (c_free_slab_count (sc_desc sc)) = nat (c_free_slab_count (sc_desc sc))"
    "w32 (int (nat (c_free_slab_count (sc_desc sc)) * 100)) = nat (c_free_slab_count (sc_desc sc)) * 100"
proof -
  have t: "0 \<le> c_total_slab_count (sc_desc sc)" "c_total_slab_count (sc_desc sc) < 2 ^ 32"
    "0 \<le> c_free_slab_count (sc_desc sc)" "c_free_slab_count (sc_desc sc) < 2 ^ 32"
    using assms by (auto simp: total_ok_def)
  show "w32 (c_total_slab_count (sc_desc sc)) = nat (c_total_slab_count (sc_desc sc))"
    "w32 (c_free_slab_count (sc_desc sc)) = nat (c_free_slab_count (sc_desc sc))"
    using t by (simp_all add: w32_def)
  have "int (nat (c_free_slab_count (sc_desc sc)) * 100) = c_free_slab_count (sc_desc sc) * 100" using t(3) by simp
  then show "w32 (int (nat (c_free_slab_count (sc_desc sc)) * 100)) = nat (c_free_slab_count (sc_desc sc)) * 100"
    using assms t(3) by (simp add: w32_def total_ok_def nat_mult_distrib)
qed

text \<open>What is left of a cache after the first \<open>k\<close> free slabs have been given back.\<close>

definition gave_back :: "nat \<Rightarrow> (slab_list \<Rightarrow> addr list) \<Rightarrow> slab_cache \<Rightarrow> slab_cache \<Rightarrow> bool" where
  "gave_back k f sc sc' \<longleftrightarrow>
     cache_ok sc' (f(Slabs_free := drop k (f Slabs_free))) \<and> total_ok sc' (f(Slabs_free := drop k (f Slabs_free))) \<and>
     cache_objs sc' = cache_objs sc \<and> c_free_slab_count (sc_desc sc') = c_free_slab_count (sc_desc sc) - int k \<and>
     sc_unmapped sc' = sc_unmapped sc @ map (\<lambda>a. slab_pages (sc_desc sc) (the (sc_slabs sc a))) (take k (f Slabs_free))"

lemma gc_empty:
  assumes "cache_ok sc f" "total_ok sc f" "0 < c_total_slab_count (sc_desc sc)" "f Slabs_free = []" "nat (c_free_slab_count (sc_desc sc)) = Suc free"
    "\<not> (Suc free * 100 div nat (c_total_slab_count (sc_desc sc)) < thr \<or> Suc free < c_linger (sc_desc sc))"
  shows "destroy_one_free_slab thr sc = Inl Bad_Access"
proof -
  have "nxt (sc_links sc) (sc_head sc Slabs_free) = sc_head sc Slabs_free"
    using lists_empty [OF assms(1), of Slabs_free] assms(4) by (simp add: list_empty_def)
  then show ?thesis
    using assms(3,6) unfolding destroy_one_free_slab_def Let_def total_words [OF assms(2)] unfolding assms(5) by simp
qed

lemma gc_step:
  assumes ok: "cache_ok sc f" and cnt: "total_ok sc f" and a: "f Slabs_free = a # as" and free: "nat (c_free_slab_count (sc_desc sc)) = Suc free"
    and go: "\<not> (Suc free * 100 div nat (c_total_slab_count (sc_desc sc)) < thr \<or> Suc free < c_linger (sc_desc sc))"
  shows "\<exists>sc'. destroy_one_free_slab thr sc = Inr (Some sc') \<and> gave_back 1 f sc sc' \<and> c_linger (sc_desc sc') = c_linger (sc_desc sc) \<and>
    slab_pages (sc_desc sc') = slab_pages (sc_desc sc) \<and> (\<forall>b \<in> set as. sc_slabs sc' b = sc_slabs sc b)"
proof -
  let ?c = "sc_desc sc"
  have mem: "a \<in> set (f Slabs_free)" using a by simp
  obtain d where d: "sc_slabs sc a = Some d" "slab_ok (c_num ?c) d" "slab_class Slabs_free (c_num ?c) (s_refcount d)"
    by (rule cache_ok_lookup [OF ok mem])
  have empty: "in_use d = {}" using card_in_use [OF d(2)] d(3) by (simp add: in_use_def)
  have dl: "dlist (sc_links sc) (sc_head sc Slabs_free) (a # as)" using cache_ok_dlist [OF ok, of Slabs_free] a by simp
  have first: "nxt (sc_links sc) (sc_head sc Slabs_free) = a" by (rule bds.first_rep [OF dl])
  have ne: "a \<noteq> sc_head sc Slabs_free" "a \<notin> set as" using dl by (auto simp: dlist_def)
  define c' where "c' = ?c\<lparr>c_total_slab_count := c_total_slab_count ?c - 1, c_free_slab_count := c_free_slab_count ?c - 1\<rparr>"
  define sc' where "sc' = (reclaim_slab a d sc)\<lparr>sc_desc := c'\<rparr>"
  have pos: "0 < nat (c_total_slab_count ?c)" "0 < c_free_slab_count ?c" using cnt a free by (simp_all add: total_ok_def)
  have "destroy_one_free_slab thr sc = Inr (Some sc')"
    using go first ne(1) d(1) pos(1)
    unfolding destroy_one_free_slab_def Let_def total_words [OF cnt] unfolding free by (simp add: sc'_def c'_def)
  moreover have "cache_ok sc' (f(Slabs_free := as))" "cache_objs sc' = cache_objs sc"
    using cache_ok_desc [of "reclaim_slab a d sc" _ c', OF cache_ok_drop [OF ok a]] cache_objs_drop [OF d(1) empty]
    by (simp_all add: sc'_def c'_def)
  moreover have "total_ok sc' (f(Slabs_free := as))" using cnt a pos(2) by (simp add: total_ok_def sc'_def c'_def)
  ultimately show ?thesis
    using a d(1) ne(2) by (intro exI [of _ sc'] conjI) (auto simp: gave_back_def sc'_def c'_def slab_pages_def fun_eq_iff)
qed

lemma gave_back_trans:
  assumes "gave_back 1 f sc sc1" "gave_back k (f(Slabs_free := drop 1 (f Slabs_free))) sc1 sc'" "f Slabs_free = a # as"
    "slab_pages (sc_desc sc1) = slab_pages (sc_desc sc)" "\<forall>b \<in> set as. sc_slabs sc1 b = sc_slabs sc b"
  shows "gave_back (Suc k) f sc sc'"
proof -
  have "map (\<lambda>b. slab_pages (sc_desc sc) (the (sc_slabs sc1 b))) (take k as) = map (\<lambda>b. slab_pages (sc_desc sc) (the (sc_slabs sc b))) (take k as)"
    using assms(5) by (auto dest: in_set_takeD)
  then show ?thesis using assms(1-4) by (simp add: gave_back_def)
qed

text \<open>The loop gives back as many slabs as the counters say, and crashes if the list has fewer or no slab is left to divide by.\<close>

lemma destroy_free_slabs_outcome:
  assumes "cache_ok sc f" "total_ok sc f" "0 < c_linger (sc_desc sc) \<or> 0 < thr" "nat (c_free_slab_count (sc_desc sc)) = free"
    "k = gc_takes thr (c_linger (sc_desc sc)) (nat (c_total_slab_count (sc_desc sc))) free"
  shows "if k \<le> length (f Slabs_free) \<and> int k < c_total_slab_count (sc_desc sc)
    then \<exists>sc'. destroy_free_slabs thr sc = Some (Inr sc') \<and> gave_back k f sc sc'
    else \<exists>e. destroy_free_slabs thr sc = Some (Inl e)"
  using assms
proof (induction free arbitrary: sc f k)
  case 0
  let ?t = "nat (c_total_slab_count (sc_desc sc))"
  have "destroy_one_free_slab thr sc = (if ?t = 0 then Inl Undefined else Inr None)"
    using 0(3) unfolding destroy_one_free_slab_def Let_def total_words [OF 0(2)] unfolding 0(4) by auto
  then have "destroy_free_slabs thr sc = (if ?t = 0 then Some (Inl Undefined) else Some (Inr sc))"
    by (subst destroy_free_slabs.simps) simp
  then show ?case using 0(1,2,5) by (auto simp: gave_back_def)
next
  case (Suc free)
  let ?t = "nat (c_total_slab_count (sc_desc sc))" and ?l = "c_linger (sc_desc sc)"
  let ?stop = "Suc free * 100 div ?t < thr \<or> Suc free < ?l"
  consider "?t = 0" | "?t \<noteq> 0" "?stop" | "?t \<noteq> 0" "\<not> ?stop" "f Slabs_free = []" | a as where "?t \<noteq> 0" "\<not> ?stop" "f Slabs_free = a # as"
    by (cases "f Slabs_free") auto
  then show ?case
  proof cases
    case 1
    then have "destroy_one_free_slab thr sc = Inl Undefined" using total_words(1) [OF Suc.prems(2)] by (simp add: destroy_one_free_slab_def)
    then have "destroy_free_slabs thr sc = Some (Inl Undefined)" by (subst destroy_free_slabs.simps) simp
    then show ?thesis using 1 by auto
  next
    case 2
    then have "destroy_one_free_slab thr sc = Inr None"
      unfolding destroy_one_free_slab_def Let_def total_words [OF Suc.prems(2)] unfolding Suc.prems(4) by auto
    then have "destroy_free_slabs thr sc = Some (Inr sc)" by (subst destroy_free_slabs.simps) simp
    moreover have "k = 0" using 2(2) Suc.prems(5) by simp
    ultimately show ?thesis using 2(1) Suc.prems(1,2) by (auto simp: gave_back_def)
  next
    case 3
    have "destroy_one_free_slab thr sc = Inl Bad_Access"
      using gc_empty [OF Suc.prems(1,2) _ 3(3) Suc.prems(4) 3(2)] 3(1) by simp
    then have "destroy_free_slabs thr sc = Some (Inl Bad_Access)" by (subst destroy_free_slabs.simps) simp
    moreover have "k \<noteq> 0" using 3(2) Suc.prems(5) by simp
    ultimately show ?thesis using 3(3) by auto
  next
    case 4
    obtain sc1 where s1: "destroy_one_free_slab thr sc = Inr (Some sc1)" "gave_back 1 f sc sc1" "c_linger (sc_desc sc1) = ?l"
      "slab_pages (sc_desc sc1) = slab_pages (sc_desc sc)" "\<forall>b \<in> set as. sc_slabs sc1 b = sc_slabs sc b"
      using gc_step [OF Suc.prems(1,2) 4(3) Suc.prems(4) 4(2)] by blast
    let ?f = "f(Slabs_free := drop 1 (f Slabs_free))"
    define k1 where "k1 = gc_takes thr (c_linger (sc_desc sc1)) (nat (c_total_slab_count (sc_desc sc1))) free"
    have "c_total_slab_count (sc_desc sc1) = c_total_slab_count (sc_desc sc) - 1" "c_free_slab_count (sc_desc sc1) = c_free_slab_count (sc_desc sc) - 1"
      using s1(2) Suc.prems(2) 4(3) by (simp_all add: gave_back_def total_ok_def)
    then have c1: "nat (c_free_slab_count (sc_desc sc1)) = free" "k = Suc k1" "c_total_slab_count (sc_desc sc1) = c_total_slab_count (sc_desc sc) - 1"
      using Suc.prems(4,5) 4(2) s1(3) nat_diff_distrib' [of "c_total_slab_count (sc_desc sc)" 1] 4(1) by (auto simp: k1_def)
    have "if k1 \<le> length (?f Slabs_free) \<and> int k1 < c_total_slab_count (sc_desc sc1)
      then \<exists>sc'. destroy_free_slabs thr sc1 = Some (Inr sc') \<and> gave_back k1 ?f sc1 sc'
      else \<exists>e. destroy_free_slabs thr sc1 = Some (Inl e)"
      using Suc.IH [of sc1 ?f, OF _ _ _ c1(1) k1_def] s1(2,3) Suc.prems(3) unfolding gave_back_def by metis
    moreover have "destroy_free_slabs thr sc = destroy_free_slabs thr sc1" using s1(1) by (subst destroy_free_slabs.simps) simp
    moreover have "k1 \<le> length (?f Slabs_free) \<and> int k1 < c_total_slab_count (sc_desc sc1) \<longleftrightarrow>
        k \<le> length (f Slabs_free) \<and> int k < c_total_slab_count (sc_desc sc)"
      using c1(2,3) 4(3) by auto
    ultimately show ?thesis using gave_back_trans [OF s1(2) _ 4(3) s1(4,5)] unfolding c1(2) by (auto split: if_splits)
  qed
qed

text \<open>
  C32: what a round of the garbage collector does to a cache in order, whose counter of slabs is right, where \<^verbatim>\<open>linger\<close> or the threshold is
  not 0.  It takes the number of slabs that follows from the counters.  If the list of free slabs has so many and another slab is
  left, the round returns; the first free slabs have been given back, their pages have been unmapped, and no object in use is lost.
  Otherwise the round crashes, on the empty list or dividing by 0.  It returns if the counter of free slabs is right
  and \<^verbatim>\<open>linger\<close> is at least 2 (\<^verbatim>\<open>bds_cache_create\<close> sets it to 8).
\<close>

theorem slab_gc_outcome:
  assumes "cache_ok sc f" "total_ok sc f" "0 < c_linger (sc_desc sc) \<or> 0 < thr"
  shows "let c = sc_desc sc; k = gc_slabs thr c; n = length (f Slabs_free); fits = (\<not> gc_starts thr c \<or> k \<le> n \<and> int k < c_total_slab_count c) in
    (if fits then \<exists>sc'. garbage_collect_one thr sc = Some (Inr sc') \<and> gave_back k f sc sc'
     else \<exists>e. garbage_collect_one thr sc = Some (Inl e)) \<and>
    (c_free_slab_count c = int n \<and> 1 < c_linger c \<longrightarrow> fits)"
proof -
  let ?c = "sc_desc sc"
  have starts: "garbage_collect_one thr sc = (if gc_starts thr ?c then destroy_free_slabs thr sc else Some (Inr sc))"
    by (simp add: garbage_collect_one_def gc_starts_def Let_def total_words [OF assms(2)])
  have "\<not> gc_starts thr ?c \<Longrightarrow> gave_back (gc_slabs thr ?c) f sc sc" using assms(1,2) by (simp add: gave_back_def gc_slabs_def)
  moreover have "gc_slabs thr ?c \<le> length (f Slabs_free) \<and> int (gc_slabs thr ?c) < c_total_slab_count ?c"
    if "c_free_slab_count ?c = int (length (f Slabs_free))" "1 < c_linger ?c" "gc_starts thr ?c"
  proof -
    have "0 < length (f Slabs_free)" using that(1,3) by (auto simp: gc_starts_def)
    then have "gc_slabs thr ?c < length (f Slabs_free)" using gc_takes_bound [OF that(2)] that(1,3) by (simp add: gc_slabs_def)
    then show ?thesis using assms(2) by (simp add: total_ok_def)
  qed
  ultimately show ?thesis
    using destroy_free_slabs_outcome [OF assms refl refl] starts by (auto simp: Let_def gc_slabs_def)
qed

text \<open>A cache with two free slabs, and a reserve of two.\<close>

definition sample_free :: slab_cache where
  "sample_free = sample_cache\<lparr>sc_desc := (sc_desc sample_cache)\<lparr>c_total_slab_count := 2, c_free_slab_count := 2, c_linger := 2\<rparr>,
     sc_links := bds_list_add 100 3 (bds_list_add 200 3 (sc_links sample_cache)),
     sc_slabs := [100 \<mapsto> sample_slab\<lparr>s_free := 0, s_refcount := 0\<rparr>, 200 \<mapsto> sample_slab\<lparr>s_mem := 8192, s_free := 0, s_refcount := 0\<rparr>]\<rparr>"

lemma sample_free_ok:
  "cache_ok sample_free ((\<lambda>l. [])(Slabs_free := [100, 200]))" "total_ok sample_free ((\<lambda>l. [])(Slabs_free := [100, 200]))"
proof -
  let ?f = "(\<lambda>l. [])(Slabs_free := [200])" and ?g = "(\<lambda>l. [])(Slabs_free := [100, 200])"
  have h: "sc_head sample_cache Slabs_free = 3" by (simp add: sample_cache_def)
  have one: "lists_in dlist (sc_head sample_cache) UNIV ?f (bds_list_add 200 (sc_head sample_cache Slabs_free) (sc_links sample_cache))"
    using bds.lists_add [of "sc_head sample_cache" UNIV "\<lambda>l. []" "sc_links sample_cache" Slabs_free 200] sample_cache_ok
    by (auto simp: cache_ok_def sample_cache_def split: slab_list.splits)
  have "lists_in dlist (sc_head sample_cache) UNIV (?f(Slabs_free := 100 # ?f Slabs_free))
      (bds_list_add 100 (sc_head sample_cache Slabs_free) (bds_list_add 200 (sc_head sample_cache Slabs_free) (sc_links sample_cache)))"
    by (rule bds.lists_add [OF one UNIV_I]) (auto simp: sample_cache_def split: slab_list.splits if_splits)
  then have lists: "lists_in dlist (sc_head sample_free) UNIV ?g (sc_links sample_free)"
    by (simp add: sample_free_def h)
  have slab: "slab_ok 2 (sample_slab\<lparr>s_mem := x, s_free := 0, s_refcount := 0\<rparr>)" for x
    by (simp add: slab_ok_def free_list_def sample_slab_def numeral_2_eq_2)
  have "sample_slab\<lparr>s_free := 0, s_refcount := 0\<rparr> = sample_slab\<lparr>s_mem := 4096, s_free := 0, s_refcount := 0\<rparr>" by (simp add: sample_slab_def)
  then have slabs: "sc_slabs sample_free = [100 \<mapsto> sample_slab\<lparr>s_mem := 4096, s_free := 0, s_refcount := 0\<rparr>,
      200 \<mapsto> sample_slab\<lparr>s_mem := 8192, s_free := 0, s_refcount := 0\<rparr>]"
    by (simp add: sample_free_def)
  have "c_num (sc_desc sample_free) = 2" "c_buffer_size (sc_desc sample_free) = 2048" by (simp_all add: sample_free_def sample_cache_def)
  then show "cache_ok sample_free ?g"
    using lists slab slabs by (auto simp: cache_ok_def slab_range_def split: if_splits)
  show "total_ok sample_free ?g" by (simp add: total_ok_def sample_free_def)
qed

theorem slab_gc_outcome_witness:
  "\<exists>sc'. garbage_collect_one 25 sample_free = Some (Inr sc') \<and> cache_ok sc' ((\<lambda>l. [])(Slabs_free := [200])) \<and>
     sc_unmapped sc' = [(4096, 1)] \<and> cache_objs sc' = cache_objs sample_free"
proof -
  have c: "c_linger (sc_desc sample_free) = 2" "c_total_slab_count (sc_desc sample_free) = 2" "c_free_slab_count (sc_desc sample_free) = 2"
    by (simp_all add: sample_free_def)
  have "gc_takes 25 2 2 (Suc (Suc 0)) = 1" by simp
  then have "gc_takes 25 2 2 2 = 1" by (simp only: numeral_2_eq_2)
  then have "gc_slabs 25 (sc_desc sample_free) = 1" by (simp add: gc_slabs_def gc_starts_def w32_def c)
  then obtain sc' where "garbage_collect_one 25 sample_free = Some (Inr sc')" "gave_back 1 ((\<lambda>l. [])(Slabs_free := [100, 200])) sample_free sc'"
    using slab_gc_outcome [OF sample_free_ok, of 25] c by (auto simp: Let_def)
  moreover have "slab_pages (sc_desc sample_free) (the (sc_slabs sample_free 100)) = (4096, 1)" "sc_unmapped sample_free = []"
    by (simp_all add: sample_free_def sample_cache_def sample_slab_def slab_pages_def CFLGS_OFF_SLAB_def bit_push_bit_iff)
  ultimately show ?thesis by (intro exI [of _ sc']) (auto simp: gave_back_def)
qed

section \<open>Destroying a cache\<close>

text \<open>The pages of the slabs of a list.\<close>

definition pages_of :: "slab_cache \<Rightarrow> addr list \<Rightarrow> (int \<times> nat) list" where
  "pages_of sc as = map (\<lambda>a. slab_pages (sc_desc sc) (the (sc_slabs sc a))) as"

lemma pages_of_cong:
  assumes "sc_desc sc' = sc_desc sc" "\<forall>a \<in> set as. sc_slabs sc' a = sc_slabs sc a"
  shows "pages_of sc' as = pages_of sc as"
  using assms by (simp add: pages_of_def)

lemma destroy_slab_list_ok:
  assumes "cache_ok sc f"
  shows "\<exists>sc'. destroy_slab_list l sc = Some (Inr sc') \<and> cache_ok sc' (f(l := [])) \<and> sc_desc sc' = sc_desc sc \<and>
    sc_unmapped sc' = sc_unmapped sc @ pages_of sc (f l) \<and> (\<forall>a. a \<notin> set (f l) \<longrightarrow> sc_slabs sc' a = sc_slabs sc a)"
  using assms
proof (induction "f l" arbitrary: sc f)
  case Nil
  then have "f(l := []) = f" by (simp add: fun_upd_idem)
  moreover have "destroy_slab_list l sc = Some (Inr sc)"
    using lists_empty [OF Nil.prems, of l] Nil.hyps by (subst destroy_slab_list.simps) (simp add: Let_def)
  ultimately show ?case using Nil.prems Nil.hyps by (auto simp: pages_of_def)
next
  case (Cons a as)
  have f: "f l = a # as" using Cons.hyps(2) by simp
  have mem: "a \<in> set (f l)" using f by simp
  obtain d where d: "sc_slabs sc a = Some d" by (rule cache_ok_lookup [OF Cons.prems mem])
  have dl: "dlist (sc_links sc) (sc_head sc l) (a # as)" using cache_ok_dlist [OF Cons.prems, of l] f by simp
  then have new: "a \<notin> set as" by (simp add: dlist_def)
  have step: "destroy_slab_list l sc = destroy_slab_list l (reclaim_slab a d sc)"
    using lists_empty [OF Cons.prems, of l] f bds.first_rep [OF dl] d
    by (subst destroy_slab_list.simps) (simp add: Let_def)
  obtain sc' where sc': "destroy_slab_list l (reclaim_slab a d sc) = Some (Inr sc')" "cache_ok sc' ((f(l := as))(l := []))"
    "sc_desc sc' = sc_desc sc" "sc_unmapped sc' = sc_unmapped (reclaim_slab a d sc) @ pages_of (reclaim_slab a d sc) as"
    "\<forall>b. b \<notin> set as \<longrightarrow> sc_slabs sc' b = sc_slabs (reclaim_slab a d sc) b"
    using Cons.hyps(1) [OF _ cache_ok_drop [OF Cons.prems f]] by auto
  have "pages_of (reclaim_slab a d sc) as = pages_of sc as" by (rule pages_of_cong) (use new in auto)
  moreover have "pages_of sc (f l) = slab_pages (sc_desc sc) d # pages_of sc as" using f d by (simp add: pages_of_def)
  ultimately show ?case using step sc' f by (intro exI [of _ sc']) simp
qed

text \<open>
  C33: \<^verbatim>\<open>bds_cache_destroy\<close> with force, or with no object in use, ends, and every slab of the
  cache has been given back and its pages unmapped; without force a cache with objects in use is left alone.
\<close>

theorem slab_destroy_frees_all:
  assumes "cache_ok sc f"
  shows "(force \<or> c_refcount (sc_desc sc) \<le> 0 \<longrightarrow>
      (\<exists>sc'. bds_cache_destroy force sc = Some (Inr sc') \<and> cache_ok sc' (\<lambda>l. []) \<and> sc_slabs sc' = Map.empty \<and>
         sc_unmapped sc' = sc_unmapped sc @ pages_of sc (f Slabs_free @ f Slabs_partial @ f Slabs_full))) \<and>
    (\<not> force \<and> c_refcount (sc_desc sc) > 0 \<longrightarrow> bds_cache_destroy force sc = Some (Inr sc))"
proof (intro conjI impI)
  assume go: "force \<or> c_refcount (sc_desc sc) \<le> 0"
  have lists: "lists_in dlist (sc_head sc) UNIV f (sc_links sc)" using assms by (simp add: cache_ok_def)
  have disj: "a \<notin> set (f k)" if "a \<in> set (f l)" "k \<noteq> l" for a k l using list_membership [OF lists that(1)] that(2) by blast
  obtain sc1 where s1: "destroy_slab_list Slabs_free sc = Some (Inr sc1)" "cache_ok sc1 (f(Slabs_free := []))" "sc_desc sc1 = sc_desc sc"
    "sc_unmapped sc1 = sc_unmapped sc @ pages_of sc (f Slabs_free)" "\<forall>a. a \<notin> set (f Slabs_free) \<longrightarrow> sc_slabs sc1 a = sc_slabs sc a"
    using destroy_slab_list_ok [OF assms] by blast
  obtain sc2 where s2: "destroy_slab_list Slabs_partial sc1 = Some (Inr sc2)" "cache_ok sc2 (f(Slabs_free := [], Slabs_partial := []))"
    "sc_desc sc2 = sc_desc sc" "sc_unmapped sc2 = sc_unmapped sc1 @ pages_of sc1 (f Slabs_partial)"
    "\<forall>a. a \<notin> set (f Slabs_partial) \<longrightarrow> sc_slabs sc2 a = sc_slabs sc1 a"
    using destroy_slab_list_ok [OF s1(2), of Slabs_partial] s1(3) by auto
  obtain sc3 where s3: "destroy_slab_list Slabs_full sc2 = Some (Inr sc3)"
    "cache_ok sc3 (f(Slabs_free := [], Slabs_partial := [], Slabs_full := []))" "sc_unmapped sc3 = sc_unmapped sc2 @ pages_of sc2 (f Slabs_full)"
    using destroy_slab_list_ok [OF s2(2), of Slabs_full] by auto
  have "pages_of sc1 (f Slabs_partial) = pages_of sc (f Slabs_partial)"
    by (rule pages_of_cong [OF s1(3)]) (use s1(5) disj in blast)
  moreover have "pages_of sc2 (f Slabs_full) = pages_of sc (f Slabs_full)"
    by (rule pages_of_cong [OF s2(3)]) (use s1(5) s2(5) disj [of _ Slabs_full] in auto)
  ultimately have "sc_unmapped sc3 = sc_unmapped sc @ pages_of sc (f Slabs_free @ f Slabs_partial @ f Slabs_full)"
    using s1(4) s2(4) s3(3) by (simp add: pages_of_def)
  moreover have "f(Slabs_free := [], Slabs_partial := [], Slabs_full := []) = (\<lambda>l. [])"
  proof
    fix l show "(f(Slabs_free := [], Slabs_partial := [], Slabs_full := [])) l = []" by (cases l) simp_all
  qed
  then have "cache_ok sc3 (\<lambda>l. [])" using s3(2) by simp
  moreover from this have "sc_slabs sc3 = Map.empty" by (simp add: cache_ok_def)
  moreover have "bds_cache_destroy force sc = Some (Inr sc3)"
    using go s1(1) s2(1) s3(1) by (auto simp: bds_cache_destroy_def)
  ultimately show "\<exists>sc'. bds_cache_destroy force sc = Some (Inr sc') \<and> cache_ok sc' (\<lambda>l. []) \<and> sc_slabs sc' = Map.empty \<and>
      sc_unmapped sc' = sc_unmapped sc @ pages_of sc (f Slabs_free @ f Slabs_partial @ f Slabs_full)"
    by blast
qed (simp add: bds_cache_destroy_def)

theorem slab_destroy_frees_all_witness:
  "\<exists>sc'. bds_cache_destroy True sample_used = Some (Inr sc') \<and> cache_ok sc' (\<lambda>l. []) \<and> sc_slabs sc' = Map.empty"
  using slab_destroy_frees_all [OF sample_used_ok, of True] by blast

end
