(* ===== verification/Cli_Serdes.thy ===== *)
theory Cli_Serdes
  imports SFS_Prelude
begin

text \<open>
  The wire format of the command line interface: the macros and structures of
  \<^verbatim>\<open>cli/include/sfscli.h\<close> and the four pairs of functions of \<^verbatim>\<open>cli/src/sfscli_serdes.c\<close>.
  Numbers are held as 64-bit words together with the width of their C type; a left
  shift of an \<^verbatim>\<open>int\<close> by 32 or more, which C leaves undefined, is whatever the parameter
  \<open>shl\<close> returns.  Character arrays are lists of bytes of their declared length.  Reading
  behind the end of the message and writing behind the end of an array are \<open>Bad_Access\<close>.
  Memory from \<^verbatim>\<open>malloc\<close> has unspecified contents, the parameter \<open>junk\<close>.
\<close>

unbundle bit_operations_syntax

type_synonym byte = "8 word"
type_synonym shifter = "32 word \<Rightarrow> nat \<Rightarrow> 32 word"

definition SFSCLI_MAGIC :: "64 word" where "SFSCLI_MAGIC = 0xdeadbeef"

section \<open>Structures\<close>

record attribute =
  at_ver :: "64 word"
  a_quota :: "64 word"
  a_qoslevel :: "64 word"
  a_ishidden :: "64 word"
  a_numreplicas :: "64 word"
  a_enable_dr :: "64 word"

record policy_input =
  pi_uid :: "64 word"
  pi_gid :: "64 word"
  pi_policy_tag :: "byte list list"
  pi_ftype :: "byte list"
  pi_fname :: "byte list"
  pi_num_policy :: "64 word"
  pi_attr :: attribute

text \<open>
  \<^verbatim>\<open>ipv4_address\<close> and \<^verbatim>\<open>ipv6_address\<close> share their memory, 40 bytes, so that the two branches on
  \<^verbatim>\<open>protocol\<close> in the functions below do the same.
\<close>

record sstack_address =
  ad_protocol :: "64 word"
  ad_address :: "byte list"

record storage_input =
  si_address :: sstack_address
  si_rpath :: "byte list"
  si_access_protocol :: "64 word"
  si_type :: "64 word"
  si_size :: "64 word"

record sfsd_input =
  sd_address :: sstack_address
  sd_port :: "64 word"

record license_input =
  license_path :: "byte list"

text \<open>
  \<^verbatim>\<open>struct sfscli_cli_cmd\<close> with \<^verbatim>\<open>struct sfscli_xxx_input\<close> folded in: the command, the member
  of the first union, and the member of the second union that the functions at hand use.
\<close>

record 'i sfscli_cli_cmd =
  cc_cmd :: "64 word"
  cc_sub_cmd :: "64 word"
  cc_input :: 'i

section \<open>Writing\<close>

definition ser_byte :: "shifter \<Rightarrow> 64 word \<Rightarrow> nat \<Rightarrow> byte" where
  "ser_byte shl val i = (let shift = 8 * i in ucast (drop_bit shift (val AND scast (shl 0xFF shift))))"

definition sfscli_ser_uint :: "shifter \<Rightarrow> 64 word \<Rightarrow> nat \<Rightarrow> byte list" where
  "sfscli_ser_uint shl val num_bytes = map (ser_byte shl val) [0..<num_bytes]"

text \<open>A number of \<open>n\<close> bytes.\<close>

definition sfscli_ser_nfield :: "shifter \<Rightarrow> nat \<Rightarrow> 64 word \<Rightarrow> byte list" where
  "sfscli_ser_nfield shl n field = sfscli_ser_uint shl (of_nat n) 2 @ sfscli_ser_uint shl field n"

definition c_strlen :: "byte list \<Rightarrow> nat exec" where
  "c_strlen field = (if 0 \<in> set field then Inr (length (takeWhile (\<lambda>b. b \<noteq> 0) field)) else Inl Bad_Access)"

definition sfscli_ser_sfield :: "shifter \<Rightarrow> byte list \<Rightarrow> byte list exec" where
  "sfscli_ser_sfield shl field =
     exec_bind (c_strlen field) (\<lambda>n.
     let size = n mod 2 ^ 16 in
     Inr (sfscli_ser_uint shl (of_nat size) 2 @ take size field))"

definition ser_address :: "shifter \<Rightarrow> sstack_address \<Rightarrow> byte list exec" where
  "ser_address shl a = sfscli_ser_sfield shl (ad_address a)"

text \<open>
  The serialisers return the number of bytes and the buffer.  \<open>mem\<close> says whether the
  allocation succeeds.
\<close>

definition sfscli_serialize_policy ::
  "shifter \<Rightarrow> bool \<Rightarrow> policy_input sfscli_cli_cmd \<Rightarrow> (int \<times> byte list option) exec" where
  "sfscli_serialize_policy shl mem cli_cmd =
     (let inp = cc_input cli_cmd; attr = pi_attr inp; num = sfscli_ser_nfield shl in
      if \<not> mem then Inr (-ENOMEM, None)
      else
        exec_bind (if pi_policy_tag inp = [] then Inl Bad_Access else sfscli_ser_sfield shl (hd (pi_policy_tag inp))) (\<lambda>tag.
        exec_bind (sfscli_ser_sfield shl (pi_fname inp)) (\<lambda>fname.
        exec_bind (sfscli_ser_sfield shl (pi_ftype inp)) (\<lambda>ftype.
        let buf = sfscli_ser_uint shl SFSCLI_MAGIC 4 @ num 4 (cc_cmd cli_cmd) @ num 4 (pi_uid inp) @
              num 4 (pi_gid inp) @ tag @ fname @ ftype @ num 8 (pi_num_policy inp) @ num 4 (at_ver attr) @
              num 4 (a_quota attr) @ num 1 (a_qoslevel attr) @ num 1 (a_ishidden attr) @
              num 1 (a_numreplicas attr) @ num 1 (a_enable_dr attr)
        in Inr (int (length buf), Some buf)))))"

definition sfscli_serialize_storage ::
  "shifter \<Rightarrow> bool \<Rightarrow> storage_input sfscli_cli_cmd \<Rightarrow> (int \<times> byte list option) exec" where
  "sfscli_serialize_storage shl mem cli_cmd =
     (let inp = cc_input cli_cmd; num = sfscli_ser_nfield shl in
      if \<not> mem then Inr (-ENOMEM, None)
      else
        exec_bind (ser_address shl (si_address inp)) (\<lambda>addr.
        exec_bind (sfscli_ser_sfield shl (si_rpath inp)) (\<lambda>rpath.
        let buf = sfscli_ser_uint shl SFSCLI_MAGIC 4 @ num 4 (cc_cmd cli_cmd) @ num 4 (cc_sub_cmd cli_cmd) @
              num 4 (ad_protocol (si_address inp)) @ addr @ rpath @ num 4 (si_access_protocol inp) @
              num 4 (si_type inp) @ num 8 (si_size inp)
        in Inr (int (length buf), Some buf))))"

definition sfscli_serialize_sfsd ::
  "shifter \<Rightarrow> bool \<Rightarrow> sfsd_input sfscli_cli_cmd \<Rightarrow> (int \<times> byte list option) exec" where
  "sfscli_serialize_sfsd shl mem cli_cmd =
     (let inp = cc_input cli_cmd; num = sfscli_ser_nfield shl in
      if \<not> mem then Inr (-ENOMEM, None)
      else
        exec_bind (ser_address shl (sd_address inp)) (\<lambda>addr.
        let buf = sfscli_ser_uint shl SFSCLI_MAGIC 4 @ num 4 (cc_cmd cli_cmd) @ num 4 (cc_sub_cmd cli_cmd) @
              num 4 (ad_protocol (sd_address inp)) @ addr @ num 2 (sd_port inp)
        in Inr (int (length buf), Some buf)))"

text \<open>The license serialiser never stores the buffer through its output parameter.\<close>

definition sfscli_serialize_license ::
  "shifter \<Rightarrow> bool \<Rightarrow> license_input sfscli_cli_cmd \<Rightarrow> (int \<times> byte list option) exec" where
  "sfscli_serialize_license shl mem cli_cmd =
     (if \<not> mem then Inr (-ENOMEM, None)
      else
        exec_bind (sfscli_ser_sfield shl (license_path (cc_input cli_cmd))) (\<lambda>path.
        let buf = sfscli_ser_uint shl SFSCLI_MAGIC 4 @ sfscli_ser_nfield shl 4 (cc_cmd cli_cmd) @ path
        in Inr (int (length buf), None)))"

section \<open>Reading\<close>

text \<open>
  \<^verbatim>\<open>val |= buffer[i] << shifter\<close> for the bytes from number \<open>i\<close> on; \<open>w\<close> is the number of bits
  of the type of \<^verbatim>\<open>val\<close>.
\<close>

fun sfscli_deser_uint :: "shifter \<Rightarrow> nat \<Rightarrow> 64 word \<Rightarrow> nat \<Rightarrow> byte list \<Rightarrow> 64 word" where
  "sfscli_deser_uint shl w val i [] = val"
| "sfscli_deser_uint shl w val i (b # bs) =
     sfscli_deser_uint shl w (take_bit w (val OR scast (shl (ucast b) (8 * i)))) (Suc i) bs"

text \<open>The two bytes of the length, and the message behind them.\<close>

definition deser_size :: "shifter \<Rightarrow> byte list \<Rightarrow> (nat \<times> byte list) exec" where
  "deser_size shl buffer =
     (if length buffer < 2 then Inl Bad_Access
      else
        let size = unat (sfscli_deser_uint shl 16 0 0 (take 2 buffer)) in
        if length (drop 2 buffer) < size then Inl Bad_Access else Inr (size, drop 2 buffer))"

definition sfscli_deser_nfield :: "shifter \<Rightarrow> nat \<Rightarrow> 64 word \<Rightarrow> byte list \<Rightarrow> (64 word \<times> byte list) exec" where
  "sfscli_deser_nfield shl w field buffer =
     exec_bind (deser_size shl buffer) (\<lambda>(size, rest).
     Inr (sfscli_deser_uint shl w field 0 (take size rest), drop size rest))"

definition sfscli_deser_sfield :: "shifter \<Rightarrow> byte list \<Rightarrow> byte list \<Rightarrow> (byte list \<times> byte list) exec" where
  "sfscli_deser_sfield shl field buffer =
     exec_bind (deser_size shl buffer) (\<lambda>(size, rest).
     if size > length field then Inl Bad_Access
     else Inr (take size rest @ drop size field, drop size rest))"

definition deser_magic :: "shifter \<Rightarrow> byte list \<Rightarrow> bool exec" where
  "deser_magic shl buffer =
     (if length buffer < 4 then Inl Bad_Access
      else Inr (sfscli_deser_uint shl 32 0 0 (take 4 buffer) = SFSCLI_MAGIC))"

definition sfscli_deserialize_policy ::
  "shifter \<Rightarrow> policy_input sfscli_cli_cmd option \<Rightarrow> byte list \<Rightarrow> (int \<times> policy_input sfscli_cli_cmd option) exec" where
  "sfscli_deserialize_policy shl mem buffer =
     exec_bind (deser_magic shl buffer) (\<lambda>ok.
     if \<not> ok then Inr (-EINVAL, None)
     else case mem of None \<Rightarrow> Inr (-ENOMEM, None) | Some cmd \<Rightarrow>
       let inp = cc_input cmd; attr = pi_attr inp; num = sfscli_deser_nfield shl; str = sfscli_deser_sfield shl in
       exec_bind (num 32 (cc_cmd cmd) (drop 4 buffer)) (\<lambda>(c, p).
       exec_bind (num 32 0 p) (\<lambda>(uid, p).
       exec_bind (num 32 (pi_gid inp) p) (\<lambda>(gid, p).
       exec_bind (if pi_policy_tag inp = [] then Inl Bad_Access else str (hd (pi_policy_tag inp)) p) (\<lambda>(tag, p).
       exec_bind (str (pi_fname inp) p) (\<lambda>(fname, p).
       exec_bind (str (pi_ftype inp) p) (\<lambda>(ftype, p).
       exec_bind (num 64 (pi_num_policy inp) p) (\<lambda>(np, p).
       exec_bind (num 32 (at_ver attr) p) (\<lambda>(ver, p).
       exec_bind (num 32 (a_quota attr) p) (\<lambda>(quota, p).
       exec_bind (num 8 (a_qoslevel attr) p) (\<lambda>(qos, p).
       exec_bind (num 8 (a_ishidden attr) p) (\<lambda>(hid, p).
       exec_bind (num 8 (a_numreplicas attr) p) (\<lambda>(nrep, p).
       exec_bind (num 8 (a_enable_dr attr) p) (\<lambda>(dr, p).
       let attr = \<lparr>at_ver = ver, a_quota = quota, a_qoslevel = qos, a_ishidden = hid,
                   a_numreplicas = nrep, a_enable_dr = dr\<rparr>;
           inp = inp\<lparr>pi_uid := uid, pi_gid := gid, pi_policy_tag := tag # tl (pi_policy_tag inp),
                     pi_fname := fname, pi_ftype := ftype, pi_num_policy := np, pi_attr := attr\<rparr>
       in Inr (0, Some (cmd\<lparr>cc_cmd := c, cc_input := inp\<rparr>))))))))))))))))"

definition deser_address ::
  "shifter \<Rightarrow> sstack_address \<Rightarrow> byte list \<Rightarrow> (sstack_address \<times> byte list) exec" where
  "deser_address shl a p =
     exec_bind (sfscli_deser_nfield shl 32 (ad_protocol a) p) (\<lambda>(proto, p).
     exec_bind (sfscli_deser_sfield shl (ad_address a) p) (\<lambda>(addr, p).
     Inr (\<lparr>ad_protocol = proto, ad_address = addr\<rparr>, p)))"

definition sfscli_deserialize_storage ::
  "shifter \<Rightarrow> storage_input sfscli_cli_cmd option \<Rightarrow> byte list \<Rightarrow> (int \<times> storage_input sfscli_cli_cmd option) exec" where
  "sfscli_deserialize_storage shl mem buffer =
     exec_bind (deser_magic shl buffer) (\<lambda>ok.
     if \<not> ok then Inr (-EINVAL, None)
     else case mem of None \<Rightarrow> Inr (-ENOMEM, None) | Some cmd \<Rightarrow>
       let inp = cc_input cmd; num = sfscli_deser_nfield shl in
       exec_bind (num 32 (cc_cmd cmd) (drop 4 buffer)) (\<lambda>(c, p).
       exec_bind (num 32 (cc_sub_cmd cmd) p) (\<lambda>(sub, p).
       exec_bind (deser_address shl (si_address inp) p) (\<lambda>(addr, p).
       exec_bind (sfscli_deser_sfield shl (si_rpath inp) p) (\<lambda>(rpath, p).
       exec_bind (num 32 (si_access_protocol inp) p) (\<lambda>(proto, p).
       exec_bind (num 32 (si_type inp) p) (\<lambda>(typ, p).
       exec_bind (num 64 (si_size inp) p) (\<lambda>(size, p).
       Inr (0, Some (cmd\<lparr>cc_cmd := c, cc_sub_cmd := sub,
         cc_input := \<lparr>si_address = addr, si_rpath = rpath, si_access_protocol = proto, si_type = typ,
                      si_size = size\<rparr>\<rparr>))))))))))"

definition sfscli_deserialize_sfsd ::
  "shifter \<Rightarrow> sfsd_input sfscli_cli_cmd option \<Rightarrow> byte list \<Rightarrow> (int \<times> sfsd_input sfscli_cli_cmd option) exec" where
  "sfscli_deserialize_sfsd shl mem buffer =
     exec_bind (deser_magic shl buffer) (\<lambda>ok.
     if \<not> ok then Inr (-EINVAL, None)
     else case mem of None \<Rightarrow> Inr (-ENOMEM, None) | Some cmd \<Rightarrow>
       let inp = cc_input cmd; num = sfscli_deser_nfield shl in
       exec_bind (num 32 (cc_cmd cmd) (drop 4 buffer)) (\<lambda>(c, p).
       exec_bind (num 32 (cc_sub_cmd cmd) p) (\<lambda>(sub, p).
       exec_bind (deser_address shl (sd_address inp) p) (\<lambda>(addr, p).
       exec_bind (num 16 (sd_port inp) p) (\<lambda>(port, p).
       Inr (0, Some (cmd\<lparr>cc_cmd := c, cc_sub_cmd := sub,
         cc_input := \<lparr>sd_address = addr, sd_port = port\<rparr>\<rparr>)))))))"

definition sfscli_deserialize_license ::
  "shifter \<Rightarrow> license_input sfscli_cli_cmd option \<Rightarrow> byte list \<Rightarrow> (int \<times> license_input sfscli_cli_cmd option) exec" where
  "sfscli_deserialize_license shl mem buffer =
     exec_bind (deser_magic shl buffer) (\<lambda>ok.
     if \<not> ok then Inr (-EINVAL, None)
     else case mem of None \<Rightarrow> Inr (-ENOMEM, None) | Some cmd \<Rightarrow>
       exec_bind (sfscli_deser_nfield shl 32 (cc_cmd cmd) (drop 4 buffer)) (\<lambda>(c, p).
       exec_bind (sfscli_deser_sfield shl (license_path (cc_input cmd)) p) (\<lambda>(path, p).
       Inr (0, Some (cmd\<lparr>cc_cmd := c, cc_input := \<lparr>license_path = path\<rparr>\<rparr>)))))"

section \<open>Numbers\<close>

text \<open>
  What is assumed of the left shift: it is the C one for counts below 32, and shifts zero
  to zero for the others.
\<close>

definition c_shl :: "shifter \<Rightarrow> bool" where
  "c_shl shl \<longleftrightarrow> (\<forall>x n. n < 32 \<longrightarrow> shl x n = push_bit n x) \<and> (\<forall>n. shl 0 n = 0)"

lemma bit_255: "bit (0xFF :: 32 word) j \<longleftrightarrow> j < 8"
proof -
  have eq: "(0xFF :: 32 word) = mask 8" by (simp add: mask_eq_exp_minus_1)
  show ?thesis unfolding eq bit_mask_iff by auto
qed

lemma bit_ser_byte:
  assumes "c_shl shl" "i < 4"
  shows "bit (ser_byte shl v i) j \<longleftrightarrow> j < 8 \<and> bit v (8 * i + j)"
proof (cases "j < 8")
  case True
  have "8 * i < 32" using assms(2) by simp
  then have shl: "shl 0xFF (8 * i) = push_bit (8 * i) 0xFF" using assms(1) by (simp add: c_shl_def)
  have m: "min 31 (8 * i + j) = 8 * i + j" using assms(2) True by simp
  have "bit (scast (shl 0xFF (8 * i)) :: 64 word) (8 * i + j)"
    unfolding shl using assms(2) True m bit_255 [of j] by (simp add: bit_signed_iff bit_push_bit_iff)
  then show ?thesis
    using True by (simp add: ser_byte_def Let_def bit_ucast_iff bit_drop_bit_eq bit_and_iff)
qed (simp add: ser_byte_def Let_def bit_ucast_iff)

lemma bit_below: "take_bit n v = v \<Longrightarrow> n \<le> k \<Longrightarrow> \<not> bit v k"
  by (metis bit_take_bit_iff not_le)

lemma take_bit_mono: "take_bit m v = v \<Longrightarrow> m \<le> n \<Longrightarrow> take_bit n v = (v :: 64 word)"
  by (metis min.absorb2 take_bit_take_bit)

lemma ser_byte_high:
  assumes "take_bit 32 v = v" "4 \<le> i"
  shows "ser_byte shl v i = 0"
proof (rule bit_eqI)
  fix j
  have "\<not> bit v (8 * i + j)" using assms(2) by (intro bit_below [OF assms(1)]) simp
  then show "bit (ser_byte shl v i) j \<longleftrightarrow> bit (0 :: byte) j"
    by (simp add: ser_byte_def Let_def bit_ucast_iff bit_drop_bit_eq bit_and_iff)
qed

lemma bit_deser_uint:
  assumes "take_bit w v = v" "w \<le> 64"
  shows "bit (sfscli_deser_uint shl w v i bs) j \<longleftrightarrow>
    bit v j \<or> j < w \<and> (\<exists>k<length bs. bit (scast (shl (ucast (bs ! k)) (8 * (i + k))) :: 64 word) j)"
  using assms(1)
proof (induction bs arbitrary: v i)
  case (Cons b bs)
  let ?v = "take_bit w (v OR scast (shl (ucast b) (8 * i)))"
  have v: "bit ?v j \<longleftrightarrow> bit v j \<or> j < w \<and> bit (scast (shl (ucast b) (8 * i)) :: 64 word) j"
    using Cons.prems by (metis bit_or_iff bit_take_bit_iff)
  have "(\<exists>k<length (b # bs). bit (scast (shl (ucast ((b # bs) ! k)) (8 * (i + k))) :: 64 word) j) \<longleftrightarrow>
      bit (scast (shl (ucast b) (8 * i)) :: 64 word) j \<or>
      (\<exists>k<length bs. bit (scast (shl (ucast (bs ! k)) (8 * (Suc i + k))) :: 64 word) j)"
    by (simp only: length_Cons Ex_less_Suc2 nth_Cons_0 nth_Cons_Suc add_0_right add_Suc_right add_Suc)
  moreover have "bit (sfscli_deser_uint shl w ?v (Suc i) bs) j \<longleftrightarrow>
      bit ?v j \<or> j < w \<and> (\<exists>k<length bs. bit (scast (shl (ucast (bs ! k)) (8 * (Suc i + k))) :: 64 word) j)"
    by (rule Cons.IH) simp
  ultimately show ?case using v by auto
qed simp

text \<open>The contribution of byte \<open>k\<close> to bit \<open>j\<close> of the number read back.\<close>

lemma byte_contribution:
  assumes "c_shl shl" "k < 4 \<or> take_bit 31 v = v" "j < 64"
  shows "bit (scast (shl (ucast (ser_byte shl v k)) (8 * k)) :: 64 word) j \<longleftrightarrow>
    k < 4 \<and> bit v (min 31 j) \<and> min 31 j div 8 = k"
proof (cases "k < 4")
  case True
  let ?m = "min 31 j"
  have m: "?m < 32" by simp
  have "shl (ucast (ser_byte shl v k)) (8 * k) = push_bit (8 * k) (ucast (ser_byte shl v k))"
    using assms(1) True by (simp add: c_shl_def)
  then have "bit (scast (shl (ucast (ser_byte shl v k)) (8 * k)) :: 64 word) j \<longleftrightarrow>
      8 * k \<le> ?m \<and> bit (ser_byte shl v k) (?m - 8 * k)"
    using assms(3) by (simp add: bit_signed_iff bit_push_bit_iff bit_ucast_iff) auto
  also have "\<dots> \<longleftrightarrow> 8 * k \<le> ?m \<and> ?m - 8 * k < 8 \<and> bit v ?m"
    using bit_ser_byte [OF assms(1) True, of v "?m - 8 * k"] by auto
  also have "\<dots> \<longleftrightarrow> bit v ?m \<and> ?m div 8 = k" by auto
  finally show ?thesis using True by simp
next
  case False
  have "take_bit 31 v = v" using assms(2) False by simp
  then have "take_bit 32 v = v" by (rule take_bit_mono) simp
  then have "ser_byte shl v k = 0" using False by (intro ser_byte_high) simp_all
  then show ?thesis using assms(1) False by (simp add: c_shl_def)
qed

lemma deser_ser_uint:
  assumes "c_shl shl" "take_bit (8 * n) v = v" "n \<le> 4 \<or> take_bit 31 v = v" "n \<le> 8"
  shows "sfscli_deser_uint shl (8 * n) 0 0 (sfscli_ser_uint shl v n) = v"
proof (rule bit_eqI)
  fix j
  assume "possible_bit TYPE(64 word) j"
  then have j: "j < 64" by simp
  have nth: "sfscli_ser_uint shl v n ! k = ser_byte shl v k" if "k < n" for k
    using that by (simp add: sfscli_ser_uint_def)
  have "bit (sfscli_deser_uint shl (8 * n) 0 0 (sfscli_ser_uint shl v n)) j \<longleftrightarrow>
      j < 8 * n \<and> (\<exists>k<n. bit (scast (shl (ucast (ser_byte shl v k)) (8 * k)) :: 64 word) j)"
    using assms(4) nth by (subst bit_deser_uint) (auto simp: sfscli_ser_uint_def)
  also have "\<dots> \<longleftrightarrow> j < 8 * n \<and> (\<exists>k<n. k < 4 \<and> bit v (min 31 j) \<and> min 31 j div 8 = k)"
  proof -
    have "k < 4 \<or> take_bit 31 v = v" if "k < n" for k using that assms(3) by auto
    then show ?thesis using byte_contribution [OF assms(1) _ j] by auto
  qed
  also have "\<dots> \<longleftrightarrow> bit v j"
  proof (cases "j \<le> 31")
    case True
    then have "bit v j \<Longrightarrow> j < 8 * n" using bit_below [OF assms(2), of j] by (meson not_le)
    then show ?thesis using True by (auto simp: min_def)
  next
    case False
    have "\<not> bit v j" and "j < 8 * n \<longrightarrow> \<not> bit v 31"
      using assms(2, 3) False bit_below [OF assms(2), of j] bit_below [of 31 v] by auto
    then show ?thesis using False by (auto simp: min_def)
  qed
  finally show "bit (sfscli_deser_uint shl (8 * n) 0 0 (sfscli_ser_uint shl v n)) j = bit v j" .
qed

section \<open>Fields\<close>

text \<open>
  A number of an \<open>n\<close>-byte type that survives: a 64-bit number must stay below \<open>2 ^ 31\<close>, since
  \<^verbatim>\<open>0xFF << shifter\<close> and \<^verbatim>\<open>buffer[i] << shifter\<close> are computed as \<^verbatim>\<open>int\<close>.
\<close>

definition fits :: "nat \<Rightarrow> 64 word \<Rightarrow> bool" where
  "fits n v \<longleftrightarrow> n \<le> 8 \<and> take_bit (8 * n) v = v \<and> (n \<le> 4 \<or> take_bit 31 v = v)"

text \<open>The string held by a character array.\<close>

definition c_str :: "byte list \<Rightarrow> byte list" where
  "c_str = takeWhile (\<lambda>b. b \<noteq> 0)"

lemma ser_uint_length [simp]: "length (sfscli_ser_uint shl v n) = n"
  by (simp add: sfscli_ser_uint_def)

lemma ser_nfield_length [simp]: "length (sfscli_ser_nfield shl n v) = n + 2"
  by (simp add: sfscli_ser_nfield_def)

lemma take_bit_16_nat: "n < 2 ^ 16 \<Longrightarrow> take_bit 16 (of_nat n :: 64 word) = of_nat n"
proof -
  assume n: "n < 2 ^ 16"
  have "take_bit 16 (of_nat n :: 64 word) = of_nat (take_bit 16 n)" by (simp add: of_nat_take_bit)
  also have "take_bit 16 n = n" using n by (simp add: take_bit_nat_eq_self_iff)
  finally show ?thesis .
qed

lemma deser_size_ser:
  assumes "c_shl shl" "n < 2 ^ 16" "n \<le> length rest"
  shows "deser_size shl (sfscli_ser_uint shl (of_nat n) 2 @ rest) = Inr (n, rest)"
proof -
  have "sfscli_deser_uint shl (8 * 2) 0 0 (sfscli_ser_uint shl (of_nat n) 2) = of_nat n"
    using take_bit_16_nat [OF assms(2)] by (intro deser_ser_uint [OF assms(1)]) simp_all
  moreover have "unat (of_nat n :: 64 word) = n" using assms(2) by (simp add: unat_of_nat)
  ultimately show ?thesis using assms(3) by (simp add: deser_size_def)
qed

lemma deser_ser_nfield:
  assumes "c_shl shl" "fits n v" "w = 8 * n"
  shows "sfscli_deser_nfield shl w 0 (sfscli_ser_nfield shl n v @ rest) = Inr (v, rest)"
proof -
  have "n \<le> 8" using assms(2) by (simp add: fits_def)
  then have "deser_size shl (sfscli_ser_uint shl (of_nat n) 2 @ sfscli_ser_uint shl v n @ rest) =
      Inr (n, sfscli_ser_uint shl v n @ rest)"
    by (intro deser_size_ser [OF assms(1)]) simp_all
  moreover have "sfscli_deser_uint shl (8 * n) 0 0 (sfscli_ser_uint shl v n) = v"
    using assms(2) by (intro deser_ser_uint [OF assms(1)]) (auto simp: fits_def)
  ultimately show ?thesis using assms(3) by (simp add: sfscli_deser_nfield_def sfscli_ser_nfield_def)
qed

lemma deser_ser_numbers:
  assumes "c_shl shl"
  shows "fits (Suc 0) v \<Longrightarrow> sfscli_deser_nfield shl 8 0 (sfscli_ser_nfield shl (Suc 0) v @ rest) = Inr (v, rest)"
    and "fits 2 v \<Longrightarrow> sfscli_deser_nfield shl 16 0 (sfscli_ser_nfield shl 2 v @ rest) = Inr (v, rest)"
    and "fits 4 v \<Longrightarrow> sfscli_deser_nfield shl 32 0 (sfscli_ser_nfield shl 4 v @ rest) = Inr (v, rest)"
    and "fits 8 v \<Longrightarrow> sfscli_deser_nfield shl 64 0 (sfscli_ser_nfield shl 8 v @ rest) = Inr (v, rest)"
  by (rule deser_ser_nfield [OF assms]; simp)+

lemma ser_sfield_str:
  assumes "0 \<in> set f" "length f \<le> 2 ^ 16"
  shows "sfscli_ser_sfield shl f = Inr (sfscli_ser_uint shl (of_nat (length (c_str f))) 2 @ c_str f)"
    and "length (c_str f) < length f"
proof -
  have "c_str f \<noteq> f" using assms(1) set_takeWhileD [of 0 "\<lambda>b. b \<noteq> 0" f] unfolding c_str_def by metis
  then show lt: "length (c_str f) < length f"
    unfolding c_str_def by (metis length_takeWhile_le nless_le takeWhile_eq_take take_all order_refl)
  then have "length (c_str f) mod 2 ^ 16 = length (c_str f)" using assms(2) by simp
  moreover have "take (length (c_str f)) f = c_str f" unfolding c_str_def by (metis takeWhile_eq_take)
  ultimately show "sfscli_ser_sfield shl f = Inr (sfscli_ser_uint shl (of_nat (length (c_str f))) 2 @ c_str f)"
    using assms(1) by (simp add: sfscli_ser_sfield_def c_strlen_def Let_def flip: c_str_def)
qed

lemma deser_ser_sfield:
  assumes "c_shl shl" "length x < 2 ^ 16" "length x \<le> length g"
  shows "sfscli_deser_sfield shl g (sfscli_ser_uint shl (of_nat (length x)) 2 @ x @ rest) =
    Inr (x @ drop (length x) g, rest)"
  using deser_size_ser [OF assms(1, 2), of "x @ rest"] assms(3) by (simp add: sfscli_deser_sfield_def)

lemma c_str_overwrite:
  "c_str (c_str f @ drop k (replicate n 0)) = c_str f"
proof -
  have "takeWhile (\<lambda>b. b \<noteq> 0) (c_str f @ drop k (replicate n 0)) =
      c_str f @ takeWhile (\<lambda>b. b \<noteq> 0) (drop k (replicate n 0))"
    by (rule takeWhile_append2) (auto simp: c_str_def dest: set_takeWhileD)
  then show ?thesis by (simp add: c_str_def takeWhile_replicate)
qed

lemma deser_magic_ser:
  assumes "c_shl shl"
  shows "deser_magic shl (sfscli_ser_uint shl SFSCLI_MAGIC 4 @ rest) = Inr True"
proof -
  have "take_bit (8 * 4) SFSCLI_MAGIC = SFSCLI_MAGIC" by (simp add: SFSCLI_MAGIC_def)
  then have "sfscli_deser_uint shl (8 * 4) 0 0 (sfscli_ser_uint shl SFSCLI_MAGIC 4) = SFSCLI_MAGIC"
    by (intro deser_ser_uint [OF assms]) simp_all
  then show ?thesis by (simp add: deser_magic_def)
qed

section \<open>Commands\<close>

definition policy_ok :: "policy_input sfscli_cli_cmd \<Rightarrow> bool" where
  "policy_ok c \<longleftrightarrow> (let i = cc_input c; a = pi_attr i in
     fits 4 (cc_cmd c) \<and> fits 4 (pi_uid i) \<and> fits 4 (pi_gid i) \<and> fits 8 (pi_num_policy i) \<and>
     fits 4 (at_ver a) \<and> fits 4 (a_quota a) \<and> fits 1 (a_qoslevel a) \<and> fits 1 (a_ishidden a) \<and>
     fits 1 (a_numreplicas a) \<and> fits 1 (a_enable_dr a) \<and>
     pi_policy_tag i \<noteq> [] \<and> length (hd (pi_policy_tag i)) = 16 \<and> 0 \<in> set (hd (pi_policy_tag i)) \<and>
     length (pi_fname i) = 4096 \<and> 0 \<in> set (pi_fname i) \<and> length (pi_ftype i) = 8 \<and> 0 \<in> set (pi_ftype i))"

text \<open>Freshly allocated memory that happens to be zero.\<close>

definition zero_policy :: "policy_input sfscli_cli_cmd" where
  "zero_policy = \<lparr>cc_cmd = 0, cc_sub_cmd = 0, cc_input =
     \<lparr>pi_uid = 0, pi_gid = 0, pi_policy_tag = replicate 64 (replicate 16 0), pi_ftype = replicate 8 0,
      pi_fname = replicate 4096 0, pi_num_policy = 0,
      pi_attr = \<lparr>at_ver = 0, a_quota = 0, a_qoslevel = 0, a_ishidden = 0, a_numreplicas = 0, a_enable_dr = 0\<rparr>\<rparr>\<rparr>"

text \<open>What two commands agree on when they mean the same.\<close>

definition policy_view ::
  "policy_input sfscli_cli_cmd \<Rightarrow> 64 word list \<times> byte list list \<times> attribute" where
  "policy_view c = (let i = cc_input c in
     ([cc_cmd c, pi_uid i, pi_gid i, pi_num_policy i],
      [c_str (hd (pi_policy_tag i)), c_str (pi_fname i), c_str (pi_ftype i)], pi_attr i))"

text \<open>
  C30: a policy command whose numbers fit their types, with a policy count below \<open>2 ^ 31\<close>
  and terminated strings, comes back from serialising and deserialising it as it was,
  whatever follows it in the message, provided the memory for the result is zero.
\<close>

theorem cli_policy_roundtrip:
  assumes "c_shl shl" "policy_ok c"
  shows "\<exists>buf c'. sfscli_serialize_policy shl True c = Inr (int (length buf), Some buf) \<and>
    sfscli_deserialize_policy shl (Some zero_policy) (buf @ rest) = Inr (0, Some c') \<and>
    policy_view c' = policy_view c"
proof -
  let ?i = "cc_input c"
  have ok: "fits 4 (cc_cmd c)" "fits 4 (pi_uid ?i)" "fits 4 (pi_gid ?i)" "fits 8 (pi_num_policy ?i)"
    "fits 4 (at_ver (pi_attr ?i))" "fits 4 (a_quota (pi_attr ?i))" "fits 1 (a_qoslevel (pi_attr ?i))"
    "fits 1 (a_ishidden (pi_attr ?i))" "fits 1 (a_numreplicas (pi_attr ?i))" "fits 1 (a_enable_dr (pi_attr ?i))"
    "pi_policy_tag ?i \<noteq> []"
    using assms(2) by (simp_all add: policy_ok_def Let_def)
  have arrays: "0 \<in> set (hd (pi_policy_tag ?i))" "length (hd (pi_policy_tag ?i)) = 16"
    "0 \<in> set (pi_fname ?i)" "length (pi_fname ?i) = 4096" "0 \<in> set (pi_ftype ?i)" "length (pi_ftype ?i) = 8"
    using assms(2) by (simp_all add: policy_ok_def Let_def)
  note s = ser_sfield_str(1) [OF arrays(1), of shl] ser_sfield_str(1) [OF arrays(3), of shl]
    ser_sfield_str(1) [OF arrays(5), of shl]
  have l: "length (c_str (hd (pi_policy_tag ?i))) < 16" "length (c_str (pi_fname ?i)) < 4096"
    "length (c_str (pi_ftype ?i)) < 8"
    using ser_sfield_str(2) [OF arrays(1)] ser_sfield_str(2) [OF arrays(3)] ser_sfield_str(2) [OF arrays(5)] arrays
    by simp_all
  show ?thesis
    using ok s l arrays(2, 4, 6)
    by (simp add: sfscli_serialize_policy_def sfscli_deserialize_policy_def Let_def zero_policy_def
        policy_view_def c_str_overwrite deser_ser_numbers [OF assms(1)] deser_magic_ser [OF assms(1)]
        deser_ser_sfield [OF assms(1)] del: drop_replicate)
qed

text \<open>Two shifts that satisfy the assumption: the count taken modulo 32, and zero for large counts.\<close>

definition shl_x86 :: shifter where
  "shl_x86 x n = push_bit (n mod 32) x"

lemma c_shl_x86: "c_shl shl_x86"
  by (simp add: c_shl_def shl_x86_def)

definition sample_policy :: "policy_input sfscli_cli_cmd" where
  "sample_policy = zero_policy\<lparr>cc_cmd := 1, cc_input := (cc_input zero_policy)\<lparr>pi_uid := 1000, pi_num_policy := 1\<rparr>\<rparr>"

lemma fits_small: "fits (Suc 0) 0" "fits 4 0" "fits 4 1" "fits 4 1000" "fits 8 1" "fits 2 0" "fits 8 0"
  by (simp_all add: fits_def)

lemma sample_policy_ok: "policy_ok sample_policy"
  by (simp add: policy_ok_def sample_policy_def zero_policy_def Let_def fits_small)

theorem cli_policy_roundtrip_witness:
  "\<exists>buf c'. sfscli_serialize_policy shl_x86 True sample_policy = Inr (int (length buf), Some buf) \<and>
     sfscli_deserialize_policy shl_x86 (Some zero_policy) (buf @ [0]) = Inr (0, Some c') \<and>
     policy_view c' = policy_view sample_policy"
  by (rule cli_policy_roundtrip [OF c_shl_x86 sample_policy_ok])

definition storage_ok :: "storage_input sfscli_cli_cmd \<Rightarrow> bool" where
  "storage_ok c \<longleftrightarrow> (let i = cc_input c in
     fits 4 (cc_cmd c) \<and> fits 4 (cc_sub_cmd c) \<and> fits 4 (ad_protocol (si_address i)) \<and>
     fits 4 (si_access_protocol i) \<and> fits 4 (si_type i) \<and> fits 8 (si_size i) \<and>
     length (ad_address (si_address i)) = 40 \<and> 0 \<in> set (ad_address (si_address i)) \<and>
     length (si_rpath i) = 4096 \<and> 0 \<in> set (si_rpath i))"

definition zero_storage :: "storage_input sfscli_cli_cmd" where
  "zero_storage = \<lparr>cc_cmd = 0, cc_sub_cmd = 0, cc_input =
     \<lparr>si_address = \<lparr>ad_protocol = 0, ad_address = replicate 40 0\<rparr>, si_rpath = replicate 4096 0,
      si_access_protocol = 0, si_type = 0, si_size = 0\<rparr>\<rparr>"

definition storage_view :: "storage_input sfscli_cli_cmd \<Rightarrow> 64 word list \<times> byte list list" where
  "storage_view c = (let i = cc_input c in
     ([cc_cmd c, cc_sub_cmd c, ad_protocol (si_address i), si_access_protocol i, si_type i, si_size i],
      [c_str (ad_address (si_address i)), c_str (si_rpath i)]))"

text \<open>The message of a storage command, and the command that it is read back as: strings are followed by zeros.\<close>

definition zero_padded :: "byte list \<Rightarrow> byte list" where
  "zero_padded f = c_str f @ replicate (length f - length (c_str f)) 0"

definition padded_storage :: "storage_input sfscli_cli_cmd \<Rightarrow> storage_input sfscli_cli_cmd" where
  "padded_storage c = (let i = cc_input c; a = si_address i in
     c\<lparr>cc_input := i\<lparr>si_address := a\<lparr>ad_address := zero_padded (ad_address a)\<rparr>, si_rpath := zero_padded (si_rpath i)\<rparr>\<rparr>)"

lemma c_str_zero_padded [simp]: "c_str (zero_padded f) = c_str f"
  using c_str_overwrite [of f 0] by (simp add: zero_padded_def)

lemma storage_message:
  assumes "c_shl shl" "storage_ok c"
  shows "\<exists>buf p. sfscli_serialize_storage shl True c = Inr (int (length buf), Some buf) \<and>
    buf = sfscli_ser_uint shl SFSCLI_MAGIC 4 @ sfscli_ser_nfield shl 4 (cc_cmd c) @ p \<and> length buf < 5000 \<and>
    (\<forall>rest. sfscli_deserialize_storage shl (Some zero_storage) (buf @ rest) = Inr (0, Some (padded_storage c)))"
proof -
  let ?i = "cc_input c"
  have ok: "fits 4 (cc_cmd c)" "fits 4 (cc_sub_cmd c)" "fits 4 (ad_protocol (si_address ?i))"
    "fits 4 (si_access_protocol ?i)" "fits 4 (si_type ?i)" "fits 8 (si_size ?i)"
    using assms(2) by (simp_all add: storage_ok_def Let_def)
  have arrays: "0 \<in> set (ad_address (si_address ?i))" "length (ad_address (si_address ?i)) = 40"
    "0 \<in> set (si_rpath ?i)" "length (si_rpath ?i) = 4096"
    using assms(2) by (simp_all add: storage_ok_def Let_def)
  note s = ser_sfield_str(1) [OF arrays(1), of shl] ser_sfield_str(1) [OF arrays(3), of shl]
  have l: "length (c_str (ad_address (si_address ?i))) < 40" "length (c_str (si_rpath ?i)) < 4096"
    using ser_sfield_str(2) [OF arrays(1)] ser_sfield_str(2) [OF arrays(3)] arrays by simp_all
  show ?thesis
    using ok s l arrays(2, 4)
    by (simp add: sfscli_serialize_storage_def sfscli_deserialize_storage_def deser_address_def ser_address_def
        Let_def zero_storage_def padded_storage_def zero_padded_def deser_ser_numbers [OF assms(1)]
        deser_magic_ser [OF assms(1)] deser_ser_sfield [OF assms(1)])
qed

text \<open>Into other memory the message is read back too, with whatever numbers.\<close>

lemma deser_nfield_any:
  assumes "c_shl shl" "n < 2 ^ 16"
  shows "sfscli_deser_nfield shl w f (sfscli_ser_nfield shl n v @ rest) = Inr (sfscli_deser_uint shl w f 0 (sfscli_ser_uint shl v n), rest)"
  using deser_size_ser [OF assms, of "sfscli_ser_uint shl v n @ rest"] by (simp add: sfscli_deser_nfield_def sfscli_ser_nfield_def)

lemma storage_reread:
  assumes "c_shl shl" "storage_ok c" "sfscli_serialize_storage shl True c = Inr (n, Some buf)"
    "case mem of None \<Rightarrow> True | Some j \<Rightarrow> length (ad_address (si_address (cc_input j))) = 40 \<and> length (si_rpath (cc_input j)) = 4096"
  shows "\<exists>x. sfscli_deserialize_storage shl mem buf = Inr x"
proof -
  let ?i = "cc_input c"
  have arrays: "0 \<in> set (ad_address (si_address ?i))" "length (ad_address (si_address ?i)) = 40"
    "0 \<in> set (si_rpath ?i)" "length (si_rpath ?i) = 4096"
    using assms(2) by (simp_all add: storage_ok_def Let_def)
  note s = ser_sfield_str(1) [OF arrays(1), of shl] ser_sfield_str(1) [OF arrays(3), of shl]
  have "length (c_str (ad_address (si_address ?i))) < 40" "length (c_str (si_rpath ?i)) < 4096"
    using ser_sfield_str(2) [OF arrays(1)] ser_sfield_str(2) [OF arrays(3)] arrays by simp_all
  then show ?thesis
    using assms(3,4) s arrays(2, 4) deser_nfield_any [OF assms(1), of 8 64 _ _ "[]"]
    by (cases mem) (auto simp: sfscli_serialize_storage_def sfscli_deserialize_storage_def deser_address_def ser_address_def
        Let_def deser_nfield_any [OF assms(1)] deser_magic_ser [OF assms(1)] deser_ser_sfield [OF assms(1)])
qed

text \<open>
  the same for storage commands, whose size must stay below \<open>2 ^ 31\<close> to come back.
\<close>

theorem cli_storage_roundtrip:
  assumes "c_shl shl" "storage_ok c"
  shows "\<exists>buf c'. sfscli_serialize_storage shl True c = Inr (int (length buf), Some buf) \<and>
    sfscli_deserialize_storage shl (Some zero_storage) (buf @ rest) = Inr (0, Some c') \<and>
    storage_view c' = storage_view c"
  using storage_message [OF assms] by (fastforce simp: storage_view_def padded_storage_def Let_def)

definition sample_storage :: "64 word \<Rightarrow> storage_input sfscli_cli_cmd" where
  "sample_storage sz = zero_storage\<lparr>cc_cmd := 1, cc_input := (cc_input zero_storage)\<lparr>si_size := sz\<rparr>\<rparr>"

lemma sample_storage_ok: "fits 8 sz \<Longrightarrow> storage_ok (sample_storage sz)"
  by (simp add: storage_ok_def sample_storage_def zero_storage_def Let_def fits_small)

theorem cli_storage_roundtrip_witness:
  "\<exists>buf c'. sfscli_serialize_storage shl_x86 True (sample_storage 1) = Inr (int (length buf), Some buf) \<and>
     sfscli_deserialize_storage shl_x86 (Some zero_storage) (buf @ [0]) = Inr (0, Some c') \<and>
     storage_view c' = storage_view (sample_storage 1)"
  by (rule cli_storage_roundtrip [OF c_shl_x86 sample_storage_ok [OF fits_small(5)]])

lemma deser_uint_or:
  assumes "take_bit w v = v" "w \<le> 64"
  shows "sfscli_deser_uint shl w v i bs = v OR sfscli_deser_uint shl w 0 i bs"
  by (rule bit_eqI) (simp add: bit_deser_uint [OF assms] bit_deser_uint [of w 0, OF _ assms(2)] bit_or_iff)

text \<open>
  a 64-bit size from \<open>2 ^ 31\<close> on is corrupted: the size 3 GB read back from the message has
  its upper half set to ones.
\<close>

theorem cli_size_sign_extended:
  assumes "c_shl shl"
  shows "sfscli_deser_nfield shl 64 0 (sfscli_ser_nfield shl 8 0xC0000000 @ rest) = Inr (0xFFFFFFFFC0000000, rest)"
proof -
  have b: "ser_byte shl 0xC0000000 0 = 0" "ser_byte shl 0xC0000000 (Suc 0) = 0" "ser_byte shl 0xC0000000 (Suc (Suc 0)) = 0"
    "ser_byte shl 0xC0000000 (Suc (Suc (Suc 0))) = 0xC0"
    using assms by (simp_all add: ser_byte_def c_shl_def push_bit_eq_mult Let_def)
  have h: "ser_byte shl 0xC0000000 k = 0" if "4 \<le> k" for k by (rule ser_byte_high) (simp_all add: that)
  have bytes: "sfscli_ser_uint shl 0xC0000000 8 = [0, 0, 0, 0xC0, 0, 0, 0, 0]"
    by (simp add: sfscli_ser_uint_def upt_rec b h)
  have "deser_size shl (sfscli_ser_uint shl (of_nat 8) 2 @ sfscli_ser_uint shl 0xC0000000 8 @ rest) =
      Inr (8, sfscli_ser_uint shl 0xC0000000 8 @ rest)"
    by (rule deser_size_ser [OF assms]) simp_all
  moreover have "sfscli_deser_uint shl 64 0 0 (sfscli_ser_uint shl 0xC0000000 8) = 0xFFFFFFFFC0000000"
    unfolding bytes using assms by (simp add: c_shl_def push_bit_eq_mult)
  ultimately show ?thesis by (simp add: sfscli_deser_nfield_def sfscli_ser_nfield_def)
qed

theorem cli_size_sign_extended_witness:
  "sfscli_deser_nfield shl_x86 64 0 (sfscli_ser_nfield shl_x86 8 0xC0000000 @ []) = Inr (0xFFFFFFFFC0000000, [])"
  by (rule cli_size_sign_extended [OF c_shl_x86])

text \<open>
  the deserialisers merge the number on the wire into what the allocated memory
  happened to hold, bit by bit.
\<close>

theorem cli_deser_merges_memory:
  assumes "c_shl shl" "fits 4 v" "take_bit 32 junk = junk"
  shows "sfscli_deser_nfield shl 32 junk (sfscli_ser_nfield shl 4 v @ rest) = Inr (junk OR v, rest)"
proof -
  have "sfscli_deser_uint shl (8 * 4) 0 0 (sfscli_ser_uint shl v 4) = v"
    using assms(2) by (intro deser_ser_uint [OF assms(1)]) (auto simp: fits_def)
  then have "sfscli_deser_uint shl 32 junk 0 (sfscli_ser_uint shl v 4) = junk OR v"
    by (subst deser_uint_or [OF assms(3)]) simp_all
  moreover have "deser_size shl (sfscli_ser_uint shl (of_nat 4) 2 @ sfscli_ser_uint shl v 4 @ rest) =
      Inr (4, sfscli_ser_uint shl v 4 @ rest)"
    by (rule deser_size_ser [OF assms(1)]) simp_all
  ultimately show ?thesis by (simp add: sfscli_deser_nfield_def sfscli_ser_nfield_def)
qed

theorem cli_deser_merges_memory_witness:
  "sfscli_deser_nfield shl_x86 32 6 (sfscli_ser_nfield shl_x86 4 1 @ []) = Inr (6 OR 1, [])"
  by (rule cli_deser_merges_memory [OF c_shl_x86 fits_small(3)]) simp

text \<open>\<^verbatim>\<open>sizeof(struct sfscli_cli_cmd)\<close> on x86-64, and the buffer \<^verbatim>\<open>sfscli_serialize_policy\<close> allocates.\<close>

definition sizeof_sfscli_cli_cmd :: nat where "sizeof_sfscli_cli_cmd = 5176"

definition policy_buffer_size :: nat where
  "policy_buffer_size = sizeof_sfscli_cli_cmd + 4 + 2 * (8 + 6 + 2 + 2)"

text \<open>
  a serialised policy command fits into the buffer allocated for it.
\<close>

theorem cli_policy_fits_buffer:
  assumes "policy_ok c"
  shows "\<exists>buf. sfscli_serialize_policy shl True c = Inr (int (length buf), Some buf) \<and> length buf \<le> policy_buffer_size"
proof -
  let ?i = "cc_input c"
  have arrays: "0 \<in> set (hd (pi_policy_tag ?i))" "length (hd (pi_policy_tag ?i)) = 16"
    "0 \<in> set (pi_fname ?i)" "length (pi_fname ?i) = 4096" "0 \<in> set (pi_ftype ?i)" "length (pi_ftype ?i) = 8"
    "pi_policy_tag ?i \<noteq> []"
    using assms by (simp_all add: policy_ok_def Let_def)
  have "length (c_str (hd (pi_policy_tag ?i))) < 16" "length (c_str (pi_fname ?i)) < 4096"
    "length (c_str (pi_ftype ?i)) < 8"
    using ser_sfield_str(2) [OF arrays(1)] ser_sfield_str(2) [OF arrays(3)] ser_sfield_str(2) [OF arrays(5)] arrays
    by simp_all
  then show ?thesis
    using ser_sfield_str(1) [OF arrays(1), of shl] ser_sfield_str(1) [OF arrays(3), of shl]
      ser_sfield_str(1) [OF arrays(5), of shl] arrays
    by (simp add: sfscli_serialize_policy_def Let_def policy_buffer_size_def sizeof_sfscli_cli_cmd_def)
qed

theorem cli_policy_fits_buffer_witness:
  "\<exists>buf. sfscli_serialize_policy shl_x86 True sample_policy = Inr (int (length buf), Some buf) \<and>
     length buf \<le> policy_buffer_size"
  by (rule cli_policy_fits_buffer [OF sample_policy_ok])

end
