(* ===== verification/Crc.thy ===== *)
theory Crc
  imports SFS_Prelude
begin

text \<open>
  The checksum routines of \<^verbatim>\<open>oss/crc/crc.c\<close> with the standard selected in \<^verbatim>\<open>oss/crc/crc.h\<close>,
  CRC-32, and \<^verbatim>\<open>sstack_checksum\<close>, which applies one to a file.  The type \<^verbatim>\<open>crc\<close> is
  \<^verbatim>\<open>unsigned long\<close>, whose width depends on the system: it is the type variable \<open>'w\<close>.  The
  constants \<^verbatim>\<open>1\<close> and the promoted bytes are of type \<^verbatim>\<open>int\<close>, and shifting them by their width of
  32 or more is undefined.  The global \<^verbatim>\<open>crcTable\<close> is an argument.
\<close>

unbundle bit_operations_syntax

definition WIDTH :: "'w::len itself \<Rightarrow> nat" where "WIDTH _ = LENGTH('w)"

definition int_shl :: "32 word \<Rightarrow> nat \<Rightarrow> 32 word exec" where
  "int_shl v n = (if n < 32 then Inr (push_bit n v) else Inl Undefined)"

definition TOPBIT :: "'w::len word exec" where
  "TOPBIT = exec_bind (int_shl 1 (WIDTH TYPE('w) - 1)) (\<lambda>v. Inr (scast v))"

definition POLYNOMIAL :: "'w::len word" where "POLYNOMIAL = 0x04C11DB7"
definition INITIAL_REMAINDER :: "'w::len word" where "INITIAL_REMAINDER = 0xFFFFFFFF"
definition FINAL_XOR_VALUE :: "'w::len word" where "FINAL_XOR_VALUE = 0xFFFFFFFF"

text \<open>The loop of \<^verbatim>\<open>reflect\<close>, with \<open>k\<close> bits to go.\<close>

fun reflect_loop :: "nat \<Rightarrow> nat \<Rightarrow> nat \<Rightarrow> 'w::len word \<Rightarrow> 'w word \<Rightarrow> 'w word exec" where
  "reflect_loop nBits bit_no 0 dat reflection = Inr reflection"
| "reflect_loop nBits bit_no (Suc k) dat reflection =
     exec_bind
       (if dat AND 1 \<noteq> 0 then exec_bind (int_shl 1 (nBits - 1 - bit_no)) (\<lambda>v. Inr (reflection OR scast v))
        else Inr reflection)
       (reflect_loop nBits (Suc bit_no) k (drop_bit 1 dat))"

definition reflect :: "'w::len word \<Rightarrow> nat \<Rightarrow> 'w word exec" where
  "reflect dat nBits = reflect_loop nBits 0 nBits dat 0"

definition REFLECT_DATA :: "'w::len itself \<Rightarrow> 8 word \<Rightarrow> 8 word exec" where
  "REFLECT_DATA _ x = exec_bind (reflect (ucast x :: 'w word) 8) (\<lambda>v. Inr (ucast v))"

definition REFLECT_REMAINDER :: "'w::len word \<Rightarrow> 'w word exec" where
  "REFLECT_REMAINDER x = reflect x (WIDTH TYPE('w))"

text \<open>The loop over the bytes of a message, with \<open>n\<close> bytes to go.\<close>

fun crc_loop :: "(8 word \<Rightarrow> 'w::len word \<Rightarrow> 'w word exec) \<Rightarrow> nat \<Rightarrow> 8 word list \<Rightarrow> 'w word \<Rightarrow> 'w word exec" where
  "crc_loop f 0 message remainder = Inr remainder"
| "crc_loop f (Suc n) [] remainder = Inl Bad_Access"
| "crc_loop f (Suc n) (b # message) remainder = exec_bind (f b remainder) (crc_loop f n message)"

section \<open>Bit by bit\<close>

definition crc_bit :: "'w::len word \<Rightarrow> 'w word exec" where
  "crc_bit remainder =
     exec_bind TOPBIT (\<lambda>top.
     Inr (if remainder AND top \<noteq> 0 then push_bit 1 remainder XOR POLYNOMIAL else push_bit 1 remainder))"

fun crc_bits :: "nat \<Rightarrow> 'w::len word \<Rightarrow> 'w word exec" where
  "crc_bits 0 remainder = Inr remainder"
| "crc_bits (Suc n) remainder = exec_bind (crc_bit remainder) (crc_bits n)"

definition crc_slow_byte :: "8 word \<Rightarrow> 'w::len word \<Rightarrow> 'w word exec" where
  "crc_slow_byte b remainder =
     exec_bind (REFLECT_DATA TYPE('w) b) (\<lambda>d.
     exec_bind (int_shl (ucast d) (WIDTH TYPE('w) - 8)) (\<lambda>v.
     crc_bits 8 (remainder XOR scast v)))"

definition crcSlow :: "8 word list \<Rightarrow> int \<Rightarrow> 'w::len word exec" where
  "crcSlow message nBytes =
     exec_bind (crc_loop crc_slow_byte (nat nBytes) message INITIAL_REMAINDER) (\<lambda>remainder.
     exec_bind (REFLECT_REMAINDER remainder) (\<lambda>r. Inr (r XOR FINAL_XOR_VALUE)))"

section \<open>By table\<close>

definition crc_table_entry :: "nat \<Rightarrow> 'w::len word exec" where
  "crc_table_entry dividend =
     exec_bind (int_shl (of_nat dividend) (WIDTH TYPE('w) - 8)) (\<lambda>v. crc_bits 8 (scast v))"

fun crcinit_loop :: "nat list \<Rightarrow> 'w::len word list exec" where
  "crcinit_loop [] = Inr []"
| "crcinit_loop (dividend # ds) =
     exec_bind (crc_table_entry dividend) (\<lambda>e. exec_bind (crcinit_loop ds) (\<lambda>es. Inr (e # es)))"

definition crcinit :: "'w::len word list exec" where
  "crcinit = crcinit_loop [0..<256]"

definition crc_fast_byte :: "'w::len word list \<Rightarrow> 8 word \<Rightarrow> 'w word \<Rightarrow> 'w word exec" where
  "crc_fast_byte crcTable b remainder =
     exec_bind (REFLECT_DATA TYPE('w) b) (\<lambda>d.
     let dat = d XOR ucast (drop_bit (WIDTH TYPE('w) - 8) remainder)
     in Inr (crcTable ! unat dat XOR push_bit 8 remainder))"

definition crcfast :: "'w::len word list \<Rightarrow> 8 word list \<Rightarrow> int \<Rightarrow> 'w word exec" where
  "crcfast crcTable message nBytes =
     exec_bind (crc_loop (crc_fast_byte crcTable) (nat nBytes) message INITIAL_REMAINDER) (\<lambda>remainder.
     exec_bind (REFLECT_REMAINDER remainder) (\<lambda>r. Inr (r XOR FINAL_XOR_VALUE)))"

section \<open>The checksum of a file\<close>

text \<open>
  \<open>calc\<close> is the routine the build selects.  The results of the system calls are arguments:
  an error number of \<^verbatim>\<open>open\<close> and \<^verbatim>\<open>malloc\<close>, an error number or the size from \<^verbatim>\<open>stat\<close>, the value of
  \<^verbatim>\<open>read\<close> converted to \<^verbatim>\<open>uint64_t\<close>, and the contents of the buffer after it.
\<close>

definition sstack_checksum ::
  "(8 word list \<Rightarrow> 64 word \<Rightarrow> 32 word exec) \<Rightarrow> 32 word option \<Rightarrow> 32 word + 64 word \<Rightarrow> 32 word option \<Rightarrow>
   64 word \<Rightarrow> 8 word list \<Rightarrow> 32 word exec" where
  "sstack_checksum calc open_errno stat_res malloc_errno bytes_read file_buffer =
     (case open_errno of
        Some e \<Rightarrow> Inr e
      | None \<Rightarrow>
          (case stat_res of
             Inl e \<Rightarrow> Inr e
           | Inr file_size \<Rightarrow>
               if file_size = 0 then Inr 0
               else
                 (case malloc_errno of
                    Some e \<Rightarrow> Inr e
                  | None \<Rightarrow> if bytes_read < file_size then Inr 0 else calc file_buffer file_size)))"

text \<open>Without \<^verbatim>\<open>ZLIB_CRC\<close> and \<^verbatim>\<open>SSE4_CRC\<close>: the size is converted to \<^verbatim>\<open>int\<close>, the result to \<^verbatim>\<open>uint32_t\<close>.\<close>

definition checksum_crcfast :: "64 word list \<Rightarrow> 8 word list \<Rightarrow> 64 word \<Rightarrow> 32 word exec" where
  "checksum_crcfast crcTable file_buffer file_size =
     exec_bind (crcfast crcTable file_buffer (sint (ucast file_size :: 32 word))) (\<lambda>v. Inr (ucast v))"

section \<open>Where \<^verbatim>\<open>unsigned long\<close> has 32 bits\<close>

text \<open>One step of the division, as a function.\<close>

definition crc_bit32 :: "32 word \<Rightarrow> 32 word" where
  "crc_bit32 r = (if bit r 31 then push_bit 1 r XOR POLYNOMIAL else push_bit 1 r)"

lemma scast_same [simp]: "scast (v :: 'a::len word) = v"
  by (rule bit_word_eqI) (simp add: bit_signed_iff)

lemma and_top: "x AND push_bit 31 1 \<noteq> (0 :: 32 word) \<longleftrightarrow> bit x 31"
proof -
  have "bit (x AND push_bit 31 1) n \<longleftrightarrow> n = 31 \<and> bit x 31" for n
    unfolding push_bit_of_1 bit_and_iff bit_exp_iff by auto
  then show ?thesis by (metis bit_0_eq bot_apply bot_bool_def bit_eqI)
qed

lemma crc_bit_32: "crc_bit r = Inr (crc_bit32 r)"
  unfolding crc_bit_def TOPBIT_def WIDTH_def int_shl_def crc_bit32_def by (simp add: and_top [symmetric])

lemma crc_bits_32: "crc_bits n r = Inr ((crc_bit32 ^^ n) r)"
  by (induction n arbitrary: r) (simp_all add: crc_bit_32 funpow_swap1)

lemma crc_bit_xor: "crc_bit32 (x XOR y) = crc_bit32 x XOR crc_bit32 y"
  unfolding crc_bit32_def bit_xor_iff push_bit_xor by (auto simp: ac_simps)

lemma crc_bits_xor: "(crc_bit32 ^^ n) (x XOR y) = (crc_bit32 ^^ n) x XOR (crc_bit32 ^^ n) y"
  by (induction n) (simp_all add: crc_bit_xor)

lemma crc_bits_low:
  assumes "\<And>j. 32 - n \<le> j \<Longrightarrow> \<not> bit x j" "n \<le> 32"
  shows "(crc_bit32 ^^ n) x = push_bit n x"
  using assms
proof (induction n)
  case (Suc n)
  have "(crc_bit32 ^^ n) x = push_bit n x" using Suc by simp
  moreover have "\<not> bit (push_bit n x) 31" using Suc.prems by (simp add: bit_push_bit_iff)
  ultimately have "(crc_bit32 ^^ Suc n) x = push_bit 1 (push_bit n x)"
    unfolding funpow.simps comp_def crc_bit32_def by argo
  then show ?case by (simp only: push_bit_push_bit plus_1_eq_Suc)
qed simp

text \<open>The remainder with a byte brought in is the entry of the table and the rest.\<close>

lemma crc_split:
  "(r :: 32 word) XOR push_bit 24 (ucast (d :: 8 word)) =
   push_bit 24 (ucast (d XOR ucast (drop_bit 24 r))) XOR take_bit 24 r"
  by (rule bit_eqI) (auto simp: bit_xor_iff bit_push_bit_iff bit_ucast_iff bit_drop_bit_eq bit_take_bit_iff)

lemma reflect_loop_defined: "nBits \<le> 32 \<Longrightarrow> \<exists>r. reflect_loop nBits i k dat r0 = Inr r"
  by (induction k arbitrary: i dat r0) (auto simp: int_shl_def)

lemma REFLECT_DATA_defined: "\<exists>d. REFLECT_DATA TYPE('w::len) b = Inr d"
proof -
  obtain r where "reflect_loop 8 0 8 (ucast b :: 'w word) 0 = Inr r"
    using reflect_loop_defined [of 8] by fastforce
  then show ?thesis by (simp add: REFLECT_DATA_def reflect_def)
qed

lemma crcinit_loop_32:
  "crcinit_loop ds = Inr (map (\<lambda>d. (crc_bit32 ^^ 8) (push_bit 24 (of_nat d))) ds)"
  by (induction ds) (simp_all add: crc_table_entry_def WIDTH_def int_shl_def crc_bits_32)

lemma crc_byte_eq:
  assumes init: "crcinit = Inr tab"
  shows "crc_fast_byte tab b r = crc_slow_byte b (r :: 32 word)"
proof -
  obtain d where d: "REFLECT_DATA TYPE(32) b = Inr d" using REFLECT_DATA_defined by blast
  let ?hi = "ucast (drop_bit 24 r) :: 8 word"
  let ?d = "d XOR ?hi"
  have "unat ?d < 256" using unsigned_less [of ?d, where ?'a = nat] by simp
  then have tab: "tab ! unat ?d = (crc_bit32 ^^ 8) (push_bit 24 (ucast ?d))"
    using init by (auto simp: crcinit_def crcinit_loop_32)
  have "r XOR push_bit 24 (ucast d) = push_bit 24 (ucast ?d) XOR take_bit 24 r"
    by (rule crc_split)
  moreover have "(crc_bit32 ^^ 8) (take_bit 24 r) = push_bit 8 (take_bit 24 r)"
    by (rule crc_bits_low) (simp_all add: bit_take_bit_iff)
  moreover have "push_bit 8 (take_bit 24 r) = push_bit 8 r"
    by (rule bit_eqI) (auto simp: bit_push_bit_iff bit_take_bit_iff)
  moreover have "crc_slow_byte b r = Inr ((crc_bit32 ^^ 8) (r XOR push_bit 24 (ucast d)))"
    using d by (simp add: crc_slow_byte_def WIDTH_def int_shl_def crc_bits_32)
  ultimately have "crc_slow_byte b r = Inr ((crc_bit32 ^^ 8) (push_bit 24 (ucast ?d)) XOR push_bit 8 r)"
    by (simp only: crc_bits_xor)
  then show ?thesis using tab d by (simp add: crc_fast_byte_def WIDTH_def Let_def)
qed

text \<open>
  C11: where \<^verbatim>\<open>unsigned long\<close> has 32 bits, as CRC-32 has, \<^verbatim>\<open>crcinit\<close> fills the table, and with
  it the table-driven checksum equals the bit-by-bit checksum on every message, a length
  beyond the message included.
\<close>

theorem crcfast_eq_crcSlow:
  "\<exists>tab :: 32 word list. crcinit = Inr tab \<and> length tab = 256 \<and>
     (\<forall>message nBytes. crcfast tab message nBytes = crcSlow message nBytes)"
proof -
  obtain tab where tab: "crcinit = Inr (tab :: 32 word list)" "length tab = 256"
    by (simp add: crcinit_def crcinit_loop_32)
  have "crc_fast_byte tab = crc_slow_byte" using crc_byte_eq [OF tab(1)] by (simp add: fun_eq_iff)
  then show ?thesis using tab by (auto simp: crcfast_def crcSlow_def)
qed

section \<open>Without a table\<close>

lemma loop_no_table:
  "n \<le> length message \<Longrightarrow>
   crc_loop (crc_fast_byte (replicate 256 0)) n message (r :: 'w::len word) = Inr (push_bit (8 * n) r)"
proof (induction n arbitrary: message r)
  case (Suc n)
  then obtain b m where m: "message = b # m" by (cases message) auto
  obtain d where d: "REFLECT_DATA TYPE('w) b = Inr d" using REFLECT_DATA_defined by blast
  have "unat (d XOR x) < 256" for x using unsigned_less [of "d XOR x", where ?'a = nat] by simp
  then show ?case using Suc m d by (simp add: crc_fast_byte_def Let_def add.commute)
qed simp

lemma reflect_zero: "reflect_loop n i k 0 r = Inr r"
  by (induction k arbitrary: i) simp_all

lemma push_bit_beyond: "LENGTH('w::len) \<le> k \<Longrightarrow> push_bit k (r :: 'w word) = 0"
  by (rule bit_word_eqI) (simp add: bit_push_bit_iff)

lemma crcfast_no_table:
  assumes "LENGTH('w::len) \<le> 8 * nat n" "nat n \<le> length message"
  shows "crcfast (replicate 256 0) message n = Inr (FINAL_XOR_VALUE :: 'w word)"
  using assms
  by (simp add: crcfast_def loop_no_table push_bit_beyond REFLECT_REMAINDER_def reflect_def reflect_zero)

text \<open>
  in a build with neither \<^verbatim>\<open>ZLIB_CRC\<close> nor \<^verbatim>\<open>SSE4_CRC\<close> on a 64-bit system, every file of 8
  bytes up to 2 GB that is read in full has the same checksum, because nothing in the
  sources calls \<^verbatim>\<open>crcinit\<close> and the table is still zero.
\<close>

theorem checksum_without_crcinit:
  assumes size: "8 \<le> file_size" "file_size < 0x80000000" and read: "bytes_read = file_size"
    and buf: "length file_buffer = unat file_size"
  shows "sstack_checksum (checksum_crcfast (replicate 256 0)) None (Inr file_size) None bytes_read file_buffer =
    Inr 0xFFFFFFFF"
proof -
  have "uint file_size < 2 ^ 31" using size(2) by (simp add: word_less_def)
  moreover have "uint (ucast file_size :: 32 word) = uint file_size"
    using calculation by (simp add: unsigned_ucast_eq take_bit_int_eq_self)
  ultimately have "sint (ucast file_size :: 32 word) = uint file_size"
    using order_trans [OF _ uint_ge_0 [of file_size], of "- (2 ^ 31)"]
    by (simp add: sint_uint signed_take_bit_int_eq_self_iff)
  moreover have "8 \<le> length file_buffer" using size(1) buf by (simp add: word_le_nat_alt)
  moreover have "nat (uint file_size) = length file_buffer" using buf by simp
  ultimately have "crcfast (replicate 256 0) file_buffer (sint (ucast file_size :: 32 word)) =
      Inr (FINAL_XOR_VALUE :: 64 word)"
    by (intro crcfast_no_table) simp_all
  moreover have "file_size \<noteq> 0" using size(1) by auto
  ultimately show ?thesis
    using read by (simp add: sstack_checksum_def checksum_crcfast_def FINAL_XOR_VALUE_def)
qed

theorem checksum_without_crcinit_witness:
  "sstack_checksum (checksum_crcfast (replicate 256 0)) None (Inr 8) None 8 [1, 2, 3, 4, 5, 6, 7, 8] = Inr 0xFFFFFFFF \<and>
   sstack_checksum (checksum_crcfast (replicate 256 0)) None (Inr 8) None 8 (replicate 8 0) = Inr 0xFFFFFFFF"
  using checksum_without_crcinit [of 8 8 "[1, 2, 3, 4, 5, 6, 7, 8]"] checksum_without_crcinit [of 8 8 "replicate 8 0"]
  by simp

end
