(* ===== verification/Thread_Pool.thy ===== *)
theory Thread_Pool
  imports SFS_Prelude
begin

text \<open>
  The thread pool of \<^verbatim>\<open>common/src/sstack_thread_pool.c\<close>.  Every access to a pool happens
  with its mutex held, so the code between acquiring and releasing the mutex, a wait on
  a condition variable included, is one atomic function below.  The step relation
  interleaves these functions over the worker threads and the callers.  A section records what it
  does to the condition variables; the signals and broadcasts are delivered when it ends, a signal to
  any one of the threads that wait.  Threads also wake up without a signal, as POSIX allows, in steps of their own.
  Whether \<^verbatim>\<open>malloc\<close> and \<^verbatim>\<open>pthread_create\<close> succeed is a parameter.  Jobs are known by their
  address, workers by their thread id.
\<close>

type_synonym job = nat
type_synonym tid = nat

text \<open>What a section has done to a condition variable.\<close>

datatype cond = Quiet | Signal | Broadcast

record thread_pool =
  pool_busycv :: cond
  pool_workcv :: cond
  pool_waitcv :: cond
  pool_active :: "tid list"
  pool_head :: "job option"
  pool_tail :: "job option"
  job_next :: "job \<Rightarrow> job option"
  pool_wait :: bool
  pool_destroy :: bool
  pool_linger :: int
  pool_minimum :: int
  pool_maximum :: int
  pool_nthreads :: int
  pool_idle :: int

section \<open>The critical sections\<close>

text \<open>The worker function: what a worker does when it leaves the mutex.\<close>

datatype outcome =
    Sleeps bool \<comment> \<open>waits on \<^verbatim>\<open>pool_workcv\<close>; with a timeout if the flag is set\<close>
  | Runs job
  | Leaves
  | Again \<comment> \<open>goes back to the top of the loop\<close>

text \<open>\<open>created\<close>: \<^verbatim>\<open>create_worker\<close> returns 0.  The flag of the result says whether a worker was created.\<close>

definition worker_cleanup :: "bool \<Rightarrow> thread_pool \<Rightarrow> bool \<times> thread_pool" where
  "worker_cleanup created p =
     (let p = p\<lparr>pool_nthreads := pool_nthreads p - 1\<rparr> in
      if pool_destroy p then (False, if pool_nthreads p = 0 then p\<lparr>pool_busycv := Broadcast\<rparr> else p)
      else if pool_head p \<noteq> None \<and> pool_nthreads p < pool_maximum p \<and> created
      then (True, p\<lparr>pool_nthreads := pool_nthreads p + 1\<rparr>)
      else (False, p))"

definition notify_waiters :: "thread_pool \<Rightarrow> thread_pool" where
  "notify_waiters p =
     (if pool_head p = None \<and> pool_active p = [] then p\<lparr>pool_wait := False, pool_waitcv := Broadcast\<rparr> else p)"

definition job_cleanup :: "tid \<Rightarrow> thread_pool \<Rightarrow> thread_pool" where
  "job_cleanup my_tid p =
     (let p = p\<lparr>pool_active := remove1 my_tid (pool_active p)\<rparr>
      in if pool_wait p then notify_waiters p else p)"

text \<open>The part of the loop behind the inner \<^verbatim>\<open>while\<close>.\<close>

definition worker_body :: "tid \<Rightarrow> bool \<Rightarrow> thread_pool \<Rightarrow> outcome \<times> thread_pool" where
  "worker_body my_tid timedout p =
     (let p = p\<lparr>pool_idle := pool_idle p - 1\<rparr> in
      if pool_destroy p then (Leaves, p)
      else case pool_head p of
        Some job \<Rightarrow>
          (Runs job, p\<lparr>pool_head := job_next p job,
                       pool_tail := (if pool_tail p = Some job then None else pool_tail p),
                       pool_active := my_tid # pool_active p\<rparr>)
      | None \<Rightarrow> if timedout \<and> pool_nthreads p > pool_minimum p then (Leaves, p) else (Again, p))"

text \<open>The inner \<^verbatim>\<open>while\<close>, up to the next wait.\<close>

definition worker_wait :: "tid \<Rightarrow> thread_pool \<Rightarrow> outcome \<times> thread_pool" where
  "worker_wait my_tid p =
     (if pool_head p = None \<and> \<not> pool_destroy p then
        if pool_nthreads p \<le> pool_minimum p then (Sleeps False, p)
        else if pool_linger p = 0 then worker_body my_tid True p
        else (Sleeps True, p)
      else worker_body my_tid False p)"

definition worker_top :: "tid \<Rightarrow> thread_pool \<Rightarrow> outcome \<times> thread_pool" where
  "worker_top my_tid p =
     (let p = p\<lparr>pool_idle := pool_idle p + 1\<rparr>;
          p = (if pool_wait p then notify_waiters p else p)
      in worker_wait my_tid p)"

text \<open>Waking up, with \<open>timedout\<close> when the wait returned \<^verbatim>\<open>ETIMEDOUT\<close>.\<close>

definition worker_wake :: "tid \<Rightarrow> bool \<Rightarrow> thread_pool \<Rightarrow> outcome \<times> thread_pool" where
  "worker_wake my_tid timedout p = (if timedout then worker_body my_tid True p else worker_wait my_tid p)"

definition sstack_thread_pool_create ::
  "bool \<Rightarrow> 32 word \<Rightarrow> 32 word \<Rightarrow> 32 word \<Rightarrow> int + thread_pool" where
  "sstack_thread_pool_create mem min_threads max_threads linger =
     (if min_threads > max_threads \<or> max_threads < 1 then Inl EINVAL
      else if \<not> mem then Inl ENOMEM
      else Inr \<lparr>pool_busycv = Quiet, pool_workcv = Quiet, pool_waitcv = Quiet, pool_active = [], pool_head = None, pool_tail = None, job_next = (\<lambda>_. None),
                pool_wait = False, pool_destroy = False, pool_linger = sint linger,
                pool_minimum = sint min_threads, pool_maximum = sint max_threads,
                pool_nthreads = 0, pool_idle = 0\<rparr>)"

text \<open>Appending to the queue; the last job of a queue that is not empty must be known.\<close>

definition append_job :: "job \<Rightarrow> thread_pool \<Rightarrow> thread_pool exec" where
  "append_job job p =
     (let p = p\<lparr>job_next := (job_next p)(job := None)\<rparr> in
      case pool_head p of
        None \<Rightarrow> Inr (p\<lparr>pool_head := Some job, pool_tail := Some job\<rparr>)
      | Some h \<Rightarrow>
          (case pool_tail p of
             None \<Rightarrow> Inl Null_Deref
           | Some t \<Rightarrow> Inr (p\<lparr>job_next := (job_next p)(t := Some job), pool_tail := Some job\<rparr>)))"

text \<open>\<open>mem\<close>: the address of the new job, if \<^verbatim>\<open>malloc\<close> succeeds.\<close>

definition sstack_thread_pool_queue ::
  "job option \<Rightarrow> bool \<Rightarrow> thread_pool \<Rightarrow> (int \<times> bool \<times> thread_pool) exec" where
  "sstack_thread_pool_queue mem created p =
     (case mem of
        None \<Rightarrow> Inr (-1, False, p)
      | Some job \<Rightarrow>
          exec_bind (append_job job p) (\<lambda>p.
          if pool_idle p > 0 then Inr (0, False, p\<lparr>pool_workcv := Signal\<rparr>)
          else if pool_nthreads p < pool_maximum p \<and> created
          then Inr (0, True, p\<lparr>pool_nthreads := pool_nthreads p + 1\<rparr>)
          else Inr (0, False, p)))"

text \<open>One evaluation of the loop of \<^verbatim>\<open>sstack_thread_pool_wait\<close>: true when it returns.\<close>

definition sstack_thread_pool_wait :: "thread_pool \<Rightarrow> bool \<times> thread_pool" where
  "sstack_thread_pool_wait p =
     (if pool_head p \<noteq> None \<or> pool_active p \<noteq> [] then (False, p\<lparr>pool_wait := True\<rparr>) else (True, p))"

text \<open>
  The sections of \<^verbatim>\<open>sstack_thread_pool_destroy\<close>: marking the pool, the two waiting loops (true
  when both are left), after which the pool is unlinked and freed.
\<close>

definition pool_destroy_begin :: "thread_pool \<Rightarrow> thread_pool" where
  "pool_destroy_begin p = p\<lparr>pool_destroy := True, pool_workcv := Broadcast\<rparr>"

definition pool_destroy_wait :: "thread_pool \<Rightarrow> bool \<times> thread_pool" where
  "pool_destroy_wait p =
     (if pool_active p \<noteq> [] then (False, p\<lparr>pool_wait := True\<rparr>)
      else (pool_nthreads p = 0, p))"

section \<open>Interleaving\<close>

text \<open>
  Where a worker is between two critical sections, and what a caller waits for: in \<^verbatim>\<open>sstack_thread_pool_wait\<close>, and in the first and
  the second loop of \<^verbatim>\<open>sstack_thread_pool_destroy\<close>.
\<close>

datatype place = At_top | Asleep bool | Running job

datatype caller = Waiting | Destroying_active | Destroying_busy

text \<open>
  \<open>tp_signalled\<close> are the sleeping workers that have been signalled, \<open>tp_callers\<close> the callers that sleep and have not been notified.
\<close>

record tp_state =
  tp_pool :: thread_pool
  tp_threads :: "tid \<rightharpoonup> place"
  tp_signalled :: "tid set"
  tp_callers :: "tid \<rightharpoonup> caller"
  tp_submitted :: "job list"
  tp_started :: "job list"

definition asleep :: "(tid \<rightharpoonup> place) \<Rightarrow> tid set" where
  "asleep T = {t. \<exists>b. T t = Some (Asleep b)}"

text \<open>
  The end of a section: a signal goes to \<open>w\<close> if it sleeps and has not been signalled, a broadcast to all that wait.
\<close>

definition deliver :: "tid \<Rightarrow> tp_state \<Rightarrow> tp_state" where
  "deliver w s =
     (let p = tp_pool s;
          asleep = asleep (tp_threads s);
          signalled = (case pool_workcv p of Quiet \<Rightarrow> {} | Signal \<Rightarrow> {w} \<inter> asleep | Broadcast \<Rightarrow> asleep);
          notified = (if pool_waitcv p = Broadcast then {Waiting, Destroying_active} else {}) \<union>
            (if pool_busycv p = Broadcast then {Destroying_busy} else {})
      in s\<lparr>tp_pool := p\<lparr>pool_busycv := Quiet, pool_workcv := Quiet, pool_waitcv := Quiet\<rparr>,
           tp_signalled := tp_signalled s \<union> signalled,
           tp_callers := (\<lambda>c. case tp_callers s c of None \<Rightarrow> None | Some x \<Rightarrow> if x \<in> notified then None else Some x)\<rparr>)"

text \<open>A worker leaves a critical section; a worker created there starts at the top.\<close>

fun settle :: "tid \<Rightarrow> outcome \<times> thread_pool \<Rightarrow> bool \<Rightarrow> tid \<Rightarrow> tp_state \<Rightarrow> tp_state" where
  "settle t (Sleeps timed, p) created new s =
     s\<lparr>tp_pool := p, tp_threads := (tp_threads s)(t \<mapsto> Asleep timed), tp_signalled := tp_signalled s - {t}\<rparr>"
| "settle t (Runs j, p) created new s =
     s\<lparr>tp_pool := p, tp_threads := (tp_threads s)(t \<mapsto> Running j), tp_signalled := tp_signalled s - {t}, tp_started := tp_started s @ [j]\<rparr>"
| "settle t (Again, p) created new s =
     s\<lparr>tp_pool := p, tp_threads := (tp_threads s)(t \<mapsto> At_top), tp_signalled := tp_signalled s - {t}\<rparr>"
| "settle t (Leaves, p) created new s =
     (let (spawned, p) = worker_cleanup created p; ts = (tp_threads s)(t := None)
      in s\<lparr>tp_pool := p, tp_threads := (if spawned then ts(new \<mapsto> At_top) else ts), tp_signalled := tp_signalled s - {t}\<rparr>)"

text \<open>
  The critical sections.  \<open>new\<close> is the id of a worker that may be created; a job is never freed while the pool exists
  (the call of \<^verbatim>\<open>free\<close> in the worker is commented out), so that the addresses of jobs are
  distinct.  A worker that returns from a job keeps the mutex until it is at the top of the
  loop; taking this as two steps only adds interleavings.  A caller that has been notified evaluates its loop again.
  With \<open>reliable\<close>, creating a worker always succeeds.
\<close>

inductive tp_section :: "bool \<Rightarrow> tp_state \<Rightarrow> tp_state \<Rightarrow> bool" for reliable where
  Queue: "\<lbrakk>j \<notin> set (tp_submitted s); new \<notin> dom (tp_threads s); reliable \<longrightarrow> created;
    sstack_thread_pool_queue (Some j) created (tp_pool s) = Inr (r, spawned, p)\<rbrakk> \<Longrightarrow>
    tp_section reliable s (s\<lparr>tp_pool := p, tp_submitted := tp_submitted s @ [j],
      tp_threads := (if spawned then (tp_threads s)(new \<mapsto> At_top) else tp_threads s)\<rparr>)"
| Top: "\<lbrakk>tp_threads s t = Some At_top; new \<notin> dom (tp_threads s); reliable \<longrightarrow> created\<rbrakk> \<Longrightarrow>
    tp_section reliable s (settle t (worker_top t (tp_pool s)) created new s)"
| Wake: "\<lbrakk>tp_threads s t = Some (Asleep timed); timedout \<longrightarrow> timed; t \<in> tp_signalled s \<or> timedout; new \<notin> dom (tp_threads s);
    reliable \<longrightarrow> created\<rbrakk> \<Longrightarrow>
    tp_section reliable s (settle t (worker_wake t timedout (tp_pool s)) created new s)"
| Return: "tp_threads s t = Some (Running j) \<Longrightarrow>
    tp_section reliable s (s\<lparr>tp_pool := job_cleanup t (tp_pool s), tp_threads := (tp_threads s)(t \<mapsto> At_top)\<rparr>)"
| Exit: "\<lbrakk>tp_threads s t = Some (Running j); new \<notin> dom (tp_threads s); reliable \<longrightarrow> created\<rbrakk> \<Longrightarrow>
    tp_section reliable s (settle t (Leaves, job_cleanup t (tp_pool s)) created new s)"
| Await: "\<lbrakk>c \<notin> dom (tp_callers s); sstack_thread_pool_wait (tp_pool s) = (returns, p)\<rbrakk> \<Longrightarrow>
    tp_section reliable s (s\<lparr>tp_pool := p, tp_callers := (if returns then tp_callers s else (tp_callers s)(c \<mapsto> Waiting))\<rparr>)"
| Destroy: "tp_section reliable s (s\<lparr>tp_pool := pool_destroy_begin (tp_pool s)\<rparr>)"
| Await_destroy: "\<lbrakk>pool_destroy (tp_pool s); c \<notin> dom (tp_callers s); pool_destroy_wait (tp_pool s) = (returns, p)\<rbrakk> \<Longrightarrow>
    tp_section reliable s (s\<lparr>tp_pool := p, tp_callers := (if returns then tp_callers s
      else (tp_callers s)(c \<mapsto> (if pool_active p \<noteq> [] then Destroying_active else Destroying_busy)))\<rparr>)"

text \<open>A section and the delivery of its signals; the receiver of a signal is any sleeping worker that has not been signalled.\<close>

inductive tp_step :: "bool \<Rightarrow> tp_state \<Rightarrow> tp_state \<Rightarrow> bool" for reliable where
  Section: "\<lbrakk>tp_section reliable s s'; asleep (tp_threads s') - tp_signalled s' = {} \<or> w \<in> asleep (tp_threads s') - tp_signalled s'\<rbrakk> \<Longrightarrow>
    tp_step reliable s (deliver w s')"

text \<open>Waking up without a signal.\<close>

inductive tp_spurious :: "bool \<Rightarrow> tp_state \<Rightarrow> tp_state \<Rightarrow> bool" for reliable where
  Worker: "\<lbrakk>tp_threads s t = Some (Asleep timed); new \<notin> dom (tp_threads s); reliable \<longrightarrow> created\<rbrakk> \<Longrightarrow>
    tp_spurious reliable s (deliver w (settle t (worker_wake t False (tp_pool s)) created new s))"
| Caller: "tp_callers s c = Some x \<Longrightarrow> tp_spurious reliable s (s\<lparr>tp_callers := (tp_callers s)(c := None)\<rparr>)"

definition tp_start :: "thread_pool \<Rightarrow> tp_state" where
  "tp_start p = \<lparr>tp_pool = p, tp_threads = Map.empty, tp_signalled = {}, tp_callers = Map.empty, tp_submitted = [], tp_started = []\<rparr>"

inductive tp_reach :: "bool \<Rightarrow> thread_pool \<Rightarrow> tp_state \<Rightarrow> bool" for reliable p0 where
  Start: "tp_reach reliable p0 (tp_start p0)"
| Step: "tp_reach reliable p0 s \<Longrightarrow> tp_step reliable s s' \<Longrightarrow> tp_reach reliable p0 s'"
| Spurious: "tp_reach reliable p0 s \<Longrightarrow> tp_spurious reliable s s' \<Longrightarrow> tp_reach reliable p0 s'"

section \<open>The queue as a list\<close>

fun job_chain :: "(job \<Rightarrow> job option) \<Rightarrow> job option \<Rightarrow> job list \<Rightarrow> bool" where
  "job_chain nx h [] \<longleftrightarrow> h = None"
| "job_chain nx h (x # xs) \<longleftrightarrow> h = Some x \<and> job_chain nx (nx x) xs"

definition queued :: "thread_pool \<Rightarrow> job list \<Rightarrow> bool" where
  "queued p q \<longleftrightarrow> job_chain (job_next p) (pool_head p) q \<and> (q \<noteq> [] \<longrightarrow> pool_tail p = Some (last q))"

lemma job_chain_upd: "j \<notin> set xs \<Longrightarrow> job_chain (nx(j := v)) h xs = job_chain nx h xs"
  by (induction xs arbitrary: h) auto

lemma job_chain_append:
  "job_chain nx h xs \<Longrightarrow> xs \<noteq> [] \<Longrightarrow> distinct xs \<Longrightarrow> j \<notin> set xs \<Longrightarrow>
   job_chain ((nx(j := None))(last xs := Some j)) h (xs @ [j])"
proof (induction xs arbitrary: h)
  case (Cons x xs)
  then show ?case by (cases "xs = []") (auto simp: job_chain_upd)
qed simp

lemma queued_empty: "queued p q \<Longrightarrow> pool_head p = None \<longleftrightarrow> q = []"
  by (cases q) (auto simp: queued_def)

lemma append_job_ok:
  assumes "queued p q" "distinct q" "j \<notin> set q"
  shows "\<exists>nx h. append_job j p = Inr (p\<lparr>job_next := nx, pool_head := h, pool_tail := Some j\<rparr>) \<and>
    queued (p\<lparr>job_next := nx, pool_head := h, pool_tail := Some j\<rparr>) (q @ [j])"
proof (cases "q = []")
  case True
  then have h: "pool_head p = None" using queued_empty [OF assms(1)] by simp
  let ?nx = "(job_next p)(j := None)"
  have "append_job j p = Inr (p\<lparr>job_next := ?nx, pool_head := Some j, pool_tail := Some j\<rparr>)"
    using h by (simp add: append_job_def)
  moreover have "queued (p\<lparr>job_next := ?nx, pool_head := Some j, pool_tail := Some j\<rparr>) (q @ [j])"
    using True by (simp add: queued_def)
  ultimately show ?thesis by blast
next
  case False
  then obtain h where h: "pool_head p = Some h" using queued_empty [OF assms(1)] by auto
  have t: "pool_tail p = Some (last q)" using assms(1) False by (simp add: queued_def)
  let ?nx = "(job_next p)(j := None, last q := Some j)"
  have "append_job j p = Inr (p\<lparr>job_next := ?nx, pool_head := Some h, pool_tail := Some j\<rparr>)"
    using h t by (simp add: append_job_def)
  moreover have "queued (p\<lparr>job_next := ?nx, pool_head := Some h, pool_tail := Some j\<rparr>) (q @ [j])"
    using job_chain_append [of "job_next p" "pool_head p" q j] assms False h by (simp add: queued_def)
  ultimately show ?thesis by blast
qed

section \<open>The counters\<close>

definition running :: "(tid \<rightharpoonup> place) \<Rightarrow> tid set" where
  "running T = {t. \<exists>j. T t = Some (Running j)}"

text \<open>
  \<open>i\<close> and \<open>n\<close> count a worker inside a critical section that is not in \<open>T\<close> but in the
  counters of the pool.
\<close>

definition pool_rel :: "thread_pool \<Rightarrow> (tid \<rightharpoonup> place) \<Rightarrow> nat \<Rightarrow> nat \<Rightarrow> bool" where
  "pool_rel p T i n \<longleftrightarrow> finite (dom T) \<and> pool_nthreads p = int (card (dom T) + n) \<and>
     pool_idle p = int (card (asleep T) + i) \<and> distinct (pool_active p) \<and> set (pool_active p) = running T"

lemma asleep_upd:
  assumes "T t = None"
  shows "asleep (T(t \<mapsto> Asleep b)) = insert t (asleep T)" "t \<notin> asleep T"
    "asleep (T(t \<mapsto> At_top)) = asleep T" "asleep (T(t \<mapsto> Running j)) = asleep T"
  using assms by (auto simp: asleep_def)

lemma running_upd:
  assumes "T t = None"
  shows "running (T(t \<mapsto> Running j)) = insert t (running T)" "t \<notin> running T"
    "running (T(t \<mapsto> At_top)) = running T" "running (T(t \<mapsto> Asleep b)) = running T"
  using assms by (auto simp: running_def)

lemma finite_asleep: "finite (dom T) \<Longrightarrow> finite (asleep T)"
  by (rule finite_subset [of _ "dom T"]) (auto simp: asleep_def)

lemma rel_put:
  assumes "T t = None"
  shows "pool_rel p T 1 1 \<Longrightarrow> pool_rel p (T(t \<mapsto> Asleep b)) 0 0"
    and "pool_rel p T 0 1 \<Longrightarrow> pool_rel p (T(t \<mapsto> At_top)) 0 0"
    and "pool_rel p T 0 1 \<Longrightarrow> pool_active p' = t # pool_active p \<Longrightarrow> pool_nthreads p' = pool_nthreads p \<Longrightarrow>
      pool_idle p' = pool_idle p \<Longrightarrow> pool_rel p' (T(t \<mapsto> Running j)) 0 0"
  using assms asleep_upd [of T t, OF assms] running_upd [of T t, OF assms] finite_asleep [of T]
  by (auto simp: pool_rel_def domIff)

lemma rel_take:
  assumes "pool_rel p T 0 0" "T t = Some w"
  shows "w = At_top \<Longrightarrow> pool_rel p (T(t := None)) 0 1"
    and "w = Asleep b \<Longrightarrow> pool_rel p (T(t := None)) 1 1"
    and "w = Running j \<Longrightarrow> pool_rel (job_cleanup t p) (T(t := None)) 0 1"
proof -
  let ?T = "T(t := None)"
  have T: "T = ?T(t \<mapsto> w)" "?T t = None" using assms(2) by auto
  have fin: "finite (dom ?T)" using assms(1) by (simp add: pool_rel_def)
  have dom: "dom T = insert t (dom ?T)" "t \<notin> dom ?T" using assms(2) by auto
  have card: "card (dom T) = card (dom ?T) + 1"
    using card_insert_disjoint [OF fin dom(2)] dom(1) by (metis Suc_eq_plus1)
  note a = asleep_upd [of ?T t, OF T(2)] and r = running_upd [of ?T t, OF T(2)]
  have fa: "finite (asleep ?T)" by (rule finite_asleep [OF fin])
  show "pool_rel p ?T 0 1" if "w = At_top"
  proof -
    have "asleep T = asleep ?T" "running T = running ?T" using T(1) a(3) r(3) that by metis+
    then show ?thesis using assms(1) fin card by (simp add: pool_rel_def)
  qed
  show "pool_rel p ?T 1 1" if "w = Asleep b"
  proof -
    have "asleep T = insert t (asleep ?T)" "running T = running ?T" using T(1) a(1) r(4) that by metis+
    then show ?thesis using assms(1) fin fa card a(2) by (simp add: pool_rel_def)
  qed
  show "pool_rel (job_cleanup t p) ?T 0 1" if "w = Running j"
  proof -
    have "asleep T = asleep ?T" "running T = insert t (running ?T)" using T(1) a(4) r(1) that by metis+
    moreover have "pool_active (job_cleanup t p) = remove1 t (pool_active p)"
      "pool_nthreads (job_cleanup t p) = pool_nthreads p" "pool_idle (job_cleanup t p) = pool_idle p"
      by (simp_all add: job_cleanup_def notify_waiters_def Let_def)
    ultimately show ?thesis using assms(1) fin card r(2) by (simp add: pool_rel_def)
  qed
qed

section \<open>The worker keeps the counters and the queue\<close>

fun good_out :: "(tid \<rightharpoonup> place) \<Rightarrow> tid \<Rightarrow> job list \<Rightarrow> outcome \<times> thread_pool \<Rightarrow> bool" where
  "good_out T t q (Sleeps b, p) \<longleftrightarrow> queued p q \<and> pool_rel p (T(t \<mapsto> Asleep b)) 0 0"
| "good_out T t q (Again, p) \<longleftrightarrow> queued p q \<and> pool_rel p (T(t \<mapsto> At_top)) 0 0"
| "good_out T t q (Leaves, p) \<longleftrightarrow> queued p q \<and> pool_rel p T 0 1"
| "good_out T t q (Runs j, p) \<longleftrightarrow> (\<exists>q'. q = j # q' \<and> queued p q' \<and> pool_rel p (T(t \<mapsto> Running j)) 0 0)"

text \<open>The parameters of a pool, and its number of threads, stay as they are.\<close>

definition same_params :: "thread_pool \<Rightarrow> thread_pool \<Rightarrow> bool" where
  "same_params p p' \<longleftrightarrow> pool_maximum p' = pool_maximum p \<and> pool_nthreads p' = pool_nthreads p \<and>
     pool_destroy p' = pool_destroy p"

lemma worker_body_ok:
  assumes T: "T t = None" and rel: "pool_rel p T 1 1" and q: "queued p q" and d: "distinct q"
  shows "good_out T t q (worker_body t timedout p) \<and> same_params p (snd (worker_body t timedout p))"
proof -
  let ?p = "p\<lparr>pool_idle := pool_idle p - 1\<rparr>"
  have rel': "pool_rel ?p T 0 1" using rel by (simp add: pool_rel_def)
  have q': "queued ?p q" using q by (simp add: queued_def)
  show ?thesis
  proof (cases "pool_head p")
    case None
    then show ?thesis
      using rel' q' rel_put(2) [OF T rel'] by (auto simp: worker_body_def same_params_def Let_def)
  next
    case (Some j)
    then obtain qs where qs: "q = j # qs" using q by (cases q) (auto simp: queued_def)
    let ?r = "?p\<lparr>pool_head := job_next ?p j, pool_tail := (if pool_tail ?p = Some j then None else pool_tail ?p),
      pool_active := t # pool_active ?p\<rparr>"
    have chain: "job_chain (job_next p) (job_next p j) qs" using q qs by (simp add: queued_def)
    have "pool_tail p = Some (last q)" using q qs by (simp add: queued_def)
    then show ?thesis
    proof (cases "pool_destroy p")
      case False
      have "worker_body t timedout p = (Runs j, ?r)" using Some False by (simp add: worker_body_def Let_def)
      moreover have "pool_rel ?r (T(t \<mapsto> Running j)) 0 0" by (rule rel_put(3) [OF T rel']) simp_all
      moreover have "queued ?r qs"
        using chain qs q d by (cases "qs = []") (auto simp: queued_def dest: last_in_set)
      ultimately show ?thesis using qs by (simp add: same_params_def)
    qed (use rel' q' in \<open>simp add: worker_body_def same_params_def Let_def\<close>)
  qed
qed

lemma worker_wait_ok:
  assumes T: "T t = None" and rel: "pool_rel p T 1 1" and q: "queued p q" and d: "distinct q"
  shows "good_out T t q (worker_wait t p) \<and> same_params p (snd (worker_wait t p))"
  using worker_body_ok [OF assms] rel_put(1) [OF T rel] q
  by (simp add: worker_wait_def same_params_def)

lemma worker_wake_ok:
  assumes "T t = None" "pool_rel p T 1 1" "queued p q" "distinct q"
  shows "good_out T t q (worker_wake t timedout p) \<and> same_params p (snd (worker_wake t timedout p))"
  using worker_body_ok [OF assms] worker_wait_ok [OF assms] by (simp add: worker_wake_def)

lemma worker_top_ok:
  assumes T: "T t = None" and rel: "pool_rel p T 0 1" and q: "queued p q" and d: "distinct q"
  shows "good_out T t q (worker_top t p) \<and> same_params p (snd (worker_top t p))"
proof -
  define p1 where "p1 = p\<lparr>pool_idle := pool_idle p + 1\<rparr>"
  define p2 where "p2 = (if pool_wait p1 then notify_waiters p1 else p1)"
  have "pool_rel p2 T 1 1" "queued p2 q" "same_params p p2"
    using rel q by (auto simp: p2_def p1_def notify_waiters_def pool_rel_def queued_def same_params_def)
  moreover have "worker_top t p = worker_wait t p2" by (simp add: worker_top_def p2_def p1_def Let_def)
  ultimately show ?thesis using worker_wait_ok [of T t p2 q] T d by (simp add: same_params_def)
qed

lemma worker_cleanup_ok:
  assumes rel: "pool_rel p T 0 1" and q: "queued p q" and new: "T new = None"
    and max: "pool_nthreads p \<le> pool_maximum p" and run: "worker_cleanup created p = (spawned, p')"
  shows "pool_rel p' (if spawned then T(new \<mapsto> At_top) else T) 0 0 \<and> queued p' q \<and>
    pool_nthreads p' \<le> pool_maximum p' \<and> pool_maximum p' = pool_maximum p"
proof -
  let ?p = "p\<lparr>pool_nthreads := pool_nthreads p - 1\<rparr>"
  have less: "pool_rel ?p T 0 0" "queued ?p q" using rel q by (simp_all add: pool_rel_def queued_def)
  show ?thesis
  proof (cases spawned)
    case True
    then have "p' = p" using run by (auto simp: worker_cleanup_def Let_def split: if_splits)
    then show ?thesis using rel_put(2) [OF new rel] q max True by simp
  next
    case False
    then have "p' = ?p \<or> p' = ?p\<lparr>pool_busycv := Broadcast\<rparr>" using run by (auto simp: worker_cleanup_def Let_def split: if_splits)
    moreover have "pool_rel (?p\<lparr>pool_busycv := Broadcast\<rparr>) T 0 0" "queued (?p\<lparr>pool_busycv := Broadcast\<rparr>) q"
      using less by (simp_all add: pool_rel_def queued_def)
    ultimately show ?thesis using less max False by auto
  qed
qed

section \<open>Reachable states\<close>

definition tp_inv :: "int \<Rightarrow> tp_state \<Rightarrow> bool" where
  "tp_inv limit s \<longleftrightarrow> (\<exists>q. queued (tp_pool s) q \<and> pool_rel (tp_pool s) (tp_threads s) 0 0 \<and>
     distinct (tp_submitted s) \<and> tp_submitted s = tp_started s @ q \<and>
     pool_maximum (tp_pool s) = limit \<and> pool_nthreads (tp_pool s) \<le> limit)"

lemma settle_inv:
  assumes good: "good_out ((tp_threads s)(t := None)) t q op" and par: "same_params (tp_pool s) (snd op)"
    and new: "new \<notin> dom (tp_threads s)" and sub: "tp_submitted s = tp_started s @ q" "distinct (tp_submitted s)"
    and max: "pool_maximum (tp_pool s) = limit" "pool_nthreads (tp_pool s) \<le> limit"
  shows "tp_inv limit (settle t op created new s)"
proof -
  obtain out p' where op: "op = (out, p')" by fastforce
  have p': "pool_maximum p' = limit" "pool_nthreads p' \<le> limit" using par max op by (simp_all add: same_params_def)
  show ?thesis
  proof (cases out)
    case Leaves
    obtain spawned p2 where c: "worker_cleanup created p' = (spawned, p2)" by fastforce
    have "pool_rel p' ((tp_threads s)(t := None)) 0 1" "queued p' q" using good op Leaves by simp_all
    moreover have "((tp_threads s)(t := None)) new = None" using new by (auto simp: domIff)
    ultimately have "pool_rel p2 (if spawned then (tp_threads s)(t := None, new \<mapsto> At_top) else (tp_threads s)(t := None)) 0 0"
      "queued p2 q" "pool_nthreads p2 \<le> limit" "pool_maximum p2 = limit"
      using worker_cleanup_ok [where T = "(tp_threads s)(t := None)" and new = new and q = q, OF _ _ _ _ c] p'
      by auto
    then show ?thesis
      using op Leaves c sub unfolding tp_inv_def by (intro exI [of _ q]) (simp add: Let_def)
  next
    case (Runs j)
    then obtain q' where "q = j # q'" "queued p' q'" "pool_rel p' ((tp_threads s)(t \<mapsto> Running j)) 0 0"
      using good op by auto
    then show ?thesis
      using op Runs sub p' unfolding tp_inv_def by (intro exI [of _ q']) simp
  next
    case (Sleeps b)
    then show ?thesis
      using good op sub p' unfolding tp_inv_def by (intro exI [of _ q]) simp
  next
    case Again
    then show ?thesis
      using good op sub p' unfolding tp_inv_def by (intro exI [of _ q]) simp
  qed
qed

lemma job_cleanup_ok:
  assumes T: "T t = Some (Running j)" and rel: "pool_rel p T 0 0" and q: "queued p q"
  shows "pool_rel (job_cleanup t p) (T(t := None)) 0 1" "queued (job_cleanup t p) q"
    "same_params p (job_cleanup t p)"
proof -
  let ?p = "p\<lparr>pool_active := remove1 t (pool_active p)\<rparr>"
  have eq: "job_cleanup t p = ?p \<or> job_cleanup t p = ?p\<lparr>pool_wait := False, pool_waitcv := Broadcast\<rparr>"
    by (simp add: job_cleanup_def notify_waiters_def Let_def)
  show "pool_rel (job_cleanup t p) (T(t := None)) 0 1" by (rule rel_take(3) [OF rel T]) simp
  show "queued (job_cleanup t p) q" "same_params p (job_cleanup t p)"
    using eq q by (auto simp: queued_def same_params_def)
qed


lemma queue_inv:
  assumes inv: "tp_inv limit s" and j: "j \<notin> set (tp_submitted s)" and new: "new \<notin> dom (tp_threads s)"
    and run: "sstack_thread_pool_queue (Some j) created (tp_pool s) = Inr (r, spawned, p)"
  shows "tp_inv limit (s\<lparr>tp_pool := p, tp_submitted := tp_submitted s @ [j],
      tp_threads := (if spawned then (tp_threads s)(new \<mapsto> At_top) else tp_threads s)\<rparr>)"
proof -
  let ?p = "tp_pool s" and ?T = "tp_threads s"
  obtain q where q: "queued ?p q" "pool_rel ?p ?T 0 0" "distinct (tp_submitted s)"
    "tp_submitted s = tp_started s @ q" "pool_maximum ?p = limit" "pool_nthreads ?p \<le> limit"
    using inv by (auto simp: tp_inv_def)
  then have "distinct q" "j \<notin> set q" using j by auto
  then obtain nx h where a: "append_job j ?p = Inr (?p\<lparr>job_next := nx, pool_head := h, pool_tail := Some j\<rparr>)"
    "queued (?p\<lparr>job_next := nx, pool_head := h, pool_tail := Some j\<rparr>) (q @ [j])"
    using append_job_ok [OF q(1)] by blast
  let ?a = "?p\<lparr>job_next := nx, pool_head := h, pool_tail := Some j\<rparr>"
  let ?n = "?a\<lparr>pool_nthreads := pool_nthreads ?p + 1\<rparr>"
  let ?g = "?a\<lparr>pool_workcv := Signal\<rparr>"
  have "pool_rel ?a ?T 0 0" "pool_rel ?n ?T 0 1" "pool_rel ?g ?T 0 0" using q(2) by (simp_all add: pool_rel_def)
  moreover have "pool_rel ?n (?T(new \<mapsto> At_top)) 0 0" using rel_put(2) calculation(2) new by (simp add: domIff)
  moreover have "queued ?n (q @ [j])" "queued ?g (q @ [j])" using a(2) by (simp_all add: queued_def)
  moreover have "spawned \<and> p = ?n \<or> \<not> spawned \<and> (p = ?a \<or> p = ?g)" "spawned \<Longrightarrow> pool_nthreads ?p < limit"
    using run a(1) q(5) by (auto simp: sstack_thread_pool_queue_def split: if_splits)
  ultimately show ?thesis
    using q j a(2) unfolding tp_inv_def by (intro exI [of _ "q @ [j]"]) auto
qed

lemma tp_inv_pool:
  assumes "tp_inv limit s" "queued p = queued (tp_pool s)" "same_params (tp_pool s) p"
    "pool_idle p = pool_idle (tp_pool s)" "pool_active p = pool_active (tp_pool s)"
  shows "tp_inv limit (s\<lparr>tp_pool := p\<rparr>)"
  using assms by (simp add: tp_inv_def pool_rel_def same_params_def)

lemma worker_section_inv:
  assumes inv: "tp_inv limit s" and new: "new \<notin> dom (tp_threads s)"
    and t: "tp_threads s t = Some At_top \<and> op = worker_top t (tp_pool s) \<or>
      tp_threads s t = Some (Asleep timed) \<and> op = worker_wake t timedout (tp_pool s) \<or>
      tp_threads s t = Some (Running j) \<and> op = (Leaves, job_cleanup t (tp_pool s))"
  shows "tp_inv limit (settle t op created new s)" "same_params (tp_pool s) (snd op)"
proof -
  obtain q where q: "queued (tp_pool s) q" and rel: "pool_rel (tp_pool s) (tp_threads s) 0 0"
    and sub: "tp_submitted s = tp_started s @ q" "distinct (tp_submitted s)"
    and max: "pool_maximum (tp_pool s) = limit" "pool_nthreads (tp_pool s) \<le> limit"
    using inv by (auto simp: tp_inv_def)
  have d: "distinct q" using sub by simp
  have ok: "good_out ((tp_threads s)(t := None)) t q op \<and> same_params (tp_pool s) (snd op)"
    using t
  proof (elim disjE conjE)
    assume "tp_threads s t = Some At_top" "op = worker_top t (tp_pool s)"
    then show ?thesis using worker_top_ok [OF _ rel_take(1) [OF rel] q d] by simp
  next
    assume "tp_threads s t = Some (Asleep timed)" "op = worker_wake t timedout (tp_pool s)"
    then show ?thesis using worker_wake_ok [OF _ rel_take(2) [OF rel] q d] by simp
  next
    assume "tp_threads s t = Some (Running j)" "op = (Leaves, job_cleanup t (tp_pool s))"
    then show ?thesis using job_cleanup_ok [OF _ rel q] by simp
  qed
  then show "tp_inv limit (settle t op created new s)" using settle_inv [OF _ _ new sub max] by blast
  show "same_params (tp_pool s) (snd op)" using ok by blast
qed

lemma tp_section_inv:
  assumes step: "tp_section reliable s s'" and inv: "tp_inv limit s"
  shows "tp_inv limit s'"
  using step
proof (cases rule: tp_section.cases)
  case (Queue j new created r spawned p)
  then show ?thesis using queue_inv [OF inv] by blast
next
  case (Top t new created)
  then show ?thesis using worker_section_inv(1) [OF inv Top(3)] by blast
next
  case (Wake t timed timedout new created)
  then show ?thesis using worker_section_inv(1) [OF inv Wake(5)] by blast
next
  case (Return t j)
  obtain q where q: "queued (tp_pool s) q" and rel: "pool_rel (tp_pool s) (tp_threads s) 0 0"
    and sub: "tp_submitted s = tp_started s @ q" "distinct (tp_submitted s)"
    and max: "pool_maximum (tp_pool s) = limit" "pool_nthreads (tp_pool s) \<le> limit"
    using inv by (auto simp: tp_inv_def)
  note c = job_cleanup_ok [OF Return(2) rel q]
  have "pool_rel (job_cleanup t (tp_pool s)) ((tp_threads s)(t \<mapsto> At_top)) 0 0"
    using rel_put(2) [where t = t, OF _ c(1)] by simp
  then show ?thesis
    using Return(1) c sub max unfolding tp_inv_def same_params_def by (intro exI [of _ q]) simp
next
  case (Exit t j new created)
  then show ?thesis using worker_section_inv(1) [OF inv Exit(3)] by blast
next
  case (Await c returns p)
  then have "p = tp_pool s \<or> p = tp_pool s\<lparr>pool_wait := True\<rparr>" by (auto simp: sstack_thread_pool_wait_def split: if_splits)
  then show ?thesis using inv Await(1) by (auto simp: tp_inv_def pool_rel_def queued_def)
next
  case Destroy
  then show ?thesis
    using inv by (simp add: tp_inv_def pool_destroy_begin_def queued_def pool_rel_def)
next
  case (Await_destroy c returns p)
  then have "p = tp_pool s \<or> p = tp_pool s\<lparr>pool_wait := True\<rparr>" by (auto simp: pool_destroy_wait_def split: if_splits)
  then show ?thesis using inv Await_destroy(1) by (auto simp: tp_inv_def pool_rel_def queued_def)
qed

lemma deliver_fields [simp]:
  "tp_threads (deliver w s) = tp_threads s" "tp_submitted (deliver w s) = tp_submitted s" "tp_started (deliver w s) = tp_started s"
  "tp_pool (deliver w s) = tp_pool s\<lparr>pool_busycv := Quiet, pool_workcv := Quiet, pool_waitcv := Quiet\<rparr>"
  by (simp_all add: deliver_def Let_def)

lemma deliver_inv: "tp_inv limit (deliver w s) \<longleftrightarrow> tp_inv limit s"
  by (simp add: tp_inv_def pool_rel_def queued_def)

lemma tp_step_inv: "tp_step reliable s s' \<Longrightarrow> tp_inv limit s \<Longrightarrow> tp_inv limit s'"
  by (erule tp_step.cases) (auto simp: deliver_inv intro: tp_section_inv)

lemma tp_spurious_inv:
  assumes "tp_spurious reliable s s'" "tp_inv limit s"
  shows "tp_inv limit s'"
  using assms(1)
proof (cases rule: tp_spurious.cases)
  case (Worker t timed new created w)
  then show ?thesis using worker_section_inv(1) [OF assms(2) Worker(3)] by (auto simp: deliver_inv)
next
  case (Caller c x)
  then show ?thesis using assms(2) by (simp add: tp_inv_def)
qed

section \<open>Waiting jobs have a worker\<close>

definition served :: "tp_state \<Rightarrow> bool" where
  "served s \<longleftrightarrow> pool_head (tp_pool s) = None \<or> pool_destroy (tp_pool s) \<or> tp_threads s \<noteq> Map.empty"

lemma settle_served:
  assumes "pool_nthreads (snd op) \<le> pool_maximum (snd op)"
  shows "served (settle t op True new s)"
proof -
  obtain out p where op: "op = (out, p)" by fastforce
  show ?thesis
    using assms op by (cases out) (auto simp: served_def worker_cleanup_def Let_def)
qed

lemma queue_served:
  assumes inv: "tp_inv limit s" and limit: "1 \<le> limit"
    and run: "sstack_thread_pool_queue (Some j) True (tp_pool s) = Inr (r, spawned, p)"
    and j: "j \<notin> set (tp_submitted s)" and T: "\<not> spawned"
  shows "tp_threads s \<noteq> Map.empty"
proof -
  obtain q where q: "queued (tp_pool s) q" "pool_rel (tp_pool s) (tp_threads s) 0 0" "distinct q"
    "j \<notin> set q" "pool_maximum (tp_pool s) = limit"
    using inv j by (auto simp: tp_inv_def)
  obtain nx h where "append_job j (tp_pool s) = Inr (tp_pool s\<lparr>job_next := nx, pool_head := h, pool_tail := Some j\<rparr>)"
    using append_job_ok [OF q(1,3,4)] by blast
  then have "pool_idle (tp_pool s) > 0 \<or> pool_nthreads (tp_pool s) \<ge> limit"
    using run T q(5) by (auto simp: sstack_thread_pool_queue_def split: if_splits)
  then show ?thesis using q(2) limit by (auto simp: pool_rel_def asleep_def)
qed

lemma worker_section_served:
  assumes inv: "tp_inv limit s" and new: "new \<notin> dom (tp_threads s)"
    and t: "tp_threads s t = Some At_top \<and> op = worker_top t (tp_pool s) \<or>
      tp_threads s t = Some (Asleep timed) \<and> op = worker_wake t timedout (tp_pool s) \<or>
      tp_threads s t = Some (Running j) \<and> op = (Leaves, job_cleanup t (tp_pool s))"
  shows "served (settle t op True new s)"
  using settle_served [of op t new s] worker_section_inv(2) [OF assms] inv by (auto simp: tp_inv_def same_params_def)

lemma tp_section_served:
  assumes step: "tp_section True s s'" and inv: "tp_inv limit s" and limit: "1 \<le> limit" and served: "served s"
  shows "served s'"
  using step
proof (cases rule: tp_section.cases)
  case (Queue j new created r spawned p)
  then show ?thesis using queue_served [OF inv limit, of j r spawned p] by (auto simp: served_def)
next
  case (Top t new created)
  then show ?thesis using worker_section_served [OF inv Top(3)] by simp
next
  case (Wake t timed timedout new created)
  then show ?thesis using worker_section_served [OF inv Wake(5)] by simp
next
  case (Exit t j new created)
  then show ?thesis using worker_section_served [OF inv Exit(3)] by (simp del: settle.simps)
qed (use served in \<open>auto simp: served_def sstack_thread_pool_wait_def pool_destroy_begin_def pool_destroy_wait_def split: if_splits\<close>)

lemma deliver_served: "served (deliver w s) \<longleftrightarrow> served s"
  by (simp add: served_def)

lemma tp_step_served:
  assumes "tp_step True s s' \<or> tp_spurious True s s'" "tp_inv limit s" "1 \<le> limit" "served s"
  shows "served s'"
  using assms(1)
proof
  assume "tp_step True s s'"
  then show ?thesis by (cases rule: tp_step.cases) (auto simp: deliver_served intro: tp_section_served [OF _ assms(2-4)])
next
  assume "tp_spurious True s s'"
  then show ?thesis
  proof (cases rule: tp_spurious.cases)
    case (Worker t timed new created w)
    then show ?thesis using worker_section_served [OF assms(2) Worker(3)] by (auto simp: deliver_served)
  next
    case (Caller c x)
    then show ?thesis using assms(4) by (simp add: served_def)
  qed
qed

section \<open>No signal is lost\<close>

definition on_top :: "(tid \<rightharpoonup> place) \<Rightarrow> tid set" where
  "on_top T = {t. T t = Some At_top}"

text \<open>A caller of \<^verbatim>\<open>sstack_thread_pool_wait\<close> still has to wait, and will be notified.\<close>

definition waits_on :: "thread_pool \<Rightarrow> bool" where
  "waits_on p \<longleftrightarrow> pool_wait p \<and> (pool_head p \<noteq> None \<or> pool_active p \<noteq> [])"

text \<open>
  The invariant before the signals of a section are delivered: unless all sleeping workers have been signalled, there are no more jobs in
  the queue than workers that have been signalled, are being signalled or are at the top of the loop; and callers that
  sleep have a reason to or are being notified.
\<close>

definition owes :: "tp_state \<Rightarrow> bool" where
  "owes s \<longleftrightarrow>
     (let p = tp_pool s; T = tp_threads s; sig = tp_signalled s in
      sig \<subseteq> asleep T \<and>
      (pool_destroy p \<longrightarrow> pool_workcv p = Broadcast \<or> asleep T \<subseteq> sig) \<and>
      (asleep T \<subseteq> sig \<or> pool_workcv p = Broadcast \<or>
       length (tp_submitted s) \<le> length (tp_started s) + card sig + card (on_top T) + (if pool_workcv p = Signal then 1 else 0)) \<and>
      (\<forall>c. tp_callers s c = Some Waiting \<longrightarrow> pool_waitcv p = Broadcast \<or> waits_on p) \<and>
      (\<forall>c. tp_callers s c = Some Destroying_busy \<longrightarrow> pool_busycv p = Broadcast \<or> pool_destroy p \<and> 0 < pool_nthreads p))"

definition quiet :: "thread_pool \<Rightarrow> bool" where
  "quiet p \<longleftrightarrow> pool_busycv p = Quiet \<and> pool_workcv p = Quiet \<and> pool_waitcv p = Quiet"

definition wake_inv :: "tp_state \<Rightarrow> bool" where
  "wake_inv s \<longleftrightarrow> quiet (tp_pool s) \<and> owes s"

lemma owesI:
  assumes "tp_signalled s \<subseteq> asleep (tp_threads s)"
    "pool_destroy (tp_pool s) \<Longrightarrow> pool_workcv (tp_pool s) = Broadcast \<or> asleep (tp_threads s) \<subseteq> tp_signalled s"
    "asleep (tp_threads s) \<subseteq> tp_signalled s \<or> pool_workcv (tp_pool s) = Broadcast \<or> length (tp_submitted s) \<le> length (tp_started s) +
      card (tp_signalled s) + card (on_top (tp_threads s)) + (if pool_workcv (tp_pool s) = Signal then 1 else 0)"
    "\<And>c. tp_callers s c = Some Waiting \<Longrightarrow> pool_waitcv (tp_pool s) = Broadcast \<or> waits_on (tp_pool s)"
    "\<And>c. tp_callers s c = Some Destroying_busy \<Longrightarrow>
      pool_busycv (tp_pool s) = Broadcast \<or> pool_destroy (tp_pool s) \<and> 0 < pool_nthreads (tp_pool s)"
  shows "owes s"
  unfolding owes_def Let_def using assms by blast

lemma wake_invD:
  assumes "wake_inv s"
  shows "tp_signalled s \<subseteq> asleep (tp_threads s)" "pool_destroy (tp_pool s) \<Longrightarrow> asleep (tp_threads s) \<subseteq> tp_signalled s"
    "asleep (tp_threads s) \<subseteq> tp_signalled s \<or>
      length (tp_submitted s) \<le> length (tp_started s) + card (tp_signalled s) + card (on_top (tp_threads s))"
    "\<And>c. tp_callers s c = Some Waiting \<Longrightarrow> waits_on (tp_pool s)"
    "\<And>c. tp_callers s c = Some Destroying_busy \<Longrightarrow> pool_destroy (tp_pool s) \<and> 0 < pool_nthreads (tp_pool s)"
    "quiet (tp_pool s)"
  using assms by (auto simp: wake_inv_def quiet_def owes_def Let_def)

lemma deliver_wake:
  assumes "owes s" "finite (dom (tp_threads s))"
    "asleep (tp_threads s) - tp_signalled s = {} \<or> w \<in> asleep (tp_threads s) - tp_signalled s \<or> pool_workcv (tp_pool s) = Quiet"
  shows "wake_inv (deliver w s)"
proof -
  let ?p = "tp_pool s" and ?T = "tp_threads s" and ?sig = "tp_signalled s"
  have sub: "?sig \<subseteq> asleep ?T" using assms(1) by (simp add: owes_def Let_def)
  then have fin: "finite ?sig" using finite_asleep [OF assms(2)] finite_subset by blast
  have sig: "tp_signalled (deliver w s) = ?sig \<union> (case pool_workcv ?p of Quiet \<Rightarrow> {} | Signal \<Rightarrow> {w} \<inter> asleep ?T | Broadcast \<Rightarrow> asleep ?T)"
    by (simp add: deliver_def Let_def)
  have covered: "asleep ?T \<subseteq> tp_signalled (deliver w s) \<or>
      length (tp_submitted s) \<le> length (tp_started s) + card (tp_signalled (deliver w s)) + card (on_top ?T)"
  proof (cases "pool_workcv ?p")
    case Signal
    then show ?thesis
    proof (cases "w \<in> asleep ?T - ?sig")
      case True
      then have "card (tp_signalled (deliver w s)) = Suc (card ?sig)" using sig Signal fin by simp
      then show ?thesis using assms(1) Signal sig by (auto simp: owes_def Let_def)
    qed (use assms(3) Signal sig in auto)
  qed (use assms(1) sig in \<open>auto simp: owes_def Let_def\<close>)
  have "tp_signalled (deliver w s) \<subseteq> asleep ?T" using sub sig by (auto split: cond.splits)
  moreover have "pool_destroy ?p \<Longrightarrow> asleep ?T \<subseteq> tp_signalled (deliver w s)" using assms(1) sig by (auto simp: owes_def Let_def)
  moreover have callers: "tp_callers (deliver w s) c = Some x \<Longrightarrow> tp_callers s c = Some x \<and>
      (x = Waiting \<longrightarrow> pool_waitcv ?p \<noteq> Broadcast) \<and> (x = Destroying_busy \<longrightarrow> pool_busycv ?p \<noteq> Broadcast)" for c x
    by (auto simp: deliver_def Let_def split: option.splits if_splits)
  have "tp_callers (deliver w s) c = Some Waiting \<Longrightarrow> waits_on ?p" for c
    using callers [of c Waiting] assms(1) by (auto simp: owes_def Let_def)
  moreover have "tp_callers (deliver w s) c = Some Destroying_busy \<Longrightarrow> pool_destroy ?p \<and> 0 < pool_nthreads ?p" for c
    using callers [of c Destroying_busy] assms(1) by (auto simp: owes_def Let_def)
  moreover have "waits_on (?p\<lparr>pool_busycv := Quiet, pool_workcv := Quiet, pool_waitcv := Quiet\<rparr>) = waits_on ?p" by (simp add: waits_on_def)
  ultimately show ?thesis
    using covered by (auto simp: wake_inv_def quiet_def owes_def Let_def)
qed

lemma card_less_one:
  assumes "finite A" "finite B" "A \<inter> B = {}"
  shows "card A + card B \<le> Suc (card (A - {t}) + card (B - {t}))"
proof (cases "t \<in> A")
  case True
  then have "B - {t} = B" using assms(3) by blast
  then show ?thesis using True assms(1) card_Suc_Diff1 [of A t] by simp
next
  case False
  then show ?thesis using assms(2) card_Suc_Diff1 [of B t] by (cases "t \<in> B") simp_all
qed

text \<open>What a worker does with the pool in its sections.\<close>

definition idle_out :: "thread_pool \<Rightarrow> outcome \<Rightarrow> bool" where
  "idle_out p out \<longleftrightarrow>
     (case out of Runs j \<Rightarrow> True | Leaves \<Rightarrow> pool_destroy p \<or> pool_head p = None | _ \<Rightarrow> pool_head p = None \<and> \<not> pool_destroy p)"

lemma worker_body_cv:
  assumes "quiet p" "worker_body t timedout p = (out, p')"
  shows "quiet p' \<and> idle_out p out \<and> (waits_on p \<longrightarrow> waits_on p')"
  using assms by (auto simp: worker_body_def Let_def quiet_def idle_out_def waits_on_def split: if_splits option.splits)

lemma worker_wait_cv:
  assumes "quiet p" "worker_wait t p = (out, p')"
  shows "quiet p' \<and> idle_out p out \<and> (waits_on p \<longrightarrow> waits_on p')"
  using assms worker_body_cv [OF assms(1)] by (auto simp: worker_wait_def idle_out_def split: if_splits)

lemma worker_wake_cv:
  assumes "quiet p" "worker_wake t timedout p = (out, p')"
  shows "quiet p' \<and> idle_out p out \<and> (waits_on p \<longrightarrow> waits_on p')"
  using assms worker_body_cv [OF assms(1)] worker_wait_cv [OF assms(1)] by (auto simp: worker_wake_def split: if_splits)

text \<open>At the top and after a job, waiting callers may be notified.\<close>

definition notifies :: "thread_pool \<Rightarrow> thread_pool \<Rightarrow> bool" where
  "notifies p p' \<longleftrightarrow> pool_workcv p' = Quiet \<and> pool_busycv p' = Quiet \<and> (waits_on p \<longrightarrow> pool_waitcv p' = Broadcast \<or> waits_on p')"

lemma job_cleanup_cv: "quiet p \<Longrightarrow> notifies p (job_cleanup t p)"
  by (auto simp: job_cleanup_def notify_waiters_def notifies_def quiet_def waits_on_def Let_def)

lemma worker_body_keeps:
  assumes "worker_body t timedout p = (out, p')"
  shows "pool_workcv p' = pool_workcv p \<and> pool_busycv p' = pool_busycv p \<and> pool_waitcv p' = pool_waitcv p \<and> idle_out p out \<and>
    (waits_on p \<longrightarrow> waits_on p')"
  using assms by (auto simp: worker_body_def Let_def idle_out_def waits_on_def split: if_splits option.splits)

lemma worker_top_cv:
  assumes "quiet p" "worker_top t p = (out, p')"
  shows "notifies p p' \<and> idle_out p out"
proof -
  define p1 where "p1 = p\<lparr>pool_idle := pool_idle p + 1\<rparr>"
  define p2 where "p2 = (if pool_wait p1 then notify_waiters p1 else p1)"
  have "worker_wait t p2 = (out, p')" using assms(2) unfolding worker_top_def p2_def p1_def Let_def .
  then have "pool_workcv p' = pool_workcv p2 \<and> pool_busycv p' = pool_busycv p2 \<and> pool_waitcv p' = pool_waitcv p2 \<and> idle_out p2 out \<and>
      (waits_on p2 \<longrightarrow> waits_on p')"
    using worker_body_keeps [of t _ p2 out p'] by (auto simp: worker_wait_def idle_out_def split: if_splits)
  moreover have "notifies p p2" "idle_out p2 out = idle_out p out"
    using assms(1) by (auto simp: p2_def p1_def notify_waiters_def notifies_def quiet_def waits_on_def idle_out_def split: outcome.splits)
  ultimately show ?thesis by (auto simp: notifies_def)
qed

text \<open>A worker that takes a job, goes to sleep or leaves; the number of jobs in the queue is 0 where it finds the queue empty.\<close>

lemma settle_owes:
  assumes inv: "tp_inv limit s" "wake_inv s" and new: "new \<notin> dom (tp_threads s)" and t: "tp_threads s t \<noteq> None"
    and out: "(\<exists>j. tp_threads s t = Some (Running j)) \<and> out = Leaves \<or> idle_out (tp_pool s) out"
    and p: "notifies (tp_pool s) p'" "same_params (tp_pool s) p'"
  shows "owes (settle t (out, p') created new s)" "pool_workcv (tp_pool (settle t (out, p') created new s)) = Quiet"
proof -
  let ?p = "tp_pool s" and ?T = "tp_threads s" and ?sig = "tp_signalled s" and ?s = "settle t (out, p') created new s"
  have fin: "finite (dom ?T)" and empty: "pool_head ?p = None \<longleftrightarrow> tp_submitted s = tp_started s"
    using inv(1) queued_empty by (auto simp: tp_inv_def pool_rel_def)
  have ow: "?sig \<subseteq> asleep ?T" "pool_destroy ?p \<Longrightarrow> asleep ?T \<subseteq> ?sig"
    "asleep ?T \<subseteq> ?sig \<or> length (tp_submitted s) \<le> length (tp_started s) + card ?sig + card (on_top ?T)"
    using inv(2) by (auto simp: wake_inv_def quiet_def owes_def Let_def)
  have fins: "finite (on_top ?T)" using fin by (rule rev_finite_subset) (auto simp: on_top_def)
  have "finite ?sig" using finite_asleep [OF fin] ow(1) finite_subset by blast
  moreover have "?sig \<inter> on_top ?T = {}" using ow(1) by (auto simp: asleep_def on_top_def)
  ultimately have less: "card ?sig + card (on_top ?T) \<le> Suc (card (?sig - {t}) + card (on_top ?T - {t}))"
    using fins by (intro card_less_one)
  have "on_top (tp_threads ?s) \<subseteq> insert t (insert new (dom ?T))"
    by (cases out) (auto simp: on_top_def Let_def split: prod.splits if_splits)
  then have fin': "finite (on_top (tp_threads ?s))" by (rule finite_subset) (use fin in simp)
  have sig: "tp_signalled ?s = ?sig - {t}" "tp_submitted ?s = tp_submitted s" by (cases out; simp add: Let_def split: prod.split)+
  have top: "on_top ?T - {t} \<subseteq> on_top (tp_threads ?s)"
    using new by (cases out) (auto simp: on_top_def Let_def split: prod.split)
  have asl: "asleep (tp_threads ?s) - {t} = asleep ?T - {t}"
    using new by (cases out) (auto simp: asleep_def Let_def split: prod.split)
  have gone: "t \<in> asleep (tp_threads ?s) \<Longrightarrow> pool_head ?p = None \<and> \<not> pool_destroy ?p"
    using out new t by (cases out) (auto simp: asleep_def idle_out_def Let_def split: prod.splits if_splits)
  have le: "card (?sig - {t}) + card (on_top ?T - {t}) \<le> card (tp_signalled ?s) + card (on_top (tp_threads ?s))"
    using card_mono [OF fin' top] sig(1) by simp
  have wk: "pool_workcv (tp_pool ?s) = Quiet" "pool_destroy (tp_pool ?s) = pool_destroy ?p" "waits_on (tp_pool ?s) = waits_on p'"
    "pool_waitcv (tp_pool ?s) = pool_waitcv p'"
    using p by (cases out; auto simp: notifies_def same_params_def worker_cleanup_def waits_on_def Let_def)+
  have busy: "pool_busycv (tp_pool ?s) = Broadcast \<or> 0 < pool_nthreads (tp_pool ?s)" if "pool_destroy ?p" "0 < pool_nthreads ?p"
    using that p(2) by (cases out) (auto simp: same_params_def worker_cleanup_def Let_def)
  have calls: "tp_callers ?s = tp_callers s" by (cases out) (simp_all add: Let_def split: prod.split)
  show "pool_workcv (tp_pool ?s) = Quiet" by (rule wk(1))
  have covered: "asleep (tp_threads ?s) \<subseteq> tp_signalled ?s \<or>
      length (tp_submitted ?s) \<le> length (tp_started ?s) + card (tp_signalled ?s) + card (on_top (tp_threads ?s))"
  proof (cases "asleep ?T \<subseteq> ?sig")
    case True
    then have "t \<notin> asleep (tp_threads ?s) \<Longrightarrow> ?thesis" using asl sig(1) by blast
    moreover have "tp_submitted s = tp_started s \<Longrightarrow> length (tp_submitted ?s) \<le> length (tp_started ?s)"
      using sig(2) by (cases out) (simp_all add: Let_def split: prod.split)
    ultimately show ?thesis using gone empty by linarith
  next
    case False
    then have jobs: "length (tp_submitted s) \<le> length (tp_started s) + card ?sig + card (on_top ?T)" "\<not> pool_destroy ?p"
      using ow(2,3) by auto
    have start: "length (tp_started ?s) = length (tp_started s) + (case out of Runs j \<Rightarrow> 1 | _ \<Rightarrow> 0)"
      by (cases out) (simp_all add: Let_def split: prod.split)
    consider j where "out = Runs j" | "pool_head ?p = None" | j where "?T t = Some (Running j)"
      using out jobs(2) by (cases out) (auto simp: idle_out_def)
    then show ?thesis
    proof cases
      case 1
      then show ?thesis using jobs(1) less le start sig(2) by simp
    next
      case 2
      then show ?thesis using empty start sig(2) by simp
    next
      case 3
      then have "?sig - {t} = ?sig" "on_top ?T - {t} = on_top ?T" using ow(1) by (auto simp: asleep_def on_top_def)
      then show ?thesis using jobs(1) le start sig(2) by simp
    qed
  qed
  note ow' = wake_invD [OF inv(2)]
  show "owes ?s"
  proof (rule owesI, goal_cases)
    case 1 then show ?case using ow(1) asl sig(1) by blast
  next
    case 2 then show ?case using gone asl ow(2) sig(1) wk(2) by blast
  next
    case 3 then show ?case using covered by auto
  next
    case (4 c) then show ?case using ow'(4) [of c] p(1) wk(3,4) calls by (simp add: notifies_def)
  next
    case (5 c) then show ?case using ow'(5) [of c] busy wk(2) calls by simp
  qed
qed

lemma worker_section_owes:
  assumes inv: "tp_inv limit s" "wake_inv s" and new: "new \<notin> dom (tp_threads s)"
    and t: "tp_threads s t = Some At_top \<and> op = worker_top t (tp_pool s) \<or>
      tp_threads s t = Some (Asleep timed) \<and> op = worker_wake t timedout (tp_pool s) \<or>
      tp_threads s t = Some (Running j) \<and> op = (Leaves, job_cleanup t (tp_pool s))"
  shows "owes (settle t op created new s)" "pool_workcv (tp_pool (settle t op created new s)) = Quiet"
proof -
  obtain out p' where op: "op = (out, p')" by fastforce
  have q: "quiet (tp_pool s)" using inv(2) by (simp add: wake_inv_def)
  have "notifies (tp_pool s) p' \<and> ((\<exists>j. tp_threads s t = Some (Running j)) \<and> out = Leaves \<or> idle_out (tp_pool s) out)"
    using t
  proof (elim disjE conjE)
    assume "op = worker_top t (tp_pool s)"
    then show ?thesis using worker_top_cv [OF q, of t out p'] op by simp
  next
    assume "op = worker_wake t timedout (tp_pool s)"
    then show ?thesis using worker_wake_cv [OF q, of t timedout out p'] op by (simp add: notifies_def quiet_def)
  next
    assume "tp_threads s t = Some (Running j)" "op = (Leaves, job_cleanup t (tp_pool s))"
    then show ?thesis using job_cleanup_cv [OF q, of t] op by simp
  qed
  moreover have "same_params (tp_pool s) p'" using worker_section_inv(2) [OF inv(1) new t] op by simp
  ultimately show "owes (settle t op created new s)" "pool_workcv (tp_pool (settle t op created new s)) = Quiet"
    using settle_owes [OF inv new, of t out p' created] t op by auto
qed

lemma queue_owes:
  assumes inv: "tp_inv limit s" "wake_inv s" and j: "j \<notin> set (tp_submitted s)" and new: "new \<notin> dom (tp_threads s)"
    and run: "sstack_thread_pool_queue (Some j) created (tp_pool s) = Inr (r, spawned, p)"
  shows "owes (s\<lparr>tp_pool := p, tp_submitted := tp_submitted s @ [j],
      tp_threads := (if spawned then (tp_threads s)(new \<mapsto> At_top) else tp_threads s)\<rparr>)" (is "owes ?s")
proof -
  let ?p = "tp_pool s" and ?T = "tp_threads s"
  obtain q where q: "queued ?p q" "pool_rel ?p ?T 0 0" "distinct q" "j \<notin> set q" using inv(1) j by (auto simp: tp_inv_def)
  obtain nx h where "append_job j ?p = Inr (?p\<lparr>job_next := nx, pool_head := h, pool_tail := Some j\<rparr>)"
    "queued (?p\<lparr>job_next := nx, pool_head := h, pool_tail := Some j\<rparr>) (q @ [j])"
    using append_job_ok [OF q(1,3,4)] by blast
  moreover from this have "h \<noteq> None" using queued_empty by fastforce
  ultimately have p: "pool_head p \<noteq> None" "pool_destroy p = pool_destroy ?p" "pool_wait p = pool_wait ?p" "pool_nthreads ?p \<le> pool_nthreads p"
      "pool_workcv p = (if pool_idle ?p > 0 then Signal else Quiet)" "spawned \<Longrightarrow> pool_idle ?p \<le> 0"
    using run wake_invD(6) [OF inv(2)] by (auto simp: sstack_thread_pool_queue_def quiet_def split: if_splits)
  note ow = wake_invD [OF inv(2)]
  have none: "asleep ?T = {}" if "\<not> pool_idle ?p > 0" using that q(2) finite_asleep [of ?T] by (auto simp: pool_rel_def)
  have asl: "asleep (tp_threads ?s) = asleep ?T" using new asleep_upd(3) [of ?T new] by (auto simp: domIff)
  have cov: "asleep (tp_threads ?s) \<subseteq> tp_signalled s \<or> length (tp_submitted ?s) \<le>
      length (tp_started ?s) + card (tp_signalled ?s) + card (on_top (tp_threads ?s)) + (if pool_workcv p = Signal then 1 else 0)"
    using ow(3) p(5,6) none asl by (cases "pool_idle ?p > 0") auto
  show ?thesis
  proof (rule owesI, goal_cases)
    case 1 then show ?case using ow(1) asl by simp
  next
    case 2 then show ?case using ow(2) asl p(2) by simp
  next
    case 3 then show ?case using cov by auto
  next
    case (4 c) then show ?case using ow(4) p(1,3) by (simp add: waits_on_def)
  next
    case (5 c) then show ?case using ow(5) p(2,4) by fastforce
  qed
qed

lemma tp_section_owes:
  assumes step: "tp_section reliable s s'" and inv: "tp_inv limit s" "wake_inv s"
  shows "owes s'"
  using step
proof (cases rule: tp_section.cases)
  case (Queue j new created r spawned p)
  then show ?thesis using queue_owes [OF inv] by blast
next
  case (Top t new created)
  then show ?thesis using worker_section_owes(1) [OF inv Top(3)] by blast
next
  case (Wake t timed timedout new created)
  then show ?thesis using worker_section_owes(1) [OF inv Wake(5)] by blast
next
  case (Return t j)
  have n: "notifies (tp_pool s) (job_cleanup t (tp_pool s))" using job_cleanup_cv inv(2) by (simp add: wake_inv_def)
  have asl: "asleep ((tp_threads s)(t \<mapsto> At_top)) = asleep (tp_threads s)" using Return(2) by (auto simp: asleep_def)
  have "on_top (tp_threads s) \<subseteq> on_top ((tp_threads s)(t \<mapsto> At_top))" by (auto simp: on_top_def)
  moreover have "finite (on_top ((tp_threads s)(t \<mapsto> At_top)))"
    by (rule finite_subset [of _ "insert t (dom (tp_threads s))"]) (use inv(1) in \<open>auto simp: on_top_def tp_inv_def pool_rel_def\<close>)
  ultimately have "card (on_top (tp_threads s)) \<le> card (on_top ((tp_threads s)(t \<mapsto> At_top)))" by (intro card_mono)
  moreover have "same_params (tp_pool s) (job_cleanup t (tp_pool s))"
    by (simp add: job_cleanup_def notify_waiters_def same_params_def Let_def)
  ultimately have "length (tp_submitted s) \<le> length (tp_started s) + card (tp_signalled s) + card (on_top (tp_threads s)) \<Longrightarrow>
      length (tp_submitted s) \<le> length (tp_started s) + card (tp_signalled s) + card (on_top ((tp_threads s)(t \<mapsto> At_top)))"
    and "pool_destroy (job_cleanup t (tp_pool s)) = pool_destroy (tp_pool s)" "pool_nthreads (job_cleanup t (tp_pool s)) = pool_nthreads (tp_pool s)"
    by (simp_all add: same_params_def)
  note new = this
  note ow = wake_invD [OF inv(2)]
  show ?thesis
    unfolding Return(1)
  proof (rule owesI, goal_cases)
    case 1 then show ?case using ow(1) asl by simp
  next
    case 2 then show ?case using ow(2) asl new(2) by simp
  next
    case 3 then show ?case using ow(3) asl new(1) n by (auto simp: notifies_def)
  next
    case (4 c) then show ?case using ow(4) n by (auto simp: notifies_def)
  next
    case (5 c) then show ?case using ow(5) new(2,3) by simp
  qed
next
  case (Exit t j new created)
  then show ?thesis using worker_section_owes(1) [OF inv Exit(3)] by blast
next
  case (Await c returns p)
  then have "p = tp_pool s \<and> returns \<or> p = tp_pool s\<lparr>pool_wait := True\<rparr> \<and> waits_on p \<and> \<not> returns"
    by (auto simp: sstack_thread_pool_wait_def waits_on_def split: if_splits)
  then show ?thesis
    unfolding Await(1) by (intro owesI) (use wake_invD [OF inv(2)] in \<open>auto simp: waits_on_def split: if_splits\<close>)
next
  case Destroy
  show ?thesis
    unfolding Destroy by (intro owesI) (use wake_invD [OF inv(2)] in \<open>auto simp: pool_destroy_begin_def waits_on_def\<close>)
next
  case (Await_destroy c returns p)
  then have "p = tp_pool s \<or> p = tp_pool s\<lparr>pool_wait := True\<rparr>" "pool_active p \<noteq> [] \<or> returns \<or> 0 < pool_nthreads p"
    using inv(1) by (auto simp: pool_destroy_wait_def tp_inv_def pool_rel_def split: if_splits)
  then show ?thesis
    unfolding Await_destroy(1) by (intro owesI) (use wake_invD [OF inv(2)] Await_destroy(2) in \<open>auto simp: waits_on_def split: if_splits\<close>)
qed

lemma tp_step_wake:
  assumes step: "tp_step reliable s s' \<or> tp_spurious reliable s s'" and inv: "tp_inv limit s" "wake_inv s"
  shows "wake_inv s'"
  using step
proof
  assume "tp_step reliable s s'"
  then show ?thesis
  proof (cases rule: tp_step.cases)
    case (Section s1 w)
    then have "finite (dom (tp_threads s1))" using tp_section_inv [OF Section(2) inv(1)] by (auto simp: tp_inv_def pool_rel_def)
    then show ?thesis using deliver_wake [OF tp_section_owes [OF Section(2) inv]] Section(1,3) by blast
  qed
next
  assume "tp_spurious reliable s s'"
  then show ?thesis
  proof (cases rule: tp_spurious.cases)
    case (Worker t timed new created w)
    let ?s = "settle t (worker_wake t False (tp_pool s)) created new s"
    have "owes ?s" by (rule worker_section_owes(1) [OF inv Worker(3)]) (use Worker(2) in blast)
    moreover have "pool_workcv (tp_pool ?s) = Quiet" by (rule worker_section_owes(2) [OF inv Worker(3)]) (use Worker(2) in blast)
    moreover have "tp_inv limit ?s" by (rule worker_section_inv(1) [OF inv(1) Worker(3)]) (use Worker(2) in blast)
    ultimately show ?thesis unfolding Worker(1) by (intro deliver_wake) (auto simp: tp_inv_def pool_rel_def)
  next
    case (Caller c x)
    then show ?thesis using inv(2) by (auto simp: wake_inv_def owes_def Let_def split: if_splits)
  qed
qed

section \<open>Reachable states keep the invariants\<close>

lemma created_inv:
  assumes "sstack_thread_pool_create mem mn mx linger = Inr p0" "1 \<le> sint mx" "tp_reach reliable p0 s"
  shows "tp_inv (sint mx) s" "wake_inv s" "reliable \<Longrightarrow> served s"
proof -
  have p0: "queued p0 []" "pool_rel p0 Map.empty 0 0" "pool_maximum p0 = sint mx" "pool_nthreads p0 \<le> sint mx"
    "pool_head p0 = None" "quiet p0"
    using assms(1,2)
    by (auto simp: sstack_thread_pool_create_def queued_def pool_rel_def asleep_def running_def quiet_def split: if_splits)
  have "tp_inv (sint mx) s \<and> wake_inv s \<and> (reliable \<longrightarrow> served s)"
    using assms(3)
  proof (induction rule: tp_reach.induct)
    case Start
    then show ?case using p0 by (simp add: tp_inv_def served_def tp_start_def wake_inv_def owes_def asleep_def)
  next
    case (Step s s')
    then show ?case
      using tp_step_inv [of reliable s s'] tp_step_wake [of reliable s s'] tp_step_served [of s s'] assms(2) by auto
  next
    case (Spurious s s')
    then show ?case
      using tp_spurious_inv [of reliable s s'] tp_step_wake [of reliable s s'] tp_step_served [of s s'] assms(2) by auto
  qed
  then show "tp_inv (sint mx) s" "wake_inv s" "reliable \<Longrightarrow> served s" by simp_all
qed

lemma pending_runs:
  assumes head: "pool_head p = Some j" and alive: "\<not> pool_destroy p"
  shows "\<exists>p'. worker_top t p = (Runs j, p')" "\<exists>p'. worker_wake t False p = (Runs j, p')"
  using assms
  by (simp_all add: worker_top_def worker_wake_def worker_wait_def worker_body_def notify_waiters_def Let_def)

text \<open>The receiver of a signal can always be chosen.\<close>

lemma some_delivery:
  assumes "tp_section reliable s s'"
  shows "\<exists>w. tp_step reliable s (deliver w s')"
  using tp_step.Section [OF assms] by blast

text \<open>A worker that is awake takes the first job of the queue in its next section.\<close>

lemma worker_starts:
  assumes head: "pool_head (tp_pool s) = Some j" and alive: "\<not> pool_destroy (tp_pool s)"
    and t: "tp_threads s t = Some At_top \<or> t \<in> tp_signalled s \<and> tp_threads s t = Some (Asleep b)" and fin: "finite (dom (tp_threads s))"
  shows "\<exists>s'. tp_step reliable s s' \<and> tp_started s' = tp_started s @ [j]"
proof -
  obtain new where new: "new \<notin> dom (tp_threads s)" using ex_new_if_finite [OF _ fin] by auto
  have "\<exists>s1. tp_section reliable s s1 \<and> tp_started s1 = tp_started s @ [j]"
    using t
  proof
    assume "tp_threads s t = Some At_top"
    then have "tp_section reliable s (settle t (worker_top t (tp_pool s)) True new s)"
      using new by (intro tp_section.Top) simp_all
    then show ?thesis using pending_runs(1) [OF head alive, of t] by fastforce
  next
    assume "t \<in> tp_signalled s \<and> tp_threads s t = Some (Asleep b)"
    then have "tp_section reliable s (settle t (worker_wake t False (tp_pool s)) True new s)"
      using new by (intro tp_section.Wake) simp_all
    then show ?thesis using pending_runs(2) [OF head alive, of t] by fastforce
  qed
  then obtain s1 w where "tp_step reliable s (deliver w s1)" "tp_started s1 = tp_started s @ [j]" using some_delivery by blast
  then show ?thesis by (intro exI [of _ "deliver w s1"]) (simp add: deliver_def Let_def)
qed

lemma job_cleanup_fields:
  "pool_head (job_cleanup t p) = pool_head p" "pool_destroy (job_cleanup t p) = pool_destroy p"
  by (simp_all add: job_cleanup_def notify_waiters_def Let_def)

lemma thread_starts:
  assumes head: "pool_head (tp_pool s) = Some j" and alive: "\<not> pool_destroy (tp_pool s)"
    and t: "tp_threads s t = Some w" "t \<in> asleep (tp_threads s) \<Longrightarrow> t \<in> tp_signalled s" and fin: "finite (dom (tp_threads s))"
  shows "\<exists>s'. (tp_step reliable)\<^sup>*\<^sup>* s s' \<and> tp_started s' = tp_started s @ [j]"
proof (cases w)
  case (Running k)
  let ?s = "s\<lparr>tp_pool := job_cleanup t (tp_pool s), tp_threads := (tp_threads s)(t \<mapsto> At_top)\<rparr>"
  have "tp_section reliable s ?s" by (rule tp_section.Return) (use t(1) Running in simp)
  then obtain w where "tp_step reliable s (deliver w ?s)" using some_delivery by blast
  moreover have "\<exists>s'. tp_step reliable (deliver w ?s) s' \<and> tp_started s' = tp_started (deliver w ?s) @ [j]"
    by (rule worker_starts [where t = t])
      (use head alive fin in \<open>simp_all add: job_cleanup_fields deliver_def Let_def\<close>)
  moreover have "tp_started (deliver w ?s) = tp_started s" by (simp add: deliver_def Let_def)
  ultimately show ?thesis by (metis converse_rtranclp_into_rtranclp r_into_rtranclp)
next
  case At_top
  then show ?thesis using worker_starts [OF head alive _ fin, of t] t by blast
next
  case (Asleep b)
  then have "t \<in> tp_signalled s" using t by (auto simp: asleep_def)
  then show ?thesis using worker_starts [OF head alive _ fin, of t b] t(1) Asleep by blast
qed

text \<open>While a job waits in the queue of a pool that can create workers, some worker is awake.\<close>

lemma some_awake:
  assumes inv: "tp_inv limit s" "wake_inv s" "served s" and alive: "\<not> pool_destroy (tp_pool s)"
    and waits: "tp_submitted s = tp_started s @ j # js"
  obtains t w where "tp_threads s t = Some w" "t \<in> asleep (tp_threads s) \<Longrightarrow> t \<in> tp_signalled s"
proof (cases "asleep (tp_threads s) \<subseteq> tp_signalled s")
  case True
  have "pool_head (tp_pool s) = Some j" using inv(1) waits by (auto simp: tp_inv_def queued_def)
  then obtain t w where "tp_threads s t = Some w" using inv(3) alive by (auto simp: served_def fun_eq_iff)
  then show thesis using that True by blast
next
  case False
  then have "0 < card (tp_signalled s) + card (on_top (tp_threads s))" using wake_invD(3) [OF inv(2)] waits by auto
  then have "tp_signalled s \<noteq> {} \<or> on_top (tp_threads s) \<noteq> {}" by (auto simp: card_gt_0_iff)
  then obtain t where "t \<in> tp_signalled s \<or> t \<in> on_top (tp_threads s)" by blast
  moreover have "\<exists>w. tp_threads s t = Some w"
    using calculation wake_invD(1) [OF inv(2)] by (auto simp: asleep_def on_top_def)
  ultimately show thesis using that by (auto simp: on_top_def asleep_def)
qed

section \<open>Properties of the thread pool\<close>

definition sample_pool :: thread_pool where
  "sample_pool = \<lparr>pool_busycv = Quiet, pool_workcv = Quiet, pool_waitcv = Quiet, pool_active = [], pool_head = None, pool_tail = None, job_next = (\<lambda>_. None),
     pool_wait = False, pool_destroy = False, pool_linger = 0, pool_minimum = 1, pool_maximum = 2,
     pool_nthreads = 0, pool_idle = 0\<rparr>"

definition sample_tp :: tp_state where
  "sample_tp = \<lparr>tp_pool = sample_pool\<lparr>pool_head := Some 7, pool_tail := Some 7, pool_nthreads := 1\<rparr>,
     tp_threads = [0 \<mapsto> At_top], tp_signalled = {}, tp_callers = Map.empty, tp_submitted = [7], tp_started = []\<rparr>"

lemma sample_created: "sstack_thread_pool_create True 1 2 0 = Inr sample_pool"
  by (simp add: sstack_thread_pool_create_def sample_pool_def)

lemma sample_reach: "tp_reach True sample_pool sample_tp"
proof -
  let ?s = "tp_start sample_pool"
  have "sstack_thread_pool_queue (Some 7) True (tp_pool ?s) = Inr (0, True, tp_pool sample_tp)"
    by (simp add: sstack_thread_pool_queue_def append_job_def sample_pool_def sample_tp_def tp_start_def fun_eq_iff)
  then have "tp_section True ?s (?s\<lparr>tp_pool := tp_pool sample_tp, tp_submitted := tp_submitted ?s @ [7],
      tp_threads := (if True then (tp_threads ?s)(0 \<mapsto> At_top) else tp_threads ?s)\<rparr>)"
    by (intro tp_section.Queue) (simp_all add: tp_start_def)
  then have "tp_section True ?s sample_tp" by (simp add: sample_tp_def tp_start_def)
  then have "tp_step True ?s (deliver 0 sample_tp)" by (rule tp_step.Section) (auto simp: sample_tp_def asleep_def)
  moreover have "deliver 0 sample_tp = sample_tp" by (simp add: deliver_def sample_tp_def sample_pool_def)
  ultimately show ?thesis using tp_reach.Step [OF tp_reach.Start] by metis
qed

text \<open>
  C9: In every state that workers and callers can reach from a newly created pool, with
  worker creation failing at any time, no job has been lost, started twice or overtaken:
  the jobs started so far, followed by the jobs in the queue, are the jobs submitted, in
  the order of submission.
\<close>

theorem pool_jobs_in_order:
  assumes "sstack_thread_pool_create mem mn mx linger = Inr p0" "1 \<le> sint mx" "tp_reach reliable p0 s"
  shows "\<exists>q. job_chain (job_next (tp_pool s)) (pool_head (tp_pool s)) q \<and>
    tp_submitted s = tp_started s @ q \<and> distinct (tp_submitted s)"
  using created_inv(1) [OF assms] by (auto simp: tp_inv_def queued_def)

theorem pool_jobs_in_order_witness:
  "sstack_thread_pool_create True 1 2 0 = Inr sample_pool \<and> tp_reach True sample_pool sample_tp \<and>
   (\<exists>q. job_chain (job_next (tp_pool sample_tp)) (pool_head (tp_pool sample_tp)) q \<and>
     tp_submitted sample_tp = tp_started sample_tp @ q \<and> distinct (tp_submitted sample_tp))"
  using pool_jobs_in_order [OF sample_created _ sample_reach] sample_created sample_reach by simp

text \<open>
  C24: In every reachable state the counters of the pool are exact: \<^verbatim>\<open>pool_nthreads\<close> is the
  number of live workers, never above the maximum, \<^verbatim>\<open>pool_idle\<close> the number of sleeping ones, and
  the list of active workers holds the workers that run a job, each once.
\<close>

theorem pool_counters_exact:
  assumes "sstack_thread_pool_create mem mn mx linger = Inr p0" "1 \<le> sint mx" "tp_reach reliable p0 s"
  shows "finite (dom (tp_threads s)) \<and> pool_nthreads (tp_pool s) = int (card (dom (tp_threads s))) \<and>
    pool_nthreads (tp_pool s) \<le> sint mx \<and>
    pool_idle (tp_pool s) = int (card {t. \<exists>b. tp_threads s t = Some (Asleep b)}) \<and>
    distinct (pool_active (tp_pool s)) \<and>
    set (pool_active (tp_pool s)) = {t. \<exists>j. tp_threads s t = Some (Running j)}"
  using created_inv(1) [OF assms] by (auto simp: tp_inv_def pool_rel_def asleep_def running_def)

theorem pool_counters_exact_witness:
  "sstack_thread_pool_create True 1 2 0 = Inr sample_pool \<and> tp_reach True sample_pool sample_tp \<and>
   pool_nthreads (tp_pool sample_tp) = int (card (dom (tp_threads sample_tp))) \<and> pool_nthreads (tp_pool sample_tp) \<le> 2"
  using pool_counters_exact [OF sample_created _ sample_reach] sample_created sample_reach by simp

text \<open>
  C34: \<^verbatim>\<open>sstack_thread_pool_wait\<close> returns only when every submitted job has been started and
  no worker runs one.  \<^verbatim>\<open>sstack_thread_pool_destroy\<close> goes on to free the pool only when no
  worker is left that could still use it.
\<close>

theorem pool_wait_destroy_safe:
  assumes "sstack_thread_pool_create mem mn mx linger = Inr p0" "1 \<le> sint mx" "tp_reach reliable p0 s"
  shows "(fst (sstack_thread_pool_wait (tp_pool s)) \<longrightarrow>
      tp_started s = tp_submitted s \<and> (\<forall>t j. tp_threads s t \<noteq> Some (Running j))) \<and>
    (fst (pool_destroy_wait (tp_pool s)) \<longrightarrow> tp_threads s = Map.empty)"
proof -
  obtain q where q: "queued (tp_pool s) q" and rel: "pool_rel (tp_pool s) (tp_threads s) 0 0"
    and sub: "tp_submitted s = tp_started s @ q"
    using created_inv(1) [OF assms] by (auto simp: tp_inv_def)
  have "tp_started s = tp_submitted s \<and> (\<forall>t j. tp_threads s t \<noteq> Some (Running j))"
    if "fst (sstack_thread_pool_wait (tp_pool s))"
    using that q rel sub queued_empty [OF q]
    by (auto simp: sstack_thread_pool_wait_def pool_rel_def running_def split: if_splits)
  moreover have "tp_threads s = Map.empty" if "fst (pool_destroy_wait (tp_pool s))"
    using that rel by (auto simp: pool_destroy_wait_def pool_rel_def split: if_splits)
  ultimately show ?thesis by blast
qed

theorem pool_wait_destroy_safe_witness:
  "fst (sstack_thread_pool_wait sample_pool) \<and> fst (pool_destroy_wait sample_pool) \<and>
   tp_reach True sample_pool (tp_start sample_pool)"
  using pool_wait_destroy_safe [OF sample_created _ tp_reach.Start] tp_reach.Start [of True sample_pool]
  by (simp add: sstack_thread_pool_wait_def pool_destroy_wait_def sample_pool_def tp_start_def)

text \<open>
  C35: No wake-up of the pool is lost.  In every reachable state, with signals that go to any one of the waiting workers and with
  spurious wake-ups at any time: if some worker sleeps without having been signalled, there are no more jobs in the queue than workers that
  have been signalled or are about to look at the queue; when the pool is being destroyed, no worker sleeps
  unsignalled; a caller sleeps in \<^verbatim>\<open>sstack_thread_pool_wait\<close> only while jobs are queued or run and the
  pool knows that somebody waits; a caller sleeps in the last loop of \<^verbatim>\<open>sstack_thread_pool_destroy\<close> only
  while workers are left.  If workers can always be created and the pool is not being destroyed, the workers can start the first job of
  the queue by themselves: with the signals sent so far and no spurious wake-up.
\<close>

theorem pool_no_lost_wakeup:
  assumes create: "sstack_thread_pool_create mem mn mx linger = Inr p0" and mx: "1 \<le> sint mx"
    and reach: "tp_reach reliable p0 s"
  shows "tp_signalled s \<subseteq> asleep (tp_threads s) \<and>
    (asleep (tp_threads s) \<subseteq> tp_signalled s \<or>
      length (tp_submitted s) - length (tp_started s) \<le> card (tp_signalled s) + card {t. tp_threads s t = Some At_top}) \<and>
    (pool_destroy (tp_pool s) \<longrightarrow> asleep (tp_threads s) \<subseteq> tp_signalled s) \<and>
    (\<forall>c. tp_callers s c = Some Waiting \<longrightarrow>
      pool_wait (tp_pool s) \<and> (pool_head (tp_pool s) \<noteq> None \<or> pool_active (tp_pool s) \<noteq> [])) \<and>
    (\<forall>c. tp_callers s c = Some Destroying_busy \<longrightarrow> pool_destroy (tp_pool s) \<and> tp_threads s \<noteq> Map.empty) \<and>
    (\<forall>j js. reliable \<and> \<not> pool_destroy (tp_pool s) \<and> tp_submitted s = tp_started s @ j # js \<longrightarrow>
      (\<exists>s'. (tp_step reliable)\<^sup>*\<^sup>* s s' \<and> tp_started s' = tp_started s @ [j]))"
proof -
  note inv = created_inv [OF create mx reach]
  note ow = wake_invD [OF inv(2)]
  have fin: "finite (dom (tp_threads s))" and n: "pool_nthreads (tp_pool s) = int (card (dom (tp_threads s)))"
    using inv(1) by (auto simp: tp_inv_def pool_rel_def)
  have "\<exists>s'. (tp_step reliable)\<^sup>*\<^sup>* s s' \<and> tp_started s' = tp_started s @ [j]"
    if up: "reliable" "\<not> pool_destroy (tp_pool s)" "tp_submitted s = tp_started s @ j # js" for j js
  proof -
    have head: "pool_head (tp_pool s) = Some j" using inv(1) up(3) by (auto simp: tp_inv_def queued_def)
    obtain t w where "tp_threads s t = Some w" "t \<in> asleep (tp_threads s) \<Longrightarrow> t \<in> tp_signalled s"
      using some_awake [OF inv(1,2) inv(3) [OF up(1)] up(2,3)] by blast
    then show ?thesis by (rule thread_starts [OF head up(2) _ _ fin])
  qed
  moreover have "tp_threads s \<noteq> Map.empty" if "tp_callers s c = Some Destroying_busy" for c using ow(5) [OF that] n by auto
  ultimately show ?thesis using ow by (auto simp: waits_on_def on_top_def)
qed

text \<open>A worker found the queue empty and sleeps; a job is submitted and the worker is signalled.\<close>

definition sample_idle :: tp_state where
  "sample_idle = sample_tp\<lparr>tp_pool := sample_pool\<lparr>pool_head := Some 8, pool_tail := Some 8, pool_nthreads := 1, pool_idle := 1\<rparr>,
     tp_threads := [0 \<mapsto> Asleep False], tp_signalled := {0}, tp_submitted := [7, 8], tp_started := [7]\<rparr>"

lemma only_worker:
  assumes "tp_section reliable s s'" "asleep (tp_threads s') \<subseteq> {t}" "tp_signalled s' = {}"
  shows "tp_step reliable s (deliver t s')"
  using assms(1) by (rule tp_step.Section) (use assms(2,3) in auto)

lemma sample_idle_reach: "tp_reach True sample_pool sample_idle"
proof -
  note computes = sample_tp_def sample_idle_def sample_pool_def deliver_def asleep_def worker_top_def worker_wait_def worker_body_def
    job_cleanup_def notify_waiters_def Let_def
  define s1 where "s1 = sample_tp\<lparr>tp_pool := sample_pool\<lparr>pool_active := [0], pool_nthreads := 1\<rparr>,
    tp_threads := [0 \<mapsto> Running 7], tp_started := [7]\<rparr>"
  define s2 where "s2 = s1\<lparr>tp_pool := sample_pool\<lparr>pool_nthreads := 1\<rparr>, tp_threads := [0 \<mapsto> At_top]\<rparr>"
  define s3 where "s3 = s1\<lparr>tp_pool := sample_pool\<lparr>pool_nthreads := 1, pool_idle := 1\<rparr>, tp_threads := [0 \<mapsto> Asleep False]\<rparr>"
  define s4 where "s4 = s3\<lparr>tp_pool := tp_pool sample_idle\<lparr>pool_workcv := Signal\<rparr>, tp_submitted := [7, 8]\<rparr>"
  have "tp_section True sample_tp s1"
    using tp_section.Top [of sample_tp 0 1 True True] by (simp add: s1_def computes)
  moreover have "tp_section True s1 s2"
    using tp_section.Return [of s1 0 7 True] by (simp add: s2_def s1_def computes)
  moreover have "tp_section True s2 s3"
    using tp_section.Top [of s2 0 1 True True] by (simp add: s3_def s2_def s1_def computes)
  moreover have "tp_section True s3 s4"
    using tp_section.Queue [of 8 s3 1 True True 0 False "tp_pool s4"]
    by (simp add: s4_def s3_def s1_def computes sstack_thread_pool_queue_def append_job_def fun_eq_iff)
  moreover have "asleep (tp_threads s1) \<subseteq> {0}" "asleep (tp_threads s2) \<subseteq> {0}" "asleep (tp_threads s3) \<subseteq> {0}" "asleep (tp_threads s4) \<subseteq> {0}"
    "tp_signalled s1 = {}" "tp_signalled s2 = {}" "tp_signalled s3 = {}" "tp_signalled s4 = {}"
    by (auto simp: s4_def s3_def s2_def s1_def computes split: if_splits)
  ultimately have "tp_step True sample_tp (deliver 0 s1)" "tp_step True s1 (deliver 0 s2)" "tp_step True s2 (deliver 0 s3)" "tp_step True s3 (deliver 0 s4)"
    using only_worker by blast+
  moreover have "deliver 0 s1 = s1" "deliver 0 s2 = s2" "deliver 0 s3 = s3" "deliver 0 s4 = sample_idle"
    by (simp_all add: s4_def s3_def s2_def s1_def computes fun_eq_iff, auto)
  ultimately show ?thesis using sample_reach by (metis tp_reach.Step)
qed

theorem pool_no_lost_wakeup_witness:
  "tp_reach True sample_pool sample_idle \<and> tp_signalled sample_idle = {0} \<and> tp_submitted sample_idle = tp_started sample_idle @ [8] \<and>
   (\<exists>s'. (tp_step True)\<^sup>*\<^sup>* sample_idle s' \<and> tp_started s' = [7, 8])"
  using pool_no_lost_wakeup [OF sample_created _ sample_idle_reach] sample_idle_reach
  by (simp add: sample_idle_def sample_tp_def sample_pool_def)

end
