(* ===== verification/Pool_List.thy ===== *)
theory Pool_List
  imports Bds_List Thread_Pool
begin

text \<open>
  The list of all thread pools of \<^verbatim>\<open>common/src/sstack_thread_pool.c\<close>, which creation and
  destruction change under \<^verbatim>\<open>thr_pool_lock\<close>, and the release of a destroyed pool.  The links
  \<^verbatim>\<open>pool_forw\<close> and \<^verbatim>\<open>pool_back\<close> are the two fields of a list heap; the pool that \<^verbatim>\<open>thr_pools\<close>
  points to takes the place of a list head.
\<close>

record pool_ring =
  thr_pools :: "addr option"
  pool_links :: list_heap

text \<open>The assignments, in their order.\<close>

definition link_pool :: "addr \<Rightarrow> pool_ring \<Rightarrow> pool_ring" where
  "link_pool pool r =
     (let l = pool_links r in
      case thr_pools r of
        None \<Rightarrow>
          r\<lparr>thr_pools := Some pool,
            pool_links := l\<lparr>nxt := (nxt l)(pool := pool), prv := (prv l)(pool := pool)\<rparr>\<rparr>
      | Some first \<Rightarrow>
          (let l = l\<lparr>nxt := (nxt l)(prv l first := pool)\<rparr>;
               l = l\<lparr>nxt := (nxt l)(pool := first)\<rparr>;
               l = l\<lparr>prv := (prv l)(pool := prv l first)\<rparr>;
               l = l\<lparr>prv := (prv l)(first := pool)\<rparr>
           in r\<lparr>pool_links := l\<rparr>))"

definition unlink_pool :: "addr \<Rightarrow> pool_ring \<Rightarrow> pool_ring" where
  "unlink_pool pool r =
     (let l = pool_links r;
          first = (if thr_pools r = Some pool then Some (nxt l pool) else thr_pools r)
      in if first = Some pool then r\<lparr>thr_pools := None\<rparr>
         else
           (let l = l\<lparr>nxt := (nxt l)(prv l pool := nxt l pool)\<rparr>;
                l = l\<lparr>prv := (prv l)(nxt l pool := prv l pool)\<rparr>
            in r\<lparr>thr_pools := first, pool_links := l\<rparr>))"

text \<open>\<^verbatim>\<open>sstack_thread_pool_create\<close> as a whole: \<open>mem\<close> is the address of the new pool, if there is memory.\<close>

definition thread_pool_create ::
  "addr option \<Rightarrow> 32 word \<Rightarrow> 32 word \<Rightarrow> 32 word \<Rightarrow> pool_ring \<Rightarrow> (int + addr \<times> thread_pool) \<times> pool_ring" where
  "thread_pool_create mem min_threads max_threads linger r =
     (case sstack_thread_pool_create (mem \<noteq> None) min_threads max_threads linger of
        Inl e \<Rightarrow> (Inl e, r)
      | Inr p \<Rightarrow> (Inr (the mem, p), link_pool (the mem) r))"

text \<open>The last loop of \<^verbatim>\<open>sstack_thread_pool_destroy\<close>: the jobs it frees, in order.\<close>

partial_function (option) free_jobs :: "(job \<Rightarrow> job option) \<Rightarrow> job option \<Rightarrow> job list option" where
  "free_jobs nx h =
     (case h of None \<Rightarrow> Some [] | Some j \<Rightarrow> Option.bind (free_jobs nx (nx j)) (\<lambda>js. Some (j # js)))"

section \<open>The ring of pools\<close>

fun pool_ring_rep :: "pool_ring \<Rightarrow> addr list \<Rightarrow> bool" where
  "pool_ring_rep r [] \<longleftrightarrow> thr_pools r = None"
| "pool_ring_rep r (x # xs) \<longleftrightarrow> thr_pools r = Some x \<and> dlist (pool_links r) x xs"

text \<open>Any node of a ring can be taken for its head.\<close>

lemma dlist_rotate:
  assumes "dlist h x (y # ys)"
  shows "dlist h y (ys @ [x])"
  using assms by (simp add: dlist_def chain_append)

lemma link_pool_links:
  assumes "thr_pools r = Some first" "pool \<noteq> first"
  shows "link_pool pool r = r\<lparr>pool_links := bds_list_add_tail pool first (pool_links r)\<rparr>"
  using assms by (simp add: link_pool_def bds_list_add_tail_def bds_list_insert_def Let_def)

lemma unlink_links:
  assumes "prv l pool \<noteq> pool"
  shows "(let l = l\<lparr>nxt := (nxt l)(prv l pool := nxt l pool)\<rparr>
     in l\<lparr>prv := (prv l)(nxt l pool := prv l pool)\<rparr>) = bds_list_del pool l"
  using assms by (simp add: bds_list_del_def bds_list_unlink_def Let_def)

lemma chain_not_self: "chain h a xs b \<Longrightarrow> b \<notin> set (a # xs) \<Longrightarrow> prv h b \<noteq> b"
  by (cases xs rule: rev_cases) (auto simp: chain_append)

lemma link_pool_ring:
  assumes "pool_ring_rep r xs" "pool \<notin> set xs"
  shows "pool_ring_rep (link_pool pool r) (xs @ [pool])"
proof (cases xs)
  case Nil
  then show ?thesis using assms by (simp add: link_pool_def dlist_def Let_def)
next
  case (Cons x ys)
  then have "dlist (bds_list_add_tail pool x (pool_links r)) x (ys @ [pool])"
    using assms by (intro bds.add_tail_rep) auto
  then show ?thesis using assms Cons by (simp add: link_pool_links)
qed

lemma unlink_pool_ring:
  assumes rep: "pool_ring_rep r xs" and pool: "pool \<in> set xs"
  shows "pool_ring_rep (unlink_pool pool r) (remove1 pool xs)"
proof -
  obtain x ys where xs: "xs = x # ys" and d: "dlist (pool_links r) x ys" "thr_pools r = Some x"
    using rep pool by (cases xs) auto
  let ?del = "bds_list_del pool (pool_links r)"
  show ?thesis
  proof (cases "pool = x")
    case False
    then obtain us vs where ys: "ys = us @ pool # vs" using pool xs by (auto dest: split_list)
    have "chain (pool_links r) x us pool" "pool \<notin> set (x # us)"
      using d(1) ys by (auto simp: dlist_def chain_append)
    then have "prv (pool_links r) pool \<noteq> pool" by (rule chain_not_self)
    then have "unlink_pool pool r = r\<lparr>pool_links := ?del\<rparr>"
      using unlink_links d(2) False by (simp add: unlink_pool_def Let_def)
    moreover have "dlist ?del x (remove1 pool ys)"
      by (rule bds.del_member [OF d(1)]) (use ys in simp)
    ultimately show ?thesis using xs d(2) False by simp
  next
    case True
    show ?thesis
    proof (cases ys)
      case Nil
      then show ?thesis using True xs d by (simp add: unlink_pool_def dlist_def Let_def)
    next
      case (Cons y zs)
      have r: "dlist (pool_links r) y (zs @ [x])" using d(1) Cons dlist_rotate by simp
      have y: "nxt (pool_links r) x = y" "y \<noteq> x" using d(1) Cons by (auto simp: dlist_def)
      have "chain (pool_links r) y zs x" "x \<notin> set (y # zs)" using r by (auto simp: dlist_def chain_append)
      then have "prv (pool_links r) x \<noteq> x" by (rule chain_not_self)
      then have "unlink_pool pool r = r\<lparr>thr_pools := Some y, pool_links := ?del\<rparr>"
        using unlink_links [of "pool_links r" x] True d(2) y by (simp add: unlink_pool_def Let_def)
      moreover have "dlist ?del y zs" using bds.del_rep [of _ _ zs x "[]"] r True by simp
      ultimately show ?thesis using xs True Cons by simp
    qed
  qed
qed

lemma free_jobs_frees_queue:
  assumes "job_chain nx h q"
  shows "free_jobs nx h = Some q"
  using assms by (induction q arbitrary: h) (simp_all add: free_jobs.simps [of nx h for h])

end
