(* ===== verification/Dispatch.thy ===== *)
theory Dispatch
  imports Job_Queue Job_Trees
begin

text \<open>
  The flow of jobs through \<^verbatim>\<open>sfs/src/sfs.c\<close>: the dispatcher, which takes jobs off the high
  priority queue, sends their payloads and moves them to the pending queue, and the
  handlers of the responses, which find the job and the job map of the waiting thread in
  the two trees and wake the thread up.

  The address of a job also stands for its \<^verbatim>\<open>wait_list\<close> field.  The queues of \<^verbatim>\<open>jobs\<close> and
  \<^verbatim>\<open>pending_jobs\<close> link the same nodes.  What is sent is a trace; signals on the condition of
  a job map are counted.  A pass of the dispatcher and the handling of one response are
  single steps; for successful reads the steps of several handlers are also interleaved.
\<close>

section \<open>State\<close>

datatype sstack_job_status = JOB_INIT | JOB_STARTED | JOB_COMPLETE | JOB_ABORTED | JOB_FAILED

text \<open>The pointers in \<^verbatim>\<open>sfsds\<close> are represented by the handles of the sfsds, \<open>None\<close> being null.\<close>

record sfs_job =
  job_no :: "64 word"
  num_clients :: int
  sfsds :: "64 word option list"
  job_status :: "sstack_job_status list"
  job_priority :: int
  job_payload :: ptr

record sstack_job_map =
  err_no :: int
  num_jobs :: int
  num_jobs_left :: int
  job_ids :: "64 word list"
  op_status :: "sstack_job_status list"
  map_lock :: bool
  map_signals :: nat

record sfs_state =
  st_jobq :: jq_state
  st_pending :: "sfs_job_queue list"
  st_jobs :: "addr \<Rightarrow> sfs_job"
  st_maps :: "addr \<Rightarrow> sstack_job_map"
  st_jt :: jt_state
  st_jm :: jm_state
  st_sent :: "(64 word \<times> ptr \<times> 64 word) list"
  sfs_errno :: int

definition MAX_HIGH_PRIO :: nat where "MAX_HIGH_PRIO = 64"

section \<open>The dispatcher\<close>

text \<open>The loop over the clients of a job, from client \<open>j\<close> with \<open>k\<close> to go.\<close>

fun send_clients :: "nat \<Rightarrow> nat \<Rightarrow> addr \<Rightarrow> sfs_state \<Rightarrow> sfs_state exec" where
  "send_clients j 0 job s = Inr s"
| "send_clients j (Suc k) job s =
     (let jr = st_jobs s job in
      if j \<ge> length (sfsds jr) \<or> j \<ge> length (job_status jr) then Inl Bad_Access
      else
        case sfsds jr ! j of
          None \<Rightarrow> Inl Null_Deref
        | Some h \<Rightarrow>
            send_clients (Suc j) k job
              (s\<lparr>st_sent := st_sent s @ [(h, job_payload jr, job_no jr)],
                 st_jobs := (st_jobs s)(job := jr\<lparr>job_status := (job_status jr)[j := JOB_STARTED]\<rparr>)\<rparr>))"

text \<open>\<^verbatim>\<open>sfs_enqueue_job\<close> on \<^verbatim>\<open>pending_jobs\<close>; its result is ignored.\<close>

definition enqueue_pending :: "int \<Rightarrow> addr \<Rightarrow> sfs_state \<Rightarrow> sfs_state exec" where
  "enqueue_pending priority job s =
     exec_bind (sfs_enqueue_job priority True (Some job) ((st_jobq s)\<lparr>jq_queues := st_pending s\<rparr>)) (\<lambda>(_, q).
     Inr (s\<lparr>st_jobq := q\<lparr>jq_queues := jq_queues (st_jobq s)\<rparr>, st_pending := jq_queues q\<rparr>))"

text \<open>
  Taking the first job off the high priority queue.
\<close>

definition detach_first :: "sfs_state \<Rightarrow> addr \<times> sfs_state" where
  "detach_first s =
     (let l = jq_links (st_jobq s); job = nxt l (q_list (jq_queues (st_jobq s) ! 0))
      in (job, s\<lparr>st_jobq := (st_jobq s)\<lparr>jq_links := bds_list_del job l\<rparr>\<rparr>))"

definition high_empty :: "sfs_state \<Rightarrow> bool" where
  "high_empty s = list_empty (q_list (jq_queues (st_jobq s) ! 0)) (jq_links (st_jobq s))"

text \<open>The loop over the high priority queue, with \<open>k = MAX_HIGH_PRIO - i\<close>.\<close>

fun dispatch_high :: "nat \<Rightarrow> sfs_state \<Rightarrow> sfs_state exec" where
  "dispatch_high 0 s = (if high_empty s then Inr s else Inr (snd (detach_first s)))"
| "dispatch_high (Suc k) s =
     (if high_empty s then Inr s
      else
        let (job, s) = detach_first s in
        exec_bind (send_clients 0 (nat (num_clients (st_jobs s job))) job s) (\<lambda>s.
        exec_bind (enqueue_pending HIGH_PRIORITY job s) (dispatch_high k)))"

definition sfs_dispatcher :: "sfs_state \<Rightarrow> sfs_state exec" where
  "sfs_dispatcher s = dispatch_high MAX_HIGH_PRIO s"

section \<open>Responses\<close>

definition SSTACK_SUCCESS :: int where "SSTACK_SUCCESS = 100"
definition SSTACK_ECKSUM :: int where "SSTACK_ECKSUM = 102"
definition SSTACK_NOMEM :: int where "SSTACK_NOMEM = 103"
definition SSTACK_CRIT_FAILURE :: int where "SSTACK_CRIT_FAILURE = 104"

datatype sstack_command = NFS_READ_RSP | NFS_WRITE_RSP | NFS_ESURE_CODE_RSP
  | SSTACK_ADD_STORAGE_RSP | SSTACK_REMOVE_STORAGE_RSP | SSTACK_UPDATE_STORAGE_RSP | Other_command

text \<open>
  A received payload at address \<open>pl_addr\<close>.  \<open>read_ecode\<close> is what the union holds at the place of the
  command field of that name.
\<close>

record sstack_payload =
  pl_addr :: addr
  pl_command :: sstack_command
  pl_job_id :: "64 word"
  command_ok :: int
  read_ecode :: bool

text \<open>
  The fields of an inode that the retry of a read uses: the handles of the replicas, of
  which the first \<^verbatim>\<open>i_numreplicas\<close> count, and of the primary sfsd.
\<close>

record retry_inode =
  i_numreplicas :: int
  i_sfsds :: "64 word list"
  i_primary_sfsd :: "64 word"

text \<open>
  The two look-ups all handlers begin with; \<open>jtk\<close> and \<open>jmk\<close> are the uninitialised keys.
  \<open>Inl False\<close>: no such job; \<open>Inl True\<close>: no job map for its thread.
\<close>

definition find_job ::
  "sstack_jt \<Rightarrow> sstack_jm \<Rightarrow> 64 word \<Rightarrow> sfs_state \<Rightarrow> bool + sstack_jt \<times> sstack_jm" where
  "find_job jtk jmk job_id s =
     (case rb_search jt_cmp (jtk\<lparr>jt_magic := JTNODE_MAGIC, jt_job_id := job_id\<rparr>) (jobid_tree (st_jt s)) of
        None \<Rightarrow> Inl False
      | Some jt_node \<Rightarrow>
          (case rb_search jm_cmp (jmk\<lparr>jm_magic := JMNODE_MAGIC, jm_thread_id := jt_thread_id jt_node\<rparr>)
                  (jobmap_tree (st_jm s)) of
             None \<Rightarrow> Inl True
           | Some jm_node \<Rightarrow> Inr (jt_node, jm_node)))"

definition upd_job :: "addr \<Rightarrow> (sfs_job \<Rightarrow> sfs_job) \<Rightarrow> sfs_state \<Rightarrow> sfs_state" where
  "upd_job job f s = s\<lparr>st_jobs := (st_jobs s)(job := f (st_jobs s job))\<rparr>"

definition upd_map :: "addr \<Rightarrow> (sstack_job_map \<Rightarrow> sstack_job_map) \<Rightarrow> sfs_state \<Rightarrow> sfs_state" where
  "upd_map m f s = s\<lparr>st_maps := (st_maps s)(m := f (st_maps s m))\<rparr>"

text \<open>An update of a job map between \<^verbatim>\<open>pthread_spin_lock\<close> and \<^verbatim>\<open>pthread_spin_unlock\<close>.\<close>

definition locked_upd :: "addr \<Rightarrow> (sstack_job_map \<Rightarrow> sstack_job_map) \<Rightarrow> sfs_state \<Rightarrow> sfs_state exec" where
  "locked_upd m f s =
     exec_bind (pthread_spin_lock (map_lock (st_maps s m))) (\<lambda>_.
     Inr (upd_map m (\<lambda>r. (f r)\<lparr>map_lock := False\<rparr>) s))"

definition cond_signal :: "addr \<Rightarrow> sfs_state \<Rightarrow> sfs_state" where
  "cond_signal m s = upd_map m (\<lambda>r. r\<lparr>map_signals := map_signals r + 1\<rparr>) s"

text \<open>
  The first loop of \<^verbatim>\<open>sfs_process_write_response\<close>, from client \<open>i\<close> with \<open>k\<close> to go: the comparison
  of the handles is commented out, so that the first client is taken.
\<close>

fun mark_client :: "nat \<Rightarrow> nat \<Rightarrow> addr \<Rightarrow> sstack_payload \<Rightarrow> sfs_state \<Rightarrow> sfs_state exec" where
  "mark_client i 0 job payload s = Inr s"
| "mark_client i (Suc k) job payload s =
     (let jr = st_jobs s job in
      if i \<ge> length (sfsds jr) \<or> i \<ge> length (job_status jr) then Inl Bad_Access
      else if sfsds jr ! i = None then Inl Null_Deref
      else if command_ok payload = SSTACK_SUCCESS then
        Inr (upd_job job (\<lambda>j. j\<lparr>job_payload := Some (pl_addr payload),
                                 job_status := (job_status j)[i := JOB_COMPLETE]\<rparr>) s)
      else mark_client (Suc i) k job payload s)"

text \<open>The second loop: the clients not finished and the clients failed, where both arrays have an entry for every client.\<close>

definition count_clients :: "sfs_job \<Rightarrow> sstack_job_map \<Rightarrow> (nat \<times> nat) exec" where
  "count_clients jr m =
     (let n = nat (num_clients jr) in
      if length (job_status jr) < n \<or> length (op_status m) < n then Inl Bad_Access
      else Inr (length (filter (\<lambda>i. job_status jr ! i = JOB_STARTED) [0..<n]),
                length (filter (\<lambda>i. op_status m ! i = JOB_FAILED) [0..<n])))"

definition sfs_process_write_response ::
  "sstack_jt \<Rightarrow> sstack_jm \<Rightarrow> sstack_payload \<Rightarrow> sfs_state \<Rightarrow> sfs_state exec" where
  "sfs_process_write_response jtk jmk payload s =
     (case find_job jtk jmk (pl_job_id payload) s of
        Inl _ \<Rightarrow> Inr (s\<lparr>sfs_errno := SSTACK_CRIT_FAILURE\<rparr>)
      | Inr (jt_node, jm_node) \<Rightarrow>
          (case (jt_job jt_node, jm_job_map jm_node) of
             (Some job, Some job_map) \<Rightarrow>
               exec_bind (mark_client 0 (nat (num_clients (st_jobs s job))) job payload s) (\<lambda>s.
               exec_bind (count_clients (st_jobs s job) (st_maps s job_map)) (\<lambda>(num_incmp_clients, num_clients_fail).
               exec_bind
                 (if num_incmp_clients = 0
                  then locked_upd job_map (\<lambda>m. m\<lparr>num_jobs_left := num_jobs_left m - 1\<rparr>) s else Inr s) (\<lambda>s.
               exec_bind
                 (if num_jobs_left (st_maps s job_map) = 0 then
                    exec_bind
                      (locked_upd job_map
                        (\<lambda>m. m\<lparr>err_no := (if int num_clients_fail > num_clients (st_jobs s job) div 2
                                          then EIO else command_ok payload)\<rparr>) s) (\<lambda>s.
                    Inr (cond_signal job_map s))
                  else Inr s) (\<lambda>s.
               Inr (cond_signal job_map s)))))
           | _ \<Rightarrow> Inl Null_Deref))"

text \<open>The loop over the replicas in \<^verbatim>\<open>sfs_process_read_response\<close>, from replica \<open>i\<close> with \<open>k\<close> to go.\<close>

fun retry_loop ::
  "nat \<Rightarrow> nat \<Rightarrow> retry_inode \<Rightarrow> addr \<Rightarrow> sstack_payload \<times> sfs_state \<Rightarrow> (sstack_payload \<times> sfs_state) exec" where
  "retry_loop i 0 inode job ps = Inr ps"
| "retry_loop i (Suc k) inode job (payload, s) =
     (let n = nat (i_numreplicas inode); next = (i + 1) mod n; jr = st_jobs s job in
      if i \<ge> length (i_sfsds inode) \<or> sfsds jr = [] then Inl Bad_Access
      else
        case hd (sfsds jr) of
          None \<Rightarrow> Inl Null_Deref
        | Some h \<Rightarrow>
            if i_sfsds inode ! i = h then
              if next \<ge> length (i_sfsds inode) then Inl Bad_Access
              else
                let sfsd = i_sfsds inode ! next;
                    s = upd_job job (\<lambda>j. j\<lparr>sfsds := (sfsds j)[0 := Some sfsd]\<rparr>) s
                in if sfsd = i_primary_sfsd inode
                   then retry_loop (Suc i) k inode job
                          (payload\<lparr>read_ecode := True\<rparr>, upd_job job (\<lambda>j. j\<lparr>job_payload := Some (pl_addr payload)\<rparr>) s)
                   else retry_loop (Suc i) k inode job (payload, s)
            else retry_loop (Suc i) k inode job (payload, s))"

text \<open>
  A successful answer to a read: the number of jobs left is decremented with the job map locked; the rest runs without the lock,
  and other handlers may come in between.
\<close>

definition read_count :: "addr \<Rightarrow> sfs_state \<Rightarrow> sfs_state exec" where
  "read_count job_map s = locked_upd job_map (\<lambda>m. m\<lparr>num_jobs_left := num_jobs_left m - 1\<rparr>) s"

definition read_store :: "addr \<Rightarrow> sstack_payload \<Rightarrow> sfs_state \<Rightarrow> sfs_state" where
  "read_store job payload s = upd_job job (\<lambda>j. j\<lparr>job_payload := Some (pl_addr payload)\<rparr>) s"

definition read_mark :: "addr \<Rightarrow> sfs_state \<Rightarrow> sfs_state" where
  "read_mark job s = upd_job job (\<lambda>j. j\<lparr>job_status := (job_status j)[0 := JOB_COMPLETE]\<rparr>) s"

definition read_signal :: "addr \<Rightarrow> sfs_state \<Rightarrow> sfs_state" where
  "read_signal job_map s = (if num_jobs_left (st_maps s job_map) = 0 then cond_signal job_map s else s)"

text \<open>\<open>get_inode\<close> is the outcome of \<^verbatim>\<open>get_inode\<close>: its error or the inode.\<close>

definition sfs_process_read_response ::
  "sstack_jt \<Rightarrow> sstack_jm \<Rightarrow> int + retry_inode \<Rightarrow> sstack_payload \<Rightarrow> sfs_state \<Rightarrow> (sstack_payload \<times> sfs_state) exec" where
  "sfs_process_read_response jtk jmk get_inode payload s =
     (case find_job jtk jmk (pl_job_id payload) s of
        Inl False \<Rightarrow> Inr (payload, s\<lparr>sfs_errno := SSTACK_CRIT_FAILURE\<rparr>)
      | Inl True \<Rightarrow> Inr (payload, s)
      | Inr (jt_node, jm_node) \<Rightarrow>
          (case (jt_job jt_node, jm_job_map jm_node) of
             (Some job, Some job_map) \<Rightarrow>
               if command_ok payload = SSTACK_SUCCESS then
                 exec_bind (read_count job_map s) (\<lambda>s.
                 Inr (payload, read_signal job_map (read_mark job (read_store job payload s))))
               else if command_ok payload = - SSTACK_ECKSUM \<or> command_ok payload = - SSTACK_NOMEM then
                 (case get_inode of
                    Inl _ \<Rightarrow> Inr (payload, s\<lparr>sfs_errno := SSTACK_CRIT_FAILURE\<rparr>)
                  | Inr inode \<Rightarrow>
                      if read_ecode payload then Inr (payload, s)
                      else
                        exec_bind (retry_loop 0 (nat (i_numreplicas inode)) inode job (payload, s)) (\<lambda>(payload, s).
                        exec_bind (sfs_submit_job (job_priority (st_jobs s job)) True (Some job) (st_jobq s)) (\<lambda>(ret, q).
                        let s = s\<lparr>st_jobq := q\<rparr>
                        in Inr (payload, if ret = -1 then s\<lparr>sfs_errno := SSTACK_CRIT_FAILURE\<rparr> else s))))
               else
                 exec_bind (locked_upd job_map (\<lambda>m. m\<lparr>err_no := command_ok payload\<rparr>) s) (\<lambda>s.
                 Inr (payload, cond_signal job_map s))
           | _ \<Rightarrow> Inl Null_Deref))"

definition process_storage_response ::
  "sstack_jt \<Rightarrow> sstack_jm \<Rightarrow> sstack_payload \<Rightarrow> sfs_state \<Rightarrow> sfs_state exec" where
  "process_storage_response jtk jmk payload s =
     (case find_job jtk jmk (pl_job_id payload) s of
        Inl _ \<Rightarrow> Inr (s\<lparr>sfs_errno := SSTACK_CRIT_FAILURE\<rparr>)
      | Inr (jt_node, jm_node) \<Rightarrow>
          (case jm_job_map jm_node of
             None \<Rightarrow> Inl Null_Deref
           | Some job_map \<Rightarrow>
               Inr (cond_signal job_map (upd_map job_map (\<lambda>m. m\<lparr>err_no := command_ok payload\<rparr>) s))))"

definition sfs_process_payload ::
  "sstack_jt \<Rightarrow> sstack_jm \<Rightarrow> int + retry_inode \<Rightarrow> sstack_payload \<Rightarrow> sfs_state \<Rightarrow> sfs_state exec" where
  "sfs_process_payload jtk jmk get_inode payload s =
     (case pl_command payload of
        NFS_READ_RSP \<Rightarrow>
          exec_bind (sfs_process_read_response jtk jmk get_inode payload s) (\<lambda>(_, s). Inr s)
      | NFS_WRITE_RSP \<Rightarrow> sfs_process_write_response jtk jmk payload s
      | NFS_ESURE_CODE_RSP \<Rightarrow> Inr s
      | SSTACK_ADD_STORAGE_RSP \<Rightarrow> process_storage_response jtk jmk payload s
      | SSTACK_REMOVE_STORAGE_RSP \<Rightarrow> process_storage_response jtk jmk payload s
      | SSTACK_UPDATE_STORAGE_RSP \<Rightarrow> process_storage_response jtk jmk payload s
      | Other_command \<Rightarrow> Inr s)"

section \<open>A pass of the dispatcher\<close>

datatype lane = Jobs nat | Pending nat

fun lane_head :: "sfs_state \<Rightarrow> lane \<Rightarrow> addr" where
  "lane_head s (Jobs p) = q_list (jq_queues (st_jobq s) ! p)"
| "lane_head s (Pending p) = q_list (st_pending s ! p)"

text \<open>The queues \<open>I\<close>, the two the dispatcher works on among them, hold the jobs \<open>f\<close> and share no node.\<close>

definition disp_inv :: "lane set \<Rightarrow> (lane \<Rightarrow> addr list) \<Rightarrow> sfs_state \<Rightarrow> bool" where
  "disp_inv I f s \<longleftrightarrow> lists_in dlist (lane_head s) I f (jq_links (st_jobq s)) \<and> Jobs 0 \<in> I \<and> Pending 0 \<in> I \<and>
     st_pending s \<noteq> [] \<and> \<not> q_lock (st_pending s ! 0)"

text \<open>What the dispatcher sends for a job, and that it can.\<close>

definition sends_of :: "sfs_job \<Rightarrow> (64 word \<times> ptr \<times> 64 word) list" where
  "sends_of jr = map (\<lambda>i. (the (sfsds jr ! i), job_payload jr, job_no jr)) [0..<nat (num_clients jr)]"

definition sendable :: "sfs_job \<Rightarrow> bool" where
  "sendable jr \<longleftrightarrow> nat (num_clients jr) \<le> length (sfsds jr) \<and> nat (num_clients jr) \<le> length (job_status jr) \<and>
     (\<forall>i < nat (num_clients jr). sfsds jr ! i \<noteq> None)"

text \<open>Two versions of a job that differ in its status only.\<close>

definition same_job :: "sfs_job \<Rightarrow> sfs_job \<Rightarrow> bool" where
  "same_job jr jr' \<longleftrightarrow> jr'\<lparr>job_status := job_status jr\<rparr> = jr \<and> length (job_status jr') = length (job_status jr)"

lemma same_job_fields:
  assumes "same_job jr jr'"
  shows "sfsds jr' = sfsds jr" "job_payload jr' = job_payload jr" "job_no jr' = job_no jr"
    "num_clients jr' = num_clients jr" "job_priority jr' = job_priority jr"
    "length (job_status jr') = length (job_status jr)" "sends_of jr' = sends_of jr" "sendable jr' = sendable jr"
  using assms by (cases jr; cases jr'; simp add: same_job_def sends_of_def sendable_def)+

lemma same_job_trans: "same_job a b \<Longrightarrow> same_job b c \<Longrightarrow> same_job a c"
  by (cases a; cases b; cases c) (simp add: same_job_def)

lemma same_job_refl: "same_job a a"
  by (simp add: same_job_def)

definition same_jobs :: "sfs_state \<Rightarrow> sfs_state \<Rightarrow> bool" where
  "same_jobs s s' \<longleftrightarrow> (\<forall>a. same_job (st_jobs s a) (st_jobs s' a))"

lemma send_clients_ok:
  assumes "j + k \<le> length (sfsds (st_jobs s job))" "j + k \<le> length (job_status (st_jobs s job))"
    "\<forall>i < j + k. sfsds (st_jobs s job) ! i \<noteq> None"
  shows "\<exists>s'. send_clients j k job s = Inr s' \<and> same_jobs s s' \<and>
     st_sent s' = st_sent s @
       map (\<lambda>i. (the (sfsds (st_jobs s job) ! i), job_payload (st_jobs s job), job_no (st_jobs s job))) [j..<j + k] \<and>
     s' = s\<lparr>st_sent := st_sent s', st_jobs := st_jobs s'\<rparr>"
  using assms
proof (induction k arbitrary: j s)
  case 0
  then show ?case by (simp add: same_jobs_def same_job_refl)
next
  case (Suc k)
  let ?jr = "st_jobs s job"
  obtain h where h: "sfsds ?jr ! j = Some h" using Suc.prems(3) [rule_format, of j] by auto
  let ?jr' = "?jr\<lparr>job_status := (job_status ?jr)[j := JOB_STARTED]\<rparr>"
  let ?s = "s\<lparr>st_sent := st_sent s @ [(h, job_payload ?jr, job_no ?jr)], st_jobs := (st_jobs s)(job := ?jr')\<rparr>"
  have step: "send_clients j (Suc k) job s = send_clients (Suc j) k job ?s"
    using Suc.prems h by (simp add: Let_def)
  obtain s' where s': "send_clients (Suc j) k job ?s = Inr s'" "same_jobs ?s s'"
     "st_sent s' = st_sent ?s @ map (\<lambda>i. (the (sfsds ?jr ! i), job_payload ?jr, job_no ?jr)) [Suc j..<Suc j + k]"
     "s' = ?s\<lparr>st_sent := st_sent s', st_jobs := st_jobs s'\<rparr>"
    using Suc.IH [of "Suc j" ?s] Suc.prems by auto
  have "same_jobs s ?s" by (simp add: same_jobs_def same_job_def)
  then have "same_jobs s s'" using s'(2) same_job_trans unfolding same_jobs_def by blast
  moreover have "[j..<j + Suc k] = j # [Suc j..<Suc j + k]" using upt_conv_Cons [of j "j + Suc k"] by simp
  moreover have "s' = s\<lparr>st_sent := st_sent s', st_jobs := st_jobs s'\<rparr>" by (subst s'(4)) simp
  ultimately show ?case unfolding step using s'(1,3) h by (simp del: upt_Suc)
qed

lemma sends_once:
  assumes "sendable (st_jobs s job)"
  shows "\<exists>s'. send_clients 0 (nat (num_clients (st_jobs s job))) job s = Inr s' \<and>
    st_sent s' = st_sent s @ sends_of (st_jobs s job) \<and> same_jobs s s' \<and>
    s' = s\<lparr>st_sent := st_sent s', st_jobs := st_jobs s'\<rparr>"
  using send_clients_ok [of 0 "nat (num_clients (st_jobs s job))" s job] assms
  by (auto simp: sendable_def sends_of_def)

lemma enqueue_pending_ok:
  assumes "st_pending s \<noteq> []" "\<not> q_lock (st_pending s ! 0)"
  shows "\<exists>s'. enqueue_pending HIGH_PRIORITY job s = Inr s' \<and>
    jq_links (st_jobq s') = bds_list_add_tail job (lane_head s (Pending 0)) (jq_links (st_jobq s)) \<and>
    lane_head s' = lane_head s \<and> st_pending s' \<noteq> [] \<and> \<not> q_lock (st_pending s' ! 0) \<and>
    st_sent s' = st_sent s \<and> st_jobs s' = st_jobs s"
proof -
  let ?ps = "(st_pending s)[0 := (st_pending s ! 0)\<lparr>q_lock := False\<rparr>]"
  let ?q = "(st_jobq s)\<lparr>jq_links := bds_list_add_tail job (q_list (st_pending s ! 0)) (jq_links (st_jobq s))\<rparr>"
  have "enqueue_pending HIGH_PRIORITY job s = Inr (s\<lparr>st_jobq := ?q, st_pending := ?ps\<rparr>)"
    using assms by (simp add: enqueue_pending_def sfs_enqueue_job_def jq_bad_args_def HIGH_PRIORITY_def
        NUM_PRIORITY_MAX_def Let_def)
  moreover have "q_list (?ps ! p) = q_list (st_pending s ! p)" for p
    using assms(1) by (cases "p = 0") simp_all
  then have "lane_head (s\<lparr>st_jobq := ?q, st_pending := ?ps\<rparr>) x = lane_head s x" for x by (cases x) simp_all
  ultimately show ?thesis using assms by auto
qed

lemma detach_first_ok:
  assumes inv: "disp_inv I f s" and jobs: "f (Jobs 0) = job # js"
  shows "\<not> high_empty s" "fst (detach_first s) = job"
    "disp_inv I (f(Jobs 0 := js)) (snd (detach_first s))"
    "jq_links (st_jobq (snd (detach_first s))) = bds_list_del job (jq_links (st_jobq s))"
    "lane_head (snd (detach_first s)) = lane_head s" "st_jobs (snd (detach_first s)) = st_jobs s"
    "st_sent (snd (detach_first s)) = st_sent s" "st_pending (snd (detach_first s)) = st_pending s"
proof -
  have lists: "lists_in dlist (lane_head s) I f (jq_links (st_jobq s))" and I: "Jobs 0 \<in> I"
    using inv by (simp_all add: disp_inv_def)
  have d: "dlist (jq_links (st_jobq s)) (lane_head s (Jobs 0)) (job # js)"
    using bds.lists_reps(1) [OF lists I] jobs by simp
  show "\<not> high_empty s" using bds.empty_rep [OF d] by (simp add: high_empty_def)
  show job: "fst (detach_first s) = job" using bds.first_rep [OF d] by (simp add: detach_first_def Let_def)
  have "lane_head (snd (detach_first s)) x = lane_head s x" for x
    by (cases x) (simp_all add: detach_first_def Let_def)
  then show lane: "lane_head (snd (detach_first s)) = lane_head s" by (simp add: fun_eq_iff)
  show links: "jq_links (st_jobq (snd (detach_first s))) = bds_list_del job (jq_links (st_jobq s))"
    using job by (simp add: detach_first_def Let_def)
  show rest: "st_jobs (snd (detach_first s)) = st_jobs s" "st_sent (snd (detach_first s)) = st_sent s"
    "st_pending (snd (detach_first s)) = st_pending s"
    by (simp_all add: detach_first_def Let_def)
  have "lists_in dlist (lane_head s) I (f(Jobs 0 := remove1 job (f (Jobs 0)))) (bds_list_del job (jq_links (st_jobq s)))"
    by (rule bds.lists_del [OF lists I]) (simp add: jobs)
  then show "disp_inv I (f(Jobs 0 := js)) (snd (detach_first s))"
    using inv jobs lane links rest(3) by (simp add: disp_inv_def)
qed

lemma dispatch_one:
  assumes inv: "disp_inv I f s" and jobs: "f (Jobs 0) = job # js" and send: "sendable (st_jobs s job)"
  shows "\<exists>s'. dispatch_high (Suc k) s = dispatch_high k s' \<and>
    disp_inv I (f(Jobs 0 := js, Pending 0 := f (Pending 0) @ [job])) s' \<and>
    st_sent s' = st_sent s @ sends_of (st_jobs s job) \<and> same_jobs s s'"
proof -
  note d = detach_first_ok [OF inv jobs]
  let ?s = "snd (detach_first s)"
  obtain s1 where s1: "send_clients 0 (nat (num_clients (st_jobs ?s job))) job ?s = Inr s1"
    "st_sent s1 = st_sent s @ sends_of (st_jobs s job)" "same_jobs s s1"
    "s1 = ?s\<lparr>st_sent := st_sent s1, st_jobs := st_jobs s1\<rparr>"
    using sends_once [of ?s job] send d(6,7) by (auto simp: same_jobs_def)
  have eq1: "st_jobq s1 = st_jobq ?s" "st_pending s1 = st_pending ?s" by (subst s1(4), simp)+
  have "lane_head s1 x = lane_head ?s x" for x using eq1 by (cases x) simp_all
  then have lane1: "lane_head s1 = lane_head s" using d(5) by (simp add: fun_eq_iff)
  have "st_pending s1 \<noteq> []" "\<not> q_lock (st_pending s1 ! 0)" using eq1(2) d(8) inv by (simp_all add: disp_inv_def)
  then obtain s2 where s2: "enqueue_pending HIGH_PRIORITY job s1 = Inr s2"
    "jq_links (st_jobq s2) = bds_list_add_tail job (lane_head s (Pending 0)) (bds_list_del job (jq_links (st_jobq s)))"
    "lane_head s2 = lane_head s1" "st_pending s2 \<noteq> []" "\<not> q_lock (st_pending s2 ! 0)"
    "st_sent s2 = st_sent s1" "st_jobs s2 = st_jobs s1"
    using enqueue_pending_ok [of s1 job] eq1(1) d(4) lane1 by auto
  have I: "Jobs 0 \<in> I" "Pending 0 \<in> I" "lists_in dlist (lane_head s) I f (jq_links (st_jobq s))"
    using inv by (simp_all add: disp_inv_def)
  have "lists_in dlist (lane_head s) I (f(Jobs 0 := js, Pending 0 := f (Pending 0) @ [job])) (jq_links (st_jobq s2))"
    using bds.lists_move_tail [OF I(3,1,2), of job] jobs s2(2) by simp
  then have "disp_inv I (f(Jobs 0 := js, Pending 0 := f (Pending 0) @ [job])) s2"
    using s2(3-5) lane1 I by (simp add: disp_inv_def)
  moreover have "dispatch_high (Suc k) s = dispatch_high k s2"
    using d(1,2) s1(1) s2(1) by (simp add: case_prod_beta)
  ultimately show ?thesis using s1(2,3) s2(6,7) unfolding same_jobs_def by metis
qed

lemma dispatch_high_ok:
  assumes "disp_inv I f s" "\<forall>job \<in> set (f (Jobs 0)). sendable (st_jobs s job)"
  shows "\<exists>s'. dispatch_high k s = Inr s' \<and>
    disp_inv I (f(Jobs 0 := drop (Suc k) (f (Jobs 0)), Pending 0 := f (Pending 0) @ take k (f (Jobs 0)))) s' \<and>
    st_sent s' = st_sent s @ concat (map (\<lambda>job. sends_of (st_jobs s job)) (take k (f (Jobs 0))))"
  using assms
proof (induction k arbitrary: f s)
  case 0
  show ?case
  proof (cases "f (Jobs 0)")
    case Nil
    have "high_empty s"
      using 0(1) Nil bds.empty_rep [OF bds.lists_reps(1) [of "lane_head s" I f "jq_links (st_jobq s)" "Jobs 0"]]
      by (simp add: disp_inv_def high_empty_def)
    moreover have eq: "f(Jobs 0 := drop (Suc 0) (f (Jobs 0)), Pending 0 := f (Pending 0) @ take 0 (f (Jobs 0))) = f"
      using Nil by auto
    ultimately show ?thesis unfolding eq using 0(1) Nil by simp
  next
    case (Cons job js)
    have eq: "f(Jobs 0 := drop (Suc 0) (f (Jobs 0)), Pending 0 := f (Pending 0) @ take 0 (f (Jobs 0))) = f(Jobs 0 := js)"
      using Cons by auto
    note d = detach_first_ok [OF 0(1) Cons]
    have "dispatch_high 0 s = Inr (snd (detach_first s))" "take 0 (f (Jobs 0)) = []" using d(1) by simp_all
    then show ?thesis using d(3,7) eq by (metis append_Nil2 concat.simps(1) list.simps(8))
  qed
next
  case (Suc k)
  show ?case
  proof (cases "f (Jobs 0)")
    case Nil
    have "high_empty s"
      using Suc.prems(1) Nil bds.empty_rep [OF bds.lists_reps(1) [of "lane_head s" I f "jq_links (st_jobq s)" "Jobs 0"]]
      by (simp add: disp_inv_def high_empty_def)
    moreover have eq: "f(Jobs 0 := drop (Suc (Suc k)) (f (Jobs 0)), Pending 0 := f (Pending 0) @ take (Suc k) (f (Jobs 0))) = f"
      using Nil by auto
    ultimately show ?thesis unfolding eq using Suc.prems(1) Nil by simp
  next
    case (Cons job js)
    define g where "g = f(Jobs 0 := js, Pending 0 := f (Pending 0) @ [job])"
    then have g: "g (Jobs 0) = js" "g (Pending 0) = f (Pending 0) @ [job]" by simp_all
    obtain s1 where s1: "dispatch_high (Suc k) s = dispatch_high k s1" "disp_inv I g s1"
      "st_sent s1 = st_sent s @ sends_of (st_jobs s job)" "same_jobs s s1"
      using dispatch_one [OF Suc.prems(1) Cons] Suc.prems(2) Cons unfolding g_def by force
    have same: "sends_of (st_jobs s1 a) = sends_of (st_jobs s a)" "sendable (st_jobs s1 a) = sendable (st_jobs s a)" for a
      using s1(4) same_job_fields(7,8) by (auto simp: same_jobs_def)
    then have "\<forall>job \<in> set (g (Jobs 0)). sendable (st_jobs s1 job)"
      using Suc.prems(2) Cons g by simp
    from Suc.IH [OF s1(2) this] obtain s2 where s2: "dispatch_high k s1 = Inr s2"
      "disp_inv I (g(Jobs 0 := drop (Suc k) (g (Jobs 0)), Pending 0 := g (Pending 0) @ take k (g (Jobs 0)))) s2"
      "st_sent s2 = st_sent s1 @ concat (map (\<lambda>job. sends_of (st_jobs s1 job)) (take k (g (Jobs 0))))"
      by blast
    have eq: "f(Jobs 0 := drop (Suc (Suc k)) (f (Jobs 0)), Pending 0 := f (Pending 0) @ take (Suc k) (f (Jobs 0))) =
        g(Jobs 0 := drop (Suc k) (g (Jobs 0)), Pending 0 := g (Pending 0) @ take k (g (Jobs 0)))"
      using Cons by (auto simp: g_def)
    have "st_sent s2 = st_sent s @ concat (map (\<lambda>job. sends_of (st_jobs s job)) (take (Suc k) (f (Jobs 0))))"
      using s1(3) s2(3) Cons same g by simp
    then show ?thesis unfolding eq s1(1) using s2(1,2) by blast
  qed
qed

text \<open>What the dispatcher leaves alone.\<close>

definition same_maps :: "sfs_state \<Rightarrow> sfs_state \<Rightarrow> bool" where
  "same_maps s s' \<longleftrightarrow> st_jt s' = st_jt s \<and> st_jm s' = st_jm s \<and> st_maps s' = st_maps s"

lemma send_clients_maps: "send_clients j k job s = Inr s' \<Longrightarrow> same_maps s s'"
  by (induction k arbitrary: j s) (auto simp: same_maps_def Let_def split: if_splits option.splits)

lemma dispatch_high_maps: "dispatch_high k s = Inr s' \<Longrightarrow> same_maps s s'"
proof (induction k arbitrary: s)
  case 0
  then show ?case by (auto simp: same_maps_def detach_first_def Let_def split: if_splits)
next
  case (Suc k)
  have d: "same_maps s (snd (detach_first s))" by (simp add: same_maps_def detach_first_def Let_def)
  show ?case
  proof (cases "high_empty s")
    case False
    then obtain s1 s2 where s1: "send_clients 0 (nat (num_clients (st_jobs (snd (detach_first s)) (fst (detach_first s)))))
        (fst (detach_first s)) (snd (detach_first s)) = Inr s1"
      and s2: "enqueue_pending HIGH_PRIORITY (fst (detach_first s)) s1 = Inr s2" "dispatch_high k s2 = Inr s'"
      using Suc.prems by (auto simp: exec_bind_Inr_iff case_prod_beta)
    have "same_maps s1 s2" using s2(1) by (auto simp: enqueue_pending_def exec_bind_Inr_iff same_maps_def)
    then show ?thesis
      using d send_clients_maps [OF s1] Suc.IH [OF s2(2)] by (simp add: same_maps_def)
  qed (use Suc.prems in \<open>simp add: same_maps_def\<close>)
qed

lemma lane_head_cong:
  assumes "jq_queues (st_jobq s') = jq_queues (st_jobq s)" "st_pending s' = st_pending s"
  shows "lane_head s' = lane_head s"
proof
  show "lane_head s' l = lane_head s l" for l using assms by (cases l) simp_all
qed

lemma detach_first_heads:
  "jq_queues (st_jobq (snd (detach_first s))) = jq_queues (st_jobq s) \<and> lane_head (snd (detach_first s)) = lane_head s"
  using lane_head_cong [of "snd (detach_first s)" s] by (simp add: detach_first_def Let_def)

lemma send_clients_queues: "send_clients j k job s = Inr s' \<Longrightarrow> st_jobq s' = st_jobq s \<and> st_pending s' = st_pending s"
  by (induction k arbitrary: j s) (auto simp: Let_def split: if_splits option.splits)

lemma enqueue_pending_heads:
  assumes "enqueue_pending HIGH_PRIORITY job s = Inr s'"
  shows "jq_queues (st_jobq s') = jq_queues (st_jobq s) \<and> lane_head s' = lane_head s"
proof -
  have "q_list ((qs[0 := (qs ! 0)\<lparr>q_lock := b\<rparr>]) ! p) = q_list (qs ! p)" for qs :: "sfs_job_queue list" and p b
    by (cases qs; cases p) simp_all
  then have "lane_head s' l = lane_head s l" for l
    using assms
    by (cases l) (auto simp: enqueue_pending_def sfs_enqueue_job_def HIGH_PRIORITY_def exec_bind_Inr_iff Let_def split: if_splits)
  moreover have "jq_queues (st_jobq s') = jq_queues (st_jobq s)"
    using assms by (auto simp: enqueue_pending_def exec_bind_Inr_iff)
  ultimately show ?thesis by blast
qed

lemma dispatch_high_queues:
  "dispatch_high k s = Inr s' \<Longrightarrow>
    jq_queues (st_jobq s') = jq_queues (st_jobq s) \<and> lane_head s' = lane_head s"
proof (induction k arbitrary: s)
  case 0
  then show ?case using detach_first_heads by (auto split: if_splits)
next
  case (Suc k)
  show ?case
  proof (cases "high_empty s")
    case False
    then obtain s1 s2 where s1: "send_clients 0 (nat (num_clients (st_jobs (snd (detach_first s)) (fst (detach_first s)))))
        (fst (detach_first s)) (snd (detach_first s)) = Inr s1"
      and s2: "enqueue_pending HIGH_PRIORITY (fst (detach_first s)) s1 = Inr s2" "dispatch_high k s2 = Inr s'"
      using Suc.prems by (auto simp: exec_bind_Inr_iff case_prod_beta)
    then show ?thesis
      using send_clients_queues [OF s1] lane_head_cong [of s1 "snd (detach_first s)"] enqueue_pending_heads [OF s2(1)] Suc.IH [OF s2(2)]
        detach_first_heads [of s] by simp
  qed (use Suc.prems in simp)
qed

lemma same_jobs_refl: "same_jobs s s"
  by (simp add: same_jobs_def same_job_refl)

lemma same_jobs_trans: "same_jobs a b \<Longrightarrow> same_jobs b c \<Longrightarrow> same_jobs a c"
  using same_job_trans unfolding same_jobs_def by blast

lemma same_jobs_cong: "st_jobs s' = st_jobs s \<Longrightarrow> same_jobs s s'"
  by (simp add: same_jobs_def same_job_refl)

lemma send_clients_jobs: "send_clients j k job s = Inr s' \<Longrightarrow> same_jobs s s'"
proof (induction k arbitrary: j s)
  case (Suc k)
  let ?jr = "st_jobs s job"
  obtain h where "send_clients (Suc j) k job (s\<lparr>st_sent := st_sent s @ [(h, job_payload ?jr, job_no ?jr)],
      st_jobs := (st_jobs s)(job := ?jr\<lparr>job_status := (job_status ?jr)[j := JOB_STARTED]\<rparr>)\<rparr>) = Inr s'"
    using Suc.prems by (auto simp: Let_def split: if_splits option.splits)
  from Suc.IH [OF this] show ?case
    by (rule same_jobs_trans [rotated]) (simp add: same_jobs_def same_job_def)
qed (simp add: same_jobs_refl)

lemma dispatch_high_jobs: "dispatch_high k s = Inr s' \<Longrightarrow> same_jobs s s'"
proof (induction k arbitrary: s)
  case 0
  then show ?case by (auto intro!: same_jobs_cong simp: detach_first_def Let_def split: if_splits)
next
  case (Suc k)
  have d: "same_jobs s (snd (detach_first s))" by (intro same_jobs_cong) (simp add: detach_first_def Let_def)
  show ?case
  proof (cases "high_empty s")
    case False
    then obtain s1 s2 where s1: "send_clients 0 (nat (num_clients (st_jobs (snd (detach_first s)) (fst (detach_first s)))))
        (fst (detach_first s)) (snd (detach_first s)) = Inr s1"
      and s2: "enqueue_pending HIGH_PRIORITY (fst (detach_first s)) s1 = Inr s2" "dispatch_high k s2 = Inr s'"
      using Suc.prems by (auto simp: exec_bind_Inr_iff case_prod_beta)
    have "same_jobs s1 s2" using s2(1) by (intro same_jobs_cong) (auto simp: enqueue_pending_def exec_bind_Inr_iff)
    then show ?thesis
      using d send_clients_jobs [OF s1] Suc.IH [OF s2(2)] same_jobs_trans by blast
  qed (use Suc.prems in \<open>simp add: same_jobs_refl\<close>)
qed

text \<open>
  C10: One pass of the dispatcher takes the jobs off the high priority queue in order.  The
  first 64 are sent to all their clients and appended to the pending queue; the next one,
  if there are more, is taken off the queue and neither sent nor queued anywhere; the rest
  stays.  No other queue changes.
\<close>

theorem dispatcher_pass:
  assumes "disp_inv I f s" "f (Jobs 0) = js" "\<forall>job \<in> set js. sendable (st_jobs s job)"
  shows "\<exists>s'. sfs_dispatcher s = Inr s' \<and>
    disp_inv I (f(Jobs 0 := drop 65 js, Pending 0 := f (Pending 0) @ take 64 js)) s' \<and>
    st_sent s' = st_sent s @ concat (map (\<lambda>job. sends_of (st_jobs s job)) (take 64 js))"
  using dispatch_high_ok [of I f s MAX_HIGH_PRIO] assms by (simp add: sfs_dispatcher_def MAX_HIGH_PRIO_def)

section \<open>Handling responses\<close>

text \<open>The job \<open>job\<close> has the id \<open>i\<close>; its thread waits on the job map \<open>m\<close>.\<close>

definition registered :: "sfs_state \<Rightarrow> 64 word \<Rightarrow> addr \<Rightarrow> addr \<Rightarrow> bool" where
  "registered s i job m \<longleftrightarrow> jt_inv (st_jt s) \<and> jm_inv (st_jm s) \<and>
     (\<exists>tid. jt_abs (st_jt s) i = Some (tid, Some job) \<and> jm_abs (st_jm s) tid = Some (Some m))"

lemma find_job_registered:
  assumes "registered s i job m"
  shows "\<exists>jt jm. find_job jtk jmk i s = Inr (jt, jm) \<and> jt_job jt = Some job \<and> jm_job_map jm = Some m"
proof -
  obtain tid where inv: "jt_inv (st_jt s)" "jm_inv (st_jm s)"
    and abs: "jt_abs (st_jt s) i = Some (tid, Some job)" "jm_abs (st_jm s) tid = Some (Some m)"
    using assms by (auto simp: registered_def)
  let ?jt = "jtk\<lparr>jt_magic := JTNODE_MAGIC, jt_job_id := i\<rparr>" and ?jm = "jmk\<lparr>jm_magic := JMNODE_MAGIC, jm_thread_id := tid\<rparr>"
  obtain jt where jt: "rb_search jt_cmp ?jt (jobid_tree (st_jt s)) = Some jt" "jt_thread_id jt = tid" "jt_job jt = Some job"
    using jt.search_ok [of "jobid_tree (st_jt s)" ?jt] inv(1) abs(1) by (auto simp: jt_inv_def jt_abs_def jt_valid_def)
  obtain jm where "rb_search jm_cmp ?jm (jobmap_tree (st_jm s)) = Some jm" "jm_job_map jm = Some m"
    using jm.search_ok [of "jobmap_tree (st_jm s)" ?jm] inv(2) abs(2) by (auto simp: jm_inv_def jm_abs_def jm_valid_def)
  then show ?thesis using jt by (simp add: find_job_def)
qed

lemma registered_upd [simp]:
  "registered (upd_job a f s) i job m = registered s i job m"
  "registered (upd_map a g s) i job m = registered s i job m"
  "registered (cond_signal a s) i job m = registered s i job m"
  by (simp_all add: registered_def upd_job_def upd_map_def cond_signal_def)

text \<open>Handling payloads one after the other.\<close>

fun process_all :: "sstack_jt \<Rightarrow> sstack_jm \<Rightarrow> sstack_payload list \<Rightarrow> sfs_state \<Rightarrow> sfs_state exec" where
  "process_all jtk jmk [] s = Inr s"
| "process_all jtk jmk (p # ps) s =
     exec_bind (sfs_process_payload jtk jmk (Inl 0) p s) (process_all jtk jmk ps)"

text \<open>What the handling of a successful answer leaves alone.\<close>

definition answer_frame :: "addr \<Rightarrow> sfs_state \<Rightarrow> sfs_state \<Rightarrow> bool" where
  "answer_frame m s s' \<longleftrightarrow> st_jobq s' = st_jobq s \<and> st_pending s' = st_pending s \<and> st_jt s' = st_jt s \<and> st_jm s' = st_jm s \<and>
     st_sent s' = st_sent s \<and> job_ids (st_maps s' m) = job_ids (st_maps s m) \<and> num_jobs (st_maps s' m) = num_jobs (st_maps s m)"

lemma read_success_step:
  assumes reg: "registered s (pl_job_id p) job m" and p: "pl_command p = NFS_READ_RSP" "command_ok p = SSTACK_SUCCESS"
    and lock: "\<not> map_lock (st_maps s m)"
  shows "\<exists>s'. sfs_process_payload jtk jmk g p s = Inr s' \<and> \<not> map_lock (st_maps s' m) \<and>
    num_jobs_left (st_maps s' m) = num_jobs_left (st_maps s m) - 1 \<and> err_no (st_maps s' m) = err_no (st_maps s m) \<and>
    map_signals (st_maps s' m) = map_signals (st_maps s m) + (if num_jobs_left (st_maps s m) = 1 then 1 else 0) \<and>
    job_payload (st_jobs s' job) = Some (pl_addr p) \<and> answer_frame m s s' \<and>
    (\<forall>i job m. registered s' i job m = registered s i job m)"
proof -
  obtain jt jm where "find_job jtk jmk (pl_job_id p) s = Inr (jt, jm)" "jt_job jt = Some job" "jm_job_map jm = Some m"
    using find_job_registered [OF reg] by blast
  then show ?thesis
    using p lock
    by (simp add: sfs_process_payload_def sfs_process_read_response_def read_count_def locked_upd_def Let_def)
      (simp add: read_signal_def read_mark_def read_store_def upd_map_def upd_job_def cond_signal_def registered_def answer_frame_def)
qed

section \<open>Answers handled at the same time\<close>

text \<open>
  Every answer is handled by a thread of its own.  How far the handler of a successful read is, with the job and the job map that it
  has found, and its next step.
\<close>

datatype read_phase = Arrived | Lost | Found addr addr | Counted addr addr | Stored addr addr | Marked addr addr | Finished addr addr

fun read_rsp_step :: "sstack_jt \<Rightarrow> sstack_jm \<Rightarrow> sstack_payload \<Rightarrow> read_phase \<Rightarrow> sfs_state \<Rightarrow> (read_phase \<times> sfs_state) exec" where
  "read_rsp_step jtk jmk payload Arrived s =
     (case find_job jtk jmk (pl_job_id payload) s of
        Inr (jt_node, jm_node) \<Rightarrow>
          (case (jt_job jt_node, jm_job_map jm_node) of (Some job, Some job_map) \<Rightarrow> Inr (Found job job_map, s) | _ \<Rightarrow> Inl Null_Deref)
      | Inl False \<Rightarrow> Inr (Lost, s\<lparr>sfs_errno := SSTACK_CRIT_FAILURE\<rparr>)
      | Inl True \<Rightarrow> Inr (Lost, s))"
| "read_rsp_step jtk jmk payload Lost s = Inr (Lost, s)"
| "read_rsp_step jtk jmk payload (Found job job_map) s = exec_bind (read_count job_map s) (\<lambda>s. Inr (Counted job job_map, s))"
| "read_rsp_step jtk jmk payload (Counted job job_map) s = Inr (Stored job job_map, read_store job payload s)"
| "read_rsp_step jtk jmk payload (Stored job job_map) s = Inr (Marked job job_map, read_mark job s)"
| "read_rsp_step jtk jmk payload (Marked job job_map) s = Inr (Finished job job_map, read_signal job_map s)"
| "read_rsp_step jtk jmk payload (Finished job job_map) s = Inr (Finished job job_map, s)"

fun read_rsp_steps :: "sstack_jt \<Rightarrow> sstack_jm \<Rightarrow> sstack_payload \<Rightarrow> nat \<Rightarrow> read_phase \<Rightarrow> sfs_state \<Rightarrow> (read_phase \<times> sfs_state) exec" where
  "read_rsp_steps jtk jmk payload 0 h s = Inr (h, s)"
| "read_rsp_steps jtk jmk payload (Suc k) h s = exec_bind (read_rsp_step jtk jmk payload h s) (\<lambda>(h, s). read_rsp_steps jtk jmk payload k h s)"

text \<open>The steps of a handler, run without interruption, are \<^const>\<open>sfs_process_read_response\<close>.\<close>

lemma read_steps_handler:
  assumes "registered s (pl_job_id p) job m" "command_ok p = SSTACK_SUCCESS"
  shows "sfs_process_read_response jtk jmk g p s =
    exec_bind (read_rsp_steps jtk jmk p 5 Arrived s) (\<lambda>(_, s'). Inr (p, s'))"
proof -
  obtain jt jm where "find_job jtk jmk (pl_job_id p) s = Inr (jt, jm)" "jt_job jt = Some job" "jm_job_map jm = Some m"
    using find_job_registered [OF assms(1)] by blast
  then show ?thesis using assms(2) by (simp add: sfs_process_read_response_def numeral_eq_Suc exec_bind_def split: sum.split)
qed

text \<open>Some handler takes its next step.\<close>

inductive reads_step ::
  "sstack_jt \<Rightarrow> sstack_jm \<Rightarrow> sstack_payload list \<Rightarrow> read_phase list \<times> sfs_state \<Rightarrow> read_phase list \<times> sfs_state \<Rightarrow> bool"
  for jtk jmk ps where
  "\<lbrakk>i < length ps; read_rsp_step jtk jmk (ps ! i) (hs ! i) s = Inr (h, s')\<rbrakk> \<Longrightarrow> reads_step jtk jmk ps (hs, s) (hs[i := h], s')"

text \<open>The handlers in the order of a schedule.\<close>

fun interleave ::
  "sstack_jt \<Rightarrow> sstack_jm \<Rightarrow> sstack_payload list \<Rightarrow> nat list \<Rightarrow> read_phase list \<Rightarrow> sfs_state \<Rightarrow> (read_phase list \<times> sfs_state) exec" where
  "interleave jtk jmk ps [] hs s = Inr (hs, s)"
| "interleave jtk jmk ps (i # is) hs s =
     (if i < length ps then exec_bind (read_rsp_step jtk jmk (ps ! i) (hs ! i) s) (\<lambda>(h, s). interleave jtk jmk ps is (hs[i := h]) s) else Inl Bad_Access)"

lemma interleave_steps: "interleave jtk jmk ps is hs s = Inr (hs', s') \<Longrightarrow> (reads_step jtk jmk ps)\<^sup>*\<^sup>* (hs, s) (hs', s')"
proof (induction "is" arbitrary: hs s)
  case (Cons i "is")
  then obtain h s1 where "i < length ps" "read_rsp_step jtk jmk (ps ! i) (hs ! i) s = Inr (h, s1)" "interleave jtk jmk ps is (hs[i := h]) s1 = Inr (hs', s')"
    by (auto simp: exec_bind_Inr_iff split: if_splits)
  then show ?case using Cons.IH reads_step.intros by (metis converse_rtranclp_into_rtranclp)
qed simp

definition uncounted :: "read_phase \<Rightarrow> bool" where
  "uncounted h \<longleftrightarrow> (case h of Arrived \<Rightarrow> True | Found job m \<Rightarrow> True | _ \<Rightarrow> False)"

definition read_finished :: "read_phase \<Rightarrow> bool" where
  "read_finished h \<longleftrightarrow> (case h of Finished job m \<Rightarrow> True | _ \<Rightarrow> False)"

definition how_many :: "(read_phase \<Rightarrow> bool) \<Rightarrow> read_phase list \<Rightarrow> int" where
  "how_many P hs = int (length (filter P hs))"

lemma how_many_update:
  assumes "i < length hs"
  shows "how_many P (hs[i := h]) = how_many P hs - (if P (hs ! i) then 1 else 0) + (if P h then 1 else 0)"
  using assms
proof (induction hs arbitrary: i)
  case (Cons x hs)
  then show ?case
  proof (cases i)
    case (Suc k)
    then show ?thesis using Cons.IH [of k] Cons.prems by (simp add: how_many_def split: if_splits)
  qed (simp add: how_many_def)
qed simp

lemma how_many_le: "how_many P hs \<le> int (length hs)" "0 \<le> how_many P hs"
  by (simp_all add: how_many_def)

lemma how_many_0: "how_many P hs = 0 \<longleftrightarrow> (\<forall>h \<in> set hs. \<not> P h)"
  by (auto simp: how_many_def filter_empty_conv)

text \<open>The payload that a job got is that of one of its answers, and what a handler has recorded stays.\<close>

definition read_recorded :: "sstack_payload list \<Rightarrow> addr \<Rightarrow> sfs_state \<Rightarrow> sfs_state \<Rightarrow> read_phase \<Rightarrow> sstack_payload \<Rightarrow> bool" where
  "read_recorded ps m s0 s h p \<longleftrightarrow>
     (let stored = (\<lambda>job. \<exists>q \<in> set ps. registered s0 (pl_job_id q) job m \<and> job_payload (st_jobs s job) = Some (pl_addr q));
          marked = (\<lambda>job. job_status (st_jobs s job) \<noteq> [] \<longrightarrow> hd (job_status (st_jobs s job)) = JOB_COMPLETE)
      in case h of Arrived \<Rightarrow> True | Lost \<Rightarrow> False
         | Found job m' \<Rightarrow> m' = m \<and> registered s0 (pl_job_id p) job m
         | Counted job m' \<Rightarrow> m' = m \<and> registered s0 (pl_job_id p) job m
         | Stored job m' \<Rightarrow> m' = m \<and> registered s0 (pl_job_id p) job m \<and> stored job
         | Marked job m' \<Rightarrow> m' = m \<and> registered s0 (pl_job_id p) job m \<and> stored job \<and> marked job
         | Finished job m' \<Rightarrow> m' = m \<and> registered s0 (pl_job_id p) job m \<and> stored job \<and> marked job)"

definition reads_inv :: "sstack_payload list \<Rightarrow> addr \<Rightarrow> sfs_state \<Rightarrow> read_phase list \<Rightarrow> sfs_state \<Rightarrow> bool" where
  "reads_inv ps m s0 hs s \<longleftrightarrow>
     length hs = length ps \<and> st_jt s = st_jt s0 \<and> st_jm s = st_jm s0 \<and> \<not> map_lock (st_maps s m) \<and>
     num_jobs_left (st_maps s m) = how_many uncounted hs \<and>
     (\<forall>i < length ps. read_recorded ps m s0 s (hs ! i) (ps ! i)) \<and>
     map_signals (st_maps s0 m) \<le> map_signals (st_maps s m) \<and>
     int (map_signals (st_maps s m)) \<le> int (map_signals (st_maps s0 m)) + how_many read_finished hs \<and>
     (0 < how_many uncounted hs \<longrightarrow> map_signals (st_maps s m) = map_signals (st_maps s0 m)) \<and>
     ((\<forall>h \<in> set hs. read_finished h) \<longrightarrow> map_signals (st_maps s0 m) < map_signals (st_maps s m))"

text \<open>The steps, where the handler has found the job map \<open>m\<close>.\<close>

lemma read_step_cases:
  assumes step: "read_rsp_step jtk jmk p h s = Inr (h', s')" and inv: "read_recorded ps m s0 s h p" "st_jt s = st_jt s0" "st_jm s = st_jm s0"
    and p: "registered s0 (pl_job_id p) job m" and lock: "\<not> map_lock (st_maps s m)"
  obtains (find) "h = Arrived" "h' = Found job m" "s' = s"
  | (count) "h = Found job m" "h' = Counted job m" "s' = upd_map m (\<lambda>r. r\<lparr>num_jobs_left := num_jobs_left r - 1, map_lock := False\<rparr>) s"
  | (store) "h = Counted job m" "h' = Stored job m" "s' = read_store job p s"
  | (mark) "h = Stored job m" "h' = Marked job m" "s' = read_mark job s"
  | (signal) "h = Marked job m" "h' = Finished job m" "s' = read_signal m s"
  | (finish) "h = Finished job m" "h' = Finished job m" "s' = s"
proof -
  have "registered s (pl_job_id p) job m" using p inv(2,3) by (simp add: registered_def)
  then obtain jt jm where found: "find_job jtk jmk (pl_job_id p) s = Inr (jt, jm)" "jt_job jt = Some job" "jm_job_map jm = Some m"
    using find_job_registered by blast
  have "registered s0 (pl_job_id p) job' m \<Longrightarrow> job' = job" for job' using p by (auto simp: registered_def)
  then consider "h = Arrived" | "h = Found job m" | "h = Counted job m" | "h = Stored job m" | "h = Marked job m" | "h = Finished job m"
    using inv(1) by (auto simp: read_recorded_def Let_def split: read_phase.splits)
  then show thesis
  proof cases
    case 1 then show ?thesis using step found by (intro find) simp_all
  next
    case 2 then show ?thesis using step lock by (intro count) (simp_all add: read_count_def locked_upd_def)
  next
    case 3 then show ?thesis using step by (intro store) simp_all
  next
    case 4 then show ?thesis using step by (intro mark) simp_all
  next
    case 5 then show ?thesis using step by (intro signal) simp_all
  next
    case 6 then show ?thesis using step by (intro finish) simp_all
  qed
qed

lemma read_recorded_store: "p \<in> set ps \<Longrightarrow> registered s0 (pl_job_id p) job m \<Longrightarrow> read_recorded ps m s0 s g q \<Longrightarrow> read_recorded ps m s0 (read_store job p s) g q"
  by (cases g) (auto simp: read_recorded_def read_store_def upd_job_def Let_def)

lemma read_recorded_mark: "read_recorded ps m s0 s g q \<Longrightarrow> read_recorded ps m s0 (read_mark job s) g q"
  by (cases g) (auto simp: read_recorded_def read_mark_def upd_job_def Let_def hd_conv_nth)

lemma read_recorded_same: "st_jobs s' = st_jobs s \<Longrightarrow> read_recorded ps m s0 s' g q = read_recorded ps m s0 s g q"
  by (simp add: read_recorded_def)

lemma same_jobs: "st_jobs (upd_map m f s) = st_jobs s" "st_jobs (read_signal m s) = st_jobs s"
  by (simp_all add: upd_map_def read_signal_def cond_signal_def)

lemma read_step_records:
  assumes step: "read_rsp_step jtk jmk p h s = Inr (h', s')" and inv: "read_recorded ps m s0 s h p" "st_jt s = st_jt s0" "st_jm s = st_jm s0"
    and p: "p \<in> set ps" "registered s0 (pl_job_id p) job m" and lock: "\<not> map_lock (st_maps s m)"
  shows "read_recorded ps m s0 s' h' p \<and> (\<forall>g q. read_recorded ps m s0 s g q \<longrightarrow> read_recorded ps m s0 s' g q)"
  using step inv p(2) lock
proof (cases rule: read_step_cases)
  case find
  then show ?thesis using p(2) by (simp add: read_recorded_def)
next
  case count
  then show ?thesis using p(2) by (simp add: read_recorded_same [OF same_jobs(1)]) (simp add: read_recorded_def)
next
  case store
  then show ?thesis using p read_recorded_store [OF p] by (auto simp: read_recorded_def read_store_def upd_job_def)
next
  case mark
  then show ?thesis using inv(1) read_recorded_mark by (auto simp: read_recorded_def read_mark_def upd_job_def Let_def hd_conv_nth)
next
  case signal
  then show ?thesis using inv(1) by (simp add: read_recorded_same [OF same_jobs(2)]) (simp add: read_recorded_def)
next
  case finish
  then show ?thesis using inv(1) by simp
qed

lemma read_step_effect:
  assumes step: "read_rsp_step jtk jmk p h s = Inr (h', s')" and inv: "read_recorded ps m s0 s h p" "st_jt s = st_jt s0" "st_jm s = st_jm s0"
    and p: "registered s0 (pl_job_id p) job m" and lock: "\<not> map_lock (st_maps s m)"
  shows "st_jt s' = st_jt s0 \<and> st_jm s' = st_jm s0 \<and> \<not> map_lock (st_maps s' m) \<and>
    num_jobs_left (st_maps s' m) = num_jobs_left (st_maps s m) - (if uncounted h then 1 else 0) + (if uncounted h' then 1 else 0) \<and>
    map_signals (st_maps s' m) = map_signals (st_maps s m) + (if read_finished h' \<and> \<not> read_finished h \<and> num_jobs_left (st_maps s m) = 0 then 1 else 0) \<and>
    (uncounted h' \<longrightarrow> uncounted h) \<and> (read_finished h \<longrightarrow> h' = h) \<and> (read_finished h' \<longrightarrow> \<not> uncounted h)"
  using step inv p lock
  by (cases rule: read_step_cases)
    (use inv lock in \<open>simp_all add: uncounted_def read_finished_def read_store_def read_mark_def read_signal_def upd_map_def upd_job_def cond_signal_def\<close>)

lemma reads_step_inv:
  assumes step: "reads_step jtk jmk ps (hs, s) (hs', s')" and inv: "reads_inv ps m s0 hs s"
    and reg: "\<forall>p \<in> set ps. \<exists>job. registered s0 (pl_job_id p) job m"
  shows "reads_inv ps m s0 hs' s'"
  using step
proof (cases rule: reads_step.cases)
  case (1 i h)
  have len: "i < length hs" using 1(2) inv by (simp add: reads_inv_def)
  obtain job where job: "registered s0 (pl_job_id (ps ! i)) job m" using reg 1(2) by (meson nth_mem)
  have h: "read_recorded ps m s0 s (hs ! i) (ps ! i)" "st_jt s = st_jt s0" "st_jm s = st_jm s0" "\<not> map_lock (st_maps s m)"
    "num_jobs_left (st_maps s m) = how_many uncounted hs"
    using inv 1(2) by (simp_all add: reads_inv_def)
  note eff = read_step_effect [OF 1(3) h(1-3) job h(4)] and rec = read_step_records [OF 1(3) h(1-3) nth_mem [OF 1(2)] job h(4)]
  have "read_recorded ps m s0 s' (hs' ! k) (ps ! k)" if "k < length ps" for k
    using that rec inv len 1(1) by (cases "k = i") (auto simp: reads_inv_def)
  moreover have "how_many uncounted hs' = num_jobs_left (st_maps s' m)"
    using eff h(5) how_many_update [OF len, of uncounted h] 1(1) by simp
  moreover have "int (map_signals (st_maps s' m)) \<le> int (map_signals (st_maps s0 m)) + how_many read_finished hs'"
    using eff inv how_many_update [OF len, of read_finished h] 1(1) by (auto simp: reads_inv_def)
  moreover have "map_signals (st_maps s' m) = map_signals (st_maps s0 m)" if "0 < how_many uncounted hs'"
  proof -
    have "0 < how_many uncounted hs" using that eff h(5) calculation(2) by (auto split: if_splits)
    then show ?thesis using eff inv h(5) by (auto simp: reads_inv_def)
  qed
  moreover have "map_signals (st_maps s0 m) < map_signals (st_maps s' m)" if "\<forall>h \<in> set hs'. read_finished h"
  proof (cases "read_finished (hs ! i)")
    case True
    then show ?thesis using that eff inv 1(1) len by (simp add: reads_inv_def list_update_id)
  next
    case False
    have "read_finished h" using that 1(1) len by (metis set_update_memI)
    moreover have "num_jobs_left (st_maps s' m) = 0"
      using that \<open>how_many uncounted hs' = num_jobs_left (st_maps s' m)\<close> how_many_0 [of uncounted hs']
      by (auto simp: uncounted_def read_finished_def split: read_phase.splits)
    ultimately show ?thesis using eff False inv by (auto simp: reads_inv_def uncounted_def read_finished_def split: read_phase.splits)
  qed
  ultimately show ?thesis using eff inv 1(1) unfolding reads_inv_def by auto
qed

lemma reads_reach_inv:
  assumes "(reads_step jtk jmk ps)\<^sup>*\<^sup>* (replicate (length ps) Arrived, s0) (hs, s)" "\<forall>p \<in> set ps. \<exists>job. registered s0 (pl_job_id p) job m"
    "\<not> map_lock (st_maps s0 m)" "num_jobs_left (st_maps s0 m) = int (length ps)" "0 < length ps"
  shows "reads_inv ps m s0 hs s"
  using assms(1)
proof (induction rule: rtranclp_induct2)
  case refl
  have "how_many uncounted (replicate (length ps) Arrived) = int (length ps)" "how_many read_finished (replicate (length ps) Arrived) = 0"
    by (simp_all add: how_many_def uncounted_def read_finished_def filter_replicate)
  then show ?case using assms(3-5) by (simp add: reads_inv_def read_recorded_def read_finished_def)
next
  case (step hs s hs' s')
  then show ?case using reads_step_inv [OF step(2,3) assms(2)] by blast
qed

lemma read_step_runs:
  assumes "read_recorded ps m s0 s h p" "st_jt s = st_jt s0" "st_jm s = st_jm s0" "registered s0 (pl_job_id p) job m" "\<not> map_lock (st_maps s m)"
  shows "\<exists>h' s'. read_rsp_step jtk jmk p h s = Inr (h', s')"
proof -
  have "registered s (pl_job_id p) job m" using assms(2-4) by (simp add: registered_def)
  then obtain jt jm where "find_job jtk jmk (pl_job_id p) s = Inr (jt, jm)" "jt_job jt = Some job" "jm_job_map jm = Some m"
    using find_job_registered by blast
  then show ?thesis using assms(1,5) by (cases h) (simp_all add: read_recorded_def read_count_def locked_upd_def)
qed

text \<open>
  C36: Several successful answers to the reads of a thread, handled at the same time in any interleaving.  The steps of a handler never
  fail.  The number of jobs left is the number of answers not yet counted, and as long as there are some the waiting thread is not signalled.
  When all handlers are finished it has been signalled, at least once and at most once for every answer, every job is complete, and
  it has the payload of an answer to it.
\<close>

theorem reads_wake_when_all_done:
  assumes reg: "\<forall>p \<in> set ps. \<exists>job. registered s0 (pl_job_id p) job m"
    and m: "\<not> map_lock (st_maps s0 m)" "num_jobs_left (st_maps s0 m) = int (length ps)" "0 < length ps"
    and run: "(reads_step jtk jmk ps)\<^sup>*\<^sup>* (replicate (length ps) Arrived, s0) (hs, s)"
  shows "(\<forall>i < length ps. \<exists>h' s'. read_rsp_step jtk jmk (ps ! i) (hs ! i) s = Inr (h', s')) \<and>
    num_jobs_left (st_maps s m) = how_many uncounted hs \<and>
    (0 < how_many uncounted hs \<longrightarrow> map_signals (st_maps s m) = map_signals (st_maps s0 m)) \<and>
    ((\<forall>h \<in> set hs. read_finished h) \<longrightarrow>
      map_signals (st_maps s0 m) < map_signals (st_maps s m) \<and> map_signals (st_maps s m) \<le> map_signals (st_maps s0 m) + length ps \<and>
      (\<forall>p \<in> set ps. \<exists>job. registered s0 (pl_job_id p) job m \<and>
        (\<exists>q \<in> set ps. registered s0 (pl_job_id q) job m \<and> job_payload (st_jobs s job) = Some (pl_addr q)) \<and>
        (job_status (st_jobs s job) \<noteq> [] \<longrightarrow> hd (job_status (st_jobs s job)) = JOB_COMPLETE)))"
proof -
  have inv: "reads_inv ps m s0 hs s" by (rule reads_reach_inv [OF run reg m])
  have "\<exists>h' s'. read_rsp_step jtk jmk (ps ! i) (hs ! i) s = Inr (h', s')" if i: "i < length ps" for i
  proof -
    obtain job where "registered s0 (pl_job_id (ps ! i)) job m" using reg i by (meson nth_mem)
    then show ?thesis using read_step_runs [of ps m s0 s "hs ! i" "ps ! i"] inv i by (simp add: reads_inv_def)
  qed
  moreover have "\<exists>job. registered s0 (pl_job_id p) job m \<and>
      (\<exists>q \<in> set ps. registered s0 (pl_job_id q) job m \<and> job_payload (st_jobs s job) = Some (pl_addr q)) \<and>
      (job_status (st_jobs s job) \<noteq> [] \<longrightarrow> hd (job_status (st_jobs s job)) = JOB_COMPLETE)"
    if "\<forall>h \<in> set hs. read_finished h" "p \<in> set ps" for p
  proof -
    obtain i where i: "i < length ps" "p = ps ! i" using \<open>p \<in> set ps\<close> by (auto simp: in_set_conv_nth)
    then have "read_finished (hs ! i)" "read_recorded ps m s0 s (hs ! i) p" using that(1) inv by (auto simp: reads_inv_def)
    then show ?thesis by (auto simp: read_finished_def read_recorded_def Let_def split: read_phase.splits)
  qed
  moreover have "map_signals (st_maps s m) \<le> map_signals (st_maps s0 m) + length ps"
    using inv how_many_le(1) [of read_finished hs] by (simp add: reads_inv_def)
  ultimately show ?thesis using inv by (simp add: reads_inv_def)
qed

lemma mark_success:
  assumes "sendable (st_jobs s job)" "1 \<le> num_clients (st_jobs s job)" "command_ok p = SSTACK_SUCCESS"
  shows "mark_client 0 (nat (num_clients (st_jobs s job))) job p s =
    Inr (upd_job job (\<lambda>j. j\<lparr>job_payload := Some (pl_addr p), job_status := (job_status j)[0 := JOB_COMPLETE]\<rparr>) s)"
proof -
  obtain n where n: "nat (num_clients (st_jobs s job)) = Suc n" using assms(2) by (cases "nat (num_clients (st_jobs s job))") auto
  have "sfsds (st_jobs s job) ! 0 \<noteq> None" "0 < length (sfsds (st_jobs s job))" "0 < length (job_status (st_jobs s job))"
    using assms(1) n by (auto simp: sendable_def)
  then show ?thesis using assms(3) n by (simp add: Let_def)
qed

lemma mark_other:
  assumes "i + k \<le> length (sfsds (st_jobs s job))" "i + k \<le> length (job_status (st_jobs s job))"
    "\<forall>j < i + k. sfsds (st_jobs s job) ! j \<noteq> None" "command_ok p \<noteq> SSTACK_SUCCESS"
  shows "mark_client i k job p s = Inr s"
  using assms by (induction k arbitrary: i) (simp_all add: Let_def)

text \<open>
  A successful answer to a write with one client and no other job to wait for completes
  the operation: the job is complete, none is left, the waiting thread finds the success
  code and is signalled.
\<close>

theorem write_single_client_completes:
  assumes reg: "registered s (pl_job_id p) job m" and p: "pl_command p = NFS_WRITE_RSP" "command_ok p = SSTACK_SUCCESS"
    and job: "num_clients (st_jobs s job) = 1" "sendable (st_jobs s job)"
    and m: "\<not> map_lock (st_maps s m)" "num_jobs_left (st_maps s m) = 1" "op_status (st_maps s m) \<noteq> []" "op_status (st_maps s m) ! 0 \<noteq> JOB_FAILED"
  shows "\<exists>s'. sfs_process_payload jtk jmk g p s = Inr s' \<and> job_status (st_jobs s' job) ! 0 = JOB_COMPLETE \<and>
    job_payload (st_jobs s' job) = Some (pl_addr p) \<and> num_jobs_left (st_maps s' m) = 0 \<and>
    err_no (st_maps s' m) = SSTACK_SUCCESS \<and> map_signals (st_maps s' m) > map_signals (st_maps s m) \<and> answer_frame m s s'"
proof -
  obtain jt jm where f: "find_job jtk jmk (pl_job_id p) s = Inr (jt, jm)" "jt_job jt = Some job" "jm_job_map jm = Some m"
    using find_job_registered [OF reg] by blast
  have st: "job_status (st_jobs s job) \<noteq> []" using job by (auto simp: sendable_def)
  let ?s = "upd_job job (\<lambda>j. j\<lparr>job_payload := Some (pl_addr p), job_status := (job_status j)[0 := JOB_COMPLETE]\<rparr>) s"
  have mark: "mark_client 0 (Suc 0) job p s = Inr ?s"
    using mark_success [OF job(2) _ p(2)] job(1) by simp
  have "count_clients (st_jobs ?s job) (st_maps ?s m) = Inr (0, 0)"
    using job(1) m(3,4) st by (simp add: count_clients_def upd_job_def Let_def Suc_le_eq not_less)
  moreover have "st_maps ?s = st_maps s" by (simp add: upd_job_def)
  ultimately show ?thesis
    using p f mark job(1) m st
    by (simp add: sfs_process_payload_def sfs_process_write_response_def locked_upd_def del: mark_client.simps)
      (simp add: upd_map_def upd_job_def cond_signal_def answer_frame_def)
qed

lemma write_stuck_step:
  assumes reg: "registered s (pl_job_id p) job m" and p: "pl_command p = NFS_WRITE_RSP"
    and job: "2 \<le> num_clients (st_jobs s job)" "sendable (st_jobs s job)" "job_status (st_jobs s job) ! 1 = JOB_STARTED"
    and m: "num_jobs_left (st_maps s m) \<noteq> 0" "num_clients (st_jobs s job) \<le> int (length (op_status (st_maps s m)))"
  shows "\<exists>s'. sfs_process_payload jtk jmk g p s = Inr s' \<and>
    num_clients (st_jobs s' job) = num_clients (st_jobs s job) \<and> sendable (st_jobs s' job) \<and>
    job_status (st_jobs s' job) ! 1 = JOB_STARTED \<and>
    st_maps s' m = (st_maps s m)\<lparr>map_signals := map_signals (st_maps s m) + 1\<rparr> \<and>
    (\<forall>i job m. registered s' i job m = registered s i job m)"
proof -
  obtain jt jm where f: "find_job jtk jmk (pl_job_id p) s = Inr (jt, jm)" "jt_job jt = Some job" "jm_job_map jm = Some m"
    using find_job_registered [OF reg] by blast
  obtain s1 where s1: "mark_client 0 (nat (num_clients (st_jobs s job))) job p s = Inr s1"
    "num_clients (st_jobs s1 job) = num_clients (st_jobs s job)" "sendable (st_jobs s1 job)"
    "job_status (st_jobs s1 job) ! 1 = JOB_STARTED" "st_maps s1 = st_maps s"
    "\<forall>i job m. registered s1 i job m = registered s i job m"
  proof (cases "command_ok p = SSTACK_SUCCESS")
    case True
    show ?thesis
      by (rule that [OF mark_success [OF job(2) _ True]])
        (use job in \<open>simp_all add: upd_job_def sendable_def registered_def\<close>)
  next
    case False
    show ?thesis
      by (rule that [OF mark_other [OF _ _ _ False]]) (use job in \<open>simp_all add: sendable_def\<close>)
  qed
  have "1 \<in> set (filter (\<lambda>i. job_status (st_jobs s1 job) ! i = JOB_STARTED) [0..<nat (num_clients (st_jobs s1 job))])"
    using s1(2,4) job(1) by simp
  then have "0 < length (filter (\<lambda>i. job_status (st_jobs s1 job) ! i = JOB_STARTED) [0..<nat (num_clients (st_jobs s1 job))])"
    by (metis length_pos_if_in_set)
  moreover have "nat (num_clients (st_jobs s1 job)) \<le> length (job_status (st_jobs s1 job))" using s1(3) by (simp add: sendable_def)
  moreover have "nat (num_clients (st_jobs s1 job)) \<le> length (op_status (st_maps s1 m))" using m(2) s1(2,5) by simp
  ultimately have "\<exists>a b. count_clients (st_jobs s1 job) (st_maps s1 m) = Inr (a, b) \<and> 0 < a"
    by (simp add: count_clients_def not_less Let_def)
  then obtain a b where "count_clients (st_jobs s1 job) (st_maps s1 m) = Inr (a, b)" "a \<noteq> 0" by blast
  then show ?thesis
    using p f s1 m
    by (simp add: sfs_process_payload_def sfs_process_write_response_def case_prod_beta)
      (simp add: upd_map_def cond_signal_def registered_def)
qed

text \<open>
  A write that was sent to two or more clients never completes: whatever the answers to
  it are, the second client counts as not finished, so that the number of jobs left and the
  error code of the waiting thread keep their values, although each answer signals it.
\<close>

theorem write_replicas_never_complete:
  assumes "\<forall>p \<in> set ps. pl_command p = NFS_WRITE_RSP \<and> pl_job_id p = i" "registered s i job m"
    "2 \<le> num_clients (st_jobs s job)" "sendable (st_jobs s job)" "job_status (st_jobs s job) ! 1 = JOB_STARTED"
    "num_jobs_left (st_maps s m) \<noteq> 0" "num_clients (st_jobs s job) \<le> int (length (op_status (st_maps s m)))"
  shows "\<exists>s'. process_all jtk jmk ps s = Inr s' \<and>
    st_maps s' m = (st_maps s m)\<lparr>map_signals := map_signals (st_maps s m) + length ps\<rparr>"
  using assms
proof (induction ps arbitrary: s)
  case (Cons p ps)
  obtain s1 where s1: "sfs_process_payload jtk jmk (Inl 0) p s = Inr s1"
    "num_clients (st_jobs s1 job) = num_clients (st_jobs s job)" "sendable (st_jobs s1 job)"
    "job_status (st_jobs s1 job) ! 1 = JOB_STARTED"
    "st_maps s1 m = (st_maps s m)\<lparr>map_signals := map_signals (st_maps s m) + 1\<rparr>"
    "\<forall>i job m. registered s1 i job m = registered s i job m"
    using write_stuck_step [where p = p and s = s and job = job and m = m and jtk = jtk and jmk = jmk and g = "Inl 0"] Cons.prems
    by auto
  then show ?case using Cons.IH [of s1] Cons.prems by simp
qed simp

section \<open>Retrying a read\<close>

lemma retry_chases:
  assumes "nat (i_numreplicas inode) = i + k" "i + k \<le> length (i_sfsds inode)" "distinct (take (i + k) (i_sfsds inode))"
    "sfsds (st_jobs s job) \<noteq> []" "sfsds (st_jobs s job) ! 0 = Some (i_sfsds inode ! c)" "i \<le> c" "c < i + k"
  shows "\<exists>p' s'. retry_loop i k inode job (p, s) = Inr (p', s') \<and>
    sfsds (st_jobs s' job) ! 0 = Some (i_sfsds inode ! 0) \<and> st_jobq s' = st_jobq s \<and>
    job_priority (st_jobs s' job) = job_priority (st_jobs s job)"
  using assms
proof (induction k arbitrary: i c p s)
  case (Suc k)
  let ?n = "i + Suc k" and ?r = "i_sfsds inode"
  have h: "hd (sfsds (st_jobs s job)) = Some (?r ! c)" using Suc.prems(4,5) by (simp add: hd_conv_nth)
  have i: "i < length ?r" using Suc.prems(2) by simp
  show ?case
  proof (cases "i = c")
    case False
    have "take ?n ?r ! i \<noteq> take ?n ?r ! c"
      using Suc.prems(2,3,7) False by (subst nth_eq_iff_index_eq) auto
    then have "retry_loop i (Suc k) inode job (p, s) = retry_loop (Suc i) k inode job (p, s)"
      using h i Suc.prems(4,7) by (simp add: Let_def)
    then show ?thesis using Suc.IH [of "Suc i" s c p] Suc.prems False by simp
  next
    case True
    let ?next = "(i + 1) mod ?n"
    let ?s = "upd_job job (\<lambda>j. j\<lparr>sfsds := (sfsds j)[0 := Some (?r ! ?next)]\<rparr>) s"
    have "?next < ?n" by simp
    then have next_less: "?next < length ?r" using Suc.prems(2) by linarith
    obtain p1 s1 where s1: "retry_loop i (Suc k) inode job (p, s) = retry_loop (Suc i) k inode job (p1, s1)"
      "sfsds (st_jobs s1 job) = (sfsds (st_jobs s job))[0 := Some (?r ! ?next)]" "st_jobq s1 = st_jobq s"
      "job_priority (st_jobs s1 job) = job_priority (st_jobs s job)"
    proof (cases "?r ! ?next = i_primary_sfsd inode")
      case eq: True
      have "retry_loop i (Suc k) inode job (p, s) = retry_loop (Suc i) k inode job
          (p\<lparr>read_ecode := True\<rparr>, upd_job job (\<lambda>j. j\<lparr>job_payload := Some (pl_addr p)\<rparr>) ?s)"
        using h i next_less Suc.prems(1,4) True eq by (simp add: Let_def)
      then show ?thesis by (rule that) (simp_all add: upd_job_def)
    next
      case neq: False
      have "retry_loop i (Suc k) inode job (p, s) = retry_loop (Suc i) k inode job (p, ?s)"
        using h i next_less Suc.prems(1,4) True neq by (simp add: Let_def)
      then show ?thesis by (rule that) (simp_all add: upd_job_def)
    qed
    show ?thesis
    proof (cases k)
      case 0
      then show ?thesis using s1 Suc.prems(4) by simp
    next
      case (Suc k')
      then have "?next = Suc i" by simp
      then show ?thesis
        using Suc.IH [of "Suc i" s1 "Suc i" p1] s1 Suc.prems Suc by simp
    qed
  qed
qed simp

text \<open>
  After a checksum or memory error, a read is queued again for another replica; as the
  search goes on after it has replaced the replica, the new one is always the first
  replica, whichever failed, the first one included.
\<close>

theorem read_retry_uses_first_replica:
  assumes reg: "registered s (pl_job_id p) job m"
    and p: "command_ok p = - SSTACK_ECKSUM \<or> command_ok p = - SSTACK_NOMEM" "\<not> read_ecode p"
    and inode: "nat (i_numreplicas inode) \<le> length (i_sfsds inode)" "distinct (take (nat (i_numreplicas inode)) (i_sfsds inode))"
    and job: "sfsds (st_jobs s job) \<noteq> []" "sfsds (st_jobs s job) ! 0 = Some (i_sfsds inode ! c)" "c < nat (i_numreplicas inode)"
    and q: "jq_inv n (st_jobq s) f" "job_priority (st_jobs s job) = int pr" "pr < n" "pr \<le> 2" "job \<notin> jq_nodes n (st_jobq s) f"
  shows "\<exists>p' s'. sfs_process_read_response jtk jmk (Inr inode) p s = Inr (p', s') \<and>
    sfsds (st_jobs s' job) ! 0 = Some (i_sfsds inode ! 0) \<and> jq_inv n (st_jobq s') (f(pr := f pr @ [job]))"
proof -
  obtain jt jm where f: "find_job jtk jmk (pl_job_id p) s = Inr (jt, jm)" "jt_job jt = Some job" "jm_job_map jm = Some m"
    using find_job_registered [OF reg] by blast
  obtain p1 s1 where s1: "retry_loop 0 (nat (i_numreplicas inode)) inode job (p, s) = Inr (p1, s1)"
    "sfsds (st_jobs s1 job) ! 0 = Some (i_sfsds inode ! 0)" "st_jobq s1 = st_jobq s" "job_priority (st_jobs s1 job) = int pr"
    using retry_chases [of inode 0 "nat (i_numreplicas inode)" s job c p] inode job q(2) by auto
  obtain q' where q': "sfs_submit_job (int pr) True (Some job) (st_jobq s) = Inr (0, q')" "jq_inv n q' (f(pr := f pr @ [job]))"
    using jq_inv_enqueue [OF q(1,3,4,5)] jq_submit [OF q(4)] by auto
  have ok: "command_ok p \<noteq> SSTACK_SUCCESS"
    using p(1) by (auto simp: SSTACK_SUCCESS_def SSTACK_ECKSUM_def SSTACK_NOMEM_def)
  have "sfs_process_read_response jtk jmk (Inr inode) p s = Inr (p1, s1\<lparr>st_jobq := q'\<rparr>)"
    using f s1 q'(1) ok p by (simp add: sfs_process_read_response_def Let_def)
  then show ?thesis using s1(2) q'(2) by auto
qed

section \<open>Samples\<close>

text \<open>
  A state with two queues for each array; job 7, with id 3, waits in the high priority
  queue, and its thread 5 on the job map 9.
\<close>

definition sample_job :: "int \<Rightarrow> sfs_job" where
  "sample_job n = \<lparr>job_no = 3, num_clients = n, sfsds = [Some 40, Some 41], job_status = [JOB_STARTED, JOB_STARTED],
     job_priority = 0, job_payload = Some 70\<rparr>"

definition sample_queues :: "nat \<Rightarrow> sfs_job_queue list" where
  "sample_queues a = [\<lparr>q_priority = 0, q_list = a, q_lock = False\<rparr>, \<lparr>q_priority = 1, q_list = a + 1, q_lock = False\<rparr>]"

definition sample_jt_entry :: jt_state where
  "sample_jt_entry = (case sfs_job2thread_map_insert (Some \<lparr>jt_magic = 0, jt_job_id = 0, jt_thread_id = 0, jt_job = None\<rparr>) 5 3 (Some 7) sample_jt of
     Inr (_, s) \<Rightarrow> s | Inl _ \<Rightarrow> sample_jt)"

definition sample_jm_entry :: jm_state where
  "sample_jm_entry = (case sfs_job_context_insert (Some \<lparr>jm_magic = 0, jm_thread_id = 0, jm_job_map = None\<rparr>) 5 (Some 9) sample_jm of
     Inr (_, s) \<Rightarrow> s | Inl _ \<Rightarrow> sample_jm)"

definition sample_sfs :: "int \<Rightarrow> list_heap \<Rightarrow> sfs_state" where
  "sample_sfs n links = \<lparr>
     st_jobq = \<lparr>jq_links = links, jq_queues = sample_queues 100, jq_id = (\<lambda>_. 0), jq_errno = 0\<rparr>,
     st_pending = sample_queues 200, st_jobs = (\<lambda>_. sample_job n),
     st_maps = (\<lambda>_. \<lparr>err_no = 0, num_jobs = 1, num_jobs_left = 1, job_ids = [3], op_status = [JOB_INIT, JOB_INIT], map_lock = False, map_signals = 0\<rparr>),
     st_jt = sample_jt_entry, st_jm = sample_jm_entry, st_sent = [], sfs_errno = 0\<rparr>"

lemma sample_registered: "registered (sample_sfs n links) 3 7 9"
proof -
  have "jt_inv sample_jt_entry \<and> jt_abs sample_jt_entry 3 = Some (5, Some 7)"
    using jt_insert_new [OF sample_jt(1), of 3 "\<lparr>jt_magic = 0, jt_job_id = 0, jt_thread_id = 0, jt_job = None\<rparr>" 5 "Some 7"] sample_jt(2)
    by (auto simp: sample_jt_entry_def)
  moreover have "jm_inv sample_jm_entry \<and> jm_abs sample_jm_entry 5 = Some (Some 9)"
    using jm_insert_new [OF sample_jm(1), of 5 "Some 9" "\<lparr>jm_magic = 0, jm_thread_id = 0, jm_job_map = None\<rparr>"] sample_jm(2)
    by (auto simp: sample_jm_entry_def)
  ultimately show ?thesis by (auto simp: registered_def sample_sfs_def)
qed

lemma sample_sendable: "n \<le> 2 \<Longrightarrow> sendable (sample_job n)"
proof -
  assume n: "n \<le> 2"
  have "sfsds (sample_job n) ! i \<noteq> None" if "i < nat n" for i
  proof -
    have "i = 0 \<or> i = 1" using that n by linarith
    then show ?thesis by (auto simp: sample_job_def)
  qed
  then show ?thesis using n by (simp add: sendable_def) (simp add: sample_job_def)
qed

text \<open>Job 7 alone in the high priority queue, or no job at all.\<close>

definition sample_links :: list_heap where
  "sample_links = bds_list_add_tail 7 100 \<lparr>nxt = id, prv = id\<rparr>"

lemma sample_lists:
  "lists_in dlist (lane_head (sample_sfs n sample_links)) {Jobs 0, Pending 0} ((\<lambda>_. [])(Jobs 0 := [7])) sample_links"
  by (simp add: lists_in_def sample_sfs_def sample_queues_def dlist_def sample_links_def bds_list_add_tail_def
      bds_list_insert_def Let_def)

theorem dispatcher_pass_witness:
  "\<exists>s'. sfs_dispatcher (sample_sfs 2 sample_links) = Inr s' \<and>
    disp_inv {Jobs 0, Pending 0} ((\<lambda>_. [])(Jobs 0 := [7], Jobs 0 := [], Pending 0 := [7])) s' \<and>
    st_sent s' = [(40, Some 70, 3), (41, Some 70, 3)]"
proof -
  have inv: "disp_inv {Jobs 0, Pending 0} ((\<lambda>_. [])(Jobs 0 := [7])) (sample_sfs 2 sample_links)"
    using sample_lists [of 2] by (simp add: disp_inv_def sample_sfs_def sample_queues_def)
  have send: "\<forall>job \<in> set [7]. sendable (st_jobs (sample_sfs 2 sample_links) job)"
    using sample_sendable [of 2] by (simp add: sample_sfs_def)
  have "sends_of (sample_job 2) = [(40, Some 70, 3), (41, Some 70, 3)]"
    by (simp add: sends_of_def sample_job_def upt_rec)
  then show ?thesis
    using dispatcher_pass [OF inv _ send] by (simp add: sample_sfs_def)
qed

definition sample_response :: "sstack_command \<Rightarrow> int \<Rightarrow> sstack_payload" where
  "sample_response c ok = \<lparr>pl_addr = 80, pl_command = c, pl_job_id = 3, command_ok = ok, read_ecode = False\<rparr>"

definition sample_jtk :: sstack_jt where
  "sample_jtk = \<lparr>jt_magic = 0, jt_job_id = 0, jt_thread_id = 0, jt_job = None\<rparr>"

definition sample_jmk :: sstack_jm where
  "sample_jmk = \<lparr>jm_magic = 0, jm_thread_id = 0, jm_job_map = None\<rparr>"

text \<open>Two reads of one thread; both answers are counted before either handler tests the number of jobs left.\<close>

definition sample_two :: sfs_state where
  "sample_two = (let s = sample_sfs 1 sample_links in
     s\<lparr>st_maps := (\<lambda>_. (st_maps s 9)\<lparr>num_jobs_left := 2\<rparr>),
       st_jt := (case sfs_job2thread_map_insert (Some sample_jtk) 5 4 (Some 8) sample_jt_entry of Inr (_, t) \<Rightarrow> t | Inl _ \<Rightarrow> sample_jt)\<rparr>)"

definition sample_reads :: "sstack_payload list" where
  "sample_reads = [sample_response NFS_READ_RSP 100, (sample_response NFS_READ_RSP 100)\<lparr>pl_addr := 81, pl_job_id := 4\<rparr>]"

lemma sample_two_registered: "registered sample_two 3 7 9" "registered sample_two 4 8 9"
proof -
  have one: "jt_inv sample_jt_entry" "jt_abs sample_jt_entry = (jt_abs sample_jt)(3 \<mapsto> (5, Some 7))"
    using jt_insert_new [OF sample_jt(1), of 3 "\<lparr>jt_magic = 0, jt_job_id = 0, jt_thread_id = 0, jt_job = None\<rparr>" 5 "Some 7"] sample_jt(2)
    by (auto simp: sample_jt_entry_def)
  then have "jt_abs sample_jt_entry 4 = None" using sample_jt(2) by simp
  then have two: "jt_inv (st_jt sample_two) \<and> jt_abs (st_jt sample_two) = (jt_abs sample_jt)(3 \<mapsto> (5, Some 7), 4 \<mapsto> (5, Some 8))"
    using jt_insert_new [OF one(1), of 4 sample_jtk 5 "Some 8"] one(2) by (auto simp: sample_two_def Let_def)
  have "st_jm sample_two = st_jm (sample_sfs 1 sample_links)" by (simp add: sample_two_def Let_def)
  then show "registered sample_two 3 7 9" "registered sample_two 4 8 9"
    using sample_registered [of 1 sample_links] two one by (auto simp: registered_def sample_sfs_def)
qed

lemma sample_interleaved:
  "\<exists>s. interleave sample_jtk sample_jmk sample_reads [0, 1, 0, 1, 0, 1, 0, 1, 0, 1] [Arrived, Arrived] sample_two = Inr ([Finished 7 9, Finished 8 9], s) \<and>
    map_signals (st_maps s 9) = 2"
proof -
  obtain jt jm where a: "find_job sample_jtk sample_jmk 3 sample_two = Inr (jt, jm)" "jt_job jt = Some 7" "jm_job_map jm = Some 9"
    using find_job_registered [OF sample_two_registered(1)] by blast
  obtain jt' jm' where b: "find_job sample_jtk sample_jmk 4 sample_two = Inr (jt', jm')" "jt_job jt' = Some 8" "jm_job_map jm' = Some 9"
    using find_job_registered [OF sample_two_registered(2)] by blast
  have "st_maps sample_two 9 = (st_maps (sample_sfs 1 sample_links) 9)\<lparr>num_jobs_left := 2\<rparr>" by (simp add: sample_two_def Let_def)
  then show ?thesis
    using a b
    by (simp add: sample_reads_def sample_response_def read_count_def locked_upd_def read_store_def read_mark_def read_signal_def upd_map_def upd_job_def
        cond_signal_def sample_sfs_def)
qed

theorem reads_wake_when_all_done_witness:
  "\<exists>s. (reads_step sample_jtk sample_jmk sample_reads)\<^sup>*\<^sup>* ([Arrived, Arrived], sample_two) ([Finished 7 9, Finished 8 9], s) \<and>
    num_jobs_left (st_maps s 9) = 0 \<and> map_signals (st_maps sample_two 9) < map_signals (st_maps s 9) \<and> map_signals (st_maps s 9) = 2 \<and>
    (\<exists>q \<in> set sample_reads. job_payload (st_jobs s 8) = Some (pl_addr q))"
proof -
  obtain s where run: "(reads_step sample_jtk sample_jmk sample_reads)\<^sup>*\<^sup>* ([Arrived, Arrived], sample_two) ([Finished 7 9, Finished 8 9], s)"
    and two: "map_signals (st_maps s 9) = 2"
    using sample_interleaved interleave_steps by blast
  have reg: "\<forall>p \<in> set sample_reads. \<exists>job. registered sample_two (pl_job_id p) job 9"
    using sample_two_registered by (auto simp: sample_reads_def sample_response_def)
  have len: "length sample_reads = 2" "replicate 2 Arrived = [Arrived, Arrived]" by (simp_all add: sample_reads_def numeral_eq_Suc)
  have m: "\<not> map_lock (st_maps sample_two 9)" "num_jobs_left (st_maps sample_two 9) = int (length sample_reads)" "0 < length sample_reads"
    by (simp_all add: len sample_two_def sample_sfs_def Let_def)
  note all = reads_wake_when_all_done [OF reg m, of sample_jtk sample_jmk "[Finished 7 9, Finished 8 9]" s, unfolded len, OF run]
  have "registered sample_two 4 job 9 \<Longrightarrow> job = 8" for job using sample_two_registered(2) by (auto simp: registered_def)
  then have "\<exists>q \<in> set sample_reads. job_payload (st_jobs s 8) = Some (pl_addr q)"
    using all by (fastforce simp: read_finished_def sample_reads_def)
  then show ?thesis using all run two by (auto simp: how_many_def uncounted_def read_finished_def)
qed

theorem write_single_client_completes_witness:
  "\<exists>s'. sfs_process_payload sample_jtk sample_jmk (Inl 0) (sample_response NFS_WRITE_RSP 100) (sample_sfs 1 sample_links) = Inr s' \<and>
    job_status (st_jobs s' 7) ! 0 = JOB_COMPLETE \<and> num_jobs_left (st_maps s' 9) = 0 \<and> err_no (st_maps s' 9) = SSTACK_SUCCESS"
  using write_single_client_completes [of "sample_sfs 1 sample_links" "sample_response NFS_WRITE_RSP 100" 7 9 sample_jtk sample_jmk "Inl 0"]
    sample_registered [of 1 sample_links] sample_sendable [of 1]
  by (simp add: sample_response_def SSTACK_SUCCESS_def) (auto simp: sample_sfs_def sample_job_def)

theorem write_replicas_never_complete_witness:
  "\<exists>s'. process_all sample_jtk sample_jmk [sample_response NFS_WRITE_RSP 100, sample_response NFS_WRITE_RSP 100] (sample_sfs 2 sample_links) = Inr s' \<and>
    num_jobs_left (st_maps s' 9) = 1 \<and> map_signals (st_maps s' 9) = 2"
  using write_replicas_never_complete [of "[sample_response NFS_WRITE_RSP 100, sample_response NFS_WRITE_RSP 100]" 3
      "sample_sfs 2 sample_links" 7 9 sample_jtk sample_jmk]
    sample_registered [of 2 sample_links] sample_sendable [of 2]
  by (simp add: sample_response_def) (auto simp: sample_sfs_def sample_job_def)

definition sample_inode :: retry_inode where
  "sample_inode = \<lparr>i_numreplicas = 2, i_sfsds = [40, 41], i_primary_sfsd = 50\<rparr>"

theorem read_retry_uses_first_replica_witness:
  "\<exists>p' s'. sfs_process_read_response sample_jtk sample_jmk (Inr sample_inode) (sample_response NFS_READ_RSP (-102))
      (sample_sfs 1 \<lparr>nxt = id, prv = id\<rparr>) = Inr (p', s') \<and>
    sfsds (st_jobs s' 7) ! 0 = Some 40 \<and> jq_inv 2 (st_jobq s') ((\<lambda>_. [])(0 := [7]))"
proof -
  let ?s = "sample_sfs 1 \<lparr>nxt = id, prv = id\<rparr>"
  have q: "jq_inv 2 (st_jobq ?s) (\<lambda>_. [])"
    by (auto simp: jq_inv_def jq_rep_def dlist_def sample_sfs_def sample_queues_def less_2_cases_iff)
  have "7 \<notin> jq_nodes 2 (st_jobq ?s) (\<lambda>_. [])"
    by (auto simp: jq_nodes_def sample_sfs_def sample_queues_def less_2_cases_iff)
  then show ?thesis
    using read_retry_uses_first_replica [of ?s "sample_response NFS_READ_RSP (-102)" 7 9 sample_inode 0 2 "\<lambda>_. []" 0 sample_jtk sample_jmk]
      sample_registered [of 1 "\<lparr>nxt = id, prv = id\<rparr>"] q
    by (simp add: sample_response_def SSTACK_ECKSUM_def sample_inode_def) (simp add: sample_sfs_def sample_job_def)
qed

end
