(* ===== verification/Job_Setup.thy ===== *)
theory Job_Setup
  imports Dispatch Job_Ids
begin

text \<open>
  Jobs from their allocation to the dispatcher: \<^verbatim>\<open>sfs_job_init\<close> and \<^verbatim>\<open>create_job_map\<close> of
  \<^verbatim>\<open>sfs/src/sfs_job.c\<close>, the steps that the storage commands, reads and writes share when they
  set up a job, and the invariant of the job system that the handlers keep.  Memory that is
  freed keeps its contents and is not used again.
\<close>

section \<open>Jobs and job maps\<close>

record sys_state =
  cs_sfs :: sfs_state
  cs_ids :: job_ids

definition MAX_SFSD_CLIENTS :: nat where "MAX_SFSD_CLIENTS = 8"

definition sfs_job_init :: "addr option \<Rightarrow> 'a sys_state_scheme \<Rightarrow> (addr option \<times> 'a sys_state_scheme) exec" where
  "sfs_job_init mem s =
     (case mem of
        None \<Rightarrow> Inr (None, s)
      | Some job \<Rightarrow>
          exec_bind (get_next_job_id (cs_ids s)) (\<lambda>(i, ids).
          let d = cs_sfs s; q = st_jobq d;
              jr = \<lparr>job_no = i, num_clients = 0, sfsds = replicate MAX_SFSD_CLIENTS None,
                    job_status = replicate MAX_SFSD_CLIENTS JOB_STARTED, job_priority = -1, job_payload = None\<rparr>
          in Inr (Some job, s\<lparr>cs_ids := ids,
               cs_sfs := d\<lparr>st_jobs := (st_jobs d)(job := jr), st_jobq := q\<lparr>jq_links := INIT_LIST_HEAD job (jq_links q)\<rparr>\<rparr>\<rparr>)))"

definition create_job_map :: "addr option \<Rightarrow> sfs_state \<Rightarrow> addr option \<times> sfs_state" where
  "create_job_map mem d =
     (case mem of
        None \<Rightarrow> (None, d)
      | Some m \<Rightarrow> (Some m, upd_map m (\<lambda>r. r\<lparr>num_jobs := 0, job_ids := [], map_lock := False, map_signals := 0\<rparr>) d))"

definition upd_sfs :: "(sfs_state \<Rightarrow> sfs_state) \<Rightarrow> 'a sys_state_scheme \<Rightarrow> 'a sys_state_scheme" where
  "upd_sfs f s = s\<lparr>cs_sfs := f (cs_sfs s)\<rparr>"

text \<open>
  The steps that every request begins a job with: allocation, a further id, and one client.
  \<open>info\<close> is the pointer through which the pointer to the sfsd is read, if any, and what is read.
\<close>

definition setup_job ::
  "addr option \<Rightarrow> 64 word option option \<Rightarrow> 'a sys_state_scheme \<Rightarrow> ((addr \<times> 64 word) option \<times> 'a sys_state_scheme) exec" where
  "setup_job mem info s =
     exec_bind (sfs_job_init mem s) (\<lambda>(job, s).
     case job of None \<Rightarrow> Inr (None, s) | Some job \<Rightarrow>
     exec_bind (get_next_job_id (cs_ids s)) (\<lambda>(i, ids).
     case info of None \<Rightarrow> Inl Null_Deref | Some sfsd \<Rightarrow>
     Inr (Some (job, i), upd_sfs (upd_job job (\<lambda>j. j\<lparr>job_no := i, num_clients := 1, sfsds := (sfsds j)[0 := sfsd],
            job_status := (job_status j)[0 := JOB_STARTED], job_priority := 0\<rparr>)) (s\<lparr>cs_ids := ids\<rparr>))))"

section \<open>The queues\<close>

text \<open>The queues are in order and their locks free.\<close>

definition queues_ok :: "lane set \<Rightarrow> (lane \<Rightarrow> addr list) \<Rightarrow> sfs_state \<Rightarrow> bool" where
  "queues_ok I f d \<longleftrightarrow> disp_inv I f d \<and> jq_queues (st_jobq d) \<noteq> [] \<and> \<not> q_lock (jq_queues (st_jobq d) ! 0)"

definition fresh_job :: "lane set \<Rightarrow> (lane \<Rightarrow> addr list) \<Rightarrow> addr \<Rightarrow> sfs_state \<Rightarrow> bool" where
  "fresh_job I f job d \<longleftrightarrow> (\<forall>l \<in> I. job \<notin> set (lane_head d l # f l))"

lemma queues_ok_cong:
  assumes "queues_ok I f d" "st_jobq d' = st_jobq d" "st_pending d' = st_pending d"
  shows "queues_ok I f d'"
  using assms lane_head_cong [of d' d] by (simp add: queues_ok_def disp_inv_def)

lemma queues_ok_init:
  assumes "queues_ok I f d" "fresh_job I f job d" "st_pending d' = st_pending d"
    "st_jobq d' = (st_jobq d)\<lparr>jq_links := INIT_LIST_HEAD job (jq_links (st_jobq d))\<rparr>"
  shows "queues_ok I f d'"
proof -
  have "lists_in dlist (lane_head d) I f (INIT_LIST_HEAD job (jq_links (st_jobq d)))"
    using assms(1,2) by (intro bds.lists_init) (auto simp: queues_ok_def disp_inv_def fresh_job_def)
  then show ?thesis using assms lane_head_cong [of d' d] by (simp add: queues_ok_def disp_inv_def)
qed

lemma submit_high:
  assumes ok: "queues_ok I f d" and fresh: "fresh_job I f job d"
  shows "\<exists>q. sfs_submit_job 0 True (Some job) (st_jobq d) = Inr (0, q) \<and>
    queues_ok I (f(Jobs 0 := f (Jobs 0) @ [job])) (d\<lparr>st_jobq := q\<rparr>) \<and> lane_head (d\<lparr>st_jobq := q\<rparr>) = lane_head d"
proof -
  let ?q = "jq_queues (st_jobq d) ! 0"
  let ?qs = "(jq_queues (st_jobq d))[0 := ?q\<lparr>q_lock := False\<rparr>]"
  let ?l = "bds_list_add_tail job (q_list ?q) (jq_links (st_jobq d))"
  let ?d = "d\<lparr>st_jobq := (st_jobq d)\<lparr>jq_links := ?l, jq_queues := ?qs\<rparr>\<rparr>"
  have "sfs_submit_job 0 True (Some job) (st_jobq d) = Inr (0, (st_jobq d)\<lparr>jq_links := ?l, jq_queues := ?qs\<rparr>)"
    using ok by (simp add: sfs_submit_job_def sfs_enqueue_job_def jq_bad_args_def HIGH_PRIORITY_def
        NUM_PRIORITY_MAX_def queues_ok_def Let_def)
  moreover have "q_list (?qs ! p) = q_list (jq_queues (st_jobq d) ! p)" for p
    using ok by (cases "p = 0") (simp_all add: queues_ok_def)
  then have "lane_head ?d l = lane_head d l" for l by (cases l) simp_all
  then have lane: "lane_head ?d = lane_head d" by (rule ext)
  have "lists_in dlist (lane_head d) I (f(Jobs 0 := f (Jobs 0) @ [job])) ?l"
    using bds.lists_add_tail [of "lane_head d" I f "jq_links (st_jobq d)" "Jobs 0" job] ok fresh
    by (simp add: queues_ok_def disp_inv_def fresh_job_def)
  then have "queues_ok I (f(Jobs 0 := f (Jobs 0) @ [job])) ?d"
    using ok lane by (simp add: queues_ok_def disp_inv_def)
  ultimately show ?thesis using lane by blast
qed

section \<open>The job system\<close>

definition trees_ok :: "sfs_state \<Rightarrow> bool" where
  "trees_ok d \<longleftrightarrow> jt_inv (st_jt d) \<and> jm_inv (st_jm d)"

text \<open>The state in which the handler of a request can run.\<close>

definition sys_ok :: "lane set \<Rightarrow> (lane \<Rightarrow> addr list) \<Rightarrow> 'a sys_state_scheme \<Rightarrow> bool" where
  "sys_ok I f s \<longleftrightarrow> queues_ok I f (cs_sfs s) \<and> trees_ok (cs_sfs s) \<and> ji_ok (cs_ids s) \<and> \<not> sfs_job_id_mutex (cs_ids s)"

text \<open>The second of the two ids that a handler takes is the one of the job.\<close>

definition next_job_id :: "'a sys_state_scheme \<Rightarrow> 64 word" where
  "next_job_id s = current_job_id (cs_ids s) + 1"

definition ids_left :: "'a sys_state_scheme \<Rightarrow> bool" where
  "ids_left s \<longleftrightarrow> unat (current_job_id (cs_ids s)) + 1 < MAX_OUTSTANDING_JOBS"

lemma two_ids:
  assumes "ji_ok ids" "\<not> sfs_job_id_mutex ids" "unat (current_job_id ids) + 1 < MAX_OUTSTANDING_JOBS"
  shows "\<exists>i ids1 ids2. get_next_job_id ids = Inr (i, ids1) \<and> get_next_job_id ids1 = Inr (current_job_id ids + 1, ids2) \<and>
    ji_ok ids2 \<and> \<not> sfs_job_id_mutex ids2 \<and> current_job_id ids2 = current_job_id ids + 2"
proof -
  obtain ids1 where 1: "get_next_job_id ids = Inr (current_job_id ids, ids1)" "ji_ok ids1" "\<not> sfs_job_id_mutex ids1"
    "unat (current_job_id ids1) = Suc (unat (current_job_id ids))"
    using get_straight [OF assms(1,2)] assms(3) by auto
  then have c1: "current_job_id ids1 = current_job_id ids + 1"
    using assms(3) by (auto simp: word_unat_eq_iff unat_word_ariths MAX_OUTSTANDING_JOBS_def)
  obtain ids2 where 2: "get_next_job_id ids1 = Inr (current_job_id ids1, ids2)" "ji_ok ids2" "\<not> sfs_job_id_mutex ids2"
    "unat (current_job_id ids2) = Suc (unat (current_job_id ids1))"
    using get_straight [OF 1(2,3)] 1(4) assms(3) by auto
  have "current_job_id ids2 = current_job_id ids + 2"
    using 1(4) 2(4) assms(3) by (auto simp: word_unat_eq_iff unat_word_ariths MAX_OUTSTANDING_JOBS_def)
  then show ?thesis using 1(1) 2 c1 by metis
qed

definition new_job :: "64 word \<Rightarrow> 64 word \<Rightarrow> sfs_job" where
  "new_job h i =
     \<lparr>job_no = i, num_clients = 1, sfsds = (replicate MAX_SFSD_CLIENTS None)[0 := Some h],
      job_status = replicate MAX_SFSD_CLIENTS JOB_STARTED, job_priority = 0, job_payload = None\<rparr>"

text \<open>What setting up a job leaves alone.\<close>

definition same_but_jobs :: "sfs_state \<Rightarrow> sfs_state \<Rightarrow> bool" where
  "same_but_jobs d d' \<longleftrightarrow> lane_head d' = lane_head d \<and> st_jt d' = st_jt d \<and> st_jm d' = st_jm d \<and>
     st_maps d' = st_maps d \<and> st_sent d' = st_sent d"

lemma setup_job_ok:
  assumes ok: "sys_ok I f s" "fresh_job I f job (cs_sfs s)" "ids_left s"
  shows "\<exists>d ids. setup_job (Some job) (Some (Some h)) s = Inr (Some (job, next_job_id s), s\<lparr>cs_sfs := d, cs_ids := ids\<rparr>) \<and>
    queues_ok I f d \<and> trees_ok d \<and> fresh_job I f job d \<and> same_but_jobs (cs_sfs s) d \<and>
    st_jobs d = (st_jobs (cs_sfs s))(job := new_job h (next_job_id s)) \<and>
    ji_ok ids \<and> \<not> sfs_job_id_mutex ids \<and> current_job_id ids = current_job_id (cs_ids s) + 2"
proof -
  let ?d = "cs_sfs s" and ?jr = "new_job h (next_job_id s)"
  obtain i ids1 ids2 where ids: "get_next_job_id (cs_ids s) = Inr (i, ids1)" "get_next_job_id ids1 = Inr (next_job_id s, ids2)"
    "ji_ok ids2" "\<not> sfs_job_id_mutex ids2" "current_job_id ids2 = current_job_id (cs_ids s) + 2"
    using two_ids [of "cs_ids s"] ok(1,3) by (auto simp: sys_ok_def ids_left_def next_job_id_def)
  define q where "q = (st_jobq ?d)\<lparr>jq_links := INIT_LIST_HEAD job (jq_links (st_jobq ?d))\<rparr>"
  define d where "d = ?d\<lparr>st_jobq := q, st_jobs := (st_jobs ?d)(job := ?jr)\<rparr>"
  have "setup_job (Some job) (Some (Some h)) s = Inr (Some (job, next_job_id s), s\<lparr>cs_sfs := d, cs_ids := ids2\<rparr>)"
    using ids by (simp add: setup_job_def sfs_job_init_def upd_sfs_def upd_job_def Let_def d_def q_def new_job_def
        MAX_SFSD_CLIENTS_def numeral_eq_Suc)
  moreover have "queues_ok I f d"
    by (rule queues_ok_init [of I f ?d job]) (use ok in \<open>simp_all add: sys_ok_def d_def q_def\<close>)
  moreover have lane: "lane_head d = lane_head ?d" by (rule lane_head_cong) (simp_all add: d_def q_def)
  then have "fresh_job I f job d" using ok(2) by (simp add: fresh_job_def)
  moreover have "trees_ok d" "st_jobs d = (st_jobs ?d)(job := ?jr)" "same_but_jobs ?d d"
    using ok(1) lane by (simp_all add: d_def sys_ok_def trees_ok_def same_but_jobs_def)
  ultimately show ?thesis using ids(3-5) by blast
qed

section \<open>A pass of the dispatcher after a request\<close>

definition after_pass :: "addr \<Rightarrow> (lane \<Rightarrow> addr list) \<Rightarrow> lane \<Rightarrow> addr list" where
  "after_pass job f = f(Jobs 0 := [], Pending 0 := f (Pending 0) @ f (Jobs 0) @ [job])"

text \<open>With at most 63 jobs before it, the job of the request is sent and everything is pending.\<close>

lemma pass_ok:
  assumes ok: "queues_ok I (f(Jobs 0 := f (Jobs 0) @ [job])) d" and few: "length (f (Jobs 0)) < 64"
    and send: "\<forall>j \<in> set (f (Jobs 0) @ [job]). sendable (st_jobs d j)"
  shows "\<exists>d'. sfs_dispatcher d = Inr d' \<and> queues_ok I (after_pass job f) d' \<and> lane_head d' = lane_head d \<and>
    st_jt d' = st_jt d \<and> st_jm d' = st_jm d \<and> st_maps d' = st_maps d \<and> same_jobs d d' \<and>
    st_sent d' = st_sent d @ concat (map (\<lambda>j. sends_of (st_jobs d j)) (f (Jobs 0) @ [job]))"
proof -
  define g where "g = f(Jobs 0 := f (Jobs 0) @ [job])"
  have g: "g (Jobs 0) = f (Jobs 0) @ [job]" "g (Pending 0) = f (Pending 0)" by (simp_all add: g_def)
  have len: "take MAX_HIGH_PRIO (g (Jobs 0)) = f (Jobs 0) @ [job]" "drop (Suc MAX_HIGH_PRIO) (g (Jobs 0)) = []"
    using few by (simp_all add: g MAX_HIGH_PRIO_def)
  have eq: "g(Jobs 0 := [], Pending 0 := g (Pending 0) @ f (Jobs 0) @ [job]) = after_pass job f"
    by (auto simp: g_def after_pass_def)
  have inv: "disp_inv I g d" using ok by (simp add: queues_ok_def g_def)
  obtain d' where d': "sfs_dispatcher d = Inr d'" "disp_inv I (after_pass job f) d'"
    "st_sent d' = st_sent d @ concat (map (\<lambda>j. sends_of (st_jobs d j)) (f (Jobs 0) @ [job]))"
    using dispatch_high_ok [OF inv, of MAX_HIGH_PRIO] send unfolding sfs_dispatcher_def len eq unfolding g(1) by blast
  then have dh: "dispatch_high MAX_HIGH_PRIO d = Inr d'" by (simp add: sfs_dispatcher_def)
  have "queues_ok I (after_pass job f) d'" using d'(2) ok dispatch_high_queues [OF dh] by (simp add: queues_ok_def)
  then show ?thesis
    using d'(1,3) dispatch_high_maps [OF dh] dispatch_high_queues [OF dh] dispatch_high_jobs [OF dh]
    by (simp add: same_maps_def)
qed

end
