(* ===== verification/Storage_Cmd.thy ===== *)
theory Storage_Cmd
  imports Job_Setup Storage_Tree
begin

text \<open>
  The storage commands of \<^verbatim>\<open>sfs/src/sfs_sfscli.c\<close>: \<^verbatim>\<open>get_storage_command_response\<close> for adding,
  removing and resizing a storage device, from the decoded command on.  The handler takes
  job ids, registers a job in both trees, submits it, waits for the answer, and changes
  the storage tree; it is split at the wait.  The outcomes of the allocations, the calling
  thread and the contents of uninitialised memory are the fields of the environment.
  The blocks that are freed are recorded; they keep their contents and are not allocated again.
\<close>

datatype storage_op = STORAGE_ADD_CMD | STORAGE_DEL_CMD | STORAGE_UPDATE_CMD

record storage_cmd =
  sc_op :: storage_op
  sc_address :: "8 word list"
  sc_rpath :: string
  sc_protocol :: sfs_protocol
  sc_type :: sstack_storage_type
  sc_size :: "64 word"

datatype payload_command = SSTACK_ADD_STORAGE | SSTACK_REMOVE_STORAGE | SSTACK_UPDATE_STORAGE

record storage_payload =
  sp_job_id :: "64 word"
  sp_priority :: int
  sp_arg :: addr
  sp_command :: payload_command
  sp_address :: "8 word list"
  sp_path :: string
  sp_protocol :: sfs_protocol
  sp_nblocks :: "64 word"
  sp_weight :: sstack_storage_type

text \<open>The blocks that a command frees.\<close>

datatype cli_block = Job_Block addr | Map_Block addr | Payload_Block addr

record cli_state = sys_state +
  cs_storage :: st_globals
  cs_payloads :: "addr \<Rightarrow> storage_payload"
  cs_freed :: "cli_block set"

record cli_env =
  env_thread_id :: "64 word"
  env_accept_sfsd :: "64 word"
  env_job_map :: "addr option"
  env_job :: "addr option"
  env_payload :: "addr option"
  env_job_ids :: bool
  env_jt_node :: "sstack_jt option"
  env_jm_node :: "sstack_jm option"
  env_jt_key :: sstack_jt
  env_jm_key :: sstack_jm
  env_st_node :: "sfs_st option"
  env_st_key :: sfs_st

section \<open>The handler\<close>

text \<open>
  The fields of the payload that the handler sets; a path that is not terminated within its array is as long as the array, and
  overflows the one of the payload.
\<close>

definition fill_payload :: "storage_cmd \<Rightarrow> 64 word \<Rightarrow> int \<Rightarrow> addr \<Rightarrow> storage_payload \<Rightarrow> storage_payload" where
  "fill_payload cmd i priority job p =
     (let p = p\<lparr>sp_job_id := i, sp_priority := priority, sp_arg := job\<rparr> in
      case sc_op cmd of
        STORAGE_ADD_CMD \<Rightarrow>
          p\<lparr>sp_command := SSTACK_ADD_STORAGE, sp_address := sc_address cmd, sp_path := sc_rpath cmd,
            sp_protocol := sc_protocol cmd, sp_nblocks := sc_size cmd, sp_weight := sc_type cmd\<rparr>
      | STORAGE_DEL_CMD \<Rightarrow>
          p\<lparr>sp_command := SSTACK_REMOVE_STORAGE, sp_address := sc_address cmd, sp_path := sc_rpath cmd\<rparr>
      | STORAGE_UPDATE_CMD \<Rightarrow>
          p\<lparr>sp_command := SSTACK_UPDATE_STORAGE, sp_address := sc_address cmd, sp_path := sc_rpath cmd,
            sp_nblocks := sc_size cmd\<rparr>)"

text \<open>
  Registering the job in the trees and submitting it; false where the handler goes to its
  error exit.  The job id tree is cleaned up with the thread id for a key.
\<close>

definition register_and_submit :: "cli_env \<Rightarrow> addr \<Rightarrow> addr \<Rightarrow> sfs_state \<Rightarrow> (bool \<times> sfs_state) exec" where
  "register_and_submit env job job_map d =
     (let thread_id = env_thread_id env; jr = st_jobs d job in
      exec_bind (sfs_job2thread_map_insert (env_jt_node env) thread_id (job_no jr) (Some job) (st_jt d)) (\<lambda>(ret, jt).
      let d = d\<lparr>st_jt := jt\<rparr> in
      if ret = -1 then Inr (False, d)
      else
      exec_bind (sfs_job_context_insert (env_jm_node env) thread_id (Some job_map) (st_jm d)) (\<lambda>(ret, jm).
      let d = d\<lparr>st_jm := jm\<rparr> in
      if ret = -1 then
        exec_bind (sfs_job2thread_map_remove (env_jt_key env) thread_id (st_jt d)) (\<lambda>jt.
        Inr (False, d\<lparr>st_jt := jt\<rparr>))
      else
      exec_bind (sfs_submit_job (job_priority jr) True (Some job) (st_jobq d)) (\<lambda>(ret, q).
      let d = d\<lparr>st_jobq := q\<rparr> in
      if ret = -1 then
        exec_bind (sfs_job_context_remove (env_jm_key env) thread_id (st_jm d)) (\<lambda>jm.
        exec_bind (sfs_job2thread_map_remove (env_jt_key env) thread_id (st_jt d)) (\<lambda>jt.
        Inr (False, d\<lparr>st_jm := jm, st_jt := jt\<rparr>)))
      else Inr (True, d)))))"

text \<open>
  The error exit, with the blocks that have been allocated.  It frees the job and the job map also where the trees or the queue
  still refer to them.
\<close>

definition cli_err :: "cli_block list \<Rightarrow> cli_state \<Rightarrow> cli_state" where
  "cli_err blocks s = s\<lparr>cs_freed := cs_freed s \<union> set blocks\<rparr>"

text \<open>Up to the wait: the job and the job map, or \<open>None\<close> for the error exit.\<close>

definition storage_command_begin :: "cli_env \<Rightarrow> storage_cmd \<Rightarrow> cli_state \<Rightarrow> ((addr \<times> addr) option \<times> cli_state) exec" where
  "storage_command_begin env cmd s =
     (let (job_map, d) = create_job_map (env_job_map env) (cs_sfs s); s = s\<lparr>cs_sfs := d\<rparr> in
      case job_map of None \<Rightarrow> Inr (None, s) | Some job_map \<Rightarrow>
      exec_bind (setup_job (env_job env) (Some (Some (env_accept_sfsd env))) s) (\<lambda>(job, s).
      case job of None \<Rightarrow> Inr (None, cli_err [Map_Block job_map] s) | Some (job, i) \<Rightarrow>
      case env_payload env of None \<Rightarrow> Inl Null_Deref | Some payload \<Rightarrow>
      if PATH_MAX \<le> length (sc_rpath cmd) then Inl Bad_Access
      else
      let s = s\<lparr>cs_payloads := (cs_payloads s)(payload := fill_payload cmd i 0 job (cs_payloads s payload))\<rparr>;
          s = upd_sfs (upd_map job_map (\<lambda>m. m\<lparr>num_jobs := 1\<rparr>) \<circ> upd_job job (\<lambda>j. j\<lparr>job_payload := Some payload\<rparr>)) s;
          blocks = [Map_Block job_map, Job_Block job, Payload_Block payload] in
      if \<not> env_job_ids env then Inr (None, cli_err blocks s)
      else
      let s = upd_sfs (upd_map job_map (\<lambda>m. m\<lparr>job_ids := [i]\<rparr>)) s in
      exec_bind (register_and_submit env job job_map (cs_sfs s)) (\<lambda>(ok, d).
      let s = s\<lparr>cs_sfs := d\<rparr> in
      Inr (if ok then (Some (job, job_map), s) else (None, cli_err blocks s)))))"

text \<open>
  After the wait.  The job is freed while it is still in the pending queue and in the job id tree; the payload of a successful
  command is not freed.
\<close>

definition storage_command_finish :: "cli_env \<Rightarrow> storage_cmd \<Rightarrow> addr \<Rightarrow> addr \<Rightarrow> cli_state \<Rightarrow> (string \<times> cli_state) exec" where
  "storage_command_finish env cmd job job_map s =
     (if err_no (st_maps (cs_sfs s) job_map) \<noteq> SSTACK_SUCCESS then
        Inr (''CLI Error'', cli_err (Map_Block job_map # Job_Block job # (case env_payload env of None \<Rightarrow> [] | Some p \<Rightarrow> [Payload_Block p])) s)
      else
        exec_bind
          (case sc_op cmd of
             STORAGE_ADD_CMD \<Rightarrow>
               exec_bind (sfs_storage_node_insert (env_st_node env) (sc_address cmd) (sc_rpath cmd) (sc_protocol cmd)
                 (sc_type cmd) (sc_size cmd) (cs_storage s)) (\<lambda>(_, g). Inr (''Add storage successful'', g))
           | STORAGE_DEL_CMD \<Rightarrow>
               exec_bind (sfs_storage_node_remove (env_st_key env) (sc_address cmd) (sc_rpath cmd) (cs_storage s)) (\<lambda>g.
               Inr (''Del storage successful'', g))
           | STORAGE_UPDATE_CMD \<Rightarrow>
               exec_bind (sfs_storage_node_update (env_st_key env) (sc_address cmd) (sc_rpath cmd) (sc_size cmd) (cs_storage s)) (\<lambda>g.
               Inr (''Update storage successful'', g)))
          (\<lambda>(response, g).
        exec_bind (sfs_job_context_remove (env_jm_key env) (env_thread_id env) (st_jm (cs_sfs s))) (\<lambda>jm.
        Inr (response, s\<lparr>cs_storage := g, cs_sfs := (cs_sfs s)\<lparr>st_jm := jm\<rparr>,
          cs_freed := cs_freed s \<union> {Map_Block job_map, Job_Block job}\<rparr>))))"

section \<open>Up to the wait\<close>

text \<open>All memory is available, and the thread is not registered.\<close>

definition env_ok :: "cli_env \<Rightarrow> bool" where
  "env_ok env \<longleftrightarrow> env_job_map env \<noteq> None \<and> env_job env \<noteq> None \<and> env_payload env \<noteq> None \<and> env_job_ids env \<and>
     env_jt_node env \<noteq> None \<and> env_jm_node env \<noteq> None \<and> env_st_node env \<noteq> None"

lemma register_ok:
  assumes env: "env_ok env" and q: "queues_ok I f d" "fresh_job I f job d" and t: "trees_ok d"
    and jr: "job_priority (st_jobs d job) = 0" "jt_abs (st_jt d) (job_no (st_jobs d job)) = None"
    and tid: "jm_abs (st_jm d) (env_thread_id env) = None"
  shows "\<exists>d'. register_and_submit env job m d = Inr (True, d') \<and> queues_ok I (f(Jobs 0 := f (Jobs 0) @ [job])) d' \<and>
    trees_ok d' \<and> jt_abs (st_jt d') = (jt_abs (st_jt d))(job_no (st_jobs d job) \<mapsto> (env_thread_id env, Some job)) \<and>
    jm_abs (st_jm d') = (jm_abs (st_jm d))(env_thread_id env \<mapsto> Some m) \<and>
    st_jobs d' = st_jobs d \<and> st_maps d' = st_maps d \<and> st_sent d' = st_sent d \<and> lane_head d' = lane_head d"
proof -
  obtain jtn jmn where mem: "env_jt_node env = Some jtn" "env_jm_node env = Some jmn" using env by (auto simp: env_ok_def)
  obtain jt where jt: "sfs_job2thread_map_insert (Some jtn) (env_thread_id env) (job_no (st_jobs d job)) (Some job) (st_jt d) = Inr (0, jt)"
    "jt_inv jt" "jt_abs jt = (jt_abs (st_jt d))(job_no (st_jobs d job) \<mapsto> (env_thread_id env, Some job))"
    using jt_insert_new [OF _ jr(2)] t unfolding trees_ok_def by blast
  obtain jm where jm: "sfs_job_context_insert (Some jmn) (env_thread_id env) (Some m) (st_jm d) = Inr (0, jm)"
    "jm_inv jm" "jm_abs jm = (jm_abs (st_jm d))(env_thread_id env \<mapsto> Some m)"
    using jm_insert_new [OF _ tid] t unfolding trees_ok_def by blast
  let ?d = "d\<lparr>st_jt := jt, st_jm := jm\<rparr>"
  have "queues_ok I f ?d" by (rule queues_ok_cong [OF q(1)]) simp_all
  moreover have "fresh_job I f job ?d" using q(2) lane_head_cong [of ?d d] by (simp add: fresh_job_def)
  ultimately obtain qq where qq: "sfs_submit_job 0 True (Some job) (st_jobq ?d) = Inr (0, qq)"
    "queues_ok I (f(Jobs 0 := f (Jobs 0) @ [job])) (?d\<lparr>st_jobq := qq\<rparr>)" "lane_head (?d\<lparr>st_jobq := qq\<rparr>) = lane_head ?d"
    using submit_high by blast
  have "register_and_submit env job m d = Inr (True, ?d\<lparr>st_jobq := qq\<rparr>)"
    using jt(1) jm(1) qq(1) mem jr(1) by (simp add: register_and_submit_def Let_def)
  moreover have "lane_head (?d\<lparr>st_jobq := qq\<rparr>) = lane_head d" using qq(3) lane_head_cong [of ?d d] by simp
  ultimately show ?thesis
    using jt(2,3) jm(2,3) qq(2) by (intro exI [of _ "?d\<lparr>st_jobq := qq\<rparr>"] conjI) (simp_all add: trees_ok_def)
qed

text \<open>The memory that a command gets, none of it in use, and an id that no job has.\<close>

definition cmd_ready ::
  "lane set \<Rightarrow> (lane \<Rightarrow> addr list) \<Rightarrow> cli_env \<Rightarrow> addr \<Rightarrow> addr \<Rightarrow> addr \<Rightarrow> cli_state \<Rightarrow> bool" where
  "cmd_ready I f env job m payload s \<longleftrightarrow> sys_ok I f s \<and> env_ok env \<and> env_job env = Some job \<and>
     env_job_map env = Some m \<and> env_payload env = Some payload \<and> fresh_job I f job (cs_sfs s) \<and>
     ids_left s \<and> jt_abs (st_jt (cs_sfs s)) (next_job_id s) = None"

text \<open>The job that the handler registers.\<close>

definition cmd_job :: "cli_env \<Rightarrow> 64 word \<Rightarrow> addr \<Rightarrow> sfs_job" where
  "cmd_job env i payload = (new_job (env_accept_sfsd env) i)\<lparr>job_payload := Some payload\<rparr>"

lemma begin_prepares:
  assumes ready: "cmd_ready I f env job m payload s" and path: "length (sc_rpath cmd) < PATH_MAX"
  shows "\<exists>d e s1. storage_command_begin env cmd s =
      exec_bind (register_and_submit env job m d) (\<lambda>(ok, d). Inr (if ok then (Some (job, m), s1\<lparr>cs_sfs := d\<rparr>) else (None, e d))) \<and>
    lane_head d = lane_head (cs_sfs s) \<and> queues_ok I f d \<and> fresh_job I f job d \<and> trees_ok d \<and>
    st_jt d = st_jt (cs_sfs s) \<and> st_jm d = st_jm (cs_sfs s) \<and>
    st_jobs d = (st_jobs (cs_sfs s))(job := cmd_job env (next_job_id s) payload) \<and> map_signals (st_maps d m) = 0 \<and>
    st_sent d = st_sent (cs_sfs s) \<and> cs_storage s1 = cs_storage s \<and> cs_freed s1 = cs_freed s \<and>
    cs_payloads s1 = (cs_payloads s)(payload := fill_payload cmd (next_job_id s) 0 job (cs_payloads s payload)) \<and>
    ji_ok (cs_ids s1) \<and> \<not> sfs_job_id_mutex (cs_ids s1) \<and> current_job_id (cs_ids s1) = current_job_id (cs_ids s) + 2"
proof -
  let ?d0 = "upd_map m (\<lambda>r. r\<lparr>num_jobs := 0, job_ids := [], map_lock := False, map_signals := 0\<rparr>) (cs_sfs s)"
  let ?s0 = "s\<lparr>cs_sfs := ?d0\<rparr>"
  have same0: "next_job_id ?s0 = next_job_id s" "ids_left ?s0 = ids_left s" by (simp_all add: next_job_id_def ids_left_def)
  have lane0: "lane_head ?d0 = lane_head (cs_sfs s)" by (rule lane_head_cong) (simp_all add: upd_map_def)
  have "queues_ok I f ?d0"
    by (rule queues_ok_cong [of I f "cs_sfs s"]) (use ready in \<open>simp_all add: cmd_ready_def sys_ok_def upd_map_def\<close>)
  then have ok0: "sys_ok I f ?s0" "fresh_job I f job (cs_sfs ?s0)"
    using ready lane0 by (simp_all add: cmd_ready_def sys_ok_def fresh_job_def trees_ok_def upd_map_def)
  obtain d1 ids where d1: "setup_job (Some job) (Some (Some (env_accept_sfsd env))) ?s0 =
      Inr (Some (job, next_job_id s), ?s0\<lparr>cs_sfs := d1, cs_ids := ids\<rparr>)"
    "queues_ok I f d1" "trees_ok d1" "fresh_job I f job d1" "same_but_jobs ?d0 d1"
    "st_jobs d1 = (st_jobs ?d0)(job := new_job (env_accept_sfsd env) (next_job_id s))"
    "ji_ok ids" "\<not> sfs_job_id_mutex ids" "current_job_id ids = current_job_id (cs_ids s) + 2"
    using setup_job_ok [OF ok0, of "env_accept_sfsd env"] ready same0 by (auto simp: cmd_ready_def)
  define d where "d = upd_map m (\<lambda>m. m\<lparr>job_ids := [next_job_id s]\<rparr>) (upd_map m (\<lambda>m. m\<lparr>num_jobs := 1\<rparr>)
     (upd_job job (\<lambda>j. j\<lparr>job_payload := Some payload\<rparr>) d1))"
  define s1 where "s1 = s\<lparr>cs_ids := ids,
     cs_payloads := (cs_payloads s)(payload := fill_payload cmd (next_job_id s) 0 job (cs_payloads s payload))\<rparr>"
  define e where "e = (\<lambda>d. cli_err [Map_Block m, Job_Block job, Payload_Block payload] (s1\<lparr>cs_sfs := d\<rparr>))"
  have b: "storage_command_begin env cmd s =
      exec_bind (register_and_submit env job m d) (\<lambda>(ok, d). Inr (if ok then (Some (job, m), s1\<lparr>cs_sfs := d\<rparr>) else (None, e d)))"
    using ready path d1(1) by (simp add: storage_command_begin_def create_job_map_def cmd_ready_def env_ok_def Let_def
        upd_sfs_def d_def s1_def e_def cong: if_cong)
  have "queues_ok I f d" by (rule queues_ok_cong [OF d1(2)]) (simp_all add: d_def upd_map_def upd_job_def)
  moreover have "lane_head d = lane_head d1" by (rule lane_head_cong) (simp_all add: d_def upd_map_def upd_job_def)
  moreover have "st_jt d = st_jt d1" "st_jm d = st_jm d1" "st_sent d = st_sent d1"
    "st_jobs d = (st_jobs (cs_sfs s))(job := cmd_job env (next_job_id s) payload)" "map_signals (st_maps d m) = 0"
    using d1(5,6) by (simp_all add: d_def upd_map_def upd_job_def cmd_job_def same_but_jobs_def)
  ultimately show ?thesis
    using b d1 lane0 by (intro exI [of _ d] exI [of _ e] exI [of _ s1] conjI)
      (simp_all add: s1_def same_but_jobs_def fresh_job_def trees_ok_def upd_map_def)
qed

lemma begin_ok:
  assumes ready: "cmd_ready I f env job m payload s" and tid: "jm_abs (st_jm (cs_sfs s)) (env_thread_id env) = None"
    and path: "length (sc_rpath cmd) < PATH_MAX"
  shows "\<exists>s'. storage_command_begin env cmd s = Inr (Some (job, m), s') \<and>
    sys_ok I (f(Jobs 0 := f (Jobs 0) @ [job])) s' \<and> lane_head (cs_sfs s') = lane_head (cs_sfs s) \<and>
    st_jobs (cs_sfs s') = (st_jobs (cs_sfs s))(job := cmd_job env (next_job_id s) payload) \<and>
    map_signals (st_maps (cs_sfs s') m) = 0 \<and> st_sent (cs_sfs s') = st_sent (cs_sfs s) \<and> cs_storage s' = cs_storage s \<and>
    cs_freed s' = cs_freed s \<and>
    jt_abs (st_jt (cs_sfs s')) = (jt_abs (st_jt (cs_sfs s)))(next_job_id s \<mapsto> (env_thread_id env, Some job)) \<and>
    jm_abs (st_jm (cs_sfs s')) = (jm_abs (st_jm (cs_sfs s)))(env_thread_id env \<mapsto> Some m) \<and>
    cs_payloads s' = (cs_payloads s)(payload := fill_payload cmd (next_job_id s) 0 job (cs_payloads s payload)) \<and>
    current_job_id (cs_ids s') = current_job_id (cs_ids s) + 2"
proof -
  obtain d e s1 where b: "storage_command_begin env cmd s =
      exec_bind (register_and_submit env job m d) (\<lambda>(ok, d). Inr (if ok then (Some (job, m), s1\<lparr>cs_sfs := d\<rparr>) else (None, e d)))"
    and d: "queues_ok I f d" "fresh_job I f job d" "trees_ok d" "st_jt d = st_jt (cs_sfs s)" "st_jm d = st_jm (cs_sfs s)"
      "st_jobs d = (st_jobs (cs_sfs s))(job := cmd_job env (next_job_id s) payload)" "map_signals (st_maps d m) = 0"
      "st_sent d = st_sent (cs_sfs s)" "lane_head d = lane_head (cs_sfs s)"
    and s1: "cs_storage s1 = cs_storage s" "cs_freed s1 = cs_freed s"
      "cs_payloads s1 = (cs_payloads s)(payload := fill_payload cmd (next_job_id s) 0 job (cs_payloads s payload))"
      "ji_ok (cs_ids s1)" "\<not> sfs_job_id_mutex (cs_ids s1)" "current_job_id (cs_ids s1) = current_job_id (cs_ids s) + 2"
    using begin_prepares [OF ready path] by blast
  have jr: "job_priority (st_jobs d job) = 0" "job_no (st_jobs d job) = next_job_id s" using d(6) by (simp_all add: cmd_job_def new_job_def)
  obtain d' where "register_and_submit env job m d = Inr (True, d')" "queues_ok I (f(Jobs 0 := f (Jobs 0) @ [job])) d'"
    "trees_ok d'" "jt_abs (st_jt d') = (jt_abs (st_jt d))(next_job_id s \<mapsto> (env_thread_id env, Some job))"
    "jm_abs (st_jm d') = (jm_abs (st_jm d))(env_thread_id env \<mapsto> Some m)"
    "st_jobs d' = st_jobs d" "st_maps d' = st_maps d" "st_sent d' = st_sent d" "lane_head d' = lane_head d"
    using register_ok [OF _ d(1-3) jr(1), of env m] ready tid jr(2) d(4,5) unfolding cmd_ready_def by auto
  then show ?thesis
    unfolding b using d s1 by (intro exI [of _ "s1\<lparr>cs_sfs := d'\<rparr>"] conjI) (simp_all add: sys_ok_def)
qed

section \<open>A whole command\<close>

text \<open>
  A command from its arrival to its reply: the handler up to the wait, a pass of the
  dispatcher, the answer \<open>p\<close> of the sfsd, and the rest of the handler once the job map is
  signalled.  No reply means that the handler still waits.
\<close>

definition storage_command_run ::
  "sstack_jt \<Rightarrow> sstack_jm \<Rightarrow> cli_env \<Rightarrow> storage_cmd \<Rightarrow> sstack_payload \<Rightarrow> cli_state \<Rightarrow> (string option \<times> cli_state) exec" where
  "storage_command_run jtk jmk env cmd p s =
     exec_bind (storage_command_begin env cmd s) (\<lambda>(r, s).
     case r of
       None \<Rightarrow> Inr (Some ''CLI Error'', s)
     | Some (job, m) \<Rightarrow>
         exec_bind (sfs_dispatcher (cs_sfs s)) (\<lambda>d.
         exec_bind (sfs_process_payload jtk jmk (Inl 0) p d) (\<lambda>d.
         if map_signals (st_maps d m) = 0 then Inr (None, s\<lparr>cs_sfs := d\<rparr>)
         else exec_bind (storage_command_finish env cmd job m (s\<lparr>cs_sfs := d\<rparr>)) (\<lambda>(r, s). Inr (Some r, s)))))"

definition storage_rsp :: "sstack_command \<Rightarrow> bool" where
  "storage_rsp c \<longleftrightarrow> c \<in> {SSTACK_ADD_STORAGE_RSP, SSTACK_REMOVE_STORAGE_RSP, SSTACK_UPDATE_STORAGE_RSP}"

lemma storage_answer:
  assumes "registered d (pl_job_id p) job m" "storage_rsp (pl_command p)"
  shows "sfs_process_payload jtk jmk g p d = Inr (d\<lparr>st_maps := (st_maps d)(m := (st_maps d m)
    \<lparr>err_no := command_ok p, map_signals := map_signals (st_maps d m) + 1\<rparr>)\<rparr>)"
proof -
  obtain jt jm where "find_job jtk jmk (pl_job_id p) d = Inr (jt, jm)" "jm_job_map jm = Some m"
    using find_job_registered [OF assms(1)] by blast
  then have "process_storage_response jtk jmk p d = Inr (d\<lparr>st_maps := (st_maps d)(m := (st_maps d m)
    \<lparr>err_no := command_ok p, map_signals := map_signals (st_maps d m) + 1\<rparr>)\<rparr>)"
    by (simp add: process_storage_response_def cond_signal_def upd_map_def)
  then show ?thesis using assms(2) by (auto simp: sfs_process_payload_def storage_rsp_def)
qed

lemma pass_and_answer:
  assumes ok: "sys_ok I (f(Jobs 0 := f (Jobs 0) @ [job])) s" and few: "length (f (Jobs 0)) < 64"
    and send: "\<forall>j \<in> set (f (Jobs 0) @ [job]). sendable (st_jobs (cs_sfs s) j)"
    and reg: "registered (cs_sfs s) (pl_job_id p) job m" and p: "storage_rsp (pl_command p)"
  shows "\<exists>d d'. sfs_dispatcher (cs_sfs s) = Inr d \<and> sfs_process_payload jtk jmk g p d = Inr d' \<and>
    sys_ok I (after_pass job f) (s\<lparr>cs_sfs := d'\<rparr>) \<and> lane_head d' = lane_head (cs_sfs s) \<and>
    st_jt d' = st_jt (cs_sfs s) \<and> st_jm d' = st_jm (cs_sfs s) \<and>
    st_sent d' = st_sent (cs_sfs s) @ concat (map (\<lambda>j. sends_of (st_jobs (cs_sfs s) j)) (f (Jobs 0) @ [job])) \<and>
    err_no (st_maps d' m) = command_ok p \<and> map_signals (st_maps d' m) = map_signals (st_maps (cs_sfs s) m) + 1"
proof -
  obtain d where d: "sfs_dispatcher (cs_sfs s) = Inr d" "queues_ok I (after_pass job f) d" "lane_head d = lane_head (cs_sfs s)"
    "st_jt d = st_jt (cs_sfs s)" "st_jm d = st_jm (cs_sfs s)" "st_maps d = st_maps (cs_sfs s)"
    "st_sent d = st_sent (cs_sfs s) @ concat (map (\<lambda>j. sends_of (st_jobs (cs_sfs s) j)) (f (Jobs 0) @ [job]))"
    using pass_ok [of I f job "cs_sfs s"] ok few send unfolding sys_ok_def by blast
  then have "registered d (pl_job_id p) job m" using reg by (simp add: registered_def)
  note a = storage_answer [OF this p, of jtk jmk g]
  let ?d = "d\<lparr>st_maps := (st_maps d)(m := (st_maps d m)\<lparr>err_no := command_ok p, map_signals := map_signals (st_maps d m) + 1\<rparr>)\<rparr>"
  have "queues_ok I (after_pass job f) ?d" by (rule queues_ok_cong [OF d(2)]) simp_all
  then have ok': "sys_ok I (after_pass job f) (s\<lparr>cs_sfs := ?d\<rparr>)" using ok d(4,5) by (simp add: sys_ok_def trees_ok_def)
  show ?thesis
    by (rule exI [of _ d], rule exI [of _ ?d]) (use d a ok' lane_head_cong [of ?d d] in simp)
qed

lemma run_to_finish:
  assumes ready: "cmd_ready I f env job m payload s" and tid: "jm_abs (st_jm (cs_sfs s)) (env_thread_id env) = None"
    and few: "length (f (Jobs 0)) < 64" and send: "\<forall>j \<in> set (f (Jobs 0)). sendable (st_jobs (cs_sfs s) j)"
    and p: "storage_rsp (pl_command p)" "pl_job_id p = next_job_id s" and path: "length (sc_rpath cmd) < PATH_MAX"
  shows "\<exists>s'. storage_command_run jtk jmk env cmd p s =
      exec_bind (storage_command_finish env cmd job m s') (\<lambda>(r, s). Inr (Some r, s)) \<and>
    sys_ok I (after_pass job f) s' \<and> lane_head (cs_sfs s') = lane_head (cs_sfs s) \<and>
    err_no (st_maps (cs_sfs s') m) = command_ok p \<and>
    jt_abs (st_jt (cs_sfs s')) = (jt_abs (st_jt (cs_sfs s)))(next_job_id s \<mapsto> (env_thread_id env, Some job)) \<and>
    jm_abs (st_jm (cs_sfs s')) = (jm_abs (st_jm (cs_sfs s)))(env_thread_id env \<mapsto> Some m) \<and>
    st_sent (cs_sfs s') = st_sent (cs_sfs s) @ concat (map (\<lambda>j. sends_of (st_jobs (cs_sfs s) j)) (f (Jobs 0))) @
      [(env_accept_sfsd env, Some payload, next_job_id s)] \<and>
    cs_payloads s' payload = fill_payload cmd (next_job_id s) 0 job (cs_payloads s payload) \<and>
    cs_storage s' = cs_storage s \<and> current_job_id (cs_ids s') = current_job_id (cs_ids s) + 2 \<and> cs_freed s' = cs_freed s"
proof -
  let ?jr = "cmd_job env (next_job_id s) payload"
  obtain s1 where s1: "storage_command_begin env cmd s = Inr (Some (job, m), s1)"
    "sys_ok I (f(Jobs 0 := f (Jobs 0) @ [job])) s1" "st_jobs (cs_sfs s1) = (st_jobs (cs_sfs s))(job := ?jr)"
    "map_signals (st_maps (cs_sfs s1) m) = 0" "st_sent (cs_sfs s1) = st_sent (cs_sfs s)" "cs_storage s1 = cs_storage s"
    "jt_abs (st_jt (cs_sfs s1)) = (jt_abs (st_jt (cs_sfs s)))(next_job_id s \<mapsto> (env_thread_id env, Some job))"
    "jm_abs (st_jm (cs_sfs s1)) = (jm_abs (st_jm (cs_sfs s)))(env_thread_id env \<mapsto> Some m)"
    "cs_payloads s1 = (cs_payloads s)(payload := fill_payload cmd (next_job_id s) 0 job (cs_payloads s payload))"
    "current_job_id (cs_ids s1) = current_job_id (cs_ids s) + 2" "lane_head (cs_sfs s1) = lane_head (cs_sfs s)"
    "cs_freed s1 = cs_freed s"
    using begin_ok [OF ready tid path] by blast
  have new: "job \<notin> set (f (Jobs 0))"
    using ready by (auto simp: cmd_ready_def fresh_job_def sys_ok_def queues_ok_def disp_inv_def)
  have jr: "sendable ?jr" "sends_of ?jr = [(env_accept_sfsd env, Some payload, next_job_id s)]"
    by (simp_all add: sendable_def sends_of_def cmd_job_def new_job_def MAX_SFSD_CLIENTS_def)
  have sends: "map (\<lambda>j. sends_of (st_jobs (cs_sfs s1) j)) (f (Jobs 0)) = map (\<lambda>j. sends_of (st_jobs (cs_sfs s) j)) (f (Jobs 0))"
    using new s1(3) by auto
  have "\<forall>j \<in> set (f (Jobs 0) @ [job]). sendable (st_jobs (cs_sfs s1) j)" using send jr(1) s1(3) by auto
  moreover have "registered (cs_sfs s1) (pl_job_id p) job m"
    using s1(2,7,8) p(2) by (simp add: registered_def sys_ok_def trees_ok_def)
  ultimately obtain d d' where d: "sfs_dispatcher (cs_sfs s1) = Inr d" "sfs_process_payload jtk jmk (Inl 0) p d = Inr d'"
    "sys_ok I (after_pass job f) (s1\<lparr>cs_sfs := d'\<rparr>)" "st_jt d' = st_jt (cs_sfs s1)" "st_jm d' = st_jm (cs_sfs s1)"
    "st_sent d' = st_sent (cs_sfs s1) @ concat (map (\<lambda>j. sends_of (st_jobs (cs_sfs s1) j)) (f (Jobs 0) @ [job]))"
    "err_no (st_maps d' m) = command_ok p" "map_signals (st_maps d' m) = 1"
    "lane_head d' = lane_head (cs_sfs s1)"
    using pass_and_answer [OF s1(2) few _ _ p(1), of m jtk jmk "Inl 0"] s1(4) by auto
  have "storage_command_run jtk jmk env cmd p s =
      exec_bind (storage_command_finish env cmd job m (s1\<lparr>cs_sfs := d'\<rparr>)) (\<lambda>(r, s). Inr (Some r, s))"
    using s1(1) d(1,2,8) by (simp add: storage_command_run_def)
  moreover have "st_sent d' = st_sent (cs_sfs s) @ concat (map (\<lambda>j. sends_of (st_jobs (cs_sfs s) j)) (f (Jobs 0))) @
      [(env_accept_sfsd env, Some payload, next_job_id s)]"
    unfolding d(6) map_append sends using s1(3,5) jr(2) by simp
  ultimately show ?thesis
    using d(3-5,7,9) s1(6-12) by (intro exI [of _ "s1\<lparr>cs_sfs := d'\<rparr>"] conjI) simp_all
qed

lemma begin_registered_thread:
  assumes ready: "cmd_ready I f env job m payload s" and tid: "jm_abs (st_jm (cs_sfs s)) (env_thread_id env) \<noteq> None"
    and path: "length (sc_rpath cmd) < PATH_MAX"
  shows "storage_command_begin env cmd s = Inl Assert_Failed"
proof -
  obtain d e s1 where b: "storage_command_begin env cmd s =
      exec_bind (register_and_submit env job m d) (\<lambda>(ok, d). Inr (if ok then (Some (job, m), s1\<lparr>cs_sfs := d\<rparr>) else (None, e d)))"
    and d: "trees_ok d" "st_jt d = st_jt (cs_sfs s)" "st_jm d = st_jm (cs_sfs s)"
      "st_jobs d = (st_jobs (cs_sfs s))(job := cmd_job env (next_job_id s) payload)"
    using begin_prepares [OF ready path] by blast
  obtain jtn jmn where mem: "env_jt_node env = Some jtn" "env_jm_node env = Some jmn"
    using ready by (auto simp: cmd_ready_def env_ok_def)
  have no: "job_no (st_jobs d job) = next_job_id s" using d(4) by (simp add: cmd_job_def new_job_def)
  obtain jt where "sfs_job2thread_map_insert (Some jtn) (env_thread_id env) (next_job_id s) (Some job) (st_jt d) = Inr (0, jt)"
    using jt_insert_new [of "st_jt d" "next_job_id s" jtn "env_thread_id env" "Some job"] ready d(1,2)
    by (auto simp: cmd_ready_def trees_ok_def)
  moreover have "sfs_job_context_insert (Some jmn) (env_thread_id env) (Some m) (st_jm d) = Inl Assert_Failed"
    using jm_insert_dup [of "st_jm d" "env_thread_id env" "Some m" jmn] tid d(1,3) by (simp add: trees_ok_def)
  ultimately have "register_and_submit env job m d = Inl Assert_Failed"
    using mem no by (simp add: register_and_submit_def Let_def)
  then show ?thesis unfolding b by simp
qed

text \<open>The handler after a successful answer.\<close>

definition storage_reply :: "storage_op \<Rightarrow> string" where
  "storage_reply op =
     (case op of
        STORAGE_ADD_CMD \<Rightarrow> ''Add storage successful''
      | STORAGE_DEL_CMD \<Rightarrow> ''Del storage successful''
      | STORAGE_UPDATE_CMD \<Rightarrow> ''Update storage successful'')"

definition cmd_device :: "storage_cmd \<Rightarrow> sfs_st" where
  "cmd_device cmd = \<lparr>st_magic = STNODE_MAGIC, st_address = sc_address cmd, st_rpath = sc_rpath cmd,
     st_access_protocol = sc_protocol cmd, st_type = sc_type cmd, st_size = sc_size cmd\<rparr>"

lemma finish_storage:
  assumes "err_no (st_maps (cs_sfs s) m) = SSTACK_SUCCESS" "env_st_node env \<noteq> None" "jm_inv (st_jm (cs_sfs s))"
    "llrb (storage_tree (cs_storage s))" "length (sc_rpath cmd) < PATH_MAX"
  shows "\<exists>g jm. storage_command_finish env cmd job m s =
      Inr (storage_reply (sc_op cmd), s\<lparr>cs_storage := g, cs_sfs := (cs_sfs s)\<lparr>st_jm := jm\<rparr>,
        cs_freed := cs_freed s \<union> {Map_Block m, Job_Block job}\<rparr>) \<and>
    jm_inv jm \<and> jm_abs jm = (jm_abs (st_jm (cs_sfs s)))(env_thread_id env := None) \<and> llrb (storage_tree g) \<and>
    (if sc_op cmd = STORAGE_ADD_CMD
     then set (rb_inorder (storage_tree g)) = insert (cmd_device cmd) (set (rb_inorder (storage_tree (cs_storage s))))
     else storage_tree g = storage_tree (cs_storage s))"
proof -
  obtain n where n: "env_st_node env = Some n" using assms(2) by auto
  obtain jm where jm: "sfs_job_context_remove (env_jm_key env) (env_thread_id env) (st_jm (cs_sfs s)) = Inr jm" "jm_inv jm"
    "jm_abs jm = (jm_abs (st_jm (cs_sfs s)))(env_thread_id env := None)"
    using jm_remove [OF assms(3)] by blast
  obtain g where g: "sfs_storage_node_insert (Some n) (sc_address cmd) (sc_rpath cmd) (sc_protocol cmd) (sc_type cmd)
      (sc_size cmd) (cs_storage s) = Inr (0, g)" "llrb (storage_tree g)"
    "set (rb_inorder (storage_tree g)) = insert (cmd_device cmd) (set (rb_inorder (storage_tree (cs_storage s))))"
    using storage_insert_adds [OF assms(4,5)] unfolding cmd_device_def by blast
  show ?thesis
    by (cases "sc_op cmd")
      (use assms(1,4,5) n jm g in \<open>force simp: storage_command_finish_def storage_reply_def sfs_storage_node_remove_def
        sfs_storage_node_update_def st_set_rpath_def st_search_None\<close>)+
qed

text \<open>
  A command that the sfsd has carried out: the reply, the payload that was sent, and the device in the storage tree.
\<close>

lemma storage_command_answered:
  assumes "cmd_ready I f env job m payload s" "jm_abs (st_jm (cs_sfs s)) (env_thread_id env) = None"
    "length (f (Jobs 0)) < 64" "\<forall>j \<in> set (f (Jobs 0)). sendable (st_jobs (cs_sfs s) j)"
    "storage_rsp (pl_command p)" "pl_job_id p = next_job_id s" "command_ok p = SSTACK_SUCCESS"
    "llrb (storage_tree (cs_storage s))" "length (sc_rpath cmd) < PATH_MAX"
  shows "\<exists>s'. storage_command_run jtk jmk env cmd p s = Inr (Some (storage_reply (sc_op cmd)), s') \<and>
    sys_ok I (after_pass job f) s' \<and> jm_abs (st_jm (cs_sfs s')) = jm_abs (st_jm (cs_sfs s)) \<and>
    jt_abs (st_jt (cs_sfs s')) = (jt_abs (st_jt (cs_sfs s)))(next_job_id s \<mapsto> (env_thread_id env, Some job)) \<and>
    current_job_id (cs_ids s') = current_job_id (cs_ids s) + 2 \<and>
    st_sent (cs_sfs s') = st_sent (cs_sfs s) @ concat (map (\<lambda>j. sends_of (st_jobs (cs_sfs s) j)) (f (Jobs 0))) @
      [(env_accept_sfsd env, Some payload, next_job_id s)] \<and>
    cs_payloads s' payload = fill_payload cmd (next_job_id s) 0 job (cs_payloads s payload) \<and>
    cs_freed s' = cs_freed s \<union> {Map_Block m, Job_Block job} \<and> llrb (storage_tree (cs_storage s')) \<and>
    (if sc_op cmd = STORAGE_ADD_CMD
     then set (rb_inorder (storage_tree (cs_storage s'))) = insert (cmd_device cmd) (set (rb_inorder (storage_tree (cs_storage s))))
     else storage_tree (cs_storage s') = storage_tree (cs_storage s))"
proof -
  obtain s1 where s1: "storage_command_run jtk jmk env cmd p s =
      exec_bind (storage_command_finish env cmd job m s1) (\<lambda>(r, s). Inr (Some r, s))"
    "sys_ok I (after_pass job f) s1" "err_no (st_maps (cs_sfs s1) m) = command_ok p"
    "jt_abs (st_jt (cs_sfs s1)) = (jt_abs (st_jt (cs_sfs s)))(next_job_id s \<mapsto> (env_thread_id env, Some job))"
    "jm_abs (st_jm (cs_sfs s1)) = (jm_abs (st_jm (cs_sfs s)))(env_thread_id env \<mapsto> Some m)"
    "st_sent (cs_sfs s1) = st_sent (cs_sfs s) @ concat (map (\<lambda>j. sends_of (st_jobs (cs_sfs s) j)) (f (Jobs 0))) @
      [(env_accept_sfsd env, Some payload, next_job_id s)]"
    "cs_payloads s1 payload = fill_payload cmd (next_job_id s) 0 job (cs_payloads s payload)"
    "cs_storage s1 = cs_storage s" "current_job_id (cs_ids s1) = current_job_id (cs_ids s) + 2" "cs_freed s1 = cs_freed s"
    using run_to_finish [OF assms(1-6,9), of jtk jmk] by blast
  obtain g jm where g: "storage_command_finish env cmd job m s1 =
      Inr (storage_reply (sc_op cmd), s1\<lparr>cs_storage := g, cs_sfs := (cs_sfs s1)\<lparr>st_jm := jm\<rparr>,
        cs_freed := cs_freed s1 \<union> {Map_Block m, Job_Block job}\<rparr>)" (is "_ = Inr (_, ?s2)")
    "jm_inv jm" "jm_abs jm = (jm_abs (st_jm (cs_sfs s1)))(env_thread_id env := None)" "llrb (storage_tree g)"
    "if sc_op cmd = STORAGE_ADD_CMD
     then set (rb_inorder (storage_tree g)) = insert (cmd_device cmd) (set (rb_inorder (storage_tree (cs_storage s))))
     else storage_tree g = storage_tree (cs_storage s)"
    using finish_storage [of s1 m env cmd job] assms(1,7-9) s1(2,3,8)
    by (auto simp: cmd_ready_def env_ok_def sys_ok_def trees_ok_def)
  have jm: "jm_abs jm = jm_abs (st_jm (cs_sfs s))" using g(3) s1(5) assms(2) by auto
  have "queues_ok I (after_pass job f) ((cs_sfs s1)\<lparr>st_jm := jm\<rparr>)"
    by (rule queues_ok_cong [of I _ "cs_sfs s1"]) (use s1(2) in \<open>simp_all add: sys_ok_def\<close>)
  then have "sys_ok I (after_pass job f) ?s2"
    using s1(2) g(2) by (simp add: sys_ok_def trees_ok_def)
  then show ?thesis
    using g(1,4,5) jm s1 by (intro exI [of _ ?s2] conjI) simp_all
qed

end
