(* ===== verification/Metadata.thy ===== *)
theory Metadata
  imports Storage_Tree
begin

text \<open>
  The metadata of a file that sfs and sfsd share: file handles (\<^verbatim>\<open>sstack_nfs.h\<close>), extents and inodes
  (\<^verbatim>\<open>sstack_md.h\<close>).  Character arrays are the strings they hold.
\<close>

definition IPV6_ADDR_MAX :: nat where "IPV6_ADDR_MAX = 40"

datatype sstack_network_protocol = IPV4 | IPV6 | Unlisted_Network "32 word"

record net_address =
  na_protocol :: sstack_network_protocol
  na_address :: string

record file_handle =
  fh_name_len :: "64 word"
  fh_name :: string
  fh_proto :: sfs_protocol
  fh_address :: net_address

text \<open>\<^verbatim>\<open>strncmp\<close> with result 0.\<close>

definition strneq :: "nat \<Rightarrow> string \<Rightarrow> string \<Rightarrow> bool" where
  "strneq n a b \<longleftrightarrow> take n a = take n b"

text \<open>\<open>e_path\<close> is the first handle of the array that it points to.\<close>

record sstack_extent =
  e_offset :: "64 word"
  e_size :: "64 word"
  e_sizeondisk :: "64 word"
  e_cksum :: "32 word"
  e_numreplicas :: "32 word"
  e_path :: "file_handle option"

text \<open>
  \<open>i_primary\<close> is \<open>None\<close> for a null pointer, and \<open>Some h\<close> with what its field \<^verbatim>\<open>sfsd\<close> holds
  otherwise; sfsds are represented by their handles.  \<open>i_lock\<close> is the state of the mutex.
\<close>

record sstack_inode =
  i_lock :: bool
  i_num :: "64 word"
  i_size :: "64 word"
  i_replicas :: "32 word"
  i_numclients :: int
  i_primary :: "64 word option option"
  i_sfsds_null :: bool
  i_extent :: "sstack_extent list"

end
