(* ===== verification/File_IO.thy ===== *)
theory File_IO
  imports Job_Setup File_Lock Metadata
begin

text \<open>
  Reading and writing of files in \<^verbatim>\<open>sfs/src/sfs_entry.c\<close>: \<^verbatim>\<open>sfs_read\<close> and \<^verbatim>\<open>sfs_write\<close> with their loops that
  split a request into jobs, and \<^verbatim>\<open>sfs_send_read_status\<close> and \<^verbatim>\<open>sfs_send_write_status\<close>, which turn the
  answers into the result.  Both functions are split at the wait on the job map.

  The outcomes of the allocations, of memcached, of the database and of \<^verbatim>\<open>stat\<close> are the fields of an
  environment; memory for the jobs is given for each round of the loop.  An inode is what
  \<^verbatim>\<open>get_inode\<close> delivers.  A pointer into the array of extents is an index, \<open>None\<close> being null.
\<close>

section \<open>State\<close>

datatype io_command = NFS_READ | NFS_WRITE

text \<open>A request; the data of a write is a position in the caller's buffer and a length.\<close>

record io_payload =
  ip_job_id :: "64 word"
  ip_priority :: int
  ip_arg :: addr
  ip_command :: io_command
  ip_inode_no :: "64 word"
  ip_offset :: "64 word"
  ip_count :: "64 word"
  ip_read_ecode :: bool
  ip_extent_handle :: file_handle
  ip_data_len :: "64 word"
  ip_data_buf :: "64 word"

text \<open>The payload that \<^verbatim>\<open>sstack_create_payload\<close> returns, cleared; the command and the protocols are set later.\<close>

definition payload_zero :: io_payload where
  "payload_zero = \<lparr>ip_job_id = 0, ip_priority = 0, ip_arg = 0, ip_command = NFS_READ, ip_inode_no = 0, ip_offset = 0, ip_count = 0,
     ip_read_ecode = False,
     ip_extent_handle = \<lparr>fh_name_len = 0, fh_name = [], fh_proto = NFS, fh_address = \<lparr>na_protocol = IPV4, na_address = []\<rparr>\<rparr>,
     ip_data_len = 0, ip_data_buf = 0\<rparr>"

text \<open>What a payload holds as a response.\<close>

record io_response =
  rsp_command_ok :: int
  rsp_data :: "8 word list"
  rsp_file_wc :: "32 word"

record io_state = sys_state +
  io_locks :: fl_globals
  io_payloads :: "addr \<Rightarrow> io_payload"
  io_responses :: "addr \<Rightarrow> io_response"
  io_errno :: int

record job_env =
  je_job :: "addr option"
  je_payload :: "addr option"
  je_job_ids :: bool
  je_job_status :: bool
  je_jt_node :: "sstack_jt option"

record io_env =
  io_inode_num :: "string \<Rightarrow> 64 word option"
  io_lock_node :: "sstack_file_lock option"
  io_lock_key :: sstack_file_lock
  io_inode_mem :: bool
  io_get_inode :: "int + sstack_inode"
  io_stat :: "int option"
  io_sfsds_mem :: bool
  io_put_inode :: bool
  io_accept_sfsd :: "64 word"
  io_thread_id :: "64 word"
  io_job_map :: "addr option"
  io_jobs :: "nat \<Rightarrow> job_env"
  io_jm_node :: "sstack_jm option"
  io_jt_key :: sstack_jt
  io_jm_key :: sstack_jm

section \<open>Extents\<close>

definition covers :: "64 word \<Rightarrow> sstack_extent \<Rightarrow> bool" where
  "covers off e \<longleftrightarrow> e_offset e \<le> off \<and> off \<le> e_offset e + e_size e"

text \<open>
  The search of \<^verbatim>\<open>sfs_read\<close>, from extent \<open>i\<close> on with the pointer \<open>p\<close>; without a hit it ends behind
  the array.
\<close>

fun read_extent :: "64 word \<Rightarrow> nat \<Rightarrow> nat option \<Rightarrow> sstack_extent list \<Rightarrow> nat option" where
  "read_extent off i p [] = p"
| "read_extent off i p (e # es) = (if covers off e then Some i else read_extent off (Suc i) (Some (Suc i)) es)"

text \<open>The search of \<^verbatim>\<open>sfs_write\<close> looks at the first extent in every round.\<close>

definition write_extent :: "64 word \<Rightarrow> sstack_extent list \<Rightarrow> nat option" where
  "write_extent off es = (case es of [] \<Rightarrow> None | e # _ \<Rightarrow> if covers off e then Some 0 else Some 1)"

definition deref_extent :: "sstack_extent list \<Rightarrow> nat option \<Rightarrow> sstack_extent exec" where
  "deref_extent es p =
     (case p of None \<Rightarrow> Inl Null_Deref | Some n \<Rightarrow> if n < length es then Inr (es ! n) else Inl Bad_Access)"

section \<open>The jobs of a request\<close>

text \<open>
  Adding a job to the job map, registering and submitting it; false where the request
  fails.  The realloc'ed array of ids has one more element in every round.
\<close>

definition add_job ::
  "io_env \<Rightarrow> job_env \<Rightarrow> addr \<Rightarrow> addr \<Rightarrow> 64 word \<Rightarrow> sfs_state \<Rightarrow> (bool \<times> sfs_state) exec" where
  "add_job env je m job i d =
     (let thread_id = io_thread_id env; d = upd_map m (\<lambda>r. r\<lparr>num_jobs := num_jobs r + 1\<rparr>) d in
      if \<not> je_job_ids je then Inr (False, d)
      else
      exec_bind (locked_upd m (\<lambda>r. r\<lparr>job_ids := job_ids r @ [i], num_jobs_left := num_jobs_left r + 1\<rparr>) d) (\<lambda>d.
      if \<not> je_job_status je then Inr (False, d)
      else
      exec_bind (locked_upd m (\<lambda>r. r) d) (\<lambda>d.
      exec_bind (sfs_job2thread_map_insert (je_jt_node je) thread_id i (Some job) (st_jt d)) (\<lambda>(ret, jt).
      let d = d\<lparr>st_jt := jt\<rparr> in
      if ret = -1 then
        exec_bind (sfs_job_context_remove (io_jm_key env) thread_id (st_jm d)) (\<lambda>jm. Inr (False, d\<lparr>st_jm := jm\<rparr>))
      else
      exec_bind (sfs_submit_job (job_priority (st_jobs d job)) True (Some job) (st_jobq d)) (\<lambda>(ret, q).
      let d = d\<lparr>st_jobq := q\<rparr> in
      if ret = -1 then
        exec_bind (sfs_job_context_remove (io_jm_key env) thread_id (st_jm d)) (\<lambda>jm.
        exec_bind (sfs_job2thread_map_remove (io_jt_key env) thread_id (st_jt d)) (\<lambda>jt.
        Inr (False, d\<lparr>st_jm := jm, st_jt := jt\<rparr>)))
      else Inr (True, d))))))"

text \<open>Storing the payload of a job.\<close>

definition put_payload :: "addr \<Rightarrow> addr \<Rightarrow> (io_payload \<Rightarrow> io_payload) \<Rightarrow> io_state \<Rightarrow> io_state" where
  "put_payload job payload f s =
     upd_sfs (upd_job job (\<lambda>j. j\<lparr>job_payload := Some payload\<rparr>))
       (s\<lparr>io_payloads := (io_payloads s)(payload := f payload_zero)\<rparr>)"

definition fill_io :: "io_command \<Rightarrow> 64 word \<Rightarrow> addr \<Rightarrow> 64 word \<Rightarrow> 64 word \<Rightarrow> 64 word \<Rightarrow> io_payload \<Rightarrow> io_payload" where
  "fill_io cmd i job inode_no offset count p =
     p\<lparr>ip_job_id := i, ip_priority := 0, ip_arg := job, ip_command := cmd, ip_inode_no := inode_no,
       ip_offset := offset, ip_count := count\<rparr>"

text \<open>The steps that a round of both loops has in common, once a job is set up.\<close>

definition issue_job ::
  "io_env \<Rightarrow> job_env \<Rightarrow> addr \<Rightarrow> addr \<Rightarrow> addr \<Rightarrow> 64 word \<Rightarrow> (io_payload \<Rightarrow> io_payload) \<Rightarrow> io_state \<Rightarrow> (bool \<times> io_state) exec" where
  "issue_job env je m job payload i g s =
     (let s = put_payload job payload g s in
      exec_bind (add_job env je m job i (cs_sfs s)) (\<lambda>(ok, d). Inr (ok, s\<lparr>cs_sfs := d\<rparr>)))"

text \<open>
  One round of the loop of \<^verbatim>\<open>sfs_read\<close>: the number of bytes the job reads, or \<open>None\<close> where the
  request fails.
\<close>

definition read_size_of :: "64 word \<Rightarrow> 64 word \<Rightarrow> sstack_extent \<Rightarrow> 64 word" where
  "read_size_of sz offset e =
     (if offset + sz > e_offset e + e_size e then e_offset e + e_size e - offset else 0)"

definition read_step ::
  "io_env \<Rightarrow> addr \<Rightarrow> sstack_inode \<Rightarrow> 64 word \<Rightarrow> 64 word \<Rightarrow> nat option \<Rightarrow> nat \<Rightarrow> io_state \<Rightarrow>
   (64 word option \<times> io_state) exec" where
  "read_step env m inode sz offset extent k s =
     (let je = io_jobs env k in
      exec_bind (setup_job (je_job je) (i_primary inode) s) (\<lambda>(job, s).
      case job of None \<Rightarrow> Inr (None, s) | Some (job, i) \<Rightarrow>
      case je_payload je of None \<Rightarrow> Inl Null_Deref | Some payload \<Rightarrow>
      exec_bind (deref_extent (i_extent inode) extent) (\<lambda>e.
      let read_size = read_size_of sz offset e in
      case e_path e of None \<Rightarrow> Inl Null_Deref | Some h \<Rightarrow>
      exec_bind (issue_job env je m job payload i (\<lambda>p. (fill_io NFS_READ i job (i_num inode) offset read_size p)
                \<lparr>ip_read_ecode := False, ip_extent_handle := h\<rparr>) s) (\<lambda>(ok, s).
      Inr (if ok then Some read_size else None, s)))))"

text \<open>
  The loop; \<open>bytes_to_read\<close> is an \<^verbatim>\<open>int\<close>, from which the sum of all bytes issued is taken off in
  every round.  \<open>None\<close> is a loop that never ends, and false a request that fails.
\<close>

partial_function (option) read_loop ::
  "io_env \<Rightarrow> addr \<Rightarrow> sstack_inode \<Rightarrow> 64 word \<Rightarrow> 64 word \<Rightarrow> nat option \<Rightarrow> nat \<Rightarrow> 32 word \<Rightarrow> 64 word \<Rightarrow> io_state \<Rightarrow>
   (bool \<times> io_state) exec option" where
  "read_loop env m inode sz offset extent k bytes_to_read bytes_issued s =
     (if bytes_to_read = 0 then Some (Inr (True, s))
      else
        case read_step env m inode sz offset extent k s of
          Inl c \<Rightarrow> Some (Inl c)
        | Inr (None, s) \<Rightarrow> Some (Inr (False, s))
        | Inr (Some read_size, s) \<Rightarrow>
            read_loop env m inode sz offset extent (Suc k) (bytes_to_read - ucast (bytes_issued + read_size))
              (bytes_issued + read_size) s)"

text \<open>One round of the loop of \<^verbatim>\<open>sfs_write\<close>, with the pointer to the next extent.\<close>

definition write_size_of :: "64 word \<Rightarrow> 64 word \<Rightarrow> sstack_extent list \<Rightarrow> nat option \<Rightarrow> 64 word exec" where
  "write_size_of sz offset es extent =
     (case extent of
        None \<Rightarrow> Inr sz
      | Some n \<Rightarrow> exec_bind (deref_extent es extent) (\<lambda>e. Inr (read_size_of sz offset e)))"

definition next_extent :: "64 word \<Rightarrow> 64 word \<Rightarrow> sstack_extent list \<Rightarrow> nat option \<Rightarrow> nat option exec" where
  "next_extent sz offset es extent =
     (case extent of
        None \<Rightarrow> Inr None
      | Some n \<Rightarrow>
          exec_bind (deref_extent es extent) (\<lambda>e.
          if offset + sz > e_offset e + e_size e
          then exec_bind (deref_extent es (Some (Suc n))) (\<lambda>_. Inr (Some (Suc n)))
          else Inr (Some n)))"

definition write_step ::
  "io_env \<Rightarrow> addr \<Rightarrow> sstack_inode \<Rightarrow> 64 word \<Rightarrow> 64 word \<Rightarrow> nat option \<Rightarrow> nat \<Rightarrow> 64 word \<Rightarrow> io_state \<Rightarrow>
   ((64 word \<times> nat option) option \<times> io_state) exec" where
  "write_step env m inode sz offset extent k bytes_issued s =
     (let je = io_jobs env k in
      exec_bind (setup_job (je_job je) (Some (Some (io_accept_sfsd env))) s) (\<lambda>(job, s).
      case job of None \<Rightarrow> Inr (None, s) | Some (job, i) \<Rightarrow>
      case je_payload je of None \<Rightarrow> Inl Null_Deref | Some payload \<Rightarrow>
      exec_bind (write_size_of sz offset (i_extent inode) extent) (\<lambda>write_size.
      exec_bind (issue_job env je m job payload i (\<lambda>p. (fill_io NFS_WRITE i job (i_num inode) offset write_size p)
                \<lparr>ip_data_len := write_size, ip_data_buf := bytes_issued\<rparr>) s) (\<lambda>(ok, s).
      if \<not> ok then Inr (None, s)
      else
      exec_bind (next_extent sz offset (i_extent inode) extent) (\<lambda>extent.
      Inr (Some (write_size, extent), s))))))"

partial_function (option) write_loop ::
  "io_env \<Rightarrow> addr \<Rightarrow> sstack_inode \<Rightarrow> 64 word \<Rightarrow> 64 word \<Rightarrow> nat option \<Rightarrow> nat \<Rightarrow> 32 word \<Rightarrow> 64 word \<Rightarrow> io_state \<Rightarrow>
   (bool \<times> io_state) exec option" where
  "write_loop env m inode sz offset extent k bytes_to_write bytes_issued s =
     (if bytes_to_write = 0 then Some (Inr (True, s))
      else
        case write_step env m inode sz offset extent k bytes_issued s of
          Inl c \<Rightarrow> Some (Inl c)
        | Inr (None, s) \<Rightarrow> Some (Inr (False, s))
        | Inr (Some (write_size, extent), s) \<Rightarrow>
            write_loop env m inode sz offset extent (Suc k) (ucast (sz - (bytes_issued + write_size)))
              (bytes_issued + write_size) s)"

section \<open>Up to the wait\<close>

text \<open>How far a request has come: its result, or the inode number and the job map it waits on.\<close>

datatype io_progress = Returns int | Waits "64 word" addr

type_synonym io_result = "(io_progress \<times> io_state) exec option"

definition io_return :: "int \<Rightarrow> io_state \<Rightarrow> io_result" where
  "io_return r s = Some (Inr (Returns r, s))"

text \<open>Release of the lock on an exit; its result is ignored.\<close>

definition unlock_inode :: "io_env \<Rightarrow> 64 word \<Rightarrow> io_state \<Rightarrow> io_state exec" where
  "unlock_inode env inum s = exec_bind (sfs_unlock (io_lock_key env) inum (io_locks s)) (\<lambda>(_, l). Inr (s\<lparr>io_locks := l\<rparr>))"

definition io_fail :: "io_env \<Rightarrow> 64 word \<Rightarrow> io_state \<Rightarrow> io_result" where
  "io_fail env inum s = Some (exec_bind (unlock_inode env inum s) (\<lambda>s. Inr (Returns (-1), s)))"

text \<open>After the loop: the job map is registered.\<close>

definition io_register :: "io_env \<Rightarrow> 64 word \<Rightarrow> addr \<Rightarrow> (bool \<times> io_state) exec option \<Rightarrow> io_result" where
  "io_register env inum m r =
     (case r of
        None \<Rightarrow> None
      | Some (Inl c) \<Rightarrow> Some (Inl c)
      | Some (Inr (False, s)) \<Rightarrow> io_fail env inum s
      | Some (Inr (True, s)) \<Rightarrow>
          (case sfs_job_context_insert (io_jm_node env) (io_thread_id env) (Some m) (st_jm (cs_sfs s)) of
             Inl c \<Rightarrow> Some (Inl c)
           | Inr (ret, jm) \<Rightarrow>
               let s = upd_sfs (\<lambda>d. d\<lparr>st_jm := jm\<rparr>) s
               in if ret = -1 then io_fail env inum s else Some (Inr (Waits inum m, s))))"

text \<open>
  The beginning that both functions share: arguments, inode number, lock and inode.  Without
  memory for the inode the lock is kept.
\<close>

definition io_open ::
  "(64 word \<Rightarrow> fl_globals \<Rightarrow> (int \<times> fl_globals) exec) \<Rightarrow> io_env \<Rightarrow> string option \<Rightarrow> bool \<Rightarrow> 64 word \<Rightarrow>
   (64 word \<Rightarrow> sstack_inode \<Rightarrow> io_state \<Rightarrow> io_result) \<Rightarrow> io_state \<Rightarrow> io_result" where
  "io_open lock env path buf_null offset rest s =
     (case path of None \<Rightarrow> io_return (-1) (s\<lparr>io_errno := EINVAL\<rparr>) | Some path \<Rightarrow>
      if buf_null \<or> sint offset < 0 then io_return (-1) (s\<lparr>io_errno := EINVAL\<rparr>)
      else
      case io_inode_num env path of None \<Rightarrow> io_return (-1) (s\<lparr>io_errno := ENOENT\<rparr>) | Some inum \<Rightarrow>
      case lock inum (io_locks s) of Inl c \<Rightarrow> Some (Inl c) | Inr (ret, l) \<Rightarrow>
      let s = s\<lparr>io_locks := l\<rparr> in
      if ret = -1 then io_return (-1) (s\<lparr>io_errno := EAGAIN\<rparr>)
      else if \<not> io_inode_mem env then io_return (- ENOMEM) s
      else
      case io_get_inode env of
        Inl e \<Rightarrow> io_fail env inum (s\<lparr>io_errno := e\<rparr>)
      | Inr inode \<Rightarrow> rest inum inode s)"

definition sfs_read_begin ::
  "io_env \<Rightarrow> string option \<Rightarrow> bool \<Rightarrow> 64 word \<Rightarrow> 64 word \<Rightarrow> io_state \<Rightarrow> io_result" where
  "sfs_read_begin env path buf_null sz offset =
     io_open (sfs_rdlock (io_lock_node env) (io_lock_key env)) env path buf_null offset (\<lambda>inum inode s.
     if i_numclients inode = 0 \<and> i_primary inode = None then io_fail env inum (s\<lparr>io_errno := EIO\<rparr>)
     else
     let extent = read_extent offset 0 None (i_extent inode) in
     if extent \<noteq> None \<and> length (i_extent inode) \<le> the extent then Some (Inl Bad_Access)
     else
     case create_job_map (io_job_map env) (cs_sfs s) of
       (None, d) \<Rightarrow> io_fail env inum s
     | (Some m, d) \<Rightarrow>
         io_register env inum m
           (read_loop env m inode sz offset extent 0 (if sz > i_size inode then ucast (i_size inode) else ucast sz) 0
             (s\<lparr>cs_sfs := d\<rparr>)))"

definition sfs_write_begin ::
  "io_env \<Rightarrow> string option \<Rightarrow> bool \<Rightarrow> 64 word \<Rightarrow> 64 word \<Rightarrow> io_state \<Rightarrow> io_result" where
  "sfs_write_begin env path buf_null sz offset =
     io_open (sfs_wrlock (io_lock_node env) (io_lock_key env)) env path buf_null offset (\<lambda>inum inode s.
     case io_stat env of None \<Rightarrow> io_fail env inum s | Some file_size \<Rightarrow>
     if file_size > 0 \<and> (i_numclients inode = 0 \<or> i_sfsds_null inode) then io_fail env inum (s\<lparr>io_errno := EIO\<rparr>)
     else if \<not> io_sfsds_mem env then Some (Inl Null_Deref)
     else if \<not> io_put_inode env then io_return (-1) s
     else
     let extent = write_extent offset (i_extent inode) in
     case create_job_map (io_job_map env) (cs_sfs s) of
       (None, d) \<Rightarrow> io_fail env inum s
     | (Some m, d) \<Rightarrow>
         io_register env inum m
           (write_loop env m inode sz offset extent 0 (ucast sz) 0
             (s\<lparr>cs_sfs := upd_map m (\<lambda>r. r\<lparr>op_status := (op_status r)[0 := JOB_STARTED]\<rparr>) d\<rparr>)))"

section \<open>After the wait\<close>

definition job_of :: "sstack_jt \<Rightarrow> 64 word \<Rightarrow> sfs_state \<Rightarrow> addr exec" where
  "job_of jtk i d =
     (case rb_search jt_cmp (jtk\<lparr>jt_magic := JTNODE_MAGIC, jt_job_id := i\<rparr>) (jobid_tree (st_jt d)) of
        None \<Rightarrow> Inl Null_Deref
      | Some n \<Rightarrow> (case jt_job n of None \<Rightarrow> Inl Null_Deref | Some job \<Rightarrow> Inr job))"

text \<open>
  The end of both loops: the response of the job of id number \<open>i\<close> in the job map.
\<close>

definition response_of :: "io_env \<Rightarrow> addr \<Rightarrow> nat \<Rightarrow> io_state \<Rightarrow> (64 word \<times> io_response) exec" where
  "response_of env m i s =
     (let d = cs_sfs s; ids = job_ids (st_maps d m) in
      if i \<ge> length ids then Inl Bad_Access
      else
        exec_bind (job_of (io_jt_key env) (ids ! i) d) (\<lambda>job.
        case job_payload (st_jobs d job) of
          None \<Rightarrow> Inl Null_Deref
        | Some payload \<Rightarrow> Inr (ids ! i, io_responses s payload)))"

definition forget_job :: "io_env \<Rightarrow> 64 word \<Rightarrow> io_state \<Rightarrow> io_state exec" where
  "forget_job env i s =
     exec_bind (sfs_job2thread_map_remove (io_jt_key env) i (st_jt (cs_sfs s))) (\<lambda>jt. Inr (upd_sfs (\<lambda>d. d\<lparr>st_jt := jt\<rparr>) s))"

text \<open>
  The loop of \<^verbatim>\<open>sfs_send_read_status\<close>, from job \<open>i\<close> with \<open>k\<close> to go, with the caller's buffer, the
  position in it and the number of bytes.
\<close>

fun read_status_loop ::
  "io_env \<Rightarrow> addr \<Rightarrow> nat \<Rightarrow> nat \<Rightarrow> nat \<Rightarrow> 8 word list \<Rightarrow> 32 word \<Rightarrow> io_state \<Rightarrow> (32 word \<times> 8 word list \<times> io_state) exec" where
  "read_status_loop env m i 0 pos buf num_bytes s = Inr (num_bytes, buf, s)"
| "read_status_loop env m i (Suc k) pos buf num_bytes s =
     exec_bind (response_of env m i s) (\<lambda>(job_id, r).
     let dat = rsp_data r in
     if pos + length dat > length buf then Inl Bad_Access
     else
     exec_bind (forget_job env job_id s) (\<lambda>s.
     read_status_loop env m (Suc i) k (pos + length dat) (take pos buf @ dat @ drop (pos + length dat) buf)
       (num_bytes + of_nat (length dat)) s))"

definition sfs_send_read_status ::
  "io_env \<Rightarrow> addr \<Rightarrow> 8 word list \<Rightarrow> io_state \<Rightarrow> (int \<times> 8 word list \<times> io_state) exec" where
  "sfs_send_read_status env m buf s =
     (let r = st_maps (cs_sfs s) m in
      if num_jobs_left r \<noteq> 0 then Inr (-1, buf, s\<lparr>io_errno := err_no r\<rparr>)
      else
        exec_bind (read_status_loop env m 0 (nat (num_jobs r)) 0 buf 0 s) (\<lambda>(num_bytes, buf, s).
        Inr (sint num_bytes, buf, s)))"

fun write_status_loop :: "io_env \<Rightarrow> addr \<Rightarrow> nat \<Rightarrow> nat \<Rightarrow> 32 word \<Rightarrow> io_state \<Rightarrow> (32 word \<times> io_state) exec" where
  "write_status_loop env m i 0 num_bytes s = Inr (num_bytes, s)"
| "write_status_loop env m i (Suc k) num_bytes s =
     exec_bind (response_of env m i s) (\<lambda>(job_id, r).
     exec_bind (forget_job env job_id s) (\<lambda>s.
     write_status_loop env m (Suc i) k
       (if rsp_command_ok r = SSTACK_SUCCESS then num_bytes + rsp_file_wc r else num_bytes) s))"

definition sfs_send_write_status :: "io_env \<Rightarrow> addr \<Rightarrow> io_state \<Rightarrow> (int \<times> io_state) exec" where
  "sfs_send_write_status env m s =
     exec_bind (write_status_loop env m 0 (nat (num_jobs (st_maps (cs_sfs s) m))) 0 s) (\<lambda>(num_bytes, s).
     Inr (sint num_bytes, s))"

text \<open>Both functions end by taking the job map out of its tree and releasing the lock.\<close>

definition io_close :: "io_env \<Rightarrow> 64 word \<Rightarrow> io_state \<Rightarrow> io_state exec" where
  "io_close env inum s =
     exec_bind (sfs_job_context_remove (io_jm_key env) (io_thread_id env) (st_jm (cs_sfs s))) (\<lambda>jm.
     unlock_inode env inum (upd_sfs (\<lambda>d. d\<lparr>st_jm := jm\<rparr>) s))"

definition sfs_read_finish :: "io_env \<Rightarrow> 64 word \<Rightarrow> addr \<Rightarrow> 8 word list \<Rightarrow> io_state \<Rightarrow> (int \<times> 8 word list \<times> io_state) exec" where
  "sfs_read_finish env inum m buf s =
     exec_bind (sfs_send_read_status env m buf s) (\<lambda>(ret, buf, s).
     exec_bind (io_close env inum s) (\<lambda>s. Inr (ret, buf, s)))"

definition sfs_write_finish :: "io_env \<Rightarrow> 64 word \<Rightarrow> addr \<Rightarrow> io_state \<Rightarrow> (int \<times> io_state) exec" where
  "sfs_write_finish env inum m s =
     exec_bind (sfs_send_write_status env m s) (\<lambda>(ret, s).
     exec_bind (io_close env inum s) (\<lambda>s. Inr (ret, s)))"

section \<open>A whole request\<close>

text \<open>
  The events between the wait and its end: a pass of the dispatcher, and answers that
  arrive at their addresses and are handled in order.
\<close>

definition serve ::
  "sstack_jt \<Rightarrow> sstack_jm \<Rightarrow> (sstack_payload \<times> io_response) list \<Rightarrow> io_state \<Rightarrow> io_state exec" where
  "serve jtk jmk answers s =
     exec_bind (sfs_dispatcher (cs_sfs s)) (\<lambda>d.
     exec_bind (process_all jtk jmk (map fst answers) d) (\<lambda>d.
     Inr (s\<lparr>cs_sfs := d, io_responses := fold (\<lambda>(p, r) f. f(pl_addr p := r)) answers (io_responses s)\<rparr>)))"

text \<open>
  \<^verbatim>\<open>sfs_read\<close>: \<open>None\<close> if it never gets to its wait, no result if it still waits.
\<close>

definition sfs_read ::
  "sstack_jt \<Rightarrow> sstack_jm \<Rightarrow> io_env \<Rightarrow> string option \<Rightarrow> 8 word list \<Rightarrow> 64 word \<Rightarrow> 64 word \<Rightarrow>
   (sstack_payload \<times> io_response) list \<Rightarrow> io_state \<Rightarrow> ((int \<times> 8 word list) option \<times> io_state) exec option" where
  "sfs_read jtk jmk env path buf sz offset answers s =
     (case sfs_read_begin env path False sz offset s of
        None \<Rightarrow> None
      | Some (Inl c) \<Rightarrow> Some (Inl c)
      | Some (Inr (Returns r, s)) \<Rightarrow> Some (Inr (Some (r, buf), s))
      | Some (Inr (Waits inum m, s)) \<Rightarrow>
          Some (exec_bind (serve jtk jmk answers s) (\<lambda>s.
            if map_signals (st_maps (cs_sfs s) m) = 0 then Inr (None, s)
            else exec_bind (sfs_read_finish env inum m buf s) (\<lambda>(r, buf, s). Inr (Some (r, buf), s)))))"

definition sfs_write ::
  "sstack_jt \<Rightarrow> sstack_jm \<Rightarrow> io_env \<Rightarrow> string option \<Rightarrow> 64 word \<Rightarrow> 64 word \<Rightarrow>
   (sstack_payload \<times> io_response) list \<Rightarrow> io_state \<Rightarrow> (int option \<times> io_state) exec option" where
  "sfs_write jtk jmk env path sz offset answers s =
     (case sfs_write_begin env path False sz offset s of
        None \<Rightarrow> None
      | Some (Inl c) \<Rightarrow> Some (Inl c)
      | Some (Inr (Returns r, s)) \<Rightarrow> Some (Inr (Some r, s))
      | Some (Inr (Waits inum m, s)) \<Rightarrow>
          Some (exec_bind (serve jtk jmk answers s) (\<lambda>s.
            if map_signals (st_maps (cs_sfs s) m) = 0 then Inr (None, s)
            else exec_bind (sfs_write_finish env inum m s) (\<lambda>(r, s). Inr (Some r, s)))))"

end
