(* ===== verification/File_Access.thy ===== *)
theory File_Access
  imports File_IO
begin

text \<open>
  Reads and writes from end to end: the requests that run to their end, and those that
  cannot.
\<close>

section \<open>One job\<close>

text \<open>All memory for a job is available.\<close>

definition je_ok :: "job_env \<Rightarrow> addr \<Rightarrow> addr \<Rightarrow> bool" where
  "je_ok je job payload \<longleftrightarrow> je_job je = Some job \<and> je_payload je = Some payload \<and> je_job_ids je \<and> je_job_status je \<and>
     je_jt_node je \<noteq> None"

lemma add_job_ok:
  assumes q: "queues_ok I f d" "fresh_job I f job d" and t: "trees_ok d" and je: "je_ok je job payload"
    and job: "job_priority (st_jobs d job) = 0" "jt_abs (st_jt d) i = None" and m: "\<not> map_lock (st_maps d m)"
  shows "\<exists>d'. add_job env je m job i d = Inr (True, d') \<and> queues_ok I (f(Jobs 0 := f (Jobs 0) @ [job])) d' \<and>
    trees_ok d' \<and> jt_abs (st_jt d') = (jt_abs (st_jt d))(i \<mapsto> (io_thread_id env, Some job)) \<and> st_jm d' = st_jm d \<and>
    st_jobs d' = st_jobs d \<and> st_sent d' = st_sent d \<and> lane_head d' = lane_head d \<and>
    st_maps d' m = (st_maps d m)\<lparr>num_jobs := num_jobs (st_maps d m) + 1, job_ids := job_ids (st_maps d m) @ [i],
      num_jobs_left := num_jobs_left (st_maps d m) + 1\<rparr>"
proof -
  obtain n where n: "je_jt_node je = Some n" using je by (auto simp: je_ok_def)
  let ?r = "st_maps d m"
  let ?r' = "?r\<lparr>num_jobs := num_jobs ?r + 1, job_ids := job_ids ?r @ [i], num_jobs_left := num_jobs_left ?r + 1,
    map_lock := False\<rparr>"
  define d1 where "d1 = d\<lparr>st_maps := (st_maps d)(m := ?r')\<rparr>"
  obtain jt where jt: "sfs_job2thread_map_insert (Some n) (io_thread_id env) i (Some job) (st_jt d) = Inr (0, jt)"
    "jt_inv jt" "jt_abs jt = (jt_abs (st_jt d))(i \<mapsto> (io_thread_id env, Some job))"
    using jt_insert_new [OF _ job(2)] t unfolding trees_ok_def by blast
  let ?d = "d1\<lparr>st_jt := jt\<rparr>"
  have lane: "lane_head ?d = lane_head d" by (rule lane_head_cong) (simp_all add: d1_def)
  have "queues_ok I f ?d" by (rule queues_ok_cong [OF q(1)]) (simp_all add: d1_def)
  moreover have "fresh_job I f job ?d" using q(2) lane by (simp add: fresh_job_def)
  ultimately obtain qq where qq: "sfs_submit_job 0 True (Some job) (st_jobq ?d) = Inr (0, qq)"
    "queues_ok I (f(Jobs 0 := f (Jobs 0) @ [job])) (?d\<lparr>st_jobq := qq\<rparr>)" "lane_head (?d\<lparr>st_jobq := qq\<rparr>) = lane_head ?d"
    using submit_high by blast
  have "add_job env je m job i d = Inr (True, ?d\<lparr>st_jobq := qq\<rparr>)"
    using n je job(1) m jt(1) qq(1)
    by (simp add: add_job_def je_ok_def locked_upd_def upd_map_def Let_def d1_def)
  moreover have "st_maps (?d\<lparr>st_jobq := qq\<rparr>) m = ?r\<lparr>num_jobs := num_jobs ?r + 1, job_ids := job_ids ?r @ [i],
      num_jobs_left := num_jobs_left ?r + 1\<rparr>"
    using m by (cases "?r") (simp add: d1_def)
  ultimately show ?thesis
    using jt qq(2,3) lane t by (intro exI [of _ "?d\<lparr>st_jobq := qq\<rparr>"] conjI) (simp_all add: d1_def trees_ok_def)
qed

text \<open>The effect of the job of a request on the state.\<close>

definition issued ::
  "lane set \<Rightarrow> (lane \<Rightarrow> addr list) \<Rightarrow> io_env \<Rightarrow> addr \<Rightarrow> addr \<Rightarrow> addr \<Rightarrow> 64 word \<Rightarrow> (io_payload \<Rightarrow> io_payload) \<Rightarrow>
   io_state \<Rightarrow> io_state \<Rightarrow> bool" where
  "issued I f env m job payload h g s s' \<longleftrightarrow>
     sys_ok I (f(Jobs 0 := f (Jobs 0) @ [job])) s' \<and> lane_head (cs_sfs s') = lane_head (cs_sfs s) \<and>
     st_jobs (cs_sfs s') = (st_jobs (cs_sfs s))(job := (new_job h (next_job_id s))\<lparr>job_payload := Some payload\<rparr>) \<and>
     jt_abs (st_jt (cs_sfs s')) = (jt_abs (st_jt (cs_sfs s)))(next_job_id s \<mapsto> (io_thread_id env, Some job)) \<and>
     st_jm (cs_sfs s') = st_jm (cs_sfs s) \<and> st_sent (cs_sfs s') = st_sent (cs_sfs s) \<and>
     st_maps (cs_sfs s') m = (let r = st_maps (cs_sfs s) m in
       r\<lparr>num_jobs := num_jobs r + 1, job_ids := job_ids r @ [next_job_id s], num_jobs_left := num_jobs_left r + 1\<rparr>) \<and>
     io_payloads s' = (io_payloads s)(payload := g payload_zero) \<and> io_locks s' = io_locks s \<and>
     io_responses s' = io_responses s \<and> current_job_id (cs_ids s') = current_job_id (cs_ids s) + 2"

lemma issue_job_ok:
  assumes ok: "sys_ok I f s" "fresh_job I f job (cs_sfs s)" "ids_left s" and je: "je_ok je job payload"
    and jt: "jt_abs (st_jt (cs_sfs s)) (next_job_id s) = None" and m: "\<not> map_lock (st_maps (cs_sfs s) m)"
  shows "\<exists>s1 s2. setup_job (je_job je) (Some (Some h)) s = Inr (Some (job, next_job_id s), s1) \<and>
    issue_job env je m job payload (next_job_id s) g s1 = Inr (True, s2) \<and> issued I f env m job payload h g s s2"
proof -
  obtain d ids where d: "setup_job (Some job) (Some (Some h)) s = Inr (Some (job, next_job_id s), s\<lparr>cs_sfs := d, cs_ids := ids\<rparr>)"
    "queues_ok I f d" "trees_ok d" "fresh_job I f job d" "same_but_jobs (cs_sfs s) d"
    "st_jobs d = (st_jobs (cs_sfs s))(job := new_job h (next_job_id s))"
    "ji_ok ids" "\<not> sfs_job_id_mutex ids" "current_job_id ids = current_job_id (cs_ids s) + 2"
    using setup_job_ok [OF ok] by blast
  define d1 where "d1 = upd_job job (\<lambda>j. j\<lparr>job_payload := Some payload\<rparr>) d"
  have lane: "lane_head d1 = lane_head d" by (rule lane_head_cong) (simp_all add: d1_def upd_job_def)
  have "queues_ok I f d1" by (rule queues_ok_cong [OF d(2)]) (simp_all add: d1_def upd_job_def)
  moreover have "fresh_job I f job d1" using d(4) lane by (simp add: fresh_job_def)
  moreover have same: "trees_ok d1" "job_priority (st_jobs d1 job) = 0" "jt_abs (st_jt d1) (next_job_id s) = None"
    "\<not> map_lock (st_maps d1 m)" "st_jt d1 = st_jt (cs_sfs s)" "st_jm d1 = st_jm (cs_sfs s)" "st_sent d1 = st_sent (cs_sfs s)"
    "st_maps d1 = st_maps (cs_sfs s)"
    "st_jobs d1 = (st_jobs (cs_sfs s))(job := (new_job h (next_job_id s))\<lparr>job_payload := Some payload\<rparr>)"
    using d(3,5,6) jt m by (simp_all add: d1_def upd_job_def trees_ok_def same_but_jobs_def new_job_def)
  ultimately obtain d2 where d2: "add_job env je m job (next_job_id s) d1 = Inr (True, d2)"
    "queues_ok I (f(Jobs 0 := f (Jobs 0) @ [job])) d2" "trees_ok d2"
    "jt_abs (st_jt d2) = (jt_abs (st_jt d1))(next_job_id s \<mapsto> (io_thread_id env, Some job))" "st_jm d2 = st_jm d1"
    "st_jobs d2 = st_jobs d1" "st_sent d2 = st_sent d1" "lane_head d2 = lane_head d1"
    "st_maps d2 m = (st_maps d1 m)\<lparr>num_jobs := num_jobs (st_maps d1 m) + 1,
      job_ids := job_ids (st_maps d1 m) @ [next_job_id s], num_jobs_left := num_jobs_left (st_maps d1 m) + 1\<rparr>"
    using add_job_ok [of I f d1 job je payload "next_job_id s" m env] je by blast
  let ?s1 = "s\<lparr>cs_sfs := d, cs_ids := ids\<rparr>"
  let ?s2 = "s\<lparr>cs_sfs := d2, cs_ids := ids, io_payloads := (io_payloads s)(payload := g payload_zero)\<rparr>"
  have "issue_job env je m job payload (next_job_id s) g ?s1 = Inr (True, ?s2)"
    using d2(1) by (simp add: issue_job_def put_payload_def upd_sfs_def d1_def Let_def)
  moreover have "issued I f env m job payload h g s ?s2"
    using d(5,7-9) d2 lane same by (simp add: issued_def sys_ok_def same_but_jobs_def Let_def)
  ultimately show ?thesis using d(1) je unfolding je_ok_def by metis
qed

lemma read_step_ok:
  assumes ok: "sys_ok I f s" "fresh_job I f job (cs_sfs s)" "ids_left s" and je: "je_ok (io_jobs env k) job payload"
    and jt: "jt_abs (st_jt (cs_sfs s)) (next_job_id s) = None" and m: "\<not> map_lock (st_maps (cs_sfs s) m)"
    and e: "i_primary inode = Some (Some h)" "deref_extent (i_extent inode) extent = Inr e" "e_path e = Some hdl"
  shows "\<exists>s'. read_step env m inode sz offset extent k s = Inr (Some (read_size_of sz offset e), s') \<and>
    issued I f env m job payload h (\<lambda>p. (fill_io NFS_READ (next_job_id s) job (i_num inode) offset (read_size_of sz offset e) p)
      \<lparr>ip_read_ecode := False, ip_extent_handle := hdl\<rparr>) s s'"
proof -
  let ?g = "\<lambda>p. (fill_io NFS_READ (next_job_id s) job (i_num inode) offset (read_size_of sz offset e) p)
      \<lparr>ip_read_ecode := False, ip_extent_handle := hdl\<rparr>"
  obtain s1 s2 where s1: "setup_job (je_job (io_jobs env k)) (Some (Some h)) s = Inr (Some (job, next_job_id s), s1)"
    and s2: "issue_job env (io_jobs env k) m job payload (next_job_id s) ?g s1 = Inr (True, s2)"
      "issued I f env m job payload h ?g s s2"
    using issue_job_ok [OF ok je jt m] by blast
  have "read_step env m inode sz offset extent k s = Inr (Some (read_size_of sz offset e), s2)"
    using s1 s2(1) e je by (simp add: read_step_def je_ok_def Let_def)
  then show ?thesis using s2(2) by blast
qed

lemma write_step_ok:
  assumes ok: "sys_ok I f s" "fresh_job I f job (cs_sfs s)" "ids_left s" and je: "je_ok (io_jobs env k) job payload"
    and jt: "jt_abs (st_jt (cs_sfs s)) (next_job_id s) = None" and m: "\<not> map_lock (st_maps (cs_sfs s) m)"
  shows "\<exists>s'. write_step env m inode sz offset None k b s = Inr (Some (sz, None), s') \<and>
    issued I f env m job payload (io_accept_sfsd env) (\<lambda>p. (fill_io NFS_WRITE (next_job_id s) job (i_num inode) offset sz p)
      \<lparr>ip_data_len := sz, ip_data_buf := b\<rparr>) s s'"
proof -
  let ?g = "\<lambda>p. (fill_io NFS_WRITE (next_job_id s) job (i_num inode) offset sz p)\<lparr>ip_data_len := sz, ip_data_buf := b\<rparr>"
  obtain s1 s2 where s1: "setup_job (je_job (io_jobs env k)) (Some (Some (io_accept_sfsd env))) s = Inr (Some (job, next_job_id s), s1)"
    and s2: "issue_job env (io_jobs env k) m job payload (next_job_id s) ?g s1 = Inr (True, s2)"
      "issued I f env m job payload (io_accept_sfsd env) ?g s s2"
    using issue_job_ok [OF ok je jt m] by blast
  have "write_step env m inode sz offset None k b s = Inr (Some (sz, None), s2)"
    using s1 s2(1) je by (simp add: write_step_def je_ok_def write_size_of_def next_extent_def Let_def)
  then show ?thesis using s2(2) by blast
qed

section \<open>Locks\<close>

lemma rdlock_free:
  assumes "fl_inv l" "fl_abs l i = None" "mem \<noteq> None"
  shows "\<exists>l'. sfs_rdlock mem n i l = Inr (0, l') \<and> fl_inv l' \<and> fl_abs l' = (fl_abs l)(i \<mapsto> RDLOCKED)"
  using fl_rdlock [OF assms(1), of mem n i] assms(2,3) by (auto simp: fl_view_Inr fl_keeps_def)

lemma wrlock_free:
  assumes "fl_inv l" "fl_abs l i = None" "mem \<noteq> None"
  shows "\<exists>l'. sfs_wrlock mem n i l = Inr (0, l') \<and> fl_inv l' \<and> fl_abs l' = (fl_abs l)(i \<mapsto> WRLOCKED)"
  using fl_wrlock [OF assms(1), of mem n i] assms(2,3) by (auto simp: fl_view_Inr fl_keeps_def)

lemma unlock_held:
  assumes "fl_inv l" "fl_abs l i \<noteq> None"
  shows "\<exists>l'. sfs_unlock n i l = Inr (0, l') \<and> fl_inv l' \<and> fl_abs l' = (fl_abs l)(i := None)"
  using fl_unlock [OF assms(1), of n i] assms(2) by (auto simp: fl_view_Inr fl_keeps_def)

section \<open>Up to the wait\<close>

text \<open>
  All memory of a request with one job is available, nothing of it is in use, and
  neither the thread nor the inode is busy.
\<close>

definition io_ready ::
  "lane set \<Rightarrow> (lane \<Rightarrow> addr list) \<Rightarrow> io_env \<Rightarrow> 64 word \<Rightarrow> addr \<Rightarrow> addr \<Rightarrow> addr \<Rightarrow> io_state \<Rightarrow> bool" where
  "io_ready I f env inum job m payload s \<longleftrightarrow> sys_ok I f s \<and> fresh_job I f job (cs_sfs s) \<and> ids_left s \<and>
     jt_abs (st_jt (cs_sfs s)) (next_job_id s) = None \<and> jm_abs (st_jm (cs_sfs s)) (io_thread_id env) = None \<and>
     fl_inv (io_locks s) \<and> fl_abs (io_locks s) inum = None \<and> je_ok (io_jobs env 0) job payload \<and> io_job_map env = Some m \<and>
     io_jm_node env \<noteq> None \<and> io_inode_mem env \<and> io_lock_node env \<noteq> None"

text \<open>The state in which the request waits.\<close>

definition started ::
  "lane set \<Rightarrow> (lane \<Rightarrow> addr list) \<Rightarrow> io_env \<Rightarrow> addr \<Rightarrow> addr \<Rightarrow> addr \<Rightarrow> 64 word \<Rightarrow> (io_payload \<Rightarrow> io_payload) \<Rightarrow>
   io_state \<Rightarrow> io_state \<Rightarrow> bool" where
  "started I f env m job payload h g s s' \<longleftrightarrow>
     sys_ok I (f(Jobs 0 := f (Jobs 0) @ [job])) s' \<and> lane_head (cs_sfs s') = lane_head (cs_sfs s) \<and>
     st_jobs (cs_sfs s') = (st_jobs (cs_sfs s))(job := (new_job h (next_job_id s))\<lparr>job_payload := Some payload\<rparr>) \<and>
     jt_abs (st_jt (cs_sfs s')) = (jt_abs (st_jt (cs_sfs s)))(next_job_id s \<mapsto> (io_thread_id env, Some job)) \<and>
     jm_abs (st_jm (cs_sfs s')) = (jm_abs (st_jm (cs_sfs s)))(io_thread_id env \<mapsto> Some m) \<and>
     st_sent (cs_sfs s') = st_sent (cs_sfs s) \<and>
     (let r = st_maps (cs_sfs s') m in num_jobs r = 1 \<and> job_ids r = [next_job_id s] \<and> \<not> map_lock r \<and> map_signals r = 0 \<and>
        num_jobs_left r = num_jobs_left (st_maps (cs_sfs s) m) + 1) \<and>
     io_payloads s' = (io_payloads s)(payload := g payload_zero) \<and> io_responses s' = io_responses s \<and>
     current_job_id (cs_ids s') = current_job_id (cs_ids s) + 2"

text \<open>The state with the fresh job map, from which the loop starts.\<close>

lemma fresh_map_ok:
  assumes ready: "io_ready I f env inum job m payload s" and d: "d = upd_map m g (cs_sfs s)" and l: "l = io_locks s'"
    "s' = s\<lparr>io_locks := l, cs_sfs := d\<rparr>"
  shows "sys_ok I f s'" "fresh_job I f job (cs_sfs s')" "ids_left s'" "next_job_id s' = next_job_id s"
    "jt_abs (st_jt (cs_sfs s')) (next_job_id s') = None" "lane_head (cs_sfs s') = lane_head (cs_sfs s)"
proof -
  show lane: "lane_head (cs_sfs s') = lane_head (cs_sfs s)" using d l(2) by (intro lane_head_cong) (simp_all add: upd_map_def)
  have "queues_ok I f (cs_sfs s')"
    by (rule queues_ok_cong [of I f "cs_sfs s"]) (use ready d l(2) in \<open>simp_all add: io_ready_def sys_ok_def upd_map_def\<close>)
  then show "sys_ok I f s'" "fresh_job I f job (cs_sfs s')" "ids_left s'" "next_job_id s' = next_job_id s"
    "jt_abs (st_jt (cs_sfs s')) (next_job_id s') = None"
    using ready lane d l(2) by (simp_all add: io_ready_def sys_ok_def fresh_job_def trees_ok_def ids_left_def next_job_id_def upd_map_def)
qed

lemma register_started:
  assumes ready: "io_ready I f env inum job m payload s"
    and s0: "s0 = s\<lparr>io_locks := l, cs_sfs := upd_map m gm (cs_sfs s)\<rparr>" "r = gm (st_maps (cs_sfs s) m)"
    and r: "num_jobs r = 0" "job_ids r = []" "\<not> map_lock r" "map_signals r = 0" "num_jobs_left r = num_jobs_left (st_maps (cs_sfs s) m)"
    and iss: "issued I f env m job payload h g s0 s1"
  shows "\<exists>s2. io_register env inum m (Some (Inr (True, s1))) = Some (Inr (Waits inum m, s2)) \<and>
    started I f env m job payload h g s s2 \<and> io_locks s2 = l \<and> op_status (st_maps (cs_sfs s2) m) = op_status r"
proof -
  obtain n where n: "io_jm_node env = Some n" using ready by (auto simp: io_ready_def)
  have same0: "next_job_id s0 = next_job_id s" "lane_head (cs_sfs s0) = lane_head (cs_sfs s)"
    using fresh_map_ok(4,6) [OF ready refl, where s' = s0 and g = gm] s0(1) by simp_all
  have same: "st_jobs (cs_sfs s0) = st_jobs (cs_sfs s)" "st_jt (cs_sfs s0) = st_jt (cs_sfs s)" "st_jm (cs_sfs s0) = st_jm (cs_sfs s)"
    "st_sent (cs_sfs s0) = st_sent (cs_sfs s)" "st_maps (cs_sfs s0) m = r" "io_payloads s0 = io_payloads s"
    "io_responses s0 = io_responses s" "cs_ids s0 = cs_ids s" "io_locks s0 = l"
    using s0 by (simp_all add: upd_map_def)
  have i: "sys_ok I (f(Jobs 0 := f (Jobs 0) @ [job])) s1" "st_jm (cs_sfs s1) = st_jm (cs_sfs s)" "io_locks s1 = l"
    using iss same by (simp_all add: issued_def)
  obtain jm where jm: "sfs_job_context_insert (Some n) (io_thread_id env) (Some m) (st_jm (cs_sfs s1)) = Inr (0, jm)"
    "jm_inv jm" "jm_abs jm = (jm_abs (st_jm (cs_sfs s)))(io_thread_id env \<mapsto> Some m)"
    using jm_insert_new [of "st_jm (cs_sfs s1)" "io_thread_id env" "Some m" n] i(1,2) ready
    by (auto simp: sys_ok_def trees_ok_def io_ready_def)
  define s2 where "s2 = upd_sfs (\<lambda>d. d\<lparr>st_jm := jm\<rparr>) s1"
  have lane: "lane_head (cs_sfs s2) = lane_head (cs_sfs s1)" by (rule lane_head_cong) (simp_all add: s2_def upd_sfs_def)
  have "queues_ok I (f(Jobs 0 := f (Jobs 0) @ [job])) (cs_sfs s2)"
    by (rule queues_ok_cong [of I _ "cs_sfs s1"]) (use i(1) in \<open>simp_all add: s2_def upd_sfs_def sys_ok_def\<close>)
  then have "sys_ok I (f(Jobs 0 := f (Jobs 0) @ [job])) s2"
    using i(1) jm(2) by (simp add: sys_ok_def trees_ok_def s2_def upd_sfs_def)
  then have "started I f env m job payload h g s s2"
    using iss same same0 lane jm(3) r unfolding issued_def started_def
    by (simp add: Let_def) (simp add: s2_def upd_sfs_def)
  moreover have "io_register env inum m (Some (Inr (True, s1))) = Some (Inr (Waits inum m, s2))"
    using jm(1) n by (simp add: io_register_def s2_def Let_def)
  moreover have "io_locks s2 = l" "op_status (st_maps (cs_sfs s2) m) = op_status r"
    using i(3) iss same(5) by (simp_all add: s2_def upd_sfs_def issued_def Let_def)
  ultimately show ?thesis by blast
qed

text \<open>
  A read that goes to the end of one extent and beyond it, and for which nothing is left to
  read there.
\<close>

definition tail_read :: "sstack_inode \<Rightarrow> 64 word \<Rightarrow> 64 word \<Rightarrow> sstack_extent \<Rightarrow> bool" where
  "tail_read inode sz offset e \<longleftrightarrow>
     (\<exists>n < length (i_extent inode). read_extent offset 0 None (i_extent inode) = Some n \<and> i_extent inode ! n = e) \<and>
     e_offset e + e_size e < offset + sz \<and>
     ucast (if sz > i_size inode then i_size inode else sz) = (ucast (e_offset e + e_size e - offset) :: 32 word) \<and>
     (ucast (e_offset e + e_size e - offset) :: 32 word) \<noteq> 0"

lemma ucast_if: "ucast (if b then x else y) = (if b then ucast x else ucast y)"
  by simp

lemma read_begin_ok:
  assumes ready: "io_ready I f env inum job m payload s" and path: "io_inode_num env path = Some inum" "0 \<le> sint offset"
    and inode: "io_get_inode env = Inr inode" "i_primary inode = Some (Some h)"
    and e: "tail_read inode sz offset e" "e_path e = Some hdl"
  shows "\<exists>s'. sfs_read_begin env (Some path) False sz offset s = Some (Inr (Waits inum m, s')) \<and>
    started I f env m job payload h (\<lambda>p. (fill_io NFS_READ (next_job_id s) job (i_num inode) offset (e_offset e + e_size e - offset) p)
      \<lparr>ip_read_ecode := False, ip_extent_handle := hdl\<rparr>) s s' \<and>
    fl_inv (io_locks s') \<and> fl_abs (io_locks s') = (fl_abs (io_locks s))(inum \<mapsto> RDLOCKED)"
proof -
  let ?count = "e_offset e + e_size e - offset"
  obtain n where n: "n < length (i_extent inode)" "read_extent offset 0 None (i_extent inode) = Some n" "i_extent inode ! n = e"
    using e(1) by (auto simp: tail_read_def)
  have size: "read_size_of sz offset e = ?count" using e(1) by (simp add: tail_read_def read_size_of_def)
  obtain l where l: "sfs_rdlock (io_lock_node env) (io_lock_key env) inum (io_locks s) = Inr (0, l)" "fl_inv l"
    "fl_abs l = (fl_abs (io_locks s))(inum \<mapsto> RDLOCKED)"
    using rdlock_free [of "io_locks s" inum "io_lock_node env"] ready by (auto simp: io_ready_def)
  define gm where "gm = (\<lambda>r. r\<lparr>num_jobs := 0, job_ids := [], map_lock := False, map_signals := 0\<rparr> :: sstack_job_map)"
  define s0 where "s0 = s\<lparr>io_locks := l, cs_sfs := upd_map m gm (cs_sfs s)\<rparr>"
  note f0 = fresh_map_ok [OF ready refl, of l s0 gm]
  have ok0: "sys_ok I f s0" "fresh_job I f job (cs_sfs s0)" "ids_left s0" "next_job_id s0 = next_job_id s"
    "jt_abs (st_jt (cs_sfs s0)) (next_job_id s0) = None"
    using f0 by (simp_all add: s0_def)
  have lock0: "\<not> map_lock (st_maps (cs_sfs s0) m)" by (simp add: s0_def upd_map_def gm_def)
  obtain s1 where s1: "read_step env m inode sz offset (Some n) 0 s0 = Inr (Some ?count, s1)"
    "issued I f env m job payload h (\<lambda>p. (fill_io NFS_READ (next_job_id s0) job (i_num inode) offset ?count p)
      \<lparr>ip_read_ecode := False, ip_extent_handle := hdl\<rparr>) s0 s1"
    using read_step_ok [OF ok0(1-3) _ ok0(5) lock0 inode(2) _ e(2), of env 0 payload "Some n" sz offset] ready n size
    by (auto simp: deref_extent_def io_ready_def)
  have "read_loop env m inode sz offset (Some n) 0 (if sz > i_size inode then ucast (i_size inode) else ucast sz) 0 s0 =
      Some (Inr (True, s1))"
    using e(1) s1(1) unfolding tail_read_def ucast_if
    by (subst read_loop.simps) (simp add: read_loop.simps [of env m inode sz offset "Some n" "Suc 0" 0])
  then have "sfs_read_begin env (Some path) False sz offset s = io_register env inum m (Some (Inr (True, s1)))"
    using path inode l(1) ready n
    by (simp add: sfs_read_begin_def io_open_def io_ready_def create_job_map_def Let_def)
      (simp add: s0_def gm_def split: if_splits)
  moreover obtain s2 where "io_register env inum m (Some (Inr (True, s1))) = Some (Inr (Waits inum m, s2))"
    "started I f env m job payload h (\<lambda>p. (fill_io NFS_READ (next_job_id s0) job (i_num inode) offset ?count p)
      \<lparr>ip_read_ecode := False, ip_extent_handle := hdl\<rparr>) s s2" "io_locks s2 = l"
    using register_started [OF ready s0_def refl _ _ _ _ _ s1(2)] by (auto simp: gm_def)
  ultimately show ?thesis using l(2,3) ok0(4) by auto
qed

lemma write_begin_ok:
  assumes ready: "io_ready I f env inum job m payload s" and path: "io_inode_num env path = Some inum" "0 \<le> sint offset"
    and inode: "io_get_inode env = Inr inode" "i_extent inode = []"
    and db: "io_stat env = Some 0" "io_sfsds_mem env" "io_put_inode env" and sz: "(ucast sz :: 32 word) \<noteq> 0"
  shows "\<exists>s'. sfs_write_begin env (Some path) False sz offset s = Some (Inr (Waits inum m, s')) \<and>
    started I f env m job payload (io_accept_sfsd env) (\<lambda>p. (fill_io NFS_WRITE (next_job_id s) job (i_num inode) offset sz p)
      \<lparr>ip_data_len := sz, ip_data_buf := 0\<rparr>) s s' \<and>
    fl_inv (io_locks s') \<and> fl_abs (io_locks s') = (fl_abs (io_locks s))(inum \<mapsto> WRLOCKED) \<and>
    op_status (st_maps (cs_sfs s') m) = (op_status (st_maps (cs_sfs s) m))[0 := JOB_STARTED]"
proof -
  obtain l where l: "sfs_wrlock (io_lock_node env) (io_lock_key env) inum (io_locks s) = Inr (0, l)" "fl_inv l"
    "fl_abs l = (fl_abs (io_locks s))(inum \<mapsto> WRLOCKED)"
    using wrlock_free [of "io_locks s" inum "io_lock_node env"] ready by (auto simp: io_ready_def)
  define gm where "gm = (\<lambda>r. r\<lparr>num_jobs := 0, job_ids := [], map_lock := False, map_signals := 0,
    op_status := (op_status r)[0 := JOB_STARTED]\<rparr> :: sstack_job_map)"
  define s0 where "s0 = s\<lparr>io_locks := l, cs_sfs := upd_map m gm (cs_sfs s)\<rparr>"
  note f0 = fresh_map_ok [OF ready refl, of l s0 gm]
  have ok0: "sys_ok I f s0" "fresh_job I f job (cs_sfs s0)" "ids_left s0" "next_job_id s0 = next_job_id s"
    "jt_abs (st_jt (cs_sfs s0)) (next_job_id s0) = None"
    using f0 by (simp_all add: s0_def)
  have lock0: "\<not> map_lock (st_maps (cs_sfs s0) m)" by (simp add: s0_def upd_map_def gm_def)
  obtain s1 where s1: "write_step env m inode sz offset None 0 0 s0 = Inr (Some (sz, None), s1)"
    "issued I f env m job payload (io_accept_sfsd env) (\<lambda>p. (fill_io NFS_WRITE (next_job_id s0) job (i_num inode) offset sz p)
      \<lparr>ip_data_len := sz, ip_data_buf := 0\<rparr>) s0 s1"
    using write_step_ok [OF ok0(1-3) _ ok0(5) lock0, of env 0 payload inode sz offset 0] ready by (auto simp: io_ready_def)
  have "write_loop env m inode sz offset None 0 (ucast sz) 0 s0 = Some (Inr (True, s1))"
    using sz s1(1) by (subst write_loop.simps) (simp add: write_loop.simps [of env m inode sz offset None "Suc 0" 0])
  then have "sfs_write_begin env (Some path) False sz offset s = io_register env inum m (Some (Inr (True, s1)))"
    using path inode l(1) ready db
    by (simp add: sfs_write_begin_def io_open_def io_ready_def create_job_map_def write_extent_def Let_def)
      (simp add: s0_def gm_def upd_map_def)
  moreover obtain s2 where "io_register env inum m (Some (Inr (True, s1))) = Some (Inr (Waits inum m, s2))"
    "started I f env m job payload (io_accept_sfsd env) (\<lambda>p. (fill_io NFS_WRITE (next_job_id s0) job (i_num inode) offset sz p)
      \<lparr>ip_data_len := sz, ip_data_buf := 0\<rparr>) s s2" "io_locks s2 = l"
    "op_status (st_maps (cs_sfs s2) m) = (op_status (st_maps (cs_sfs s) m))[0 := JOB_STARTED]"
    using register_started [OF ready s0_def refl _ _ _ _ _ s1(2)] by (auto simp: gm_def)
  ultimately show ?thesis using l(2,3) ok0(4) by auto
qed

section \<open>Answers\<close>

text \<open>The state in which the waiting thread is woken up.\<close>

definition served ::
  "lane set \<Rightarrow> (lane \<Rightarrow> addr list) \<Rightarrow> addr \<Rightarrow> addr \<Rightarrow> addr \<Rightarrow> 64 word \<Rightarrow> 64 word \<Rightarrow> addr \<Rightarrow> io_response \<Rightarrow> io_state \<Rightarrow> io_state \<Rightarrow> bool" where
  "served I f m job payload h i a r s s' \<longleftrightarrow>
     sys_ok I (after_pass job f) s' \<and> lane_head (cs_sfs s') = lane_head (cs_sfs s) \<and>
     st_jt (cs_sfs s') = st_jt (cs_sfs s) \<and> st_jm (cs_sfs s') = st_jm (cs_sfs s) \<and>
     st_sent (cs_sfs s') = st_sent (cs_sfs s) @ concat (map (\<lambda>j. sends_of (st_jobs (cs_sfs s) j)) (f (Jobs 0))) @ [(h, Some payload, i)] \<and>
     job_payload (st_jobs (cs_sfs s') job) = Some a \<and> io_responses s' a = r \<and>
     (let q = st_maps (cs_sfs s') m in num_jobs q = 1 \<and> job_ids q = [i] \<and> num_jobs_left q = 0 \<and> map_signals q \<noteq> 0) \<and>
     io_locks s' = io_locks s \<and> io_payloads s' = io_payloads s \<and> cs_ids s' = cs_ids s"

lemma started_pass:
  assumes st: "started I f env m job payload h g s s1" and ready: "io_ready I f env inum job m payload s"
    and few: "length (f (Jobs 0)) < 64" and send: "\<forall>j \<in> set (f (Jobs 0)). sendable (st_jobs (cs_sfs s) j)"
  shows "\<exists>d. sfs_dispatcher (cs_sfs s1) = Inr d \<and> queues_ok I (after_pass job f) d \<and> lane_head d = lane_head (cs_sfs s1) \<and>
    st_jt d = st_jt (cs_sfs s1) \<and> st_jm d = st_jm (cs_sfs s1) \<and> st_maps d = st_maps (cs_sfs s1) \<and>
    registered d (next_job_id s) job m \<and> num_clients (st_jobs d job) = 1 \<and> sendable (st_jobs d job) \<and>
    st_sent d = st_sent (cs_sfs s1) @ concat (map (\<lambda>j. sends_of (st_jobs (cs_sfs s1) j)) (f (Jobs 0))) @ [(h, Some payload, next_job_id s)]"
proof -
  let ?jr = "(new_job h (next_job_id s))\<lparr>job_payload := Some payload\<rparr>"
  have jr: "sendable ?jr" "sends_of ?jr = [(h, Some payload, next_job_id s)]" "num_clients ?jr = 1"
    by (simp_all add: sendable_def sends_of_def new_job_def MAX_SFSD_CLIENTS_def)
  have jobs: "st_jobs (cs_sfs s1) = (st_jobs (cs_sfs s))(job := ?jr)" using st by (simp add: started_def)
  have "\<forall>j \<in> set (f (Jobs 0) @ [job]). sendable (st_jobs (cs_sfs s1) j)" using send jr(1) jobs by auto
  then obtain d where d: "sfs_dispatcher (cs_sfs s1) = Inr d" "queues_ok I (after_pass job f) d" "lane_head d = lane_head (cs_sfs s1)"
    "st_jt d = st_jt (cs_sfs s1)" "st_jm d = st_jm (cs_sfs s1)" "st_maps d = st_maps (cs_sfs s1)" "same_jobs (cs_sfs s1) d"
    "st_sent d = st_sent (cs_sfs s1) @ concat (map (\<lambda>j. sends_of (st_jobs (cs_sfs s1) j)) (f (Jobs 0) @ [job]))"
    using pass_ok [of I f job "cs_sfs s1"] st few unfolding started_def sys_ok_def by blast
  have "registered d (next_job_id s) job m"
    using d(4,5) st by (auto simp: registered_def started_def sys_ok_def trees_ok_def)
  moreover have same: "same_job ?jr (st_jobs d job)" using d(7) jobs unfolding same_jobs_def by (metis fun_upd_same)
  have "num_clients (st_jobs d job) = 1" "sendable (st_jobs d job)"
    using same_job_fields(4,8) [OF same] jr(1,3) by simp_all
  ultimately show ?thesis using d jr(2) jobs by (intro exI [of _ d]) simp
qed

lemma serve_one:
  assumes st: "started I f env m job payload h g s s1" and ready: "io_ready I f env inum job m payload s"
    and few: "length (f (Jobs 0)) < 64" and send: "\<forall>j \<in> set (f (Jobs 0)). sendable (st_jobs (cs_sfs s) j)"
    and left: "num_jobs_left (st_maps (cs_sfs s) m) = 0"
    and answer: "\<And>d. registered d (next_job_id s) job m \<Longrightarrow> num_clients (st_jobs d job) = 1 \<Longrightarrow> sendable (st_jobs d job) \<Longrightarrow>
      \<not> map_lock (st_maps d m) \<Longrightarrow> num_jobs_left (st_maps d m) = 1 \<Longrightarrow> st_maps d = st_maps (cs_sfs s1) \<Longrightarrow>
      \<exists>d'. sfs_process_payload jtk jmk (Inl 0) p d = Inr d' \<and> num_jobs_left (st_maps d' m) = 0 \<and>
        map_signals (st_maps d' m) \<noteq> 0 \<and> job_payload (st_jobs d' job) = Some (pl_addr p) \<and> answer_frame m d d'"
  shows "\<exists>s2. serve jtk jmk [(p, r)] s1 = Inr s2 \<and> served I f m job payload h (next_job_id s) (pl_addr p) r s1 s2"
proof -
  obtain d where d: "sfs_dispatcher (cs_sfs s1) = Inr d" "queues_ok I (after_pass job f) d" "lane_head d = lane_head (cs_sfs s1)"
    "st_jt d = st_jt (cs_sfs s1)" "st_jm d = st_jm (cs_sfs s1)" "st_maps d = st_maps (cs_sfs s1)"
    "registered d (next_job_id s) job m" "num_clients (st_jobs d job) = 1" "sendable (st_jobs d job)"
    "st_sent d = st_sent (cs_sfs s1) @ concat (map (\<lambda>j. sends_of (st_jobs (cs_sfs s1) j)) (f (Jobs 0))) @ [(h, Some payload, next_job_id s)]"
    using started_pass [OF st ready few send] by blast
  have map: "\<not> map_lock (st_maps d m)" "num_jobs_left (st_maps d m) = 1" "num_jobs (st_maps d m) = 1"
    "job_ids (st_maps d m) = [next_job_id s]"
    using st left d(6) by (simp_all add: started_def Let_def)
  obtain d' where d': "sfs_process_payload jtk jmk (Inl 0) p d = Inr d'" "num_jobs_left (st_maps d' m) = 0"
    "map_signals (st_maps d' m) \<noteq> 0" "job_payload (st_jobs d' job) = Some (pl_addr p)" "answer_frame m d d'"
    using answer [OF d(7-9) map(1,2) d(6)] by blast
  have "queues_ok I (after_pass job f) d'" "lane_head d' = lane_head d"
    using queues_ok_cong [OF d(2), of d'] lane_head_cong [of d' d] d'(5) by (simp_all add: answer_frame_def)
  then have "served I f m job payload h (next_job_id s) (pl_addr p) r s1 (s1\<lparr>cs_sfs := d', io_responses := (io_responses s1)(pl_addr p := r)\<rparr>)"
    using st d d' map by (simp add: served_def sys_ok_def trees_ok_def started_def answer_frame_def Let_def)
  then show ?thesis using d(1) d'(1) by (simp add: serve_def)
qed

lemma serve_read:
  assumes st: "started I f env m job payload h g s s1" and ready: "io_ready I f env inum job m payload s"
    and few: "length (f (Jobs 0)) < 64" "\<forall>j \<in> set (f (Jobs 0)). sendable (st_jobs (cs_sfs s) j)"
    and left: "num_jobs_left (st_maps (cs_sfs s) m) = 0"
    and p: "pl_command p = NFS_READ_RSP" "pl_job_id p = next_job_id s" "command_ok p = SSTACK_SUCCESS"
  shows "\<exists>s2. serve jtk jmk [(p, r)] s1 = Inr s2 \<and> served I f m job payload h (next_job_id s) (pl_addr p) r s1 s2"
proof (rule serve_one [OF st ready few left])
  fix d
  assume d: "registered d (next_job_id s) job m" "\<not> map_lock (st_maps d m)" "num_jobs_left (st_maps d m) = 1"
  then have "registered d (pl_job_id p) job m" using p(2) by simp
  from read_success_step [OF this p(1,3) d(2), of jtk jmk "Inl 0"] d(3)
  show "\<exists>d'. sfs_process_payload jtk jmk (Inl 0) p d = Inr d' \<and> num_jobs_left (st_maps d' m) = 0 \<and>
      map_signals (st_maps d' m) \<noteq> 0 \<and> job_payload (st_jobs d' job) = Some (pl_addr p) \<and> answer_frame m d d'"
    by auto
qed

lemma serve_write:
  assumes st: "started I f env m job payload h g s s1" and ready: "io_ready I f env inum job m payload s"
    and few: "length (f (Jobs 0)) < 64" "\<forall>j \<in> set (f (Jobs 0)). sendable (st_jobs (cs_sfs s) j)"
    and left: "num_jobs_left (st_maps (cs_sfs s) m) = 0"
    and p: "pl_command p = NFS_WRITE_RSP" "pl_job_id p = next_job_id s" "command_ok p = SSTACK_SUCCESS"
    and ops: "op_status (st_maps (cs_sfs s1) m) \<noteq> []" "op_status (st_maps (cs_sfs s1) m) ! 0 \<noteq> JOB_FAILED"
  shows "\<exists>s2. serve jtk jmk [(p, r)] s1 = Inr s2 \<and> served I f m job payload h (next_job_id s) (pl_addr p) r s1 s2"
proof (rule serve_one [OF st ready few left])
  fix d
  assume d: "registered d (next_job_id s) job m" "num_clients (st_jobs d job) = 1" "sendable (st_jobs d job)"
    "\<not> map_lock (st_maps d m)" "num_jobs_left (st_maps d m) = 1" "st_maps d = st_maps (cs_sfs s1)"
  then have "registered d (pl_job_id p) job m" "op_status (st_maps d m) \<noteq> []" "op_status (st_maps d m) ! 0 \<noteq> JOB_FAILED" using p(2) ops by simp_all
  from write_single_client_completes [OF this(1) p(1,3) d(2-5) this(2,3), of jtk jmk "Inl 0"]
  show "\<exists>d'. sfs_process_payload jtk jmk (Inl 0) p d = Inr d' \<and> num_jobs_left (st_maps d' m) = 0 \<and>
      map_signals (st_maps d' m) \<noteq> 0 \<and> job_payload (st_jobs d' job) = Some (pl_addr p) \<and> answer_frame m d d'"
    by auto
qed

section \<open>After the wait\<close>

lemma job_of_registered:
  assumes "jt_inv (st_jt d)" "jt_abs (st_jt d) i = Some (tid, Some job)"
  shows "job_of jtk i d = Inr job"
  using jt.search_ok [of "jobid_tree (st_jt d)" "jtk\<lparr>jt_magic := JTNODE_MAGIC, jt_job_id := i\<rparr>"] assms
  by (auto simp: job_of_def jt_inv_def jt_abs_def jt_valid_def)

lemma sent_before_job:
  assumes "started I f env m job payload h g s s1" "job \<notin> set js"
  shows "concat (map (\<lambda>j. sends_of (st_jobs (cs_sfs s1) j)) js) = concat (map (\<lambda>j. sends_of (st_jobs (cs_sfs s) j)) js)"
    "st_sent (cs_sfs s1) = st_sent (cs_sfs s)"
proof -
  have "map (\<lambda>j. sends_of (st_jobs (cs_sfs s1) j)) js = map (\<lambda>j. sends_of (st_jobs (cs_sfs s) j)) js"
    using assms by (auto simp: started_def)
  then show "concat (map (\<lambda>j. sends_of (st_jobs (cs_sfs s1) j)) js) = concat (map (\<lambda>j. sends_of (st_jobs (cs_sfs s) j)) js)"
    by (rule arg_cong)
qed (use assms(1) in \<open>simp add: started_def\<close>)

text \<open>The trees and the lock table as they were, and everything that was queued pending.\<close>

definition finished :: "lane set \<Rightarrow> (lane \<Rightarrow> addr list) \<Rightarrow> addr \<Rightarrow> io_state \<Rightarrow> io_state \<Rightarrow> bool" where
  "finished I f job s s' \<longleftrightarrow> sys_ok I (after_pass job f) s' \<and> lane_head (cs_sfs s') = lane_head (cs_sfs s) \<and>
     jt_abs (st_jt (cs_sfs s')) = jt_abs (st_jt (cs_sfs s)) \<and> jm_abs (st_jm (cs_sfs s')) = jm_abs (st_jm (cs_sfs s)) \<and>
     fl_inv (io_locks s') \<and> fl_abs (io_locks s') = fl_abs (io_locks s)"

lemma served_finish:
  assumes ready: "io_ready I f env inum job m payload s" and st: "started I f env m job payload h g s s1"
    and l: "fl_inv (io_locks s1)" "fl_abs (io_locks s1) = (fl_abs (io_locks s))(inum \<mapsto> lk)"
    and sv: "served I f m job payload h (next_job_id s) a r s1 s2"
  shows "response_of env m 0 s2 = Inr (next_job_id s, r)"
    "\<exists>s3 s4. forget_job env (next_job_id s) s2 = Inr s3 \<and> io_close env inum s3 = Inr s4 \<and> finished I f job s s4 \<and>
      io_payloads s4 = io_payloads s1 \<and> st_sent (cs_sfs s4) = st_sent (cs_sfs s2)"
proof -
  have s2: "sys_ok I (after_pass job f) s2" "lane_head (cs_sfs s2) = lane_head (cs_sfs s)"
    "jt_abs (st_jt (cs_sfs s2)) = (jt_abs (st_jt (cs_sfs s)))(next_job_id s \<mapsto> (io_thread_id env, Some job))"
    "jm_abs (st_jm (cs_sfs s2)) = (jm_abs (st_jm (cs_sfs s)))(io_thread_id env \<mapsto> Some m)"
    "job_ids (st_maps (cs_sfs s2) m) = [next_job_id s]" "job_payload (st_jobs (cs_sfs s2) job) = Some a" "io_responses s2 a = r"
    "io_locks s2 = io_locks s1" "io_payloads s2 = io_payloads s1"
    using st sv by (simp_all add: started_def served_def Let_def)
  have inv: "jt_inv (st_jt (cs_sfs s2))" "jm_inv (st_jm (cs_sfs s2))" using s2(1) by (simp_all add: sys_ok_def trees_ok_def)
  have "job_of (io_jt_key env) (next_job_id s) (cs_sfs s2) = Inr job"
    using job_of_registered [OF inv(1)] s2(3) by simp
  then show "response_of env m 0 s2 = Inr (next_job_id s, r)" using s2 by (simp add: response_of_def Let_def)
  obtain jt where jt: "sfs_job2thread_map_remove (io_jt_key env) (next_job_id s) (st_jt (cs_sfs s2)) = Inr jt" "jt_inv jt"
    "jt_abs jt = jt_abs (st_jt (cs_sfs s))"
    using jt_remove [OF inv(1), of "io_jt_key env" "next_job_id s"] s2(3) ready by (auto simp: io_ready_def fun_eq_iff)
  obtain jm where jm: "sfs_job_context_remove (io_jm_key env) (io_thread_id env) (st_jm (cs_sfs s2)) = Inr jm" "jm_inv jm"
    "jm_abs jm = jm_abs (st_jm (cs_sfs s))"
    using jm_remove [OF inv(2), of "io_jm_key env" "io_thread_id env"] s2(4) ready by (auto simp: io_ready_def fun_eq_iff)
  obtain l' where l': "sfs_unlock (io_lock_key env) inum (io_locks s2) = Inr (0, l')" "fl_inv l'" "fl_abs l' = fl_abs (io_locks s)"
    using unlock_held [of "io_locks s2" inum "io_lock_key env"] l s2(8) ready by (auto simp: io_ready_def fun_eq_iff)
  define d where "d = (cs_sfs s2)\<lparr>st_jt := jt, st_jm := jm\<rparr>"
  define s3 where "s3 = upd_sfs (\<lambda>d. d\<lparr>st_jt := jt\<rparr>) s2"
  define s4 where "s4 = (upd_sfs (\<lambda>d. d\<lparr>st_jm := jm\<rparr>) s3)\<lparr>io_locks := l'\<rparr>"
  have d: "cs_sfs s4 = d" by (simp add: s4_def s3_def upd_sfs_def d_def)
  have "queues_ok I (after_pass job f) d"
    by (rule queues_ok_cong [of I _ "cs_sfs s2"]) (use s2(1) in \<open>simp_all add: sys_ok_def d_def\<close>)
  moreover have "lane_head d = lane_head (cs_sfs s2)" by (rule lane_head_cong) (simp_all add: d_def)
  ultimately have "sys_ok I (after_pass job f) s4" "lane_head (cs_sfs s4) = lane_head (cs_sfs s)"
    using s2(1,2) jt(2) jm(2) d by (simp_all add: sys_ok_def trees_ok_def d_def s4_def s3_def upd_sfs_def)
  moreover have "forget_job env (next_job_id s) s2 = Inr s3" using jt(1) by (simp add: forget_job_def s3_def)
  moreover have "io_close env inum s3 = Inr s4"
    using jm(1) l'(1) by (simp add: io_close_def unlock_inode_def s3_def s4_def upd_sfs_def)
  moreover have "jt_abs (st_jt (cs_sfs s4)) = jt_abs (st_jt (cs_sfs s))" "jm_abs (st_jm (cs_sfs s4)) = jm_abs (st_jm (cs_sfs s))"
    "fl_inv (io_locks s4)" "fl_abs (io_locks s4) = fl_abs (io_locks s)" "io_payloads s4 = io_payloads s1"
    "st_sent (cs_sfs s4) = st_sent (cs_sfs s2)"
    using jt(3) jm(3) l'(2,3) s2(9) by (simp_all add: s4_def s3_def upd_sfs_def)
  ultimately show "\<exists>s3 s4. forget_job env (next_job_id s) s2 = Inr s3 \<and> io_close env inum s3 = Inr s4 \<and> finished I f job s s4 \<and>
      io_payloads s4 = io_payloads s1 \<and> st_sent (cs_sfs s4) = st_sent (cs_sfs s2)"
    unfolding finished_def by blast
qed

text \<open>
  A read from an offset to the end of an extent, asked for with a larger size, runs to its
  end when the sfsd answers it with success: one job goes to the primary sfsd with the
  handle of the extent and the number of bytes up to its end, the answer wakes the thread
  up, and the read returns the number of bytes answered, which are at the start of the
  buffer.  Afterwards both trees and the lock table are as before.
\<close>

lemma read_done:
  assumes "io_ready I f env inum job m payload s" "io_inode_num env path = Some inum" "0 \<le> sint offset"
    "io_get_inode env = Inr inode" "i_primary inode = Some (Some h)" "tail_read inode sz offset e" "e_path e = Some hdl"
    "length (f (Jobs 0)) < 64" "\<forall>j \<in> set (f (Jobs 0)). sendable (st_jobs (cs_sfs s) j)"
    "num_jobs_left (st_maps (cs_sfs s) m) = 0"
    "pl_command p = NFS_READ_RSP" "pl_job_id p = next_job_id s" "command_ok p = SSTACK_SUCCESS"
    "length (rsp_data r) \<le> length buf" "length (rsp_data r) < 2 ^ 31"
  shows "\<exists>s'. sfs_read jtk jmk env (Some path) buf sz offset [(p, r)] s =
      Some (Inr (Some (int (length (rsp_data r)), rsp_data r @ drop (length (rsp_data r)) buf), s')) \<and>
    finished I f job s s' \<and>
    st_sent (cs_sfs s') = st_sent (cs_sfs s) @ concat (map (\<lambda>j. sends_of (st_jobs (cs_sfs s) j)) (f (Jobs 0))) @ [(h, Some payload, next_job_id s)] \<and>
    io_payloads s' payload = (fill_io NFS_READ (next_job_id s) job (i_num inode) offset (e_offset e + e_size e - offset) payload_zero)
      \<lparr>ip_read_ecode := False, ip_extent_handle := hdl\<rparr>"
proof -
  let ?g = "\<lambda>p. (fill_io NFS_READ (next_job_id s) job (i_num inode) offset (e_offset e + e_size e - offset) p)
      \<lparr>ip_read_ecode := False, ip_extent_handle := hdl\<rparr>"
  obtain s1 where s1: "sfs_read_begin env (Some path) False sz offset s = Some (Inr (Waits inum m, s1))"
    "started I f env m job payload h ?g s s1" "fl_inv (io_locks s1)" "fl_abs (io_locks s1) = (fl_abs (io_locks s))(inum \<mapsto> RDLOCKED)"
    using read_begin_ok [OF assms(1-7)] by blast
  obtain s2 where s2: "serve jtk jmk [(p, r)] s1 = Inr s2" "served I f m job payload h (next_job_id s) (pl_addr p) r s1 s2"
    using serve_read [OF s1(2) assms(1,8-13)] by blast
  note fin = served_finish [OF assms(1) s1(2-4) s2(2)]
  obtain s3 s4 where s4: "forget_job env (next_job_id s) s2 = Inr s3" "io_close env inum s3 = Inr s4" "finished I f job s s4"
    "io_payloads s4 = io_payloads s1" "st_sent (cs_sfs s4) = st_sent (cs_sfs s2)"
    using fin(2) by blast
  have map: "num_jobs (st_maps (cs_sfs s2) m) = 1" "num_jobs_left (st_maps (cs_sfs s2) m) = 0" "map_signals (st_maps (cs_sfs s2) m) \<noteq> 0"
    using s2(2) by (simp_all add: served_def Let_def)
  have "sint (of_nat (length (rsp_data r)) :: 32 word) = int (length (rsp_data r))"
    using assms(15) by (intro sint_of_nat_small) simp
  then have "sfs_read_finish env inum m buf s2 = Inr (int (length (rsp_data r)), rsp_data r @ drop (length (rsp_data r)) buf, s4)"
    using map fin(1) s4(1,2) assms(14) by (simp add: sfs_read_finish_def sfs_send_read_status_def Let_def)
  then have "sfs_read jtk jmk env (Some path) buf sz offset [(p, r)] s =
      Some (Inr (Some (int (length (rsp_data r)), rsp_data r @ drop (length (rsp_data r)) buf), s4))"
    using s1(1) s2(1) map(3) by (simp add: sfs_read_def)
  moreover have "io_payloads s4 payload = ?g payload_zero" using s4(4) s1(2) by (simp add: started_def)
  moreover have "job \<notin> set (f (Jobs 0))"
    using assms(1) by (auto simp: io_ready_def fresh_job_def sys_ok_def queues_ok_def disp_inv_def)
  then have "st_sent (cs_sfs s4) = st_sent (cs_sfs s) @ concat (map (\<lambda>j. sends_of (st_jobs (cs_sfs s) j)) (f (Jobs 0))) @ [(h, Some payload, next_job_id s)]"
    using s4(5) s2(2) sent_before_job [OF s1(2)] by (simp add: served_def)
  ultimately show ?thesis using s4(3) by blast
qed

text \<open>
  The first write to a file runs to its end when the sfsd answers it with success: one job
  carries the whole buffer to the accepted sfsd, and the write returns the number of bytes
  that the answer reports as written.  Afterwards both trees and the lock table are as before.
\<close>

lemma first_write_done:
  assumes "io_ready I f env inum job m payload s" "io_inode_num env path = Some inum" "0 \<le> sint offset"
    "io_get_inode env = Inr inode" "i_extent inode = []" "io_stat env = Some 0" "io_sfsds_mem env" "io_put_inode env"
    "(ucast sz :: 32 word) \<noteq> 0"
    "length (f (Jobs 0)) < 64" "\<forall>j \<in> set (f (Jobs 0)). sendable (st_jobs (cs_sfs s) j)"
    "num_jobs_left (st_maps (cs_sfs s) m) = 0" "op_status (st_maps (cs_sfs s) m) \<noteq> []"
    "pl_command p = NFS_WRITE_RSP" "pl_job_id p = next_job_id s" "command_ok p = SSTACK_SUCCESS"
    "rsp_command_ok r = SSTACK_SUCCESS"
  shows "\<exists>s'. sfs_write jtk jmk env (Some path) sz offset [(p, r)] s = Some (Inr (Some (sint (rsp_file_wc r)), s')) \<and>
    finished I f job s s' \<and>
    st_sent (cs_sfs s') = st_sent (cs_sfs s) @ concat (map (\<lambda>j. sends_of (st_jobs (cs_sfs s) j)) (f (Jobs 0))) @
      [(io_accept_sfsd env, Some payload, next_job_id s)] \<and>
    io_payloads s' payload = (fill_io NFS_WRITE (next_job_id s) job (i_num inode) offset sz payload_zero)\<lparr>ip_data_len := sz, ip_data_buf := 0\<rparr>"
proof -
  let ?g = "\<lambda>p. (fill_io NFS_WRITE (next_job_id s) job (i_num inode) offset sz p)\<lparr>ip_data_len := sz, ip_data_buf := 0\<rparr>"
  obtain s1 where s1: "sfs_write_begin env (Some path) False sz offset s = Some (Inr (Waits inum m, s1))"
    "started I f env m job payload (io_accept_sfsd env) ?g s s1" "fl_inv (io_locks s1)"
    "fl_abs (io_locks s1) = (fl_abs (io_locks s))(inum \<mapsto> WRLOCKED)"
    "op_status (st_maps (cs_sfs s1) m) = (op_status (st_maps (cs_sfs s) m))[0 := JOB_STARTED]"
    using write_begin_ok [OF assms(1-9)] by blast
  have "op_status (st_maps (cs_sfs s1) m) \<noteq> []" "op_status (st_maps (cs_sfs s1) m) ! 0 \<noteq> JOB_FAILED" using s1(5) assms(13) by simp_all
  then obtain s2 where s2: "serve jtk jmk [(p, r)] s1 = Inr s2"
    "served I f m job payload (io_accept_sfsd env) (next_job_id s) (pl_addr p) r s1 s2"
    using serve_write [OF s1(2) assms(1,10-12,14-16)] by blast
  note fin = served_finish [OF assms(1) s1(2-4) s2(2)]
  obtain s3 s4 where s4: "forget_job env (next_job_id s) s2 = Inr s3" "io_close env inum s3 = Inr s4" "finished I f job s s4"
    "io_payloads s4 = io_payloads s1" "st_sent (cs_sfs s4) = st_sent (cs_sfs s2)"
    using fin(2) by blast
  have map: "num_jobs (st_maps (cs_sfs s2) m) = 1" "map_signals (st_maps (cs_sfs s2) m) \<noteq> 0"
    using s2(2) by (simp_all add: served_def Let_def)
  then have "sfs_write_finish env inum m s2 = Inr (sint (rsp_file_wc r), s4)"
    using fin(1) s4(1,2) assms(17) by (simp add: sfs_write_finish_def sfs_send_write_status_def)
  then have "sfs_write jtk jmk env (Some path) sz offset [(p, r)] s = Some (Inr (Some (sint (rsp_file_wc r)), s4))"
    using s1(1) s2(1) map(2) by (simp add: sfs_write_def)
  moreover have "io_payloads s4 payload = ?g payload_zero" using s4(4) s1(2) by (simp add: started_def)
  moreover have "job \<notin> set (f (Jobs 0))"
    using assms(1) by (auto simp: io_ready_def fresh_job_def sys_ok_def queues_ok_def disp_inv_def)
  then have "st_sent (cs_sfs s4) = st_sent (cs_sfs s) @ concat (map (\<lambda>j. sends_of (st_jobs (cs_sfs s) j)) (f (Jobs 0))) @
      [(io_accept_sfsd env, Some payload, next_job_id s)]"
    using s4(5) s2(2) sent_before_job [OF s1(2)] by (simp add: served_def)
  ultimately show ?thesis using s4(3) by blast
qed

section \<open>Requests that cannot end\<close>

text \<open>A request that fails, crashes or never ends, but never waits for an answer.\<close>

definition rejects :: "io_result \<Rightarrow> bool" where
  "rejects x \<longleftrightarrow>
     (case x of
        None \<Rightarrow> True
      | Some (Inl c) \<Rightarrow> True
      | Some (Inr (Returns r, s)) \<Rightarrow> r < 0
      | Some (Inr (Waits i m, s)) \<Rightarrow> False)"

lemma rejects_fail [simp]: "rejects (io_fail env inum s)"
  by (auto simp: rejects_def io_fail_def split: sum.split io_progress.split)
    (auto simp: exec_bind_Inr_iff)

lemma rejects_return [simp]: "r < 0 \<Longrightarrow> rejects (io_return r s)"
  by (simp add: rejects_def io_return_def)

lemma rejects_crash [simp]: "rejects (Some (Inl c))" "rejects None"
  by (simp_all add: rejects_def)

lemma rejects_register:
  assumes "\<And>s. r \<noteq> Some (Inr (True, s))"
  shows "rejects (io_register env inum m r)"
  using assms by (auto simp: io_register_def split: option.split sum.split bool.split)

lemma rejects_open:
  assumes "\<And>inum inode s. io_get_inode env = Inr inode \<Longrightarrow> rejects (rest inum inode s)"
  shows "rejects (io_open lock env path b offset rest s)"
  using assms by (auto simp: io_open_def Let_def split: option.split sum.split)

lemma read_step_size:
  assumes "read_step env m inode sz offset extent k s = Inr (Some z, s')"
  shows "\<exists>e. deref_extent (i_extent inode) extent = Inr e \<and> z = read_size_of sz offset e"
  using assms unfolding read_step_def Let_def
  by (fastforce simp: exec_bind_Inr_iff split: option.split_asm if_split_asm prod.split_asm)

lemma read_loop_stuck:
  assumes ret: "read_loop env m inode sz offset extent k b 0 s = Some res" and b: "b \<noteq> 0"
    and e: "deref_extent (i_extent inode) extent = Inr e" "read_size_of sz offset e = 0"
  shows "res \<noteq> Inr (True, s')"
proof -
  have "deref_extent (i_extent inode) extent = Inr e \<and> read_size_of sz offset e = 0 \<and> b \<noteq> 0 \<and> (0 :: 64 word) = 0 \<longrightarrow> res \<noteq> Inr (True, s')"
  proof (rule read_loop.raw_induct [where P = "\<lambda>env m inode sz offset extent k b i s res.
      deref_extent (i_extent inode) extent = Inr e \<and> read_size_of sz offset e = 0 \<and> b \<noteq> 0 \<and> i = 0 \<longrightarrow> res \<noteq> Inr (True, s')", OF _ ret])
    fix loop env m inode sz offset extent k b i s res
    assume IH: "\<And>env m inode sz offset extent k b i s res. loop env m inode sz offset extent k b i s = Some res \<Longrightarrow>
        deref_extent (i_extent inode) extent = Inr e \<and> read_size_of sz offset e = 0 \<and> b \<noteq> 0 \<and> i = 0 \<longrightarrow> res \<noteq> Inr (True, s')"
      and eq: "(if b = 0 then Some (Inr (True, s))
        else case read_step env m inode sz offset extent k s of
          Inl c \<Rightarrow> Some (Inl c)
        | Inr (None, s) \<Rightarrow> Some (Inr (False, s))
        | Inr (Some read_size, s) \<Rightarrow>
            loop env m inode sz offset extent (Suc k) (b - ucast (i + read_size)) (i + read_size) s) = Some res"
    show "deref_extent (i_extent inode) extent = Inr e \<and> read_size_of sz offset e = 0 \<and> b \<noteq> 0 \<and> i = 0 \<longrightarrow> res \<noteq> Inr (True, s')"
    proof
      assume h: "deref_extent (i_extent inode) extent = Inr e \<and> read_size_of sz offset e = 0 \<and> b \<noteq> 0 \<and> i = 0"
      show "res \<noteq> Inr (True, s')"
        using eq h IH read_step_size [of env m inode sz offset extent k s]
        by (auto split: sum.splits option.splits prod.splits)
    qed
  qed
  then show ?thesis using b e by simp
qed

text \<open>
  C40: A read that lies inside an extent is never answered: every round of the loop issues a job for
  0 bytes and leaves the number of bytes to read as it is, so that the request can only fail,
  crash or go on for ever.
\<close>

theorem read_inside_extent_never_done:
  assumes "io_get_inode env = Inr inode" "read_extent offset 0 None (i_extent inode) = Some n" "n < length (i_extent inode)"
    "offset + sz \<le> e_offset (i_extent inode ! n) + e_size (i_extent inode ! n)"
    "(ucast sz :: 32 word) \<noteq> 0" "(ucast (i_size inode) :: 32 word) \<noteq> 0"
  shows "rejects (sfs_read_begin env path b sz offset s)"
proof -
  have size: "read_size_of sz offset (i_extent inode ! n) = 0" using assms(4) by (simp add: read_size_of_def linorder_not_less [symmetric])
  have "read_loop env m inode sz offset (Some n) 0 (if sz > i_size inode then ucast (i_size inode) else ucast sz) 0 s0 \<noteq>
      Some (Inr (True, s'))" for m s0 s'
    using read_loop_stuck [of env m inode sz offset "Some n" 0 "if sz > i_size inode then ucast (i_size inode) else ucast sz" s0
        "Inr (True, s')" "i_extent inode ! n" s'] assms size
    by (auto simp: deref_extent_def)
  then show ?thesis
    unfolding sfs_read_begin_def using assms(1,2)
    by (intro rejects_open) (auto simp: Let_def split: prod.split option.split intro!: rejects_register)
qed

lemma write_step_size:
  assumes "write_step env m inode sz offset extent k i s = Inr (Some (z, x), s')"
  shows "write_size_of sz offset (i_extent inode) extent = Inr z \<and> next_extent sz offset (i_extent inode) extent = Inr x"
  using assms unfolding write_step_def Let_def
  by (fastforce simp: exec_bind_Inr_iff split: option.split_asm if_split_asm prod.split_asm)

lemma write_loop_stuck:
  assumes ret: "write_loop env m inode sz offset extent k b 0 s = Some res" and b: "b \<noteq> 0" "(ucast sz :: 32 word) \<noteq> 0"
    and e: "write_size_of sz offset (i_extent inode) extent = Inr 0" "next_extent sz offset (i_extent inode) extent = Inr extent"
  shows "res \<noteq> Inr (True, s')"
proof -
  define stays where "stays \<equiv> \<lambda>(inode :: sstack_inode) sz offset extent (b :: 32 word) (i :: 64 word). b \<noteq> 0 \<and> (ucast sz :: 32 word) \<noteq> 0 \<and> i = 0 \<and>
    write_size_of sz offset (i_extent inode) extent = Inr 0 \<and> next_extent sz offset (i_extent inode) extent = Inr extent"
  have "stays inode sz offset extent b 0 \<longrightarrow> res \<noteq> Inr (True, s')"
  proof (rule write_loop.raw_induct [where P = "\<lambda>env m inode sz offset extent k b i s res.
      stays inode sz offset extent b i \<longrightarrow> res \<noteq> Inr (True, s')", OF _ ret])
    fix loop env m inode sz offset extent k and b :: "32 word" and i s res
    assume IH: "\<And>env m inode sz offset extent k b i s res. loop env m inode sz offset extent k b i s = Some res \<Longrightarrow>
        stays inode sz offset extent b i \<longrightarrow> res \<noteq> Inr (True, s')"
      and eq: "(if b = 0 then Some (Inr (True, s))
        else case write_step env m inode sz offset extent k i s of
          Inl c \<Rightarrow> Some (Inl c)
        | Inr (None, s) \<Rightarrow> Some (Inr (False, s))
        | Inr (Some (write_size, extent), s) \<Rightarrow>
            loop env m inode sz offset extent (Suc k) (ucast (sz - (i + write_size))) (i + write_size) s) = Some res"
    show "stays inode sz offset extent b i \<longrightarrow> res \<noteq> Inr (True, s')"
    proof
      assume h: "stays inode sz offset extent b i"
      have go: "stays inode sz offset x (ucast (sz - (i + z))) (i + z)"
        if "write_step env m inode sz offset extent k i s = Inr (Some (z, x), s1)" for z x s1
        using write_step_size [OF that] h by (simp add: stays_def)
      show "res \<noteq> Inr (True, s')"
        using eq h IH go by (auto simp: stays_def split: sum.splits option.splits prod.splits)
    qed
  qed
  then show ?thesis using b e by (simp add: stays_def)
qed

text \<open>
  A write that lies inside the first extent is never answered either: every job carries 0 bytes,
  and the number of bytes to write stays what it is.
\<close>

theorem write_inside_extent_never_done:
  assumes "io_get_inode env = Inr inode" "write_extent offset (i_extent inode) = Some n" "n < length (i_extent inode)"
    "offset + sz \<le> e_offset (i_extent inode ! n) + e_size (i_extent inode ! n)" "(ucast sz :: 32 word) \<noteq> 0"
  shows "rejects (sfs_write_begin env path b sz offset s)"
proof -
  have not: "\<not> e_offset (i_extent inode ! n) + e_size (i_extent inode ! n) < offset + sz" using assms(4) by simp
  have "write_loop env m inode sz offset (Some n) 0 (ucast sz) 0 s0 \<noteq> Some (Inr (True, s'))" for m s0 s'
    using write_loop_stuck [of env m inode sz offset "Some n" 0 "ucast sz" s0 "Inr (True, s')" s'] assms not
    by (auto simp: deref_extent_def write_size_of_def next_extent_def read_size_of_def)
  then show ?thesis
    unfolding sfs_write_begin_def using assms(1,2)
    by (intro rejects_open) (auto simp: Let_def split: prod.split option.split intro!: rejects_register)
qed

section \<open>Concrete requests\<close>

definition sample_inode :: "sstack_extent list \<Rightarrow> sstack_inode" where
  "sample_inode es = \<lparr>i_lock = False, i_num = 11, i_size = 5, i_replicas = 1, i_numclients = 1, i_primary = Some (Some 40), i_sfsds_null = False, i_extent = es\<rparr>"

definition sample_handle :: file_handle where
  "sample_handle = \<lparr>fh_name_len = 6, fh_name = ''/x/y-f'', fh_proto = NFS, fh_address = \<lparr>na_protocol = IPV4, na_address = ''10.0.0.1''\<rparr>\<rparr>"

definition sample_extent :: sstack_extent where
  "sample_extent = \<lparr>e_offset = 0, e_size = 5, e_sizeondisk = 5, e_cksum = 0, e_numreplicas = 1, e_path = Some sample_handle\<rparr>"

definition sample_io :: io_state where
  "sample_io =
     \<lparr>cs_sfs = (sample_sfs 1 \<lparr>nxt = id, prv = id\<rparr>)\<lparr>st_jt := sample_jt, st_jm := sample_jm,
        st_maps := (\<lambda>_. \<lparr>err_no = 0, num_jobs = 0, num_jobs_left = 0, job_ids = [], op_status = [JOB_INIT, JOB_INIT], map_lock = False,
          map_signals = 0\<rparr>)\<rparr>, cs_ids = ji_init, io_locks = fl_init,
      io_payloads = (\<lambda>_. payload_zero),
      io_responses = (\<lambda>_. \<lparr>rsp_command_ok = 0, rsp_data = [], rsp_file_wc = 0\<rparr>), io_errno = 0\<rparr>"

definition sample_io_env :: "sstack_extent list \<Rightarrow> io_env" where
  "sample_io_env es =
     \<lparr>io_inode_num = (\<lambda>_. Some 11), io_lock_node = Some fl_n0, io_lock_key = fl_n0, io_inode_mem = True,
      io_get_inode = Inr (sample_inode es), io_stat = Some 0, io_sfsds_mem = True, io_put_inode = True, io_accept_sfsd = 41,
      io_thread_id = 5, io_job_map = Some 9,
      io_jobs = (\<lambda>_. \<lparr>je_job = Some 7, je_payload = Some 70, je_job_ids = True, je_job_status = True, je_jt_node = Some sample_jtk\<rparr>),
      io_jm_node = Some sample_jmk, io_jt_key = sample_jtk, io_jm_key = sample_jmk\<rparr>"

definition sample_reply :: "sstack_command \<Rightarrow> sstack_payload" where
  "sample_reply c = (sample_response c 100)\<lparr>pl_job_id := 1\<rparr>"

lemma sample_io_id: "next_job_id sample_io = 1"
  by (simp add: next_job_id_def sample_io_def ji_init_def)

lemma sample_io_ready: "io_ready {Jobs 0, Pending 0} (\<lambda>_. []) (sample_io_env es) 11 7 9 70 sample_io"
proof -
  have "sys_ok {Jobs 0, Pending 0} (\<lambda>_. []) sample_io"
    using sample_jt(1) sample_jm(1) ji_ok_init
    by (simp add: sys_ok_def queues_ok_def disp_inv_def trees_ok_def lists_in_def dlist_def sample_io_def sample_sfs_def
        sample_queues_def) (simp add: ji_init_def)
  moreover have "fl_inv (io_locks sample_io)" "fl_abs (io_locks sample_io) 11 = None"
    using fl_good_init by (simp_all add: sample_io_def fl_good_def) (simp add: fl_abs_def fl_init_def rb_new_def)
  ultimately show ?thesis
    using sample_jt(2) sample_jm(2)
    by (simp add: io_ready_def je_ok_def sample_io_env_def fresh_job_def)
      (simp add: ids_left_def sample_io_def sample_sfs_def sample_queues_def ji_init_def MAX_OUTSTANDING_JOBS_def)
qed

theorem read_inside_extent_never_done_witness:
  "rejects (sfs_read_begin (sample_io_env [sample_extent]) (Some ''/f'') False 3 1 sample_io)"
  using read_inside_extent_never_done [of "sample_io_env [sample_extent]" "sample_inode [sample_extent]" 1 0 3 "Some ''/f''" False sample_io]
  by (simp add: sample_io_env_def sample_inode_def sample_extent_def covers_def)

theorem write_inside_extent_never_done_witness:
  "rejects (sfs_write_begin (sample_io_env [sample_extent]) (Some ''/f'') False 3 1 sample_io)"
  using write_inside_extent_never_done [of "sample_io_env [sample_extent]" "sample_inode [sample_extent]" 1 0 3 "Some ''/f''" False sample_io]
  by (simp add: sample_io_env_def sample_inode_def sample_extent_def covers_def write_extent_def)

end
