(* ===== verification/Chunk_Domain.thy ===== *)
theory Chunk_Domain
  imports Metadata
begin

text \<open>
  The chunk domain of an sfsd (\<^verbatim>\<open>sfsd/src/sfsd_chunk.c\<close>): the storage devices it has mounted, the
  round robin scheduler, and the mount point of an extent.  Character arrays are the
  strings they hold.  Creating a mount point and mounting are arguments.
\<close>

section \<open>Types\<close>

definition MAX_MOUNT_POINT_LEN :: nat where "MAX_MOUNT_POINT_LEN = 16"

record sfsd_storage =
  sg_path :: string
  sg_mount_point :: string
  sg_weight :: "32 word"
  sg_nblocks :: "64 word"
  sg_protocol :: sfs_protocol
  sg_address :: net_address

text \<open>
  The domain; \<open>cd_storage\<close> is the array at \<^verbatim>\<open>storage\<close>, or \<open>None\<close> where the pointer is null or
  dangling.  \<open>cd_next\<close> is the static variable of the scheduler.
\<close>

record chunk_domain =
  cd_num_chunks :: "32 word"
  cd_size_in_blks :: "64 word"
  cd_storage :: "sfsd_storage list option"
  cd_next :: "32 word"

text \<open>\<^verbatim>\<open>strstr\<close> with a result that is not null.\<close>

fun prefix_of :: "string \<Rightarrow> string \<Rightarrow> bool" where
  "prefix_of [] ys = True"
| "prefix_of (x # xs) [] = False"
| "prefix_of (x # xs) (y # ys) = (x = y \<and> prefix_of xs ys)"

fun strstr :: "string \<Rightarrow> string \<Rightarrow> bool" where
  "strstr [] p = (p = [])"
| "strstr (x # xs) p = (prefix_of p (x # xs) \<or> strstr xs p)"

section \<open>Operations\<close>

definition sfsd_chunk_domain_init :: "bool \<Rightarrow> bool \<Rightarrow> 32 word \<Rightarrow> chunk_domain option" where
  "sfsd_chunk_domain_init sfsd_null mem next =
     (if sfsd_null \<or> \<not> mem then None
      else Some \<lparr>cd_num_chunks = 0, cd_size_in_blks = 0, cd_storage = None, cd_next = next\<rparr>)"

text \<open>
  The arguments of \<^verbatim>\<open>mount\<close> are put together in two arrays, \<^verbatim>\<open>source\<close> of \<^verbatim>\<open>PATH_MAX + 20\<close> characters and \<^verbatim>\<open>arguments\<close>
  of 256, which have room for the texts and their final zeros.
\<close>

definition mount_args_fit :: "sfsd_storage \<Rightarrow> bool" where
  "mount_args_fit st \<longleftrightarrow>
     (let address = na_address (sg_address st) in
      length address + 1 + length (sg_path st) < 4096 + 20 \<and> length ''addr='' + length address < 256)"

text \<open>
  \<open>mnt\<close> is the mount point that \<^verbatim>\<open>mkdtemp\<close> makes, \<open>mounted\<close> the outcome of \<^verbatim>\<open>mount\<close> and \<open>mem\<close> those of \<^verbatim>\<open>calloc\<close> and of \<^verbatim>\<open>strdup\<close>;
  without memory for the array the code frees a mount point that is on the stack.  The existing devices are copied
  into the new array.
\<close>

definition sfsd_add_chunk ::
  "string option \<Rightarrow> bool \<Rightarrow> bool \<times> bool \<Rightarrow> chunk_domain option \<Rightarrow> sfsd_storage option \<Rightarrow> (string option \<times> chunk_domain option) exec" where
  "sfsd_add_chunk mnt mounted mem chunk storage =
     (case (chunk, storage) of
        (Some c, Some st) \<Rightarrow>
          if sg_protocol st \<noteq> NFS then Inr (None, chunk)
          else
            (case mnt of None \<Rightarrow> Inr (None, chunk) | Some path \<Rightarrow>
             if \<not> mount_args_fit st then Inl Bad_Access
             else if \<not> mounted then Inr (None, chunk)
             else if \<not> fst mem then Inl Undefined
             else
               let n = unat (cd_num_chunks c); st = st\<lparr>sg_mount_point := take MAX_MOUNT_POINT_LEN path\<rparr> in
               exec_bind
                 (if n = 0 then Inr []
                  else case cd_storage c of None \<Rightarrow> Inl Null_Deref | Some xs \<Rightarrow>
                    if n \<le> length xs then Inr (take n xs) else Inl Bad_Access) (\<lambda>xs.
               Inr (if snd mem then Some path else None, Some (c\<lparr>cd_storage := Some (xs @ [st]), cd_size_in_blks := cd_size_in_blks c + sg_nblocks st,
                 cd_num_chunks := cd_num_chunks c + 1\<rparr>))))
      | _ \<Rightarrow> Inr (None, chunk))"

text \<open>
  Removing and updating.  The loop over the devices compares the addresses of the arrays of characters,
  not their contents: \<open>same i\<close> says whether the caller's device lies at index \<open>i\<close> of the array of the
  domain.
\<close>

fun find_chunk :: "(nat \<Rightarrow> bool) \<Rightarrow> nat \<Rightarrow> nat \<Rightarrow> nat option" where
  "find_chunk same i 0 = None"
| "find_chunk same i (Suc n) = (if same i then Some i else find_chunk same (Suc i) n)"

text \<open>
  The array after the removal at an index found by the loop.  \<open>mem\<close> is the outcome of \<^verbatim>\<open>calloc\<close>, \<open>blank\<close> a
  device of zeros, and \<open>move k a b\<close> the device \<open>a\<close> after its first \<open>k\<close> bytes were overwritten by those of
  \<open>b\<close>: the code moves as many bytes as it should move devices.  In a new array the removed
  device stays and those behind it are lost; for the last device the copy is larger than the new
  array.
\<close>

definition remove_at ::
  "bool \<Rightarrow> (nat \<Rightarrow> sfsd_storage \<Rightarrow> sfsd_storage \<Rightarrow> sfsd_storage) \<Rightarrow> sfsd_storage \<Rightarrow> nat \<Rightarrow> sfsd_storage \<Rightarrow>
   chunk_domain \<Rightarrow> chunk_domain exec" where
  "remove_at mem move blank i st c =
     (let n = unat (cd_num_chunks c); shrunk = c\<lparr>cd_num_chunks := cd_num_chunks c - 1, cd_size_in_blks := cd_size_in_blks c - sg_nblocks st\<rparr>
      in
      case cd_storage c of None \<Rightarrow> Inl Bad_Access | Some xs \<Rightarrow>
      if length xs < n then Inl Bad_Access
      else if \<not> mem then
        if i \<noteq> n - 1 then Inr (shrunk\<lparr>cd_storage := Some (xs[i := move (n - 2 - i) (xs ! i) (xs ! (i + 1))])\<rparr>)
        else Inr (shrunk\<lparr>cd_num_chunks := cd_num_chunks c - 2, cd_size_in_blks := cd_size_in_blks c - sg_nblocks st - sg_nblocks st\<rparr>)
      else if i = 0 then Inr (shrunk\<lparr>cd_storage := Some (take (n - 2) xs @ [blank])\<rparr>)
      else if i = n - 1 then Inl Bad_Access
      else Inr (shrunk\<lparr>cd_storage := Some (take (i + 1) xs @ replicate (n - 2 - i) blank)\<rparr>))"

definition sfsd_remove_chunk ::
  "bool \<Rightarrow> (nat \<Rightarrow> sfsd_storage \<Rightarrow> sfsd_storage \<Rightarrow> sfsd_storage) \<Rightarrow> sfsd_storage \<Rightarrow> (nat \<Rightarrow> bool) \<Rightarrow>
   chunk_domain option \<Rightarrow> sfsd_storage option \<Rightarrow> (int \<times> chunk_domain option) exec" where
  "sfsd_remove_chunk mem move blank same chunk storage =
     (case (chunk, storage) of
        (Some c, Some st) \<Rightarrow>
          if cd_num_chunks c = 0 then Inr (-1, chunk)
          else if cd_num_chunks c = 1 then
            Inr (0, Some (c\<lparr>cd_num_chunks := 0, cd_size_in_blks := cd_size_in_blks c - sg_nblocks st, cd_storage := None\<rparr>))
          else
            (case find_chunk (\<lambda>i. sg_protocol st = NFS \<and> same i) 0 (unat (cd_num_chunks c)) of
               None \<Rightarrow> Inr (-1, chunk)
             | Some i \<Rightarrow> exec_bind (remove_at mem move blank i st c) (\<lambda>c. Inr (0, Some c)))
      | _ \<Rightarrow> Inr (-1, chunk))"

definition sfsd_update_chunk ::
  "(nat \<Rightarrow> bool) \<Rightarrow> chunk_domain option \<Rightarrow> sfsd_storage option \<Rightarrow> (int \<times> chunk_domain option) exec" where
  "sfsd_update_chunk same chunk storage =
     (case (chunk, storage) of
        (Some c, Some st) \<Rightarrow>
          if cd_num_chunks c = 0 then Inr (-1, chunk)
          else
            (case cd_storage c of None \<Rightarrow> Inl Bad_Access | Some xs \<Rightarrow>
             case find_chunk (\<lambda>i. sg_protocol st = NFS \<and> same i \<and>
                 strneq IPV6_ADDR_MAX (na_address (sg_address (xs ! i))) (na_address (sg_address st))) 0 (unat (cd_num_chunks c)) of
               None \<Rightarrow> Inr (-1, chunk)
             | Some i \<Rightarrow>
                 Inr (0, Some (c\<lparr>cd_size_in_blks := cd_size_in_blks c + sg_nblocks st - sg_nblocks (xs ! i),
                   cd_storage := Some (xs[i := (xs ! i)\<lparr>sg_nblocks := sg_nblocks st\<rparr>])\<rparr>)))
      | _ \<Rightarrow> Inr (-1, chunk))"

text \<open>The scheduler; the remainder is unsigned, since \<^verbatim>\<open>num_chunks\<close> is.\<close>

definition sfsd_chunk_schedule_rr :: "chunk_domain \<Rightarrow> int \<times> chunk_domain" where
  "sfsd_chunk_schedule_rr c =
     (if cd_num_chunks c = 0 then (- EINVAL, c)
      else (sint (cd_next c mod cd_num_chunks c), c\<lparr>cd_next := cd_next c + 1\<rparr>))"

definition chunk_matches :: "file_handle \<Rightarrow> sfsd_storage \<Rightarrow> bool" where
  "chunk_matches h st \<longleftrightarrow> fh_proto h = sg_protocol st \<and>
     strneq IPV6_ADDR_MAX (na_address (fh_address h)) (na_address (sg_address st)) \<and>
     na_protocol (fh_address h) = na_protocol (sg_address st) \<and> strstr (fh_name h) (sg_path st)"

text \<open>The mount point of a handle and the path that the device exports.\<close>

definition get_mount_path :: "chunk_domain option \<Rightarrow> file_handle option \<Rightarrow> (string \<times> string) option exec" where
  "get_mount_path chunk handle =
     (case (chunk, handle) of
        (Some c, Some h) \<Rightarrow>
          if cd_num_chunks c = 0 then Inr None
          else
            (case cd_storage c of None \<Rightarrow> Inl Bad_Access | Some xs \<Rightarrow>
             if length xs < unat (cd_num_chunks c) then Inl Bad_Access
             else
               Inr (map_option (\<lambda>st. (sg_mount_point st, sg_path st)) (List.find (chunk_matches h) (take (unat (cd_num_chunks c)) xs))))
      | _ \<Rightarrow> Inr None)"

section \<open>Invariant\<close>

text \<open>The devices of a domain.\<close>

definition chunks :: "chunk_domain \<Rightarrow> sfsd_storage list" where
  "chunks c = (case cd_storage c of None \<Rightarrow> [] | Some xs \<Rightarrow> xs)"

definition cd_ok :: "chunk_domain \<Rightarrow> bool" where
  "cd_ok c \<longleftrightarrow> unat (cd_num_chunks c) = length (chunks c)"

lemma init_ok: "sfsd_chunk_domain_init False True next = Some c \<Longrightarrow> cd_ok c \<and> chunks c = [] \<and> cd_size_in_blks c = 0"
  by (auto simp: sfsd_chunk_domain_init_def cd_ok_def chunks_def)

lemma unat_of_nat_32: "m < 2 ^ 32 \<Longrightarrow> unat (of_nat m :: 32 word) = m"
  by (simp add: unat_of_nat take_bit_nat_eq_self)

lemma unat_Suc_32:
  assumes "unat (n :: 32 word) + 1 < 2 ^ 32"
  shows "unat (n + 1) = unat n + 1"
proof -
  have "n + 1 = of_nat (unat n + 1)" by simp
  then show ?thesis using unat_of_nat_32 [OF assms] by metis
qed

lemma add_chunk_ok:
  assumes "cd_ok c" "sg_protocol st = NFS" "length (chunks c) + 1 < 2 ^ 32" "mount_args_fit st"
  shows "\<exists>c'. sfsd_add_chunk (Some m) True (True, True) (Some c) (Some st) = Inr (Some m, Some c') \<and> cd_ok c' \<and>
    chunks c' = chunks c @ [st\<lparr>sg_mount_point := take MAX_MOUNT_POINT_LEN m\<rparr>] \<and>
    cd_size_in_blks c' = cd_size_in_blks c + sg_nblocks st \<and> cd_next c' = cd_next c"
proof -
  have n: "unat (cd_num_chunks c) = length (chunks c)" using assms(1) by (simp add: cd_ok_def)
  have "(if unat (cd_num_chunks c) = 0 then Inr []
         else case cd_storage c of None \<Rightarrow> Inl Null_Deref | Some xs \<Rightarrow>
           if unat (cd_num_chunks c) \<le> length xs then Inr (take (unat (cd_num_chunks c)) xs) else Inl Bad_Access) = Inr (chunks c)"
    using n by (auto simp: chunks_def split: option.splits)
  moreover have "unat (cd_num_chunks c + 1) = length (chunks c) + 1" using unat_Suc_32 n assms(3) by simp
  ultimately show ?thesis
    using assms(2,4) by (auto simp: sfsd_add_chunk_def Let_def cd_ok_def chunks_def)
qed

lemma find_append_new: "\<forall>x \<in> set xs. \<not> P x \<Longrightarrow> P y \<Longrightarrow> List.find P (xs @ y # ys) = Some y"
  by (induction xs) auto

lemma mount_path_ok:
  assumes "cd_ok c"
  shows "get_mount_path (Some c) (Some h) =
    Inr (map_option (\<lambda>st. (sg_mount_point st, sg_path st)) (List.find (chunk_matches h) (chunks c)))"
  using assms by (auto simp: get_mount_path_def cd_ok_def chunks_def unat_eq_zero split: option.splits)

text \<open>
  Adding a device to a chunk domain appends it to the devices, with its mount point, and adds its blocks to the
  size of the domain; extents of the device are then found under that mount point, unless an
  earlier device matches them too.
\<close>

theorem chunk_add_mounts:
  assumes "cd_ok c" "sg_protocol st = NFS" "length (chunks c) + 1 < 2 ^ 32" "mount_args_fit st" "length m \<le> MAX_MOUNT_POINT_LEN"
    "chunk_matches h st" "\<forall>st' \<in> set (chunks c). \<not> chunk_matches h st'"
  shows "\<exists>c'. sfsd_add_chunk (Some m) True (True, True) (Some c) (Some st) = Inr (Some m, Some c') \<and> cd_ok c' \<and>
    chunks c' = chunks c @ [st\<lparr>sg_mount_point := m\<rparr>] \<and> cd_size_in_blks c' = cd_size_in_blks c + sg_nblocks st \<and>
    get_mount_path (Some c') (Some h) = Inr (Some (m, sg_path st))"
proof -
  have m: "take MAX_MOUNT_POINT_LEN m = m" using assms(5) by simp
  have "chunk_matches h (st\<lparr>sg_mount_point := m\<rparr>)" using assms(6) by (simp add: chunk_matches_def)
  then have "List.find (chunk_matches h) (chunks c @ [st\<lparr>sg_mount_point := m\<rparr>]) = Some (st\<lparr>sg_mount_point := m\<rparr>)"
    using find_append_new [OF assms(7)] by blast
  then show ?thesis
    using add_chunk_ok [OF assms(1-4), of m] mount_path_ok unfolding m by fastforce
qed

theorem chunk_add_mounts_witness:
  "\<exists>c'. sfsd_add_chunk (Some ''/tmp/dirA'') True (True, True)
      (Some \<lparr>cd_num_chunks = 0, cd_size_in_blks = 0, cd_storage = None, cd_next = 0\<rparr>)
      (Some \<lparr>sg_path = ''/vol'', sg_mount_point = [], sg_weight = 0, sg_nblocks = 8, sg_protocol = NFS,
        sg_address = \<lparr>na_protocol = IPV4, na_address = ''10''\<rparr>\<rparr>) = Inr (Some ''/tmp/dirA'', Some c') \<and> cd_size_in_blks c' = 8"
  using chunk_add_mounts [of "\<lparr>cd_num_chunks = 0, cd_size_in_blks = 0, cd_storage = None, cd_next = 0\<rparr>"
      "\<lparr>sg_path = ''/vol'', sg_mount_point = [], sg_weight = 0, sg_nblocks = 8, sg_protocol = NFS,
        sg_address = \<lparr>na_protocol = IPV4, na_address = ''10''\<rparr>\<rparr>" "''/tmp/dirA''"
      "\<lparr>fh_name_len = 5, fh_name = ''/vol/x'', fh_proto = NFS, fh_address = \<lparr>na_protocol = IPV4, na_address = ''10''\<rparr>\<rparr>"]
  by (fastforce simp: cd_ok_def chunks_def MAX_MOUNT_POINT_LEN_def chunk_matches_def strneq_def mount_args_fit_def)

section \<open>The scheduler\<close>

fun schedule_run :: "nat \<Rightarrow> chunk_domain \<Rightarrow> int list \<times> chunk_domain" where
  "schedule_run 0 c = ([], c)"
| "schedule_run (Suc k) c =
     (let (i, c) = sfsd_chunk_schedule_rr c; (is, c) = schedule_run k c in (i # is, c))"

text \<open>
  The scheduler goes round the devices: of \<open>k\<close> calls, the \<open>j\<close>-th returns \<open>a + j\<close> modulo the number
  of devices, where \<open>a\<close> is the number of calls before, until \<open>2\<^sup>3\<^sup>1\<close> calls have been made.
\<close>

theorem schedule_round_robin:
  assumes "unat (cd_num_chunks c) = n" "0 < n" "n < 2 ^ 31" "unat (cd_next c) = a" "a + k \<le> 2 ^ 31"
  shows "fst (schedule_run k c) = map (\<lambda>j. int ((a + j) mod n)) [0..<k]"
  using assms
proof (induction k arbitrary: c a)
  case (Suc k)
  have n: "cd_num_chunks c \<noteq> 0" using Suc.prems(1,2) by auto
  have "unat (cd_next c mod cd_num_chunks c) = a mod n" using Suc.prems(1,4) by (simp add: unat_mod_distrib)
  moreover have "a mod n < 2 ^ 31" using Suc.prems(2,3) by (meson mod_less_divisor order.strict_trans)
  moreover have "of_nat (unat w) = w" for w :: "32 word" by simp
  ultimately have i: "sint (cd_next c mod cd_num_chunks c) = int (a mod n)" by (metis sint_of_nat_small)
  let ?c = "c\<lparr>cd_next := cd_next c + 1\<rparr>"
  have "unat (cd_next ?c) = a + 1" using Suc.prems(4,5) unat_Suc_32 by simp
  then have "fst (schedule_run k ?c) = map (\<lambda>j. int ((a + 1 + j) mod n)) [0..<k]"
    using Suc.IH [of ?c "a + 1"] Suc.prems by simp
  moreover have "[0..<Suc k] = 0 # map Suc [0..<k]" by (simp add: map_Suc_upt upt_conv_Cons del: upt_Suc)
  ultimately show ?case
    using n i by (simp add: sfsd_chunk_schedule_rr_def case_prod_beta comp_def)
qed simp

theorem schedule_round_robin_witness:
  "fst (schedule_run 4 \<lparr>cd_num_chunks = 3, cd_size_in_blks = 0, cd_storage = None, cd_next = 1\<rparr>) =
   map (\<lambda>j. int ((1 + j) mod 3)) [0..<4]"
  by (rule schedule_round_robin) simp_all

end
