(* ===== verification/Sfsd_Ops.thy ===== *)
theory Sfsd_Ops
  imports Chunk_Domain Dispatch
begin

text \<open>
  The sfsd (\<^verbatim>\<open>sfsd/src/sfsd_ops.c\<close>, \<^verbatim>\<open>sfsd/src/sfsd_threads.c\<close>): reading and writing of extents, and the handling of
  storage commands.  The mounted file systems are a map from paths to contents.  The outcomes of
  allocations and system calls, the clock, the checksum routine and the plugins are the
  fields of an environment; the database is given by its two operations.
\<close>

section \<open>State\<close>

definition MAX_EXTENT_SIZE :: nat where "MAX_EXTENT_SIZE = 65536"
abbreviation ENODATA :: int where "ENODATA \<equiv> 61"

text \<open>
  \<open>se_buffer\<close> is the contents of a buffer from the cache, \<open>se_open\<close> whether \<^verbatim>\<open>open\<close> succeeds on a file that exists, \<open>se_pread\<close> and \<open>se_write\<close> the
  number of bytes that \<^verbatim>\<open>pread\<close> and \<^verbatim>\<open>write\<close> take at most or \<open>None\<close> if they fail, and \<open>se_errno\<close> the error number of a failed system call, which is below 4096.  \<open>se_erasure\<close> is the
  result of \<^verbatim>\<open>read_erasure_code\<close>.
\<close>

record 'd sd_env =
  se_inode_mem :: bool
  se_get_inode :: "64 word \<Rightarrow> 'd \<Rightarrow> int + sstack_inode"
  se_put_inode :: "sstack_inode \<Rightarrow> 'd \<Rightarrow> 'd"
  se_buffer :: "8 word list option"
  se_now :: nat
  se_create :: bool
  se_open :: bool
  se_pread :: "nat option"
  se_write :: "nat option"
  se_errno :: "12 word"
  se_realloc :: bool
  se_path_mem :: bool
  se_crc :: "8 word list \<Rightarrow> 32 word"
  se_plugins :: "8 word list option"
  se_erasure :: int

record 'd sd_state =
  sd_chunk :: chunk_domain
  sd_files :: "string \<rightharpoonup> 8 word list"
  sd_db :: 'd

section \<open>Extents\<close>

definition match_extent :: "file_handle \<Rightarrow> file_handle \<Rightarrow> bool" where
  "match_extent h1 h2 \<longleftrightarrow> fh_proto h1 = fh_proto h2 \<and>
     strneq IPV6_ADDR_MAX (na_address (fh_address h1)) (na_address (fh_address h2)) \<and>
     strneq PATH_MAX (fh_name h1) (fh_name h2)"

fun search_extent :: "file_handle \<Rightarrow> nat \<Rightarrow> sstack_extent list \<Rightarrow> nat option exec" where
  "search_extent h i [] = Inr None"
| "search_extent h i (e # es) =
     (case e_path e of
        None \<Rightarrow> Inl Null_Deref
      | Some h' \<Rightarrow> if match_extent h h' then Inr (Some i) else search_extent h (Suc i) es)"

text \<open>
  The index of an extent, given or searched for, or an error, and the path under the mount point if it is
  asked for.
\<close>

definition get_extent ::
  "sstack_extent list \<Rightarrow> int \<Rightarrow> file_handle option \<Rightarrow> chunk_domain \<Rightarrow> bool \<Rightarrow> (int \<times> string) exec" where
  "get_extent es index h c want =
     (if index > int (length es) then Inr (-1, [])
      else
      exec_bind
        (if index \<ge> 0 then Inr (Some (nat index))
         else case h of None \<Rightarrow> Inl Null_Deref | Some h \<Rightarrow> search_extent h 0 es) (\<lambda>r.
      case r of None \<Rightarrow> Inr (- EINVAL, []) | Some i \<Rightarrow>
      if \<not> want then Inr (int i, [])
      else
      exec_bind (get_mount_path (Some c) h) (\<lambda>m.
      case m of None \<Rightarrow> Inr (- EINVAL, []) | Some (q, r) \<Rightarrow>
      Inr (int i, q @ drop (length r) (case h of None \<Rightarrow> [] | Some h \<Rightarrow> fh_name h)))))"

text \<open>
  \<^verbatim>\<open>pread\<close> of at most \<open>n\<close> bytes from an offset, which is signed.
\<close>

definition pread :: "8 word list \<Rightarrow> nat \<Rightarrow> 64 word \<Rightarrow> int + 8 word list" where
  "pread b n offset = (if sint offset < 0 then Inl EINVAL else Inr (take n (drop (unat offset) b)))"

text \<open>
  The result and the buffer; a system call that fails yields its positive error number.
\<close>

definition read_check_extent ::
  "('d, 'z) sd_env_scheme \<Rightarrow> string option \<Rightarrow> nat \<Rightarrow> 64 word \<Rightarrow> bool \<Rightarrow> 32 word \<Rightarrow> 8 word list option \<Rightarrow>
   (string \<rightharpoonup> 8 word list) \<Rightarrow> int \<times> 8 word list option" where
  "read_check_extent env path read_size offset check_cksum cksum buffer files =
     (case (path, buffer) of
        (Some path, Some buf) \<Rightarrow>
          (case files path of None \<Rightarrow> (ENOENT, buffer) | Some b \<Rightarrow>
           if \<not> se_open env then (uint (se_errno env), buffer)
           else
           case se_pread env of None \<Rightarrow> (uint (se_errno env), buffer) | Some n \<Rightarrow>
           case pread b (min n read_size) offset of Inl e \<Rightarrow> (e, buffer) | Inr x \<Rightarrow>
           let buf = x @ drop (length x) buf in
           (if check_cksum \<and> se_crc env (take (length x) buf) \<noteq> cksum then - SSTACK_ECKSUM else int (length x), Some buf))
      | _ \<Rightarrow> (0, buffer))"

text \<open>The result, the checksum and the files; \<^verbatim>\<open>write\<close> replaces the first bytes of the file.\<close>

definition write_update_extent ::
  "('d, 'z) sd_env_scheme \<Rightarrow> string \<Rightarrow> 8 word list option \<Rightarrow> (string \<rightharpoonup> 8 word list) \<Rightarrow> int \<times> 32 word \<times> (string \<rightharpoonup> 8 word list)" where
  "write_update_extent env path buffer files =
     (case buffer of None \<Rightarrow> (0, 0, files) | Some dat \<Rightarrow>
      case files path of None \<Rightarrow> (ENOENT, 0, files) | Some old \<Rightarrow>
      if \<not> se_open env then (uint (se_errno env), 0, files)
      else
      case se_write env of None \<Rightarrow> (uint (se_errno env), 0, files) | Some n \<Rightarrow>
      let x = take n dat in (int (length x), se_crc env x, files(path \<mapsto> x @ drop (length x) old)))"

section \<open>Reading\<close>

record sd_read =
  rq_inode_no :: "64 word"
  rq_offset :: "64 word"
  rq_read_ecode :: bool
  rq_extent_handle :: file_handle

text \<open>\<^verbatim>\<open>command_ok\<close> of the response and the data of \<^verbatim>\<open>read_resp\<close>.\<close>

definition sstack_read :: "('d, 'z) sd_env_scheme \<Rightarrow> sd_read \<Rightarrow> 'd sd_state \<Rightarrow> (int \<times> 8 word list) exec" where
  "sstack_read env cmd s =
     (if \<not> se_inode_mem env then Inr (- ENOMEM, [])
      else
      case se_get_inode env (rq_inode_no cmd) (sd_db s) of Inl _ \<Rightarrow> Inr (- EINVAL, []) | Inr inode \<Rightarrow>
      exec_bind (get_extent (i_extent inode) (-1) (Some (rq_extent_handle cmd)) (sd_chunk s) True) (\<lambda>(i, path).
      if i < 0 then Inr (- EINVAL, [])
      else if rq_read_ecode cmd then Inr (if se_erasure env < 0 then (se_erasure env, []) else (SSTACK_SUCCESS, []))
      else
      case se_buffer env of None \<Rightarrow> Inr (- ENOMEM, []) | Some buf \<Rightarrow>
      let e = i_extent inode ! nat i;
          (stat, buffer) = read_check_extent env (Some path) MAX_EXTENT_SIZE (rq_offset cmd - e_offset e) True (e_cksum e) (Some buf) (sd_files s)
      in Inr (if stat < 0 then (- ENODATA, [])
              else (SSTACK_SUCCESS, take (nat stat) (case buffer of None \<Rightarrow> [] | Some b \<Rightarrow> b)))))"

section \<open>Writing\<close>

record sd_write =
  wq_inode_no :: "64 word"
  wq_offset :: "64 word"
  wq_data :: "8 word list"
  wq_num_plugins :: nat
  wq_extent_handle :: file_handle

text \<open>The name of a new extent, and \<^verbatim>\<open>basename\<close>.\<close>

definition extent_name :: "string \<Rightarrow> nat \<Rightarrow> string" where
  "extent_name mount_path now = mount_path @ ''/'' @ decimal now @ ''-XXXXXX''"

definition basename :: "string \<Rightarrow> string" where
  "basename p = rev (takeWhile (\<lambda>x. x \<noteq> CHR ''/'') (rev p))"

text \<open>
  Choice of the extent: its name and the index of its device, or \<open>None\<close> where the request fails.  Without a device the
  name is uninitialised, and so is what a request with a handle passes on to \<^verbatim>\<open>get_extent\<close>.
\<close>

definition new_extent ::
  "('d, 'z) sd_env_scheme \<Rightarrow> sd_write \<Rightarrow> 'd sd_state \<Rightarrow> ((string \<times> sfsd_storage) option \<times> 'd sd_state) exec" where
  "new_extent env cmd s =
     (if fh_name_len (wq_extent_handle cmd) \<noteq> 0 then Inl Undefined
      else
      let (i, c) = sfsd_chunk_schedule_rr (sd_chunk s); s = s\<lparr>sd_chunk := c\<rparr> in
      if i < 0 then Inl Undefined
      else
      case cd_storage c of None \<Rightarrow> Inl Bad_Access | Some xs \<Rightarrow>
      if length xs \<le> nat i then Inl Bad_Access
      else
      let name = extent_name (sg_mount_point (xs ! nat i)) (se_now env) in
      if \<not> se_create env then Inr (None, s)
      else
        Inr (Some (name, xs ! nat i),
          s\<lparr>sd_files := (sd_files s)(name \<mapsto> (case sd_files s name of None \<Rightarrow> [] | Some b \<Rightarrow> b))\<rparr>))"

text \<open>
  The new entry in the array of extents.  The mutex of the inode is taken and not released.
\<close>

definition add_extent ::
  "('d, 'z) sd_env_scheme \<Rightarrow> string \<Rightarrow> sfsd_storage \<Rightarrow> 64 word \<Rightarrow> 64 word \<Rightarrow> 32 word \<Rightarrow> sstack_inode \<Rightarrow> sstack_inode option exec" where
  "add_extent env name st data_len out_size cksum inode =
     (if i_lock inode then Inl Deadlock
      else if \<not> se_realloc env then Inr None
      else if \<not> se_path_mem env then Inl Null_Deref
      else
      let fname = sg_path st @ ''/'' @ basename name; es = i_extent inode in
      if PATH_MAX \<le> length fname then Inl Bad_Access
      else
      exec_bind
        (if i_size inode \<noteq> 0 then
           if es = [] then Inl Bad_Access
           else case e_path (last es) of None \<Rightarrow> Inl Null_Deref | Some p \<Rightarrow>
             Inr (e_offset (last es) + e_size (last es), fh_proto p, fh_address p)
         else Inr (0, sg_protocol st, sg_address st)) (\<lambda>(offset, proto, address).
      Inr (Some (inode\<lparr>i_lock := True, i_extent := es @ [\<lparr>e_offset = offset, e_size = data_len, e_sizeondisk = out_size, e_cksum = cksum,
        e_numreplicas = i_replicas inode,
        e_path = Some \<lparr>fh_name_len = of_nat (length name), fh_name = fname, fh_proto = proto, fh_address = address\<rparr>\<rparr>]\<rparr>))))"

text \<open>
  A write: \<open>None\<close> is the null pointer that is returned after an error, otherwise \<^verbatim>\<open>command_ok\<close> and \<^verbatim>\<open>file_wc\<close> of the
  response.  With an offset the code copies to an address that it reads from a null pointer.
\<close>

definition sstack_write ::
  "('d, 'z) sd_env_scheme \<Rightarrow> sd_write \<Rightarrow> 'd sd_state \<Rightarrow> ((int \<times> 32 word) option \<times> 'd sd_state) exec" where
  "sstack_write env cmd s =
     (if \<not> se_inode_mem env then Inr (None, s)
      else
      case se_get_inode env (wq_inode_no cmd) (sd_db s) of Inl _ \<Rightarrow> Inr (None, s) | Inr inode \<Rightarrow>
      exec_bind (new_extent env cmd s) (\<lambda>(r, s).
      case r of None \<Rightarrow> Inr (None, s) | Some (name, st) \<Rightarrow>
      if wq_offset cmd \<noteq> 0 then Inl Bad_Access
      else
      let out = (if wq_num_plugins cmd = 0 then Some (wq_data cmd) else se_plugins env);
          (stat, cksum, files) = write_update_extent env name out (sd_files s);
          s = s\<lparr>sd_files := files\<rparr>
      in
      if stat < 0 then Inr (None, s)
      else
      exec_bind
        (add_extent env name st (of_nat (length (wq_data cmd))) (of_nat (case out of None \<Rightarrow> 0 | Some x \<Rightarrow> length x)) cksum
          (inode\<lparr>i_replicas := 1\<rparr>)) (\<lambda>r.
      case r of None \<Rightarrow> Inr (None, s) | Some inode \<Rightarrow>
      let inode = inode\<lparr>i_size := sum_list (map e_size (i_extent inode))\<rparr> in
      Inr (Some (SSTACK_SUCCESS, of_int stat), s\<lparr>sd_db := se_put_inode env inode (sd_db s)\<rparr>))))"

section \<open>Commands\<close>

datatype sd_command =
  Add_Storage sfsd_storage | Update_Storage sfsd_storage | Remove_Storage sfsd_storage | Read_Extent sd_read | Write_Extent sd_write

record sd_response =
  rs_command :: sstack_command
  rs_command_ok :: int
  rs_data :: "8 word list"
  rs_file_wc :: "32 word"

definition storage_response :: "sstack_command \<Rightarrow> int \<Rightarrow> sd_response" where
  "storage_response c ok = \<lparr>rs_command = c, rs_command_ok = ok, rs_data = [], rs_file_wc = 0\<rparr>"

text \<open>
  \<^verbatim>\<open>handle_command\<close> for storage commands, reads and writes; \<open>mnt\<close>, \<open>mounted\<close> and \<open>mem\<close> are the outcomes for a device, \<open>move\<close> and
  \<open>blank\<close> the arguments of a removal.  The
  device of a command is never part of the domain.  A write that fails returns a null pointer,
  through which the command of the response is set.
\<close>

definition handle_command ::
  "('d, 'z) sd_env_scheme \<Rightarrow> string option \<Rightarrow> bool \<Rightarrow> bool \<times> bool \<Rightarrow> (nat \<Rightarrow> sfsd_storage \<Rightarrow> sfsd_storage \<Rightarrow> sfsd_storage) \<Rightarrow>
   sfsd_storage \<Rightarrow> sd_command \<Rightarrow> 'd sd_state \<Rightarrow> (sd_response \<times> 'd sd_state) exec" where
  "handle_command env mnt mounted mem move blank cmd s =
     (case cmd of
        Add_Storage st \<Rightarrow>
          exec_bind (sfsd_add_chunk mnt mounted mem (Some (sd_chunk s)) (Some st)) (\<lambda>(path, c).
          Inr (storage_response SSTACK_ADD_STORAGE_RSP (if path = None then - EINVAL else SSTACK_SUCCESS),
            case c of None \<Rightarrow> s | Some c \<Rightarrow> s\<lparr>sd_chunk := c\<rparr>))
      | Update_Storage st \<Rightarrow>
          exec_bind (sfsd_update_chunk (\<lambda>_. False) (Some (sd_chunk s)) (Some st)) (\<lambda>(ret, c).
          Inr (storage_response SSTACK_UPDATE_STORAGE_RSP ret, case c of None \<Rightarrow> s | Some c \<Rightarrow> s\<lparr>sd_chunk := c\<rparr>))
      | Remove_Storage st \<Rightarrow>
          exec_bind (sfsd_remove_chunk (fst mem) move blank (\<lambda>_. False) (Some (sd_chunk s)) (Some st)) (\<lambda>(ret, c).
          Inr (storage_response SSTACK_REMOVE_STORAGE_RSP ret, case c of None \<Rightarrow> s | Some c \<Rightarrow> s\<lparr>sd_chunk := c\<rparr>))
      | Read_Extent r \<Rightarrow>
          exec_bind (sstack_read env r s) (\<lambda>(ok, dat).
          Inr (\<lparr>rs_command = NFS_READ_RSP, rs_command_ok = ok, rs_data = dat, rs_file_wc = 0\<rparr>, s))
      | Write_Extent w \<Rightarrow>
          exec_bind (sstack_write env w s) (\<lambda>(r, s).
          case r of None \<Rightarrow> Inl Null_Deref | Some (ok, wc) \<Rightarrow>
          Inr (\<lparr>rs_command = NFS_WRITE_RSP, rs_command_ok = ok, rs_data = [], rs_file_wc = wc\<rparr>, s)))"

section \<open>What is written is read\<close>

lemma decimal_no_slash: "CHR ''/'' \<notin> set (decimal n)"
  using decimal_digits [of "CHR ''/''" n] by auto

lemma takeWhile_stop: "\<forall>x \<in> set xs. P x \<Longrightarrow> \<not> P y \<Longrightarrow> takeWhile P (xs @ y # ys) = xs"
  by (induction xs) auto

lemma basename_extent: "basename (extent_name m now) = decimal now @ ''-XXXXXX''"
proof -
  have "rev (extent_name m now) = rev (decimal now @ ''-XXXXXX'') @ CHR ''/'' # rev m" by (simp add: extent_name_def)
  moreover have "\<forall>x \<in> set (rev (decimal now @ ''-XXXXXX'')). x \<noteq> CHR ''/''" using decimal_no_slash [of now] by auto
  ultimately have "takeWhile (\<lambda>x. x \<noteq> CHR ''/'') (rev (extent_name m now)) = rev (decimal now @ ''-XXXXXX'')"
    using takeWhile_stop [of "rev (decimal now @ ''-XXXXXX'')" "\<lambda>x. x \<noteq> CHR ''/''" "CHR ''/''" "rev m"] by simp
  then show ?thesis by (simp add: basename_def)
qed

text \<open>The handle of the extent that a write creates on a device.\<close>

definition new_handle :: "sfsd_storage \<Rightarrow> nat \<Rightarrow> file_handle" where
  "new_handle st now =
     \<lparr>fh_name_len = of_nat (length (extent_name (sg_mount_point st) now)), fh_name = sg_path st @ ''/'' @ decimal now @ ''-XXXXXX'',
      fh_proto = sg_protocol st, fh_address = sg_address st\<rparr>"

lemma prefix_of_append: "prefix_of xs (xs @ ys)"
  by (induction xs) auto

lemma strstr_append: "strstr (xs @ ys) xs"
  using prefix_of_append [of xs ys] by (cases "xs @ ys") auto

lemma new_handle_matches: "chunk_matches (new_handle st now) st"
  by (simp add: chunk_matches_def new_handle_def strneq_def strstr_append)

lemma find_first:
  assumes "x \<in> set xs" "P x" "\<forall>y \<in> set (takeWhile (\<lambda>y. y \<noteq> x) xs). \<not> P y"
  shows "List.find P xs = Some x"
  using assms
proof (induction xs)
  case (Cons y xs)
  then show ?case by (cases "y = x") auto
qed simp

lemma schedule_chunk:
  assumes "cd_ok c" "chunks c \<noteq> []" "length (chunks c) < 2 ^ 31"
  shows "\<exists>i. i < length (chunks c) \<and> i = unat (cd_next c mod cd_num_chunks c) \<and>
    sfsd_chunk_schedule_rr c = (int i, c\<lparr>cd_next := cd_next c + 1\<rparr>)"
proof -
  have n: "unat (cd_num_chunks c) = length (chunks c)" "cd_num_chunks c \<noteq> 0" using assms(1,2) by (auto simp: cd_ok_def)
  let ?w = "cd_next c mod cd_num_chunks c"
  have i: "unat ?w < length (chunks c)" using n assms(2) by (simp add: unat_mod_distrib)
  have "of_nat (unat ?w) = ?w" by simp
  moreover have "sint (of_nat (unat ?w) :: 32 word) = int (unat ?w)" using i assms(3) by (intro sint_of_nat_small) linarith
  ultimately show ?thesis using i n(2) by (simp add: sfsd_chunk_schedule_rr_def)
qed

text \<open>The device of the next new extent.\<close>

definition next_chunk :: "chunk_domain \<Rightarrow> sfsd_storage" where
  "next_chunk c = chunks c ! unat (cd_next c mod cd_num_chunks c)"

lemma new_extent_ok:
  assumes c: "cd_ok (sd_chunk s)" "chunks (sd_chunk s) \<noteq> []" "length (chunks (sd_chunk s)) < 2 ^ 31"
    and "fh_name_len (wq_extent_handle cmd) = 0" "se_create env"
    and name: "name = extent_name (sg_mount_point (next_chunk (sd_chunk s))) (se_now env)"
  shows "next_chunk (sd_chunk s) \<in> set (chunks (sd_chunk s)) \<and> new_extent env cmd s =
    Inr (Some (name, next_chunk (sd_chunk s)),
      s\<lparr>sd_chunk := (sd_chunk s)\<lparr>cd_next := cd_next (sd_chunk s) + 1\<rparr>, sd_files := (sd_files s)(name \<mapsto> (case sd_files s name of None \<Rightarrow> [] | Some b \<Rightarrow> b))\<rparr>)"
proof -
  obtain i where i: "i < length (chunks (sd_chunk s))" "i = unat (cd_next (sd_chunk s) mod cd_num_chunks (sd_chunk s))"
    "sfsd_chunk_schedule_rr (sd_chunk s) = (int i, (sd_chunk s)\<lparr>cd_next := cd_next (sd_chunk s) + 1\<rparr>)"
    using schedule_chunk [OF c] by blast
  obtain xs where xs: "cd_storage (sd_chunk s) = Some xs" "chunks (sd_chunk s) = xs"
    using c(2) by (auto simp: chunks_def split: option.splits)
  have "next_chunk (sd_chunk s) = xs ! i" using i(2) xs(2) by (simp add: next_chunk_def)
  then show ?thesis using i(1,3) xs assms(4,5) name by (simp add: new_extent_def Let_def)
qed

text \<open>
  A file without extents in the database, and a request to write its first extent; the
  database returns an inode with one extent as it was stored.
\<close>

definition first_extent :: "('d, 'z) sd_env_scheme \<Rightarrow> sd_write \<Rightarrow> sstack_inode \<Rightarrow> 'd sd_state \<Rightarrow> bool" where
  "first_extent env cmd inode s \<longleftrightarrow>
     se_inode_mem env \<and> se_realloc env \<and> se_path_mem env \<and> se_create env \<and> se_open env \<and>
     se_get_inode env (wq_inode_no cmd) (sd_db s) = Inr inode \<and> i_num inode = wq_inode_no cmd \<and> i_extent inode = [] \<and>
     i_size inode = 0 \<and> \<not> i_lock inode \<and>
     (\<forall>ino. i_num ino = wq_inode_no cmd \<and> length (i_extent ino) = 1 \<longrightarrow>
        se_get_inode env (wq_inode_no cmd) (se_put_inode env ino (sd_db s)) = Inr ino) \<and>
     fh_name_len (wq_extent_handle cmd) = 0 \<and> wq_offset cmd = 0 \<and> wq_num_plugins cmd = 0"

text \<open>The device of the new extent, and the file it is in.\<close>

definition chunk_ready :: "nat \<Rightarrow> 'd sd_state \<Rightarrow> bool" where
  "chunk_ready now s \<longleftrightarrow>
     (let c = sd_chunk s; st = next_chunk c in
      cd_ok c \<and> chunks c \<noteq> [] \<and> length (chunks c) < 2 ^ 31 \<and> sd_files s (extent_name (sg_mount_point st) now) = None \<and>
      length (fh_name (new_handle st now)) < PATH_MAX \<and>
      (\<forall>st' \<in> set (takeWhile (\<lambda>x. x \<noteq> st) (chunks c)). \<not> chunk_matches (new_handle st now) st'))"

lemma write_first_extent:
  assumes f: "first_extent env cmd inode s" and c: "chunk_ready (se_now env) s"
    and w: "se_write env = Some n" "length (wq_data cmd) \<le> n"
    and e: "e = \<lparr>e_offset = 0, e_size = of_nat (length (wq_data cmd)), e_sizeondisk = of_nat (length (wq_data cmd)),
      e_cksum = se_crc env (wq_data cmd), e_numreplicas = 1, e_path = Some (new_handle (next_chunk (sd_chunk s)) (se_now env))\<rparr>"
    and name: "name = extent_name (sg_mount_point (next_chunk (sd_chunk s))) (se_now env)"
  shows "sstack_write env cmd s = Inr (Some (SSTACK_SUCCESS, of_nat (length (wq_data cmd))),
    s\<lparr>sd_chunk := (sd_chunk s)\<lparr>cd_next := cd_next (sd_chunk s) + 1\<rparr>, sd_files := (sd_files s)(name \<mapsto> wq_data cmd),
      sd_db := se_put_inode env (inode\<lparr>i_lock := True, i_replicas := 1, i_extent := [e], i_size := of_nat (length (wq_data cmd))\<rparr>) (sd_db s)\<rparr>)"
proof -
  have new: "new_extent env cmd s = Inr (Some (name, next_chunk (sd_chunk s)),
      s\<lparr>sd_chunk := (sd_chunk s)\<lparr>cd_next := cd_next (sd_chunk s) + 1\<rparr>, sd_files := (sd_files s)(name \<mapsto> [])\<rparr>)"
    using new_extent_ok [of s cmd env name] f c name by (simp add: first_extent_def chunk_ready_def Let_def)
  have "add_extent env name (next_chunk (sd_chunk s)) (e_size e) (e_sizeondisk e) (e_cksum e) (inode\<lparr>i_replicas := 1\<rparr>) =
      Inr (Some (inode\<lparr>i_lock := True, i_replicas := 1, i_extent := [e]\<rparr>))"
    using f c by (simp add: add_extent_def first_extent_def chunk_ready_def Let_def e new_handle_def name basename_extent)
  then show ?thesis
    using f w new by (simp add: sstack_write_def first_extent_def write_update_extent_def Let_def e)
qed

lemma match_extent_refl: "match_extent h h"
  by (simp add: match_extent_def strneq_def)

lemma next_cd_ok [simp]: "chunks (c\<lparr>cd_next := n\<rparr>) = chunks c" "cd_ok (c\<lparr>cd_next := n\<rparr>) = cd_ok c"
  by (simp_all add: chunks_def cd_ok_def)

lemma ready_get_extent:
  assumes "chunk_ready now s" "e_path e = Some (new_handle (next_chunk (sd_chunk s)) now)"
  shows "get_extent [e] (-1) (Some (new_handle (next_chunk (sd_chunk s)) now)) ((sd_chunk s)\<lparr>cd_next := k\<rparr>) True =
    Inr (0, extent_name (sg_mount_point (next_chunk (sd_chunk s))) now)"
proof -
  let ?c = "sd_chunk s" and ?st = "next_chunk (sd_chunk s)"
  have c: "cd_ok ?c" "chunks ?c \<noteq> []" "length (chunks ?c) < 2 ^ 31"
    "\<forall>st' \<in> set (takeWhile (\<lambda>x. x \<noteq> ?st) (chunks ?c)). \<not> chunk_matches (new_handle ?st now) st'"
    using assms(1) by (simp_all add: chunk_ready_def Let_def)
  have "?st \<in> set (chunks ?c)" using schedule_chunk [OF c(1-3)] by (auto simp: next_chunk_def)
  then have "List.find (chunk_matches (new_handle ?st now)) (chunks ?c) = Some ?st"
    by (rule find_first [OF _ new_handle_matches c(4)])
  then have "get_mount_path (Some (?c\<lparr>cd_next := k\<rparr>)) (Some (new_handle ?st now)) = Inr (Some (sg_mount_point ?st, sg_path ?st))"
    using mount_path_ok [of "?c\<lparr>cd_next := k\<rparr>" "new_handle ?st now"] c(1) by simp
  then show ?thesis using assms(2) by (simp add: get_extent_def match_extent_refl) (simp add: new_handle_def extent_name_def)
qed

section \<open>Examples\<close>

text \<open>A database that is a map, one device and a file without extents.\<close>

definition example_env :: "(64 word \<rightharpoonup> sstack_inode) sd_env" where
  "example_env =
     \<lparr>se_inode_mem = True, se_get_inode = (\<lambda>n d. case d n of None \<Rightarrow> Inl (-1) | Some i \<Rightarrow> Inr i), se_put_inode = (\<lambda>i d. d(i_num i \<mapsto> i)),
      se_buffer = Some [], se_now = 7, se_create = True, se_open = True, se_pread = Some 65536, se_write = Some 100, se_errno = 5, se_realloc = True, se_path_mem = True,
      se_crc = (\<lambda>x. of_nat (length x)), se_plugins = None, se_erasure = -1\<rparr>"

definition example_storage :: sfsd_storage where
  "example_storage = \<lparr>sg_path = ''/vol'', sg_mount_point = ''/mnt'', sg_weight = 0, sg_nblocks = 8, sg_protocol = NFS,
     sg_address = \<lparr>na_protocol = IPV4, na_address = ''10''\<rparr>\<rparr>"

definition example_inode :: sstack_inode where
  "example_inode = \<lparr>i_lock = False, i_num = 11, i_size = 0, i_replicas = 0, i_numclients = 0, i_primary = Some (Some 40), i_sfsds_null = True, i_extent = []\<rparr>"

definition example_state :: "(64 word \<rightharpoonup> sstack_inode) sd_state" where
  "example_state =
     \<lparr>sd_chunk = \<lparr>cd_num_chunks = 1, cd_size_in_blks = 8, cd_storage = Some [example_storage], cd_next = 0\<rparr>,
      sd_files = Map.empty, sd_db = [11 \<mapsto> example_inode]\<rparr>"

definition example_write :: "8 word list \<Rightarrow> sd_write" where
  "example_write x = \<lparr>wq_inode_no = 11, wq_offset = 0, wq_data = x, wq_num_plugins = 0,
     wq_extent_handle = \<lparr>fh_name_len = 0, fh_name = [], fh_proto = NFS, fh_address = \<lparr>na_protocol = IPV4, na_address = []\<rparr>\<rparr>\<rparr>"

lemma example_first_extent: "first_extent example_env (example_write x) example_inode example_state"
  by (simp add: first_extent_def example_env_def example_write_def example_inode_def example_state_def)

lemma example_ready: "chunk_ready 7 example_state"
  by (simp add: chunk_ready_def example_state_def Let_def cd_ok_def chunks_def next_chunk_def new_handle_def decimal.simps example_storage_def PATH_MAX_def)

section \<open>Theorems\<close>

text \<open>
  The first extent of a file, of at most 64K, written without plugins to a domain whose next device is
  found by its handles, is read back unchanged, with the checksum verified, by a later request
  for the handle that the write has stored in the inode.
\<close>

lemma sfsd_write_read:
  assumes f: "first_extent env cmd inode s" and c: "chunk_ready (se_now env) s"
    and w: "se_write env = Some n" "length (wq_data cmd) \<le> n" "length (wq_data cmd) \<le> MAX_EXTENT_SIZE"
    and r: "se_inode_mem env'" "se_get_inode env' = se_get_inode env" "se_crc env' = se_crc env" "se_buffer env' = Some buf"
      "se_open env'" "se_pread env' = Some k" "length (wq_data cmd) \<le> k"
  shows "\<exists>s'. handle_command env mnt mounted mem move blank (Write_Extent cmd) s =
      Inr (\<lparr>rs_command = NFS_WRITE_RSP, rs_command_ok = SSTACK_SUCCESS, rs_data = [], rs_file_wc = of_nat (length (wq_data cmd))\<rparr>, s') \<and>
    handle_command env' mnt mounted mem move blank
      (Read_Extent \<lparr>rq_inode_no = wq_inode_no cmd, rq_offset = 0, rq_read_ecode = False,
         rq_extent_handle = new_handle (next_chunk (sd_chunk s)) (se_now env)\<rparr>) s' =
      Inr (\<lparr>rs_command = NFS_READ_RSP, rs_command_ok = SSTACK_SUCCESS, rs_data = wq_data cmd, rs_file_wc = 0\<rparr>, s') \<and>
    se_get_inode env (wq_inode_no cmd) (sd_db s') =
      Inr (inode\<lparr>i_lock := True, i_replicas := 1,
        i_extent := [\<lparr>e_offset = 0, e_size = of_nat (length (wq_data cmd)), e_sizeondisk = of_nat (length (wq_data cmd)),
          e_cksum = se_crc env (wq_data cmd), e_numreplicas = 1, e_path = Some (new_handle (next_chunk (sd_chunk s)) (se_now env))\<rparr>],
        i_size := of_nat (length (wq_data cmd))\<rparr>)"
proof -
  define name where "name = extent_name (sg_mount_point (next_chunk (sd_chunk s))) (se_now env)"
  define e where "e = \<lparr>e_offset = 0, e_size = of_nat (length (wq_data cmd)), e_sizeondisk = of_nat (length (wq_data cmd)),
      e_cksum = se_crc env (wq_data cmd), e_numreplicas = 1, e_path = Some (new_handle (next_chunk (sd_chunk s)) (se_now env))\<rparr>"
  define ino where "ino = inode\<lparr>i_lock := True, i_replicas := 1, i_extent := [e], i_size := of_nat (length (wq_data cmd))\<rparr>"
  define s' where "s' = s\<lparr>sd_chunk := (sd_chunk s)\<lparr>cd_next := cd_next (sd_chunk s) + 1\<rparr>,
      sd_files := (sd_files s)(name \<mapsto> wq_data cmd), sd_db := se_put_inode env ino (sd_db s)\<rparr>"
  have wr: "sstack_write env cmd s = Inr (Some (SSTACK_SUCCESS, of_nat (length (wq_data cmd))), s')"
    using write_first_extent [OF f c w(1,2) e_def name_def] by (simp add: ino_def s'_def)
  have db: "se_get_inode env' (wq_inode_no cmd) (sd_db s') = Inr ino"
    using f r(2) by (simp add: first_extent_def s'_def ino_def)
  have ext: "get_extent (i_extent ino) (-1) (Some (new_handle (next_chunk (sd_chunk s)) (se_now env))) (sd_chunk s') True = Inr (0, name)"
    using ready_get_extent [OF c, of e "cd_next (sd_chunk s) + 1"] by (simp add: ino_def s'_def name_def e_def)
  have "read_check_extent env' (Some name) MAX_EXTENT_SIZE 0 True (e_cksum e) (Some buf) (sd_files s') =
      (int (length (wq_data cmd)), Some (wq_data cmd @ drop (length (wq_data cmd)) buf))"
    using w(3) r(3,5-7) by (simp add: read_check_extent_def pread_def s'_def e_def Let_def)
  then have "sstack_read env' \<lparr>rq_inode_no = wq_inode_no cmd, rq_offset = 0, rq_read_ecode = False,
      rq_extent_handle = new_handle (next_chunk (sd_chunk s)) (se_now env)\<rparr> s' = Inr (SSTACK_SUCCESS, wq_data cmd)"
    using r(1,4) db ext by (simp add: sstack_read_def Let_def ino_def) (simp add: e_def)
  then show ?thesis using wr db r(2) by (simp add: handle_command_def) (simp add: ino_def e_def)
qed

text \<open>
  After the first extent of a file is written, a request for a second one blocks: the inode was stored with its
  mutex taken, and every new extent takes it.
\<close>

theorem second_extent_blocks:
  assumes f: "first_extent env cmd inode s" and c: "chunk_ready (se_now env) s"
    and w: "se_write env = Some n" "length (wq_data cmd) \<le> n"
    and e: "se_inode_mem env'" "se_get_inode env' = se_get_inode env" "se_create env'" "se_open env'" "se_write env' = Some m"
    and cmd: "wq_inode_no cmd' = wq_inode_no cmd" "fh_name_len (wq_extent_handle cmd') = 0" "wq_offset cmd' = 0" "wq_num_plugins cmd' = 0"
  shows "\<exists>s'. sstack_write env cmd s = Inr (Some (SSTACK_SUCCESS, of_nat (length (wq_data cmd))), s') \<and> sstack_write env' cmd' s' = Inl Deadlock"
proof -
  obtain s' ino where s': "sstack_write env cmd s = Inr (Some (SSTACK_SUCCESS, of_nat (length (wq_data cmd))), s')"
      "se_get_inode env (wq_inode_no cmd) (sd_db s') = Inr ino" "i_lock ino" "sd_chunk s' = (sd_chunk s)\<lparr>cd_next := cd_next (sd_chunk s) + 1\<rparr>"
    using f write_first_extent [OF f c w refl refl] by (auto simp: first_extent_def)
  let ?st = "next_chunk (sd_chunk s')"
  have "new_extent env' cmd' s' = Inr (Some (extent_name (sg_mount_point ?st) (se_now env'), ?st),
      s'\<lparr>sd_chunk := (sd_chunk s')\<lparr>cd_next := cd_next (sd_chunk s') + 1\<rparr>,
        sd_files := (sd_files s')(extent_name (sg_mount_point ?st) (se_now env') \<mapsto>
          (case sd_files s' (extent_name (sg_mount_point ?st) (se_now env')) of None \<Rightarrow> [] | Some b \<Rightarrow> b))\<rparr>)"
    using new_extent_ok [of s' cmd' env', OF _ _ _ cmd(2) e(3) refl] c s'(4) by (simp add: chunk_ready_def Let_def)
  then have "sstack_write env' cmd' s' = Inl Deadlock"
    using e cmd s'(2,3) by (simp add: sstack_write_def write_update_extent_def add_extent_def Let_def)
  then show ?thesis using s'(1) by blast
qed

theorem second_extent_blocks_witness:
  "\<exists>s'. sstack_write example_env (example_write [1]) example_state = Inr (Some (SSTACK_SUCCESS, 1), s') \<and>
    sstack_write example_env (example_write [2]) s' = Inl Deadlock"
proof -
  have "se_now example_env = 7" "se_write example_env = Some 100" "se_inode_mem example_env" "se_create example_env" "se_open example_env"
    by (simp_all add: example_env_def)
  moreover have "wq_data (example_write x) = x" "wq_inode_no (example_write x) = 11" "fh_name_len (wq_extent_handle (example_write x)) = 0"
    "wq_offset (example_write x) = 0" "wq_num_plugins (example_write x) = 0" for x by (simp_all add: example_write_def)
  ultimately show ?thesis
    using second_extent_blocks [OF example_first_extent [of "[1]"], of 100 example_env 100 "example_write [2]"] example_ready by simp
qed

lemma find_chunk_none: "find_chunk (\<lambda>_. False) i n = None"
  by (induction n arbitrary: i) auto

lemma num_chunks_iff:
  assumes "cd_ok c"
  shows "cd_num_chunks c = 0 \<longleftrightarrow> chunks c = []" "cd_num_chunks c = 1 \<longleftrightarrow> length (chunks c) = 1"
  using assms unfolding cd_ok_def by (metis length_0_conv unat_0 unat_eq_zero, metis unat_1 word_unat_eq_iff)

text \<open>
  A storage command that updates a device fails, and one that removes a device fails unless the
  domain has exactly one device, which is then removed whichever device the command names.  None of them is
  answered with \<^verbatim>\<open>SSTACK_SUCCESS\<close>.
\<close>

theorem storage_update_remove:
  assumes "cd_ok (sd_chunk s)"
  shows "handle_command env mnt mounted mem move blank (Update_Storage st) s = Inr (storage_response SSTACK_UPDATE_STORAGE_RSP (-1), s) \<and>
    handle_command env mnt mounted mem move blank (Remove_Storage st) s =
      (if length (chunks (sd_chunk s)) = 1 then
         Inr (storage_response SSTACK_REMOVE_STORAGE_RSP 0,
           s\<lparr>sd_chunk := (sd_chunk s)\<lparr>cd_num_chunks := 0, cd_size_in_blks := cd_size_in_blks (sd_chunk s) - sg_nblocks st, cd_storage := None\<rparr>\<rparr>)
       else Inr (storage_response SSTACK_REMOVE_STORAGE_RSP (-1), s))"
proof -
  have "cd_storage (sd_chunk s) \<noteq> None" if "chunks (sd_chunk s) \<noteq> []" using that by (auto simp: chunks_def split: option.splits)
  then have up: "sfsd_update_chunk (\<lambda>_. False) (Some (sd_chunk s)) (Some st) = Inr (-1, Some (sd_chunk s))"
    using num_chunks_iff(1) [OF assms] by (auto simp: sfsd_update_chunk_def find_chunk_none)
  show ?thesis
    using num_chunks_iff [OF assms] by (auto simp: handle_command_def up sfsd_remove_chunk_def find_chunk_none)
qed

theorem storage_update_remove_witness:
  "handle_command example_env None True (True, True) (\<lambda>_ a _. a) example_storage (Remove_Storage (example_storage\<lparr>sg_path := ''/other''\<rparr>)) example_state =
     Inr (storage_response SSTACK_REMOVE_STORAGE_RSP 0,
       example_state\<lparr>sd_chunk := \<lparr>cd_num_chunks = 0, cd_size_in_blks = 0, cd_storage = None, cd_next = 0\<rparr>\<rparr>)"
  using storage_update_remove [of example_state example_env None True "(True, True)" "\<lambda>_ a _. a" example_storage "example_storage\<lparr>sg_path := ''/other''\<rparr>"]
  by (simp add: cd_ok_def chunks_def example_state_def) (simp add: example_storage_def)

end
