(* ===== verification/Data_Path.thy ===== *)
theory Data_Path
  imports File_Access Sfsd_Ops
begin

text \<open>
  The ends of the path of the data of a file: the requests that \<^verbatim>\<open>sfs_write\<close> and \<^verbatim>\<open>sfs_read\<close> build, as commands of the
  sfsd, and what they return for the responses of the sfsd.
\<close>

section \<open>Requests and responses\<close>

text \<open>The command that the sfsd receives; sfs leaves the policy entry of the payload cleared.\<close>

definition write_request :: "8 word list \<Rightarrow> io_payload \<Rightarrow> sd_write" where
  "write_request buf p =
     \<lparr>wq_inode_no = ip_inode_no p, wq_offset = ip_offset p,
      wq_data = take (unat (ip_data_len p)) (drop (unat (ip_data_buf p)) buf), wq_num_plugins = 0, wq_extent_handle = ip_extent_handle p\<rparr>"

definition read_request :: "io_payload \<Rightarrow> sd_read" where
  "read_request p =
     \<lparr>rq_inode_no = ip_inode_no p, rq_offset = ip_offset p, rq_read_ecode = ip_read_ecode p, rq_extent_handle = ip_extent_handle p\<rparr>"

text \<open>The response as sfs receives it in the payload \<open>p\<close>.\<close>

definition answer :: "sstack_payload \<Rightarrow> sd_response \<Rightarrow> sstack_payload \<times> io_response" where
  "answer p r =
     (p\<lparr>pl_command := rs_command r, command_ok := rs_command_ok r\<rparr>,
      \<lparr>rsp_command_ok = rs_command_ok r, rsp_data = rs_data r, rsp_file_wc = rs_file_wc r\<rparr>)"

text \<open>The request for the first extent of a file.\<close>

definition first_request :: "64 word \<Rightarrow> 8 word list \<Rightarrow> sd_write" where
  "first_request inum x =
     \<lparr>wq_inode_no = inum, wq_offset = 0, wq_data = x, wq_num_plugins = 0, wq_extent_handle = ip_extent_handle payload_zero\<rparr>"

text \<open>The payloads of the requests, as they have been filled in.\<close>

definition write_io :: "64 word \<Rightarrow> addr \<Rightarrow> 64 word \<Rightarrow> 8 word list \<Rightarrow> io_payload" where
  "write_io i job inum x =
     (fill_io NFS_WRITE i job inum 0 (of_nat (length x)) payload_zero)\<lparr>ip_data_len := of_nat (length x), ip_data_buf := 0\<rparr>"

definition read_io :: "64 word \<Rightarrow> addr \<Rightarrow> 64 word \<Rightarrow> nat \<Rightarrow> file_handle \<Rightarrow> io_payload" where
  "read_io i job inum n h = (fill_io NFS_READ i job inum 0 (of_nat n) payload_zero)\<lparr>ip_read_ecode := False, ip_extent_handle := h\<rparr>"

text \<open>The responses to them.\<close>

definition write_done :: "nat \<Rightarrow> sd_response" where
  "write_done n = \<lparr>rs_command = NFS_WRITE_RSP, rs_command_ok = SSTACK_SUCCESS, rs_data = [], rs_file_wc = of_nat n\<rparr>"

definition read_data :: "8 word list \<Rightarrow> sd_response" where
  "read_data x = \<lparr>rs_command = NFS_READ_RSP, rs_command_ok = SSTACK_SUCCESS, rs_data = x, rs_file_wc = 0\<rparr>"

text \<open>The threads of sfs: the job map of the request is unused and the queue of jobs is short enough to be sent in one go.\<close>

definition io_idle :: "(lane \<Rightarrow> addr list) \<Rightarrow> addr \<Rightarrow> io_state \<Rightarrow> bool" where
  "io_idle f m s \<longleftrightarrow> length (f (Jobs 0)) < 64 \<and> (\<forall>j \<in> set (f (Jobs 0)). sendable (st_jobs (cs_sfs s) j)) \<and>
     num_jobs_left (st_maps (cs_sfs s) m) = 0"

lemma io_requests:
  assumes "length x < 2 ^ 31"
  shows "write_request x (write_io i job inum x) = first_request inum x"
    "read_request (read_io i job inum n h) = \<lparr>rq_inode_no = inum, rq_offset = 0, rq_read_ecode = False, rq_extent_handle = h\<rparr>"
  using assms by (simp_all add: write_request_def write_io_def first_request_def read_request_def read_io_def fill_io_def unat_of_nat take_bit_nat_eq_self)

section \<open>Writing and reading a file\<close>

lemma small_words:
  assumes "k < 2 ^ 31"
  shows "unat (of_nat k :: 64 word) = k" "unat (of_nat k :: 32 word) = k"
  using assms by (simp_all add: unat_of_nat take_bit_nat_eq_self)

lemma length_words:
  assumes "length x < 2 ^ 31"
  shows "unat (of_nat (length x) :: 64 word) = length x" "x \<noteq> [] \<Longrightarrow> (ucast (of_nat (length x) :: 64 word) :: 32 word) \<noteq> 0"
proof -
  show u: "unat (of_nat (length x) :: 64 word) = length x" using assms by (rule small_words)
  show "(ucast (of_nat (length x) :: 64 word) :: 32 word) \<noteq> 0" if "x \<noteq> []"
    using u small_words(2) [OF assms] that by (metis length_0_conv unat_0 of_nat_unat)
qed

lemma write_path:
  assumes w: "io_ready I f env inum job m payload s" "io_idle f m s" "op_status (st_maps (cs_sfs s) m) \<noteq> []"
      "io_inode_num env path = Some inum" "io_get_inode env = Inr inode" "i_num inode = inum" "i_extent inode = []"
      "io_stat env = Some 0" "io_sfsds_mem env" "io_put_inode env" "pl_job_id p = next_job_id s"
    and x: "x \<noteq> []" "length x < 2 ^ 31"
  shows "\<exists>s'. sfs_write jtk jmk env (Some path) (of_nat (length x)) 0 [answer p (write_done (length x))] s =
      Some (Inr (Some (int (length x)), s')) \<and>
    finished I f job s s' \<and> io_payloads s' payload = write_io (next_job_id s) job inum x \<and>
    (io_accept_sfsd env, Some payload, next_job_id s) \<in> set (st_sent (cs_sfs s'))"
proof -
  note u = length_words(1) [OF x(2)] and nz = length_words(2) [OF x(2,1)]
  have "sint (of_nat (length x) :: 32 word) = int (length x)" using x(2) by (intro sint_of_nat_small) simp
  then show ?thesis
    using first_write_done [OF w(1,4) _ w(5,7-10) nz _ _ _ w(3), of 0 "fst (answer p (write_done (length x)))" "snd (answer p (write_done (length x)))" jtk jmk] w(2,6,11) u
    by (fastforce simp: answer_def write_done_def io_idle_def write_io_def)
qed

lemma read_path:
  assumes w: "io_ready I f env inum job m payload s" "io_idle f m s"
      "io_inode_num env path = Some inum" "io_get_inode env = Inr inode" "i_num inode = inum" "i_primary inode = Some (Some h)"
      "i_extent inode = [e]" "e_offset e = 0" "e_size e = of_nat (length x)" "i_size inode = of_nat (length x)" "e_path e = Some hdl"
      "pl_job_id p = next_job_id s"
    and x: "x \<noteq> []" "length x < 2 ^ 31" "length x \<le> length buf" "length x < unat sz"
  shows "\<exists>s'. sfs_read jtk jmk env (Some path) buf sz 0 [answer p (read_data x)] s = Some (Inr (Some (int (length x), x @ drop (length x) buf), s')) \<and>
    finished I f job s s' \<and>
    io_payloads s' payload = read_io (next_job_id s) job inum (length x) hdl \<and>
    (h, Some payload, next_job_id s) \<in> set (st_sent (cs_sfs s'))"
proof -
  note u = length_words(1) [OF x(2)] and nz = length_words(2) [OF x(2,1)]
  have "of_nat (length x) < sz" using x(4) u by (simp add: word_less_nat_alt)
  then have "tail_read inode sz 0 e"
    using w(7-10) nz by (simp add: tail_read_def covers_def)
  then show ?thesis
    using read_done [OF w(1,3) _ w(4,6) _ w(11), of 0 sz "fst (answer p (read_data x))" "snd (answer p (read_data x))" buf jtk jmk] w(2,5,8,9,12) x(2,3)
    by (fastforce simp: answer_def read_data_def io_idle_def read_io_def)
qed

end
