(* ===== verification/Inode_Record.thy ===== *)
theory Inode_Record
  imports SFS_Prelude
begin

text \<open>
  Inode records (\<^verbatim>\<open>common/src/sstack_helper.c\<close>): \<^verbatim>\<open>flatten_inode\<close> and \<^verbatim>\<open>put_inode\<close> turn an inode into the bytes
  of a database record, \<^verbatim>\<open>get_inode\<close> and \<^verbatim>\<open>fill_inode\<close> turn a record into an inode.  The structures of
  \<^verbatim>\<open>sstack_md.h\<close> are modelled as the bytes they have on x86_64; pointers are 64 bit words, with 0 the null
  pointer, and a heap maps the address of a block to its bytes.  Whether an allocation succeeds
  and where, what uninitialised memory holds, and the database are arguments.
\<close>

section \<open>Bytes\<close>

fun le_nat :: "8 word list \<Rightarrow> nat" where
  "le_nat [] = 0"
| "le_nat (x # xs) = unat x + 256 * le_nat xs"

fun le_bytes :: "nat \<Rightarrow> nat \<Rightarrow> 8 word list" where
  "le_bytes 0 v = []"
| "le_bytes (Suc n) v = of_nat (v mod 256) # le_bytes n (v div 256)"

definition rd32 :: "nat \<Rightarrow> 8 word list \<Rightarrow> 32 word" where
  "rd32 i b = of_nat (le_nat (take 4 (drop i b)))"

definition rd64 :: "nat \<Rightarrow> 8 word list \<Rightarrow> 64 word" where
  "rd64 i b = of_nat (le_nat (take 8 (drop i b)))"

text \<open>Reading \<open>n\<close> bytes from offset \<open>i\<close> of a block, and writing bytes there.\<close>

definition get_at :: "nat \<Rightarrow> nat \<Rightarrow> 8 word list \<Rightarrow> 8 word list exec" where
  "get_at i n b = (if i + n \<le> length b then Inr (take n (drop i b)) else Inl Bad_Access)"

definition put_at :: "nat \<Rightarrow> 8 word list \<Rightarrow> 8 word list \<Rightarrow> 8 word list exec" where
  "put_at i xs b = (if i + length xs \<le> length b then Inr (take i b @ xs @ drop (i + length xs) b) else Inl Bad_Access)"

text \<open>A block that is given \<open>n\<close> bytes by \<^verbatim>\<open>realloc\<close>; what is new holds \<open>junk\<close>.\<close>

definition resize :: "(nat \<Rightarrow> 8 word) \<Rightarrow> nat \<Rightarrow> 8 word list \<Rightarrow> 8 word list" where
  "resize junk n b = take n b @ map junk [length b..<n]"

type_synonym heap = "64 word \<Rightarrow> 8 word list option"

text \<open>Reading through a pointer; nothing is accessed for 0 bytes.\<close>

definition mem_read :: "heap \<Rightarrow> 64 word \<Rightarrow> nat \<Rightarrow> nat \<Rightarrow> 8 word list exec" where
  "mem_read h p i n =
     (if n = 0 then Inr []
      else if p = 0 then Inl Null_Deref
      else case h p of None \<Rightarrow> Inl Bad_Access | Some b \<Rightarrow> get_at i n b)"

lemma length_le_bytes [simp]: "length (le_bytes n v) = n"
  by (induction n arbitrary: v) auto

lemma le_nat_le_bytes: "le_nat (le_bytes n v) = v mod 256 ^ n"
proof (induction n arbitrary: v)
  case (Suc n)
  have "v mod 256 + 256 * (v div 256 mod 256 ^ n) = v mod 256 ^ Suc n"
    by (simp add: mod_mult2_eq [of v 256 "256 ^ n"])
  then show ?case using Suc by (simp add: unat_of_nat take_bit_nat_def)
qed simp

lemma get_at_Inr: "get_at i n b = Inr xs \<longleftrightarrow> i + n \<le> length b \<and> xs = take n (drop i b)"
  by (auto simp: get_at_def)

lemma put_at_Inr: "put_at i xs b = Inr c \<longleftrightarrow> i + length xs \<le> length b \<and> c = take i b @ xs @ drop (i + length xs) b"
  by (auto simp: put_at_def)

lemma unat_lt_64: "unat (p :: 64 word) < 2 ^ 64"
  using unsigned_less [where 'b = 64, of p] by simp

lemma rd64_le_bytes: "rd64 (length a) (a @ le_bytes 8 (unat p) @ c) = p"
  using unat_lt_64 [of p] by (simp add: rd64_def le_nat_le_bytes)

section \<open>Layout\<close>

text \<open>
  \<^verbatim>\<open>get_inode_fixed_fields_len\<close> and \<^verbatim>\<open>get_extent_fixed_fields_len\<close>, the sizes of \<^verbatim>\<open>sstack_extent_t\<close> and
  \<^verbatim>\<open>sstack_file_handle_t\<close>, and the offsets of the counters among the fixed fields.
\<close>

definition FIXED_LEN :: nat where "FIXED_LEN = 4272"
definition EXTENT_FIXED :: nat where "EXTENT_FIXED = 32"
definition EXTENT_SIZE :: nat where "EXTENT_SIZE = 40"
definition HANDLE_SIZE :: nat where "HANDLE_SIZE = 4152"

definition numclients :: "8 word list \<Rightarrow> 32 word" where "numclients b = rd32 4236 b"
definition numerasure :: "8 word list \<Rightarrow> 32 word" where "numerasure b = rd32 4240 b"
definition numextents :: "8 word list \<Rightarrow> 32 word" where "numextents b = rd32 4248 b"
definition xattrlen :: "8 word list \<Rightarrow> 32 word" where "xattrlen b = rd32 4252 b"
definition inum_of :: "8 word list \<Rightarrow> 64 word" where "inum_of b = rd64 4256 b"

definition numreplicas :: "8 word list \<Rightarrow> nat" where "numreplicas b = unat (rd32 28 b)"

lemmas layout = FIXED_LEN_def EXTENT_FIXED_def EXTENT_SIZE_def HANDLE_SIZE_def

record mem_inode =
  in_fixed :: "8 word list"
  in_xattr :: "64 word"
  in_erasure :: "64 word"
  in_extent :: "64 word"
  in_sfsds :: "64 word"

text \<open>The inode of \<^verbatim>\<open>sstack_create_inode\<close>, cleared.\<close>

definition new_inode :: mem_inode where
  "new_inode = \<lparr>in_fixed = replicate FIXED_LEN 0, in_xattr = 0, in_erasure = 0, in_extent = 0, in_sfsds = 0\<rparr>"

section \<open>From an inode to a record\<close>

text \<open>
  The extents, from number \<open>i\<close> with \<open>n\<close> to go; \<open>k\<close> counts the allocations, of which \<open>ok\<close> tells the
  outcome, and \<open>None\<close> is the null pointer that is returned without memory.
\<close>

fun flat_extents ::
  "(nat \<Rightarrow> bool) \<Rightarrow> heap \<Rightarrow> 64 word \<Rightarrow> nat \<Rightarrow> nat \<Rightarrow> nat \<Rightarrow> 8 word list \<Rightarrow> (8 word list \<times> nat) option exec" where
  "flat_extents ok h p i 0 k b = Inr (Some (b, k))"
| "flat_extents ok h p i (Suc n) k b =
     (if \<not> ok k then Inr None
      else
      exec_bind (mem_read h p (EXTENT_SIZE * i) EXTENT_FIXED) (\<lambda>fixed.
      if \<not> ok (k + 1) then Inr None
      else
      exec_bind (mem_read h p (EXTENT_SIZE * i + EXTENT_FIXED) 8) (\<lambda>q.
      exec_bind (mem_read h (rd64 0 q) 0 (numreplicas fixed * HANDLE_SIZE)) (\<lambda>paths.
      flat_extents ok h p (Suc i) n (k + 2) (b @ fixed @ paths)))))"

text \<open>
  Extended attributes: the address that \<^verbatim>\<open>realloc\<close> returns is not stored, so that the block may
  only be used if it has not \<open>moved\<close>.
\<close>

definition flat_xattr :: "bool \<Rightarrow> bool \<Rightarrow> heap \<Rightarrow> mem_inode \<Rightarrow> 8 word list \<Rightarrow> 8 word list option exec" where
  "flat_xattr ok moved h inode b =
     (if sint (xattrlen (in_fixed inode)) > 0 then
        if \<not> ok then Inr None
        else if moved then Inl Bad_Access
        else exec_bind (mem_read h (in_xattr inode) 0 (unat (xattrlen (in_fixed inode)))) (\<lambda>x. Inr (Some (b @ x)))
      else Inr (Some b))"

text \<open>
  Erasure code segments: the first round copies a whole extent to where there is room for its
  checksum only.
\<close>

definition flat_erasure :: "bool \<Rightarrow> heap \<Rightarrow> mem_inode \<Rightarrow> 8 word list \<Rightarrow> 8 word list option exec" where
  "flat_erasure ok h inode b =
     (if numerasure (in_fixed inode) = 0 then Inr (Some b)
      else if \<not> ok then Inr None
      else
      exec_bind (mem_read h (in_erasure inode) EXTENT_FIXED 8) (\<lambda>q.
      exec_bind (mem_read h (rd64 0 q) 0 HANDLE_SIZE) (\<lambda>_. Inl Bad_Access)))"

text \<open>
  The pointers to the sfsds, all but one, and the length of the record, in which all of them
  are counted.
\<close>

definition flat_sfsds :: "bool \<Rightarrow> heap \<Rightarrow> mem_inode \<Rightarrow> 8 word list \<Rightarrow> (8 word list \<times> 64 word) option exec" where
  "flat_sfsds ok h inode b =
     (let n = numclients (in_fixed inode) in
      if n = 0 then Inr (Some (b, of_nat (length b)))
      else if \<not> ok then Inr None
      else
      exec_bind (mem_read h (in_sfsds inode) 0 (unat (8 * scast (n - 1) :: 64 word))) (\<lambda>x.
      Inr (Some (b @ x, of_nat (length b) + 8 * scast n))))"

definition flatten_inode ::
  "(nat \<Rightarrow> bool) \<Rightarrow> bool \<Rightarrow> heap \<Rightarrow> mem_inode option \<Rightarrow> (8 word list \<times> 64 word) option exec" where
  "flatten_inode ok moved h inode =
     (case inode of None \<Rightarrow> Inr None | Some inode \<Rightarrow>
      if \<not> ok 0 then Inr None
      else
      exec_bind (flat_xattr (ok 1) moved h inode (in_fixed inode)) (\<lambda>r.
      case r of None \<Rightarrow> Inr None | Some b \<Rightarrow>
      exec_bind (flat_erasure (ok 2) h inode b) (\<lambda>r.
      case r of None \<Rightarrow> Inr None | Some b \<Rightarrow>
      exec_bind (flat_extents ok h (in_extent inode) 0 (nat (sint (numextents (in_fixed inode)))) 3 b) (\<lambda>r.
      case r of None \<Rightarrow> Inr None | Some (b, k) \<Rightarrow>
      flat_sfsds (ok k) h inode b))))"

section \<open>From a record to an inode\<close>

text \<open>
  \<open>al k\<close> is the address that allocation number \<open>k\<close> returns.  The structures of the record are
  changed in place: \<^verbatim>\<open>er\<close> and \<^verbatim>\<open>ex\<close> point into it.
\<close>

record fill_state =
  fs_data :: "8 word list"
  fs_heap :: heap
  fs_k :: nat

definition fs_alloc :: "64 word \<Rightarrow> 8 word list \<Rightarrow> fill_state \<Rightarrow> fill_state" where
  "fs_alloc p b s = s\<lparr>fs_heap := (fs_heap s)(p \<mapsto> b), fs_k := fs_k s + 1\<rparr>"

text \<open>\<^verbatim>\<open>realloc\<close> of a block at \<open>p\<close>, with its contents \<open>b\<close>, to a new address \<open>q\<close>.\<close>

definition fs_realloc :: "64 word \<Rightarrow> 64 word \<Rightarrow> 8 word list \<Rightarrow> fill_state \<Rightarrow> fill_state" where
  "fs_realloc p q b s = s\<lparr>fs_heap := ((fs_heap s)(p := None))(q \<mapsto> b), fs_k := fs_k s + 1\<rparr>"

definition block_of :: "heap \<Rightarrow> 64 word \<Rightarrow> 8 word list" where
  "block_of h p = (if p = 0 then [] else case h p of None \<Rightarrow> [] | Some b \<Rightarrow> b)"

text \<open>
  The erasure code segments, with \<open>n\<close> to go: position \<open>cur\<close> in the record, \<open>covered\<close> bytes from there,
  and the block \<open>p\<close> of the segments.  The result is an error or the block, \<open>covered\<close> and the state.
\<close>

fun fill_erasure ::
  "(nat \<Rightarrow> 64 word) \<Rightarrow> (nat \<Rightarrow> 8 word) \<Rightarrow> nat \<Rightarrow> nat \<Rightarrow> nat \<Rightarrow> 64 word \<Rightarrow> fill_state \<Rightarrow>
   (int + 64 word \<times> nat \<times> fill_state) exec" where
  "fill_erasure al junk cur 0 covered p s = Inr (Inr (p, covered, s))"
| "fill_erasure al junk cur (Suc n) covered p s =
     (let t = al (fs_k s) in
      if t = 0 then Inr (Inl (- ENOMEM))
      else
      exec_bind (get_at (cur + covered) HANDLE_SIZE (fs_data s)) (\<lambda>handle.
      exec_bind (put_at (FIXED_LEN + EXTENT_FIXED) (le_bytes 8 (unat t)) (fs_data s)) (\<lambda>d.
      let covered = covered + HANDLE_SIZE in
      exec_bind (get_at (cur + covered) 4 d) (\<lambda>cksum.
      exec_bind (put_at (FIXED_LEN + 24) cksum d) (\<lambda>d.
      let covered = covered + 4; s = fs_alloc t handle s\<lparr>fs_data := d\<rparr>; q = al (fs_k s) in
      if q = 0 then Inr (Inl (- ENOMEM))
      else
      exec_bind (get_at FIXED_LEN EXTENT_SIZE d) (\<lambda>er.
      exec_bind (put_at covered er (resize junk (EXTENT_SIZE + covered) (block_of (fs_heap s) p))) (\<lambda>b.
      fill_erasure al junk cur n (covered + 4) q (fs_realloc p q b s))))))))"

text \<open>The extents; the block of a failed \<^verbatim>\<open>realloc\<close> is used nevertheless.\<close>

fun fill_extents ::
  "(nat \<Rightarrow> 64 word) \<Rightarrow> (nat \<Rightarrow> 8 word) \<Rightarrow> nat \<Rightarrow> nat \<Rightarrow> nat \<Rightarrow> 64 word \<Rightarrow> fill_state \<Rightarrow>
   (int + 64 word \<times> nat \<times> fill_state) exec" where
  "fill_extents al junk cur 0 covered p s = Inr (Inr (p, covered, s))"
| "fill_extents al junk cur (Suc n) covered p s =
     exec_bind (get_at (cur + covered) EXTENT_FIXED (fs_data s)) (\<lambda>fixed.
     let t = al (fs_k s); len = numreplicas fixed * HANDLE_SIZE in
     if t = 0 then Inr (Inl (- ENOMEM))
     else
     exec_bind (get_at (cur + EXTENT_FIXED + covered) len (fs_data s)) (\<lambda>paths.
     exec_bind (put_at (cur + covered + EXTENT_FIXED) (le_bytes 8 (unat t)) (fs_data s)) (\<lambda>d.
     let s = fs_alloc t paths s\<lparr>fs_data := d\<rparr>; q = al (fs_k s) in
     if q = 0 then Inl Null_Deref
     else
     exec_bind (get_at (cur + covered) EXTENT_SIZE d) (\<lambda>ex.
     exec_bind (put_at covered ex (resize junk (EXTENT_SIZE + covered) (block_of (fs_heap s) p))) (\<lambda>b.
     fill_extents al junk cur n (covered + (EXTENT_SIZE + len)) q (fs_realloc p q b s))))))"

text \<open>The block of the sfsds, with what the record holds from \<open>cur\<close> on.\<close>

definition fill_sfsds ::
  "(nat \<Rightarrow> 64 word) \<Rightarrow> (nat \<Rightarrow> 8 word) \<Rightarrow> nat \<Rightarrow> 32 word \<Rightarrow> fill_state \<Rightarrow> (int + 64 word \<times> fill_state) exec" where
  "fill_sfsds al junk cur n s =
     (let p = al (fs_k s); b = map junk [0..<unat (8 * scast n :: 64 word)] in
      if p = 0 then Inr (Inl (- ENOMEM))
      else if sint n > 1 then
        exec_bind (get_at cur (8 * (unat n - 1)) (fs_data s)) (\<lambda>x.
        exec_bind (put_at 0 x b) (\<lambda>b. Inr (Inr (p, fs_alloc p b s))))
      else Inr (Inr (p, fs_alloc p b s)))"

text \<open>
  The extended attributes are copied to a block that nothing points to.  The check for null pointers
  is left out, since \<^verbatim>\<open>get_inode\<close> passes none.  Of an error only the
  result is kept track of, not the blocks that have been allocated before it.
\<close>

definition fill_xattr :: "(nat \<Rightarrow> 64 word) \<Rightarrow> fill_state \<Rightarrow> (int + nat \<times> fill_state) exec" where
  "fill_xattr al s =
     (let n = xattrlen (fs_data s); p = al (fs_k s) in
      if sint n > 0 then
        if p = 0 then Inr (Inl (- ENOMEM))
        else
          exec_bind (get_at FIXED_LEN (unat n) (fs_data s)) (\<lambda>x. Inr (Inr (FIXED_LEN + unat n, fs_alloc p x s)))
      else Inr (Inr (FIXED_LEN, s)))"

definition fill_inode ::
  "(nat \<Rightarrow> 64 word) \<Rightarrow> (nat \<Rightarrow> 8 word) \<Rightarrow> heap \<Rightarrow> 8 word list \<Rightarrow> mem_inode \<Rightarrow> (int \<times> mem_inode \<times> heap) exec" where
  "fill_inode al junk h b inode =
     exec_bind (get_at 0 FIXED_LEN b) (\<lambda>fixed.
     let inode = inode\<lparr>in_fixed := fixed\<rparr>; s = \<lparr>fs_data = b, fs_heap = h, fs_k = 0\<rparr> in
     exec_bind (fill_xattr al s) (\<lambda>r.
     case r of Inl e \<Rightarrow> Inr (e, inode, h) | Inr (cur, s) \<Rightarrow>
     exec_bind (fill_erasure al junk cur (unat (numerasure fixed)) 0 0 s) (\<lambda>r.
     case r of Inl e \<Rightarrow> Inr (e, inode, fs_heap s) | Inr (p, covered, s) \<Rightarrow>
     let inode = inode\<lparr>in_erasure := p\<rparr> in
     exec_bind (fill_extents al junk (FIXED_LEN + covered) (nat (sint (numextents fixed))) 0 0 s) (\<lambda>r.
     case r of Inl e \<Rightarrow> Inr (e, inode, fs_heap s) | Inr (p, covered, s) \<Rightarrow>
     let inode = inode\<lparr>in_extent := p\<rparr> in
     exec_bind (fill_sfsds al junk (FIXED_LEN + covered) (numclients fixed) s) (\<lambda>r.
     case r of Inl e \<Rightarrow> Inr (e, inode\<lparr>in_sfsds := 0\<rparr>, fs_heap s) | Inr (p, s) \<Rightarrow>
     Inr (0, inode\<lparr>in_sfsds := p\<rparr>, fs_heap s))))))"

section \<open>The database\<close>

text \<open>
  The operations of a database on its contents \<open>'s\<close>.  A look-up delivers its result and, unless it
  leaves the caller's pointer uninitialised, the record.
\<close>

record 's inode_db =
  db_insert :: "string \<Rightarrow> 8 word list \<Rightarrow> 's \<Rightarrow> (int \<times> 's) exec"
  db_update :: "string \<Rightarrow> 8 word list \<Rightarrow> 's \<Rightarrow> (int \<times> 's) exec"
  db_get :: "string \<Rightarrow> 's \<Rightarrow> (int \<times> 8 word list option) exec"

text \<open>The key of an inode, printed with \<^verbatim>\<open>%lld\<close>.\<close>

definition inode_str :: "64 word \<Rightarrow> string" where
  "inode_str n = (if sint n < 0 then CHR ''-'' # decimal (nat (- sint n)) else decimal (nat (sint n)))"

lemma inode_str_inj: "inode_str m = inode_str n \<longleftrightarrow> m = n"
proof -
  have "CHR ''-'' \<notin> set (decimal k)" for k using decimal_digits [of "CHR ''-''" k] by auto
  then have "CHR ''-'' # xs \<noteq> decimal k" "decimal k \<noteq> CHR ''-'' # xs" for xs k by (metis list.set_intros(1))+
  then show ?thesis
    by (auto simp: inode_str_def decimal_inj eq_nat_nat_iff signed_word_eqI)
qed

definition INODE_NUM_START :: "64 word" where "INODE_NUM_START = 2"

text \<open>
  The database is given as many bytes as the length of the record says; \<open>beyond\<close> is what follows
  the block in memory.
\<close>

definition put_inode ::
  "(nat \<Rightarrow> bool) \<Rightarrow> bool \<Rightarrow> 8 word list \<Rightarrow> heap \<Rightarrow> mem_inode option \<Rightarrow> 's inode_db option \<Rightarrow> int \<Rightarrow> 's \<Rightarrow> (int \<times> 's) exec" where
  "put_inode ok moved beyond h inode db update t =
     (case db of None \<Rightarrow> Inl Null_Deref | Some db \<Rightarrow>
      case inode of None \<Rightarrow> Inr (- EINVAL, t) | Some inode \<Rightarrow>
      if update < 0 \<or> update > 1 then Inr (- EINVAL, t)
      else
      let inode_num = inum_of (in_fixed inode) in
      if inode_num < INODE_NUM_START then Inr (- EINVAL, t)
      else
      exec_bind (flatten_inode ok moved h (Some inode)) (\<lambda>r.
      case r of None \<Rightarrow> Inr (-1, t) | Some (b, len) \<Rightarrow>
      if length (b @ beyond) < unat len then Inl Bad_Access
      else
      let b = take (unat len) (b @ beyond) in
      if update = 0 then
        exec_bind (db_insert db (inode_str inode_num) b t) (\<lambda>(r, t). Inr (if r = 1 then 0 else -2, t))
      else
        exec_bind (db_update db (inode_str inode_num) b t) (\<lambda>(r, t). Inr (if r > 0 then 0 else -2, t))))"

text \<open>Every result of the look-up but 0 counts as success.\<close>

definition get_inode ::
  "(nat \<Rightarrow> 64 word) \<Rightarrow> (nat \<Rightarrow> 8 word) \<Rightarrow> heap \<Rightarrow> 64 word \<Rightarrow> mem_inode option \<Rightarrow> 's inode_db option \<Rightarrow> 's \<Rightarrow>
   (int \<times> mem_inode option \<times> heap) exec" where
  "get_inode al junk h inode_num inode db t =
     (case db of None \<Rightarrow> Inl Null_Deref | Some db \<Rightarrow>
      case inode of None \<Rightarrow> Inr (- EINVAL, None, h) | Some inode \<Rightarrow>
      if inode_num < INODE_NUM_START then Inr (- EINVAL, Some inode, h)
      else
      exec_bind (db_get db (inode_str inode_num) t) (\<lambda>(r, record).
      if r = 0 then Inr (-1, Some inode, h)
      else
      case record of None \<Rightarrow> Inl Undefined | Some b \<Rightarrow>
      exec_bind (fill_inode al junk h b inode) (\<lambda>(r, inode, h). Inr (r, Some inode, h))))"

section \<open>Records\<close>

text \<open>The extent of number \<open>i\<close> of the block at \<open>p\<close>: its fixed fields and the bytes of its paths.\<close>

definition extent_at :: "heap \<Rightarrow> 64 word \<Rightarrow> nat \<Rightarrow> 8 word list" where
  "extent_at h p i = take EXTENT_FIXED (drop (EXTENT_SIZE * i) (block_of h p))"

definition path_at :: "heap \<Rightarrow> 64 word \<Rightarrow> nat \<Rightarrow> 64 word" where
  "path_at h p i = rd64 (EXTENT_SIZE * i + EXTENT_FIXED) (block_of h p)"

definition paths_at :: "heap \<Rightarrow> 64 word \<Rightarrow> nat \<Rightarrow> 8 word list" where
  "paths_at h p i = take (numreplicas (extent_at h p i) * HANDLE_SIZE) (block_of h (path_at h p i))"

lemma mem_read_Inr:
  "mem_read h p i n = Inr xs \<Longrightarrow> xs = take n (drop i (block_of h p)) \<and> length xs = n"
  by (auto simp: mem_read_def block_of_def get_at_Inr split: if_splits option.splits)

lemma rd64_take: "8 \<le> n \<Longrightarrow> rd64 0 (take n (drop i b)) = rd64 i b"
  by (simp add: rd64_def min_def)

text \<open>The extents are stored one after the other, each with its paths.\<close>

lemma flat_extents_bytes:
  assumes "flat_extents ok h p i n k b = Inr (Some (c, k'))"
  shows "c = b @ concat (map (\<lambda>j. extent_at h p j @ paths_at h p j) [i..<i + n]) \<and>
    (\<forall>j \<in> {i..<i + n}. length (extent_at h p j) = EXTENT_FIXED \<and>
       length (paths_at h p j) = numreplicas (extent_at h p j) * HANDLE_SIZE)"
  using assms
proof (induction n arbitrary: i k b)
  case (Suc n)
  obtain fixed q paths where r: "mem_read h p (EXTENT_SIZE * i) EXTENT_FIXED = Inr fixed"
    "mem_read h p (EXTENT_SIZE * i + EXTENT_FIXED) 8 = Inr q"
    "mem_read h (rd64 0 q) 0 (numreplicas fixed * HANDLE_SIZE) = Inr paths"
    "flat_extents ok h p (Suc i) n (k + 2) (b @ fixed @ paths) = Inr (Some (c, k'))"
    using Suc.prems by (auto simp: exec_bind_Inr_iff split: if_splits)
  have f: "fixed = extent_at h p i" "length fixed = EXTENT_FIXED"
    using mem_read_Inr [OF r(1)] unfolding extent_at_def by blast+
  have "rd64 0 q = path_at h p i" using mem_read_Inr [OF r(2)] by (simp add: path_at_def rd64_take)
  then have g: "paths = paths_at h p i" "length paths = numreplicas fixed * HANDLE_SIZE"
    using mem_read_Inr [OF r(3)] f(1) unfolding paths_at_def by auto
  have "[i..<i + Suc n] = i # [Suc i..<Suc i + n]" by (simp add: upt_rec)
  moreover have "{i..<i + Suc n} = insert i {Suc i..<Suc i + n}" by auto
  ultimately show ?case using Suc.IH [OF r(4)] f g by simp
qed simp

text \<open>What \<^verbatim>\<open>flatten_inode\<close> stores of the extended attributes and of the sfsds.\<close>

definition xattr_bytes :: "heap \<Rightarrow> mem_inode \<Rightarrow> 8 word list" where
  "xattr_bytes h inode =
     (if sint (xattrlen (in_fixed inode)) > 0 then take (unat (xattrlen (in_fixed inode))) (block_of h (in_xattr inode)) else [])"

definition extent_bytes :: "heap \<Rightarrow> mem_inode \<Rightarrow> 8 word list" where
  "extent_bytes h inode =
     concat (map (\<lambda>j. extent_at h (in_extent inode) j @ paths_at h (in_extent inode) j)
       [0..<nat (sint (numextents (in_fixed inode)))])"

definition sfsd_bytes :: "heap \<Rightarrow> mem_inode \<Rightarrow> 8 word list" where
  "sfsd_bytes h inode =
     (let n = numclients (in_fixed inode) in
      if n = 0 then [] else take (unat (8 * scast (n - 1) :: 64 word)) (block_of h (in_sfsds inode)))"

lemma flat_xattr_bytes:
  "flat_xattr ok moved h inode b = Inr (Some c) \<Longrightarrow> c = b @ xattr_bytes h inode \<and>
     length (xattr_bytes h inode) = nat (sint (xattrlen (in_fixed inode)))"
  by (auto simp: flat_xattr_def xattr_bytes_def exec_bind_Inr_iff dest!: mem_read_Inr simp: nat_sint_pos split: if_splits)

lemma flat_sfsds_bytes:
  "flat_sfsds ok h inode b = Inr (Some (c, len)) \<Longrightarrow> c = b @ sfsd_bytes h inode \<and>
     len = of_nat (length b) + 8 * scast (numclients (in_fixed inode)) \<and>
     (numclients (in_fixed inode) \<noteq> 0 \<longrightarrow> length (sfsd_bytes h inode) = unat (8 * scast (numclients (in_fixed inode) - 1) :: 64 word))"
  by (auto simp: flat_sfsds_def sfsd_bytes_def Let_def exec_bind_Inr_iff dest!: mem_read_Inr split: if_splits)

lemma flatten_bytes:
  assumes "flatten_inode ok moved h (Some inode) = Inr (Some (b, len))"
  shows "numerasure (in_fixed inode) = 0"
    "b = in_fixed inode @ xattr_bytes h inode @ extent_bytes h inode @ sfsd_bytes h inode"
    "length (xattr_bytes h inode) = nat (sint (xattrlen (in_fixed inode)))"
    "\<forall>j < nat (sint (numextents (in_fixed inode))). length (extent_at h (in_extent inode) j) = EXTENT_FIXED \<and>
       length (paths_at h (in_extent inode) j) = numreplicas (extent_at h (in_extent inode) j) * HANDLE_SIZE"
    "len = of_nat (length b - length (sfsd_bytes h inode)) + 8 * scast (numclients (in_fixed inode))"
    "numclients (in_fixed inode) \<noteq> 0 \<longrightarrow> length (sfsd_bytes h inode) = unat (8 * scast (numclients (in_fixed inode) - 1) :: 64 word)"
proof -
  obtain b1 b2 b3 k where r: "flat_xattr (ok 1) moved h inode (in_fixed inode) = Inr (Some b1)"
    "flat_erasure (ok 2) h inode b1 = Inr (Some b2)"
    "flat_extents ok h (in_extent inode) 0 (nat (sint (numextents (in_fixed inode)))) 3 b2 = Inr (Some (b3, k))"
    "flat_sfsds (ok k) h inode b3 = Inr (Some (b, len))"
    using assms by (auto simp: flatten_inode_def exec_bind_Inr_iff split: if_splits option.splits)
  have e: "numerasure (in_fixed inode) = 0" "b2 = b1"
    using r(2) by (auto simp: flat_erasure_def exec_bind_Inr_iff split: if_splits)
  note x = flat_xattr_bytes [OF r(1)] and ex = flat_extents_bytes [OF r(3)] and sf = flat_sfsds_bytes [OF r(4)]
  show "numerasure (in_fixed inode) = 0" by (fact e(1))
  show b: "b = in_fixed inode @ xattr_bytes h inode @ extent_bytes h inode @ sfsd_bytes h inode"
    using x ex sf e(2) by (simp add: extent_bytes_def)
  show "length (xattr_bytes h inode) = nat (sint (xattrlen (in_fixed inode)))" using x by blast
  show "\<forall>j < nat (sint (numextents (in_fixed inode))). length (extent_at h (in_extent inode) j) = EXTENT_FIXED \<and>
       length (paths_at h (in_extent inode) j) = numreplicas (extent_at h (in_extent inode) j) * HANDLE_SIZE"
    using ex by simp
  have "length b3 = length b - length (sfsd_bytes h inode)" using sf by simp
  then show "len = of_nat (length b - length (sfsd_bytes h inode)) + 8 * scast (numclients (in_fixed inode))"
    using sf by simp
  show "numclients (in_fixed inode) \<noteq> 0 \<longrightarrow> length (sfsd_bytes h inode) = unat (8 * scast (numclients (in_fixed inode) - 1) :: 64 word)"
    using sf by blast
qed

lemma sum_list_upt_sum: "sum_list (map f [0..<n]) = (\<Sum>j < n. f j)"
  for f :: "nat \<Rightarrow> nat"
  by (induction n) simp_all

lemma unat_of_nat_64: "m < 2 ^ 64 \<Longrightarrow> unat (of_nat m :: 64 word) = m"
  by (simp add: unat_of_nat take_bit_nat_eq_self)

lemma pointer_bytes:
  fixes n :: "32 word"
  assumes "0 < sint n"
  shows "unat (8 * scast (n - 1) :: 64 word) = 8 * (unat n - 1)" "(8 * scast n :: 64 word) = of_nat (8 * unat n)"
proof -
  have u: "sint n = int (unat n)" using nat_sint_pos [OF assms] assms by linarith
  have lt: "sint n < 2 ^ 31" using sint_lt [of n] by simp
  have c: "(scast n :: 64 word) = of_nat (unat n)" by (simp add: scast_eq u del: of_nat_unat)
  then show "(8 * scast n :: 64 word) = of_nat (8 * unat n)" by simp
  have n1: "1 \<le> unat n" using u assms by linarith
  then have "n - 1 = of_nat (unat n - 1)" by (simp add: of_nat_diff)
  moreover have "int (unat n) < int (2 ^ 31)" using u lt by simp
  then have "unat n - 1 < 2 ^ 31" by (simp only: of_nat_less_iff)
  ultimately have "(scast (n - 1) :: 64 word) = of_nat (unat n - 1)"
    by (simp add: scast_eq sint_of_nat_small del: of_nat_diff)
  then have "(8 * scast (n - 1) :: 64 word) = of_nat (8 * (unat n - 1))" by simp
  moreover have "8 * (unat n - 1) < 2 ^ 64" using \<open>unat n - 1 < 2 ^ 31\<close> by simp
  ultimately show "unat (8 * scast (n - 1) :: 64 word) = 8 * (unat n - 1)"
    by (metis unat_of_nat_64)
qed

text \<open>
  The layout of a record: the fixed fields, the extended attributes, each extent with its
  paths, and all but one of the pointers to the sfsds.  An inode with erasure code segments has none,
  and for an inode with sfsds the record is said to be 8 bytes longer than it is.
\<close>

theorem record_layout:
  assumes "flatten_inode ok moved h (Some inode) = Inr (Some (b, len))" "length (in_fixed inode) = FIXED_LEN"
    "0 < sint (numclients (in_fixed inode))"
  shows "numerasure (in_fixed inode) = 0 \<and>
    b = in_fixed inode @ xattr_bytes h inode @ extent_bytes h inode @ sfsd_bytes h inode \<and>
    length b = FIXED_LEN + nat (sint (xattrlen (in_fixed inode))) +
      (\<Sum>j < nat (sint (numextents (in_fixed inode))). EXTENT_FIXED + numreplicas (extent_at h (in_extent inode) j) * HANDLE_SIZE) +
      8 * (unat (numclients (in_fixed inode)) - 1) \<and>
    len = of_nat (length b + 8)"
proof -
  note f = flatten_bytes [OF assms(1)]
  let ?n = "nat (sint (numextents (in_fixed inode)))" and ?c = "numclients (in_fixed inode)"
  have ext: "length (extent_bytes h inode) =
      (\<Sum>j < ?n. EXTENT_FIXED + numreplicas (extent_at h (in_extent inode) j) * HANDLE_SIZE)"
    using f(4) by (simp add: extent_bytes_def length_concat comp_def sum_list_upt_sum)
  have "?c \<noteq> 0" using assms(3) by auto
  then have sf: "length (sfsd_bytes h inode) = 8 * (unat ?c - 1)" using f(6) pointer_bytes(1) [OF assms(3)] by simp
  have "1 \<le> unat ?c" using nat_sint_pos [OF assms(3)] assms(3) by linarith
  then have "length b - length (sfsd_bytes h inode) + 8 * unat ?c = length b + 8"
    using sf f(2) by simp
  then have "len = of_nat (length b + 8)" using f(5) pointer_bytes(2) [OF assms(3)] by (metis of_nat_add)
  then show ?thesis using f(1-3) ext sf assms(2) by simp
qed

section \<open>Reading a record\<close>

lemma rd32_append: "i + 4 \<le> length a \<Longrightarrow> rd32 i (a @ c) = rd32 i a"
  by (simp add: rd32_def)

lemma fixed_append:
  assumes "length a = FIXED_LEN"
  shows "numclients (a @ c) = numclients a" "numerasure (a @ c) = numerasure a" "numextents (a @ c) = numextents a"
    "xattrlen (a @ c) = xattrlen a"
  using assms by (simp_all add: numclients_def numerasure_def numextents_def xattrlen_def rd32_append layout)

lemma get_at_middle: "i = length a \<Longrightarrow> n = length x \<Longrightarrow> get_at i n (a @ x @ c) = Inr x"
  by (simp add: get_at_def)

lemma put_at_middle: "i = length a \<Longrightarrow> length x = length y \<Longrightarrow> put_at i x (a @ y @ c) = Inr (a @ x @ c)"
  by (simp add: put_at_def)

lemma put_at_start: "length x = length b \<Longrightarrow> put_at 0 x b = Inr x"
  by (simp add: put_at_def)

text \<open>A round of the loop over the extents.\<close>

lemma fill_extent_step:
  assumes "length ext = EXTENT_FIXED" "length paths = numreplicas ext * HANDLE_SIZE" "8 \<le> length (paths @ rest)"
    and al: "al k \<noteq> 0" "al (Suc k) \<noteq> 0" and a: "length a = cur + covered"
    and blk: "blk = resize junk (EXTENT_SIZE + covered) (block_of (h(al k \<mapsto> paths)) p)"
  shows "fill_extents al junk cur (Suc n) covered p \<lparr>fs_data = a @ ext @ paths @ rest, fs_heap = h, fs_k = k\<rparr> =
    fill_extents al junk cur n (covered + (EXTENT_SIZE + length paths)) (al (Suc k))
      \<lparr>fs_data = a @ ext @ le_bytes 8 (unat (al k)) @ drop 8 (paths @ rest),
       fs_heap = ((h(al k \<mapsto> paths))(p := None))(al (Suc k) \<mapsto> take covered blk @ ext @ le_bytes 8 (unat (al k)) @ drop (covered + EXTENT_SIZE) blk),
       fs_k = Suc (Suc k)\<rparr>"
proof -
  let ?p = "le_bytes 8 (unat (al k))"
  define d where "d = a @ ext @ ?p @ drop 8 (paths @ rest)"
  have split: "a @ ext @ paths @ rest = (a @ ext) @ take 8 (paths @ rest) @ drop 8 (paths @ rest)"
    by (simp only: append.assoc append_take_drop_id)
  have "put_at (cur + covered + EXTENT_FIXED) ?p (a @ ext @ paths @ rest) = Inr d"
    unfolding split using put_at_middle [of "cur + covered + EXTENT_FIXED" "a @ ext" ?p "take 8 (paths @ rest)"] assms(1,3) a
    by (simp add: d_def)
  moreover have "get_at (cur + EXTENT_FIXED + covered) (length paths) (a @ ext @ paths @ rest) = Inr paths"
    using get_at_middle [of "cur + EXTENT_FIXED + covered" "a @ ext" "length paths" paths rest] assms(1) a by simp
  moreover have "get_at (cur + covered) EXTENT_SIZE d = Inr (ext @ ?p)"
    using get_at_middle [of _ a EXTENT_SIZE "ext @ ?p" "drop 8 (paths @ rest)"] assms(1) a by (simp add: d_def layout)
  moreover have "put_at covered (ext @ ?p) blk = Inr (take covered blk @ ext @ ?p @ drop (covered + EXTENT_SIZE) blk)"
    using assms(1) by (simp add: blk put_at_def resize_def layout)
  moreover have "get_at (cur + covered) EXTENT_FIXED (a @ ext @ paths @ rest) = Inr ext"
    using get_at_middle [of _ a _ ext "paths @ rest"] assms(1) a by simp
  ultimately show ?thesis
    using al assms(2) by (simp add: Let_def fs_alloc_def fs_realloc_def blk d_def)
qed

lemma fill_one_extent:
  assumes "length ext = EXTENT_FIXED" "length paths = numreplicas ext * HANDLE_SIZE" "8 \<le> length (paths @ rest)"
    and al: "al k \<noteq> 0" "al (Suc k) \<noteq> 0"
  shows "\<exists>d. fill_extents al junk (length a) 1 0 0 \<lparr>fs_data = a @ ext @ paths @ rest, fs_heap = h, fs_k = k\<rparr> =
    Inr (Inr (al (Suc k), EXTENT_SIZE + length paths,
      \<lparr>fs_data = d, fs_heap = ((h(al k \<mapsto> paths))(0 := None))(al (Suc k) \<mapsto> ext @ le_bytes 8 (unat (al k))), fs_k = Suc (Suc k)\<rparr>))"
  using fill_extent_step [OF assms, of a "length a" 0 _ junk h 0 0] by (simp add: resize_def block_of_def del: fill_extents.simps(2))

text \<open>
  An inode as \<^verbatim>\<open>sfs_write\<close> stores it, with one sfsd, no extended attributes, no erasure code segments and at
  most one extent.
\<close>

definition plain_inode :: "mem_inode \<Rightarrow> bool" where
  "plain_inode inode \<longleftrightarrow> length (in_fixed inode) = FIXED_LEN \<and> numclients (in_fixed inode) = 1 \<and>
     sint (xattrlen (in_fixed inode)) \<le> 0 \<and> numerasure (in_fixed inode) = 0 \<and> sint (numextents (in_fixed inode)) \<le> 1"

definition same_extents :: "heap \<Rightarrow> mem_inode \<Rightarrow> heap \<Rightarrow> mem_inode \<Rightarrow> bool" where
  "same_extents h inode h' inode' \<longleftrightarrow>
     (\<forall>i < nat (sint (numextents (in_fixed inode))).
        extent_at h' (in_extent inode') i = extent_at h (in_extent inode) i \<and>
        paths_at h' (in_extent inode') i = paths_at h (in_extent inode) i)"

text \<open>The addresses of the blocks that reading a record with one extent allocates.\<close>

definition fresh3 :: "(nat \<Rightarrow> 64 word) \<Rightarrow> bool" where
  "fresh3 al \<longleftrightarrow> distinct [0, al 0, al 1, al 2]"

lemma fill_plain_none:
  assumes "length fixed = FIXED_LEN" "numclients fixed = 1" "sint (xattrlen fixed) \<le> 0" "numerasure fixed = 0"
    "sint (numextents fixed) \<le> 0" "al 0 \<noteq> 0"
  shows "\<exists>inode' h'. fill_inode al junk h (fixed @ rest) inode = Inr (0, inode', h') \<and> in_fixed inode' = fixed"
proof -
  have "nat (sint (numextents fixed)) = 0" using assms(5) by simp
  then show ?thesis
    using assms by (simp add: fill_inode_def get_at_def fill_xattr_def fixed_append fill_sfsds_def Let_def)
qed

lemma fill_plain_one:
  assumes "length fixed = FIXED_LEN" "numclients fixed = 1" "sint (xattrlen fixed) \<le> 0" "numerasure fixed = 0"
    "sint (numextents fixed) = 1" "fresh3 al"
    "length ext = EXTENT_FIXED" "length paths = numreplicas ext * HANDLE_SIZE" "8 \<le> length (paths @ rest)"
  shows "\<exists>inode' h'. fill_inode al junk h (fixed @ ext @ paths @ rest) inode = Inr (0, inode', h') \<and> in_fixed inode' = fixed \<and>
    extent_at h' (in_extent inode') 0 = ext \<and> paths_at h' (in_extent inode') 0 = paths"
proof -
  have al: "al 0 \<noteq> 0" "al (Suc 0) \<noteq> 0" "al (Suc (Suc 0)) \<noteq> 0" "al 0 \<noteq> al (Suc 0)" "al 0 \<noteq> al (Suc (Suc 0))"
    "al (Suc 0) \<noteq> al (Suc (Suc 0))"
    using assms(6) by (auto simp: fresh3_def numeral_2_eq_2)
  obtain d where d: "fill_extents al junk (length fixed) 1 0 0 \<lparr>fs_data = fixed @ ext @ paths @ rest, fs_heap = h, fs_k = 0\<rparr> =
    Inr (Inr (al (Suc 0), EXTENT_SIZE + length paths,
      \<lparr>fs_data = d, fs_heap = ((h(al 0 \<mapsto> paths))(0 := None))(al (Suc 0) \<mapsto> ext @ le_bytes 8 (unat (al 0))), fs_k = Suc (Suc 0)\<rparr>))"
    using fill_one_extent [OF assms(7-9) al(1,2), of junk fixed h] by blast
  define h' where "h' = (((h(al 0 \<mapsto> paths))(0 := None))(al (Suc 0) \<mapsto> ext @ le_bytes 8 (unat (al 0))))
      (al (Suc (Suc 0)) \<mapsto> map junk [0..<unat (8 * scast (1 :: 32 word) :: 64 word)])"
  define i' where "i' = inode\<lparr>in_fixed := fixed, in_erasure := 0, in_extent := al (Suc 0), in_sfsds := al (Suc (Suc 0))\<rparr>"
  have "fill_inode al junk h (fixed @ ext @ paths @ rest) inode = Inr (0, i', h')"
    using assms(1-5) al d
    by (simp add: fill_inode_def get_at_def fill_xattr_def fixed_append fill_sfsds_def Let_def fs_alloc_def h'_def i'_def
      del: fill_extents.simps)
  moreover have blocks: "block_of h' (al (Suc 0)) = ext @ le_bytes 8 (unat (al 0))" "block_of h' (al 0) = paths"
    using al by (simp_all add: block_of_def h'_def)
  moreover have "rd64 EXTENT_FIXED (ext @ le_bytes 8 (unat (al 0))) = al 0"
    using rd64_le_bytes [of ext "al 0" "[]"] assms(7) by simp
  ultimately show ?thesis
    using assms(7,8) by (simp add: extent_at_def paths_at_def path_at_def i'_def)
qed

text \<open>The record \<open>b\<close> was stored under a key by an insertion or an update.\<close>

definition stored :: "'s inode_db \<Rightarrow> int \<Rightarrow> string \<Rightarrow> 8 word list \<Rightarrow> 's \<Rightarrow> 's \<Rightarrow> bool" where
  "stored db update k b t t' \<longleftrightarrow>
     update = 0 \<and> db_insert db k b t = Inr (1, t') \<or> update = 1 \<and> (\<exists>r > 0. db_update db k b t = Inr (r, t'))"

lemma put_inode_stores:
  assumes put: "put_inode ok moved beyond h (Some inode) (Some db) update t = Inr (0, t')"
  shows "\<exists>b len. flatten_inode ok moved h (Some inode) = Inr (Some (b, len)) \<and> unat len \<le> length (b @ beyond) \<and>
    \<not> inum_of (in_fixed inode) < INODE_NUM_START \<and>
    stored db update (inode_str (inum_of (in_fixed inode))) (take (unat len) (b @ beyond)) t t'"
proof -
  let ?n = "inum_of (in_fixed inode)"
  have n: "\<not> ?n < INODE_NUM_START" "\<not> (update < 0 \<or> update > 1)"
    using put by (auto simp: put_inode_def Let_def split: if_splits)
  then obtain r where r: "flatten_inode ok moved h (Some inode) = Inr r"
    using put by (cases "flatten_inode ok moved h (Some inode)") (auto simp: put_inode_def Let_def)
  then obtain b len where b: "r = Some (b, len)"
    using put n by (cases r) (auto simp: put_inode_def Let_def)
  have len: "\<not> length (b @ beyond) < unat len" using put n r b by (auto simp: put_inode_def Let_def)
  have "update = 0 \<or> update = 1" using n(2) by linarith
  then have "stored db update (inode_str ?n) (take (unat len) (b @ beyond)) t t'"
    using put n r b len by (auto simp: put_inode_def Let_def stored_def exec_bind_Inr_iff split: if_splits)
  then show ?thesis using n(1) r b len by simp
qed

text \<open>The bytes of a plain inode in its record.\<close>

lemma plain_record:
  assumes fl: "flatten_inode ok moved h (Some inode) = Inr (Some (b, len))" and plain: "plain_inode inode"
  shows "b = in_fixed inode @ extent_bytes h inode" "unat len = length b + 8"
proof -
  note f = flatten_bytes [OF fl]
  have nc: "0 < sint (numclients (in_fixed inode))" "unat (numclients (in_fixed inode)) = 1" using plain by (simp_all add: plain_inode_def)
  have "sfsd_bytes h inode = []" using plain by (simp add: sfsd_bytes_def plain_inode_def)
  moreover have "xattr_bytes h inode = []" using f(3) plain by (simp add: plain_inode_def)
  ultimately show b: "b = in_fixed inode @ extent_bytes h inode" using f(2) by simp
  have "length (extent_bytes h inode) < 2 ^ 63"
  proof (cases "nat (sint (numextents (in_fixed inode))) = 0")
    case False
    then have one: "nat (sint (numextents (in_fixed inode))) = 1" using plain unfolding plain_inode_def by linarith
    have "numreplicas (extent_at h (in_extent inode) 0) < 2 ^ 32"
      using unsigned_less [where 'b = 32, of "rd32 28 (extent_at h (in_extent inode) 0)"] by (simp add: numreplicas_def)
    then show ?thesis using f(4) one by (simp add: extent_bytes_def layout)
  qed (simp add: extent_bytes_def)
  then have "length b + 8 < 2 ^ 64" using b plain by (simp add: plain_inode_def layout)
  moreover have "len = of_nat (length b + 8)"
    using f(5) \<open>sfsd_bytes h inode = []\<close> pointer_bytes(2) [OF nc(1)] nc(2) by simp
  ultimately show "unat len = length b + 8" by (metis unat_of_nat_64)
qed

lemma fill_plain:
  assumes fl: "flatten_inode ok moved h (Some inode) = Inr (Some (b, len))" and plain: "plain_inode inode"
    and al: "fresh3 al" and extra: "length extra = 8"
  shows "\<exists>inode' h'. fill_inode al junk h0 (b @ extra) new = Inr (0, inode', h') \<and>
    in_fixed inode' = in_fixed inode \<and> same_extents h inode h' inode'"
proof -
  note b = plain_record(1) [OF fl plain] and f = flatten_bytes [OF fl]
  have p: "length (in_fixed inode) = FIXED_LEN" "numclients (in_fixed inode) = 1" "sint (xattrlen (in_fixed inode)) \<le> 0"
    "numerasure (in_fixed inode) = 0" "sint (numextents (in_fixed inode)) \<le> 1"
    using plain by (simp_all add: plain_inode_def)
  show ?thesis
  proof (cases "sint (numextents (in_fixed inode)) \<le> 0")
    case True
    then have "al 0 \<noteq> 0" "extent_bytes h inode = []" using al by (auto simp: fresh3_def extent_bytes_def)
    then show ?thesis
      using fill_plain_none [OF p(1-4) True, of al junk h0 extra new] b True by (auto simp: same_extents_def)
  next
    case False
    then have one: "sint (numextents (in_fixed inode)) = 1" using p(5) by simp
    let ?e = "extent_at h (in_extent inode) 0" and ?q = "paths_at h (in_extent inode) 0"
    have "b @ extra = in_fixed inode @ ?e @ ?q @ extra" using b one by (simp add: extent_bytes_def)
    then show ?thesis
      using fill_plain_one [OF p(1-4) one al, of ?e ?q extra junk h0 new] f(4) one extra by (simp add: same_extents_def)
  qed
qed

text \<open>
  What is stored is read back: an inode with one sfsd, no extended attributes, no erasure code
  segments and at most one extent that \<^verbatim>\<open>put_inode\<close> has stored is returned by \<^verbatim>\<open>get_inode\<close> with the same fixed
  fields, the same extents and the same paths, given a database that returns the record last
  stored and memory at different addresses.
\<close>

lemma record_roundtrip:
  assumes put: "put_inode ok moved beyond h (Some inode) (Some db) update t = Inr (0, t')"
    and db: "\<And>b. flatten_inode ok moved h (Some inode) = Inr (Some (b, of_nat (length b + 8))) \<Longrightarrow>
      stored db update (inode_str (inum_of (in_fixed inode))) (b @ take 8 beyond) t t' \<Longrightarrow> length (take 8 beyond) = 8 \<Longrightarrow>
      \<exists>r. r \<noteq> 0 \<and> db_get db (inode_str (inum_of (in_fixed inode))) t'' = Inr (r, Some (b @ take 8 beyond))"
    and plain: "plain_inode inode" and al: "fresh3 al"
  shows "\<exists>inode' h'. get_inode al junk h0 (inum_of (in_fixed inode)) (Some new_inode) (Some db) t'' = Inr (0, Some inode', h') \<and>
    in_fixed inode' = in_fixed inode \<and> same_extents h inode h' inode'"
proof -
  let ?n = "inum_of (in_fixed inode)"
  obtain b len where fl: "flatten_inode ok moved h (Some inode) = Inr (Some (b, len))" "unat len \<le> length (b @ beyond)"
    and n: "\<not> ?n < INODE_NUM_START" and t': "stored db update (inode_str ?n) (take (unat len) (b @ beyond)) t t'"
    using put_inode_stores [OF put] by blast
  have rec: "take (unat len) (b @ beyond) = b @ take 8 beyond" "length (take 8 beyond) = 8"
    using plain_record(2) [OF fl(1) plain] fl(2) by simp_all
  moreover have "len = of_nat (length b + 8)" by (subst plain_record(2) [OF fl(1) plain, symmetric]) simp
  ultimately obtain r where "r \<noteq> 0" "db_get db (inode_str ?n) t'' = Inr (r, Some (b @ take 8 beyond))"
    using db [of b] fl(1) t' by auto
  then show ?thesis
    using fill_plain [OF fl(1) plain al rec(2), of junk h0 new_inode] n by (auto simp: get_inode_def)
qed

section \<open>What is not read back\<close>

lemma fill_inode_xattr:
  assumes "fill_inode al junk h b inode = Inr (r, inode', h')"
  shows "in_xattr inode' = in_xattr inode"
  using assms unfolding fill_inode_def exec_bind_def Let_def by (auto split: sum.split_asm prod.split_asm)

text \<open>
  An inode with extended attributes that has been read from the database can never be stored again:
  the pointer to the attributes is still null, and \<^verbatim>\<open>put_inode\<close> fails or crashes and leaves the
  database as it is.
\<close>

theorem xattr_inode_not_stored:
  assumes "get_inode al junk h inum (Some new_inode) db t = Inr (r, Some inode, h')" "0 < sint (xattrlen (in_fixed inode))"
  shows "case put_inode ok moved beyond h'' (Some inode) db update t of Inl c \<Rightarrow> True | Inr (r, t') \<Rightarrow> r < 0 \<and> t' = t"
proof -
  have "in_xattr inode = 0"
    using assms(1) fill_inode_xattr [of al junk h _ new_inode r inode h']
    by (auto simp: get_inode_def new_inode_def exec_bind_Inr_iff split: option.splits if_splits prod.splits)
  moreover have "unat (xattrlen (in_fixed inode)) \<noteq> 0" using nat_sint_pos [OF assms(2)] assms(2) by linarith
  ultimately have "flat_xattr ok' moved h'' inode b = Inr None \<or> (\<exists>c. flat_xattr ok' moved h'' inode b = Inl c)" for ok' b
    using assms(2) by (auto simp: flat_xattr_def mem_read_def)
  then have "flat_xattr (ok 1) moved h'' inode (in_fixed inode) = Inr None \<or>
      (\<exists>c. flat_xattr (ok 1) moved h'' inode (in_fixed inode) = Inl c)" .
  then have "flatten_inode ok moved h'' (Some inode) = Inr None \<or> (\<exists>c. flatten_inode ok moved h'' (Some inode) = Inl c)"
    by (elim disjE exE) (simp_all add: flatten_inode_def)
  then show ?thesis by (auto simp: put_inode_def Let_def split: option.splits)
qed

text \<open>
  Each block of extents starts with the one before it: what lies below \<open>covered\<close> stays.  The blocks of
  the paths are allocated in rounds with an even number and the blocks of the extents in odd ones.
\<close>

definition apart :: "(nat \<Rightarrow> 64 word) \<Rightarrow> bool" where
  "apart al \<longleftrightarrow> (\<forall>i j. al (2 * i) \<noteq> al (2 * j + 1))"

lemma fill_extents_Suc:
  assumes "fill_extents al junk cur (Suc n) covered p s = Inr (Inr (q, covered', s'))"
  shows "\<exists>fixed paths d ex b. get_at (cur + covered) EXTENT_FIXED (fs_data s) = Inr fixed \<and> al (fs_k s) \<noteq> 0 \<and> al (fs_k s + 1) \<noteq> 0 \<and>
    b = take covered (resize junk (EXTENT_SIZE + covered) (block_of ((fs_heap s)(al (fs_k s) \<mapsto> paths)) p)) @ ex \<and> length ex = EXTENT_SIZE \<and>
    fill_extents al junk cur n (covered + (EXTENT_SIZE + numreplicas fixed * HANDLE_SIZE)) (al (fs_k s + 1))
      \<lparr>fs_data = d, fs_heap = (((fs_heap s)(al (fs_k s) \<mapsto> paths))(p := None))(al (fs_k s + 1) \<mapsto> b), fs_k = fs_k s + 2\<rparr> =
      Inr (Inr (q, covered', s'))"
proof -
  obtain fixed where fixed: "get_at (cur + covered) EXTENT_FIXED (fs_data s) = Inr fixed"
    using assms by (auto simp: exec_bind_Inr_iff)
  let ?t = "al (fs_k s)" and ?len = "numreplicas fixed * HANDLE_SIZE"
  have t: "?t \<noteq> 0" using assms fixed by (auto simp: Let_def split: if_splits)
  then obtain paths d where pd: "get_at (cur + EXTENT_FIXED + covered) ?len (fs_data s) = Inr paths"
    "put_at (cur + covered + EXTENT_FIXED) (le_bytes 8 (unat ?t)) (fs_data s) = Inr d"
    using assms fixed by (auto simp: Let_def exec_bind_Inr_iff)
  define s1 where "s1 = fs_alloc ?t paths s\<lparr>fs_data := d\<rparr>"
  have q: "al (fs_k s1) \<noteq> 0" using assms fixed t pd by (auto simp: Let_def s1_def)
  then obtain ex b where eb: "get_at (cur + covered) EXTENT_SIZE d = Inr ex"
    "put_at covered ex (resize junk (EXTENT_SIZE + covered) (block_of (fs_heap s1) p)) = Inr b"
    using assms fixed t pd by (auto simp: Let_def exec_bind_Inr_iff s1_def)
  have step: "fill_extents al junk cur n (covered + (EXTENT_SIZE + ?len)) (al (fs_k s1)) (fs_realloc p (al (fs_k s1)) b s1) =
      Inr (Inr (q, covered', s'))"
    using assms fixed t pd q eb by (simp add: Let_def s1_def)
  have ex: "length ex = EXTENT_SIZE" using eb(1) by (auto simp: get_at_Inr)
  let ?z = "resize junk (EXTENT_SIZE + covered) (block_of (fs_heap s1) p)"
  have "length ?z = EXTENT_SIZE + covered" by (simp add: resize_def)
  then have "b = take covered ?z @ ex" using eb(2) ex by (simp add: put_at_Inr)
  moreover have "fs_realloc p (al (fs_k s1)) b s1 =
      \<lparr>fs_data = d, fs_heap = (((fs_heap s)(?t \<mapsto> paths))(p := None))(al (fs_k s + 1) \<mapsto> b), fs_k = fs_k s + 2\<rparr>"
    "fs_heap s1 = (fs_heap s)(?t \<mapsto> paths)" "fs_k s1 = fs_k s + 1"
    by (simp_all add: fs_realloc_def s1_def fs_alloc_def)
  ultimately show ?thesis using fixed t q ex step by auto
qed

lemma fill_extents_keeps:
  assumes "fill_extents al junk cur n covered p s = Inr (Inr (q, covered', s'))"
    and "apart al" "p \<noteq> 0" "fs_k s = 2 * i" "p = al (2 * j + 1)"
    and "m \<le> covered" "m \<le> length (block_of (fs_heap s) p)"
  shows "take m (block_of (fs_heap s') q) = take m (block_of (fs_heap s) p) \<and> q \<noteq> 0 \<and>
    (\<exists>j. q = al (2 * j + 1)) \<and> fs_k s' = 2 * (i + n)"
  using assms
proof (induction n arbitrary: covered p s i j)
  case 0
  then show ?case by auto
next
  case (Suc n)
  obtain fixed paths d ex b where r: "al (fs_k s + 1) \<noteq> 0"
    "b = take covered (resize junk (EXTENT_SIZE + covered) (block_of ((fs_heap s)(al (fs_k s) \<mapsto> paths)) p)) @ ex"
    "fill_extents al junk cur n (covered + (EXTENT_SIZE + numreplicas fixed * HANDLE_SIZE)) (al (fs_k s + 1))
      \<lparr>fs_data = d, fs_heap = (((fs_heap s)(al (fs_k s) \<mapsto> paths))(p := None))(al (fs_k s + 1) \<mapsto> b), fs_k = fs_k s + 2\<rparr> =
      Inr (Inr (q, covered', s'))"
    using fill_extents_Suc [OF Suc.prems(1)] by blast
  have "p \<noteq> al (fs_k s)" using Suc.prems(2,4,5) unfolding apart_def by metis
  then have "block_of ((fs_heap s)(al (fs_k s) \<mapsto> paths)) p = block_of (fs_heap s) p" by (simp add: block_of_def)
  then have b: "take m b = take m (block_of (fs_heap s) p)" "m \<le> length b"
    using r(2) Suc.prems(6,7) by (simp_all add: resize_def min_def)
  define h2 where "h2 = (((fs_heap s)(al (fs_k s) \<mapsto> paths))(p := None))(al (fs_k s + 1) \<mapsto> b)"
  have "block_of h2 (al (fs_k s + 1)) = b" using r(1) by (simp add: block_of_def h2_def)
  then show ?case
    using Suc.IH [OF r(3) [folded h2_def] Suc.prems(2) r(1), of "Suc i" i] Suc.prems(4,6) b by simp
qed

lemma fill_extents_error: "fill_extents al junk cur n covered p s = Inr (Inl e) \<Longrightarrow> e = - ENOMEM"
  by (induction al junk cur n covered p s rule: fill_extents.induct)
    (fastforce simp: Let_def exec_bind_Inr_iff split: if_split_asm)+

lemma fill_inode_extents:
  assumes "fill_inode al junk h b inode = Inr (0, inode', h')" "sint (xattrlen b) \<le> 0" "numerasure b = 0"
  shows "\<exists>covered s p. FIXED_LEN \<le> length b \<and> fill_extents al junk FIXED_LEN (nat (sint (numextents b))) 0 0 \<lparr>fs_data = b, fs_heap = h, fs_k = 0\<rparr> =
    Inr (Inr (in_extent inode', covered, s)) \<and> al (fs_k s) \<noteq> 0 \<and> h' = (fs_heap s)(al (fs_k s) \<mapsto> p)"
proof -
  have len: "FIXED_LEN \<le> length b" using assms(1) by (auto simp: fill_inode_def exec_bind_Inr_iff get_at_Inr)
  have f: "numerasure (take FIXED_LEN b) = numerasure b" "numextents (take FIXED_LEN b) = numextents b"
    using fixed_append [of "take FIXED_LEN b" "drop FIXED_LEN b"] len by simp_all
  let ?r = "fill_extents al junk FIXED_LEN (nat (sint (numextents b))) 0 0 \<lparr>fs_data = b, fs_heap = h, fs_k = 0\<rparr>"
  obtain r where r: "?r = Inr r"
    using assms len f by (cases ?r) (auto simp: fill_inode_def get_at_def fill_xattr_def Let_def)
  have "r \<noteq> Inl 0" using r fill_extents_error by fastforce
  then obtain q covered s where q: "r = Inr (q, covered, s)"
    using assms len f r by (cases r) (auto simp: fill_inode_def get_at_def fill_xattr_def Let_def)
  obtain p where "in_extent inode' = q" "al (fs_k s) \<noteq> 0" "h' = (fs_heap s)(al (fs_k s) \<mapsto> p)"
    using assms len f r q
    by (auto simp: fill_inode_def get_at_def fill_xattr_def Let_def fill_sfsds_def exec_bind_Inr_iff fs_alloc_def split: if_splits)
  then show ?thesis using len r q by blast
qed

text \<open>
  Of a record with two or more extents, the second extent of the inode is memory that nothing has been
  written to: the loop puts it behind the room for the paths of the first one.
\<close>

theorem second_extent_uninitialised:
  assumes "fill_inode al junk h b inode = Inr (0, inode', h')" "sint (xattrlen b) \<le> 0" "numerasure b = 0"
    "2 \<le> sint (numextents b)" "1 \<le> numreplicas (take EXTENT_FIXED (drop FIXED_LEN b))" "apart al"
  shows "extent_at h' (in_extent inode') 1 = map junk [EXTENT_SIZE..<EXTENT_SIZE + EXTENT_FIXED]"
proof -
  have "2 \<le> nat (sint (numextents b))" using assms(4) by simp
  then obtain n where n: "nat (sint (numextents b)) = Suc (Suc n)" by (metis add_2_eq_Suc le_Suc_ex)
  obtain c s p where fx: "FIXED_LEN \<le> length b" "fill_extents al junk FIXED_LEN (Suc (Suc n)) 0 0 \<lparr>fs_data = b, fs_heap = h, fs_k = 0\<rparr> =
      Inr (Inr (in_extent inode', c, s))" "h' = (fs_heap s)(al (fs_k s) \<mapsto> p)"
    using fill_inode_extents [OF assms(1-3)] n by auto
  obtain fixed paths1 d1 ex1 b1 where r1: "get_at (FIXED_LEN + 0) EXTENT_FIXED b = Inr fixed" "al (0 + 1) \<noteq> 0"
    "b1 = take 0 (resize junk (EXTENT_SIZE + 0) (block_of (h(al 0 \<mapsto> paths1)) 0)) @ ex1" "length ex1 = EXTENT_SIZE"
    "fill_extents al junk FIXED_LEN (Suc n) (0 + (EXTENT_SIZE + numreplicas fixed * HANDLE_SIZE)) (al (0 + 1))
      \<lparr>fs_data = d1, fs_heap = ((h(al 0 \<mapsto> paths1))(0 := None))(al (0 + 1) \<mapsto> b1), fs_k = 0 + 2\<rparr> =
      Inr (Inr (in_extent inode', c, s))"
    using fill_extents_Suc [OF fx(2), unfolded fill_state.simps] by blast
  define h1 where "h1 = ((h(al 0 \<mapsto> paths1))(0 := None))(al (0 + 1) \<mapsto> b1)"
  define c1 where "c1 = 0 + (EXTENT_SIZE + numreplicas fixed * HANDLE_SIZE)"
  have c1: "80 \<le> c1" using assms(5) r1(1) by (auto simp: c1_def get_at_Inr layout)
  have "al (0 + 2) \<noteq> al (0 + 1)" using assms(6) unfolding apart_def by (metis add_0 mult_0_right nat_mult_1_right)
  then have b1: "block_of (h1(al (0 + 2) \<mapsto> paths)) (al (0 + 1)) = ex1" for paths
    using r1(2,3) by (simp add: block_of_def h1_def)
  obtain fixed2 paths2 d2 ex2 b2 where r2: "al (0 + 2 + 1) \<noteq> 0"
    "b2 = take c1 (resize junk (EXTENT_SIZE + c1) (block_of (h1(al (0 + 2) \<mapsto> paths2)) (al (0 + 1)))) @ ex2"
    "fill_extents al junk FIXED_LEN n (c1 + (EXTENT_SIZE + numreplicas fixed2 * HANDLE_SIZE)) (al (0 + 2 + 1))
      \<lparr>fs_data = d2, fs_heap = ((h1(al (0 + 2) \<mapsto> paths2))(al (0 + 1) := None))(al (0 + 2 + 1) \<mapsto> b2), fs_k = 0 + 2 + 2\<rparr> =
      Inr (Inr (in_extent inode', c, s))"
    using fill_extents_Suc [OF r1(5) [folded h1_def c1_def], unfolded fill_state.simps] by blast
  define h2 where "h2 = ((h1(al (0 + 2) \<mapsto> paths2))(al (0 + 1) := None))(al (0 + 2 + 1) \<mapsto> b2)"
  have "block_of h2 (al (0 + 2 + 1)) = b2" using r2(1) by (simp add: block_of_def h2_def)
  then have t2: "take 80 (block_of h2 (al (0 + 2 + 1))) = ex1 @ map junk [EXTENT_SIZE..<80]" "80 \<le> length (block_of h2 (al (0 + 2 + 1)))"
    using c1 r1(4) r2(2) unfolding b1 by (simp_all add: resize_def layout take_map min_def)
  have k: "take 80 (block_of (fs_heap s) (in_extent inode')) = ex1 @ map junk [EXTENT_SIZE..<80]" "fs_k s = 2 * (2 + n)"
    "\<exists>j. in_extent inode' = al (2 * j + 1)" "in_extent inode' \<noteq> 0"
    using fill_extents_keeps [OF r2(3) [folded h2_def] assms(6) r2(1), of 2 1 80] c1 t2 by (simp_all add: numeral_3_eq_3)
  have "in_extent inode' \<noteq> al (fs_k s)" using k(2,3) assms(6) unfolding apart_def by metis
  then have "block_of h' (in_extent inode') = block_of (fs_heap s) (in_extent inode')" using fx(3) by (simp add: block_of_def)
  then have "take 80 (block_of h' (in_extent inode')) = ex1 @ map junk [EXTENT_SIZE..<80]" using k(1) by simp
  then have "take EXTENT_FIXED (drop EXTENT_SIZE (take 80 (block_of h' (in_extent inode')))) =
      map junk [EXTENT_SIZE..<EXTENT_SIZE + EXTENT_FIXED]"
    using r1(4) by (simp add: layout take_map)
  then show ?thesis by (simp add: extent_at_def layout drop_take)
qed

section \<open>Concrete records\<close>

text \<open>The fixed fields of inode \<open>i\<close>, and of inode 7, with the given numbers of sfsds, extents and bytes of attributes.\<close>

definition numbered_fixed :: "nat \<Rightarrow> nat \<Rightarrow> nat \<Rightarrow> nat \<Rightarrow> 8 word list" where
  "numbered_fixed i c n x = replicate 4236 0 @ le_bytes 4 c @ replicate 8 0 @ le_bytes 4 n @ le_bytes 4 x @ le_bytes 8 i @ replicate 8 0"

abbreviation sample_fixed :: "nat \<Rightarrow> nat \<Rightarrow> nat \<Rightarrow> 8 word list" where
  "sample_fixed \<equiv> numbered_fixed 7"

lemma numbered_fixed_fields:
  "length (numbered_fixed i c n x) = FIXED_LEN"
  "numclients (numbered_fixed i c n x) = of_nat c" "numextents (numbered_fixed i c n x) = of_nat n" "xattrlen (numbered_fixed i c n x) = of_nat x"
  "numerasure (numbered_fixed i c n x) = 0" "inum_of (numbered_fixed i c n x) = of_nat i"
proof -
  have z: "le_nat (replicate k 0) = 0" for k by (induction k) simp_all
  have m: "(of_nat (k mod 4294967296) :: 32 word) = of_nat k" "(of_nat (k mod 18446744073709551616) :: 64 word) = of_nat k" for k
    by (simp_all add: word_of_nat_eq_iff take_bit_nat_def)
  show "length (numbered_fixed i c n x) = FIXED_LEN" by (simp add: numbered_fixed_def layout)
  show "numclients (numbered_fixed i c n x) = of_nat c" "numextents (numbered_fixed i c n x) = of_nat n"
    "xattrlen (numbered_fixed i c n x) = of_nat x" "numerasure (numbered_fixed i c n x) = 0" "inum_of (numbered_fixed i c n x) = of_nat i"
    by (simp_all add: numbered_fixed_def numclients_def numextents_def xattrlen_def numerasure_def inum_of_def rd32_def rd64_def
        le_nat_le_bytes m z)
qed

lemma sample_fixed_fields:
  "length (sample_fixed c n x) = FIXED_LEN"
  "numclients (sample_fixed c n x) = of_nat c" "numextents (sample_fixed c n x) = of_nat n" "xattrlen (sample_fixed c n x) = of_nat x"
  "numerasure (sample_fixed c n x) = 0" "inum_of (sample_fixed c n x) = 7"
  using numbered_fixed_fields [of 7 c n x] by simp_all

text \<open>An extent of 5 bytes at offset 0 with one replica.\<close>

definition sample_ext :: "8 word list" where
  "sample_ext = replicate 8 0 @ le_bytes 8 5 @ replicate 12 0 @ le_bytes 4 1"

lemma sample_ext_fields: "length sample_ext = EXTENT_FIXED" "numreplicas sample_ext = 1"
  by (simp_all add: sample_ext_def layout numreplicas_def rd32_def le_nat_le_bytes)

definition sample_heap :: heap where
  "sample_heap = (\<lambda>_. None)(1 \<mapsto> sample_ext @ le_bytes 8 2, 2 \<mapsto> replicate HANDLE_SIZE 65)"

definition sample_mem :: "nat \<Rightarrow> mem_inode" where
  "sample_mem x = \<lparr>in_fixed = sample_fixed 1 1 x, in_xattr = 0, in_erasure = 0, in_extent = 1, in_sfsds = 0\<rparr>"

lemma sample_blocks:
  "mem_read sample_heap 1 0 EXTENT_FIXED = Inr sample_ext" "mem_read sample_heap 1 EXTENT_FIXED 8 = Inr (le_bytes 8 2)"
  "rd64 0 (le_bytes 8 2) = 2" "mem_read sample_heap 2 0 HANDLE_SIZE = Inr (replicate HANDLE_SIZE 65)"
  using sample_ext_fields(1) rd64_le_bytes [of "[]" 2 "[]"]
  by (simp_all add: mem_read_def sample_heap_def get_at_def layout del: le_bytes.simps)

lemma sample_flatten:
  "flatten_inode (\<lambda>_. True) False sample_heap (Some (sample_mem 0)) =
     Inr (Some (sample_fixed 1 1 0 @ sample_ext @ replicate HANDLE_SIZE 65, of_nat (FIXED_LEN + EXTENT_FIXED + HANDLE_SIZE + 8)))"
  using sample_blocks sample_fixed_fields [of 1 1 0] sample_ext_fields
  by (simp add: flatten_inode_def flat_xattr_def flat_erasure_def flat_sfsds_def sample_mem_def mem_read_def [of _ 0])

text \<open>A database of one record, and addresses for blocks.\<close>

definition sample_db :: "8 word list option inode_db" where
  "sample_db = \<lparr>db_insert = (\<lambda>_ b _. Inr (1, Some b)), db_update = (\<lambda>_ b _. Inr (1, Some b)), db_get = (\<lambda>_ t. Inr (1, t))\<rparr>"

definition sample_al :: "nat \<Rightarrow> 64 word" where
  "sample_al k = (if even k then if k = 0 then 12 else 13 else 11)"

lemma sample_al_ok: "fresh3 sample_al" "apart sample_al" "sample_al k \<noteq> 0"
  by (simp_all add: fresh3_def apart_def sample_al_def)

theorem record_layout_witness:
  "\<exists>b len. flatten_inode (\<lambda>_. True) False sample_heap (Some (sample_mem 0)) = Inr (Some (b, len)) \<and>
     length b = 8456 \<and> len = of_nat (length b + 8)"
proof -
  have "0 < sint (numclients (in_fixed (sample_mem 0)))" "length (in_fixed (sample_mem 0)) = FIXED_LEN"
    using sample_fixed_fields [of 1 1 0] by (simp_all add: sample_mem_def)
  note record_layout [OF sample_flatten this(2,1)]
  moreover have "length (sample_fixed 1 1 0 @ sample_ext @ replicate HANDLE_SIZE 65) = 8456"
    using sample_fixed_fields(1) sample_ext_fields(1) by (simp add: layout)
  ultimately show ?thesis using sample_flatten by blast
qed

theorem xattr_inode_not_stored_witness:
  "\<exists>inode h'. get_inode sample_al (\<lambda>_. 0) (\<lambda>_. None) 7 (Some new_inode) (Some sample_db) (Some (sample_fixed 1 0 4 @ replicate 4 1)) =
      Inr (0, Some inode, h') \<and>
    (case put_inode (\<lambda>_. True) False [] h' (Some inode) (Some sample_db) 1 (Some (sample_fixed 1 0 4 @ replicate 4 1)) of
       Inl c \<Rightarrow> True | Inr (r, t') \<Rightarrow> r < 0 \<and> t' = Some (sample_fixed 1 0 4 @ replicate 4 1))"
proof -
  let ?b = "sample_fixed 1 0 4 @ replicate 4 1"
  have f: "length (sample_fixed 1 0 4) = FIXED_LEN" "numclients (sample_fixed 1 0 4) = 1" "numextents (sample_fixed 1 0 4) = 0"
    "xattrlen (sample_fixed 1 0 4) = 4" "numerasure (sample_fixed 1 0 4) = 0"
    using sample_fixed_fields [of 1 0 4] by simp_all
  then obtain inode h' where g: "get_inode sample_al (\<lambda>_. 0) (\<lambda>_. None) 7 (Some new_inode) (Some sample_db) (Some ?b) =
      Inr (0, Some inode, h')" "in_fixed inode = sample_fixed 1 0 4"
    using sample_al_ok(3)
    by (simp add: get_inode_def INODE_NUM_START_def sample_db_def fill_inode_def get_at_def fill_xattr_def fixed_append fill_sfsds_def
        Let_def)
  then have "0 < sint (xattrlen (in_fixed inode))" using f(4) by simp
  from xattr_inode_not_stored [OF g(1) this] g(1) show ?thesis by blast
qed

lemma sample_two_extents:
  "\<exists>p c s. fill_extents sample_al junk FIXED_LEN 2 0 0
     \<lparr>fs_data = sample_fixed 1 2 0 @ sample_ext @ replicate HANDLE_SIZE 65 @ replicate 80 0, fs_heap = h, fs_k = 0\<rparr> = Inr (Inr (p, c, s))"
proof -
  let ?p = "le_bytes 8 (unat (sample_al 0))" and ?q = "replicate HANDLE_SIZE (65 :: 8 word)" and ?r = "replicate 80 (0 :: 8 word)"
  let ?a = "sample_fixed 1 2 0 @ sample_ext @ ?p @ replicate (HANDLE_SIZE - 8) 65 @ replicate 8 0"
  have len: "length (sample_fixed 1 2 0) = FIXED_LEN" "length sample_ext = EXTENT_FIXED"
    using sample_fixed_fields(1) sample_ext_fields(1) by blast+
  have "replicate 80 (0 :: 8 word) = replicate 8 0 @ replicate 32 0 @ replicate 40 0"
    by (simp add: replicate_add [symmetric])
  then have d: "sample_fixed 1 2 0 @ sample_ext @ ?p @ drop 8 (?q @ ?r) = ?a @ replicate 32 0 @ [] @ replicate 40 0"
    by (simp add: layout)
  have a: "length ?a = FIXED_LEN + (0 + (EXTENT_SIZE + length ?q))" using len by (simp add: layout)
  have nr: "numreplicas (replicate 32 0) = 0"
  proof -
    have "le_nat (replicate k 0) = 0" for k by (induction k) simp_all
    then show ?thesis by (simp add: numreplicas_def rd32_def)
  qed
  obtain h1 where "fill_extents sample_al junk FIXED_LEN (Suc (Suc 0)) 0 0
      \<lparr>fs_data = sample_fixed 1 2 0 @ sample_ext @ ?q @ ?r, fs_heap = h, fs_k = 0\<rparr> =
    fill_extents sample_al junk FIXED_LEN (Suc 0) (0 + (EXTENT_SIZE + length ?q)) (sample_al (Suc 0))
      \<lparr>fs_data = ?a @ replicate 32 0 @ [] @ replicate 40 0, fs_heap = h1, fs_k = Suc (Suc 0)\<rparr>"
    using fill_extent_step [of sample_ext ?q ?r sample_al 0 "sample_fixed 1 2 0" FIXED_LEN 0 _ junk h 0 "Suc 0"] sample_ext_fields len
      sample_al_ok(3) unfolding d by simp
  then show ?thesis
    using fill_extent_step [of "replicate 32 0" "[]" "replicate 40 0" sample_al "Suc (Suc 0)" ?a FIXED_LEN _ _ junk h1 _ 0, OF _ _ _ _ _ a]
      nr sample_al_ok(3) by (simp add: layout numeral_2_eq_2 del: fill_extents.simps(2))
qed

theorem second_extent_uninitialised_witness:
  "\<exists>inode h'. fill_inode sample_al (\<lambda>_. 165) (\<lambda>_. None) (sample_fixed 1 2 0 @ sample_ext @ replicate HANDLE_SIZE 65 @ replicate 80 0) new_inode =
      Inr (0, inode, h') \<and> extent_at h' (in_extent inode) 1 = replicate EXTENT_FIXED 165"
proof -
  let ?b = "sample_fixed 1 2 0 @ sample_ext @ replicate HANDLE_SIZE 65 @ replicate 80 0"
  have f: "length (sample_fixed 1 2 0) = FIXED_LEN" "numclients (sample_fixed 1 2 0) = 1" "numextents (sample_fixed 1 2 0) = 2"
    "xattrlen (sample_fixed 1 2 0) = 0" "numerasure (sample_fixed 1 2 0) = 0"
    using sample_fixed_fields [of 1 2 0] by simp_all
  obtain p c s where s: "fill_extents sample_al (\<lambda>_. 165) FIXED_LEN 2 0 0 \<lparr>fs_data = ?b, fs_heap = (\<lambda>_. None), fs_k = 0\<rparr> = Inr (Inr (p, c, s))"
    using sample_two_extents by blast
  obtain inode h' where i: "fill_inode sample_al (\<lambda>_. 165) (\<lambda>_. None) ?b new_inode = Inr (0, inode, h')"
    using s f sample_al_ok(3)
    by (simp add: fill_inode_def get_at_def fill_xattr_def fixed_append fill_sfsds_def Let_def del: fill_extents.simps)
  have "1 \<le> numreplicas (take EXTENT_FIXED (drop FIXED_LEN ?b))" using f(1) sample_ext_fields by simp
  then have "extent_at h' (in_extent inode) 1 = map (\<lambda>_. 165) [EXTENT_SIZE..<EXTENT_SIZE + EXTENT_FIXED]"
    using second_extent_uninitialised [OF i _ _ _ _ sample_al_ok(2)] f by (simp add: fixed_append)
  then show ?thesis using i by (simp add: map_replicate_const)
qed

end
