(* ===== verification/Mongo_Store.thy ===== *)
theory Mongo_Store
  imports Inode_Record "HOL-Library.Multiset"
begin

text \<open>
  The database back end that sfs and sfsd register (\<^verbatim>\<open>db/mongo/src/mongo_db.c\<close>): records of four types, each type
  in a collection of its own.  The MongoDB driver and server are a parameter, whose documented
  behaviour \<open>driver_ok\<close> states; outcomes of the \<^verbatim>\<open>bson_append\<close> functions and of \<^verbatim>\<open>malloc\<close> are fields of an environment.
  Every path that takes \<^verbatim>\<open>mongo_db_lock\<close> releases it before it returns, and the lock is left out.
\<close>

section \<open>Types\<close>

datatype db_type = POLICY_TYPE | INODE_TYPE | JOURNAL_TYPE | CONFIG_TYPE | MAX_TYPE

text \<open>A document: the key, the length, and the binary with the name it is stored under.\<close>

record document =
  doc_num :: string
  doc_length :: "32 word"
  doc_name :: string
  doc_binary :: "8 word list"

text \<open>
  The driver, on a state \<open>'c\<close> of client and server: whether a collection is found, inserting a document, removing a
  document with a key, the first document that a cursor delivers for a key, its error,
  replacing a document with a key by another one, and dropping a collection.
\<close>

record 'c mongo_driver =
  md_collection :: "string \<Rightarrow> 'c \<Rightarrow> bool"
  md_insert :: "string \<Rightarrow> document \<Rightarrow> 'c \<Rightarrow> bool \<times> 'c"
  md_remove :: "string \<Rightarrow> string \<Rightarrow> 'c \<Rightarrow> bool \<times> 'c"
  md_find :: "string \<Rightarrow> string \<Rightarrow> 'c \<Rightarrow> document option"
  md_cursor_error :: "string \<Rightarrow> string \<Rightarrow> 'c \<Rightarrow> bool"
  md_modify :: "string \<Rightarrow> string \<Rightarrow> document \<Rightarrow> 'c \<Rightarrow> bool \<times> 'c"
  md_drop :: "string \<Rightarrow> 'c \<Rightarrow> bool \<times> 'c"

text \<open>
  \<open>me_append i\<close> is the outcome of the \<open>i\<close>-th call that adds to a document, \<open>me_junk\<close> what new memory holds, and
  \<open>me_freed\<close> what the memory of a document holds after its cursor has been destroyed, \<open>None\<close> if it can no longer be accessed.
\<close>

record mongo_env =
  me_append :: "nat \<Rightarrow> bool"
  me_mem :: bool
  me_junk :: "nat \<Rightarrow> 8 word"
  me_freed :: "document \<Rightarrow> document option"

section \<open>Operations\<close>

fun get_collection_name :: "db_type \<Rightarrow> string option" where
  "get_collection_name POLICY_TYPE = Some ''policy''"
| "get_collection_name INODE_TYPE = Some ''inodes''"
| "get_collection_name JOURNAL_TYPE = Some ''journal''"
| "get_collection_name CONFIG_TYPE = Some ''config''"
| "get_collection_name MAX_TYPE = None"

fun construct_record_name :: "db_type \<Rightarrow> string option" where
  "construct_record_name POLICY_TYPE = Some ''policy_struct''"
| "construct_record_name INODE_TYPE = Some ''inode_struct''"
| "construct_record_name JOURNAL_TYPE = Some ''journal_struct''"
| "construct_record_name CONFIG_TYPE = Some ''config_struct''"
| "construct_record_name MAX_TYPE = None"

text \<open>\<^verbatim>\<open>mongoc_client_get_collection\<close>, whose name must not be null; the result of the code is given for both outcomes.\<close>

definition with_collection :: "'c mongo_driver \<Rightarrow> db_type \<Rightarrow> (string \<Rightarrow> 'a exec) \<Rightarrow> 'a exec \<Rightarrow> 'c \<Rightarrow> 'a exec" where
  "with_collection drv type found missing c =
     (case get_collection_name type of None \<Rightarrow> Inl Assert_Failed | Some n \<Rightarrow> if md_collection drv n c then found n else missing)"

text \<open>The document for a record: both lengths are cut to 32 bits.\<close>

definition mongo_document :: "string \<Rightarrow> string \<Rightarrow> 8 word list \<Rightarrow> document" where
  "mongo_document key name data =
     (let len = of_nat (length data) in
      \<lparr>doc_num = key, doc_length = len, doc_name = name, doc_binary = take (unat (len :: 32 word)) data\<rparr>)"

text \<open>A call that fails to add the key or the binary makes the function return \<^verbatim>\<open>-ret\<close>, which is 0.\<close>

definition mongo_db_insert ::
  "mongo_env \<Rightarrow> 'c mongo_driver \<Rightarrow> string option \<Rightarrow> 8 word list \<Rightarrow> db_type \<Rightarrow> 'c \<Rightarrow> (int \<times> 'c) exec" where
  "mongo_db_insert env drv key data type c =
     (case key of None \<Rightarrow> Inr (- EINVAL, c) | Some key \<Rightarrow>
      if \<not> me_append env 0 then Inr (0, c)
      else
      case construct_record_name type of None \<Rightarrow> Inr (-1, c) | Some name \<Rightarrow>
      if \<not> me_append env 1 then Inr (-1, c)
      else if \<not> me_append env 2 then Inr (0, c)
      else
        with_collection drv type
          (\<lambda>n. case md_insert drv n (mongo_document key name data) c of (ret, c) \<Rightarrow> Inr (if ret then 1 else -1, c))
          (Inr (-1, c)) c)"

definition mongo_db_remove ::
  "mongo_env \<Rightarrow> 'c mongo_driver \<Rightarrow> string option \<Rightarrow> db_type \<Rightarrow> 'c \<Rightarrow> (int \<times> 'c) exec" where
  "mongo_db_remove env drv key type c =
     (case key of None \<Rightarrow> Inr (- EINVAL, c) | Some key \<Rightarrow>
      if \<not> me_append env 0 then Inr (-1, c)
      else
        with_collection drv type (\<lambda>n. case md_remove drv n key c of (ret, c) \<Rightarrow> Inr (if ret then 1 else -1, c)) (Inr (-1, c)) c)"

text \<open>The variable that is tested after the query has been built is never assigned.\<close>

definition mongo_db_seekread :: "string option \<Rightarrow> bool \<Rightarrow> int" where
  "mongo_db_seekread key data_null = (case key of None \<Rightarrow> - EINVAL | Some _ \<Rightarrow> if data_null then - EINVAL else -1)"

text \<open>The query and the name of the record are uninitialised.\<close>

definition mongo_db_iterate :: "'c mongo_driver \<Rightarrow> db_type \<Rightarrow> bool \<Rightarrow> 'c \<Rightarrow> unit exec" where
  "mongo_db_iterate drv type iterator_null c =
     (if iterator_null then Inr () else with_collection drv type (\<lambda>_. Inl Undefined) (Inr ()) c)"

text \<open>
  The document is used after its cursor is destroyed.  As many bytes as the binary has are copied to a block
  of the length that is stored in the document.
\<close>

definition mongo_db_get ::
  "mongo_env \<Rightarrow> 'c mongo_driver \<Rightarrow> string option \<Rightarrow> db_type \<Rightarrow> 'c \<Rightarrow> (int \<times> 8 word list option) exec" where
  "mongo_db_get env drv key type c =
     (case key of None \<Rightarrow> Inr (- EINVAL, None) | Some key \<Rightarrow>
      with_collection drv type
        (\<lambda>n.
          if md_cursor_error drv n key c then Inr (-1, None)
          else
          case md_find drv n key c of None \<Rightarrow> Inr (-1, None) | Some response \<Rightarrow>
          case me_freed env response of None \<Rightarrow> Inl Bad_Access | Some response \<Rightarrow>
          let record_len = sint (doc_length response); b = doc_binary response in
          if \<not> me_mem env then Inr (- ENOMEM, None)
          else if construct_record_name type \<noteq> Some (doc_name response) then Inl Undefined
          else if record_len \<ge> 0 \<and> record_len < int (length b) then Inl Bad_Access
          else Inr (record_len, Some (b @ map (me_junk env) [length b..<nat record_len])))
        (Inr (-1, None)) c)"

text \<open>Without a document for the key nothing is changed, and the length is returned as for a success.\<close>

definition mongo_db_update ::
  "mongo_env \<Rightarrow> 'c mongo_driver \<Rightarrow> string option \<Rightarrow> 8 word list \<Rightarrow> db_type \<Rightarrow> 'c \<Rightarrow> (int \<times> 'c) exec" where
  "mongo_db_update env drv key data type c =
     (case key of None \<Rightarrow> Inl Null_Deref | Some key \<Rightarrow>
      if \<not> me_append env 0 then Inr (-1, c)
      else
      case construct_record_name type of None \<Rightarrow> Inr (-1, c) | Some name \<Rightarrow>
      if \<not> me_append env 1 \<or> \<not> me_append env 2 \<or> \<not> me_append env 3 then Inr (-1, c)
      else
        with_collection drv type
          (\<lambda>n. case md_modify drv n key (mongo_document key name data) c of
             (ret, c) \<Rightarrow> Inr (if ret then sint (of_nat (length data) :: 32 word) else -1, c))
          (Inr (-1, c)) c)"

text \<open>Dropping the collections in their order, in \<^verbatim>\<open>mongo_db_init\<close> and \<^verbatim>\<open>mongo_db_delete\<close>.\<close>

fun drop_collections :: "'c mongo_driver \<Rightarrow> string list \<Rightarrow> 'c \<Rightarrow> 'c" where
  "drop_collections drv [] c = c"
| "drop_collections drv (n # ns) c = drop_collections drv ns (if md_collection drv n c then snd (md_drop drv n c) else c)"

definition mongo_db_delete :: "'c mongo_driver \<Rightarrow> 'c \<Rightarrow> 'c" where
  "mongo_db_delete drv c = drop_collections drv [''policy'', ''inodes'', ''journal'', ''config''] c"

definition mongo_db_init :: "'c mongo_driver \<Rightarrow> bool \<Rightarrow> bool \<Rightarrow> 'c \<Rightarrow> int \<times> 'c" where
  "mongo_db_init drv connected database c =
     (if \<not> connected then (-1, c)
      else if \<not> database then (0, c)
      else (0, drop_collections drv [''policy'', ''inodes'', ''journal'', ''config''] c))"

text \<open>The operations as \<^verbatim>\<open>put_inode\<close> and \<^verbatim>\<open>get_inode\<close> call them.\<close>

definition mongo_inodes :: "mongo_env \<Rightarrow> 'c mongo_driver \<Rightarrow> 'c inode_db" where
  "mongo_inodes env drv =
     \<lparr>db_insert = (\<lambda>k b c. mongo_db_insert env drv (Some k) b INODE_TYPE c),
      db_update = (\<lambda>k b c. mongo_db_update env drv (Some k) b INODE_TYPE c),
      db_get = (\<lambda>k c. mongo_db_get env drv (Some k) INODE_TYPE c)\<rparr>"

section \<open>The driver\<close>

text \<open>
  What the driver does, where \<open>docs c n\<close> are the documents of collection \<open>n\<close>: a document that is inserted is added; removing and
  replacing concern one document with the key, if there is one; a cursor delivers a document with the key, if
  there is one, and has no error; dropping a collection leaves no document.
\<close>

definition driver_ok :: "'c mongo_driver \<Rightarrow> ('c \<Rightarrow> string \<Rightarrow> document multiset) \<Rightarrow> bool" where
  "driver_ok drv docs \<longleftrightarrow>
     (\<forall>n d c c'. md_insert drv n d c = (True, c') \<longrightarrow> docs c' = (docs c)(n := add_mset d (docs c n))) \<and>
     (\<forall>n k c c'. md_remove drv n k c = (True, c') \<longrightarrow>
        (\<exists>d \<in># docs c n. doc_num d = k \<and> docs c' = (docs c)(n := docs c n - {#d#})) \<or>
        k \<notin> doc_num ` set_mset (docs c n) \<and> docs c' = docs c) \<and>
     (\<forall>n k e c c'. md_modify drv n k e c = (True, c') \<longrightarrow>
        (\<exists>d \<in># docs c n. doc_num d = k \<and> docs c' = (docs c)(n := add_mset e (docs c n - {#d#}))) \<or>
        k \<notin> doc_num ` set_mset (docs c n) \<and> docs c' = docs c) \<and>
     (\<forall>n k c. \<not> md_cursor_error drv n k c \<and>
        (case md_find drv n k c of None \<Rightarrow> k \<notin> doc_num ` set_mset (docs c n) | Some d \<Rightarrow> d \<in># docs c n \<and> doc_num d = k)) \<and>
     (\<forall>n c c'. md_drop drv n c = (True, c') \<longrightarrow> docs c' = (docs c)(n := {#}))"

lemmas driver_insert = driver_ok_def [THEN iffD1, THEN conjunct1, rule_format]
lemmas driver_remove = driver_ok_def [THEN iffD1, THEN conjunct2, THEN conjunct1, rule_format]
lemmas driver_modify = driver_ok_def [THEN iffD1, THEN conjunct2, THEN conjunct2, THEN conjunct1, rule_format]

lemmas driver_drop = driver_ok_def [THEN iffD1, THEN conjunct2, THEN conjunct2, THEN conjunct2, THEN conjunct2, rule_format]

lemma driver_find:
  assumes "driver_ok drv docs"
  shows "\<not> md_cursor_error drv n k c"
    "md_find drv n k c = None \<Longrightarrow> k \<notin> doc_num ` set_mset (docs c n)"
    "md_find drv n k c = Some d \<Longrightarrow> d \<in># docs c n \<and> doc_num d = k"
proof -
  have f: "\<not> md_cursor_error drv n k c \<and>
      (case md_find drv n k c of None \<Rightarrow> k \<notin> doc_num ` set_mset (docs c n) | Some d \<Rightarrow> d \<in># docs c n \<and> doc_num d = k)"
    using assms by (simp add: driver_ok_def)
  show "\<not> md_cursor_error drv n k c" using f by simp
  show "md_find drv n k c = None \<Longrightarrow> k \<notin> doc_num ` set_mset (docs c n)" using f by simp
  show "md_find drv n k c = Some d \<Longrightarrow> d \<in># docs c n \<and> doc_num d = k" using f by simp
qed

section \<open>Records\<close>

text \<open>
  The invariant of the database: a document has a binary of the type of its collection and of the length that the
  document says.
\<close>

definition doc_ok :: "db_type \<Rightarrow> document \<Rightarrow> bool" where
  "doc_ok type d \<longleftrightarrow> construct_record_name type = Some (doc_name d) \<and> length (doc_binary d) < 2 ^ 31 \<and>
     doc_length d = of_nat (length (doc_binary d))"

definition store_ok :: "('c \<Rightarrow> string \<Rightarrow> document multiset) \<Rightarrow> 'c \<Rightarrow> bool" where
  "store_ok docs c \<longleftrightarrow> (\<forall>type n. get_collection_name type = Some n \<longrightarrow> (\<forall>d \<in># docs c n. doc_ok type d))"

text \<open>The records that are stored for a type under a key: keys are not unique to the server.\<close>

definition records :: "('c \<Rightarrow> string \<Rightarrow> document multiset) \<Rightarrow> db_type \<Rightarrow> 'c \<Rightarrow> string \<Rightarrow> 8 word list multiset" where
  "records docs type c k =
     (case get_collection_name type of None \<Rightarrow> {#} | Some n \<Rightarrow> image_mset doc_binary {#d \<in># docs c n. doc_num d = k#})"

text \<open>After an operation the records for a type and a key are \<open>B\<close>, and those of other keys and types are as before.\<close>

definition records_are ::
  "('c \<Rightarrow> string \<Rightarrow> document multiset) \<Rightarrow> db_type \<Rightarrow> string \<Rightarrow> 8 word list multiset \<Rightarrow> 'c \<Rightarrow> 'c \<Rightarrow> bool" where
  "records_are docs type k B c c' \<longleftrightarrow> store_ok docs c' \<and> records docs type c' k = B \<and>
     (\<forall>type' k'. (type', k') \<noteq> (type, k) \<longrightarrow> records docs type' c' k' = records docs type' c k')"

lemma mongo_document_ok:
  assumes "construct_record_name type = Some name" "length data < 2 ^ 31"
  shows "doc_ok type (mongo_document key name data)" "doc_num (mongo_document key name data) = key"
    "doc_binary (mongo_document key name data) = data"
proof -
  have "unat (of_nat (length data) :: 32 word) = length data" using assms(2) by (simp add: unat_of_nat take_bit_nat_eq_self)
  then show "doc_ok type (mongo_document key name data)" "doc_num (mongo_document key name data) = key"
    "doc_binary (mongo_document key name data) = data"
    using assms by (simp_all add: doc_ok_def mongo_document_def Let_def)
qed

lemma collection_name_inj: "get_collection_name type = Some n \<Longrightarrow> get_collection_name type' = Some n \<Longrightarrow> type' = type"
  by (cases type; cases type') auto

lemma collection_docs:
  assumes "store_ok docs c" "get_collection_name type = Some n" "d \<in># docs c n"
  shows "doc_ok type d"
  using assms unfolding store_ok_def by blast

text \<open>A change of the documents of one collection under one key.\<close>

lemma records_change:
  assumes "store_ok docs c" "get_collection_name type = Some n" "docs c' = (docs c)(n := M)" "\<forall>d \<in># M. doc_ok type d"
    "\<And>j. j \<noteq> k \<Longrightarrow> {#d \<in># M. doc_num d = j#} = {#d \<in># docs c n. doc_num d = j#}"
  shows "records_are docs type k (image_mset doc_binary {#d \<in># M. doc_num d = k#}) c c'"
proof -
  have "doc_ok type' d" if "get_collection_name type' = Some n'" "d \<in># docs c' n'" for type' n' d
    using that assms(3,4) collection_docs [OF assms(1) that(1)] collection_name_inj [OF assms(2)] by (cases "n' = n") auto
  then have "store_ok docs c'" by (auto simp: store_ok_def)
  moreover have "records docs type' c' k' = records docs type' c k'" if "(type', k') \<noteq> (type, k)" for type' k'
  proof (cases "get_collection_name type' = Some n")
    case True
    then have "k' \<noteq> k" using that collection_name_inj [OF assms(2)] by auto
    then show ?thesis using True assms(3,5) by (simp add: records_def)
  qed (auto simp: records_def assms(3) split: option.split)
  ultimately show ?thesis using assms(2,3) by (simp add: records_are_def records_def)
qed

lemma unchanged_records:
  assumes "store_ok docs c" "docs c' = docs c"
  shows "records_are docs type k (records docs type c k) c c'"
proof -
  have "records docs type' c' = records docs type' c" for type' by (auto simp: records_def fun_eq_iff assms(2) split: option.split)
  moreover have "store_ok docs c'" using assms by (simp add: store_ok_def)
  ultimately show ?thesis by (simp add: records_are_def)
qed

lemma no_records:
  assumes "get_collection_name type = Some n"
  shows "k \<notin> doc_num ` set_mset (docs c n) \<longleftrightarrow> records docs type c k = {#}"
proof -
  have "k \<notin> doc_num ` set_mset (docs c n) \<longleftrightarrow> set_mset {#d \<in># docs c n. doc_num d = k#} = {}" by auto
  then show ?thesis using assms by (simp add: records_def)
qed

lemma filter_replaced:
  assumes "e \<in># M" "doc_num e = k"
  shows "{#d \<in># M - {#e#}. doc_num d = j#} = (if j = k then {#d \<in># M. doc_num d = k#} - {#e#} else {#d \<in># M. doc_num d = j#})"
    "e \<in># {#d \<in># M. doc_num d = k#}"
  using assms by (simp_all add: filter_diff_mset)

section \<open>Operations on records\<close>

lemma insert_records:
  assumes drv: "driver_ok drv docs" "store_ok docs c" and ins: "mongo_db_insert env drv (Some k) b type c = Inr (1, c')"
    and b: "length b < 2 ^ 31"
  shows "records_are docs type k (add_mset b (records docs type c k)) c c'"
proof -
  obtain name n where n: "construct_record_name type = Some name" "get_collection_name type = Some n"
    "md_insert drv n (mongo_document k name b) c = (True, c')"
    using ins by (auto simp: mongo_db_insert_def with_collection_def split: if_splits option.splits prod.splits)
  note d = mongo_document_ok [OF n(1) b, of k]
  have "records_are docs type k (image_mset doc_binary {#d \<in># add_mset (mongo_document k name b) (docs c n). doc_num d = k#}) c c'"
    using records_change [OF drv(2) n(2) driver_insert [OF drv(1) n(3)], of k] d(1,2) collection_docs [OF drv(2) n(2)] by simp
  then show ?thesis using d n(2) by (simp add: records_def)
qed

lemma update_records:
  assumes drv: "driver_ok drv docs" "store_ok docs c" and upd: "mongo_db_update env drv (Some k) b type c = Inr (r, c')"
    and r: "0 < r" and b: "length b < 2 ^ 31"
  shows "if records docs type c k = {#} then records_are docs type k {#} c c'
    else \<exists>x \<in># records docs type c k. records_are docs type k (add_mset b (records docs type c k - {#x#})) c c'"
proof -
  obtain name n where n: "construct_record_name type = Some name" "get_collection_name type = Some n"
    "md_modify drv n k (mongo_document k name b) c = (True, c')"
    using upd r by (auto simp: mongo_db_update_def with_collection_def split: if_splits option.splits prod.splits)
  let ?d = "mongo_document k name b"
  note d = mongo_document_ok [OF n(1) b, of k]
  consider e where "e \<in># docs c n" "doc_num e = k" "docs c' = (docs c)(n := add_mset ?d (docs c n - {#e#}))"
    | "k \<notin> doc_num ` set_mset (docs c n)" "docs c' = docs c"
    using driver_modify [OF drv(1) n(3)] by blast
  then show ?thesis
  proof cases
    case 1
    note f = filter_replaced [OF 1(1,2)]
    have "records_are docs type k (image_mset doc_binary {#d \<in># add_mset ?d (docs c n - {#e#}). doc_num d = k#}) c c'"
      using records_change [OF drv(2) n(2) 1(3), of k] d(1,2) f(1) collection_docs [OF drv(2) n(2)] by (auto dest: in_diffD)
    then have "records_are docs type k (add_mset b (records docs type c k - {#doc_binary e#})) c c'"
      using d f n(2) by (simp add: records_def image_mset_Diff)
    moreover have "doc_binary e \<in># records docs type c k" using f(2) n(2) by (simp add: records_def)
    ultimately show ?thesis by (auto simp del: not_gr_zero)
  next
    case 2
    then show ?thesis using no_records [OF n(2), of k docs c] unchanged_records [OF drv(2) 2(2), of type k] by simp
  qed
qed

lemma remove_records:
  assumes drv: "driver_ok drv docs" "store_ok docs c" and rem: "mongo_db_remove env drv (Some k) type c = Inr (1, c')"
  shows "if records docs type c k = {#} then records_are docs type k {#} c c'
    else \<exists>x \<in># records docs type c k. records_are docs type k (records docs type c k - {#x#}) c c'"
proof -
  obtain n where n: "get_collection_name type = Some n" "md_remove drv n k c = (True, c')"
    using rem by (auto simp: mongo_db_remove_def with_collection_def split: if_splits option.splits prod.splits)
  consider e where "e \<in># docs c n" "doc_num e = k" "docs c' = (docs c)(n := docs c n - {#e#})"
    | "k \<notin> doc_num ` set_mset (docs c n)" "docs c' = docs c"
    using driver_remove [OF drv(1) n(2)] by blast
  then show ?thesis
  proof cases
    case 1
    note f = filter_replaced [OF 1(1,2)]
    have "records_are docs type k (image_mset doc_binary {#d \<in># docs c n - {#e#}. doc_num d = k#}) c c'"
      using records_change [OF drv(2) n(1) 1(3), of k] f(1) collection_docs [OF drv(2) n(1)] by (auto dest: in_diffD)
    then have "records_are docs type k (records docs type c k - {#doc_binary e#}) c c'"
      using f n(1) by (simp add: records_def image_mset_Diff)
    moreover have "doc_binary e \<in># records docs type c k" using f(2) n(1) by (simp add: records_def)
    ultimately show ?thesis by auto
  next
    case 2
    then show ?thesis using no_records [OF n(1), of k docs c] unchanged_records [OF drv(2) 2(2), of type k] by simp
  qed
qed

lemma drop_collections_empty:
  assumes "driver_ok drv docs" "\<forall>n c. md_collection drv n c \<and> fst (md_drop drv n c)"
  shows "docs (drop_collections drv ns c) = (\<lambda>n. if n \<in> set ns then {#} else docs c n)"
proof (induction ns arbitrary: c)
  case (Cons n ns)
  have "md_drop drv n c = (True, snd (md_drop drv n c))" using assms(2) by (simp add: prod_eq_iff)
  then have "docs (snd (md_drop drv n c)) = (docs c)(n := {#})" using driver_drop [OF assms(1)] by blast
  then show ?case using Cons assms(2) by auto
qed simp

lemma delete_records:
  assumes "driver_ok drv docs" "\<forall>n c. md_collection drv n c \<and> fst (md_drop drv n c)"
  shows "store_ok docs (mongo_db_delete drv c) \<and> records docs type (mongo_db_delete drv c) k = {#}"
proof -
  have "docs (mongo_db_delete drv c) n = {#}" if "get_collection_name type' = Some n" for type' n
    using that unfolding mongo_db_delete_def drop_collections_empty [OF assms] by (cases type') auto
  then show ?thesis by (auto simp: store_ok_def records_def split: option.split)
qed

text \<open>
  C13: The back end implements a map from types and keys to bags of records.  Inserting adds one record under the key, in use or not;
  an update puts the new record in place of one record of the key, and a removal takes away one record; without a record for the
  key both report success and change nothing.  The records of other keys and of other types are left alone, and every document keeps
  the name of its type and its length.  Deleting the database leaves no record.
\<close>

theorem mongo_refines_map:
  assumes "driver_ok drv docs" "store_ok docs c" "length b < 2 ^ 31"
  shows "(mongo_db_insert env drv (Some k) b type c = Inr (1, c1) \<longrightarrow> records_are docs type k (add_mset b (records docs type c k)) c c1) \<and>
    (mongo_db_update env drv (Some k) b type c = Inr (r, c2) \<and> 0 < r \<longrightarrow>
       (if records docs type c k = {#} then records_are docs type k {#} c c2
        else \<exists>x \<in># records docs type c k. records_are docs type k (add_mset b (records docs type c k - {#x#})) c c2)) \<and>
    (mongo_db_remove env drv (Some k) type c = Inr (1, c3) \<longrightarrow>
       (if records docs type c k = {#} then records_are docs type k {#} c c3
        else \<exists>x \<in># records docs type c k. records_are docs type k (records docs type c k - {#x#}) c c3)) \<and>
    ((\<forall>n c. md_collection drv n c \<and> fst (md_drop drv n c)) \<longrightarrow>
       store_ok docs (mongo_db_delete drv c) \<and> records docs type (mongo_db_delete drv c) k = {#})"
  using insert_records [OF assms(1,2) _ assms(3)] update_records [OF assms(1,2) _ _ assms(3)] remove_records [OF assms(1,2)]
    delete_records [OF assms(1)]
  by blast

section \<open>Inodes\<close>

lemma inodes_name: "get_collection_name INODE_TYPE = Some ''inodes''"
  by simp

text \<open>
  The hypotheses under which an inode is stored: its number has no record yet for an insertion and one record for an update, and its
  record is shorter than 2 gigabytes.
\<close>

definition storable ::
  "('c \<Rightarrow> string \<Rightarrow> document multiset) \<Rightarrow> (nat \<Rightarrow> bool) \<Rightarrow> bool \<Rightarrow> heap \<Rightarrow> mem_inode \<Rightarrow> int \<Rightarrow> 'c \<Rightarrow> bool" where
  "storable docs ok moved h inode update c \<longleftrightarrow>
     size (records docs INODE_TYPE c (inode_str (inum_of (in_fixed inode)))) = (if update = 0 then 0 else 1) \<and>
     (\<forall>b len. flatten_inode ok moved h (Some inode) = Inr (Some (b, len)) \<longrightarrow> unat len < 2 ^ 31)"

lemma stored_records:
  assumes "driver_ok drv docs" "store_ok docs c" "stored (mongo_inodes env drv) update k b c c'"
    "size (records docs INODE_TYPE c k) = (if update = 0 then 0 else 1)" "length b < 2 ^ 31"
  shows "records_are docs INODE_TYPE k {#b#} c c'"
proof (cases "update = 0")
  case True
  then show ?thesis
    using assms(3,4) insert_records [OF assms(1,2) _ assms(5), of env k INODE_TYPE c'] by (simp add: stored_def mongo_inodes_def)
next
  case False
  then obtain x where x: "records docs INODE_TYPE c k = {#x#}" using assms(4) size_1_singleton_mset [of "records docs INODE_TYPE c k"] by auto
  then show ?thesis
    using False assms(3) update_records [OF assms(1,2) _ _ assms(5), of env k INODE_TYPE _ c'] by (auto simp: stored_def mongo_inodes_def)
qed

lemma put_records:
  assumes drv: "driver_ok drv docs" "store_ok docs c" and st: "storable docs ok moved h inode update c"
    and put: "put_inode ok moved beyond h (Some inode) (Some (mongo_inodes env drv)) update c = Inr (0, c')"
  shows "\<exists>b len. flatten_inode ok moved h (Some inode) = Inr (Some (b, len)) \<and> unat len \<le> length (b @ beyond) \<and>
    records_are docs INODE_TYPE (inode_str (inum_of (in_fixed inode))) {#take (unat len) (b @ beyond)#} c c'"
proof -
  let ?k = "inode_str (inum_of (in_fixed inode))"
  obtain b len where b: "flatten_inode ok moved h (Some inode) = Inr (Some (b, len))" "unat len \<le> length (b @ beyond)"
    "stored (mongo_inodes env drv) update ?k (take (unat len) (b @ beyond)) c c'"
    using put_inode_stores [OF put] by blast
  have "length (take (unat len) (b @ beyond)) < 2 ^ 31" "size (records docs INODE_TYPE c ?k) = (if update = 0 then 0 else 1)"
    using st b(1) by (auto simp: storable_def)
  then show ?thesis using stored_records [OF drv b(3)] b(1,2) by blast
qed

text \<open>The only document of a key.\<close>

lemma record_document:
  assumes "store_ok docs c" "get_collection_name type = Some n" "records docs type c k = {#b#}"
  shows "\<exists>d. {#e \<in># docs c n. doc_num e = k#} = {#d#} \<and> doc_binary d = b \<and> doc_length d = of_nat (length b)"
proof -
  obtain d where d: "{#e \<in># docs c n. doc_num e = k#} = {#d#}" "doc_binary d = b"
    using assms(2,3) by (auto simp: records_def dest: msed_map_invR)
  then have "d \<in># docs c n" by (metis filter_mset_eq_conv union_single_eq_member mset_subset_eqD multiset_filter_subset)
  then show ?thesis using d collection_docs [OF assms(1,2)] by (auto simp: doc_ok_def)
qed

text \<open>
  C12: What \<^verbatim>\<open>put_inode\<close> stores is a record of the inode, also after another inode has been stored: the server has one document for the
  number of the inode, and \<^verbatim>\<open>fill_inode\<close>, given the binary of this document, yields an inode with the same fixed fields, extents and
  paths.  The inode has one sfsd, no extended attributes, no erasure code segments and at most one extent.  A number that is inserted is
  not in use before, and the other inode has a different number.
\<close>

theorem inode_roundtrip:
  assumes drv: "driver_ok drv docs" "store_ok docs c"
    and put: "put_inode ok moved beyond h (Some inode) (Some (mongo_inodes env drv)) update c = Inr (0, c1)"
      "storable docs ok moved h inode update c" "plain_inode inode"
    and other: "put_inode ok' moved' beyond' h1 (Some inode1) (Some (mongo_inodes env drv)) update1 c1 = Inr (0, c2)"
      "storable docs ok' moved' h1 inode1 update1 c1" "inum_of (in_fixed inode1) \<noteq> inum_of (in_fixed inode)"
    and al: "fresh3 al"
  shows "\<exists>d inode' h'. {#e \<in># docs c2 ''inodes''. doc_num e = inode_str (inum_of (in_fixed inode))#} = {#d#} \<and>
    doc_length d = of_nat (length (doc_binary d)) \<and> fill_inode al junk h0 (doc_binary d) new_inode = Inr (0, inode', h') \<and>
    in_fixed inode' = in_fixed inode \<and> same_extents h inode h' inode'"
proof -
  let ?k = "inode_str (inum_of (in_fixed inode))"
  obtain b len where b: "flatten_inode ok moved h (Some inode) = Inr (Some (b, len))" "unat len \<le> length (b @ beyond)"
    "records_are docs INODE_TYPE ?k {#take (unat len) (b @ beyond)#} c c1"
    using put_records [OF drv put(2,1)] by blast
  have len: "take (unat len) (b @ beyond) = b @ take 8 beyond" "length (take 8 beyond) = 8"
    using plain_record(2) [OF b(1) put(3)] b(2) by simp_all
  have "store_ok docs c1" using b(3) by (simp add: records_are_def)
  then obtain b1 where r2: "records_are docs INODE_TYPE (inode_str (inum_of (in_fixed inode1))) {#b1#} c1 c2"
    using put_records [OF drv(1) _ other(2,1)] by blast
  then have rec: "records docs INODE_TYPE c2 ?k = {#b @ take 8 beyond#}" "store_ok docs c2"
    using b(3) other(3) len(1) by (auto simp: records_are_def inode_str_inj)
  obtain d where "{#e \<in># docs c2 ''inodes''. doc_num e = ?k#} = {#d#}" "doc_binary d = b @ take 8 beyond"
    "doc_length d = of_nat (length (b @ take 8 beyond))"
    using record_document [OF rec(2) inodes_name rec(1)] by blast
  then show ?thesis using fill_plain [OF b(1) put(3) al len(2), of junk h0 new_inode] by auto
qed

text \<open>
  A file whose inode is not in the database makes \<^verbatim>\<open>get_inode\<close> use an uninitialised pointer: the back end reports a missing
  record with -1, which \<^verbatim>\<open>get_inode\<close> takes for success.
\<close>

theorem missing_inode_undefined:
  assumes "driver_ok drv docs" "md_collection drv ''inodes'' c" "records docs INODE_TYPE c (inode_str inum) = {#}" "INODE_NUM_START \<le> inum"
  shows "get_inode al junk h inum (Some inode) (Some (mongo_inodes env drv)) c = Inl Undefined"
proof -
  have "md_find drv ''inodes'' (inode_str inum) c = None"
    using driver_find(3) [OF assms(1)] no_records [OF inodes_name, of "inode_str inum" docs c] assms(3)
    by (metis imageI not_Some_eq)
  then show ?thesis
    using driver_find(1) [OF assms(1)] assms(2,4) by (simp add: get_inode_def mongo_inodes_def mongo_db_get_def with_collection_def)
qed

section \<open>A concrete server\<close>

text \<open>Collections as lists of documents.\<close>

fun remove_doc :: "string \<Rightarrow> document list \<Rightarrow> document list" where
  "remove_doc k [] = []"
| "remove_doc k (d # ds) = (if doc_num d = k then ds else d # remove_doc k ds)"

fun replace_doc :: "string \<Rightarrow> document \<Rightarrow> document list \<Rightarrow> document list" where
  "replace_doc k e [] = []"
| "replace_doc k e (d # ds) = (if doc_num d = k then e # ds else d # replace_doc k e ds)"

definition list_driver :: "(string \<Rightarrow> document list) mongo_driver" where
  "list_driver =
     \<lparr>md_collection = (\<lambda>_ _. True), md_insert = (\<lambda>n d c. (True, c(n := d # c n))), md_remove = (\<lambda>n k c. (True, c(n := remove_doc k (c n)))),
      md_find = (\<lambda>n k c. List.find (\<lambda>d. doc_num d = k) (c n)), md_cursor_error = (\<lambda>_ _ _. False),
      md_modify = (\<lambda>n k e c. (True, c(n := replace_doc k e (c n)))), md_drop = (\<lambda>n c. (True, c(n := [])))\<rparr>"

definition list_docs :: "(string \<Rightarrow> document list) \<Rightarrow> string \<Rightarrow> document multiset" where
  "list_docs c n = mset (c n)"

lemma remove_doc_mset:
  "(\<exists>d \<in> set ds. doc_num d = k \<and> mset (remove_doc k ds) = mset ds - {#d#}) \<or> k \<notin> doc_num ` set ds \<and> remove_doc k ds = ds"
proof (induction ds)
  case (Cons d ds)
  show ?case
  proof (cases "doc_num d = k")
    case False
    then show ?thesis using Cons by auto
  qed auto
qed simp

lemma replace_doc_mset:
  "(\<exists>d \<in> set ds. doc_num d = k \<and> mset (replace_doc k e ds) = add_mset e (mset ds - {#d#})) \<or> k \<notin> doc_num ` set ds \<and> replace_doc k e ds = ds"
proof (induction ds)
  case (Cons d ds)
  show ?case
  proof (cases "doc_num d = k")
    case False
    then show ?thesis using Cons by auto
  qed auto
qed simp

lemma list_docs_upd: "list_docs (c(n := ds)) = (list_docs c)(n := mset ds)" "(list_docs c)(n := mset (c n)) = list_docs c"
  by (auto simp: list_docs_def)

lemma list_driver_ok: "driver_ok list_driver list_docs"
proof -
  have "(\<exists>d \<in># list_docs c n. doc_num d = k \<and> (list_docs c)(n := mset (remove_doc k (c n))) = (list_docs c)(n := list_docs c n - {#d#})) \<or>
      k \<notin> doc_num ` set_mset (list_docs c n) \<and> (list_docs c)(n := mset (remove_doc k (c n))) = list_docs c" for c n k
    using remove_doc_mset [of "c n" k] list_docs_upd(2) [of c n] by (auto simp: list_docs_def)
  moreover have "(\<exists>d \<in># list_docs c n. doc_num d = k \<and>
        (list_docs c)(n := mset (replace_doc k e (c n))) = (list_docs c)(n := add_mset e (list_docs c n - {#d#}))) \<or>
      k \<notin> doc_num ` set_mset (list_docs c n) \<and> (list_docs c)(n := mset (replace_doc k e (c n))) = list_docs c" for c n k e
    using replace_doc_mset [of "c n" k e] list_docs_upd(2) [of c n] by (auto simp: list_docs_def)
  moreover have "case List.find (\<lambda>d. doc_num d = k) ds of None \<Rightarrow> k \<notin> doc_num ` set ds | Some d \<Rightarrow> d \<in> set ds \<and> doc_num d = k" for k ds
    by (induction ds) (auto split: option.splits)
  then have "case List.find (\<lambda>d. doc_num d = k) (c n) of
      None \<Rightarrow> k \<notin> doc_num ` set_mset (list_docs c n) | Some d \<Rightarrow> d \<in># list_docs c n \<and> doc_num d = k" for k c n
    unfolding list_docs_def set_mset_mset .
  ultimately show ?thesis
    unfolding driver_ok_def list_driver_def by (simp add: list_docs_upd) (simp add: list_docs_def)
qed

definition sample_menv :: mongo_env where
  "sample_menv = \<lparr>me_append = (\<lambda>_. True), me_mem = True, me_junk = (\<lambda>_. 0), me_freed = (\<lambda>_. None)\<rparr>"

lemma list_empty_ok: "store_ok list_docs (\<lambda>_. [])"
  by (simp add: store_ok_def list_docs_def)

lemma list_records: "records list_docs INODE_TYPE c k = mset (map doc_binary (filter (\<lambda>d. doc_num d = k) (c ''inodes'')))"
  by (simp add: records_def list_docs_def)

text \<open>A record that is inserted twice under a key, and then replaced once.\<close>

theorem mongo_refines_map_witness:
  "\<exists>c1 c2 x. mongo_db_insert sample_menv list_driver (Some ''7'') [1, 2] INODE_TYPE (\<lambda>n. if n = ''inodes'' then [mongo_document ''7'' ''inode_struct'' [9]] else []) =
      Inr (1, c1) \<and> records list_docs INODE_TYPE c1 ''7'' = {#[1, 2], [9]#} \<and>
    mongo_db_update sample_menv list_driver (Some ''7'') [3] INODE_TYPE c1 = Inr (1, c2) \<and> x \<in># {#[1, 2], [9]#} \<and>
    records list_docs INODE_TYPE c2 ''7'' = add_mset [3] ({#[1, 2], [9]#} - {#x#})"
proof -
  let ?d = "mongo_document ''7'' ''inode_struct'' [9]"
  let ?c = "\<lambda>n. if n = ''inodes'' then [?d] else []"
  have d: "doc_ok INODE_TYPE ?d" "doc_num ?d = ''7''" "doc_binary ?d = [9]" 
    using mongo_document_ok [of INODE_TYPE "''inode_struct''" "[9]" "''7''"] by simp_all
  have "?c n = [] \<or> type = INODE_TYPE \<and> ?c n = [?d]" if "get_collection_name type = Some n" for type n
    using that by (cases type) auto
  then have c: "store_ok list_docs ?c" using d(1) unfolding store_ok_def list_docs_def by fastforce
  obtain c1 where ins: "mongo_db_insert sample_menv list_driver (Some ''7'') [1, 2] INODE_TYPE ?c = Inr (1, c1)"
    by (simp add: mongo_db_insert_def sample_menv_def list_driver_def with_collection_def)
  have "records_are list_docs INODE_TYPE ''7'' {#[1, 2], [9]#} ?c c1"
    using mongo_refines_map [OF list_driver_ok c, of "[1, 2]" sample_menv "''7''" INODE_TYPE c1] ins d by (simp add: list_records)
  then have c1: "store_ok list_docs c1" "records list_docs INODE_TYPE c1 ''7'' = {#[1, 2], [9]#}" by (simp_all add: records_are_def)
  obtain c2 where upd: "mongo_db_update sample_menv list_driver (Some ''7'') [3] INODE_TYPE c1 = Inr (1, c2)"
    by (simp add: mongo_db_update_def sample_menv_def list_driver_def with_collection_def)
  have "\<exists>x \<in># {#[1, 2], [9]#}. records_are list_docs INODE_TYPE ''7'' (add_mset [3] ({#[1, 2], [9]#} - {#x#})) c1 c2"
    using mongo_refines_map [OF list_driver_ok c1(1), of "[3]" sample_menv "''7''" INODE_TYPE _ 1 c2] upd by (simp add: c1(2) del: bex_simps)
  then show ?thesis using ins upd c1(2) unfolding records_are_def by metis
qed

theorem missing_inode_undefined_witness:
  "get_inode sample_al (\<lambda>_. 0) (\<lambda>_. None) 7 (Some new_inode) (Some (mongo_inodes sample_menv list_driver)) (\<lambda>_. []) = Inl Undefined"
  by (rule missing_inode_undefined [OF list_driver_ok]) (simp_all add: list_records INODE_NUM_START_def, simp add: list_driver_def)

text \<open>Two inodes, the second one without extents, that are stored one after the other.\<close>

definition other_mem :: mem_inode where
  "other_mem = \<lparr>in_fixed = numbered_fixed 8 1 0 0, in_xattr = 0, in_erasure = 0, in_extent = 0, in_sfsds = 0\<rparr>"

lemma other_flatten:
  "flatten_inode (\<lambda>_. True) False sample_heap (Some other_mem) = Inr (Some (numbered_fixed 8 1 0 0, of_nat (FIXED_LEN + 8)))"
  using numbered_fixed_fields [of 8 1 0 0]
  by (simp add: flatten_inode_def flat_xattr_def flat_erasure_def flat_sfsds_def other_mem_def mem_read_def)

lemma list_put:
  assumes "flatten_inode ok moved h (Some inode) = Inr (Some (b, of_nat (length b + 8)))" "length b < 2 ^ 30"
    "INODE_NUM_START \<le> inum_of (in_fixed inode)" "length x = 8"
  shows "put_inode ok moved x h (Some inode) (Some (mongo_inodes sample_menv list_driver)) 0 c =
    Inr (0, c(''inodes'' := mongo_document (inode_str (inum_of (in_fixed inode))) ''inode_struct'' (b @ x) # c ''inodes''))"
proof -
  have "unat (of_nat (length b + 8) :: 64 word) = length b + 8" by (rule unat_of_nat_64) (use assms(2) in simp)
  then show ?thesis
    using assms
    by (simp add: put_inode_def Let_def mongo_inodes_def mongo_db_insert_def with_collection_def sample_menv_def list_driver_def del: of_nat_add)
qed

theorem inode_roundtrip_witness:
  "\<exists>c1 c2 d inode' h'.
    put_inode (\<lambda>_. True) False (replicate 8 0) sample_heap (Some (sample_mem 0)) (Some (mongo_inodes sample_menv list_driver)) 0 (\<lambda>_. []) =
      Inr (0, c1) \<and>
    put_inode (\<lambda>_. True) False (replicate 8 0) sample_heap (Some other_mem) (Some (mongo_inodes sample_menv list_driver)) 0 c1 = Inr (0, c2) \<and>
    {#e \<in># list_docs c2 ''inodes''. doc_num e = inode_str 7#} = {#d#} \<and>
    fill_inode sample_al (\<lambda>_. 0) (\<lambda>_. None) (doc_binary d) new_inode = Inr (0, inode', h') \<and>
    in_fixed inode' = sample_fixed 1 1 0 \<and> same_extents sample_heap (sample_mem 0) h' inode'"
proof -
  let ?b = "sample_fixed 1 1 0 @ sample_ext @ replicate HANDLE_SIZE 65" and ?db = "mongo_inodes sample_menv list_driver"
  have plain: "plain_inode (sample_mem 0)" using sample_fixed_fields [of 1 1 0] by (simp add: plain_inode_def sample_mem_def)
  have n: "inum_of (in_fixed (sample_mem 0)) = 7" "in_fixed (sample_mem 0) = sample_fixed 1 1 0" "inum_of (in_fixed other_mem) = 8"
    using sample_fixed_fields [of 1 1 0] numbered_fixed_fields [of 8 1 0 0] by (simp_all add: sample_mem_def other_mem_def)
  have b: "length ?b = 8456" "of_nat (FIXED_LEN + EXTENT_FIXED + HANDLE_SIZE + 8) = (of_nat (length ?b + 8) :: 64 word)"
    "length (numbered_fixed 8 1 0 0) = 4272" "of_nat (FIXED_LEN + 8) = (of_nat (length (numbered_fixed 8 1 0 0) + 8) :: 64 word)"
    using sample_fixed_fields(1) sample_ext_fields(1) numbered_fixed_fields(1) by (simp_all add: layout)
  obtain c1 where put1: "put_inode (\<lambda>_. True) False (replicate 8 0) sample_heap (Some (sample_mem 0)) (Some ?db) 0 (\<lambda>_. []) = Inr (0, c1)"
      "c1 ''inodes'' = [mongo_document (inode_str 7) ''inode_struct'' (?b @ replicate 8 0)]"
    using list_put [OF sample_flatten [unfolded b(2)], of "replicate 8 0" "\<lambda>_. []"] b(1) n(1) by (simp add: INODE_NUM_START_def)
  obtain c2 where put2: "put_inode (\<lambda>_. True) False (replicate 8 0) sample_heap (Some other_mem) (Some ?db) 0 c1 = Inr (0, c2)"
    using list_put [OF other_flatten [unfolded b(4)], of "replicate 8 0" c1] b(3) n(3) by (simp add: INODE_NUM_START_def)
  have "storable list_docs (\<lambda>_. True) False sample_heap (sample_mem 0) 0 (\<lambda>_. [])"
    using sample_flatten by (simp add: storable_def list_records layout)
  moreover have "inode_str 8 \<noteq> inode_str 7" by (simp add: inode_str_inj)
  then have "storable list_docs (\<lambda>_. True) False sample_heap other_mem 0 c1"
    using other_flatten put1(2) n(3) by (simp add: storable_def list_records layout mongo_document_def Let_def)
  ultimately show ?thesis
    using inode_roundtrip [OF list_driver_ok list_empty_ok put1(1) _ plain put2, of sample_al "\<lambda>_. 0" "\<lambda>_. None"] put1(1) put2 n
      sample_al_ok(1)
    by auto
qed

end
