(* ===== verification/Sfsd_Pool.thy ===== *)
theory Sfsd_Pool
  imports Bds_List
begin

text \<open>
  The pools of sfsds (\<^verbatim>\<open>sfs/src/sfs_helper.c\<close>, \<^verbatim>\<open>sfs/include/sfs_internal.h\<close>): eight lists of sfsds, each for a range of storage
  weights.  An sfsd is known by the address of its field \<^verbatim>\<open>list\<close>.
\<close>

section \<open>Pools\<close>

definition MAX_SFSD_POOLS :: nat where "MAX_SFSD_POOLS = 8"
definition MINIMUM_WEIGHT :: "32 word" where "MINIMUM_WEIGHT = 100"

definition weights :: "(32 word \<times> 32 word) list" where
  "weights = [(0, 10), (11, 20), (21, 30), (31, 40), (41, 50), (51, 60), (61, 70), (71, 100)]"

record sfsd_pool =
  sp_low :: "32 word"
  sp_high :: "32 word"
  sp_list :: addr
  sp_lock :: bool

record pool_state =
  ps_links :: list_heap
  ps_pools :: "sfsd_pool list option"
  ps_errno :: int

text \<open>The loop of \<^verbatim>\<open>sstack_sfsd_pool_init\<close> from element \<open>i\<close> on.\<close>

fun pool_init_loop :: "nat \<Rightarrow> nat \<Rightarrow> sfsd_pool list \<times> list_heap \<Rightarrow> sfsd_pool list \<times> list_heap" where
  "pool_init_loop i 0 st = st"
| "pool_init_loop i (Suc k) (ps, h) =
     pool_init_loop (Suc i) k
       (ps[i := (ps ! i)\<lparr>sp_low := fst (weights ! i), sp_high := snd (weights ! i), sp_lock := False\<rparr>], INIT_LIST_HEAD (sp_list (ps ! i)) h)"

text \<open>\<open>mem\<close> is the array that \<^verbatim>\<open>calloc\<close> returns.\<close>

definition sstack_sfsd_pool_init :: "sfsd_pool list option \<Rightarrow> pool_state \<Rightarrow> pool_state" where
  "sstack_sfsd_pool_init mem s =
     (case mem of
        None \<Rightarrow> s\<lparr>ps_pools := None\<rparr>
      | Some ps \<Rightarrow> let (ps, h) = pool_init_loop 0 MAX_SFSD_POOLS (ps, ps_links s) in s\<lparr>ps_pools := Some ps, ps_links := h\<rparr>)"

fun pool_destroy_loop :: "nat \<Rightarrow> nat \<Rightarrow> sfsd_pool list \<Rightarrow> list_heap \<Rightarrow> list_heap" where
  "pool_destroy_loop i 0 ps h = h"
| "pool_destroy_loop i (Suc k) ps h = pool_destroy_loop (Suc i) k ps (INIT_LIST_HEAD (sp_list (ps ! i)) h)"

text \<open>The pools are freed; the caller keeps the pointer.\<close>

definition sstack_sfsd_pool_destroy :: "pool_state \<Rightarrow> int \<times> pool_state" where
  "sstack_sfsd_pool_destroy s =
     (case ps_pools s of
        None \<Rightarrow> (-1, s\<lparr>ps_errno := EINVAL\<rparr>)
      | Some ps \<Rightarrow> (0, s\<lparr>ps_links := pool_destroy_loop 0 MAX_SFSD_POOLS ps (ps_links s), ps_pools := Some []\<rparr>))"

text \<open>The search for the pool of a weight, which ends behind the last one without a hit.\<close>

fun pool_index :: "32 word \<Rightarrow> nat \<Rightarrow> (32 word \<times> 32 word) list \<Rightarrow> nat" where
  "pool_index w i [] = i"
| "pool_index w i ((low, high) # ws) = (if low \<le> w \<and> w \<le> high then i else pool_index w (Suc i) ws)"

definition pool_bad_args :: "32 word \<Rightarrow> addr option \<Rightarrow> pool_state \<Rightarrow> bool" where
  "pool_bad_args weight sfsd s \<longleftrightarrow> weight > MINIMUM_WEIGHT \<or> ps_pools s = None \<or> sfsd = None"

definition sstack_sfsd_add :: "32 word \<Rightarrow> addr option \<Rightarrow> pool_state \<Rightarrow> (int \<times> pool_state) exec" where
  "sstack_sfsd_add weight sfsd s =
     (if pool_bad_args weight sfsd s then Inr (-1, s\<lparr>ps_errno := EINVAL\<rparr>)
      else
        let i = pool_index weight 0 weights; ps = the (ps_pools s) in
        if length ps \<le> i then Inl Bad_Access
        else
        exec_bind (pthread_spin_lock (sp_lock (ps ! i))) (\<lambda>_.
        Inr (0, s\<lparr>ps_links := bds_list_add_tail (the sfsd) (sp_list (ps ! i)) (ps_links s)\<rparr>)))"

text \<open>\<open>None\<close> is a walk over the list that never comes back to its head.\<close>

definition sstack_sfsd_remove :: "32 word \<Rightarrow> addr option \<Rightarrow> pool_state \<Rightarrow> (int \<times> pool_state) exec option" where
  "sstack_sfsd_remove weight sfsd s =
     (if pool_bad_args weight sfsd s then Some (Inr (-1, s\<lparr>ps_errno := EINVAL\<rparr>))
      else
        let i = pool_index weight 0 weights; ps = the (ps_pools s); head = sp_list (ps ! i); h = ps_links s in
        if length ps \<le> i then Some (Inl Bad_Access)
        else if sp_lock (ps ! i) then Some (Inl Deadlock)
        else if list_empty head h then Some (Inr (-1, s))
        else
          map_option
            (\<lambda>found. case found of Some a \<Rightarrow> Inr (0, s\<lparr>ps_links := bds_list_del a h\<rparr>) | None \<Rightarrow> Inr (-1, s))
            (list_find (\<lambda>a. a = the sfsd) h head (nxt h head)))"

section \<open>The pool of a weight\<close>

text \<open>Every weight up to 100 is in the range of exactly one pool, which is the one that is searched for.\<close>

lemma pool_index_range:
  assumes "w \<le> MINIMUM_WEIGHT"
  shows "pool_index w 0 weights < MAX_SFSD_POOLS \<and> fst (weights ! pool_index w 0 weights) \<le> w \<and> w \<le> snd (weights ! pool_index w 0 weights)"
proof -
  have "unat w \<le> 100" using assms by (simp add: word_le_nat_alt MINIMUM_WEIGHT_def)
  then show ?thesis by (auto simp: weights_def MAX_SFSD_POOLS_def word_le_nat_alt)
qed

lemma pool_ranges_disjoint:
  assumes "i < MAX_SFSD_POOLS" "j < MAX_SFSD_POOLS" "fst (weights ! i) \<le> w" "w \<le> snd (weights ! i)" "fst (weights ! j) \<le> w" "w \<le> snd (weights ! j)"
  shows "i = j"
proof -
  have "i \<in> {0..<8}" "j \<in> {0..<8}" using assms(1,2) by (auto simp: MAX_SFSD_POOLS_def)
  then have "i \<in> {0, 1, 2, 3, 4, 5, 6, 7}" "j \<in> {0, 1, 2, 3, 4, 5, 6, 7}" by auto
  then show ?thesis
    using assms(3-6) by (auto simp: weights_def word_le_nat_alt)
qed

section \<open>Pools as lists of sfsds\<close>

definition pool_head :: "pool_state \<Rightarrow> nat \<Rightarrow> addr" where
  "pool_head s i = sp_list (the (ps_pools s) ! i)"

definition pool_inv :: "(nat \<Rightarrow> addr list) \<Rightarrow> pool_state \<Rightarrow> bool" where
  "pool_inv f s \<longleftrightarrow> (\<exists>ps. ps_pools s = Some ps \<and> length ps = MAX_SFSD_POOLS \<and> (\<forall>p \<in> set ps. \<not> sp_lock p)) \<and>
     lists_in dlist (pool_head s) {..<MAX_SFSD_POOLS} f (ps_links s)"

lemma add_pool:
  assumes inv: "pool_inv f s" and w: "w \<le> MINIMUM_WEIGHT" and a: "\<And>i. i < MAX_SFSD_POOLS \<Longrightarrow> a \<notin> set (pool_head s i # f i)"
  shows "\<exists>s'. sstack_sfsd_add w (Some a) s = Inr (0, s') \<and> pool_inv (f(pool_index w 0 weights := f (pool_index w 0 weights) @ [a])) s' \<and>
    ps_pools s' = ps_pools s"
proof -
  let ?i = "pool_index w 0 weights"
  obtain ps where ps: "ps_pools s = Some ps" "length ps = MAX_SFSD_POOLS" "\<forall>p \<in> set ps. \<not> sp_lock p"
    and lists: "lists_in dlist (pool_head s) {..<MAX_SFSD_POOLS} f (ps_links s)"
    using inv by (auto simp: pool_inv_def)
  have i: "?i < MAX_SFSD_POOLS" using pool_index_range [OF w] by blast
  let ?s = "s\<lparr>ps_links := bds_list_add_tail a (pool_head s ?i) (ps_links s)\<rparr>"
  have "lists_in dlist (pool_head s) {..<MAX_SFSD_POOLS} (f(?i := f ?i @ [a])) (ps_links ?s)"
    using bds.lists_add_tail [OF lists, of ?i a] i a by simp
  moreover have "pool_head ?s = pool_head s" by (simp add: pool_head_def fun_eq_iff)
  ultimately have "pool_inv (f(?i := f ?i @ [a])) ?s" using ps by (simp add: pool_inv_def)
  moreover have "sstack_sfsd_add w (Some a) s = Inr (0, ?s)"
    using ps i w by (simp add: sstack_sfsd_add_def pool_bad_args_def pool_head_def Let_def)
  ultimately show ?thesis by auto
qed

lemma find_eq_member: "a \<in> set xs \<Longrightarrow> List.find (\<lambda>b. b = a) xs = Some a"
  by (induction xs) auto

lemma remove_pool:
  assumes inv: "pool_inv f s" and w: "w \<le> MINIMUM_WEIGHT"
  shows "\<exists>s'. sstack_sfsd_remove w (Some a) s = Some (Inr (if a \<in> set (f (pool_index w 0 weights)) then 0 else -1, s')) \<and>
    pool_inv (f(pool_index w 0 weights := remove1 a (f (pool_index w 0 weights)))) s'"
proof -
  let ?i = "pool_index w 0 weights"
  obtain ps where ps: "ps_pools s = Some ps" "length ps = MAX_SFSD_POOLS" "\<forall>p \<in> set ps. \<not> sp_lock p"
    and lists: "lists_in dlist (pool_head s) {..<MAX_SFSD_POOLS} f (ps_links s)"
    using inv by (auto simp: pool_inv_def)
  have i: "?i < MAX_SFSD_POOLS" using pool_index_range [OF w] by blast
  have d: "dlist (ps_links s) (pool_head s ?i) (f ?i)" using bds.lists_reps(1) [OF lists] i by simp
  have eq: "sstack_sfsd_remove w (Some a) s =
      (if f ?i = [] then Some (Inr (-1, s))
       else Some (case List.find (\<lambda>b. b = a) (f ?i) of Some b \<Rightarrow> Inr (0, s\<lparr>ps_links := bds_list_del b (ps_links s)\<rparr>) | None \<Rightarrow> Inr (-1, s)))"
    using ps i leD [OF w] bds.empty_rep [OF d] list_find_dlist [OF d]
    by (simp add: sstack_sfsd_remove_def pool_bad_args_def pool_head_def Let_def)
  show ?thesis
  proof (cases "a \<in> set (f ?i)")
    case True
    then have f: "List.find (\<lambda>b. b = a) (f ?i) = Some a" by (rule find_eq_member)
    let ?s = "s\<lparr>ps_links := bds_list_del a (ps_links s)\<rparr>"
    have "lists_in dlist (pool_head s) {..<MAX_SFSD_POOLS} (f(?i := remove1 a (f ?i))) (ps_links ?s)"
      using bds.lists_del [OF lists _ True] i by simp
    moreover have "pool_head ?s = pool_head s" by (simp add: pool_head_def fun_eq_iff)
    ultimately have "pool_inv (f(?i := remove1 a (f ?i))) ?s" using ps by (simp add: pool_inv_def)
    then show ?thesis using eq f True by auto
  next
    case False
    then have "List.find (\<lambda>b. b = a) (f ?i) = None" by (auto simp: find_None_iff)
    then show ?thesis using eq False inv by (auto simp: remove1_idem)
  qed
qed

section \<open>From the initial pools\<close>

lemma init_loop:
  assumes "i + k = length ps" "distinct (map sp_list ps)" "\<forall>j < i. \<not> sp_lock (ps ! j) \<and> dlist h (sp_list (ps ! j)) []"
    "pool_init_loop i k (ps, h) = (ps', h')"
  shows "length ps' = length ps \<and> map sp_list ps' = map sp_list ps \<and>
    (\<forall>j < length ps. \<not> sp_lock (ps' ! j) \<and> dlist h' (sp_list (ps ! j)) [])"
  using assms
proof (induction k arbitrary: i ps h)
  case (Suc k)
  let ?ps = "ps[i := (ps ! i)\<lparr>sp_low := fst (weights ! i), sp_high := snd (weights ! i), sp_lock := False\<rparr>]"
  let ?h = "INIT_LIST_HEAD (sp_list (ps ! i)) h"
  have heads: "map sp_list ?ps = map sp_list ps" using Suc.prems(1) by (simp add: map_update list_update_same_conv)
  have old: "sp_list (ps ! j) \<noteq> sp_list (ps ! i)" if "j < i" for j
    using Suc.prems(1,2) that by (auto simp: distinct_conv_nth)
  have "\<not> sp_lock (?ps ! j) \<and> dlist ?h (sp_list (?ps ! j)) []" if j: "j < Suc i" for j
  proof (cases "j = i")
    case True
    then show ?thesis using Suc.prems(1) by (simp add: dlist_init)
  next
    case False
    then have "j < i" using j by simp
    moreover have "same_links h ?h {sp_list (ps ! j)}" using old [OF \<open>j < i\<close>] by (intro bds.init_same) simp
    ultimately show ?thesis using Suc.prems(3) bds.same_rep [of h "sp_list (ps ! j)" "[]" ?h] False by simp
  qed
  then have "length ps' = length ?ps \<and> map sp_list ps' = map sp_list ?ps \<and>
      (\<forall>j < length ?ps. \<not> sp_lock (ps' ! j) \<and> dlist h' (sp_list (?ps ! j)) [])"
    using Suc.prems(1,2,4) heads by (intro Suc.IH) simp_all
  moreover have "sp_list (?ps ! j) = sp_list (ps ! j)" if "j < length ps" for j using heads that by (metis length_list_update nth_map)
  ultimately show ?case using heads by simp
qed simp

lemma init_pools:
  assumes "length ps = MAX_SFSD_POOLS" "distinct (map sp_list ps)"
  shows "pool_inv (\<lambda>_. []) (sstack_sfsd_pool_init (Some ps) s)"
    "\<And>i. i < MAX_SFSD_POOLS \<Longrightarrow> pool_head (sstack_sfsd_pool_init (Some ps) s) i = sp_list (ps ! i)"
proof -
  obtain ps' h' where l: "pool_init_loop 0 MAX_SFSD_POOLS (ps, ps_links s) = (ps', h')" by (metis surj_pair)
  have l': "length ps' = length ps" "map sp_list ps' = map sp_list ps" "\<forall>j < length ps. \<not> sp_lock (ps' ! j) \<and> dlist h' (sp_list (ps ! j)) []"
    using init_loop [OF _ assms(2) _ l] assms(1) by simp_all
  have s: "sstack_sfsd_pool_init (Some ps) s = s\<lparr>ps_pools := Some ps', ps_links := h'\<rparr>" using l by (simp add: sstack_sfsd_pool_init_def)
  then show h: "pool_head (sstack_sfsd_pool_init (Some ps) s) i = sp_list (ps ! i)" if "i < MAX_SFSD_POOLS" for i
    using l'(1,2) assms(1) that by (simp add: pool_head_def) (metis nth_map)
  have "lists_in dlist (pool_head (sstack_sfsd_pool_init (Some ps) s)) {..<MAX_SFSD_POOLS} (\<lambda>_. []) h'"
    using h l'(3) assms by (auto simp: lists_in_def distinct_conv_nth)
  then show "pool_inv (\<lambda>_. []) (sstack_sfsd_pool_init (Some ps) s)"
    using s l'(1,3) assms(1) by (auto simp: pool_inv_def in_set_conv_nth)
qed

fun add_all :: "(32 word \<times> addr) list \<Rightarrow> pool_state \<Rightarrow> pool_state exec" where
  "add_all [] s = Inr s"
| "add_all ((w, a) # was) s = exec_bind (sstack_sfsd_add w (Some a) s) (\<lambda>(_, s). add_all was s)"

definition in_pool :: "nat \<Rightarrow> (32 word \<times> addr) list \<Rightarrow> addr list" where
  "in_pool i was = map snd (filter (\<lambda>(w, a). fst (weights ! i) \<le> w \<and> w \<le> snd (weights ! i)) was)"

lemma pool_index_iff:
  assumes "w \<le> MINIMUM_WEIGHT" "i < MAX_SFSD_POOLS"
  shows "pool_index w 0 weights = i \<longleftrightarrow> fst (weights ! i) \<le> w \<and> w \<le> snd (weights ! i)"
  using pool_index_range [OF assms(1)] pool_ranges_disjoint assms(2) by blast

lemma pool_inv_cong: "(\<And>i. i < MAX_SFSD_POOLS \<Longrightarrow> f i = g i) \<Longrightarrow> pool_inv f s \<Longrightarrow> pool_inv g s"
  by (simp add: pool_inv_def lists_in_def)

lemma add_all_pools:
  assumes "pool_inv f s" "\<forall>(w, a) \<in> set was. w \<le> MINIMUM_WEIGHT" "distinct (map snd was)"
    "\<forall>i < MAX_SFSD_POOLS. set (map snd was) \<inter> set (pool_head s i # f i) = {}"
  shows "\<exists>s'. add_all was s = Inr s' \<and> pool_inv (\<lambda>i. f i @ in_pool i was) s'"
  using assms
proof (induction was arbitrary: f s)
  case (Cons wa was)
  obtain w a where wa: "wa = (w, a)" by (cases wa)
  let ?i = "pool_index w 0 weights"
  have w: "w \<le> MINIMUM_WEIGHT" using Cons.prems(2) wa by simp
  obtain s1 where s1: "sstack_sfsd_add w (Some a) s = Inr (0, s1)" "pool_inv (f(?i := f ?i @ [a])) s1" "ps_pools s1 = ps_pools s"
    using add_pool [OF Cons.prems(1) w, of a] Cons.prems(4) wa by auto
  have "pool_head s1 = pool_head s" using s1(3) by (simp add: pool_head_def fun_eq_iff)
  then have "\<forall>j < MAX_SFSD_POOLS. set (map snd was) \<inter> set (pool_head s1 j # (f(?i := f ?i @ [a])) j) = {}"
    using Cons.prems(3,4) wa by auto
  then obtain s' where s': "add_all was s1 = Inr s'" "pool_inv (\<lambda>j. (f(?i := f ?i @ [a])) j @ in_pool j was) s'"
    using Cons.IH [OF s1(2)] Cons.prems(2,3) by auto
  have "(f(?i := f ?i @ [a])) j @ in_pool j was = f j @ in_pool j (wa # was)" if "j < MAX_SFSD_POOLS" for j
    using pool_index_iff [OF w that] wa by (auto simp: in_pool_def)
  then show ?case using pool_inv_cong [OF _ s'(2)] s1(1) s'(1) wa by auto
qed (simp add: in_pool_def)

lemma map_snd_remove1:
  assumes "(w, a) \<in> set was" "distinct (map snd was)"
  shows "map snd (remove1 (w, a) was) = remove1 a (map snd was)"
  using assms
proof (induction was)
  case (Cons x xs)
  then show ?case by (cases "x = (w, a)") (auto simp: rev_image_eqI)
qed simp

lemma in_pool_remove:
  assumes "(w, a) \<in> set was" "distinct (map snd was)" "w \<le> MINIMUM_WEIGHT" "i < MAX_SFSD_POOLS"
  shows "in_pool i (remove1 (w, a) was) = (if i = pool_index w 0 weights then remove1 a (in_pool i was) else in_pool i was)"
proof -
  let ?P = "\<lambda>(w, a). fst (weights ! i) \<le> w \<and> w \<le> snd (weights ! i)"
  have f: "filter ?P (remove1 (w, a) was) = remove1 (w, a) (filter ?P was)" by (simp add: filter_remove1)
  show ?thesis
  proof (cases "i = pool_index w 0 weights")
    case True
    then have "(w, a) \<in> set (filter ?P was)" using assms pool_index_iff [OF assms(3,4)] by simp
    moreover have "distinct (map snd (filter ?P was))" using assms(2) by (rule distinct_map_filter)
    ultimately have "map snd (remove1 (w, a) (filter ?P was)) = remove1 a (map snd (filter ?P was))" by (rule map_snd_remove1)
    then show ?thesis using True unfolding in_pool_def f by simp
  next
    case False
    then have "(w, a) \<notin> set (filter ?P was)" using pool_index_iff [OF assms(3,4)] by auto
    then show ?thesis using False f by (simp add: in_pool_def remove1_idem)
  qed
qed

text \<open>
  C17: After the pools are initialised and sfsds are added, each pool holds exactly the sfsds whose weight is in its range,
  in the order in which they were added, and no sfsd is in two pools.  Removing one of the sfsds with its weight
  succeeds and leaves all others.
\<close>

theorem sfsd_pools_by_weight:
  assumes "length ps = MAX_SFSD_POOLS" "distinct (map sp_list ps)" "\<forall>(w, a) \<in> set was. w \<le> MINIMUM_WEIGHT" "distinct (map snd was)"
    "set (map snd was) \<inter> set (map sp_list ps) = {}" "(w, a) \<in> set was"
  shows "\<exists>s1 s2. add_all was (sstack_sfsd_pool_init (Some ps) s) = Inr s1 \<and> pool_inv (\<lambda>i. in_pool i was) s1 \<and>
    sstack_sfsd_remove w (Some a) s1 = Some (Inr (0, s2)) \<and> pool_inv (\<lambda>i. in_pool i (remove1 (w, a) was)) s2"
proof -
  let ?s = "sstack_sfsd_pool_init (Some ps) s"
  note init = init_pools(1) [OF assms(1,2), of s] init_pools(2) [OF assms(1,2)]
  have "\<forall>i < MAX_SFSD_POOLS. set (map snd was) \<inter> set (pool_head ?s i # []) = {}"
    using init(2) assms(1,5) by (auto simp: disjoint_iff)
  then obtain s1 where s1: "add_all was ?s = Inr s1" "pool_inv (\<lambda>i. in_pool i was) s1"
    using add_all_pools [OF init(1) assms(3,4)] by auto
  have w: "w \<le> MINIMUM_WEIGHT" using assms(3,6) by auto
  let ?i = "pool_index w 0 weights"
  have i: "?i < MAX_SFSD_POOLS" using pool_index_range [OF w] by blast
  have "(w, a) \<in> set (filter (\<lambda>(w, a). fst (weights ! ?i) \<le> w \<and> w \<le> snd (weights ! ?i)) was)"
    using assms(6) pool_index_range [OF w] by simp
  then have "a \<in> set (in_pool ?i was)" unfolding in_pool_def set_map by (rule rev_image_eqI) simp
  then obtain s2 where s2: "sstack_sfsd_remove w (Some a) s1 = Some (Inr (0, s2))"
    "pool_inv ((\<lambda>i. in_pool i was)(?i := remove1 a (in_pool ?i was))) s2"
    using remove_pool [OF s1(2) w, of a] by auto
  have "pool_inv (\<lambda>i. in_pool i (remove1 (w, a) was)) s2"
    by (rule pool_inv_cong [OF _ s2(2)]) (simp add: in_pool_remove [OF assms(6,4) w])
  then show ?thesis using s1 s2(1) by blast
qed

definition sample_pools :: "sfsd_pool list" where
  "sample_pools = map (\<lambda>i. \<lparr>sp_low = 0, sp_high = 0, sp_list = i, sp_lock = False\<rparr>) [0..<8]"

theorem sfsd_pools_by_weight_witness:
  "\<exists>s1 s2. add_all [(5, 20), (50, 21), (7, 22)] (sstack_sfsd_pool_init (Some sample_pools)
      \<lparr>ps_links = \<lparr>nxt = id, prv = id\<rparr>, ps_pools = None, ps_errno = 0\<rparr>) = Inr s1 \<and>
    dlist (ps_links s1) (pool_head s1 0) [20, 22] \<and> dlist (ps_links s1) (pool_head s1 4) [21] \<and>
    sstack_sfsd_remove 5 (Some 20) s1 = Some (Inr (0, s2)) \<and> dlist (ps_links s2) (pool_head s2 0) [22]"
proof -
  have p: "length sample_pools = MAX_SFSD_POOLS" "map sp_list sample_pools = [0..<8]"
    by (simp_all add: sample_pools_def MAX_SFSD_POOLS_def comp_def del: upt_rec_numeral)
  have d: "dlist (ps_links s) (pool_head s 0) (f 0)" "dlist (ps_links s) (pool_head s 4) (f 4)" if "pool_inv f s" for f s
    using that by (auto simp: pool_inv_def lists_in_def MAX_SFSD_POOLS_def)
  have "in_pool 0 [(5, 20), (50, 21), (7, 22)] = [20, 22]" "in_pool 4 [(5, 20), (50, 21), (7, 22)] = [21]"
    "in_pool 0 (remove1 (5, 20) [(5, 20), (50, 21), (7, 22)]) = [22]"
    by (simp_all add: in_pool_def weights_def)
  moreover obtain s1 s2 where "add_all [(5, 20), (50, 21), (7, 22)] (sstack_sfsd_pool_init (Some sample_pools)
      \<lparr>ps_links = \<lparr>nxt = id, prv = id\<rparr>, ps_pools = None, ps_errno = 0\<rparr>) = Inr s1"
    "pool_inv (\<lambda>i. in_pool i [(5, 20), (50, 21), (7, 22)]) s1" "sstack_sfsd_remove 5 (Some 20) s1 = Some (Inr (0, s2))"
    "pool_inv (\<lambda>i. in_pool i (remove1 (5, 20) [(5, 20), (50, 21), (7, 22)])) s2"
    using sfsd_pools_by_weight [of sample_pools "[(5, 20), (50, 21), (7, 22)]" 5 20 "\<lparr>ps_links = \<lparr>nxt = id, prv = id\<rparr>, ps_pools = None, ps_errno = 0\<rparr>"]
      p by (auto simp: MINIMUM_WEIGHT_def)
  ultimately show ?thesis using d by metis
qed

end
