(* ===== verification/Policy.thy ===== *)
theory Policy
  imports Cli_Serdes
begin

text \<open>
  Policies (\<^verbatim>\<open>policy/src/policy.c\<close>): the table of registered plugins, the search table that maps keys of files to
  policy entries, and the records of policies in the database.  JudySL arrays are a parameter, whose documented
  behaviour \<open>judy_ok\<close> states; addresses that \<^verbatim>\<open>malloc\<close> returns, contents of fresh memory, the output of \<^verbatim>\<open>file\<close> and the
  database are arguments.  Every path that takes one of the locks releases it before it returns, and
  the locks are left out.
\<close>

unbundle bit_operations_syntax

section \<open>Structures\<close>

definition NUM_BUCKETS :: nat where "NUM_BUCKETS = 16"
definition NUM_MAX_POLICY :: nat where "NUM_MAX_POLICY = 64"
definition POLICY_TAG_LEN :: nat where "POLICY_TAG_LEN = 16"
definition TYPE_LEN :: nat where "TYPE_LEN = 8"
definition FNAME_LEN :: nat where "FNAME_LEN = 4096"
definition KEY_LEN :: nat where "KEY_LEN = FNAME_LEN + 16 + TYPE_LEN + 4"

lemmas policy_sizes = NUM_BUCKETS_def NUM_MAX_POLICY_def POLICY_TAG_LEN_def TYPE_LEN_def FNAME_LEN_def KEY_LEN_def

record policy_plugin =
  pp_refcount :: "32 word"
  pp_policy_name :: string
  pp_sha_sum :: "8 word list"
  is_activated :: bool

text \<open>An entry; the length of \<open>pe_policy\<close> is the number of pointers there is room for.\<close>

record policy_entry =
  pe_attr :: attribute
  pe_num_plugins :: "64 word"
  pe_refcount :: "32 word"
  pe_policy :: "nat list"

text \<open>\<^verbatim>\<open>struct policy_input\<close> with the widths of its fields; the tags are the bytes of the array.\<close>

record policy_request =
  pq_uid :: "32 word"
  pq_gid :: "32 word"
  pq_policy_tag :: "8 word list"
  pq_ftype :: string
  pq_fname :: string
  pq_num_policy :: "64 word"
  pq_attr :: attribute
  pq_index :: int

record policy_db_entry =
  pdb_policy_tag :: "8 word list"
  pdb_policy_cksum :: "8 word list list"
  pdb_mem_index :: "8 word"
  pdb_num_policy :: "64 word"
  pdb_attr :: attribute

text \<open>A JudySL array from strings to words: the empty array, \<^verbatim>\<open>JSLI\<close> with the store to the value, \<^verbatim>\<open>JSLG\<close> and \<^verbatim>\<open>JSLD\<close>.\<close>

record 'j judysl =
  js_null :: 'j
  js_ins :: "string \<Rightarrow> nat \<Rightarrow> 'j \<Rightarrow> 'j"
  js_get :: "string \<Rightarrow> 'j \<Rightarrow> nat option"
  js_del :: "string \<Rightarrow> 'j \<Rightarrow> 'j"

definition judy_ok :: "'j judysl \<Rightarrow> bool" where
  "judy_ok j \<longleftrightarrow>
     (\<forall>k. js_get j k (js_null j) = None) \<and>
     (\<forall>k k' v a. js_get j k (js_ins j k' v a) = (if k = k' then Some v else js_get j k a)) \<and>
     (\<forall>k k' a. js_get j k (js_del j k' a) = (if k = k' then None else js_get j k a))"

text \<open>The list of \<^verbatim>\<open>show_policy_entries\<close>: null, a block of pointers, or a block that has been freed.\<close>

datatype pol_list = No_List | Pol_List "nat list" | Freed_List

text \<open>The globals and the heap; 0 is the null pointer.\<close>

record 'j policy_state =
  pt_table :: "nat list"
  policy_slots :: "64 word"
  pst_head :: "'j list"
  policy_initialized :: bool
  pol_list :: pol_list
  num_pol :: nat
  plugins :: "nat \<rightharpoonup> policy_plugin"
  entries :: "nat \<rightharpoonup> policy_entry"
  requests :: "nat \<rightharpoonup> policy_request"

text \<open>The state in which a process starts.\<close>

definition static_policy :: "'j judysl \<Rightarrow> 'j policy_state" where
  "static_policy j = \<lparr>pt_table = replicate NUM_MAX_POLICY 0, policy_slots = 0, pst_head = replicate NUM_BUCKETS (js_null j),
     policy_initialized = False, pol_list = No_List, num_pol = 0, plugins = Map.empty, entries = Map.empty, requests = Map.empty\<rparr>"

section \<open>Plugins\<close>

text \<open>\<^verbatim>\<open>ffs\<close> of an \<^verbatim>\<open>int\<close>.\<close>

definition ffs :: "32 word \<Rightarrow> nat" where
  "ffs x = (case find (bit x) [0..<32] of None \<Rightarrow> 0 | Some i \<Rightarrow> Suc i)"

text \<open>\<^verbatim>\<open>1 << i\<close>, an \<^verbatim>\<open>int\<close>, where a 64 bit word is needed.\<close>

definition slot_bit :: "nat \<Rightarrow> 64 word" where
  "slot_bit i = scast (push_bit i (1 :: 32 word))"

definition new_plugin :: policy_plugin where
  "new_plugin = \<lparr>pp_refcount = 0, pp_policy_name = [], pp_sha_sum = replicate 32 0, is_activated = False\<rparr>"

text \<open>The slots are cut to the width of an \<^verbatim>\<open>int\<close>.  Without a free one the index is -1.\<close>

definition register_plugin :: "bool \<Rightarrow> nat \<Rightarrow> 'j policy_state \<Rightarrow> (32 word \<times> nat option \<times> 'j policy_state) exec" where
  "register_plugin path_null p s =
     (if \<not> policy_initialized s \<or> path_null then Inr (of_int (- EINVAL), None, s)
      else if p = 0 then Inr (of_int (- ENOMEM), None, s)
      else
      let slot = ffs (ucast (policy_slots s)) in
      if slot = 0 then Inl Bad_Access
      else
        Inr (0, Some (slot - 1),
          s\<lparr>pt_table := (pt_table s)[slot - 1 := p], policy_slots := policy_slots s XOR slot_bit (slot - 1),
            plugins := (plugins s)(p \<mapsto> new_plugin)\<rparr>))"

definition activate_plugin :: "nat \<Rightarrow> 'j policy_state \<Rightarrow> (32 word \<times> 'j policy_state) exec" where
  "activate_plugin plugin_id s =
     (if \<not> policy_initialized s then Inr (of_int (- EINVAL), s)
      else if length (pt_table s) \<le> plugin_id then Inl Bad_Access
      else
      let p = pt_table s ! plugin_id in
      if p = 0 then Inl Null_Deref
      else
      case plugins s p of None \<Rightarrow> Inl Bad_Access | Some pp \<Rightarrow>
      Inr (0, s\<lparr>plugins := (plugins s)(p \<mapsto> pp\<lparr>is_activated := True\<rparr>)\<rparr>))"

definition unregister_plugin :: "nat \<Rightarrow> 'j policy_state \<Rightarrow> (32 word \<times> 'j policy_state) exec" where
  "unregister_plugin plugin_id s =
     (if length (pt_table s) \<le> plugin_id then Inl Bad_Access
      else
      let p = pt_table s ! plugin_id in
      if p = 0 then Inr (0, s)
      else if 32 \<le> plugin_id then Inl Undefined
      else
      let s = s\<lparr>pt_table := (pt_table s)[plugin_id := 0], policy_slots := policy_slots s XOR slot_bit plugin_id\<rparr> in
      case plugins s p of None \<Rightarrow> Inl Bad_Access | Some pp \<Rightarrow>
      Inr (0, if pp_refcount pp = 0 then s\<lparr>plugins := (plugins s)(p := None)\<rparr> else s))"

text \<open>
  The table in order: a slot is free if its bit is set, the upper half is never used, and every plugin in the
  table is in memory, once.
\<close>

definition slots_ok :: "'j policy_state \<Rightarrow> bool" where
  "slots_ok s \<longleftrightarrow> length (pt_table s) = NUM_MAX_POLICY \<and>
     (\<forall>i < 32. bit (policy_slots s) i \<longleftrightarrow> pt_table s ! i = 0) \<and>
     (\<forall>i < NUM_MAX_POLICY. 32 \<le> i \<longrightarrow> pt_table s ! i = 0) \<and>
     (\<forall>i < NUM_MAX_POLICY. pt_table s ! i \<noteq> 0 \<longrightarrow> plugins s (pt_table s ! i) \<noteq> None) \<and>
     (\<forall>i < NUM_MAX_POLICY. \<forall>k < NUM_MAX_POLICY. pt_table s ! i = pt_table s ! k \<longrightarrow> pt_table s ! i \<noteq> 0 \<longrightarrow> i = k)"

lemma bit_slot_bit: "k < 32 \<Longrightarrow> i < 32 \<Longrightarrow> bit (slot_bit i) k \<longleftrightarrow> k = i"
  by (auto simp: slot_bit_def bit_simps)

lemma ffs_cases:
  assumes "length xs \<ge> 32" "\<forall>i < 32. bit x i \<longleftrightarrow> xs ! i = (0 :: nat)"
  shows "ffs (ucast (x :: 64 word)) = 0 \<Longrightarrow> \<forall>i < 32. xs ! i \<noteq> 0"
    "ffs (ucast x) = Suc i \<Longrightarrow> i < 32 \<and> xs ! i = 0 \<and> (\<forall>k < i. xs ! k \<noteq> 0)"
proof -
  have b: "bit (ucast x :: 32 word) k \<longleftrightarrow> xs ! k = 0" if "k < 32" for k using that assms(2) by (simp add: bit_simps)
  show "ffs (ucast x) = 0 \<Longrightarrow> \<forall>i < 32. xs ! i \<noteq> 0"
    using b by (auto simp: ffs_def find_None_iff split: option.splits)
  show "ffs (ucast x) = Suc i \<Longrightarrow> i < 32 \<and> xs ! i = 0 \<and> (\<forall>k < i. xs ! k \<noteq> 0)"
    using b by (auto simp: ffs_def find_Some_iff split: option.splits)
qed

lemma slots_live: "slots_ok s \<Longrightarrow> k < length (pt_table s) \<Longrightarrow> pt_table s ! k \<noteq> 0 \<Longrightarrow> plugins s (pt_table s ! k) \<noteq> None"
  unfolding slots_ok_def by simp

text \<open>A change of one slot.\<close>

lemma slots_ok_change:
  assumes ok: "slots_ok s" and i: "i < 32" and chg: "(pt_table s ! i = 0) \<longleftrightarrow> p \<noteq> 0"
    and s': "pt_table s' = (pt_table s)[i := p]" "policy_slots s' = policy_slots s XOR slot_bit i"
    and live: "p \<noteq> 0 \<Longrightarrow> plugins s' p \<noteq> None \<and> p \<notin> set (pt_table s)"
    and kept: "\<And>k. k < NUM_MAX_POLICY \<Longrightarrow> k \<noteq> i \<Longrightarrow> pt_table s ! k \<noteq> 0 \<Longrightarrow> plugins s' (pt_table s ! k) \<noteq> None"
  shows "slots_ok s'"
proof -
  have len: "length (pt_table s) = 64" using ok by (simp add: slots_ok_def policy_sizes)
  have new: "pt_table s' ! k = (if k = i then p else pt_table s ! k)" if "k < 64" for k
    using that s'(1) len by (simp add: nth_list_update)
  have b: "bit (policy_slots s') k \<longleftrightarrow> pt_table s' ! k = 0" if k: "k < 32" for k
    using ok k i chg new [of k] bit_slot_bit [OF k i] by (auto simp: s'(2) bit_simps slots_ok_def)
  have up: "pt_table s' ! k = 0" if k: "k < 64" "32 \<le> k" for k
    using ok k i new [of k] by (auto simp: slots_ok_def policy_sizes)
  have pl: "plugins s' (pt_table s' ! k) \<noteq> None" if "k < 64" "pt_table s' ! k \<noteq> 0" for k
    using that live kept new [of k] by (auto simp: policy_sizes split: if_splits)
  have inj: "k = m" if k: "k < 64" "m < 64" "pt_table s' ! k = pt_table s' ! m" "pt_table s' ! k \<noteq> 0" for k m
  proof -
    have "pt_table s ! n \<noteq> p" if "n < 64" "p \<noteq> 0" for n using that live len by (metis nth_mem)
    then show ?thesis
      using k new [of k] new [of m] ok by (auto simp: slots_ok_def policy_sizes split: if_splits)
  qed
  show ?thesis unfolding slots_ok_def policy_sizes using b up pl inj len s'(1) by (auto simp: policy_sizes)
qed

lemma register_cases:
  assumes ok: "slots_ok s" and "policy_initialized s" "p \<noteq> 0" "plugins s p = None"
  shows "(\<forall>i < 32. pt_table s ! i \<noteq> 0) \<and> register_plugin False p s = Inl Bad_Access \<or>
    (\<exists>i < 32. \<exists>s'. pt_table s ! i = 0 \<and> (\<forall>k < i. pt_table s ! k \<noteq> 0) \<and> register_plugin False p s = Inr (0, Some i, s') \<and>
       pt_table s' = (pt_table s)[i := p] \<and> plugins s' p = Some new_plugin \<and> slots_ok s')"
proof -
  have len: "32 \<le> length (pt_table s)" and b: "\<forall>i < 32. bit (policy_slots s) i \<longleftrightarrow> pt_table s ! i = 0"
    using ok by (simp_all add: slots_ok_def policy_sizes)
  show ?thesis
  proof (cases "ffs (ucast (policy_slots s))")
    case 0
    then show ?thesis using ffs_cases(1) [OF len b] assms by (simp add: register_plugin_def)
  next
    case (Suc i)
    note f = ffs_cases(2) [OF len b Suc]
    let ?s = "s\<lparr>pt_table := (pt_table s)[i := p], policy_slots := policy_slots s XOR slot_bit i, plugins := (plugins s)(p \<mapsto> new_plugin)\<rparr>"
    have "p \<notin> set (pt_table s)"
    proof
      assume "p \<in> set (pt_table s)"
      then obtain k where "k < length (pt_table s)" "pt_table s ! k = p" by (metis in_set_conv_nth)
      then show False using slots_live [OF ok, of k] assms(3,4) by simp
    qed
    then have "slots_ok ?s"
      using f assms(3) ok by (intro slots_ok_change [OF ok, of i p]) (auto simp: slots_ok_def)
    then show ?thesis using Suc f assms(2,3) by (auto simp: register_plugin_def Let_def)
  qed
qed

lemma activate_slots_ok:
  "slots_ok s \<Longrightarrow> activate_plugin i s = Inr (r, s') \<Longrightarrow> slots_ok s'"
  by (auto simp: activate_plugin_def slots_ok_def Let_def split: if_splits option.splits)

lemma unregister_slots_ok:
  assumes ok: "slots_ok s" and un: "unregister_plugin i s = Inr (r, s')"
  shows "slots_ok s'"
proof (cases "pt_table s ! i = 0")
  case True
  then show ?thesis using un ok by (simp add: unregister_plugin_def Let_def split: if_splits)
next
  case False
  have len: "length (pt_table s) = 64" using ok by (simp add: slots_ok_def policy_sizes)
  have i: "i < 32" using un False by (auto simp: unregister_plugin_def Let_def split: if_splits)
  have s': "pt_table s' = (pt_table s)[i := 0]" "policy_slots s' = policy_slots s XOR slot_bit i"
    "plugins s' = plugins s \<or> plugins s' = (plugins s)(pt_table s ! i := None)"
    using un False by (auto simp: unregister_plugin_def Let_def split: if_splits option.splits)
  have "plugins s' (pt_table s ! k) \<noteq> None" if "k < NUM_MAX_POLICY" "k \<noteq> i" "pt_table s ! k \<noteq> 0" for k
    using that ok s'(3) i by (fastforce simp: slots_ok_def policy_sizes)
  then show ?thesis using False by (intro slots_ok_change [OF ok i _ s'(1,2)]) auto
qed

section \<open>Entries\<close>

text \<open>
  The arrays of tags are passed as arrays of pointers, so that 8 bytes of text are taken for the address of a tag; \<open>mem\<close>
  delivers the string at an address, or the crash that reading it ends in.
\<close>

definition tag_pointer :: "8 word list \<Rightarrow> nat \<Rightarrow> 64 word exec" where
  "tag_pointer tags i =
     (if length tags < 8 * i + 8 then Inl Bad_Access
      else Inr (of_nat (foldr (\<lambda>b n. unat b + 256 * n) (take 8 (drop (8 * i) tags)) 0)))"

text \<open>The loop over the table of plugins for tag number \<open>i\<close>; \<open>k\<close> is the number of plugins found so far.\<close>

fun tag_plugins ::
  "(64 word \<Rightarrow> string exec) \<Rightarrow> 8 word list \<Rightarrow> nat \<Rightarrow> nat list \<Rightarrow> nat \<Rightarrow> policy_entry \<Rightarrow> (nat \<rightharpoonup> policy_plugin) \<Rightarrow>
   (nat \<times> policy_entry \<times> (nat \<rightharpoonup> policy_plugin)) exec" where
  "tag_plugins mem tags i [] k pe pl = Inr (k, pe, pl)"
| "tag_plugins mem tags i (p # ps) k pe pl =
     (if p = 0 then tag_plugins mem tags i ps k pe pl
      else
      exec_bind (tag_pointer tags i) (\<lambda>a.
      exec_bind (mem a) (\<lambda>tag.
      case pl p of None \<Rightarrow> Inl Bad_Access | Some pp \<Rightarrow>
      if tag \<noteq> pp_policy_name pp then tag_plugins mem tags i ps k pe pl
      else if length (pe_policy pe) \<le> k then Inl Bad_Access
      else
        tag_plugins mem tags i ps (Suc k) (pe\<lparr>pe_policy := (pe_policy pe)[k := p], pe_num_plugins := pe_num_plugins pe + 1\<rparr>)
          (pl(p \<mapsto> pp\<lparr>pp_refcount := pp_refcount pp + 1\<rparr>)))))"

text \<open>The loop over the tags from number \<open>i\<close>, an \<^verbatim>\<open>int\<close>, with \<open>n\<close> to go.\<close>

fun all_tags ::
  "(64 word \<Rightarrow> string exec) \<Rightarrow> 8 word list \<Rightarrow> nat list \<Rightarrow> nat \<Rightarrow> nat \<Rightarrow> nat \<Rightarrow> policy_entry \<Rightarrow> (nat \<rightharpoonup> policy_plugin) \<Rightarrow>
   (policy_entry \<times> (nat \<rightharpoonup> policy_plugin)) exec" where
  "all_tags mem tags ps i 0 k pe pl = Inr (pe, pl)"
| "all_tags mem tags ps i (Suc n) k pe pl =
     (if 2 ^ 31 \<le> i then Inl Undefined
      else exec_bind (tag_plugins mem tags i ps k pe pl) (\<lambda>(k, pe, pl). all_tags mem tags ps (Suc i) n k pe pl))"

definition get_pe_from_tags ::
  "(64 word \<Rightarrow> string exec) \<Rightarrow> 8 word list \<Rightarrow> 64 word \<Rightarrow> policy_entry \<Rightarrow> 'j policy_state \<Rightarrow> (policy_entry \<times> 'j policy_state) exec" where
  "get_pe_from_tags mem tags num_tags pe s =
     exec_bind (all_tags mem tags (pt_table s) 0 (unat num_tags) 0 pe (plugins s)) (\<lambda>(pe, pl). Inr (pe, s\<lparr>plugins := pl\<rparr>))"

definition get_pe_from_pi ::
  "(64 word \<Rightarrow> string exec) \<Rightarrow> policy_request \<Rightarrow> policy_entry \<Rightarrow> 'j policy_state \<Rightarrow> (policy_entry \<times> 'j policy_state) exec" where
  "get_pe_from_pi mem pi pe s = get_pe_from_tags mem (pq_policy_tag pi) (pq_num_policy pi) (pe\<lparr>pe_attr := pq_attr pi\<rparr>) s"

definition get_pe_from_pdbe ::
  "(64 word \<Rightarrow> string exec) \<Rightarrow> policy_db_entry \<Rightarrow> policy_entry \<Rightarrow> 'j policy_state \<Rightarrow> (policy_entry \<times> 'j policy_state) exec" where
  "get_pe_from_pdbe mem pdb pe s = get_pe_from_tags mem (pdb_policy_tag pdb) (pdb_num_policy pdb) (pe\<lparr>pe_attr := pdb_attr pdb\<rparr>) s"

text \<open>
  From an entry to a record.  \<^verbatim>\<open>strncpy\<close> fills up with zeros.  The attributes are copied with the size of the whole
  record, 3104 bytes, to the 12 bytes they have.
\<close>

definition tag_bytes :: "string \<Rightarrow> 8 word list" where
  "tag_bytes t = take POLICY_TAG_LEN (map of_char t @ replicate POLICY_TAG_LEN 0)"

fun copy_tags ::
  "(nat \<rightharpoonup> policy_plugin) \<Rightarrow> nat list \<Rightarrow> nat \<Rightarrow> nat \<Rightarrow> policy_db_entry \<Rightarrow> policy_db_entry exec" where
  "copy_tags pl ps i 0 d = Inr d"
| "copy_tags pl ps i (Suc n) d =
     (if NUM_MAX_POLICY \<le> i \<or> length ps \<le> i then Inl Bad_Access
      else
      case pl (ps ! i) of None \<Rightarrow> Inl Bad_Access | Some pp \<Rightarrow>
      copy_tags pl ps (Suc i) n
        (d\<lparr>pdb_policy_tag := take (POLICY_TAG_LEN * i) (pdb_policy_tag d) @ tag_bytes (pp_policy_name pp) @
             drop (POLICY_TAG_LEN * Suc i) (pdb_policy_tag d),
           pdb_policy_cksum := (pdb_policy_cksum d)[i := pp_sha_sum pp]\<rparr>))"

definition SIZEOF_ATTRIBUTE :: nat where "SIZEOF_ATTRIBUTE = 12"

definition SIZEOF_PDBE :: nat where
  "SIZEOF_PDBE = NUM_MAX_POLICY * POLICY_TAG_LEN + NUM_MAX_POLICY * 32 + 8 + 8 + SIZEOF_ATTRIBUTE + 4"

definition get_pdbe_from_pe :: "policy_db_entry \<Rightarrow> policy_entry \<Rightarrow> 'j policy_state \<Rightarrow> policy_db_entry exec" where
  "get_pdbe_from_pe junk pe s =
     exec_bind (copy_tags (plugins s) (pe_policy pe) 0 (unat (pe_num_plugins pe)) junk) (\<lambda>d.
     if SIZEOF_ATTRIBUTE < SIZEOF_PDBE then Inl Bad_Access
     else Inr (d\<lparr>pdb_num_policy := pe_num_plugins pe, pdb_attr := pe_attr pe\<rparr>))"

section \<open>The search table\<close>

text \<open>\<^verbatim>\<open>sprintf\<close> with \<^verbatim>\<open>%d\<close> and with \<^verbatim>\<open>%x\<close>.\<close>

definition sdecimal :: "int \<Rightarrow> string" where
  "sdecimal n = (if n < 0 then CHR ''-'' # decimal (nat (- n)) else decimal (nat n))"

definition hex_digit :: "nat \<Rightarrow> char" where
  "hex_digit n = char_of (if n < 10 then 48 + n else 87 + n)"

fun hexadecimal :: "nat \<Rightarrow> string" where
  "hexadecimal n = (if n < 16 then [hex_digit n] else hexadecimal (n div 16) @ [hex_digit (n mod 16)])"

declare hexadecimal.simps [simp del]

text \<open>The bucket and the key of a policy; a field that does not begin with \<^verbatim>\<open>*\<close> is specific.\<close>

definition starred :: "string \<Rightarrow> bool" where
  "starred t \<longleftrightarrow> t \<noteq> [] \<and> hd t = CHR ''*''"

definition policy_index :: "policy_request \<Rightarrow> 8 word" where
  "policy_index pi =
     (if starred (pq_ftype pi) then 0 else 1) OR (if pq_gid pi = -1 then 0 else 2) OR
     (if pq_uid pi = -1 then 0 else 4) OR (if starred (pq_fname pi) then 0 else 8)"

definition policy_key :: "policy_request \<Rightarrow> string" where
  "policy_key pi = pq_fname pi @ ''^'' @ pq_ftype pi @ ''^'' @ sdecimal (sint (pq_uid pi)) @ ''^'' @ sdecimal (sint (pq_gid pi))"

definition add_policy_to_pst :: "'j judysl \<Rightarrow> string \<Rightarrow> 8 word \<Rightarrow> nat \<Rightarrow> 'j policy_state \<Rightarrow> 'j policy_state exec" where
  "add_policy_to_pst j key index pe s =
     (if length (pst_head s) \<le> unat index then Inl Bad_Access
      else Inr (s\<lparr>pst_head := (pst_head s)[unat index := js_ins j key pe (pst_head s ! unat index)]\<rparr>))"

text \<open>A call of \<^verbatim>\<open>strtok\<close>: the token and what is left, or \<open>None\<close> for a null pointer.\<close>

definition strtok :: "string \<Rightarrow> string \<Rightarrow> (string \<times> string) option" where
  "strtok delim t =
     (let t = dropWhile (\<lambda>c. c \<in> set delim) t in
      if t = [] then None
      else Some (takeWhile (\<lambda>c. c \<notin> set delim) t, drop 1 (dropWhile (\<lambda>c. c \<notin> set delim) t)))"

fun substring :: "string \<Rightarrow> string \<Rightarrow> bool" where
  "substring x [] \<longleftrightarrow> x = []"
| "substring x (c # t) \<longleftrightarrow> take (length x) (c # t) = x \<or> substring x t"

text \<open>
  The type of a file, from the line that \<^verbatim>\<open>file\<close> prints about it.  Any type but \<^verbatim>\<open>text\<close> is returned in an array that
  no longer exists, and printed by the caller.
\<close>

definition get_file_type :: "string \<Rightarrow> string option \<Rightarrow> string exec" where
  "get_file_type fpath output =
     (if FNAME_LEN < length fpath then Inl Bad_Access
      else
      case output of None \<Rightarrow> Inr ''*'' | Some line \<Rightarrow>
      case (case strtok [CHR '':'', CHR '' '', CHR 0x09] line of None \<Rightarrow> None | Some (_, rest) \<Rightarrow> strtok '':'' rest) of
        None \<Rightarrow> Inl Null_Deref
      | Some (ftype, _) \<Rightarrow> if substring ''text'' ftype then Inr ''text'' else Inl Undefined)"

text \<open>The key that \<^verbatim>\<open>get_policy\<close> looks up in bucket \<open>i\<close>.\<close>

definition lookup_key :: "string \<Rightarrow> string \<Rightarrow> 32 word \<Rightarrow> 32 word \<Rightarrow> nat \<Rightarrow> string" where
  "lookup_key path ftype uid gid i =
     (if bit i 3 then path else ''*'') @ ''^'' @ hexadecimal (unat (if bit i 2 then uid else -1)) @ ''^'' @
     hexadecimal (unat (if bit i 1 then gid else -1)) @ ''^'' @ (if bit i 0 then ftype else ''*'')"

text \<open>The search from bucket \<open>i - 1\<close> down; the result 0 is the null pointer.\<close>

fun search_policy ::
  "'j judysl \<Rightarrow> string \<Rightarrow> string \<Rightarrow> 32 word \<Rightarrow> 32 word \<Rightarrow> nat \<Rightarrow> 'j policy_state \<Rightarrow> (nat \<times> 'j policy_state) exec" where
  "search_policy j path ftype uid gid 0 s = Inr (0, s)"
| "search_policy j path ftype uid gid (Suc i) s =
     (let key = lookup_key path ftype uid gid i in
      if KEY_LEN \<le> length key \<or> length (pst_head s) \<le> i then Inl Bad_Access
      else
      case js_get j key (pst_head s ! i) of None \<Rightarrow> search_policy j path ftype uid gid i s | Some pe \<Rightarrow>
      if pe = 0 then Inl Null_Deref
      else
      case entries s pe of None \<Rightarrow> Inl Bad_Access | Some e \<Rightarrow>
      Inr (pe, s\<lparr>entries := (entries s)(pe \<mapsto> e\<lparr>pe_refcount := pe_refcount e + 1\<rparr>)\<rparr>))"

definition get_policy ::
  "'j judysl \<Rightarrow> string option \<Rightarrow> 32 word \<Rightarrow> 32 word \<Rightarrow> string \<Rightarrow> 'j policy_state \<Rightarrow> (nat \<times> 'j policy_state) exec" where
  "get_policy j output uid gid path s =
     exec_bind (get_file_type path output) (\<lambda>ftype. search_policy j path ftype uid gid NUM_BUCKETS s)"

section \<open>Records of policies\<close>

text \<open>
  The database on its contents \<open>'d\<close>.  \<^verbatim>\<open>submit_policy_entry\<close> passes a null pointer to \<open>pd_get\<close>.  The records that \<^verbatim>\<open>db_iterate\<close>
  passes to its function have a key, the data and a length.
\<close>

record 'd policy_db =
  pd_get :: "string \<Rightarrow> 'd \<Rightarrow> int exec"
  pd_insert :: "string \<Rightarrow> policy_db_entry \<Rightarrow> 'd \<Rightarrow> (int \<times> 'd) exec"
  pd_update :: "string \<Rightarrow> policy_db_entry \<Rightarrow> 'd \<Rightarrow> (int \<times> 'd) exec"
  pd_remove :: "string \<Rightarrow> 'd \<Rightarrow> (int \<times> 'd) exec"
  pd_records :: "'d \<Rightarrow> (string option \<times> policy_db_entry option \<times> int) list exec"

text \<open>
  Submitting a policy, with the address \<open>p\<close> and the contents \<open>junk\<close> of the new entry; \<open>own\<close> tells whether the request is a block
  of its own, which \<^verbatim>\<open>free\<close> needs.
\<close>

definition free_request :: "bool \<Rightarrow> 'a \<Rightarrow> 'a exec" where
  "free_request own x = (if own then Inr x else Inl Bad_Access)"

definition submit_policy_entry ::
  "'j judysl \<Rightarrow> (64 word \<Rightarrow> string exec) \<Rightarrow> nat \<Rightarrow> policy_entry \<Rightarrow> policy_db_entry \<Rightarrow> bool \<Rightarrow> policy_request option \<Rightarrow>
   'd policy_db option \<Rightarrow> int \<Rightarrow> 'j policy_state \<Rightarrow> 'd \<Rightarrow> (int \<times> 'j policy_state \<times> 'd) exec" where
  "submit_policy_entry j mem p junk junk_d own pi db type s d =
     (case (pi, db) of
        (Some pi, Some db) \<Rightarrow>
          if \<not> policy_initialized s \<or> type = 0 then Inr (- EINVAL, s, d)
          else if p = 0 then free_request own (- ENOMEM, s, d)
          else
          let index = policy_index pi; key = policy_key pi; pe = junk\<lparr>pe_policy := replicate (unat (pq_num_policy pi)) 0\<rparr> in
          if KEY_LEN \<le> length key then Inl Bad_Access
          else
          exec_bind (get_pe_from_pi mem pi pe s) (\<lambda>(pe, s).
          exec_bind (add_policy_to_pst j key index p (s\<lparr>entries := (entries s)(p \<mapsto> pe)\<rparr>)) (\<lambda>s.
          exec_bind (get_pdbe_from_pe junk_d pe s) (\<lambda>pdbe.
          exec_bind (pd_get db key d) (\<lambda>r.
          exec_bind (if r \<noteq> 0 then pd_update db key pdbe d else pd_insert db key pdbe d) (\<lambda>(r, d).
          free_request own
            (if r = 0 then (0, s, d)
             else
               (- EINVAL,
                s\<lparr>pst_head := (pst_head s)[unat index := js_del j key (pst_head s ! unat index)], entries := (entries s)(p := None)\<rparr>, d)))))))
      | _ \<Rightarrow> Inr (- EINVAL, s, d))"

text \<open>Deleting a policy: the list is accessed before its bounds are checked, and keeps the pointer to the freed request.\<close>

definition delete_policy_entry ::
  "'j judysl \<Rightarrow> policy_request option \<Rightarrow> 'd policy_db option \<Rightarrow> int \<Rightarrow> 'j policy_state \<Rightarrow> 'd \<Rightarrow> (int \<times> 'j policy_state \<times> 'd) exec" where
  "delete_policy_entry j pi db type s d =
     (case (pi, db) of
        (Some pi, Some db) \<Rightarrow>
          if \<not> policy_initialized s \<or> type = 0 then Inr (- EINVAL, s, d)
          else
          case pol_list s of No_List \<Rightarrow> Inl Null_Deref | Freed_List \<Rightarrow> Inl Bad_Access | Pol_List ps \<Rightarrow>
          if pq_index pi < 0 \<or> int (length ps) \<le> pq_index pi then Inl Bad_Access
          else
          let p = ps ! nat (pq_index pi) in
          if p = 0 \<or> pq_index pi \<ge> int (num_pol s) then Inr (- EINVAL, s, d)
          else
          case requests s p of None \<Rightarrow> Inl Bad_Access | Some p_input \<Rightarrow>
          let index = policy_index p_input; key = policy_key p_input in
          if KEY_LEN \<le> length key then Inl Bad_Access
          else
          exec_bind (pd_remove db key d) (\<lambda>(_, d).
          if length (pst_head s) \<le> unat index then Inl Bad_Access
          else
            Inr (0, s\<lparr>pst_head := (pst_head s)[unat index := js_del j key (pst_head s ! unat index)],
              requests := (requests s)(p := None)\<rparr>, d))
      | _ \<Rightarrow> Inr (- EINVAL, s, d))"

text \<open>\<^verbatim>\<open>atoi\<close>, which is undefined where the number is no \<^verbatim>\<open>int\<close>.\<close>

definition digits_value :: "string \<Rightarrow> int" where
  "digits_value t = foldl (\<lambda>a c. 10 * a + (of_char c - 48)) 0 (takeWhile (\<lambda>c. 48 \<le> (of_char c :: nat) \<and> (of_char c :: nat) < 58) t)"

definition atoi :: "string \<Rightarrow> int exec" where
  "atoi t =
     (let t = dropWhile (\<lambda>c. (of_char c :: nat) \<in> {9, 10, 11, 12, 13, 32}) t;
          n = (if t = [] then 0
               else if hd t = CHR ''-'' then - digits_value (tl t)
               else if hd t = CHR ''+'' then digits_value (tl t)
               else digits_value t)
      in if - (2 ^ 31) \<le> n \<and> n < 2 ^ 31 then Inr n else Inl Undefined)"

text \<open>The fields of a policy from its key.\<close>

definition next_field :: "string \<Rightarrow> (string \<Rightarrow> string \<Rightarrow> 'a exec) \<Rightarrow> 'a exec" where
  "next_field t f = (case strtok ''^'' t of None \<Rightarrow> Inl Null_Deref | Some (field, rest) \<Rightarrow> f field rest)"

definition parse_key :: "string \<Rightarrow> policy_request \<Rightarrow> policy_request exec" where
  "parse_key key r =
     next_field key (\<lambda>fname rest.
     if FNAME_LEN \<le> length fname then Inl Bad_Access
     else
     next_field rest (\<lambda>ftype rest.
     if TYPE_LEN \<le> length ftype then Inl Bad_Access
     else
     next_field rest (\<lambda>uid rest.
     exec_bind (atoi uid) (\<lambda>uid.
     next_field rest (\<lambda>gid rest.
     exec_bind (atoi gid) (\<lambda>gid.
     Inr (r\<lparr>pq_fname := fname, pq_ftype := ftype, pq_uid := of_int uid, pq_gid := of_int gid\<rparr>)))))))"

text \<open>What a call for one record is given by its surroundings: addresses and contents of new blocks, and the outcome of \<^verbatim>\<open>realloc\<close>.\<close>

record record_env =
  ce_entry :: nat
  ce_junk :: policy_entry
  ce_list :: bool
  ce_stale :: nat
  ce_request :: nat
  ce_junk_r :: policy_request

text \<open>The new entry has no room for plugins, of which there are as many as its memory says.\<close>

definition collect_policy_entries ::
  "(64 word \<Rightarrow> string exec) \<Rightarrow> record_env \<Rightarrow> string option \<times> policy_db_entry option \<times> int \<Rightarrow> 'j policy_state \<Rightarrow> 'j policy_state exec" where
  "collect_policy_entries mem env rec s =
     (case rec of
        (Some key, Some pdbe, data_len) \<Rightarrow>
          if data_len = 0 \<or> ce_entry env = 0 then Inr s
          else
          exec_bind (get_pe_from_pdbe mem pdbe ((ce_junk env)\<lparr>pe_policy := []\<rparr>) s) (\<lambda>(pe, s).
          let n = num_pol s + 1; s = s\<lparr>num_pol := n\<rparr> in
          if pol_list s = Freed_List then Inl Bad_Access
          else if \<not> ce_list env then Inr s
          else if ce_request env = 0 then Inl Null_Deref
          else
          exec_bind (parse_key key (ce_junk_r env)) (\<lambda>r.
          if pe_num_plugins pe \<noteq> 0 then Inl Bad_Access
          else
          let ps = (case pol_list s of Pol_List ps \<Rightarrow> ps | _ \<Rightarrow> []);
              ps = take (n - 1) ps @ replicate (n - 1 - length ps) (ce_stale env) @ [ce_request env]
          in Inr (s\<lparr>pol_list := Pol_List ps,
               requests := (requests s)(ce_request env \<mapsto> r\<lparr>pq_attr := pe_attr pe, pq_num_policy := pe_num_plugins pe\<rparr>)\<rparr>)))
      | _ \<Rightarrow> Inr s)"

text \<open>\<^verbatim>\<open>db_iterate\<close> with a function for record number \<open>i\<close>.\<close>

fun iterate :: "(nat \<Rightarrow> 'r \<Rightarrow> 's \<Rightarrow> 's exec) \<Rightarrow> nat \<Rightarrow> 'r list \<Rightarrow> 's \<Rightarrow> 's exec" where
  "iterate f i [] s = Inr s"
| "iterate f i (r # rs) s = exec_bind (f i r s) (iterate f (Suc i) rs)"

definition policy_iterate ::
  "'j judysl \<Rightarrow> (64 word \<Rightarrow> string exec) \<Rightarrow> record_env \<Rightarrow> string option \<times> policy_db_entry option \<times> int \<Rightarrow> 'j policy_state \<Rightarrow>
   'j policy_state exec" where
  "policy_iterate j mem env rec s =
     (case rec of
        (Some key, Some pdbe, data_len) \<Rightarrow>
          if data_len = 0 \<or> ce_entry env = 0 then Inr s
          else
          exec_bind (get_pe_from_pdbe mem pdbe ((ce_junk env)\<lparr>pe_policy := []\<rparr>) s) (\<lambda>(pe, s).
          add_policy_to_pst j key (pdb_mem_index pdbe) (ce_entry env) (s\<lparr>entries := (entries s)(ce_entry env \<mapsto> pe)\<rparr>))
      | _ \<Rightarrow> Inr s)"

definition init_policy ::
  "'j judysl \<Rightarrow> (64 word \<Rightarrow> string exec) \<Rightarrow> (nat \<Rightarrow> record_env) \<Rightarrow> bool \<Rightarrow> 'd policy_db \<Rightarrow> 'd \<Rightarrow> 'j policy_state \<Rightarrow> 'j policy_state exec" where
  "init_policy j mem env log_ctx db d s =
     (if \<not> log_ctx then Inr (s\<lparr>pt_table := replicate NUM_MAX_POLICY 0, policy_slots := 0\<rparr>)
      else
      let s = s\<lparr>pt_table := replicate NUM_MAX_POLICY 0, policy_slots := -1, pst_head := replicate NUM_BUCKETS (js_null j)\<rparr> in
      exec_bind (pd_records db d) (\<lambda>rs.
      exec_bind (iterate (\<lambda>i. policy_iterate j mem (env i)) 0 rs s) (\<lambda>s.
      Inr (s\<lparr>policy_initialized := True\<rparr>))))"

text \<open>Showing the policies: the list of the last time is freed, a new one collected and printed line by line.\<close>

fun free_requests :: "nat list \<Rightarrow> (nat \<rightharpoonup> policy_request) \<Rightarrow> (nat \<rightharpoonup> policy_request) exec" where
  "free_requests [] m = Inr m"
| "free_requests (p # ps) m =
     (if p = 0 then free_requests ps m else if m p = None then Inl Bad_Access else free_requests ps (m(p := None)))"

definition free_pol_list :: "'j policy_state \<Rightarrow> 'j policy_state exec" where
  "free_pol_list s =
     (case pol_list s of No_List \<Rightarrow> Inr s | Freed_List \<Rightarrow> Inl Bad_Access | Pol_List ps \<Rightarrow>
      if length ps < num_pol s then Inl Bad_Access
      else exec_bind (free_requests (take (num_pol s) ps) (requests s)) (\<lambda>m. Inr (s\<lparr>pol_list := Freed_List, requests := m\<rparr>)))"

definition MAX_POLICY_STRLEN :: nat where "MAX_POLICY_STRLEN = 1000"

definition tag_string :: "8 word list \<Rightarrow> nat \<Rightarrow> string" where
  "tag_string tags i = map (\<lambda>b. char_of (unat b)) (takeWhile (\<lambda>b. b \<noteq> 0) (drop (POLICY_TAG_LEN * i) tags))"

definition show_number :: "64 word \<Rightarrow> string" where
  "show_number n = sdecimal (sint (ucast n :: 32 word))"

definition show_line :: "nat \<Rightarrow> policy_request \<Rightarrow> string" where
  "show_line i pi =
     (let tab = [CHR 0x09]; a = pq_attr pi in
      ''Index: '' @ sdecimal (int i) @ tab @ ''uid: '' @ sdecimal (sint (pq_uid pi)) @ ''  gid: '' @ sdecimal (sint (pq_gid pi)) @
      ''  ftype: '' @ pq_ftype pi @ ''  fname: '' @ pq_fname pi @ tab @ tab @ ''quota: '' @ show_number (a_quota a) @
      ''  QoS: '' @ show_number (a_qoslevel a) @ ''  ishidden: '' @ show_number (a_ishidden a) @
      ''  num_replica: '' @ show_number (a_numreplicas a) @ ''  DR: '' @ show_number (a_enable_dr a) @ [CHR 0x0A] @
      tab @ tab @ tab @ tab @ ''Plugins: '' @
      concat (map (\<lambda>k. tag_string (pq_policy_tag pi) k @ ''  '') [0..<unat (pq_num_policy pi)]))"

text \<open>The lines from number \<open>i\<close> on, with \<open>n\<close> to go; \<open>ok i\<close> is the outcome of the \<^verbatim>\<open>realloc\<close> for line \<open>i\<close>.\<close>

fun show_lines :: "(nat \<Rightarrow> bool) \<Rightarrow> nat list \<Rightarrow> (nat \<rightharpoonup> policy_request) \<Rightarrow> nat \<Rightarrow> nat \<Rightarrow> string \<Rightarrow> (int \<times> string) exec" where
  "show_lines ok ps m i 0 buf = Inr (int (length buf), buf)"
| "show_lines ok ps m i (Suc n) buf =
     (if length ps \<le> i then Inl Bad_Access
      else
      case m (ps ! i) of None \<Rightarrow> Inl Bad_Access | Some pi \<Rightarrow>
      let line = show_line i pi in
      if MAX_POLICY_STRLEN \<le> length line then Inl Bad_Access
      else if \<not> ok i then Inr (- ENOMEM, buf)
      else show_lines ok ps m (Suc i) n (buf @ line))"

definition show_policy_entries ::
  "(64 word \<Rightarrow> string exec) \<Rightarrow> (nat \<Rightarrow> record_env) \<Rightarrow> (nat \<Rightarrow> bool) \<Rightarrow> 'd policy_db \<Rightarrow> 'j policy_state \<Rightarrow> 'd \<Rightarrow>
   (int \<times> string \<times> 'j policy_state) exec" where
  "show_policy_entries mem env ok db s d =
     exec_bind (free_pol_list s) (\<lambda>s.
     let s = s\<lparr>num_pol := 0\<rparr> in
     exec_bind (pd_records db d) (\<lambda>rs.
     exec_bind (iterate (\<lambda>i. collect_policy_entries mem (env i)) 0 rs s) (\<lambda>s.
     exec_bind (show_lines ok (case pol_list s of Pol_List ps \<Rightarrow> ps | _ \<Rightarrow> []) (requests s) 0 (num_pol s) []) (\<lambda>(len, buf).
     Inr (len, buf, s)))))"

section \<open>Slots of plugins\<close>

text \<open>The calls that change the table of plugins; a new plugin is at an address that is not in use.\<close>

inductive plugin_call :: "'j policy_state \<Rightarrow> 'j policy_state \<Rightarrow> bool" where
  register: "p \<noteq> 0 \<Longrightarrow> plugins s p = None \<Longrightarrow> register_plugin path_null p s = Inr (r, i, s') \<Longrightarrow> plugin_call s s'"
| activate: "activate_plugin i s = Inr (r, s') \<Longrightarrow> plugin_call s s'"
| unregister: "unregister_plugin i s = Inr (r, s') \<Longrightarrow> plugin_call s s'"

lemma plugin_call_slots_ok: "plugin_call s s' \<Longrightarrow> slots_ok s \<and> policy_initialized s \<Longrightarrow> slots_ok s' \<and> policy_initialized s'"
proof (induction rule: plugin_call.induct)
  case (register p s path_null r i s')
  then show ?case
    using register_cases [of s p] by (cases path_null) (auto simp: register_plugin_def Let_def split: if_splits)
next
  case (activate i s r s')
  then show ?case using activate_slots_ok [of s i r s'] by (auto simp: activate_plugin_def Let_def split: if_splits option.splits)
next
  case (unregister i s r s')
  then show ?case using unregister_slots_ok [of s i r s'] by (auto simp: unregister_plugin_def Let_def split: if_splits option.splits)
qed

lemma plugin_calls_slots_ok:
  "plugin_call\<^sup>*\<^sup>* s s' \<Longrightarrow> slots_ok s \<Longrightarrow> policy_initialized s \<Longrightarrow> slots_ok s' \<and> policy_initialized s'"
  by (induction rule: rtranclp_induct) (auto dest: plugin_call_slots_ok)

lemma init_slots_ok:
  assumes "init_policy j mem env True db d s = Inr s'" "pd_records db d = Inr []"
  shows "slots_ok s' \<and> policy_initialized s'"
  using assms by (auto simp: init_policy_def Let_def slots_ok_def policy_sizes)

text \<open>
  C20: However plugins have been registered, activated and unregistered since the policies were
  initialised with an empty database, another plugin is registered in the lowest free slot below 32, no other
  slot is changed, and the table stays in order.  With 32 plugins registered the next registration writes
  before the table, although that has 64 slots.
\<close>

theorem plugin_slots:
  assumes "init_policy j mem env True db d s0 = Inr s1" "pd_records db d = Inr []" "plugin_call\<^sup>*\<^sup>* s1 s"
    "p \<noteq> 0" "plugins s p = None"
  shows "(\<forall>i < 32. pt_table s ! i \<noteq> 0) \<and> register_plugin False p s = Inl Bad_Access \<or>
    (\<exists>i < 32. \<exists>s'. pt_table s ! i = 0 \<and> (\<forall>k < i. pt_table s ! k \<noteq> 0) \<and> register_plugin False p s = Inr (0, Some i, s') \<and>
       pt_table s' = (pt_table s)[i := p] \<and> plugins s' p = Some new_plugin \<and> slots_ok s')"
  using init_slots_ok [OF assms(1,2)] plugin_calls_slots_ok [OF assms(3)] assms(4,5) by (intro register_cases) blast+

section \<open>Keys\<close>

lemma strtok_field:
  assumes "x \<noteq> []" "c \<notin> set x"
  shows "strtok [c] (x @ c # rest) = Some (x, rest)" "strtok [c] x = Some (x, [])"
proof -
  have w: "takeWhile (\<lambda>d. d \<noteq> c) (x @ c # rest) = x" "dropWhile (\<lambda>d. d \<noteq> c) (x @ c # rest) = c # rest"
    "takeWhile (\<lambda>d. d \<noteq> c) x = x" "length (dropWhile (\<lambda>d. d \<noteq> c) x) \<le> Suc 0"
    using assms(2) by (induction x) auto
  moreover have "dropWhile (\<lambda>d. d = c) (x @ r) = x @ r" for r using assms by (cases x) auto
  then have "dropWhile (\<lambda>d. d = c) (x @ c # rest) = x @ c # rest" "dropWhile (\<lambda>d. d = c) x = x" by (auto dest: meta_spec [of _ "[]"])
  ultimately show "strtok [c] (x @ c # rest) = Some (x, rest)" "strtok [c] x = Some (x, [])"
    using assms(1) by (simp_all add: strtok_def Let_def)
qed

lemma decimal_hd: "48 \<le> (of_char (hd (decimal n)) :: nat) \<and> (of_char (hd (decimal n)) :: nat) < 58"
  using decimal_digits [of "hd (decimal n)" n] decimal_not_nil [of n] by simp

lemma digits_value_decimal: "digits_value (decimal n) = int n"
proof -
  have f: "foldl (\<lambda>a c. 10 * a + (of_char c - 48)) (int m) t = int (foldl (\<lambda>a c. 10 * a + (of_char c - 48)) m t)"
    if "\<forall>c \<in> set t. 48 \<le> (of_char c :: nat)" for m t
    using that
  proof (induction t arbitrary: m)
    case (Cons c t)
    have c: "10 * int m + (of_char c - 48) = int (10 * m + (of_char c - 48))"
      using Cons.prems by (simp add: of_nat_diff of_nat_of_char)
    show ?case unfolding foldl_Cons c using Cons.prems by (intro Cons.IH) simp
  qed simp
  have all: "takeWhile (\<lambda>c. 48 \<le> (of_char c :: nat) \<and> (of_char c :: nat) < 58) (decimal n) = decimal n"
    using decimal_digits by (simp add: takeWhile_eq_all_conv)
  show ?thesis unfolding digits_value_def all using f [of "decimal n" 0] decimal_digits decimal_value [of n] by simp
qed

lemma sdecimal_chars: "c \<in> set (sdecimal n) \<Longrightarrow> c = CHR ''-'' \<or> 48 \<le> (of_char c :: nat) \<and> (of_char c :: nat) < 58"
  using decimal_digits by (auto simp: sdecimal_def split: if_splits)

lemma sdecimal_not_nil: "sdecimal n \<noteq> []"
  by (simp add: sdecimal_def decimal_not_nil)

lemma sdecimal_no_caret: "CHR ''^'' \<notin> set (sdecimal n)"
  using sdecimal_chars [of "CHR ''^''" n] by auto

lemma sdecimal_last: "48 \<le> (of_char (last (sdecimal n)) :: nat) \<and> (of_char (last (sdecimal n)) :: nat) < 58"
  using decimal_digits [OF last_in_set [OF decimal_not_nil], of "nat (- n)"] decimal_digits [OF last_in_set [OF decimal_not_nil], of "nat n"]
  by (simp add: sdecimal_def decimal_not_nil)

lemma atoi_sdecimal:
  assumes "- (2 ^ 31) \<le> n" "n < 2 ^ 31"
  shows "atoi (sdecimal n) = Inr n"
proof -
  have sp: "dropWhile (\<lambda>c. (of_char c :: nat) \<in> {9, 10, 11, 12, 13, 32}) (sdecimal n) = sdecimal n"
  proof (cases "n < 0")
    case False
    then show ?thesis using decimal_hd [of "nat n"] by (cases "decimal (nat n)") (auto simp: sdecimal_def)
  qed (simp add: sdecimal_def)
  show ?thesis
  proof (cases "n < 0")
    case True
    then have "sdecimal n = CHR ''-'' # decimal (nat (- n))" by (simp add: sdecimal_def)
    then show ?thesis using sp assms True by (simp add: atoi_def Let_def digits_value_decimal)
  next
    case False
    then have "sdecimal n = decimal (nat n)" by (simp add: sdecimal_def)
    moreover have "hd (decimal (nat n)) \<noteq> CHR ''-''" "hd (decimal (nat n)) \<noteq> CHR ''+''" using decimal_hd [of "nat n"] by auto
    ultimately show ?thesis using sp assms False by (simp add: atoi_def Let_def digits_value_decimal decimal_not_nil)
  qed
qed

text \<open>The names that a key can be taken apart for.\<close>

definition plain_names :: "policy_request \<Rightarrow> bool" where
  "plain_names r \<longleftrightarrow> pq_fname r \<noteq> [] \<and> CHR ''^'' \<notin> set (pq_fname r) \<and> length (pq_fname r) < FNAME_LEN \<and>
     pq_ftype r \<noteq> [] \<and> CHR ''^'' \<notin> set (pq_ftype r) \<and> length (pq_ftype r) < TYPE_LEN"

lemma parse_policy_key:
  assumes "plain_names r"
  shows "parse_key (policy_key r) q = Inr (q\<lparr>pq_fname := pq_fname r, pq_ftype := pq_ftype r, pq_uid := pq_uid r, pq_gid := pq_gid r\<rparr>)"
proof -
  have r: "- (2 ^ 31) \<le> sint (w :: 32 word)" "sint w < 2 ^ 31" for w using sint_ge [of w] sint_lt [of w] by simp_all
  show ?thesis
    using assms
    by (simp add: parse_key_def policy_key_def next_field_def plain_names_def strtok_field sdecimal_not_nil sdecimal_no_caret
      atoi_sdecimal [OF r])
qed

text \<open>The key ends in a digit, which no key does that is looked up.\<close>

lemma last_policy_key: "48 \<le> (of_char (last (policy_key r)) :: nat) \<and> (of_char (last (policy_key r)) :: nat) < 58"
  using sdecimal_last [of "sint (pq_gid r)"] by (simp add: policy_key_def sdecimal_not_nil)

lemma lookup_key_not_policy_key:
  assumes "ftype = ''*'' \<or> ftype = ''text''"
  shows "lookup_key path ftype uid gid i \<noteq> policy_key r"
proof
  assume "lookup_key path ftype uid gid i = policy_key r"
  then have "last (lookup_key path ftype uid gid i) = last (policy_key r)" by simp
  moreover have "last (lookup_key path ftype uid gid i) \<in> {CHR ''*'', CHR ''t''}" using assms by (auto simp: lookup_key_def)
  ultimately show False using last_policy_key [of r] by auto
qed

lemma file_type_cases: "get_file_type path output = Inr ftype \<Longrightarrow> ftype = ''*'' \<or> ftype = ''text''"
  by (auto simp: get_file_type_def split: if_splits option.splits)

lemma hexadecimal_length: "0 < k \<Longrightarrow> n < 16 ^ k \<Longrightarrow> length (hexadecimal n) \<le> k"
proof (induction n arbitrary: k rule: hexadecimal.induct)
  case (1 n)
  show ?case
  proof (cases "n < 16")
    case False
    then obtain m where k: "k = Suc m" "0 < m" using 1(3) by (cases k; cases "k - 1") auto
    then have "n div 16 < 16 ^ m" using 1(3) by (simp add: less_mult_imp_div_less)
    then show ?thesis using 1(1) [OF False k(2)] False k(1) by (simp add: hexadecimal.simps [of n])
  qed (use 1 in \<open>simp add: hexadecimal.simps [of n]\<close>)
qed

lemma lookup_key_fits:
  assumes "ftype = ''*'' \<or> ftype = ''text''" "length path \<le> FNAME_LEN"
  shows "length (lookup_key path ftype uid gid i) < KEY_LEN"
proof -
  have h: "length (hexadecimal (unat (w :: 32 word))) \<le> 8" for w
    using unsigned_less [where 'b = 32, of w] by (intro hexadecimal_length) simp_all
  show ?thesis using assms h [of uid] h [of gid] h [of "-1"] by (auto simp: lookup_key_def policy_sizes)
qed

section \<open>Searching\<close>

lemma judy_simps:
  assumes "judy_ok j"
  shows "js_get j k (js_null j) = None" "js_get j k (js_ins j k' v a) = (if k = k' then Some v else js_get j k a)"
    "js_get j k (js_del j k' a) = (if k = k' then None else js_get j k a)"
  using assms unfolding judy_ok_def by blast+

text \<open>Every key in the search table is the key of a policy.\<close>

definition policy_keys :: "'j judysl \<Rightarrow> 'j policy_state \<Rightarrow> bool" where
  "policy_keys j s \<longleftrightarrow> length (pst_head s) = NUM_BUCKETS \<and>
     (\<forall>i < NUM_BUCKETS. \<forall>k. js_get j k (pst_head s ! i) \<noteq> None \<longrightarrow> (\<exists>r. k = policy_key r))"

lemma policy_keys_static: "judy_ok j \<Longrightarrow> policy_keys j (static_policy j)"
  by (simp add: policy_keys_def static_policy_def judy_simps)

lemma policy_keys_add:
  assumes "judy_ok j" "policy_keys j s" "add_policy_to_pst j (policy_key r) index pe s = Inr s'"
  shows "policy_keys j s'"
  using assms by (auto simp: policy_keys_def add_policy_to_pst_def judy_simps nth_list_update split: if_splits)

lemma policy_keys_delete:
  assumes "judy_ok j" "policy_keys j s" "delete_policy_entry j pi db type s d = Inr (x, s', d')"
  shows "policy_keys j s'"
  using assms
  by (auto simp: policy_keys_def delete_policy_entry_def Let_def exec_bind_Inr_iff judy_simps nth_list_update
    split: option.splits if_splits pol_list.splits)

lemma search_misses:
  assumes "policy_keys j s" "ftype = ''*'' \<or> ftype = ''text''" "length path \<le> FNAME_LEN" "n \<le> NUM_BUCKETS"
  shows "search_policy j path ftype uid gid n s = Inr (0, s)"
  using assms(4)
proof (induction n)
  case (Suc n)
  have "js_get j (lookup_key path ftype uid gid n) (pst_head s ! n) = None"
    using assms(1) Suc.prems lookup_key_not_policy_key [OF assms(2)] unfolding policy_keys_def by (metis Suc_le_lessD)
  then show ?case
    using Suc assms(1) lookup_key_fits [OF assms(2,3), of uid gid n] by (simp add: policy_keys_def Let_def)
qed simp

lemma get_pe_from_pdbe_keeps: "get_pe_from_pdbe mem pdb pe s = Inr (pe', s') \<Longrightarrow> \<exists>pl. s' = s\<lparr>plugins := pl\<rparr>"
  by (auto simp: get_pe_from_pdbe_def get_pe_from_tags_def exec_bind_Inr_iff)

lemma iterate_keys:
  assumes "judy_ok j" "\<forall>rec \<in> set rs. \<forall>k. fst rec = Some k \<longrightarrow> k \<in> range policy_key"
    "iterate (\<lambda>i. policy_iterate j mem (env i)) i rs s = Inr s'" "policy_keys j s"
  shows "policy_keys j s'"
  using assms(2-4)
proof (induction rs arbitrary: i s)
  case (Cons rec rs)
  obtain t where t: "policy_iterate j mem (env i) rec s = Inr t" "iterate (\<lambda>i. policy_iterate j mem (env i)) (Suc i) rs t = Inr s'"
    using Cons.prems(2) by (auto simp: exec_bind_Inr_iff)
  have "policy_keys j t"
  proof (cases "t = s")
    case False
    then obtain k pdbe pe u where u: "fst rec = Some k" "get_pe_from_pdbe mem pdbe ((ce_junk (env i))\<lparr>pe_policy := []\<rparr>) s = Inr (pe, u)"
      "add_policy_to_pst j k (pdb_mem_index pdbe) (ce_entry (env i)) (u\<lparr>entries := (entries u)(ce_entry (env i) \<mapsto> pe)\<rparr>) = Inr t"
      using t(1) by (auto simp: policy_iterate_def exec_bind_Inr_iff split: prod.splits option.splits if_splits)
    obtain r where "k = policy_key r" using Cons.prems(1) u(1) by auto
    moreover have "policy_keys j (u\<lparr>entries := (entries u)(ce_entry (env i) \<mapsto> pe)\<rparr>)"
      using get_pe_from_pdbe_keeps [OF u(2)] Cons.prems(3) by (auto simp: policy_keys_def)
    ultimately show ?thesis using policy_keys_add [OF assms(1)] u(3) by blast
  qed (use Cons.prems(3) in simp)
  then show ?case using Cons.IH [OF _ t(2)] Cons.prems(1) by simp
qed simp

text \<open>
  The changes of the search table: initialising it with the records of policies, adding entries of
  policies and deleting them.
\<close>

inductive table_run :: "'j judysl \<Rightarrow> 'd policy_db \<Rightarrow> 'j policy_state \<Rightarrow> bool" for j db where
  start: "table_run j db (static_policy j)"
| init: "init_policy j mem env log_ctx db d s = Inr s' \<Longrightarrow> pd_records db d = Inr rs \<Longrightarrow>
    \<forall>rec \<in> set rs. \<forall>k. fst rec = Some k \<longrightarrow> k \<in> range policy_key \<Longrightarrow> table_run j db s \<Longrightarrow> table_run j db s'"
| add: "add_policy_to_pst j (policy_key r) (policy_index r) pe (s\<lparr>entries := m\<rparr>) = Inr s' \<Longrightarrow> table_run j db s \<Longrightarrow> table_run j db s'"
| delete: "delete_policy_entry j pi (Some db) type s d = Inr (x, s', d') \<Longrightarrow> table_run j db s \<Longrightarrow> table_run j db s'"

lemma table_run_keys:
  assumes "judy_ok j" "table_run j db s"
  shows "policy_keys j s"
  using assms(2)
proof (induction rule: table_run.induct)
  case start
  show ?case by (rule policy_keys_static [OF assms(1)])
next
  case (init mem env log_ctx d s s' rs)
  let ?s = "s\<lparr>pt_table := replicate NUM_MAX_POLICY 0, policy_slots := -1, pst_head := replicate NUM_BUCKETS (js_null j)\<rparr>"
  have "policy_keys j ?s" using assms(1) by (simp add: policy_keys_def judy_simps)
  then show ?case
    using init iterate_keys [OF assms(1), of rs mem env 0 ?s]
    by (auto simp: init_policy_def Let_def exec_bind_Inr_iff policy_keys_def split: if_splits)
next
  case (add r pe m s s')
  have "policy_keys j (s\<lparr>entries := m\<rparr>)" using add.IH by (simp add: policy_keys_def)
  then show ?case using policy_keys_add [OF assms(1)] add.hyps by blast
next
  case (delete pi type s d x s' d')
  show ?case by (rule policy_keys_delete [OF assms(1) delete.IH delete.hyps(1)])
qed

text \<open>
  C22: No policy is ever found.  Whatever policies have been loaded from the database, added to the search table and deleted from it,
  \<^verbatim>\<open>get_policy\<close> returns a null pointer for every path, user and group, provided that it can use the type
  of the file at all: policies are added under a key that ends with the group, and looked up under a key that ends with the type.
\<close>

theorem policies_not_found:
  assumes "judy_ok j" "table_run j db s" "get_file_type path output = Inr ftype"
  shows "get_policy j output uid gid path s = Inr (0, s)"
proof -
  have "length path \<le> FNAME_LEN" using assms(3) by (auto simp: get_file_type_def split: if_splits)
  then show ?thesis
    using search_misses [OF table_run_keys [OF assms(1,2)] file_type_cases [OF assms(3)], of path NUM_BUCKETS] assms(3)
    by (simp add: get_policy_def)
qed

section \<open>Listing and deleting\<close>

definition same_policy :: "policy_request \<Rightarrow> policy_request \<Rightarrow> bool" where
  "same_policy r r' \<longleftrightarrow> pq_fname r' = pq_fname r \<and> pq_ftype r' = pq_ftype r \<and> pq_uid r' = pq_uid r \<and> pq_gid r' = pq_gid r"

lemma same_policy_key: "same_policy r r' \<Longrightarrow> policy_key r' = policy_key r \<and> policy_index r' = policy_index r"
  by (simp add: same_policy_def policy_key_def policy_index_def)

definition listed :: "'j policy_state \<Rightarrow> nat list \<Rightarrow> bool" where
  "listed s ps \<longleftrightarrow> num_pol s = length ps \<and> (pol_list s = Pol_List ps \<or> pol_list s = No_List \<and> ps = [])"

text \<open>Memory for a record is there.\<close>

definition record_env_ok :: "record_env \<Rightarrow> bool" where
  "record_env_ok env \<longleftrightarrow> ce_entry env \<noteq> 0 \<and> ce_list env \<and> ce_request env \<noteq> 0"

definition policy_record :: "policy_request \<times> policy_db_entry \<Rightarrow> string option \<times> policy_db_entry option \<times> int" where
  "policy_record x = (Some (policy_key (fst x)), Some (snd x), int SIZEOF_PDBE)"

lemma sizeof_pdbe: "SIZEOF_PDBE = 3104"
  by (simp add: SIZEOF_PDBE_def SIZEOF_ATTRIBUTE_def policy_sizes)

lemma collect_freed:
  "collect_policy_entries mem env (policy_record x) s = Inr s' \<Longrightarrow> record_env_ok env \<Longrightarrow> pol_list s \<noteq> Freed_List"
  by (auto simp: collect_policy_entries_def policy_record_def record_env_ok_def sizeof_pdbe exec_bind_Inr_iff Let_def
    dest!: get_pe_from_pdbe_keeps split: if_splits)

lemma collect_lists:
  assumes "collect_policy_entries mem env (policy_record x) s = Inr s'" "record_env_ok env" "plain_names (fst x)" "listed s ps"
  shows "listed s' (ps @ [ce_request env]) \<and> pst_head s' = pst_head s \<and> policy_initialized s' = policy_initialized s \<and>
    (\<exists>r'. requests s' = (requests s)(ce_request env \<mapsto> r') \<and> same_policy (fst x) r')"
  using assms parse_policy_key [OF assms(3)]
  by (auto simp: collect_policy_entries_def policy_record_def record_env_ok_def sizeof_pdbe exec_bind_Inr_iff Let_def
    listed_def same_policy_def dest!: get_pe_from_pdbe_keeps split: if_splits)

lemma iterate_lists:
  assumes "iterate (\<lambda>i. collect_policy_entries mem (env i)) i (map policy_record xs) s = Inr s'" "\<forall>x \<in> set xs. plain_names (fst x)"
    "\<forall>k < i + length xs. record_env_ok (env k)" "listed s (map (\<lambda>k. ce_request (env k)) [0..<i])"
    "inj_on (\<lambda>k. ce_request (env k)) {..<i + length xs}"
  shows "listed s' (map (\<lambda>k. ce_request (env k)) [0..<i + length xs]) \<and> pst_head s' = pst_head s \<and>
    policy_initialized s' = policy_initialized s \<and> (\<forall>k < i. requests s' (ce_request (env k)) = requests s (ce_request (env k))) \<and>
    (\<forall>k < length xs. \<exists>r'. requests s' (ce_request (env (i + k))) = Some r' \<and> same_policy (fst (xs ! k)) r')"
  using assms
proof (induction xs arbitrary: i s)
  case (Cons x xs)
  let ?a = "\<lambda>k. ce_request (env k)"
  obtain t where t: "collect_policy_entries mem (env i) (policy_record x) s = Inr t"
    "iterate (\<lambda>i. collect_policy_entries mem (env i)) (Suc i) (map policy_record xs) t = Inr s'"
    using Cons.prems(1) by (auto simp: exec_bind_Inr_iff)
  note c = collect_lists [OF t(1) _ _ Cons.prems(4)]
  obtain r' where r: "listed t (map ?a [0..<i] @ [?a i])" "pst_head t = pst_head s" "policy_initialized t = policy_initialized s"
    "requests t = (requests s)(?a i \<mapsto> r')" "same_policy (fst x) r'"
    using c Cons.prems(2,3) by auto
  have l: "listed t (map ?a [0..<Suc i])" using r(1) by simp
  note IH = Cons.IH [OF t(2) _ _ l]
  have rest: "listed s' (map ?a [0..<Suc i + length xs])" "pst_head s' = pst_head t" "policy_initialized s' = policy_initialized t"
    "\<forall>k < Suc i. requests s' (?a k) = requests t (?a k)"
    "\<forall>k < length xs. \<exists>r'. requests s' (?a (Suc i + k)) = Some r' \<and> same_policy (fst (xs ! k)) r'"
    using IH Cons.prems(2,3,5) by simp_all
  have "requests s' (?a k) = requests s (?a k)" if "k < i" for k
    using rest(4) r(4) that inj_onD [OF Cons.prems(5), of k i] by force
  moreover have "\<exists>r'. requests s' (?a (i + k)) = Some r' \<and> same_policy (fst ((x # xs) ! k)) r'" if "k < Suc (length xs)" for k
    using rest(4,5) r(4,5) that by (cases k) auto
  ultimately show ?case using rest(1-3) r(2,3) by simp
qed simp

lemma show_lists:
  assumes listing: "show_policy_entries mem env ok db s d = Inr (len, buf, s')" and recs: "pd_records db d = Inr (map policy_record xs)"
    and "xs \<noteq> []" "\<forall>x \<in> set xs. plain_names (fst x)" "\<forall>k < length xs. record_env_ok (env k)" "inj_on (\<lambda>k. ce_request (env k)) {..<length xs}"
  shows "listed s' (map (\<lambda>k. ce_request (env k)) [0..<length xs])" "pst_head s' = pst_head s" "policy_initialized s' = policy_initialized s"
    "\<forall>k < length xs. \<exists>r'. requests s' (ce_request (env k)) = Some r' \<and> same_policy (fst (xs ! k)) r'"
proof -
  obtain t where t: "free_pol_list s = Inr t"
    and it: "iterate (\<lambda>i. collect_policy_entries mem (env i)) 0 (map policy_record xs) (t\<lparr>num_pol := 0\<rparr>) = Inr s'"
    using listing recs by (auto simp: show_policy_entries_def exec_bind_Inr_iff Let_def)
  have t_s: "pst_head t = pst_head s" "policy_initialized t = policy_initialized s" "pol_list t = No_List \<or> pol_list t = Freed_List"
    using t by (auto simp: free_pol_list_def exec_bind_Inr_iff split: pol_list.splits if_splits)
  obtain u where "collect_policy_entries mem (env 0) (policy_record (hd xs)) (t\<lparr>num_pol := 0\<rparr>) = Inr u"
    using it assms(3) by (cases xs) (auto simp: exec_bind_Inr_iff)
  then have "pol_list t \<noteq> Freed_List" using collect_freed [of mem "env 0"] assms(3,5) by fastforce
  then have "listed (t\<lparr>num_pol := 0\<rparr>) []" using t_s(3) by (simp add: listed_def)
  note r = iterate_lists [of mem env 0, OF it assms(4)]
  show "listed s' (map (\<lambda>k. ce_request (env k)) [0..<length xs])" "pst_head s' = pst_head s" "policy_initialized s' = policy_initialized s"
    "\<forall>k < length xs. \<exists>r'. requests s' (ce_request (env k)) = Some r' \<and> same_policy (fst (xs ! k)) r'"
    using r \<open>listed (t\<lparr>num_pol := 0\<rparr>) []\<close> assms(5,6) t_s(1,2) by simp_all
qed

text \<open>
  C21: A policy is deleted under the number it is shown with.  After the policies have been listed, deleting number
  \<open>i\<close> asks the database to remove the record of the \<open>i\<close>-th policy, and takes the key of this policy out of the
  bucket it is in, and no other key.
\<close>

theorem shown_policy_deleted:
  assumes listing: "show_policy_entries mem env ok db s d = Inr (len, buf, s')" and recs: "pd_records db d = Inr (map policy_record xs)"
    and xs: "\<forall>x \<in> set xs. plain_names (fst x)" "\<forall>k < length xs. record_env_ok (env k)" "inj_on (\<lambda>k. ce_request (env k)) {..<length xs}"
    and s: "judy_ok j" "policy_initialized s" "length (pst_head s) = NUM_BUCKETS"
    and i: "i < length xs" "r = fst (xs ! i)" "length (policy_key r) < KEY_LEN" and q: "pq_index q = int i"
    and db: "pd_remove db (policy_key r) d = Inr (x, d')"
  shows "\<exists>s''. delete_policy_entry j (Some q) (Some db) 1 s' d = Inr (0, s'', d') \<and> length (pst_head s'') = NUM_BUCKETS \<and>
    (\<forall>b < NUM_BUCKETS. \<forall>k. js_get j k (pst_head s'' ! b) =
       (if b = unat (policy_index r) \<and> k = policy_key r then None else js_get j k (pst_head s ! b)))"
proof -
  have "xs \<noteq> []" using i(1) by auto
  note l = show_lists [OF listing recs this xs]
  let ?p = "ce_request (env i)"
  obtain r' where r': "requests s' ?p = Some r'" "policy_key r' = policy_key r" "policy_index r' = policy_index r"
    using l(4) i(1,2) same_policy_key by blast
  have p: "?p \<noteq> 0" using xs(2) i(1) by (simp add: record_env_ok_def)
  have n: "unat (policy_index r) < NUM_BUCKETS" by (simp add: policy_index_def policy_sizes)
  have "pol_list s' = Pol_List (map (\<lambda>k. ce_request (env k)) [0..<length xs])" "num_pol s' = length xs"
    using l(1) i(1) by (auto simp: listed_def)
  then show ?thesis
    using r' p n l(2,3) s i(1,3) q db
    by (simp add: delete_policy_entry_def Let_def nth_list_update judy_simps)
qed

text \<open>Submitting a policy never returns once the policies are initialised: the record is written beyond its end.\<close>

lemma submit_crashes:
  assumes "policy_initialized s" "type \<noteq> 0" "p \<noteq> 0"
  shows "\<exists>e. submit_policy_entry j mem p junk junk_d own (Some pi) (Some db) type s d = Inl e"
proof -
  have "\<exists>e. get_pdbe_from_pe junk_d pe t = Inl e" for pe and t :: "'a policy_state"
    by (cases "copy_tags (plugins t) (pe_policy pe) 0 (unat (pe_num_plugins pe)) junk_d")
      (auto simp: get_pdbe_from_pe_def SIZEOF_PDBE_def)
  then have "get_pdbe_from_pe junk_d pe t \<noteq> Inr x" for pe x and t :: "'a policy_state" by (metis Inl_Inr_False)
  then have "submit_policy_entry j mem p junk junk_d own (Some pi) (Some db) type s d \<noteq> Inr y" for y
    using assms by (auto simp: submit_policy_entry_def Let_def exec_bind_Inr_iff)
  then show ?thesis by (cases "submit_policy_entry j mem p junk junk_d own (Some pi) (Some db) type s d") auto
qed

section \<open>Examples\<close>

text \<open>Maps are JudySL arrays, and a database with one policy for all files, or with none.\<close>

definition map_judy :: "(string \<rightharpoonup> nat) judysl" where
  "map_judy = \<lparr>js_null = Map.empty, js_ins = (\<lambda>k v a. a(k \<mapsto> v)), js_get = (\<lambda>k a. a k), js_del = (\<lambda>k a. a(k := None))\<rparr>"

lemma judy_ok_map: "judy_ok map_judy"
  by (simp add: judy_ok_def map_judy_def)

definition zero_attr :: attribute where
  "zero_attr = \<lparr>at_ver = 0, a_quota = 0, a_qoslevel = 0, a_ishidden = 0, a_numreplicas = 0, a_enable_dr = 0\<rparr>"

definition all_files :: policy_request where
  "all_files = \<lparr>pq_uid = -1, pq_gid = -1, pq_policy_tag = replicate 1024 0, pq_ftype = ''*'', pq_fname = ''*'', pq_num_policy = 0,
     pq_attr = zero_attr, pq_index = 0\<rparr>"

definition zero_record :: policy_db_entry where
  "zero_record = \<lparr>pdb_policy_tag = replicate 1024 0, pdb_policy_cksum = replicate 64 (replicate 32 0), pdb_mem_index = 0,
     pdb_num_policy = 0, pdb_attr = zero_attr\<rparr>"

definition list_db :: "(policy_request \<times> policy_db_entry) list \<Rightarrow> unit policy_db" where
  "list_db xs = \<lparr>pd_get = (\<lambda>_ _. Inr (-1)), pd_insert = (\<lambda>_ _ _. Inr (1, ())), pd_update = (\<lambda>_ _ _. Inr (1, ())),
     pd_remove = (\<lambda>_ _. Inr (1, ())), pd_records = (\<lambda>_. Inr (map policy_record xs))\<rparr>"

definition zero_env :: "nat \<Rightarrow> record_env" where
  "zero_env i = \<lparr>ce_entry = 8, ce_junk = \<lparr>pe_attr = zero_attr, pe_num_plugins = 0, pe_refcount = 0, pe_policy = []\<rparr>, ce_list = True,
     ce_stale = 0, ce_request = 16 + i, ce_junk_r = all_files\<rparr>"

definition no_strings :: "64 word \<Rightarrow> string exec" where "no_strings _ = Inl Bad_Access"

definition ready_policy :: "(string \<rightharpoonup> nat) policy_state" where
  "ready_policy = (static_policy map_judy)\<lparr>policy_slots := -1, policy_initialized := True\<rparr>"

lemma init_ready: "init_policy map_judy no_strings zero_env True (list_db []) () (static_policy map_judy) = Inr ready_policy"
  by (simp add: init_policy_def list_db_def ready_policy_def static_policy_def)

theorem plugin_slots_witness:
  "init_policy map_judy no_strings zero_env True (list_db []) () (static_policy map_judy) = Inr ready_policy \<and>
   (\<exists>s. register_plugin False 1 ready_policy = Inr (0, Some 0, s) \<and> (\<exists>s'. register_plugin False 2 s = Inr (0, Some 1, s') \<and> slots_ok s'))"
proof -
  have recs: "pd_records (list_db []) () = Inr []" by (simp add: list_db_def)
  have zero: "pt_table ready_policy ! i = 0" if "i < 64" for i using that by (simp add: ready_policy_def static_policy_def policy_sizes)
  have none: "plugins ready_policy = Map.empty" by (simp add: ready_policy_def static_policy_def)
  obtain s where s: "register_plugin False 1 ready_policy = Inr (0, Some 0, s)" "pt_table s = (pt_table ready_policy)[0 := 1]"
    using plugin_slots [OF init_ready recs rtranclp.rtrancl_refl, of 1] none zero by fastforce
  then have none2: "plugins s 2 = None" using none by (auto simp: register_plugin_def Let_def split: if_splits)
  have "plugin_call ready_policy s" using s(1) none by (intro plugin_call.register [of 1]) simp_all
  then have calls: "plugin_call\<^sup>*\<^sup>* ready_policy s" by blast
  have "pt_table s ! i = (if i = 0 then 1 else 0)" if "i < 32" for i
    using that s(2) zero by (simp add: ready_policy_def static_policy_def policy_sizes)
  note tab = this
  have "\<not> (\<forall>i < 32. pt_table s ! i \<noteq> 0)" using tab [of 1] by (auto intro: exI [of _ 1])
  then obtain i s' where i: "i < 32" "pt_table s ! i = 0" "\<forall>k < i. pt_table s ! k \<noteq> 0" "register_plugin False 2 s = Inr (0, Some i, s')" "slots_ok s'"
    using plugin_slots [OF init_ready recs calls, of 2] none2 by auto
  have "i = 1"
  proof (rule ccontr)
    assume "i \<noteq> 1"
    then have "1 < i" using i(1,2) tab [of i] by (cases i) auto
    then show False using i(3) [rule_format, of 1] tab [of 1] by simp
  qed
  then show ?thesis using init_ready s(1) i(4,5) by blast
qed

theorem policies_not_found_witness:
  "\<exists>s. add_policy_to_pst map_judy (policy_key all_files) (policy_index all_files) 8 ready_policy = Inr s \<and>
     get_policy map_judy None 0 0 ''/a'' s = Inr (0, s)"
proof -
  have "table_run map_judy (list_db []) ready_policy"
    by (rule table_run.init [OF init_ready _ _ table_run.start, where rs = "[]"]) (simp_all add: list_db_def)
  moreover obtain s where s: "add_policy_to_pst map_judy (policy_key all_files) (policy_index all_files) 8 ready_policy = Inr s"
    by (simp add: add_policy_to_pst_def ready_policy_def static_policy_def policy_index_def all_files_def starred_def policy_sizes)
  then have "add_policy_to_pst map_judy (policy_key all_files) (policy_index all_files) 8 (ready_policy\<lparr>entries := entries ready_policy\<rparr>) = Inr s"
    by simp
  ultimately have "table_run map_judy (list_db []) s" by (metis table_run.add)
  moreover have "get_file_type ''/a'' None = Inr ''*''" by (simp add: get_file_type_def policy_sizes)
  ultimately show ?thesis using policies_not_found [OF judy_ok_map] s by blast
qed

theorem shown_policy_deleted_witness:
  "\<exists>len buf s' s''. show_policy_entries no_strings zero_env (\<lambda>_. True) (list_db [(all_files, zero_record)]) ready_policy () = Inr (len, buf, s') \<and>
     delete_policy_entry map_judy (Some all_files) (Some (list_db [(all_files, zero_record)])) 1 s' () = Inr (0, s'', ()) \<and>
     js_get map_judy (policy_key all_files) (pst_head s'' ! 0) = None"
proof -
  let ?db = "list_db [(all_files, zero_record)]"
  have plain: "plain_names all_files" by (simp add: plain_names_def all_files_def policy_sizes)
  have sel: "pq_fname all_files = ''*''" "pq_ftype all_files = ''*''" "pq_uid all_files = -1" "pq_gid all_files = -1"
    by (simp_all add: all_files_def)
  have "\<exists>len buf s'. show_policy_entries no_strings zero_env (\<lambda>_. True) ?db ready_policy () = Inr (len, buf, s')"
    by (simp add: show_policy_entries_def free_pol_list_def ready_policy_def static_policy_def list_db_def policy_record_def
      collect_policy_entries_def zero_env_def sizeof_pdbe get_pe_from_pdbe_def get_pe_from_tags_def zero_record_def parse_policy_key [OF plain]
      show_line_def sel sdecimal_def decimal.simps show_number_def zero_attr_def MAX_POLICY_STRLEN_def Let_def)
  then obtain len buf s' where s': "show_policy_entries no_strings zero_env (\<lambda>_. True) ?db ready_policy () = Inr (len, buf, s')" by blast
  have i0: "unat (policy_index all_files) = 0" by (simp add: policy_index_def all_files_def starred_def)
  have "\<exists>s''. delete_policy_entry map_judy (Some all_files) (Some ?db) 1 s' () = Inr (0, s'', ()) \<and> length (pst_head s'') = NUM_BUCKETS \<and>
    (\<forall>b < NUM_BUCKETS. \<forall>k. js_get map_judy k (pst_head s'' ! b) =
       (if b = unat (policy_index all_files) \<and> k = policy_key all_files then None else js_get map_judy k (pst_head ready_policy ! b)))"
    by (rule shown_policy_deleted [OF s', where xs = "[(all_files, zero_record)]" and i = 0 and x = 1])
      (use plain in \<open>simp_all add: list_db_def record_env_ok_def zero_env_def judy_ok_map ready_policy_def static_policy_def
        policy_key_def all_files_def sdecimal_def decimal.simps policy_sizes inj_on_def\<close>)
  then show ?thesis using s' i0 by (auto simp: policy_sizes)
qed

end
