(* ===== verification/Cli_Parse.thy ===== *)
theory Cli_Parse
  imports Policy
begin

text \<open>
  The command line client: the four functions that fill in a command from the options, \<^verbatim>\<open>cli/src/sfscli_storage.c\<close>,
  \<^verbatim>\<open>sfscli_policy.c\<close>, \<^verbatim>\<open>sfscli_sfsd.c\<close> and \<^verbatim>\<open>sfscli_license.c\<close>, and \<^verbatim>\<open>process_args\<close> of \<^verbatim>\<open>cli/src/sfscli.c\<close>.  What
  \<^verbatim>\<open>getopt_long\<close> returns for the arguments is a parameter: the list of its results before the -1 that ends the loop.
\<close>

section \<open>Options\<close>

text \<open>
  The option character, 0 for the long options without one, the index of a long option or -1, and \<^verbatim>\<open>optarg\<close>.
\<close>

record getopt_result =
  go_c :: char
  go_index :: int
  go_optarg :: "string option"

definition SFSCLI_POLICY_CMD :: "64 word" where "SFSCLI_POLICY_CMD = 1"
definition SFSCLI_STORAGE_CMD :: "64 word" where "SFSCLI_STORAGE_CMD = 2"
definition SFSCLI_LICENSE_CMD :: "64 word" where "SFSCLI_LICENSE_CMD = 3"
definition SFSCLI_SFSD_CMD :: "64 word" where "SFSCLI_SFSD_CMD = 4"

lemmas cli_command_numbers = SFSCLI_POLICY_CMD_def SFSCLI_STORAGE_CMD_def SFSCLI_LICENSE_CMD_def SFSCLI_SFSD_CMD_def

text \<open>The numbers of the commands of each kind.\<close>

definition STORAGE_ADD :: "64 word" where "STORAGE_ADD = 1"
definition STORAGE_DEL :: "64 word" where "STORAGE_DEL = 2"
definition STORAGE_UPDATE :: "64 word" where "STORAGE_UPDATE = 3"
definition STORAGE_SHOW :: "64 word" where "STORAGE_SHOW = 4"
definition POLICY_ADD :: "64 word" where "POLICY_ADD = 1"
definition POLICY_DEL :: "64 word" where "POLICY_DEL = 2"
definition POLICY_SHOW :: "64 word" where "POLICY_SHOW = 4"
definition LICENSE_ADD :: "64 word" where "LICENSE_ADD = 1"
definition LICENSE_SHOW :: "64 word" where "LICENSE_SHOW = 2"
definition LICENSE_DEL :: "64 word" where "LICENSE_DEL = 3"
definition SFSD_ADD :: "64 word" where "SFSD_ADD = 1"
definition SFSD_DECOMMISION :: "64 word" where "SFSD_DECOMMISION = 2"
definition SFSD_SHOW :: "64 word" where "SFSD_SHOW = 3"

lemmas storage_numbers = STORAGE_ADD_def STORAGE_DEL_def STORAGE_UPDATE_def STORAGE_SHOW_def

text \<open>\<^verbatim>\<open>strtol\<close> to base 10: the number, held within a \<^verbatim>\<open>long\<close>, and what \<^verbatim>\<open>endptr\<close> points to.\<close>

definition is_digit :: "char \<Rightarrow> bool" where
  "is_digit c \<longleftrightarrow> 48 \<le> (of_char c :: nat) \<and> (of_char c :: nat) < 58"

definition strtol :: "string \<Rightarrow> int \<times> string" where
  "strtol t =
     (let u = dropWhile (\<lambda>c. (of_char c :: nat) \<in> {9, 10, 11, 12, 13, 32}) t;
          neg = (u \<noteq> [] \<and> hd u = CHR ''-'');
          u = (if u \<noteq> [] \<and> hd u \<in> {CHR ''-'', CHR ''+''} then tl u else u);
          n = digits_value u
      in if takeWhile is_digit u = [] then (0, t)
         else (max (- (2 ^ 63)) (min (2 ^ 63 - 1) (if neg then - n else n)), dropWhile is_digit u))"

text \<open>
  The number of an option; \<open>None\<close> for the jump to the error label, before which the name of the long option is printed.
\<close>

definition strtol_check_error_jump :: "getopt_result \<Rightarrow> (int \<Rightarrow> 'c option exec) \<Rightarrow> 'c option exec" where
  "strtol_check_error_jump r f =
     (case go_optarg r of None \<Rightarrow> Inl Null_Deref | Some t \<Rightarrow>
      let (n, rest) = strtol t in
      if rest = [] then f n else if go_index r < 0 then Inl Bad_Access else Inr None)"

definition lower :: "char \<Rightarrow> char" where
  "lower c = (if 65 \<le> (of_char c :: nat) \<and> (of_char c :: nat) \<le> 90 then char_of (of_char c + 32 :: nat) else c)"

text \<open>\<^verbatim>\<open>strncasecmp\<close> with result 0.\<close>

definition same_nocase :: "string \<Rightarrow> string \<Rightarrow> nat \<Rightarrow> bool" where
  "same_nocase a b n \<longleftrightarrow> map lower (take n a) = map lower (take n b)"

text \<open>\<^verbatim>\<open>strncpy\<close> of \<open>n\<close> bytes to the start of an array.\<close>

definition strncpy :: "nat \<Rightarrow> string \<Rightarrow> byte list \<Rightarrow> byte list" where
  "strncpy n t field = take n (str_bytes t @ replicate n 0) @ drop n field"

text \<open>The argument of an option that needs one.\<close>

definition with_arg :: "getopt_result \<Rightarrow> (string \<Rightarrow> 'c option exec) \<Rightarrow> 'c option exec" where
  "with_arg r f = (case go_optarg r of None \<Rightarrow> Inl Null_Deref | Some t \<Rightarrow> f t)"

text \<open>The loop over the options.\<close>

fun parse_options :: "(getopt_result \<Rightarrow> 'c \<Rightarrow> 'c option exec) \<Rightarrow> getopt_result list \<Rightarrow> 'c \<Rightarrow> 'c option exec" where
  "parse_options f [] p = Inr (Some p)"
| "parse_options f (r # rs) p =
     exec_bind (f r p) (\<lambda>q. case q of None \<Rightarrow> Inr None | Some p \<Rightarrow> parse_options f rs p)"

text \<open>Without a command among the options there is nothing to do.\<close>

definition check_command :: "('c \<Rightarrow> 64 word) \<Rightarrow> 'c option \<Rightarrow> 'c option exec" where
  "check_command sub q = (case q of None \<Rightarrow> Inr None | Some p \<Rightarrow> Inr (if sub p = 0 then None else Some p))"

definition IPV4_PROTOCOL :: "64 word" where "IPV4_PROTOCOL = 1"

definition ipv4_address :: "string \<Rightarrow> sstack_address \<Rightarrow> sstack_address" where
  "ipv4_address t a = \<lparr>ad_protocol = IPV4_PROTOCOL, ad_address = strncpy 16 t (ad_address a)\<rparr>"

section \<open>Storage commands\<close>

definition storage_option ::
  "getopt_result \<Rightarrow> storage_input sfscli_cli_cmd \<Rightarrow> storage_input sfscli_cli_cmd option exec" where
  "storage_option r p =
     (let c = go_c r; si = cc_input p; sub = (\<lambda>n. Inr (Some (p\<lparr>cc_sub_cmd := n\<rparr>))); set = (\<lambda>si. Inr (Some (p\<lparr>cc_input := si\<rparr>))) in
      if c = CHR ''a'' then sub STORAGE_ADD
      else if c = CHR ''d'' then sub STORAGE_DEL
      else if c = CHR ''l'' then sub STORAGE_SHOW
      else if c = CHR ''u'' then sub STORAGE_UPDATE
      else if c = CHR ''A'' then with_arg r (\<lambda>t. set (si\<lparr>si_address := ipv4_address t (si_address si)\<rparr>))
      else if c = CHR ''R'' then with_arg r (\<lambda>t. set (si\<lparr>si_rpath := strncpy 4096 t (si_rpath si)\<rparr>))
      else if c = CHR ''P'' then with_arg r (\<lambda>t.
        if same_nocase t ''NFS'' 3 then set (si\<lparr>si_access_protocol := 1\<rparr>)
        else if same_nocase t ''CIFS'' 4 then set (si\<lparr>si_access_protocol := 2\<rparr>)
        else if same_nocase t ''ISCSI'' 4 then set (si\<lparr>si_access_protocol := 3\<rparr>)
        else if same_nocase t ''NATIVE'' 6 then set (si\<lparr>si_access_protocol := 4\<rparr>)
        else Inr None)
      else if c = CHR ''t'' then with_arg r (\<lambda>t.
        if same_nocase t ''HDD'' 3 then set (si\<lparr>si_type := 1\<rparr>)
        else if same_nocase t ''SSD'' 3 then set (si\<lparr>si_type := 2\<rparr>)
        else Inr None)
      else if c = CHR ''s'' then strtol_check_error_jump r (\<lambda>n. set (si\<lparr>si_size := of_int n\<rparr>))
      else if c = CHR ''?'' then Inr None
      else Inr (Some p))"

definition parse_fill_storage_input :: "bool \<Rightarrow> getopt_result list \<Rightarrow> storage_input sfscli_cli_cmd option exec" where
  "parse_fill_storage_input mem rs =
     (if \<not> mem then Inr None
      else exec_bind (parse_options storage_option rs (zero_storage\<lparr>cc_cmd := SFSCLI_STORAGE_CMD\<rparr>)) (check_command cc_sub_cmd))"

section \<open>Policy commands\<close>

text \<open>The field \<^verbatim>\<open>pi_index\<close> of the input, which is not serialised, is kept beside the command.\<close>

type_synonym policy_cli = "policy_input sfscli_cli_cmd \<times> int"

definition narrow :: "nat \<Rightarrow> int \<Rightarrow> 64 word" where
  "narrow w n = take_bit w (of_int n)"

definition policy_command_option :: "getopt_result \<Rightarrow> policy_cli \<Rightarrow> policy_cli" where
  "policy_command_option r p =
     (let c = go_c r; sub = (\<lambda>n. ((fst p)\<lparr>cc_sub_cmd := n\<rparr>, snd p)) in
      if c = CHR ''a'' then sub POLICY_ADD else if c = CHR ''d'' then sub POLICY_DEL
      else if c = CHR ''l'' then sub POLICY_SHOW else p)"

definition policy_field_option :: "getopt_result \<Rightarrow> policy_cli \<Rightarrow> policy_cli option exec" where
  "policy_field_option r p =
     (let i = go_index r; cmd = fst p; pi = cc_input cmd; attr = pi_attr pi;
          set = (\<lambda>pi. Inr (Some (cmd\<lparr>cc_input := pi\<rparr>, snd p))); seta = (\<lambda>a. set (pi\<lparr>pi_attr := a\<rparr>));
          num = strtol_check_error_jump r in
      if i = 0 then num (\<lambda>n. set (pi\<lparr>pi_uid := narrow 32 n\<rparr>))
      else if i = 1 then num (\<lambda>n. set (pi\<lparr>pi_gid := narrow 32 n\<rparr>))
      else if i = 2 then with_arg r (\<lambda>t. set (pi\<lparr>pi_fname := strncpy 4096 t (pi_fname pi)\<rparr>))
      else if i = 3 then with_arg r (\<lambda>t. set (pi\<lparr>pi_ftype := strncpy 8 t (pi_ftype pi)\<rparr>))
      else if i = 4 then num (\<lambda>n. seta (attr\<lparr>a_quota := narrow 32 n\<rparr>))
      else if i = 5 then num (\<lambda>n. seta (attr\<lparr>a_numreplicas := narrow 8 n\<rparr>))
      else if i = 6 then num (\<lambda>n. seta (attr\<lparr>a_enable_dr := narrow 8 n\<rparr>))
      else if i = 7 then with_arg r (\<lambda>t.
        if same_nocase t ''high'' 5 then seta (attr\<lparr>a_qoslevel := 0\<rparr>)
        else if same_nocase t ''medium'' 6 then seta (attr\<lparr>a_qoslevel := 1\<rparr>)
        else if same_nocase t ''low'' 4 then seta (attr\<lparr>a_qoslevel := 2\<rparr>)
        else Inr None)
      else if i = 8 then num (\<lambda>n. seta (attr\<lparr>a_ishidden := narrow 8 n\<rparr>))
      else if i = 9 then with_arg r (\<lambda>t.
        set (pi\<lparr>pi_policy_tag := strncpy 16 t (hd (pi_policy_tag pi)) # tl (pi_policy_tag pi)\<rparr>))
      else if i = 13 then num (\<lambda>n. Inr (Some (cmd, sint (of_int n :: 32 word))))
      else Inr (Some p))"

definition policy_option :: "getopt_result \<Rightarrow> policy_cli \<Rightarrow> policy_cli option exec" where
  "policy_option r p =
     (if go_c r = CHR ''?'' then Inr None else policy_field_option r (policy_command_option r p))"

definition parse_fill_policy_input :: "bool \<Rightarrow> getopt_result list \<Rightarrow> policy_cli option exec" where
  "parse_fill_policy_input mem rs =
     (if \<not> mem then Inr None
      else exec_bind (parse_options policy_option rs (zero_policy\<lparr>cc_cmd := SFSCLI_POLICY_CMD\<rparr>, 0)) (check_command (cc_sub_cmd \<circ> fst)))"

section \<open>Sfsd and license commands\<close>

definition zero_sfsd :: "sfsd_input sfscli_cli_cmd" where
  "zero_sfsd = \<lparr>cc_cmd = 0, cc_sub_cmd = 0, cc_input =
     \<lparr>sd_address = \<lparr>ad_protocol = 0, ad_address = replicate 40 0\<rparr>, sd_port = 0\<rparr>\<rparr>"

definition sfsd_option :: "getopt_result \<Rightarrow> sfsd_input sfscli_cli_cmd \<Rightarrow> sfsd_input sfscli_cli_cmd option exec" where
  "sfsd_option r p =
     (let c = go_c r; si = cc_input p; sub = (\<lambda>n. Inr (Some (p\<lparr>cc_sub_cmd := n\<rparr>))); set = (\<lambda>si. Inr (Some (p\<lparr>cc_input := si\<rparr>))) in
      if c = CHR ''a'' then sub SFSD_ADD
      else if c = CHR ''d'' then sub SFSD_DECOMMISION
      else if c = CHR ''l'' then sub SFSD_SHOW
      else if c = CHR ''A'' then with_arg r (\<lambda>t. set (si\<lparr>sd_address := ipv4_address t (sd_address si)\<rparr>))
      else if c = CHR ''p'' then strtol_check_error_jump r (\<lambda>n. set (si\<lparr>sd_port := narrow 16 n\<rparr>))
      else if c = CHR ''?'' then Inr None
      else Inr (Some p))"

definition parse_fill_sfsd_input :: "bool \<Rightarrow> getopt_result list \<Rightarrow> sfsd_input sfscli_cli_cmd option exec" where
  "parse_fill_sfsd_input mem rs =
     (if \<not> mem then Inr None
      else exec_bind (parse_options sfsd_option rs (zero_sfsd\<lparr>cc_cmd := SFSCLI_SFSD_CMD\<rparr>)) (check_command cc_sub_cmd))"

definition zero_license :: "license_input sfscli_cli_cmd" where
  "zero_license = \<lparr>cc_cmd = 0, cc_sub_cmd = 0, cc_input = \<lparr>license_path = replicate 4096 0\<rparr>\<rparr>"

text \<open>The case of \<^verbatim>\<open>--list\<close> falls through to that of \<^verbatim>\<open>--path\<close>.\<close>

definition license_option :: "getopt_result \<Rightarrow> license_input sfscli_cli_cmd \<Rightarrow> license_input sfscli_cli_cmd option exec" where
  "license_option r p =
     (let c = go_c r; path = (\<lambda>p. with_arg r (\<lambda>t. Inr (Some (p\<lparr>cc_input := \<lparr>license_path = strncpy 4096 t (license_path (cc_input p))\<rparr>\<rparr>)))) in
      if c = CHR ''a'' then Inr (Some (p\<lparr>cc_sub_cmd := LICENSE_ADD\<rparr>))
      else if c = CHR ''d'' then Inr (Some (p\<lparr>cc_sub_cmd := LICENSE_DEL\<rparr>))
      else if c = CHR ''l'' then path (p\<lparr>cc_sub_cmd := LICENSE_SHOW\<rparr>)
      else if c = CHR ''p'' then path p
      else if c = CHR ''?'' then Inr None
      else Inr (Some p))"

definition parse_fill_license_input :: "bool \<Rightarrow> getopt_result list \<Rightarrow> license_input sfscli_cli_cmd option exec" where
  "parse_fill_license_input mem rs =
     (if \<not> mem then Inr None
      else exec_bind (parse_options license_option rs (zero_license\<lparr>cc_cmd := SFSCLI_LICENSE_CMD\<rparr>)) (check_command cc_sub_cmd))"

section \<open>The client\<close>

text \<open>
  The outcomes of the allocations, among them the memory in which the client decodes its own message again, and
  what \<^verbatim>\<open>getopt_long\<close> returns with the table of each kind of command.
\<close>

record cli_client =
  ct_shl :: shifter
  ct_parse :: bool
  ct_ser :: bool
  ct_storage :: "storage_input sfscli_cli_cmd option"
  ct_policy :: "policy_input sfscli_cli_cmd option"
  ct_sfsd :: "sfsd_input sfscli_cli_cmd option"
  ct_license :: "license_input sfscli_cli_cmd option"
  ct_getopt :: "string \<Rightarrow> getopt_result list"

text \<open>
  A command is serialised, and decoded again.  A null buffer is dereferenced by that; the result is the number of bytes and
  the buffer.
\<close>

definition serialized ::
  "('c \<Rightarrow> (int \<times> byte list option) exec) \<Rightarrow> (byte list \<Rightarrow> (int \<times> 'd) exec) \<Rightarrow> 'c option \<Rightarrow> (int \<times> byte list) option exec" where
  "serialized ser deser c =
     (case c of None \<Rightarrow> Inr None | Some c \<Rightarrow>
      exec_bind (ser c) (\<lambda>(n, buffer).
      case buffer of None \<Rightarrow> Inl Null_Deref | Some b \<Rightarrow> exec_bind (deser b) (\<lambda>_. Inr (Some (n, b)))))"

text \<open>
  The value returned and the message written to the daemon.  \<open>prog\<close> is the base name of the program, \<open>arg\<close> the
  first argument, if there is one.
\<close>

definition process_args :: "cli_client \<Rightarrow> string \<Rightarrow> string option \<Rightarrow> (int \<times> byte list option) exec" where
  "process_args ct prog arg =
     (case arg of None \<Rightarrow> Inr (- EINVAL, None) | Some arg \<Rightarrow>
      let shl = ct_shl ct; is = (\<lambda>name. arg = name \<or> prog = name);
          sent = (\<lambda>m. exec_bind m (\<lambda>q. case q of None \<Rightarrow> Inr (-1, None) | Some (n, b) \<Rightarrow>
            Inr (0, if n = 0 then None else Some (take (nat n) b)))) in
      if is ''storage'' then
        sent (exec_bind (parse_fill_storage_input (ct_parse ct) (ct_getopt ct ''storage''))
          (serialized (sfscli_serialize_storage shl (ct_ser ct)) (sfscli_deserialize_storage shl (ct_storage ct))))
      else if is ''policy'' then
        sent (exec_bind (parse_fill_policy_input (ct_parse ct) (ct_getopt ct ''policy''))
          (serialized (sfscli_serialize_policy shl (ct_ser ct) \<circ> fst) (sfscli_deserialize_policy shl (ct_policy ct))))
      else if is ''sfsd'' then
        sent (exec_bind (parse_fill_sfsd_input (ct_parse ct) (ct_getopt ct ''sfsd''))
          (serialized (sfscli_serialize_sfsd shl (ct_ser ct)) (sfscli_deserialize_sfsd shl (ct_sfsd ct))))
      else if is ''license'' then
        sent (exec_bind (parse_fill_license_input (ct_parse ct) (ct_getopt ct ''license''))
          (serialized (sfscli_serialize_license shl (ct_ser ct)) (sfscli_deserialize_license shl (ct_license ct))))
      else Inr (0, None))"

section \<open>What the client sends\<close>

text \<open>A string in an array of \<open>k\<close> bytes, followed by zeros.\<close>

definition array_of :: "nat \<Rightarrow> string \<Rightarrow> byte list" where
  "array_of k t = str_bytes t @ replicate (k - length t) 0"

lemma array_of_c_str: "c_string t \<Longrightarrow> c_str (array_of k t) = str_bytes t"
proof -
  assume "c_string t"
  then have "takeWhile (\<lambda>b. b \<noteq> 0) (str_bytes t @ replicate m 0) = str_bytes t" for m
    by (induction t) (auto simp: str_bytes_def c_string_def of_char_zero takeWhile_replicate)
  then show ?thesis by (simp add: c_str_def array_of_def)
qed

lemma array_of_props:
  assumes "c_string t"
  shows "zero_padded (array_of k t) = array_of k t" "length t \<le> k \<Longrightarrow> length (array_of k t) = k"
    "length t < k \<Longrightarrow> 0 \<in> set (array_of k t)" "bytes_str (array_of k t) = t"
proof -
  show "bytes_str (array_of k t) = t"
    using array_of_c_str [OF assms, of k] bytes_str_append(2) [OF assms] by (simp add: bytes_str_def c_str_def)
      (metis takeWhile_idem)
qed (use assms in \<open>simp_all add: zero_padded_def array_of_c_str\<close>, simp_all add: array_of_def)

lemma strncpy_array: "length u \<le> n \<Longrightarrow> n \<le> k \<Longrightarrow> strncpy n t (array_of k u) = array_of k (take n t)"
  by (auto simp: strncpy_def array_of_def str_bytes_def take_map min_def simp flip: replicate_add)

lemma c_string_take: "c_string t \<Longrightarrow> c_string (take n t)"
  by (auto simp: c_string_def dest: in_set_takeD)

text \<open>An array of \<open>k\<close> bytes that holds a string of at most \<open>n\<close> characters and zeros.\<close>

definition holds_string :: "nat \<Rightarrow> nat \<Rightarrow> byte list \<Rightarrow> bool" where
  "holds_string k n f \<longleftrightarrow> (\<exists>t. c_string t \<and> length t \<le> n \<and> f = array_of k t)"

lemma holds_strncpy:
  assumes "holds_string k n f" "n \<le> m" "m \<le> k" "c_string t" "min m (length t) \<le> n"
  shows "holds_string k n (strncpy m t f)"
proof -
  obtain u where "length u \<le> n" "f = array_of k u" using assms(1) by (auto simp: holds_string_def)
  then have "strncpy m t f = array_of k (take m t)" using assms(2,3) by (simp add: strncpy_array)
  then show ?thesis
    unfolding holds_string_def using assms(4,5) by (intro exI [of _ "take m t"]) (simp add: c_string_take min.commute)
qed

lemma holds_props:
  assumes "holds_string k n f" "n < k"
  shows "zero_padded f = f" "length f = k" "0 \<in> set f"
  using assms array_of_props by (auto simp: holds_string_def)

text \<open>
  What the loop keeps of the command: its strings are in their arrays, its numbers within their types.  The path is
  terminated.
\<close>

definition client_storage :: "storage_input sfscli_cli_cmd \<Rightarrow> bool" where
  "client_storage c \<longleftrightarrow>
     (let i = cc_input c; a = si_address i in
      cc_cmd c = SFSCLI_STORAGE_CMD \<and> cc_sub_cmd c \<in> {0, STORAGE_ADD, STORAGE_DEL, STORAGE_UPDATE, STORAGE_SHOW} \<and>
      ad_protocol a \<in> {0, IPV4_PROTOCOL} \<and> si_access_protocol i \<in> {0, 1, 2, 3, 4} \<and> si_type i \<in> {0, 1, 2} \<and> fits 8 (si_size i) \<and>
      holds_string 40 16 (ad_address a) \<and> holds_string 4096 4095 (si_rpath i))"

text \<open>
  Results of \<^verbatim>\<open>getopt_long\<close> with the table of storage options: an argument for those that need one, a string of C.  A path is shorter than
  its array and a size is a number below \<open>2 ^ 31\<close>, or nothing follows from it.
\<close>

definition storage_option_ok :: "getopt_result \<Rightarrow> bool" where
  "storage_option_ok r \<longleftrightarrow>
     (case go_optarg r of None \<Rightarrow> go_c r \<notin> {CHR ''A'', CHR ''R'', CHR ''P'', CHR ''t'', CHR ''s''}
      | Some t \<Rightarrow> c_string t \<and> (go_c r = CHR ''R'' \<longrightarrow> length t < 4096) \<and>
          (go_c r = CHR ''s'' \<longrightarrow> (if snd (strtol t) = [] then 0 \<le> fst (strtol t) \<and> fst (strtol t) < 2 ^ 31 else 0 \<le> go_index r)))"

lemma fits_of_int: "0 \<le> n \<Longrightarrow> n < 2 ^ 31 \<Longrightarrow> fits 8 (of_int n)"
proof -
  assume n: "0 \<le> n" "n < 2 ^ 31"
  have "take_bit k (of_int n :: 64 word) = of_int (take_bit k n)" for k by (simp add: of_int_take_bit)
  moreover have "take_bit k n = n" if "31 \<le> k" for k
    using n that power_increasing [of 31 k "2 :: int"] by (simp add: take_bit_int_eq_self_iff)
  ultimately show ?thesis by (simp add: fits_def)
qed

lemma client_storage_fields:
  assumes "client_storage c"
  shows "n \<in> {STORAGE_ADD, STORAGE_DEL, STORAGE_UPDATE, STORAGE_SHOW} \<Longrightarrow> client_storage (c\<lparr>cc_sub_cmd := n\<rparr>)"
    "n \<in> {1, 2, 3, 4} \<Longrightarrow> client_storage (c\<lparr>cc_input := (cc_input c)\<lparr>si_access_protocol := n\<rparr>\<rparr>)"
    "n \<in> {1, 2} \<Longrightarrow> client_storage (c\<lparr>cc_input := (cc_input c)\<lparr>si_type := n\<rparr>\<rparr>)"
    "fits 8 n \<Longrightarrow> client_storage (c\<lparr>cc_input := (cc_input c)\<lparr>si_size := n\<rparr>\<rparr>)"
  using assms unfolding client_storage_def Let_def by auto

lemma client_storage_strings:
  assumes "client_storage c" "c_string t"
  shows "client_storage (c\<lparr>cc_input := (cc_input c)\<lparr>si_address := ipv4_address t (si_address (cc_input c))\<rparr>\<rparr>)"
    "length t < 4096 \<Longrightarrow> client_storage (c\<lparr>cc_input := (cc_input c)\<lparr>si_rpath := strncpy 4096 t (si_rpath (cc_input c))\<rparr>\<rparr>)"
  using assms by (simp_all add: client_storage_def Let_def ipv4_address_def holds_strncpy)

text \<open>A step that does not crash and keeps the invariant.\<close>

definition keeps_client :: "storage_input sfscli_cli_cmd option exec \<Rightarrow> bool" where
  "keeps_client x \<longleftrightarrow> (case x of Inl _ \<Rightarrow> False | Inr q \<Rightarrow> (case q of None \<Rightarrow> True | Some c \<Rightarrow> client_storage c))"

lemma keeps_client_simps [simp]:
  "keeps_client (Inr None)" "keeps_client (Inr (Some c)) \<longleftrightarrow> client_storage c"
  by (simp_all add: keeps_client_def)

lemma keeps_client_bind:
  "keeps_client x \<Longrightarrow> (\<And>c. client_storage c \<Longrightarrow> keeps_client (f c)) \<Longrightarrow>
   keeps_client (exec_bind x (\<lambda>q. case q of None \<Rightarrow> Inr None | Some c \<Rightarrow> f c))"
  by (auto simp: exec_bind_def keeps_client_def [of x] split: sum.splits option.splits)

lemma storage_option_client:
  assumes "storage_option_ok r" "client_storage c"
  shows "keeps_client (storage_option r c)"
proof (cases "go_optarg r")
  case None
  then show ?thesis using assms client_storage_fields(1) [OF assms(2)] by (simp add: storage_option_ok_def storage_option_def Let_def)
next
  case (Some t)
  have "keeps_client (strtol_check_error_jump r (\<lambda>n. Inr (Some (c\<lparr>cc_input := (cc_input c)\<lparr>si_size := of_int n\<rparr>\<rparr>))))" if "go_c r = CHR ''s''"
    using assms Some that client_storage_fields(4) [OF assms(2)] fits_of_int
    by (auto simp: storage_option_ok_def strtol_check_error_jump_def split: prod.splits if_splits)
  then show ?thesis
    using assms Some client_storage_fields [OF assms(2)] client_storage_strings [OF assms(2), of t]
    by (simp add: storage_option_ok_def storage_option_def Let_def with_arg_def)
qed

lemma parse_options_client:
  assumes "\<forall>r \<in> set rs. storage_option_ok r" "client_storage c"
  shows "keeps_client (parse_options storage_option rs c)"
  using assms
proof (induction rs arbitrary: c)
  case (Cons r rs)
  then have "keeps_client (storage_option r c)" by (simp add: storage_option_client)
  then show ?case using Cons by (simp add: keeps_client_bind)
qed simp

text \<open>A command that the client fills in can be serialised, and its strings are padded.\<close>

lemma client_storage_ok:
  assumes "client_storage c"
  shows "storage_ok c" "padded_storage c = c"
proof -
  have h: "holds_string 40 16 (ad_address (si_address (cc_input c)))" "holds_string 4096 4095 (si_rpath (cc_input c))"
    using assms by (simp_all add: client_storage_def Let_def)
  then show "padded_storage c = c" by (simp add: padded_storage_def Let_def holds_props)
  have small: "fits 4 n" if "n \<in> {0, 1, 2, 3, 4}" for n using that by (auto simp: fits_def)
  show "storage_ok c"
    using assms h by (auto simp: storage_ok_def client_storage_def Let_def storage_numbers cli_command_numbers IPV4_PROTOCOL_def
      holds_props small)
qed

lemma client_storage_init: "client_storage (zero_storage\<lparr>cc_cmd := SFSCLI_STORAGE_CMD\<rparr>)"
proof -
  have "holds_string k n (replicate k 0)" for k n
    unfolding holds_string_def by (intro exI [of _ "[]"]) (simp add: array_of_def str_bytes_def c_string_def)
  then show ?thesis by (simp add: client_storage_def zero_storage_def Let_def fits_small)
qed

text \<open>The memory in which the client decodes its message, if there is any, is a structure.\<close>

definition client_memory :: "cli_client \<Rightarrow> bool" where
  "client_memory ct \<longleftrightarrow> ct_parse ct \<and> ct_ser ct \<and> c_shl (ct_shl ct) \<and>
     (case ct_storage ct of None \<Rightarrow> True | Some j \<Rightarrow>
        length (ad_address (si_address (cc_input j))) = 40 \<and> length (si_rpath (cc_input j)) = 4096)"

lemma client_sends:
  assumes "client_memory ct" "\<forall>r \<in> set (ct_getopt ct ''storage''). storage_option_ok r"
    "parse_fill_storage_input True (ct_getopt ct ''storage'') = Inr (Some c)"
  shows "\<exists>msg p. process_args ct prog (Some ''storage'') = Inr (0, Some msg) \<and> client_storage c \<and> cc_sub_cmd c \<noteq> 0 \<and>
    msg = sfscli_ser_uint (ct_shl ct) SFSCLI_MAGIC 4 @ sfscli_ser_nfield (ct_shl ct) 4 SFSCLI_STORAGE_CMD @ p \<and> length msg < 5000 \<and>
    (\<forall>rest. sfscli_deserialize_storage (ct_shl ct) (Some zero_storage) (msg @ rest) = Inr (0, Some c))"
proof -
  have c: "client_storage c" "cc_sub_cmd c \<noteq> 0"
    using parse_options_client [OF assms(2) client_storage_init] assms(3)
    by (auto simp: parse_fill_storage_input_def check_command_def keeps_client_def exec_bind_def split: sum.splits option.splits if_splits)
  have shl: "c_shl (ct_shl ct)" using assms(1) by (simp add: client_memory_def)
  obtain msg p where msg: "sfscli_serialize_storage (ct_shl ct) True c = Inr (int (length msg), Some msg)"
    "msg = sfscli_ser_uint (ct_shl ct) SFSCLI_MAGIC 4 @ sfscli_ser_nfield (ct_shl ct) 4 (cc_cmd c) @ p" "length msg < 5000"
    "\<forall>rest. sfscli_deserialize_storage (ct_shl ct) (Some zero_storage) (msg @ rest) = Inr (0, Some c)"
    using storage_message [OF shl client_storage_ok(1) [OF c(1)]] client_storage_ok(2) [OF c(1)] by auto
  obtain x where "sfscli_deserialize_storage (ct_shl ct) (ct_storage ct) msg = Inr x"
    using storage_reread [OF shl client_storage_ok(1) [OF c(1)] msg(1), of "ct_storage ct"] assms(1) unfolding client_memory_def by blast
  moreover have "0 < length msg" using msg(2) by simp
  moreover have "cc_cmd c = SFSCLI_STORAGE_CMD" using c(1) by (simp add: client_storage_def Let_def)
  moreover have "process_args ct prog (Some ''storage'') = Inr (0, Some msg)"
    using assms(1,3) msg(1) calculation by (simp add: process_args_def serialized_def client_memory_def Let_def)
  ultimately show ?thesis using c msg(2-4) by metis
qed

text \<open>
  A license command ends the client: the serialiser does not hand its buffer over, and the client decodes a null pointer.
\<close>

theorem license_client_crashes:
  assumes "ct_parse ct" "parse_fill_license_input True (ct_getopt ct ''license'') = Inr (Some c)" "0 \<in> set (license_path (cc_input c))"
    "prog \<notin> {''storage'', ''policy'', ''sfsd''}"
  shows "process_args ct prog (Some ''license'') = Inl Null_Deref"
  using assms by (simp add: process_args_def serialized_def sfscli_serialize_license_def sfscli_ser_sfield_def c_strlen_def Let_def)

end
