(* ===== verification/Cli_Server.thy ===== *)
theory Cli_Server
  imports Cli_Parse Storage_Cmd
begin

text \<open>
  The side of sfs that answers the command line, \<^verbatim>\<open>sfs/src/sfs_sfscli.c\<close>: \<^verbatim>\<open>get_command_response\<close> with the handlers of the
  four kinds of commands, and a round of the loop of \<^verbatim>\<open>handle_cli_requests\<close>.  The handler of storage commands runs the command as
  in \<^verbatim>\<open>Storage_Cmd\<close>.  The global buffer of the listing, its length, the static index and the pointer to the last response, which
  outlive a command, are part of the state.
\<close>

section \<open>State\<close>

datatype out_buf = No_Buf | Buf string | Freed_Buf

record ('j, 'd) cli_server =
  sv_cli :: cli_state
  sv_policy :: "'j policy_state"
  sv_db :: 'd
  sv_index :: int
  sv_buf :: out_buf
  sv_buf_len :: nat
  sv_resp :: "string option"

text \<open>
  The environment: the shift, the uninitialised command of \<^verbatim>\<open>get_command_response\<close>, the memory in which commands are decoded with the
  index that is not part of the message, whether there is memory for the response and for each line of the listing, the
  environment of a storage command with the answer of the sfsd, and that of the policy functions.
\<close>

record ('j, 'd) server_env =
  ve_shl :: shifter
  ve_cmd :: "64 word"
  ve_storage :: "storage_input sfscli_cli_cmd option"
  ve_policy :: "policy_input sfscli_cli_cmd option"
  ve_sfsd :: "sfsd_input sfscli_cli_cmd option"
  ve_license :: "license_input sfscli_cli_cmd option"
  ve_pi_index :: int
  ve_resp :: bool
  ve_line :: "int \<Rightarrow> bool"
  ve_fill :: "nat \<Rightarrow> string"
  ve_cli :: cli_env
  ve_jt_key :: sstack_jt
  ve_jm_key :: sstack_jm
  ve_answer :: sstack_payload
  ve_judy :: "'j judysl"
  ve_strings :: "64 word \<Rightarrow> string exec"
  ve_entry :: nat
  ve_entry_junk :: policy_entry
  ve_record_junk :: policy_db_entry
  ve_records :: "nat \<Rightarrow> record_env"
  ve_show :: "nat \<Rightarrow> bool"
  ve_db :: "'d policy_db"

definition MAX_RESPONSE_LEN :: nat where "MAX_RESPONSE_LEN = 1000"
definition SFSCLI_MAX_BUFFER_SIZE :: nat where "SFSCLI_MAX_BUFFER_SIZE = 16384"

section \<open>Decoded commands\<close>

definition protocol_of :: "64 word \<Rightarrow> sfs_protocol" where
  "protocol_of n = (if n = 1 then NFS else if n = 2 then CIFS else if n = 3 then ISCSI else if n = 4 then NATIVE
     else Unlisted_Protocol (ucast n))"

definition type_of :: "64 word \<Rightarrow> sstack_storage_type" where
  "type_of n = (if n = 1 then SSTACK_STORAGE_HDD else if n = 2 then SSTACK_STORAGE_SSD else Unlisted_Type (ucast n))"

text \<open>The bytes of \<^verbatim>\<open>sstack_address_t\<close>: the protocol, low byte first, and the union of the addresses.\<close>

definition address_bytes :: "sstack_address \<Rightarrow> byte list" where
  "address_bytes a = map (\<lambda>i. ucast (drop_bit (8 * i) (ad_protocol a))) [0..<4] @ ad_address a"

definition storage_op_of :: "64 word \<Rightarrow> storage_op option" where
  "storage_op_of n = (if n = STORAGE_ADD then Some STORAGE_ADD_CMD else if n = STORAGE_DEL then Some STORAGE_DEL_CMD
     else if n = STORAGE_UPDATE then Some STORAGE_UPDATE_CMD else None)"

definition storage_cmd_of :: "storage_op \<Rightarrow> storage_input \<Rightarrow> storage_cmd" where
  "storage_cmd_of op sti = \<lparr>sc_op = op, sc_address = address_bytes (si_address sti), sc_rpath = bytes_str (si_rpath sti),
     sc_protocol = protocol_of (si_access_protocol sti), sc_type = type_of (si_type sti), sc_size = si_size sti\<rparr>"

text \<open>The request of a policy command; the memory of the index is not written.\<close>

definition policy_request_of :: "policy_input \<Rightarrow> int \<Rightarrow> policy_request" where
  "policy_request_of pi i = \<lparr>pq_uid = ucast (pi_uid pi), pq_gid = ucast (pi_gid pi), pq_policy_tag = concat (pi_policy_tag pi),
     pq_ftype = bytes_str (pi_ftype pi), pq_fname = bytes_str (pi_fname pi), pq_num_policy = pi_num_policy pi, pq_attr = pi_attr pi,
     pq_index = i\<rparr>"

section \<open>Listing the devices\<close>

definition device_line :: "int \<Rightarrow> sfs_st \<Rightarrow> string" where
  "device_line index node =
     (let tab = [CHR 0x09];
          proto = (case st_access_protocol node of NFS \<Rightarrow> ''NFS'' | CIFS \<Rightarrow> ''CIFS'' | ISCSI \<Rightarrow> ''ISCSI'' | NATIVE \<Rightarrow> ''NATIVE'' | _ \<Rightarrow> ''ERR'');
          dev_type = (case st_type node of SSTACK_STORAGE_HDD \<Rightarrow> ''HDD'' | SSTACK_STORAGE_SSD \<Rightarrow> ''SSD'' | _ \<Rightarrow> ''ERR'') in
      ''Index: '' @ sdecimal index @ tab @ '' IP: '' @ bytes_str (drop 4 (st_address node)) @ ''   Remotepath: '' @ st_rpath node @ tab @
      ''Proto: '' @ proto @ ''   Type: '' @ dev_type @ ''  Size: '' @ sdecimal (sint (st_size node)) @ [CHR 0x0A])"

text \<open>
  The function that is called for every device.  The buffer is enlarged to \<^verbatim>\<open>buf_len\<close> bytes and the length of the line, and the line is
  copied behind the first \<^verbatim>\<open>buf_len\<close> bytes; new memory holds what the environment says.  After a crash nothing more happens.
\<close>

definition display_storage_devices ::
  "('j, 'd) server_env \<Rightarrow> sfs_st \<Rightarrow> ('j, 'd) cli_server exec \<Rightarrow> ('j, 'd) cli_server exec \<times> unit option" where
  "display_storage_devices env node x =
     (exec_bind x (\<lambda>s.
      let i = sv_index s; line = device_line i node; s = s\<lparr>sv_index := i + 1\<rparr> in
      if 0 \<notin> set (drop 4 (st_address node)) \<or> MAX_RESPONSE_LEN \<le> length line then Inl Bad_Access
      else if i + 1 = 2 ^ 31 \<or> 2 ^ 31 \<le> length line + sv_buf_len s then Inl Undefined
      else if sv_buf s = Freed_Buf then Inl Bad_Access
      else if \<not> ve_line env i then Inr s
      else
        let n = sv_buf_len s; old = (case sv_buf s of Buf t \<Rightarrow> t | _ \<Rightarrow> []) in
        Inr (s\<lparr>sv_buf := Buf (take n (old @ ve_fill env n) @ line), sv_buf_len := n + length line\<rparr>)),
      None)"

text \<open>
  The listing is copied to where the last response was.  Its length is taken to be \<open>n\<close>, that of the request: the parameter of
  the handler hides the global variable.
\<close>

definition show_devices :: "('j, 'd) server_env \<Rightarrow> nat \<Rightarrow> ('j, 'd) cli_server \<Rightarrow> (int option \<times> ('j, 'd) cli_server) exec" where
  "show_devices env n s =
     exec_bind (sfs_storage_tree_iter (display_storage_devices env) (cs_storage (sv_cli s)) (Inr s)) (\<lambda>x. exec_bind x (\<lambda>s.
     let copied = (\<lambda>r t. if n \<le> length r \<and> n \<le> length t
           then Inr (Some (int n), s\<lparr>sv_resp := Some (take n t @ drop n r), sv_buf := Freed_Buf\<rparr>) else Inl Bad_Access) in
     case (sv_resp s, sv_buf s) of
       (None, _) \<Rightarrow> Inl Null_Deref
     | (_, No_Buf) \<Rightarrow> Inl Null_Deref
     | (_, Freed_Buf) \<Rightarrow> Inl Bad_Access
     | (Some r, Buf t) \<Rightarrow> copied r t))"

section \<open>Handlers\<close>

text \<open>A response in a block of its own.\<close>

definition respond :: "('j, 'd) server_env \<Rightarrow> string \<Rightarrow> ('j, 'd) cli_server \<Rightarrow> (int option \<times> ('j, 'd) cli_server) exec" where
  "respond env t s = (if ve_resp env then Inr (Some (int (length t)), s\<lparr>sv_resp := Some t\<rparr>) else Inl Null_Deref)"

text \<open>
  The handlers return the length of the response; \<open>None\<close> means that the handler still waits for the sfsd.
\<close>

definition decoded ::
  "(int \<times> 'c option) exec \<Rightarrow> ('j, 'd) cli_server \<Rightarrow> ('c \<Rightarrow> (int option \<times> ('j, 'd) cli_server) exec) \<Rightarrow> (int option \<times> ('j, 'd) cli_server) exec" where
  "decoded m s f = exec_bind m (\<lambda>(r, cmd). if r \<noteq> 0 then Inr (Some 0, s) else case cmd of None \<Rightarrow> Inl Null_Deref | Some cmd \<Rightarrow> f cmd)"

definition get_policy_command_response ::
  "('j, 'd) server_env \<Rightarrow> byte list \<Rightarrow> ('j, 'd) cli_server \<Rightarrow> (int option \<times> ('j, 'd) cli_server) exec" where
  "get_policy_command_response env buffer s =
     decoded (sfscli_deserialize_policy (ve_shl env) (ve_policy env) buffer) s (\<lambda>cmd.
     let c = cc_sub_cmd cmd; pi = policy_request_of (cc_input cmd) (ve_pi_index env);
         reply = (\<lambda>bad good (ret, p, d). respond env (if ret < 0 then bad else good) (s\<lparr>sv_policy := p, sv_db := d\<rparr>)) in
     if c = POLICY_ADD then
       exec_bind (submit_policy_entry (ve_judy env) (ve_strings env) (ve_entry env) (ve_entry_junk env) (ve_record_junk env) False
         (Some pi) (Some (ve_db env)) 1 (sv_policy s) (sv_db s)) (reply ''CLI Error'' ''Policy added successfully'')
     else if c = POLICY_DEL then
       exec_bind (delete_policy_entry (ve_judy env) (Some pi) (Some (ve_db env)) 1 (sv_policy s) (sv_db s))
         (reply ''Policy doesn't exist'' ''Policy delete successfully'')
     else if c = POLICY_SHOW then
       exec_bind (show_policy_entries (ve_strings env) (ve_records env) (ve_show env) (ve_db env) (sv_policy s) (sv_db s)) (\<lambda>(ret, t, p).
       let s = s\<lparr>sv_policy := p\<rparr> in
       if ret < 0 then respond env ''CLI Error'' s
       else Inr (Some (int (length t)), if t = [] then s else s\<lparr>sv_resp := Some t\<rparr>))
     else Inr (Some 0, s))"

definition get_storage_command_response ::
  "('j, 'd) server_env \<Rightarrow> byte list \<Rightarrow> nat \<Rightarrow> ('j, 'd) cli_server \<Rightarrow> (int option \<times> ('j, 'd) cli_server) exec" where
  "get_storage_command_response env buffer n s =
     decoded (sfscli_deserialize_storage (ve_shl env) (ve_storage env) buffer) s (\<lambda>cmd.
     if cc_sub_cmd cmd = STORAGE_SHOW then show_devices env n s
     else case storage_op_of (cc_sub_cmd cmd) of None \<Rightarrow> Inr (Some 0, s) | Some op \<Rightarrow>
       exec_bind (storage_command_run (ve_jt_key env) (ve_jm_key env) (ve_cli env) (storage_cmd_of op (cc_input cmd)) (ve_answer env)
         (sv_cli s)) (\<lambda>(r, c).
       let s = s\<lparr>sv_cli := c\<rparr> in
       case r of None \<Rightarrow> Inr (None, s) | Some t \<Rightarrow> respond env t s))"

definition get_license_command_response ::
  "('j, 'd) server_env \<Rightarrow> byte list \<Rightarrow> ('j, 'd) cli_server \<Rightarrow> (int option \<times> ('j, 'd) cli_server) exec" where
  "get_license_command_response env buffer s =
     decoded (sfscli_deserialize_license (ve_shl env) (ve_license env) buffer) s (\<lambda>_. Inr (Some 0, s))"

definition get_sfsd_command_response ::
  "('j, 'd) server_env \<Rightarrow> byte list \<Rightarrow> nat \<Rightarrow> ('j, 'd) cli_server \<Rightarrow> (int option \<times> ('j, 'd) cli_server) exec" where
  "get_sfsd_command_response env buffer n s =
     decoded (sfscli_deserialize_sfsd (ve_shl env) (ve_sfsd env) buffer) s (\<lambda>_. Inr (Some (int n), s))"

text \<open>The command is read into a variable that is not initialised.\<close>

definition get_command_response ::
  "('j, 'd) server_env \<Rightarrow> byte list \<Rightarrow> nat \<Rightarrow> ('j, 'd) cli_server \<Rightarrow> (int option \<times> ('j, 'd) cli_server) exec" where
  "get_command_response env buffer n s =
     exec_bind (deser_magic (ve_shl env) buffer) (\<lambda>ok.
     if \<not> ok then Inr (Some (- EINVAL), s)
     else
       exec_bind (sfscli_deser_nfield (ve_shl env) 32 (ve_cmd env) (drop 4 buffer)) (\<lambda>(cmd, _).
       if cmd = SFSCLI_SFSD_CMD then get_sfsd_command_response env buffer n s
       else if cmd = SFSCLI_POLICY_CMD then get_policy_command_response env buffer s
       else if cmd = SFSCLI_STORAGE_CMD then get_storage_command_response env buffer n s
       else if cmd = SFSCLI_LICENSE_CMD then get_license_command_response env buffer s
       else Inr (Some 0, s)))"

text \<open>
  One round of the loop, from the bytes that were read to those that are written.  The buffer is cleared before.  The length is
  an unsigned number, so that an error is a very long response; \<^verbatim>\<open>write\<close> reads that much from the block.
\<close>

definition handle_cli_request ::
  "('j, 'd) server_env \<Rightarrow> byte list \<Rightarrow> ('j, 'd) cli_server \<Rightarrow> (string option \<times> ('j, 'd) cli_server) exec" where
  "handle_cli_request env msg s =
     (let msg = take SFSCLI_MAX_BUFFER_SIZE msg; n = length msg in
      if n = 0 then Inr (None, s)
      else
        exec_bind (get_command_response env (msg @ replicate (SFSCLI_MAX_BUFFER_SIZE - n) 0) n s) (\<lambda>(r, s).
        case (r, sv_resp s) of
          (Some k, Some t) \<Rightarrow>
            if k = 0 then Inr (None, s) else if k < 0 \<or> int (length t) < k then Inl Bad_Access
            else Inr (Some (take (nat k) t), s)
        | _ \<Rightarrow> Inr (None, s)))"

section \<open>Requests for storage\<close>

text \<open>
  What the server needs to understand a message: a shift, and memory for the command and its number that happens to be zero.
\<close>

definition server_decodes :: "('j, 'd) server_env \<Rightarrow> bool" where
  "server_decodes env \<longleftrightarrow> c_shl (ve_shl env) \<and> ve_cmd env = 0 \<and> ve_storage env = Some zero_storage"

text \<open>A message that holds a storage command.\<close>

definition storage_request :: "shifter \<Rightarrow> storage_input sfscli_cli_cmd \<Rightarrow> byte list \<Rightarrow> bool" where
  "storage_request shl c msg \<longleftrightarrow> length msg < 5000 \<and>
     (\<exists>p. msg = sfscli_ser_uint shl SFSCLI_MAGIC 4 @ sfscli_ser_nfield shl 4 SFSCLI_STORAGE_CMD @ p) \<and>
     (\<forall>rest. sfscli_deserialize_storage shl (Some zero_storage) (msg @ rest) = Inr (0, Some c))"

lemma client_request:
  assumes "client_memory ct" "\<forall>r \<in> set (ct_getopt ct ''storage''). storage_option_ok r"
    "parse_fill_storage_input True (ct_getopt ct ''storage'') = Inr (Some c)"
  shows "\<exists>msg. process_args ct prog (Some ''storage'') = Inr (0, Some msg) \<and> client_storage c \<and> storage_request (ct_shl ct) c msg"
  using client_sends [OF assms, of prog] unfolding storage_request_def by blast

lemma storage_request_response:
  assumes "server_decodes env" "storage_request (ve_shl env) c msg"
  shows "get_command_response env (msg @ rest) n s =
     (if cc_sub_cmd c = STORAGE_SHOW then show_devices env n s
      else case storage_op_of (cc_sub_cmd c) of None \<Rightarrow> Inr (Some 0, s) | Some op \<Rightarrow>
        exec_bind (storage_command_run (ve_jt_key env) (ve_jm_key env) (ve_cli env) (storage_cmd_of op (cc_input c)) (ve_answer env)
          (sv_cli s)) (\<lambda>(r, c).
        let s = s\<lparr>sv_cli := c\<rparr> in
        case r of None \<Rightarrow> Inr (None, s) | Some t \<Rightarrow> respond env t s))"
proof -
  have shl: "c_shl (ve_shl env)" using assms(1) by (simp add: server_decodes_def)
  obtain p where p: "msg = sfscli_ser_uint (ve_shl env) SFSCLI_MAGIC 4 @ sfscli_ser_nfield (ve_shl env) 4 SFSCLI_STORAGE_CMD @ p"
    using assms(2) by (auto simp: storage_request_def)
  have d: "sfscli_deserialize_storage (ve_shl env) (ve_storage env) (msg @ rest) = Inr (0, Some c)"
    using assms by (simp add: storage_request_def server_decodes_def)
  have "fits 4 SFSCLI_STORAGE_CMD" by (simp add: fits_def cli_command_numbers)
  then have "sfscli_deser_nfield (ve_shl env) 32 (ve_cmd env) (drop 4 (msg @ rest)) = Inr (SFSCLI_STORAGE_CMD, p @ rest)"
    using assms(1) deser_ser_numbers(3) [OF shl] unfolding p by (simp add: server_decodes_def)
  moreover have "deser_magic (ve_shl env) (msg @ rest) = Inr True" unfolding p using deser_magic_ser [OF shl] by simp
  moreover have "SFSCLI_STORAGE_CMD \<noteq> SFSCLI_SFSD_CMD" "SFSCLI_STORAGE_CMD \<noteq> SFSCLI_POLICY_CMD" by (simp_all add: cli_command_numbers)
  ultimately show ?thesis
    using d by (simp add: get_command_response_def get_storage_command_response_def decoded_def)
qed

lemma request_handled:
  assumes "storage_request shl c msg"
  shows "\<exists>rest. handle_cli_request env msg s = exec_bind (get_command_response env (msg @ rest) (length msg) s) (\<lambda>(r, s).
        case (r, sv_resp s) of
          (Some k, Some t) \<Rightarrow>
            if k = 0 then Inr (None, s) else if k < 0 \<or> int (length t) < k then Inl Bad_Access
            else Inr (Some (take (nat k) t), s)
        | _ \<Rightarrow> Inr (None, s)) \<and> 10 \<le> length msg"
proof -
  have len: "length msg < SFSCLI_MAX_BUFFER_SIZE" "10 \<le> length msg"
    using assms by (auto simp: storage_request_def SFSCLI_MAX_BUFFER_SIZE_def)
  then have "take SFSCLI_MAX_BUFFER_SIZE msg = msg" "msg \<noteq> []" by auto
  then show ?thesis using len(2) by (auto simp: handle_cli_request_def Let_def)
qed

lemma storage_request_replies:
  assumes "server_decodes env" "storage_request (ve_shl env) c msg" "storage_op_of (cc_sub_cmd c) = Some op" "ve_resp env"
    "storage_command_run (ve_jt_key env) (ve_jm_key env) (ve_cli env) (storage_cmd_of op (cc_input c)) (ve_answer env) (sv_cli s) =
      Inr (Some t, c')" "t \<noteq> []"
  shows "handle_cli_request env msg s = Inr (Some t, s\<lparr>sv_cli := c', sv_resp := Some t\<rparr>)"
proof -
  have "cc_sub_cmd c \<noteq> STORAGE_SHOW" using assms(3) by (auto simp: storage_op_of_def storage_numbers split: if_splits)
  then have "get_command_response env (msg @ rest) n s = Inr (Some (int (length t)), s\<lparr>sv_cli := c', sv_resp := Some t\<rparr>)" for rest n
    unfolding storage_request_response [OF assms(1,2)] using assms(3-5) by (simp add: respond_def)
  then show ?thesis using request_handled [OF assms(2), of env s] assms(6) by auto
qed

section \<open>Listing\<close>

lemma listing_list:
  "sfs_storage_tree_iter (display_storage_devices env) g x = Inr (fst (cb_list (display_storage_devices env) (rb_inorder (storage_tree g)) x))"
  by (simp add: sfs_storage_tree_iter_def rb_iter_def rb_iter_recurse_list split: prod.split)

text \<open>The lines of the devices, from an index on.\<close>

fun device_lines :: "int \<Rightarrow> sfs_st list \<Rightarrow> string" where
  "device_lines i [] = []"
| "device_lines i (d # ds) = device_line i d @ device_lines (i + 1) ds"

text \<open>A device whose line has room in the array of the response.\<close>

definition line_fits :: "int \<Rightarrow> sfs_st \<Rightarrow> bool" where
  "line_fits i d \<longleftrightarrow> 0 \<in> set (drop 4 (st_address d)) \<and> length (device_line i d) < MAX_RESPONSE_LEN"

lemma display_crashed [simp]: "fst (cb_list (display_storage_devices env) ds (Inl e)) = Inl e"
  by (induction ds) (simp_all add: display_storage_devices_def)

lemma display_one:
  assumes "sv_buf s \<noteq> Freed_Buf" "ve_line env (sv_index s)" "line_fits (sv_index s) d" "sv_index s + 1 < 2 ^ 31"
    "sv_buf_len s = length (case sv_buf s of Buf t \<Rightarrow> t | _ \<Rightarrow> [])" "length (device_line (sv_index s) d) + sv_buf_len s < 2 ^ 31"
  shows "display_storage_devices env d (Inr s) =
    (Inr (s\<lparr>sv_index := sv_index s + 1, sv_buf := Buf ((case sv_buf s of Buf t \<Rightarrow> t | _ \<Rightarrow> []) @ device_line (sv_index s) d),
       sv_buf_len := sv_buf_len s + length (device_line (sv_index s) d)\<rparr>), None)"
  using assms by (simp add: display_storage_devices_def line_fits_def Let_def)

lemma display_all:
  assumes "sv_buf s = Buf t" "sv_buf_len s = length t" "0 \<le> sv_index s" "sv_index s + int (length ds) < 2 ^ 31"
    "\<forall>i. ve_line env i" "\<forall>k < length ds. line_fits (sv_index s + int k) (ds ! k)" "length t + length (device_lines (sv_index s) ds) < 2 ^ 31"
  shows "fst (cb_list (display_storage_devices env) ds (Inr s)) =
    Inr (s\<lparr>sv_index := sv_index s + int (length ds), sv_buf := Buf (t @ device_lines (sv_index s) ds),
       sv_buf_len := length t + length (device_lines (sv_index s) ds)\<rparr>)"
  using assms
proof (induction ds arbitrary: s t)
  case (Cons d ds)
  let ?i = "sv_index s" and ?l = "device_line (sv_index s) d"
  let ?s = "s\<lparr>sv_index := ?i + 1, sv_buf := Buf (t @ ?l), sv_buf_len := length t + length ?l\<rparr>"
  have "line_fits ?i d" using Cons.prems(6) by (auto dest: spec [of _ 0])
  then have d: "display_storage_devices env d (Inr s) = (Inr ?s, None)" using Cons.prems by (subst display_one) simp_all
  have "\<forall>k < length ds. line_fits (?i + 1 + int k) (ds ! k)"
  proof (intro allI impI)
    fix k
    assume "k < length ds"
    then show "line_fits (?i + 1 + int k) (ds ! k)" using spec [OF Cons.prems(6), of "Suc k"] by (simp add: add.assoc)
  qed
  then show ?case using Cons.IH [of ?s "t @ ?l"] Cons.prems d by (simp add: add.assoc)
qed simp

text \<open>The listing starts with an empty buffer.\<close>

lemma display_first:
  assumes "sv_buf s = No_Buf" "sv_buf_len s = 0" "sv_index s = 0" "ds \<noteq> []" "int (length ds) < 2 ^ 31"
    "\<forall>i. ve_line env i" "\<forall>k < length ds. line_fits (int k) (ds ! k)" "length (device_lines 0 ds) < 2 ^ 31"
  shows "fst (cb_list (display_storage_devices env) ds (Inr s)) =
    Inr (s\<lparr>sv_index := int (length ds), sv_buf := Buf (device_lines 0 ds), sv_buf_len := length (device_lines 0 ds)\<rparr>)"
proof -
  obtain d r where ds: "ds = d # r" using assms(4) by (cases ds) auto
  let ?l = "device_line 0 d" and ?s = "s\<lparr>sv_index := 1, sv_buf := Buf (device_line 0 d), sv_buf_len := length (device_line 0 d)\<rparr>"
  have "line_fits 0 d" using assms(7) ds by (auto dest: spec [of _ 0])
  then have d: "display_storage_devices env d (Inr s) = (Inr ?s, None)" using assms ds by (subst display_one) simp_all
  have "\<forall>k < length r. line_fits (1 + int k) (r ! k)"
  proof (intro allI impI)
    fix k
    assume "k < length r"
    then show "line_fits (1 + int k) (r ! k)" using spec [OF assms(7), of "Suc k"] ds by simp
  qed
  then show ?thesis using display_all [of ?s ?l r env] assms ds d by simp
qed

end
