(* ===== verification/Payload_Types.thy ===== *)
theory Payload_Types
  imports Chunk_Domain
begin

text \<open>
  The types of the communication between sfs and sfsd: commands (\<^verbatim>\<open>sstack_nfs.h\<close>), the messages of \<^verbatim>\<open>jobs.proto\<close>, and
  payloads in memory (\<^verbatim>\<open>sstack_jobs.h\<close>, \<^verbatim>\<open>sstack_nfs.h\<close>).  The commands \<^verbatim>\<open>NFS_CREATE\<close> and \<^verbatim>\<open>NFS_REMOVE\<close>, which no part of the system sends
  and which are serialised by copying the bytes of a pointer as if they were a string, are left out.
\<close>

section \<open>Commands\<close>

datatype sstack_command_t =
  SSTACK_ADD_STORAGE | SSTACK_REMOVE_STORAGE | SSTACK_UPDATE_STORAGE | SSTACK_ADD_STORAGE_RSP | SSTACK_REMOVE_STORAGE_RSP
| SSTACK_UPDATE_STORAGE_RSP | NFS_GETATTR | NFS_SETATTR | NFS_LOOKUP | NFS_ACCESS | NFS_READLINK | NFS_READ | NFS_WRITE | NFS_MKDIR
| NFS_SYMLINK | NFS_MKNOD | NFS_RMDIR | NFS_RENAME | NFS_LINK | NFS_READDIR | NFS_READDIRPLUS | NFS_FSSTAT | NFS_FSINFO | NFS_PATHCONF
| NFS_COMMIT | NFS_ESURE_CODE | NFS_GETATTR_RSP | NFS_LOOKUP_RSP | NFS_ACCESS_RSP | NFS_READLINK_RSP | NFS_READ_RSP | NFS_WRITE_RSP
| NFS_CREATE_RSP | NFS_ESURE_CODE_RSP | NFS_MKDIR_RSP | NFS_SYMLINK_RSP | NFS_MKNOD_RSP | NFS_REMOVE_RSP | NFS_RMDIR_RSP
| NFS_RENAME_RSP | NFS_LINK_RSP | NFS_READDIR_RSP | NFS_READDIRPLUS_RSP | NFS_FSSTAT_RSP | NFS_FSINFO_RSP | NFS_PATHCONF_RSP
| NFS_COMMIT_RSP | SSTACK_SFS_SYNC_CMD | SSTACK_SFS_ASYNC_CMD | NFS_SETATTR_RSP

text \<open>The responses of which only \<^verbatim>\<open>command_ok\<close> and \<^verbatim>\<open>handle\<close> are sent.\<close>

definition status_rsp :: "sstack_command_t \<Rightarrow> bool" where
  "status_rsp c \<longleftrightarrow> c \<in> {SSTACK_REMOVE_STORAGE_RSP, SSTACK_UPDATE_STORAGE_RSP, SSTACK_ADD_STORAGE_RSP, NFS_ESURE_CODE_RSP, NFS_MKDIR_RSP,
     NFS_SYMLINK_RSP, NFS_MKNOD_RSP, NFS_REMOVE_RSP, NFS_RMDIR_RSP, NFS_RENAME_RSP, NFS_LINK_RSP, NFS_READDIR_RSP, NFS_READDIRPLUS_RSP,
     NFS_FSSTAT_RSP, NFS_FSINFO_RSP, NFS_PATHCONF_RSP, NFS_COMMIT_RSP, NFS_SETATTR_RSP}"

definition storage_command :: "sstack_command_t \<Rightarrow> bool" where
  "storage_command c \<longleftrightarrow> c \<in> {SSTACK_ADD_STORAGE, SSTACK_REMOVE_STORAGE, SSTACK_UPDATE_STORAGE}"

section \<open>Messages\<close>

text \<open>
  The messages of \<^verbatim>\<open>jobs.proto\<close>, with \<open>None\<close> for a field that is not set.  The plugins of a policy entry, whose number is
  never set in a message, are left out.
\<close>

type_synonym bytes = "8 word list"

record pb_address =
  pa_protocol :: sstack_network_protocol
  pa_ipv4_address :: "bytes option"
  pa_ipv6_address :: "bytes option"

record pb_file_name =
  pf_name_len :: "32 word"
  pf_name :: bytes
  pf_proto :: sfs_protocol
  pf_address :: "pb_address option"

record pb_attribute =
  pt_ver :: "32 word"
  pt_qoslevel :: "32 word"
  pt_ishidden :: "32 word"
  pt_numreplicas :: "32 word"
  pt_enable_dr :: "32 word"

record pb_policy_entry =
  pp_attr :: pb_attribute
  pp_num_plugins :: "32 word"
  pp_refcount :: "32 word"
  pp_lock :: "32 word"
  pp_index :: "32 word"

record pb_data =
  pd_len :: "64 word"
  pd_buf :: bytes

record pb_read_cmd =
  pr_inode_no :: "64 word"
  pr_offset :: "64 word"
  pr_count :: "64 word"
  pr_read_ecode :: "32 word"
  pr_pe :: pb_policy_entry

record pb_write_cmd =
  pw_inode_no :: "64 word"
  pw_offset :: "64 word"
  pw_count :: "64 word"
  pw_data :: pb_data
  pw_pe :: pb_policy_entry

record pb_command_struct =
  pc_extent_handle :: "pb_file_name option"
  pc_lookup_cmd :: "(pb_file_name \<times> pb_file_name) option"
  pc_access_cmd :: "32 word option"
  pc_read_cmd :: "pb_read_cmd option"
  pc_write_cmd :: "pb_write_cmd option"
  pc_mkdir_cmd :: "32 word option"
  pc_symlink_cmd :: "pb_file_name option"
  pc_rename_cmd :: "pb_file_name option"
  pc_commit_cmd :: "(64 word \<times> 64 word) option"

record pb_read_resp =
  px_count :: "64 word"
  px_eof :: "32 word"
  px_data :: pb_data

text \<open>The responses to writing and creating: \<^verbatim>\<open>file_create_ok\<close> and \<^verbatim>\<open>file_wc\<close>.\<close>

record pb_response_struct =
  ps_command_ok :: "32 word"
  ps_handle :: "64 word"
  ps_lookup_resp :: "(32 word \<times> bytes) option"
  ps_access_resp :: "32 word option"
  ps_readlink_resp :: "pb_file_name option"
  ps_read_resp :: "pb_read_resp option"
  ps_write_resp :: "(32 word \<times> 32 word) option"
  ps_create_resp :: "(32 word \<times> 32 word) option"

record pb_storage =
  pg_path :: bytes
  pg_mount_point :: bytes
  pg_weight :: "32 word"
  pg_nblocks :: "64 word"
  pg_protocol :: sfs_protocol
  pg_num_chunks_written :: "64 word"
  pg_address :: pb_address

record pb_hdr =
  ph_sequence :: "32 word"
  ph_payload_len :: "32 word"
  ph_job_id :: "32 word"
  ph_priority :: "32 word"
  ph_arg :: "64 word"

record pb_payload =
  pm_hdr :: pb_hdr
  pm_command :: sstack_command_t
  pm_storage :: "pb_storage option"
  pm_command_struct :: "pb_command_struct option"
  pm_response_struct :: "pb_response_struct option"

definition pb_command_init :: pb_command_struct where
  "pb_command_init = \<lparr>pc_extent_handle = None, pc_lookup_cmd = None, pc_access_cmd = None, pc_read_cmd = None, pc_write_cmd = None,
     pc_mkdir_cmd = None, pc_symlink_cmd = None, pc_rename_cmd = None, pc_commit_cmd = None\<rparr>"

definition pb_response_init :: pb_response_struct where
  "pb_response_init = \<lparr>ps_command_ok = 0, ps_handle = 0, ps_lookup_resp = None, ps_access_resp = None, ps_readlink_resp = None,
     ps_read_resp = None, ps_write_resp = None, ps_create_resp = None\<rparr>"

text \<open>The code that protobuf-c generates: the command and the protocol that a new message has, packing and unpacking.\<close>

record protobuf =
  pb_first :: sstack_command_t
  pb_first_proto :: sfs_protocol
  pb_pack :: "pb_payload \<Rightarrow> bytes"
  pb_unpack :: "bytes \<Rightarrow> pb_payload option"

section \<open>Payloads\<close>

record attr_t =
  at_ver :: "32 word"
  at_quota :: "32 word"
  at_qoslevel :: "8 word"
  at_ishidden :: "8 word"
  at_numreplicas :: "8 word"
  at_enable_dr :: "8 word"

record policy_t =
  pe_attr :: attr_t
  pe_num_plugins :: "64 word"
  pe_refcount :: "32 word"
  pe_lock :: "32 word"
  pst_index :: "8 word"

text \<open>A block of data: its length, and the block that the pointer points to, if it is not null.\<close>

record data_t =
  data_len :: "64 word"
  data_buf :: "bytes option"

record read_cmd_t =
  rc_inode_no :: "64 word"
  rc_offset :: "64 word"
  rc_count :: "64 word"
  rc_read_ecode :: "32 word"
  rc_pe :: policy_t

record write_cmd_t =
  wc_inode_no :: "64 word"
  wc_offset :: "64 word"
  wc_count :: "64 word"
  wc_data :: data_t
  wc_pe :: policy_t

record command_t =
  cs_extent_handle :: file_handle
  cs_where :: file_handle
  cs_what :: file_handle
  cs_access_mode :: "32 word"
  cs_read_cmd :: read_cmd_t
  cs_write_cmd :: write_cmd_t
  cs_mkdir_mode :: "32 word"
  cs_new_path :: file_handle
  cs_commit_offset :: "64 word"
  cs_commit_count :: "64 word"
  cs_remove_path :: "bytes option"

record response_t =
  ro_command_ok :: "32 word"
  ro_handle :: "64 word"
  ro_lookup_path_len :: "64 word"
  ro_lookup_path :: "string option"
  ro_access :: "32 word"
  ro_real_file :: file_handle
  ro_count :: "64 word"
  ro_eof :: "32 word"
  ro_data :: data_t
  ro_file_create_ok :: "32 word"
  ro_file_wc :: "32 word"

text \<open>
  A device; \<open>None\<close> is the address family 0, which is no value of its type.
\<close>

record storage_t =
  sr_path :: string
  sr_mount_point :: string
  sr_weight :: "32 word"
  sr_nblocks :: "64 word"
  sr_protocol :: sfs_protocol
  sr_num_chunks_written :: "64 word"
  sr_family :: "sstack_network_protocol option"
  sr_address :: string

record hdr_t =
  hd_sequence :: "32 word"
  hd_payload_len :: "32 word"
  hd_job_id :: "64 word"
  hd_priority :: "32 word"
  hd_arg :: "64 word"

text \<open>
  The members of the unions are kept apart, since every command uses members of its own.
\<close>

record payload_t =
  py_hdr :: hdr_t
  py_command :: sstack_command_t
  py_storage :: storage_t
  py_command_struct :: command_t
  py_response_struct :: response_t

text \<open>A cleared payload; its command and protocols are set later.\<close>

definition clear_handle :: file_handle where
  "clear_handle = \<lparr>fh_name_len = 0, fh_name = [], fh_proto = NFS, fh_address = \<lparr>na_protocol = IPV4, na_address = []\<rparr>\<rparr>"

definition clear_policy :: policy_t where
  "clear_policy = \<lparr>pe_attr = \<lparr>at_ver = 0, at_quota = 0, at_qoslevel = 0, at_ishidden = 0, at_numreplicas = 0, at_enable_dr = 0\<rparr>,
     pe_num_plugins = 0, pe_refcount = 0, pe_lock = 0, pst_index = 0\<rparr>"

definition clear_data :: data_t where
  "clear_data = \<lparr>data_len = 0, data_buf = None\<rparr>"

definition clear_command :: command_t where
  "clear_command = \<lparr>cs_extent_handle = clear_handle, cs_where = clear_handle, cs_what = clear_handle, cs_access_mode = 0,
     cs_read_cmd = \<lparr>rc_inode_no = 0, rc_offset = 0, rc_count = 0, rc_read_ecode = 0, rc_pe = clear_policy\<rparr>,
     cs_write_cmd = \<lparr>wc_inode_no = 0, wc_offset = 0, wc_count = 0, wc_data = clear_data, wc_pe = clear_policy\<rparr>,
     cs_mkdir_mode = 0, cs_new_path = clear_handle, cs_commit_offset = 0, cs_commit_count = 0, cs_remove_path = None\<rparr>"

definition clear_response :: response_t where
  "clear_response = \<lparr>ro_command_ok = 0, ro_handle = 0, ro_lookup_path_len = 0, ro_lookup_path = None, ro_access = 0,
     ro_real_file = clear_handle, ro_count = 0, ro_eof = 0, ro_data = clear_data, ro_file_create_ok = 0, ro_file_wc = 0\<rparr>"

definition clear_storage :: storage_t where
  "clear_storage = \<lparr>sr_path = [], sr_mount_point = [], sr_weight = 0, sr_nblocks = 0, sr_protocol = NFS, sr_num_chunks_written = 0,
     sr_family = None, sr_address = []\<rparr>"

definition clear_payload :: "sstack_command_t \<Rightarrow> payload_t" where
  "clear_payload c = \<lparr>py_hdr = \<lparr>hd_sequence = 0, hd_payload_len = 0, hd_job_id = 0, hd_priority = 0, hd_arg = 0\<rparr>, py_command = c,
     py_storage = clear_storage, py_command_struct = clear_command, py_response_struct = clear_response\<rparr>"

end
