(* ===== verification/Payload_Serdes.thy ===== *)
theory Payload_Serdes
  imports Payload_Types Job_Ids
begin

text \<open>
  Payloads between sfs and sfsd (\<^verbatim>\<open>lib/serdes/src/sstack_serdes.c\<close>) over TCP (\<^verbatim>\<open>common/src/sstack_transport_tcp.c\<close>): a
  payload is copied to a message, packed and sent, and received, unpacked and copied to a new payload.
  Packing and unpacking are a parameter; outcomes of allocations and system calls, fresh memory and the bytes that
  follow a block in memory are arguments.  Logging is left out, and so are blocks that are never freed.
\<close>

section \<open>Transport\<close>

definition IPV4_ADDR_MAX :: nat where "IPV4_ADDR_MAX = 16"

text \<open>The sizes of \<^verbatim>\<open>sstack_payload_hdr_t\<close>, \<^verbatim>\<open>sstack_file_handle_t\<close> and \<^verbatim>\<open>sstack_payload_t\<close>.\<close>

definition SIZEOF_HDR :: nat where "SIZEOF_HDR = 32"
definition SIZEOF_HANDLE :: nat where "SIZEOF_HANDLE = 8 + PATH_MAX + 4 + 44"
definition SIZEOF_PAYLOAD :: nat where "SIZEOF_PAYLOAD = SIZEOF_HDR + 8 + SIZEOF_HANDLE + 2 * SIZEOF_HANDLE"

record transport =
  tr_ipv4 :: bool
  tr_tx :: bool
  tr_rx :: bool

text \<open>The transport of \<^verbatim>\<open>get_tcp_transport\<close>.\<close>

definition get_tcp_transport :: transport where
  "get_tcp_transport = \<lparr>tr_ipv4 = True, tr_tx = True, tr_rx = True\<rparr>"

text \<open>The sequence number of the next message, and the bytes on their way.\<close>

record serdes_state =
  sequence :: "32 word"
  stream :: bytes

text \<open>\<open>sv_send\<close> is the error of \<^verbatim>\<open>send\<close> or the number of bytes that it takes.\<close>

record send_env =
  sv_path_mem :: bool
  sv_mount_mem :: bool
  sv_addr_mem :: bool
  sv_buffer :: bool
  sv_junk :: "nat \<Rightarrow> 8 word"
  sv_send :: "int + nat"

definition tcp_tx :: "int + nat \<Rightarrow> bytes \<Rightarrow> bytes \<Rightarrow> int \<times> bytes" where
  "tcp_tx r buffer str = (case r of Inl _ \<Rightarrow> (-1, str) | Inr n \<Rightarrow> (int (min n (length buffer)), str @ take n buffer))"

text \<open>
  \<open>rv_recv\<close> is the error of \<^verbatim>\<open>recv\<close> or the number of bytes that have arrived, \<open>rv_data\<close> and \<open>rv_path\<close> are what blocks of 64K and 4K
  from the caches hold, and \<open>rv_beyond\<close> is what follows a field of the message in memory.
\<close>

record recv_env =
  rv_temp :: bool
  rv_recv :: "int + nat"
  rv_payload :: bool
  rv_data :: "bytes option"
  rv_path :: "bytes option"
  rv_beyond :: bytes

definition tcp_rx :: "int + nat \<Rightarrow> bytes \<Rightarrow> int \<times> bytes" where
  "tcp_rx r str = (case r of Inl e \<Rightarrow> (- e, []) | Inr n \<Rightarrow> (let b = take (min n SIZEOF_PAYLOAD) str in (int (length b), b)))"

text \<open>\<^verbatim>\<open>_sendrecv_payload\<close> for sending and for receiving.\<close>

definition transport_ok :: "transport \<Rightarrow> 64 word \<Rightarrow> bool" where
  "transport_ok tr handle \<longleftrightarrow> tr_tx tr \<and> tr_rx tr \<and> 0 < handle"

definition send_buffer :: "send_env \<Rightarrow> transport \<Rightarrow> 64 word \<Rightarrow> bytes \<Rightarrow> bytes \<Rightarrow> int \<times> bytes" where
  "send_buffer env tr handle buffer str =
     (if transport_ok tr handle then
        case tcp_tx (sv_send env) buffer str of (ret, str) \<Rightarrow>
          (if ret = -1 then case sv_send env of Inl e \<Rightarrow> - e | Inr _ \<Rightarrow> 0 else 0, str)
      else (- EINVAL, str))"

definition recv_buffer :: "recv_env \<Rightarrow> transport \<Rightarrow> 64 word \<Rightarrow> bytes \<Rightarrow> int \<times> bytes" where
  "recv_buffer env tr handle str = (if transport_ok tr handle then tcp_rx (rv_recv env) str else (- EINVAL, []))"

section \<open>Sending\<close>

text \<open>A malloc'ed copy of a string, as long as the string, and one of a given size with its end.\<close>

definition copy_string :: "bool \<Rightarrow> string \<Rightarrow> bytes exec" where
  "copy_string ok t = (if ok \<or> t = [] then Inr (str_bytes t) else Inl Null_Deref)"

definition copy_address :: "bool \<Rightarrow> (nat \<Rightarrow> 8 word) \<Rightarrow> nat \<Rightarrow> string \<Rightarrow> bytes exec" where
  "copy_address ok junk n t =
     (if \<not> ok then Inl Null_Deref
      else if n \<le> length t then Inl Bad_Access
      else Inr (str_bytes t @ 0 # map junk [length t + 1..<n]))"

text \<open>The storage commands; the address is sent in the family of the transport.\<close>

definition send_storage :: "send_env \<Rightarrow> transport \<Rightarrow> pb_payload \<Rightarrow> payload_t \<Rightarrow> pb_payload exec" where
  "send_storage env tr msg payload =
     (let st = py_storage payload in
      exec_bind (copy_string (sv_path_mem env) (sr_path st)) (\<lambda>path.
      exec_bind (copy_string (sv_mount_mem env) (sr_mount_point st)) (\<lambda>mount_point.
      exec_bind (copy_address (sv_addr_mem env) (sv_junk env) (if tr_ipv4 tr then IPV4_ADDR_MAX else IPV6_ADDR_MAX) (sr_address st)) (\<lambda>a.
      let addr = (if tr_ipv4 tr then \<lparr>pa_protocol = IPV4, pa_ipv4_address = Some a, pa_ipv6_address = None\<rparr>
            else \<lparr>pa_protocol = IPV6, pa_ipv4_address = None, pa_ipv6_address = Some a\<rparr>)
      in Inr (msg\<lparr>pm_command := py_command payload,
           pm_storage := Some \<lparr>pg_path = path, pg_mount_point = mount_point, pg_weight = sr_weight st, pg_nblocks = sr_nblocks st,
             pg_protocol = sr_protocol st, pg_num_chunks_written = sr_num_chunks_written st, pg_address = addr\<rparr>\<rparr>)))))"

text \<open>
  A name that is copied to the place of the pointer to it: only an empty one leaves the message intact.
\<close>

definition overwrite_name :: "protobuf \<Rightarrow> 32 word \<Rightarrow> pb_file_name exec" where
  "overwrite_name pb len =
     (if len \<noteq> 0 then Inl Bad_Access
      else Inr \<lparr>pf_name_len = 0, pf_name = [], pf_proto = pb_first_proto pb, pf_address = None\<rparr>)"

definition send_lookup :: "protobuf \<Rightarrow> pb_payload \<Rightarrow> payload_t \<Rightarrow> pb_payload exec" where
  "send_lookup pb msg payload =
     (let c = py_command_struct payload in
      exec_bind (overwrite_name pb (ucast (fh_name_len (cs_where c)))) (\<lambda>where.
      exec_bind (overwrite_name pb (ucast (fh_name_len (cs_what c)))) (\<lambda>what.
      Inr (msg\<lparr>pm_command := NFS_LOOKUP, pm_command_struct := Some (pb_command_init\<lparr>pc_lookup_cmd := Some (where, what)\<rparr>)\<rparr>))))"

definition send_access :: "pb_payload \<Rightarrow> payload_t \<Rightarrow> pb_payload exec" where
  "send_access msg payload =
     Inr (msg\<lparr>pm_command := NFS_ACCESS,
       pm_command_struct := Some (pb_command_init\<lparr>pc_access_cmd := Some (cs_access_mode (py_command_struct payload))\<rparr>)\<rparr>)"

text \<open>A policy entry; with plugins the code stores through a null pointer.\<close>

definition send_policy :: "policy_t \<Rightarrow> pb_policy_entry exec" where
  "send_policy pe =
     (let a = pe_attr pe; n = ucast (pe_num_plugins pe) in
      if n \<noteq> (0 :: 32 word) then Inl Null_Deref
      else
        Inr \<lparr>pp_attr = \<lparr>pt_ver = at_ver a, pt_qoslevel = ucast (at_qoslevel a), pt_ishidden = ucast (at_ishidden a),
               pt_numreplicas = ucast (at_numreplicas a), pt_enable_dr = ucast (at_enable_dr a)\<rparr>,
             pp_num_plugins = n, pp_refcount = pe_refcount pe, pp_lock = pe_lock pe, pp_index = ucast (pst_index pe)\<rparr>)"

text \<open>The first \<^verbatim>\<open>name_len\<close> bytes of the array with the name.\<close>

definition name_bytes :: "(nat \<Rightarrow> 8 word) \<Rightarrow> file_handle \<Rightarrow> bytes exec" where
  "name_bytes junk h =
     (if PATH_MAX < unat (fh_name_len h) then Inl Bad_Access
      else Inr (take (unat (fh_name_len h)) (str_bytes (fh_name h) @ 0 # map junk [length (fh_name h) + 1..<PATH_MAX])))"

definition send_read :: "send_env \<Rightarrow> pb_payload \<Rightarrow> payload_t \<Rightarrow> pb_payload exec" where
  "send_read env msg payload =
     (let c = py_command_struct payload; h = cs_extent_handle c; r = cs_read_cmd c in
      exec_bind (send_policy (rc_pe r)) (\<lambda>pe.
      exec_bind (name_bytes (sv_junk env) h) (\<lambda>name.
      Inr (msg\<lparr>pm_command := NFS_READ, pm_command_struct := Some (pb_command_init\<lparr>
        pc_extent_handle := Some \<lparr>pf_name_len = ucast (fh_name_len h), pf_name = name, pf_proto = fh_proto h,
          pf_address = Some \<lparr>pa_protocol = na_protocol (fh_address h), pa_ipv4_address = Some (str_bytes (na_address (fh_address h))),
            pa_ipv6_address = None\<rparr>\<rparr>,
        pc_read_cmd := Some \<lparr>pr_inode_no = rc_inode_no r, pr_offset = rc_offset r, pr_count = rc_count r,
          pr_read_ecode = rc_read_ecode r, pr_pe = pe\<rparr>\<rparr>)\<rparr>))))"

text \<open>The bytes of a block that is passed on by its pointer.\<close>

definition send_data :: "data_t \<Rightarrow> pb_data exec" where
  "send_data d =
     (let n = unat (data_len d) in
      case data_buf d of
        None \<Rightarrow> if n = 0 then Inr \<lparr>pd_len = 0, pd_buf = []\<rparr> else Inl Null_Deref
      | Some b \<Rightarrow> if length b < n then Inl Bad_Access else Inr \<lparr>pd_len = data_len d, pd_buf = take n b\<rparr>)"

definition send_write :: "pb_payload \<Rightarrow> payload_t \<Rightarrow> pb_payload exec" where
  "send_write msg payload =
     (let w = cs_write_cmd (py_command_struct payload) in
      exec_bind (send_policy (wc_pe w)) (\<lambda>pe.
      exec_bind (send_data (wc_data w)) (\<lambda>data.
      Inr (msg\<lparr>pm_command := NFS_WRITE, pm_hdr := (pm_hdr msg)\<lparr>ph_payload_len := of_nat SIZEOF_PAYLOAD\<rparr>,
        pm_command_struct := Some (pb_command_init\<lparr>pc_write_cmd := Some \<lparr>pw_inode_no = wc_inode_no w, pw_offset = wc_offset w,
          pw_count = wc_count w, pw_data = data, pw_pe = pe\<rparr>\<rparr>)\<rparr>))))"

definition send_mkdir :: "pb_payload \<Rightarrow> payload_t \<Rightarrow> pb_payload exec" where
  "send_mkdir msg payload =
     Inr (msg\<lparr>pm_command := NFS_MKDIR,
       pm_command_struct := Some (pb_command_init\<lparr>pc_mkdir_cmd := Some (cs_mkdir_mode (py_command_struct payload))\<rparr>)\<rparr>)"

definition send_symlink :: "protobuf \<Rightarrow> pb_payload \<Rightarrow> payload_t \<Rightarrow> pb_payload exec" where
  "send_symlink pb msg payload =
     exec_bind (overwrite_name pb (ucast (fh_name_len (cs_new_path (py_command_struct payload))))) (\<lambda>n.
     Inr (msg\<lparr>pm_command := NFS_SYMLINK, pm_command_struct := Some (pb_command_init\<lparr>pc_symlink_cmd := Some n\<rparr>)\<rparr>))"

definition send_rename :: "protobuf \<Rightarrow> pb_payload \<Rightarrow> payload_t \<Rightarrow> pb_payload exec" where
  "send_rename pb msg payload =
     exec_bind (overwrite_name pb (ucast (fh_name_len (cs_new_path (py_command_struct payload))))) (\<lambda>n.
     Inr (msg\<lparr>pm_command := NFS_RENAME, pm_command_struct := Some (pb_command_init\<lparr>pc_rename_cmd := Some n\<rparr>)\<rparr>))"

definition send_commit :: "pb_payload \<Rightarrow> payload_t \<Rightarrow> pb_payload exec" where
  "send_commit msg payload =
     (let c = py_command_struct payload in
      Inr (msg\<lparr>pm_command := NFS_COMMIT,
        pm_command_struct := Some (pb_command_init\<lparr>pc_commit_cmd := Some (cs_commit_offset c, cs_commit_count c)\<rparr>)\<rparr>))"

text \<open>The responses; where the command is not set, the message has the first command.\<close>

definition send_status :: "pb_payload \<Rightarrow> payload_t \<Rightarrow> pb_payload exec" where
  "send_status msg payload =
     (let r = py_response_struct payload in
      Inr (msg\<lparr>pm_command := py_command payload, pm_hdr := (pm_hdr msg)\<lparr>ph_payload_len := of_nat SIZEOF_PAYLOAD\<rparr>,
        pm_response_struct := Some (pb_response_init\<lparr>ps_command_ok := ro_command_ok r, ps_handle := ro_handle r\<rparr>)\<rparr>))"

definition send_lookup_rsp :: "pb_payload \<Rightarrow> payload_t \<Rightarrow> pb_payload exec" where
  "send_lookup_rsp msg payload =
     (let r = py_response_struct payload in
      case ro_lookup_path r of None \<Rightarrow> Inl Null_Deref | Some path \<Rightarrow>
      if path \<noteq> [] then Inl Bad_Access
      else Inr (msg\<lparr>pm_response_struct := Some (pb_response_init\<lparr>ps_lookup_resp := Some (ucast (ro_lookup_path_len r), [])\<rparr>)\<rparr>))"

definition send_access_rsp :: "pb_payload \<Rightarrow> payload_t \<Rightarrow> pb_payload exec" where
  "send_access_rsp msg payload =
     Inr (msg\<lparr>pm_response_struct := Some (pb_response_init\<lparr>ps_access_resp := Some (ro_access (py_response_struct payload))\<rparr>)\<rparr>)"

definition send_read_rsp :: "pb_payload \<Rightarrow> payload_t \<Rightarrow> pb_payload exec" where
  "send_read_rsp msg payload =
     (let r = py_response_struct payload in
      exec_bind (send_data (ro_data r)) (\<lambda>data.
      Inr (msg\<lparr>pm_command := NFS_READ_RSP,
        pm_response_struct := Some (pb_response_init\<lparr>ps_command_ok := ro_command_ok r,
          ps_read_resp := Some \<lparr>px_count = ro_count r, px_eof = ro_eof r, px_data = data\<rparr>\<rparr>)\<rparr>)))"

definition send_write_rsp :: "pb_payload \<Rightarrow> payload_t \<Rightarrow> pb_payload exec" where
  "send_write_rsp msg payload =
     (let r = py_response_struct payload in
      Inr (msg\<lparr>pm_command := NFS_WRITE_RSP,
        pm_response_struct := Some (pb_response_init\<lparr>ps_write_resp := Some (ro_command_ok r, ro_file_wc r)\<rparr>)\<rparr>))"

definition send_readlink_rsp :: "protobuf \<Rightarrow> pb_payload \<Rightarrow> payload_t \<Rightarrow> pb_payload exec" where
  "send_readlink_rsp pb msg payload =
     (let f = ro_real_file (py_response_struct payload) in
      if fh_name f \<noteq> [] then Inl Bad_Access
      else
        Inr (msg\<lparr>pm_response_struct := Some (pb_response_init\<lparr>ps_readlink_resp :=
          Some \<lparr>pf_name_len = ucast (fh_name_len f), pf_name = [], pf_proto = pb_first_proto pb, pf_address = None\<rparr>\<rparr>)\<rparr>))"

definition send_create_rsp :: "pb_payload \<Rightarrow> payload_t \<Rightarrow> pb_payload exec" where
  "send_create_rsp msg payload =
     (let r = py_response_struct payload in
      Inr (msg\<lparr>pm_response_struct := Some (pb_response_init\<lparr>ps_create_resp := Some (ro_file_create_ok r, ro_file_wc r)\<rparr>)\<rparr>))"

text \<open>
  The message for a payload, or \<open>None\<close> for a command without a case.  \<^verbatim>\<open>NFS_SETATTR\<close> overwrites the descriptor of the message,
  and \<^verbatim>\<open>NFS_GETATTR_RSP\<close> copies a structure to a smaller one.
\<close>

definition message_of :: "protobuf \<Rightarrow> send_env \<Rightarrow> transport \<Rightarrow> pb_payload \<Rightarrow> payload_t \<Rightarrow> pb_payload option exec" where
  "message_of pb env tr msg payload =
     (let c = py_command payload; sent = (\<lambda>m. exec_bind m (\<lambda>msg. Inr (Some msg))) in
      if storage_command c then sent (send_storage env tr msg payload)
      else if c = NFS_SETATTR then Inl Bad_Access
      else if c = NFS_LOOKUP then sent (send_lookup pb msg payload)
      else if c = NFS_ACCESS then sent (send_access msg payload)
      else if c = NFS_READ then sent (send_read env msg payload)
      else if c = NFS_WRITE then sent (send_write msg payload)
      else if c = NFS_MKDIR then sent (send_mkdir msg payload)
      else if c = NFS_SYMLINK then sent (send_symlink pb msg payload)
      else if c = NFS_RENAME then sent (send_rename pb msg payload)
      else if c = NFS_COMMIT then sent (send_commit msg payload)
      else if status_rsp c then sent (send_status msg payload)
      else if c = NFS_GETATTR_RSP then Inl Bad_Access
      else if c = NFS_LOOKUP_RSP then sent (send_lookup_rsp msg payload)
      else if c = NFS_ACCESS_RSP then sent (send_access_rsp msg payload)
      else if c = NFS_READ_RSP then sent (send_read_rsp msg payload)
      else if c = NFS_WRITE_RSP then sent (send_write_rsp msg payload)
      else if c = NFS_READLINK_RSP then sent (send_readlink_rsp pb msg payload)
      else if c = NFS_CREATE_RSP then sent (send_create_rsp msg payload)
      else Inr None)"

text \<open>The blocks that are given back with a payload that has been sent.\<close>

datatype cache_block = Data_64K | Data_4K | Payload_Block

definition sstack_free_payload :: "payload_t \<Rightarrow> cache_block list" where
  "sstack_free_payload payload =
     (let c = py_command payload in
      if c = NFS_WRITE \<and> data_buf (wc_data (cs_write_cmd (py_command_struct payload))) \<noteq> None then [Data_64K, Payload_Block]
      else if c = NFS_RMDIR \<and> cs_remove_path (py_command_struct payload) \<noteq> None then [Data_4K, Payload_Block]
      else if c = NFS_LOOKUP_RSP \<and> ro_lookup_path (py_response_struct payload) \<noteq> None then [Data_4K, Payload_Block]
      else if c = NFS_READ_RSP \<and> data_buf (ro_data (py_response_struct payload)) \<noteq> None then [Data_64K, Payload_Block]
      else [Payload_Block])"

definition send_message ::
  "protobuf \<Rightarrow> send_env \<Rightarrow> transport \<Rightarrow> 64 word \<Rightarrow> payload_t \<Rightarrow> pb_payload \<Rightarrow> serdes_state \<Rightarrow> int \<times> cache_block list \<times> serdes_state" where
  "send_message pb env tr handle payload msg s =
     (if \<not> sv_buffer env then (- ENOMEM, [], s)
      else
      case send_buffer env tr handle (pb_pack pb msg) (stream s) of (ret, str) \<Rightarrow>
      (- ret, sstack_free_payload payload, s\<lparr>stream := str\<rparr>))"

definition new_message :: "protobuf \<Rightarrow> 32 word \<Rightarrow> 64 word \<Rightarrow> 64 word \<Rightarrow> 32 word \<Rightarrow> pb_payload" where
  "new_message pb seq job_id job priority =
     \<lparr>pm_hdr = \<lparr>ph_sequence = seq, ph_payload_len = of_nat SIZEOF_HDR, ph_job_id = ucast job_id, ph_priority = priority, ph_arg = job\<rparr>,
      pm_command = pb_first pb, pm_storage = None, pm_command_struct = None, pm_response_struct = None\<rparr>"

definition sstack_send_payload ::
  "protobuf \<Rightarrow> send_env \<Rightarrow> 64 word \<Rightarrow> payload_t option \<Rightarrow> transport option \<Rightarrow> 64 word \<Rightarrow> 64 word \<Rightarrow> 32 word \<Rightarrow> serdes_state \<Rightarrow>
   (int \<times> cache_block list \<times> serdes_state) exec" where
  "sstack_send_payload pb env handle payload tr job_id job priority s =
     (case (payload, tr) of
        (Some payload, Some tr) \<Rightarrow>
          if handle = -1 \<or> MAX_OUTSTANDING_JOBS \<le> unat job_id then Inr (- EINVAL, [], s)
          else
          let msg = new_message pb (sequence s) job_id job priority; s = s\<lparr>sequence := sequence s + 1\<rparr> in
          exec_bind (message_of pb env tr msg payload) (\<lambda>r.
          case r of None \<Rightarrow> Inr (0, [], s) | Some msg \<Rightarrow> Inr (send_message pb env tr handle payload msg s))
      | _ \<Rightarrow> Inr (- EINVAL, [], s))"

section \<open>Receiving\<close>

definition field :: "'a option \<Rightarrow> ('a \<Rightarrow> 'b exec) \<Rightarrow> 'b exec" where
  "field x f = (case x of None \<Rightarrow> Inl Null_Deref | Some y \<Rightarrow> f y)"

text \<open>
  \<^verbatim>\<open>strncpy\<close> of the bytes of a field to a cleared array of size \<open>n\<close>, and \<^verbatim>\<open>strcpy\<close>, which also reads what is \<open>beyond\<close> the field.
  An empty field is a null pointer.
\<close>

definition copy_name :: "nat \<Rightarrow> bytes \<Rightarrow> string exec" where
  "copy_name n b = (if n < length b then Inl Bad_Access else Inr (bytes_str b))"

definition copy_beyond :: "bytes \<Rightarrow> nat \<Rightarrow> bytes \<Rightarrow> string exec" where
  "copy_beyond beyond n b =
     (if b = [] then Inl Null_Deref
      else if 0 \<notin> set (b @ beyond) \<or> n \<le> length (bytes_str (b @ beyond)) then Inl Bad_Access
      else Inr (bytes_str (b @ beyond)))"

definition recv_storage :: "recv_env \<Rightarrow> transport \<Rightarrow> pb_payload \<Rightarrow> payload_t \<Rightarrow> payload_t exec" where
  "recv_storage env tr msg payload =
     field (pm_storage msg) (\<lambda>st.
     exec_bind (copy_name PATH_MAX (pg_path st)) (\<lambda>path.
     exec_bind (copy_name MAX_MOUNT_POINT_LEN (pg_mount_point st)) (\<lambda>mount_point.
     exec_bind
       (if tr_ipv4 tr then field (pa_ipv4_address (pg_address st)) (copy_beyond (rv_beyond env) IPV4_ADDR_MAX)
        else field (pa_ipv6_address (pg_address st)) (copy_beyond (rv_beyond env) IPV6_ADDR_MAX)) (\<lambda>address.
     Inr (payload\<lparr>py_storage := (py_storage payload)\<lparr>sr_path := path, sr_mount_point := mount_point, sr_weight := pg_weight st,
       sr_nblocks := pg_nblocks st, sr_protocol := pg_protocol st, sr_address := address\<rparr>\<rparr>)))))"

definition recv_status :: "pb_payload \<Rightarrow> payload_t \<Rightarrow> payload_t exec" where
  "recv_status msg payload =
     field (pm_response_struct msg) (\<lambda>r.
     Inr (payload\<lparr>py_response_struct := (py_response_struct payload)\<lparr>ro_command_ok := ps_command_ok r, ro_handle := ps_handle r\<rparr>\<rparr>))"

definition recv_lookup :: "recv_env \<Rightarrow> pb_payload \<Rightarrow> payload_t \<Rightarrow> payload_t exec" where
  "recv_lookup env msg payload =
     field (pm_command_struct msg) (\<lambda>c. field (pc_lookup_cmd c) (\<lambda>(where, what).
     exec_bind (copy_beyond (rv_beyond env) PATH_MAX (pf_name where)) (\<lambda>name1.
     exec_bind (copy_beyond (rv_beyond env) PATH_MAX (pf_name what)) (\<lambda>name2.
     let c = py_command_struct payload in
     Inr (payload\<lparr>py_command_struct := c\<lparr>cs_where := (cs_where c)\<lparr>fh_name_len := ucast (pf_name_len where), fh_name := name1\<rparr>,
       cs_what := (cs_what c)\<lparr>fh_name := name2\<rparr>\<rparr>\<rparr>)))))"

definition recv_access :: "pb_payload \<Rightarrow> payload_t \<Rightarrow> payload_t exec" where
  "recv_access msg payload =
     field (pm_command_struct msg) (\<lambda>c. field (pc_access_cmd c) (\<lambda>mode.
     Inr (payload\<lparr>py_command_struct := (py_command_struct payload)\<lparr>cs_access_mode := mode\<rparr>\<rparr>)))"

text \<open>
  A policy entry.  The attributes are copied as a block of 12 bytes from a structure whose first three members are the version,
  the level and the flag, of 4 bytes each, to one with the version and the quota, of 4 bytes, and four members of one byte.
\<close>

definition recv_policy :: "pb_policy_entry \<Rightarrow> policy_t \<Rightarrow> policy_t exec" where
  "recv_policy entry pe =
     (if pp_num_plugins entry \<noteq> 0 then Inl Null_Deref
      else
      let a = pp_attr entry in
      Inr (pe\<lparr>pe_attr := \<lparr>at_ver = pt_ver a, at_quota = pt_qoslevel a, at_qoslevel = ucast (pt_ishidden a),
          at_ishidden = ucast (drop_bit 8 (pt_ishidden a)), at_numreplicas = ucast (drop_bit 16 (pt_ishidden a)),
          at_enable_dr = ucast (drop_bit 24 (pt_ishidden a))\<rparr>,
        pe_num_plugins := 0, pe_refcount := pp_refcount entry, pe_lock := pp_lock entry, pst_index := ucast (pp_index entry)\<rparr>))"

text \<open>The handle of an extent: 16 bytes are copied of an address that may be shorter.\<close>

definition copy_ipv4 :: "bytes \<Rightarrow> bytes \<Rightarrow> string exec" where
  "copy_ipv4 beyond b =
     (if b = [] then Inl Null_Deref
      else if 0 \<notin> set (b @ beyond) \<and> length (b @ beyond) < IPV4_ADDR_MAX then Inl Bad_Access
      else Inr (bytes_str (take IPV4_ADDR_MAX (b @ beyond))))"

definition recv_handle :: "recv_env \<Rightarrow> pb_file_name \<Rightarrow> file_handle \<Rightarrow> file_handle exec" where
  "recv_handle env f h =
     exec_bind (copy_name PATH_MAX (pf_name f)) (\<lambda>name.
     field (pf_address f) (\<lambda>a.
     exec_bind (case pa_ipv4_address a of None \<Rightarrow> Inr (na_address (fh_address h)) | Some b \<Rightarrow> copy_ipv4 (rv_beyond env) b) (\<lambda>address.
     Inr \<lparr>fh_name_len = of_nat (length (pf_name f)), fh_name = name, fh_proto = pf_proto f,
       fh_address = \<lparr>na_protocol = pa_protocol a, na_address = address\<rparr>\<rparr>)))"

definition recv_read :: "recv_env \<Rightarrow> pb_payload \<Rightarrow> payload_t \<Rightarrow> payload_t exec" where
  "recv_read env msg payload =
     field (pm_command_struct msg) (\<lambda>m. field (pc_read_cmd m) (\<lambda>r.
     let c = py_command_struct payload in
     exec_bind (recv_policy (pr_pe r) (rc_pe (cs_read_cmd c))) (\<lambda>pe.
     field (pc_extent_handle m) (\<lambda>f.
     exec_bind (recv_handle env f (cs_extent_handle c)) (\<lambda>h.
     Inr (payload\<lparr>py_command_struct := c\<lparr>cs_extent_handle := h,
       cs_read_cmd := \<lparr>rc_inode_no = pr_inode_no r, rc_offset = pr_offset r, rc_count = pr_count r,
         rc_read_ecode = pr_read_ecode r, rc_pe = pe\<rparr>\<rparr>\<rparr>))))))"

text \<open>\<^verbatim>\<open>memcpy\<close> of \<open>n\<close> bytes of a field to a block.\<close>

definition copy_data :: "nat \<Rightarrow> bytes \<Rightarrow> bytes option \<Rightarrow> bytes option exec" where
  "copy_data n b dst =
     (case dst of
        None \<Rightarrow> if n = 0 then Inr None else Inl Null_Deref
      | Some d \<Rightarrow> if length b < n \<or> length d < n then Inl Bad_Access else Inr (Some (take n b @ drop n d)))"

definition recv_write :: "pb_payload \<Rightarrow> payload_t \<Rightarrow> payload_t exec" where
  "recv_write msg payload =
     field (pm_command_struct msg) (\<lambda>m. field (pc_write_cmd m) (\<lambda>w.
     let c = py_command_struct payload; d = wc_data (cs_write_cmd c) in
     exec_bind (copy_data (unat (pd_len (pw_data w))) (pd_buf (pw_data w)) (data_buf d)) (\<lambda>buf.
     exec_bind (recv_policy (pw_pe w) (wc_pe (cs_write_cmd c))) (\<lambda>pe.
     Inr (payload\<lparr>py_command_struct := c\<lparr>cs_write_cmd := \<lparr>wc_inode_no = pw_inode_no w, wc_offset = pw_offset w,
       wc_count = pw_count w, wc_data = \<lparr>data_len = pd_len (pw_data w), data_buf = buf\<rparr>, wc_pe = pe\<rparr>\<rparr>\<rparr>)))))"

definition recv_mkdir :: "pb_payload \<Rightarrow> payload_t \<Rightarrow> payload_t exec" where
  "recv_mkdir msg payload =
     field (pm_command_struct msg) (\<lambda>c. field (pc_mkdir_cmd c) (\<lambda>mode.
     Inr (payload\<lparr>py_command_struct := (py_command_struct payload)\<lparr>cs_mkdir_mode := mode\<rparr>\<rparr>)))"

definition recv_new_path :: "recv_env \<Rightarrow> (pb_command_struct \<Rightarrow> pb_file_name option) \<Rightarrow> pb_payload \<Rightarrow> payload_t \<Rightarrow> payload_t exec" where
  "recv_new_path env sel msg payload =
     field (pm_command_struct msg) (\<lambda>m. field (sel m) (\<lambda>f.
     exec_bind (copy_beyond (rv_beyond env) PATH_MAX (pf_name f)) (\<lambda>name.
     let c = py_command_struct payload in
     Inr (payload\<lparr>py_command_struct := c\<lparr>cs_new_path := (cs_new_path c)\<lparr>fh_name_len := ucast (pf_name_len f), fh_name := name\<rparr>\<rparr>\<rparr>))))"

definition recv_symlink :: "recv_env \<Rightarrow> pb_payload \<Rightarrow> payload_t \<Rightarrow> payload_t exec" where
  "recv_symlink env = recv_new_path env pc_symlink_cmd"

definition recv_rename :: "recv_env \<Rightarrow> pb_payload \<Rightarrow> payload_t \<Rightarrow> payload_t exec" where
  "recv_rename env = recv_new_path env pc_rename_cmd"

definition recv_commit :: "pb_payload \<Rightarrow> payload_t \<Rightarrow> payload_t exec" where
  "recv_commit msg payload =
     field (pm_command_struct msg) (\<lambda>c. field (pc_commit_cmd c) (\<lambda>(offset, count).
     Inr (payload\<lparr>py_command_struct := (py_command_struct payload)\<lparr>cs_commit_offset := offset, cs_commit_count := count\<rparr>\<rparr>)))"

definition recv_lookup_rsp :: "pb_payload \<Rightarrow> payload_t \<Rightarrow> bytes option \<Rightarrow> payload_t exec" where
  "recv_lookup_rsp msg payload path =
     field (pm_response_struct msg) (\<lambda>r. field (ps_lookup_resp r) (\<lambda>(len, b).
     exec_bind (copy_data (length b) b path) (\<lambda>path.
     Inr (payload\<lparr>py_response_struct := (py_response_struct payload)\<lparr>ro_command_ok := ps_command_ok r, ro_handle := ps_handle r,
       ro_lookup_path_len := ucast len, ro_lookup_path := map_option bytes_str path\<rparr>\<rparr>))))"

definition recv_access_rsp :: "pb_payload \<Rightarrow> payload_t \<Rightarrow> payload_t exec" where
  "recv_access_rsp msg payload =
     field (pm_response_struct msg) (\<lambda>r. field (ps_access_resp r) (\<lambda>a.
     Inr (payload\<lparr>py_response_struct := (py_response_struct payload)\<lparr>ro_command_ok := ps_command_ok r, ro_handle := ps_handle r,
       ro_access := a\<rparr>\<rparr>)))"

definition recv_readlink_rsp :: "pb_payload \<Rightarrow> payload_t \<Rightarrow> payload_t exec" where
  "recv_readlink_rsp msg payload =
     field (pm_response_struct msg) (\<lambda>r. field (ps_readlink_resp r) (\<lambda>f.
     exec_bind (copy_name PATH_MAX (pf_name f)) (\<lambda>name.
     let p = py_response_struct payload in
     Inr (payload\<lparr>py_response_struct := p\<lparr>ro_command_ok := ps_command_ok r, ro_handle := ps_handle r,
       ro_real_file := (ro_real_file p)\<lparr>fh_name_len := ucast (pf_name_len f), fh_name := name\<rparr>\<rparr>\<rparr>))))"

definition recv_read_rsp :: "pb_payload \<Rightarrow> payload_t \<Rightarrow> payload_t exec" where
  "recv_read_rsp msg payload =
     field (pm_response_struct msg) (\<lambda>r. field (ps_read_resp r) (\<lambda>x.
     let p = py_response_struct payload in
     exec_bind (copy_data (length (pd_buf (px_data x))) (pd_buf (px_data x)) (data_buf (ro_data p))) (\<lambda>buf.
     Inr (payload\<lparr>py_response_struct := p\<lparr>ro_command_ok := ps_command_ok r, ro_handle := ps_handle r, ro_count := px_count x,
       ro_eof := px_eof x, ro_data := \<lparr>data_len = pd_len (px_data x), data_buf = buf\<rparr>\<rparr>\<rparr>))))"

definition recv_write_rsp :: "pb_payload \<Rightarrow> payload_t \<Rightarrow> payload_t exec" where
  "recv_write_rsp msg payload =
     field (pm_response_struct msg) (\<lambda>r. field (ps_write_resp r) (\<lambda>(ok, wc).
     Inr (payload\<lparr>py_response_struct := (py_response_struct payload)\<lparr>ro_command_ok := ok, ro_handle := ps_handle r,
       ro_file_create_ok := ok, ro_file_wc := wc\<rparr>\<rparr>)))"

definition recv_create_rsp :: "pb_payload \<Rightarrow> payload_t \<Rightarrow> payload_t exec" where
  "recv_create_rsp msg payload =
     field (pm_response_struct msg) (\<lambda>r. field (ps_create_resp r) (\<lambda>(ok, wc).
     Inr (payload\<lparr>py_response_struct := (py_response_struct payload)\<lparr>ro_command_ok := ps_command_ok r, ro_handle := ps_handle r,
       ro_file_create_ok := ok, ro_file_wc := wc\<rparr>\<rparr>)))"

text \<open>A new payload, cleared before the result of the allocation is checked, with the blocks that its command needs.\<close>

definition sstack_create_payload :: "recv_env \<Rightarrow> sstack_command_t \<Rightarrow> payload_t option exec" where
  "sstack_create_payload env c =
     (if \<not> rv_payload env then Inl Null_Deref
      else
      let p = clear_payload c in
      if c = NFS_WRITE then
        case rv_data env of None \<Rightarrow> Inr None | Some b \<Rightarrow>
        let cs = py_command_struct p; w = cs_write_cmd cs in
        Inr (Some (p\<lparr>py_command_struct := cs\<lparr>cs_write_cmd := w\<lparr>wc_data := \<lparr>data_len = 0, data_buf = Some b\<rparr>\<rparr>\<rparr>\<rparr>))
      else if c = NFS_READ_RSP then
        case rv_data env of None \<Rightarrow> Inr None | Some b \<Rightarrow>
        Inr (Some (p\<lparr>py_response_struct := (py_response_struct p)\<lparr>ro_data := \<lparr>data_len = 0, data_buf = Some b\<rparr>\<rparr>\<rparr>))
      else if c = NFS_RMDIR then
        case rv_path env of None \<Rightarrow> Inr None | Some b \<Rightarrow>
        Inr (Some (p\<lparr>py_command_struct := (py_command_struct p)\<lparr>cs_remove_path := Some b\<rparr>\<rparr>))
      else if c = NFS_LOOKUP_RSP then
        case rv_path env of None \<Rightarrow> Inr None | Some b \<Rightarrow>
        Inr (Some (p\<lparr>py_response_struct := (py_response_struct p)\<lparr>ro_lookup_path := Some (bytes_str b)\<rparr>\<rparr>))
      else Inr (Some p))"

text \<open>
  The payload for a message, or \<open>None\<close> for a command without a case.  No message has the fields of \<^verbatim>\<open>NFS_SETATTR\<close> and of
  \<^verbatim>\<open>NFS_GETATTR_RSP\<close>.
\<close>

definition payload_of :: "recv_env \<Rightarrow> transport \<Rightarrow> pb_payload \<Rightarrow> payload_t \<Rightarrow> payload_t option exec" where
  "payload_of env tr msg payload =
     (let c = pm_command msg; got = (\<lambda>m. exec_bind m (\<lambda>p. Inr (Some p))) in
      if storage_command c then got (recv_storage env tr msg payload)
      else if status_rsp c then got (recv_status msg payload)
      else if c = NFS_SETATTR \<or> c = NFS_GETATTR_RSP then Inl Null_Deref
      else if c = NFS_LOOKUP then got (recv_lookup env msg payload)
      else if c = NFS_ACCESS then got (recv_access msg payload)
      else if c = NFS_READ then got (recv_read env msg payload)
      else if c = NFS_WRITE then got (recv_write msg payload)
      else if c = NFS_MKDIR then got (recv_mkdir msg payload)
      else if c = NFS_SYMLINK then got (recv_symlink env msg payload)
      else if c = NFS_RENAME then got (recv_rename env msg payload)
      else if c = NFS_COMMIT then got (recv_commit msg payload)
      else if c = NFS_LOOKUP_RSP then got (recv_lookup_rsp msg payload (rv_path env))
      else if c = NFS_ACCESS_RSP then got (recv_access_rsp msg payload)
      else if c = NFS_READLINK_RSP then got (recv_readlink_rsp msg payload)
      else if c = NFS_READ_RSP then got (recv_read_rsp msg payload)
      else if c = NFS_WRITE_RSP then got (recv_write_rsp msg payload)
      else if c = NFS_CREATE_RSP then got (recv_create_rsp msg payload)
      else Inr None)"

definition recv_hdr :: "pb_hdr \<Rightarrow> hdr_t" where
  "recv_hdr h = \<lparr>hd_sequence = ph_sequence h, hd_payload_len = ph_payload_len h, hd_job_id = scast (ph_job_id h),
     hd_priority = ph_priority h, hd_arg = ph_arg h\<rparr>"

text \<open>
  Of the errors of the transport only -1 is recognised; any other one is taken for the length of the message.
\<close>

definition sstack_recv_payload ::
  "protobuf \<Rightarrow> recv_env \<Rightarrow> 64 word \<Rightarrow> transport option \<Rightarrow> serdes_state \<Rightarrow> (payload_t option \<times> serdes_state) exec" where
  "sstack_recv_payload pb env handle tr s =
     (case tr of None \<Rightarrow> Inr (None, s) | Some tr \<Rightarrow>
      if handle = -1 \<or> \<not> rv_temp env then Inr (None, s)
      else
      case recv_buffer env tr handle (stream s) of (payload_len, buffer) \<Rightarrow>
      let s = s\<lparr>stream := drop (length buffer) (stream s)\<rparr> in
      if payload_len = -1 then Inr (None, s)
      else if payload_len < 0 then Inl Bad_Access
      else
      field (pb_unpack pb buffer) (\<lambda>msg.
      exec_bind (sstack_create_payload env (pm_command msg)) (\<lambda>p.
      case p of None \<Rightarrow> Inr (None, s) | Some p \<Rightarrow>
      exec_bind (payload_of env tr msg (p\<lparr>py_hdr := recv_hdr (pm_hdr msg), py_command := pm_command msg\<rparr>)) (\<lambda>p. Inr (p, s)))))"

section \<open>Delivery\<close>

text \<open>A message that survives packing and fits into the buffer it is received in, which has 12496 bytes.\<close>

definition carried :: "protobuf \<Rightarrow> pb_payload \<Rightarrow> bool" where
  "carried pb msg \<longleftrightarrow> pb_unpack pb (pb_pack pb msg) = Some msg \<and> length (pb_pack pb msg) \<le> SIZEOF_PAYLOAD"

text \<open>
  Both ends of a connection have memory and a transport, nothing is on its way, and \<^verbatim>\<open>send\<close> and \<^verbatim>\<open>recv\<close> pass on a whole
  message.
\<close>

record link =
  lk_send :: send_env
  lk_recv :: recv_env
  lk_from :: transport
  lk_to :: transport
  lk_handle :: "64 word"
  lk_handle' :: "64 word"

definition link_ok :: "link \<Rightarrow> bool" where
  "link_ok l \<longleftrightarrow> transport_ok (lk_from l) (lk_handle l) \<and> transport_ok (lk_to l) (lk_handle' l) \<and>
     tr_ipv4 (lk_from l) = tr_ipv4 (lk_to l) \<and> lk_handle l \<noteq> -1 \<and> lk_handle' l \<noteq> -1 \<and>
     sv_path_mem (lk_send l) \<and> sv_mount_mem (lk_send l) \<and> sv_addr_mem (lk_send l) \<and> sv_buffer (lk_send l) \<and>
     (\<exists>n \<ge> SIZEOF_PAYLOAD. sv_send (lk_send l) = Inr n) \<and>
     rv_temp (lk_recv l) \<and> rv_payload (lk_recv l) \<and> (\<exists>n \<ge> SIZEOF_PAYLOAD. rv_recv (lk_recv l) = Inr n) \<and>
     (\<exists>b. rv_data (lk_recv l) = Some b \<and> length b = 65536)"

text \<open>Sending a payload and receiving it at the other end.\<close>

definition transmit ::
  "protobuf \<Rightarrow> link \<Rightarrow> payload_t \<Rightarrow> 64 word \<Rightarrow> 64 word \<Rightarrow> 32 word \<Rightarrow> serdes_state \<Rightarrow> (int \<times> payload_t option \<times> serdes_state) exec" where
  "transmit pb l p job_id job priority s =
     exec_bind (sstack_send_payload pb (lk_send l) (lk_handle l) (Some p) (Some (lk_from l)) job_id job priority s) (\<lambda>(r, _, s).
     exec_bind (sstack_recv_payload pb (lk_recv l) (lk_handle' l) (Some (lk_to l)) s) (\<lambda>(q, s). Inr (r, q, s)))"

definition first_message :: "protobuf \<Rightarrow> link \<Rightarrow> payload_t \<Rightarrow> 64 word \<Rightarrow> 64 word \<Rightarrow> 32 word \<Rightarrow> serdes_state \<Rightarrow> pb_payload option exec" where
  "first_message pb l p job_id job priority s =
     message_of pb (lk_send l) (lk_from l) (new_message pb (sequence s) job_id job priority) p"

lemma transmit_ok:
  assumes l: "link_ok l" and msg: "first_message pb l p job_id job priority s = Inr (Some msg)" "carried pb msg"
    and s: "stream s = []" "unat job_id < MAX_OUTSTANDING_JOBS"
    and q: "sstack_create_payload (lk_recv l) (pm_command msg) = Inr (Some q0)"
      "payload_of (lk_recv l) (lk_to l) msg (q0\<lparr>py_hdr := recv_hdr (pm_hdr msg), py_command := pm_command msg\<rparr>) = Inr (Some q)"
  shows "transmit pb l p job_id job priority s = Inr (0, Some q, s\<lparr>sequence := sequence s + 1\<rparr>)"
proof -
  let ?b = "pb_pack pb msg"
  obtain n n' where n: "SIZEOF_PAYLOAD \<le> n" "sv_send (lk_send l) = Inr n" "SIZEOF_PAYLOAD \<le> n'" "rv_recv (lk_recv l) = Inr n'"
    using l by (auto simp: link_ok_def)
  have fits: "length ?b \<le> SIZEOF_PAYLOAD" "pb_unpack pb ?b = Some msg" using msg(2) by (simp_all add: carried_def)
  have "send_buffer (lk_send l) (lk_from l) (lk_handle l) ?b [] = (0, ?b)"
    using l n fits by (simp add: send_buffer_def tcp_tx_def link_ok_def)
  then have snd: "sstack_send_payload pb (lk_send l) (lk_handle l) (Some p) (Some (lk_from l)) job_id job priority s =
      Inr (0, sstack_free_payload p, s\<lparr>sequence := sequence s + 1, stream := ?b\<rparr>)"
    using l msg(1) s by (simp add: sstack_send_payload_def first_message_def Let_def send_message_def link_ok_def)
  have "recv_buffer (lk_recv l) (lk_to l) (lk_handle' l) ?b = (int (length ?b), ?b)"
    using l n fits by (simp add: recv_buffer_def tcp_rx_def Let_def link_ok_def)
  then have "sstack_recv_payload pb (lk_recv l) (lk_handle' l) (Some (lk_to l)) (s\<lparr>sequence := sequence s + 1, stream := ?b\<rparr>) =
      Inr (Some q, s\<lparr>sequence := sequence s + 1, stream := []\<rparr>)"
    using l fits q by (simp add: sstack_recv_payload_def field_def Let_def link_ok_def)
  then show ?thesis using snd s(1) by (simp add: transmit_def)
qed

section \<open>Requests\<close>

definition storage_fits :: "storage_t \<Rightarrow> bool" where
  "storage_fits st \<longleftrightarrow> c_string (sr_path st) \<and> length (sr_path st) < PATH_MAX \<and>
     c_string (sr_mount_point st) \<and> length (sr_mount_point st) < MAX_MOUNT_POINT_LEN \<and>
     c_string (sr_address st) \<and> length (sr_address st) < IPV4_ADDR_MAX"

text \<open>A handle whose name is not cut, and whose address is followed by a zero in the memory of the receiver.\<close>

definition handle_ok :: "recv_env \<Rightarrow> file_handle \<Rightarrow> bool" where
  "handle_ok env h \<longleftrightarrow> c_string (fh_name h) \<and> length (fh_name h) < PATH_MAX \<and>
     length (fh_name h) \<le> unat (fh_name_len h) \<and> unat (fh_name_len h) \<le> PATH_MAX \<and>
     c_string (na_address (fh_address h)) \<and> na_address (fh_address h) \<noteq> [] \<and> length (na_address (fh_address h)) < IPV4_ADDR_MAX \<and>
     rv_beyond env \<noteq> [] \<and> hd (rv_beyond env) = 0"

definition data_ok :: "data_t \<Rightarrow> bool" where
  "data_ok d \<longleftrightarrow> (\<exists>b. data_buf d = Some b \<and> unat (data_len d) \<le> length b \<and> unat (data_len d) \<le> 65536)"

definition data_bytes :: "data_t \<Rightarrow> bytes" where
  "data_bytes d = take (unat (data_len d)) (case data_buf d of None \<Rightarrow> [] | Some b \<Rightarrow> b)"

definition request_ok :: "recv_env \<Rightarrow> payload_t \<Rightarrow> bool" where
  "request_ok env p \<longleftrightarrow>
     (let c = py_command_struct p in
      storage_command (py_command p) \<and> storage_fits (py_storage p) \<or>
      py_command p = NFS_READ \<and> pe_num_plugins (rc_pe (cs_read_cmd c)) = 0 \<and> handle_ok env (cs_extent_handle c) \<or>
      py_command p = NFS_WRITE \<and> pe_num_plugins (wc_pe (cs_write_cmd c)) = 0 \<and> data_ok (wc_data (cs_write_cmd c)))"

text \<open>What has been sent and what has arrived.\<close>

definition same_storage :: "payload_t \<Rightarrow> payload_t \<Rightarrow> bool" where
  "same_storage p q \<longleftrightarrow> py_storage q = (py_storage p)\<lparr>sr_num_chunks_written := 0, sr_family := None\<rparr>"

definition same_read :: "payload_t \<Rightarrow> payload_t \<Rightarrow> bool" where
  "same_read p q \<longleftrightarrow>
     (let c = py_command_struct p; d = py_command_struct q; pe = rc_pe (cs_read_cmd d) in
      cs_extent_handle d = cs_extent_handle c \<and> cs_read_cmd d = (cs_read_cmd c)\<lparr>rc_pe := pe\<rparr> \<and> pe_num_plugins pe = 0)"

definition same_write :: "payload_t \<Rightarrow> payload_t \<Rightarrow> bool" where
  "same_write p q \<longleftrightarrow>
     (let w = cs_write_cmd (py_command_struct p); x = cs_write_cmd (py_command_struct q) in
      wc_inode_no x = wc_inode_no w \<and> wc_offset x = wc_offset w \<and> wc_count x = wc_count w \<and>
      data_len (wc_data x) = data_len (wc_data w) \<and> data_bytes (wc_data x) = data_bytes (wc_data w) \<and>
      pe_num_plugins (wc_pe x) = 0 \<and> cs_extent_handle (py_command_struct q) = clear_handle)"

definition same_request :: "payload_t \<Rightarrow> payload_t \<Rightarrow> bool" where
  "same_request p q \<longleftrightarrow> py_command q = py_command p \<and>
     (if storage_command (py_command p) then same_storage p q else if py_command p = NFS_READ then same_read p q else same_write p q)"

definition same_hdr :: "64 word \<Rightarrow> 64 word \<Rightarrow> 32 word \<Rightarrow> payload_t \<Rightarrow> bool" where
  "same_hdr job_id job priority q \<longleftrightarrow> hd_job_id (py_hdr q) = job_id \<and> hd_arg (py_hdr q) = job \<and> hd_priority (py_hdr q) = priority"

lemma bytes_str_take:
  assumes "c_string t" "length t \<le> n"
  shows "bytes_str (take n (str_bytes t @ 0 # b)) = t"
  using assms bytes_str_append by (cases "n - length t") auto

lemma copy_beyond_address:
  assumes "c_string t" "length t < n" "n \<le> m"
  shows "copy_beyond beyond m (str_bytes t @ 0 # b) = Inr t"
  using bytes_str_append(1) [OF assms(1)] assms(2,3) by (simp add: copy_beyond_def)

lemma storage_arrives:
  assumes "storage_command (py_command p)" "storage_fits (py_storage p)" "link_ok l"
  shows "\<exists>msg q. message_of pb (lk_send l) (lk_from l) m p = Inr (Some msg) \<and> pm_command msg = py_command p \<and> pm_hdr msg = pm_hdr m \<and>
    payload_of (lk_recv l) (lk_to l) msg q0 = Inr (Some q) \<and> py_hdr q = py_hdr q0 \<and> py_command q = py_command q0 \<and>
    (py_storage q0 = clear_storage \<longrightarrow> same_storage p q)"
proof -
  have le: "IPV4_ADDR_MAX \<le> IPV6_ADDR_MAX" by (simp add: IPV4_ADDR_MAX_def IPV6_ADDR_MAX_def)
  note a = copy_beyond_address [of "sr_address (py_storage p)" IPV4_ADDR_MAX]
  show ?thesis
    using assms a [OF _ _ order_refl] a [OF _ _ le] le
    by (auto simp: message_of_def payload_of_def send_storage_def recv_storage_def Let_def field_def copy_string_def copy_address_def
      copy_name_def link_ok_def storage_fits_def bytes_str_append same_storage_def clear_storage_def)
qed

lemma name_bytes_ok:
  assumes "handle_ok env h"
  shows "\<exists>b. name_bytes junk h = Inr b \<and> length b = unat (fh_name_len h) \<and> bytes_str b = fh_name h"
  using assms bytes_str_take [of "fh_name h" "unat (fh_name_len h)"] by (auto simp: handle_ok_def name_bytes_def)

lemma copy_ipv4_ok:
  assumes "handle_ok env h"
  shows "copy_ipv4 (rv_beyond env) (str_bytes (na_address (fh_address h))) = Inr (na_address (fh_address h))"
proof -
  let ?a = "na_address (fh_address h)"
  obtain r where r: "rv_beyond env = 0 # r" using assms by (cases "rv_beyond env") (auto simp: handle_ok_def)
  have "bytes_str (take IPV4_ADDR_MAX (str_bytes ?a @ 0 # r)) = ?a"
    using assms by (intro bytes_str_take) (auto simp: handle_ok_def)
  moreover have "str_bytes ?a \<noteq> []" using assms by (auto simp: handle_ok_def str_bytes_def)
  ultimately show ?thesis by (simp add: copy_ipv4_def r)
qed

lemma recv_handle_ok:
  assumes "handle_ok env h" "name_bytes junk h = Inr b" "length b = unat (fh_name_len h)" "bytes_str b = fh_name h"
  shows "recv_handle env \<lparr>pf_name_len = x, pf_name = b, pf_proto = fh_proto h,
    pf_address = Some \<lparr>pa_protocol = na_protocol (fh_address h), pa_ipv4_address = Some (str_bytes (na_address (fh_address h))),
      pa_ipv6_address = None\<rparr>\<rparr> h0 = Inr h"
  using assms copy_ipv4_ok [OF assms(1)] by (simp add: recv_handle_def copy_name_def field_def handle_ok_def)

lemma read_arrives:
  assumes "py_command p = NFS_READ" "pe_num_plugins (rc_pe (cs_read_cmd (py_command_struct p))) = 0"
    "handle_ok (lk_recv l) (cs_extent_handle (py_command_struct p))"
  shows "\<exists>msg q. message_of pb (lk_send l) (lk_from l) m p = Inr (Some msg) \<and> pm_command msg = NFS_READ \<and> pm_hdr msg = pm_hdr m \<and>
    payload_of (lk_recv l) (lk_to l) msg q0 = Inr (Some q) \<and> py_hdr q = py_hdr q0 \<and> py_command q = py_command q0 \<and> same_read p q"
proof -
  obtain b where b: "name_bytes (sv_junk (lk_send l)) (cs_extent_handle (py_command_struct p)) = Inr b"
    "length b = unat (fh_name_len (cs_extent_handle (py_command_struct p)))" "bytes_str b = fh_name (cs_extent_handle (py_command_struct p))"
    using name_bytes_ok [OF assms(3)] by blast
  show ?thesis
    using assms(1,2) b(1) recv_handle_ok [OF assms(3) b]
    by (simp add: message_of_def payload_of_def send_read_def recv_read_def send_policy_def recv_policy_def Let_def field_def
      storage_command_def status_rsp_def same_read_def)
qed

lemma write_arrives:
  assumes "py_command p = NFS_WRITE" "pe_num_plugins (wc_pe (cs_write_cmd (py_command_struct p))) = 0"
    "data_ok (wc_data (cs_write_cmd (py_command_struct p)))"
    and q0: "data_buf (wc_data (cs_write_cmd (py_command_struct q0))) = Some b" "length b = 65536"
      "cs_extent_handle (py_command_struct q0) = clear_handle"
  shows "\<exists>msg q. message_of pb (lk_send l) (lk_from l) m p = Inr (Some msg) \<and> pm_command msg = NFS_WRITE \<and>
    pm_hdr msg = (pm_hdr m)\<lparr>ph_payload_len := of_nat SIZEOF_PAYLOAD\<rparr> \<and>
    payload_of (lk_recv l) (lk_to l) msg q0 = Inr (Some q) \<and> py_hdr q = py_hdr q0 \<and> py_command q = py_command q0 \<and> same_write p q"
proof -
  obtain x where x: "data_buf (wc_data (cs_write_cmd (py_command_struct p))) = Some x"
    "unat (data_len (wc_data (cs_write_cmd (py_command_struct p)))) \<le> length x"
    "unat (data_len (wc_data (cs_write_cmd (py_command_struct p)))) \<le> 65536"
    using assms(3) by (auto simp: data_ok_def)
  show ?thesis
    using assms(1,2) x q0
    by (simp add: message_of_def payload_of_def send_write_def recv_write_def send_policy_def recv_policy_def send_data_def copy_data_def
      data_bytes_def Let_def field_def storage_command_def status_rsp_def same_write_def min_def)
qed

lemma delivered:
  assumes "link_ok l" "stream s = []" "unat job_id < MAX_OUTSTANDING_JOBS"
    and pb: "\<forall>msg. first_message pb l p job_id job priority s = Inr (Some msg) \<longrightarrow> carried pb msg"
    and q0: "sstack_create_payload (lk_recv l) c = Inr (Some q0)"
    and m: "\<exists>msg q. first_message pb l p job_id job priority s = Inr (Some msg) \<and> pm_command msg = c \<and> pm_hdr msg = h \<and>
      payload_of (lk_recv l) (lk_to l) msg (q0\<lparr>py_hdr := recv_hdr h, py_command := c\<rparr>) = Inr (Some q) \<and> P q"
  shows "\<exists>q. transmit pb l p job_id job priority s = Inr (0, Some q, s\<lparr>sequence := sequence s + 1\<rparr>) \<and> P q"
proof -
  obtain msg q where *: "first_message pb l p job_id job priority s = Inr (Some msg)" "pm_command msg = c" "pm_hdr msg = h"
    "payload_of (lk_recv l) (lk_to l) msg (q0\<lparr>py_hdr := recv_hdr h, py_command := c\<rparr>) = Inr (Some q)" "P q"
    using m by blast
  have "transmit pb l p job_id job priority s = Inr (0, Some q, s\<lparr>sequence := sequence s + 1\<rparr>)"
    using pb * q0 by (intro transmit_ok [OF assms(1) *(1) _ assms(2,3)]) simp_all
  then show ?thesis using *(5) by blast
qed

lemma same_hdrI:
  assumes "unat job_id < MAX_OUTSTANDING_JOBS"
    "py_hdr q = recv_hdr (pm_hdr (new_message pb seq job_id job priority)) \<or>
     py_hdr q = recv_hdr ((pm_hdr (new_message pb seq job_id job priority))\<lparr>ph_payload_len := x\<rparr>)"
  shows "same_hdr job_id job priority q"
proof -
  have n: "unat job_id < 2 ^ 31" using assms(1) by (simp add: MAX_OUTSTANDING_JOBS_def)
  have "sint (of_nat (unat job_id) :: 32 word) = int (unat job_id)" by (rule sint_of_nat_small) (use n in simp)
  then have "sint (ucast job_id :: 32 word) = uint job_id" by simp
  then have "(scast (ucast job_id :: 32 word) :: 64 word) = job_id" by (simp add: scast_eq)
  then show ?thesis using assms(2) by (auto simp: same_hdr_def recv_hdr_def new_message_def)
qed

lemma storage_delivered:
  assumes l: "link_ok l" and s: "stream s = []" "unat job_id < MAX_OUTSTANDING_JOBS"
    and pb: "\<forall>msg. first_message pb l p job_id job priority s = Inr (Some msg) \<longrightarrow> carried pb msg"
    and p: "storage_command (py_command p)" "storage_fits (py_storage p)"
  shows "\<exists>q. transmit pb l p job_id job priority s = Inr (0, Some q, s\<lparr>sequence := sequence s + 1\<rparr>) \<and>
    py_command q = py_command p \<and> same_storage p q \<and> same_hdr job_id job priority q"
proof -
  let ?m = "new_message pb (sequence s) job_id job priority"
  let ?q = "clear_payload (py_command p)"
  note hdr = same_hdrI [OF s(2), of _ pb "sequence s" job priority]
  have "sstack_create_payload (lk_recv l) (py_command p) = Inr (Some ?q)"
    using p l by (auto simp: sstack_create_payload_def storage_command_def link_ok_def)
  then show ?thesis
    using storage_arrives [OF p l, of pb ?m "?q\<lparr>py_hdr := recv_hdr (pm_hdr ?m), py_command := py_command p\<rparr>"] p hdr
    by (intro delivered [OF l s pb]) (auto simp: first_message_def clear_payload_def)
qed

lemma read_delivered:
  assumes l: "link_ok l" and s: "stream s = []" "unat job_id < MAX_OUTSTANDING_JOBS"
    and pb: "\<forall>msg. first_message pb l p job_id job priority s = Inr (Some msg) \<longrightarrow> carried pb msg"
    and p: "py_command p = NFS_READ" "pe_num_plugins (rc_pe (cs_read_cmd (py_command_struct p))) = 0"
      "handle_ok (lk_recv l) (cs_extent_handle (py_command_struct p))"
  shows "\<exists>q. transmit pb l p job_id job priority s = Inr (0, Some q, s\<lparr>sequence := sequence s + 1\<rparr>) \<and>
    py_command q = NFS_READ \<and> same_read p q \<and> same_hdr job_id job priority q"
proof -
  let ?m = "new_message pb (sequence s) job_id job priority"
  note hdr = same_hdrI [OF s(2), of _ pb "sequence s" job priority]
  have "sstack_create_payload (lk_recv l) NFS_READ = Inr (Some (clear_payload NFS_READ))"
    using l by (simp add: sstack_create_payload_def link_ok_def)
  then show ?thesis
    using read_arrives [OF p, of pb ?m "(clear_payload NFS_READ)\<lparr>py_hdr := recv_hdr (pm_hdr ?m), py_command := NFS_READ\<rparr>"] hdr
    by (intro delivered [OF l s pb]) (auto simp: first_message_def)
qed

lemma write_delivered:
  assumes l: "link_ok l" and s: "stream s = []" "unat job_id < MAX_OUTSTANDING_JOBS"
    and pb: "\<forall>msg. first_message pb l p job_id job priority s = Inr (Some msg) \<longrightarrow> carried pb msg"
    and p: "py_command p = NFS_WRITE" "pe_num_plugins (wc_pe (cs_write_cmd (py_command_struct p))) = 0"
      "data_ok (wc_data (cs_write_cmd (py_command_struct p)))"
  shows "\<exists>q. transmit pb l p job_id job priority s = Inr (0, Some q, s\<lparr>sequence := sequence s + 1\<rparr>) \<and>
    py_command q = NFS_WRITE \<and> same_write p q \<and> same_hdr job_id job priority q"
proof -
  let ?m = "new_message pb (sequence s) job_id job priority"
  let ?h = "(pm_hdr ?m)\<lparr>ph_payload_len := of_nat SIZEOF_PAYLOAD\<rparr>"
  note hdr = same_hdrI [OF s(2), of _ pb "sequence s" job priority]
  obtain b where b: "rv_payload (lk_recv l)" "rv_data (lk_recv l) = Some b" "length b = 65536" using l by (auto simp: link_ok_def)
  let ?q = "(clear_payload NFS_WRITE)\<lparr>py_command_struct := clear_command\<lparr>cs_write_cmd :=
    (cs_write_cmd clear_command)\<lparr>wc_data := \<lparr>data_len = 0, data_buf = Some b\<rparr>\<rparr>\<rparr>\<rparr>"
  have "sstack_create_payload (lk_recv l) NFS_WRITE = Inr (Some ?q)"
    using b by (simp add: sstack_create_payload_def clear_payload_def clear_command_def Let_def)
  moreover have "data_buf (wc_data (cs_write_cmd (py_command_struct ?q))) = Some b" "cs_extent_handle (py_command_struct ?q) = clear_handle"
    by (simp_all add: clear_command_def)
  ultimately show ?thesis
    using write_arrives [OF p, where l = l and ?q0.0 = "?q\<lparr>py_hdr := recv_hdr ?h, py_command := NFS_WRITE\<rparr>" and b = b and pb = pb
      and m = ?m] hdr b(3)
    by (intro delivered [OF l s pb]) (auto simp: first_message_def)
qed

text \<open>A connection with memory, and a codec for one message.\<close>

definition sample_link :: link where
  "sample_link = \<lparr>lk_send = \<lparr>sv_path_mem = True, sv_mount_mem = True, sv_addr_mem = True, sv_buffer = True, sv_junk = (\<lambda>_. 0),
       sv_send = Inr SIZEOF_PAYLOAD\<rparr>,
     lk_recv = \<lparr>rv_temp = True, rv_recv = Inr SIZEOF_PAYLOAD, rv_payload = True, rv_data = Some (replicate 65536 0), rv_path = None,
       rv_beyond = [0]\<rparr>,
     lk_from = get_tcp_transport, lk_to = get_tcp_transport, lk_handle = 4, lk_handle' = 5\<rparr>"

definition sample_codec :: "pb_payload \<Rightarrow> protobuf" where
  "sample_codec m = \<lparr>pb_first = NFS_READ, pb_first_proto = NFS, pb_pack = (\<lambda>_. [7]), pb_unpack = (\<lambda>_. Some m)\<rparr>"

lemma sample_link_ok: "link_ok sample_link"
  by (auto simp: link_ok_def sample_link_def transport_ok_def get_tcp_transport_def word_less_nat_alt)

lemma sample_carried: "carried (sample_codec m) m"
  by (simp add: carried_def sample_codec_def SIZEOF_PAYLOAD_def)

text \<open>
  C18: requests reach the node they are sent to, as long as the packed message has at most 12496 bytes, the size of \<^verbatim>\<open>sstack_payload_t\<close>, at
  which \<^verbatim>\<open>tcp_rx\<close> cuts it.  A storage command whose strings fit, a read whose extent handle has its whole name and an address that
  the receiver happens to have a zero byte behind, and a write of at most 64K, neither of them with plugins, is sent by
  \<^verbatim>\<open>sstack_send_payload\<close> and read by \<^verbatim>\<open>sstack_recv_payload\<close> without an error, over a connection that passes on whole messages and for a
  message that the encoding restores: the receiver gets the command, the job, its id and its priority, and the fields of the request; the bytes of a write
  arrive as they are, and its extent handle is lost.
\<close>

theorem request_arrives:
  assumes "link_ok l" "stream s = []" "unat job_id < MAX_OUTSTANDING_JOBS" "request_ok (lk_recv l) p"
    and "\<forall>msg. first_message pb l p job_id job priority s = Inr (Some msg) \<longrightarrow> carried pb msg"
  shows "\<exists>q. transmit pb l p job_id job priority s = Inr (0, Some q, s\<lparr>sequence := sequence s + 1\<rparr>) \<and>
    same_request p q \<and> same_hdr job_id job priority q"
proof -
  consider "storage_command (py_command p)" "storage_fits (py_storage p)"
    | "py_command p = NFS_READ" "pe_num_plugins (rc_pe (cs_read_cmd (py_command_struct p))) = 0"
      "handle_ok (lk_recv l) (cs_extent_handle (py_command_struct p))"
    | "py_command p = NFS_WRITE" "pe_num_plugins (wc_pe (cs_write_cmd (py_command_struct p))) = 0"
      "data_ok (wc_data (cs_write_cmd (py_command_struct p)))"
    using assms(4) by (auto simp: request_ok_def Let_def)
  then show ?thesis
  proof cases
    case 1
    then show ?thesis using storage_delivered [OF assms(1-3,5) 1] by (auto simp: same_request_def)
  next
    case 2
    then show ?thesis using read_delivered [OF assms(1-3,5) 2] by (auto simp: same_request_def storage_command_def)
  next
    case 3
    then show ?thesis using write_delivered [OF assms(1-3,5) 3] by (auto simp: same_request_def storage_command_def)
  qed
qed

text \<open>A write of three bytes.\<close>

definition sample_write :: payload_t where
  "sample_write = (clear_payload NFS_WRITE)\<lparr>py_command_struct := clear_command\<lparr>cs_write_cmd := \<lparr>wc_inode_no = 9, wc_offset = 100, wc_count = 3,
     wc_data = \<lparr>data_len = 3, data_buf = Some [10, 11, 12]\<rparr>, wc_pe = clear_policy\<rparr>\<rparr>\<rparr>"

definition sample_write_msg :: pb_payload where
  "sample_write_msg = \<lparr>pm_hdr = \<lparr>ph_sequence = 1, ph_payload_len = of_nat SIZEOF_PAYLOAD, ph_job_id = 2, ph_priority = 1, ph_arg = 77\<rparr>,
     pm_command = NFS_WRITE, pm_storage = None,
     pm_command_struct = Some (pb_command_init\<lparr>pc_write_cmd := Some \<lparr>pw_inode_no = 9, pw_offset = 100, pw_count = 3,
       pw_data = \<lparr>pd_len = 3, pd_buf = [10, 11, 12]\<rparr>,
       pw_pe = \<lparr>pp_attr = \<lparr>pt_ver = 0, pt_qoslevel = 0, pt_ishidden = 0, pt_numreplicas = 0, pt_enable_dr = 0\<rparr>,
         pp_num_plugins = 0, pp_refcount = 0, pp_lock = 0, pp_index = 0\<rparr>\<rparr>\<rparr>),
     pm_response_struct = None\<rparr>"

theorem request_arrives_witness:
  "\<exists>q. transmit (sample_codec sample_write_msg) sample_link sample_write 2 77 1 \<lparr>sequence = 1, stream = []\<rparr> =
     Inr (0, Some q, \<lparr>sequence = 2, stream = []\<rparr>) \<and> same_request sample_write q \<and> same_hdr 2 77 1 q"
proof -
  let ?s = "\<lparr>sequence = 1, stream = []\<rparr>"
  have m: "first_message (sample_codec sample_write_msg) sample_link sample_write 2 77 1 ?s = Inr (Some sample_write_msg)"
    by (simp add: first_message_def new_message_def message_of_def sample_write_def sample_write_msg_def clear_payload_def send_write_def
      send_policy_def send_data_def clear_policy_def storage_command_def Let_def)
  have r: "request_ok (lk_recv sample_link) sample_write"
    by (simp add: request_ok_def sample_write_def clear_payload_def clear_policy_def data_ok_def Let_def)
  show ?thesis
    using request_arrives [OF sample_link_ok _ _ r, of ?s 2 "sample_codec sample_write_msg" 77 1] m sample_carried
    by (simp add: MAX_OUTSTANDING_JOBS_def)
qed

section \<open>Responses\<close>

definition response_ok :: "payload_t \<Rightarrow> bool" where
  "response_ok p \<longleftrightarrow> status_rsp (py_command p) \<or> py_command p = NFS_WRITE_RSP \<or>
     py_command p = NFS_READ_RSP \<and> data_ok (ro_data (py_response_struct p))"

definition same_response :: "payload_t \<Rightarrow> payload_t \<Rightarrow> bool" where
  "same_response p q \<longleftrightarrow>
     (let r = py_response_struct p; x = py_response_struct q in
      py_command q = py_command p \<and> ro_command_ok x = ro_command_ok r \<and>
      (status_rsp (py_command p) \<longrightarrow> ro_handle x = ro_handle r) \<and>
      (py_command p = NFS_WRITE_RSP \<longrightarrow> ro_file_wc x = ro_file_wc r) \<and>
      (py_command p = NFS_READ_RSP \<longrightarrow> ro_count x = ro_count r \<and> ro_eof x = ro_eof r \<and>
         data_len (ro_data x) = data_len (ro_data r) \<and> data_bytes (ro_data x) = data_bytes (ro_data r)))"

lemma status_message:
  assumes "status_rsp (py_command p)"
  shows "message_of pb env tr m p = exec_bind (send_status m p) (\<lambda>msg. Inr (Some msg))"
  using assms unfolding status_rsp_def by (elim insertE) (simp_all add: message_of_def status_rsp_def storage_command_def)

lemma status_payload:
  assumes "status_rsp (pm_command msg)"
  shows "payload_of env tr msg q = exec_bind (recv_status msg q) (\<lambda>q. Inr (Some q))"
  using assms unfolding status_rsp_def by (elim insertE) (simp_all add: payload_of_def status_rsp_def storage_command_def)

lemma status_arrives:
  assumes "status_rsp (py_command p)" "py_command q0 = py_command p"
  shows "\<exists>msg q. message_of pb env tr m p = Inr (Some msg) \<and> pm_command msg = py_command p \<and>
    pm_hdr msg = (pm_hdr m)\<lparr>ph_payload_len := of_nat SIZEOF_PAYLOAD\<rparr> \<and> payload_of env' tr' msg q0 = Inr (Some q) \<and>
    py_hdr q = py_hdr q0 \<and> same_response p q"
proof -
  have "py_command p \<noteq> NFS_WRITE_RSP" "py_command p \<noteq> NFS_READ_RSP" using assms(1) by (auto simp: status_rsp_def)
  then show ?thesis
    using assms by (simp add: status_message status_payload send_status_def recv_status_def Let_def field_def same_response_def)
qed

lemma write_rsp_arrives:
  assumes "py_command p = NFS_WRITE_RSP" "py_command q0 = NFS_WRITE_RSP"
  shows "\<exists>msg q. message_of pb env tr m p = Inr (Some msg) \<and> pm_command msg = NFS_WRITE_RSP \<and> pm_hdr msg = pm_hdr m \<and>
    payload_of env' tr' msg q0 = Inr (Some q) \<and> py_hdr q = py_hdr q0 \<and> same_response p q"
  using assms by (simp add: message_of_def payload_of_def send_write_rsp_def recv_write_rsp_def Let_def field_def storage_command_def
    status_rsp_def same_response_def)

lemma read_rsp_arrives:
  assumes "py_command p = NFS_READ_RSP" "data_ok (ro_data (py_response_struct p))" "py_command q0 = NFS_READ_RSP"
    "data_buf (ro_data (py_response_struct q0)) = Some b" "length b = 65536"
  shows "\<exists>msg q. message_of pb env tr m p = Inr (Some msg) \<and> pm_command msg = NFS_READ_RSP \<and> pm_hdr msg = pm_hdr m \<and>
    payload_of env' tr' msg q0 = Inr (Some q) \<and> py_hdr q = py_hdr q0 \<and> same_response p q"
proof -
  obtain x where x: "data_buf (ro_data (py_response_struct p)) = Some x"
    "unat (data_len (ro_data (py_response_struct p))) \<le> length x" "unat (data_len (ro_data (py_response_struct p))) \<le> 65536"
    using assms(2) by (auto simp: data_ok_def)
  then show ?thesis
    using assms by (simp add: message_of_def payload_of_def send_read_rsp_def recv_read_rsp_def send_data_def copy_data_def data_bytes_def
      Let_def field_def storage_command_def status_rsp_def same_response_def min_def)
qed

lemma status_delivered:
  assumes l: "link_ok l" and s: "stream s = []" "unat job_id < MAX_OUTSTANDING_JOBS"
    and pb: "\<forall>msg. first_message pb l p job_id job priority s = Inr (Some msg) \<longrightarrow> carried pb msg"
    and p: "status_rsp (py_command p)"
  shows "\<exists>q. transmit pb l p job_id job priority s = Inr (0, Some q, s\<lparr>sequence := sequence s + 1\<rparr>) \<and>
    same_response p q \<and> same_hdr job_id job priority q"
proof -
  let ?m = "new_message pb (sequence s) job_id job priority"
  let ?h = "(pm_hdr ?m)\<lparr>ph_payload_len := of_nat SIZEOF_PAYLOAD\<rparr>"
  let ?q = "(clear_payload (py_command p))\<lparr>py_hdr := recv_hdr ?h, py_command := py_command p\<rparr>"
  note hdr = same_hdrI [OF s(2), of _ pb "sequence s" job priority]
  have "sstack_create_payload (lk_recv l) (py_command p) = Inr (Some (clear_payload (py_command p)))"
    using p l by (auto simp: sstack_create_payload_def status_rsp_def link_ok_def)
  then show ?thesis
    using status_arrives [OF p, of ?q pb "lk_send l" "lk_from l" ?m "lk_recv l" "lk_to l"] hdr
    by (intro delivered [OF l s pb]) (auto simp: first_message_def)
qed

lemma write_rsp_delivered:
  assumes l: "link_ok l" and s: "stream s = []" "unat job_id < MAX_OUTSTANDING_JOBS"
    and pb: "\<forall>msg. first_message pb l p job_id job priority s = Inr (Some msg) \<longrightarrow> carried pb msg"
    and p: "py_command p = NFS_WRITE_RSP"
  shows "\<exists>q. transmit pb l p job_id job priority s = Inr (0, Some q, s\<lparr>sequence := sequence s + 1\<rparr>) \<and>
    same_response p q \<and> same_hdr job_id job priority q"
proof -
  let ?m = "new_message pb (sequence s) job_id job priority"
  let ?q = "(clear_payload NFS_WRITE_RSP)\<lparr>py_hdr := recv_hdr (pm_hdr ?m), py_command := NFS_WRITE_RSP\<rparr>"
  note hdr = same_hdrI [OF s(2), of _ pb "sequence s" job priority]
  have "sstack_create_payload (lk_recv l) NFS_WRITE_RSP = Inr (Some (clear_payload NFS_WRITE_RSP))"
    using l by (simp add: sstack_create_payload_def link_ok_def)
  then show ?thesis
    using write_rsp_arrives [OF p, of ?q pb "lk_send l" "lk_from l" ?m "lk_recv l" "lk_to l"] hdr
    by (intro delivered [OF l s pb]) (auto simp: first_message_def)
qed

lemma read_rsp_delivered:
  assumes l: "link_ok l" and s: "stream s = []" "unat job_id < MAX_OUTSTANDING_JOBS"
    and pb: "\<forall>msg. first_message pb l p job_id job priority s = Inr (Some msg) \<longrightarrow> carried pb msg"
    and p: "py_command p = NFS_READ_RSP" "data_ok (ro_data (py_response_struct p))"
  shows "\<exists>q. transmit pb l p job_id job priority s = Inr (0, Some q, s\<lparr>sequence := sequence s + 1\<rparr>) \<and>
    same_response p q \<and> same_hdr job_id job priority q"
proof -
  let ?m = "new_message pb (sequence s) job_id job priority"
  note hdr = same_hdrI [OF s(2), of _ pb "sequence s" job priority]
  obtain b where b: "rv_payload (lk_recv l)" "rv_data (lk_recv l) = Some b" "length b = 65536" using l by (auto simp: link_ok_def)
  let ?r = "(clear_payload NFS_READ_RSP)\<lparr>py_response_struct := clear_response\<lparr>ro_data := \<lparr>data_len = 0, data_buf = Some b\<rparr>\<rparr>\<rparr>"
  let ?q = "?r\<lparr>py_hdr := recv_hdr (pm_hdr ?m), py_command := NFS_READ_RSP\<rparr>"
  have "sstack_create_payload (lk_recv l) NFS_READ_RSP = Inr (Some ?r)"
    using b by (simp add: sstack_create_payload_def clear_payload_def clear_response_def Let_def)
  then show ?thesis
    using read_rsp_arrives [OF p, of ?q b pb "lk_send l" "lk_from l" ?m "lk_recv l" "lk_to l"] hdr b
    by (intro delivered [OF l s pb]) (auto simp: first_message_def clear_response_def)
qed

text \<open>
  C19: responses come back, as long as the packed message has at most 12496 bytes, at which \<^verbatim>\<open>tcp_rx\<close> cuts it.  A response that only reports
  a status, the result of a write and the result of a read is sent and received without an error, over a connection that passes on whole
  messages and for a message that the encoding restores:
  the job that waits for it is the one of the header, and the status, the handle of the chunk, the number of bytes written, or the
  count, the end mark and the bytes read are those of the sender.
\<close>

theorem response_arrives:
  assumes "link_ok l" "stream s = []" "unat job_id < MAX_OUTSTANDING_JOBS" "response_ok p"
    and "\<forall>msg. first_message pb l p job_id job priority s = Inr (Some msg) \<longrightarrow> carried pb msg"
  shows "\<exists>q. transmit pb l p job_id job priority s = Inr (0, Some q, s\<lparr>sequence := sequence s + 1\<rparr>) \<and>
    same_response p q \<and> same_hdr job_id job priority q"
  using assms(4) status_delivered [OF assms(1-3,5)] write_rsp_delivered [OF assms(1-3,5)] read_rsp_delivered [OF assms(1-3,5)]
  unfolding response_ok_def by blast

text \<open>The answer to a read of three bytes.\<close>

definition sample_read_rsp :: payload_t where
  "sample_read_rsp = (clear_payload NFS_READ_RSP)\<lparr>py_response_struct := clear_response\<lparr>ro_count := 3,
     ro_data := \<lparr>data_len = 3, data_buf = Some [10, 11, 12]\<rparr>\<rparr>\<rparr>"

definition sample_read_rsp_msg :: pb_payload where
  "sample_read_rsp_msg = \<lparr>pm_hdr = \<lparr>ph_sequence = 1, ph_payload_len = of_nat SIZEOF_HDR, ph_job_id = 2, ph_priority = 1, ph_arg = 77\<rparr>,
     pm_command = NFS_READ_RSP, pm_storage = None, pm_command_struct = None,
     pm_response_struct = Some (pb_response_init\<lparr>ps_read_resp :=
       Some \<lparr>px_count = 3, px_eof = 0, px_data = \<lparr>pd_len = 3, pd_buf = [10, 11, 12]\<rparr>\<rparr>\<rparr>)\<rparr>"

theorem response_arrives_witness:
  "\<exists>q. transmit (sample_codec sample_read_rsp_msg) sample_link sample_read_rsp 2 77 1 \<lparr>sequence = 1, stream = []\<rparr> =
     Inr (0, Some q, \<lparr>sequence = 2, stream = []\<rparr>) \<and> same_response sample_read_rsp q \<and> same_hdr 2 77 1 q"
proof -
  let ?s = "\<lparr>sequence = 1, stream = []\<rparr>"
  have m: "first_message (sample_codec sample_read_rsp_msg) sample_link sample_read_rsp 2 77 1 ?s = Inr (Some sample_read_rsp_msg)"
    by (simp add: first_message_def new_message_def message_of_def sample_read_rsp_def sample_read_rsp_msg_def clear_payload_def
      clear_response_def send_read_rsp_def pb_response_init_def send_data_def storage_command_def status_rsp_def Let_def)
  have r: "response_ok sample_read_rsp"
    by (simp add: response_ok_def sample_read_rsp_def clear_payload_def data_ok_def)
  show ?thesis
    using response_arrives [OF sample_link_ok _ _ r, of ?s 2 "sample_codec sample_read_rsp_msg" 77 1] m sample_carried
    by (simp add: MAX_OUTSTANDING_JOBS_def)
qed

end
