(* ===== verification/Wire_Path.thy ===== *)
theory Wire_Path
  imports Data_Path Payload_Serdes
begin

text \<open>
  Requests and responses of a file on the wire: the payload that sfs has filled in is sent by \<^verbatim>\<open>sstack_send_payload\<close>, received,
  handled and answered by the sfsd (src/sfsd/src/sfsd_threads.c), and the answer is received by sfs.  The theorems relate this to
  the direct call of \<^verbatim>\<open>handle_command\<close>, and give the path of the data of a file through both daemons.
\<close>

section \<open>Payloads\<close>

definition wire_command :: "io_command \<Rightarrow> sstack_command_t" where
  "wire_command c = (case c of File_IO.NFS_READ \<Rightarrow> Payload_Types.NFS_READ | File_IO.NFS_WRITE \<Rightarrow> Payload_Types.NFS_WRITE)"

text \<open>The request of sfs as it is passed to \<^verbatim>\<open>sstack_send_payload\<close>, with the policy entry cleared.\<close>

definition wire_payload :: "8 word list \<Rightarrow> io_payload \<Rightarrow> payload_t" where
  "wire_payload buf p =
     (clear_payload (wire_command (ip_command p)))\<lparr>py_command_struct := clear_command\<lparr>cs_extent_handle := ip_extent_handle p,
       cs_read_cmd := \<lparr>rc_inode_no = ip_inode_no p, rc_offset = ip_offset p, rc_count = ip_count p,
         rc_read_ecode = (if ip_read_ecode p then 1 else 0), rc_pe = clear_policy\<rparr>,
       cs_write_cmd := \<lparr>wc_inode_no = ip_inode_no p, wc_offset = ip_offset p, wc_count = ip_count p,
         wc_data = \<lparr>data_len = ip_data_len p, data_buf = Some (drop (unat (ip_data_buf p)) buf)\<rparr>, wc_pe = clear_policy\<rparr>\<rparr>\<rparr>"

text \<open>The commands that \<^verbatim>\<open>sstack_read\<close> and \<^verbatim>\<open>sstack_write\<close> take from a payload.\<close>

definition received_read :: "payload_t \<Rightarrow> sd_read" where
  "received_read q =
     (let c = py_command_struct q; r = cs_read_cmd c in
      \<lparr>rq_inode_no = rc_inode_no r, rq_offset = rc_offset r, rq_read_ecode = (rc_read_ecode r \<noteq> 0), rq_extent_handle = cs_extent_handle c\<rparr>)"

definition received_write :: "payload_t \<Rightarrow> sd_write" where
  "received_write q =
     (let c = py_command_struct q; w = cs_write_cmd c in
      \<lparr>wq_inode_no = wc_inode_no w, wq_offset = wc_offset w, wq_data = data_bytes (wc_data w),
       wq_num_plugins = unat (pe_num_plugins (wc_pe w)), wq_extent_handle = cs_extent_handle c\<rparr>)"

text \<open>
  The payload of the request as it is made a response; \<open>rest\<close> is what the memory of the command holds as a response, which shares it.
\<close>

definition response_payload :: "response_t \<Rightarrow> payload_t \<Rightarrow> sd_response \<Rightarrow> payload_t" where
  "response_payload rest q r =
     (let x = rest\<lparr>ro_command_ok := of_int (rs_command_ok r)\<rparr> in
      if rs_command r = Dispatch.NFS_READ_RSP then
        q\<lparr>py_command := Payload_Types.NFS_READ_RSP,
          py_response_struct :=
            (if rs_command_ok r = SSTACK_SUCCESS then
               x\<lparr>ro_count := of_nat (length (rs_data r)), ro_eof := 0,
                 ro_data := \<lparr>data_len = of_nat (length (rs_data r)), data_buf = Some (rs_data r)\<rparr>\<rparr>
             else x)\<rparr>
      else q\<lparr>py_command := Payload_Types.NFS_WRITE_RSP, py_response_struct := x\<lparr>ro_file_wc := rs_file_wc r\<rparr>\<rparr>)"

definition process_payload ::
  "('d, 'z) sd_env_scheme \<Rightarrow> string option \<Rightarrow> bool \<Rightarrow> bool \<times> bool \<Rightarrow> (nat \<Rightarrow> sfsd_storage \<Rightarrow> sfsd_storage \<Rightarrow> sfsd_storage) \<Rightarrow>
   sfsd_storage \<Rightarrow> (payload_t \<Rightarrow> response_t) \<Rightarrow> payload_t \<Rightarrow> 'd sd_state \<Rightarrow> (payload_t \<times> 'd sd_state) exec" where
  "process_payload env mnt mounted mem move blank shared q d =
     exec_bind (handle_command env mnt mounted mem move blank
       (if py_command q = Payload_Types.NFS_READ then Read_Extent (received_read q) else Write_Extent (received_write q)) d) (\<lambda>(r, d).
     Inr (response_payload (shared q) q r, d))"

text \<open>
  A request and its answer.  \<open>s\<close> is the direction to the sfsd and \<open>s'\<close> the way back; \<^verbatim>\<open>send_payload\<close> of the sfsd takes the job, its id
  and its priority from the header of the response.
\<close>

definition wire_call ::
  "protobuf \<Rightarrow> link \<Rightarrow> link \<Rightarrow> (payload_t \<Rightarrow> 'd sd_state \<Rightarrow> (payload_t \<times> 'd sd_state) exec) \<Rightarrow> payload_t \<Rightarrow> 64 word \<Rightarrow> 64 word \<Rightarrow> 32 word \<Rightarrow>
   serdes_state \<Rightarrow> serdes_state \<Rightarrow> 'd sd_state \<Rightarrow> (payload_t option \<times> 'd sd_state \<times> serdes_state \<times> serdes_state) exec" where
  "wire_call pb l l' process p job_id job priority s s' d =
     exec_bind (transmit pb l p job_id job priority s) (\<lambda>(_, q, s).
     case q of None \<Rightarrow> Inr (None, d, s, s') | Some q \<Rightarrow>
     exec_bind (process q d) (\<lambda>(r, d).
     exec_bind (transmit pb l' r (hd_job_id (py_hdr r)) (hd_arg (py_hdr r)) (hd_priority (py_hdr r)) s') (\<lambda>(_, a, s').
     Inr (a, d, s, s'))))"

text \<open>The answer as \<^verbatim>\<open>sfs_read\<close> and \<^verbatim>\<open>sfs_write\<close> take it from the payload.\<close>

definition received_response :: "payload_t \<Rightarrow> sd_response" where
  "received_response a =
     (let x = py_response_struct a; rd = (py_command a = Payload_Types.NFS_READ_RSP) in
      \<lparr>rs_command = (if rd then Dispatch.NFS_READ_RSP else Dispatch.NFS_WRITE_RSP), rs_command_ok = sint (ro_command_ok x),
       rs_data = (if rd then data_bytes (ro_data x) else []), rs_file_wc = (if rd then 0 else ro_file_wc x)\<rparr>)"

section \<open>The direct call\<close>

definition direct_command :: "8 word list \<Rightarrow> io_payload \<Rightarrow> sd_command" where
  "direct_command buf p =
     (case ip_command p of File_IO.NFS_READ \<Rightarrow> Read_Extent (read_request p) | File_IO.NFS_WRITE \<Rightarrow> Write_Extent (write_request buf p))"

text \<open>
  A read whose handle has its whole name and that is not for erasure coding, or a write of at most 64K to a new extent.
\<close>

definition wire_ok :: "recv_env \<Rightarrow> 8 word list \<Rightarrow> io_payload \<Rightarrow> bool" where
  "wire_ok env buf p \<longleftrightarrow>
     (case ip_command p of
        File_IO.NFS_READ \<Rightarrow> \<not> ip_read_ecode p \<and> Payload_Serdes.handle_ok env (ip_extent_handle p)
      | File_IO.NFS_WRITE \<Rightarrow> ip_extent_handle p = clear_handle \<and> unat (ip_data_len p) \<le> 65536 \<and>
          unat (ip_data_buf p) + unat (ip_data_len p) \<le> length buf)"

definition response_message :: "protobuf \<Rightarrow> 32 word \<Rightarrow> 64 word \<Rightarrow> 64 word \<Rightarrow> 32 word \<Rightarrow> sd_response \<Rightarrow> pb_payload" where
  "response_message pb seq job_id job priority r =
     (let n = of_nat (length (rs_data r)); ok = of_int (rs_command_ok r); m = new_message pb seq job_id job priority in
      if rs_command r = Dispatch.NFS_READ_RSP then
        m\<lparr>pm_command := Payload_Types.NFS_READ_RSP, pm_response_struct := Some (pb_response_init\<lparr>ps_command_ok := ok,
          ps_read_resp := Some \<lparr>px_count = n, px_eof = 0, px_data = \<lparr>pd_len = n, pd_buf = rs_data r\<rparr>\<rparr>\<rparr>)\<rparr>
      else
        m\<lparr>pm_command := Payload_Types.NFS_WRITE_RSP, pm_response_struct := Some (pb_response_init\<lparr>ps_write_resp := Some (ok, rs_file_wc r)\<rparr>)\<rparr>)"

lemma received_read_same:
  assumes "same_read (wire_payload buf p) q"
  shows "received_read q = read_request p"
  using assms by (cases "cs_read_cmd (py_command_struct q)") (simp add: same_read_def Let_def wire_payload_def received_read_def read_request_def)

lemma data_bytes_some [simp]: "data_bytes \<lparr>data_len = n, data_buf = Some b\<rparr> = take (unat n) b"
  by (simp add: data_bytes_def)

lemma received_write_same:
  assumes "same_write (wire_payload buf p) q" "ip_extent_handle p = clear_handle"
  shows "received_write q = write_request buf p"
  using assms by (simp add: same_write_def Let_def wire_payload_def received_write_def write_request_def)

lemma request_delivered:
  assumes l: "link_ok l" and s: "stream s = []" "unat job_id < MAX_OUTSTANDING_JOBS" and p: "wire_ok (lk_recv l) buf p"
    and pb: "\<forall>msg. first_message pb l (wire_payload buf p) job_id job priority s = Inr (Some msg) \<longrightarrow> carried pb msg"
  shows "\<exists>q. transmit pb l (wire_payload buf p) job_id job priority s = Inr (0, Some q, s\<lparr>sequence := sequence s + 1\<rparr>) \<and>
    same_hdr job_id job priority q \<and>
    (if py_command q = Payload_Types.NFS_READ then Read_Extent (received_read q) else Write_Extent (received_write q)) = direct_command buf p"
proof (cases "ip_command p")
  case NFS_READ
  then have "py_command (wire_payload buf p) = Payload_Types.NFS_READ"
    "pe_num_plugins (rc_pe (cs_read_cmd (py_command_struct (wire_payload buf p)))) = 0"
    "Payload_Serdes.handle_ok (lk_recv l) (cs_extent_handle (py_command_struct (wire_payload buf p)))"
    using p by (simp_all add: wire_payload_def wire_command_def clear_payload_def clear_policy_def wire_ok_def)
  from read_delivered [OF l s pb this] show ?thesis
    using NFS_READ received_read_same by (auto simp: direct_command_def)
next
  case NFS_WRITE
  then have "py_command (wire_payload buf p) = Payload_Types.NFS_WRITE"
    "pe_num_plugins (wc_pe (cs_write_cmd (py_command_struct (wire_payload buf p)))) = 0"
    "data_ok (wc_data (cs_write_cmd (py_command_struct (wire_payload buf p))))"
    using p by (auto simp: wire_payload_def wire_command_def clear_payload_def clear_policy_def wire_ok_def data_ok_def)
  from write_delivered [OF l s pb this] obtain q
    where "transmit pb l (wire_payload buf p) job_id job priority s = Inr (0, Some q, s\<lparr>sequence := sequence s + 1\<rparr>)"
      "py_command q = Payload_Types.NFS_WRITE" "same_write (wire_payload buf p) q" "same_hdr job_id job priority q" by blast
  then show ?thesis
    using NFS_WRITE p received_write_same [of buf p q] by (intro exI [of _ q]) (simp add: direct_command_def wire_ok_def)
qed

lemma checked_length:
  assumes "read_check_extent env path MAX_EXTENT_SIZE offset check cksum buffer files = (stat, b)"
  shows "nat stat \<le> MAX_EXTENT_SIZE"
proof -
  have "uint (se_errno env) < 2 ^ 12" using uint_bounded [of "se_errno env"] by simp
  then show ?thesis
    using assms by (auto simp: read_check_extent_def pread_def Let_def MAX_EXTENT_SIZE_def SSTACK_ECKSUM_def
      split: option.splits sum.splits if_splits)
qed

lemma read_length:
  assumes "sstack_read env cmd d = Inr (ok, x)"
  shows "length x \<le> MAX_EXTENT_SIZE"
  using assms
  by (auto simp: sstack_read_def exec_bind_Inr_iff Let_def min.coboundedI2 dest!: checked_length
    split: if_splits sum.splits option.splits prod.splits)

lemma call_response:
  assumes "handle_command env mnt mounted mem move blank (direct_command buf p) d = Inr (r, d')"
  shows "rs_command r = (case ip_command p of File_IO.NFS_READ \<Rightarrow> Dispatch.NFS_READ_RSP | File_IO.NFS_WRITE \<Rightarrow> Dispatch.NFS_WRITE_RSP)"
    "length (rs_data r) \<le> MAX_EXTENT_SIZE" "rs_command r = Dispatch.NFS_READ_RSP \<Longrightarrow> rs_file_wc r = 0"
    "rs_command r = Dispatch.NFS_WRITE_RSP \<Longrightarrow> rs_data r = []"
  using assms read_length
  by (auto simp: handle_command_def direct_command_def exec_bind_Inr_iff split: io_command.splits option.splits)

text \<open>What \<^verbatim>\<open>handle_command\<close> answers to a read or a write that succeeds.\<close>

definition success :: "sd_response \<Rightarrow> bool" where
  "success r \<longleftrightarrow> rs_command_ok r = SSTACK_SUCCESS \<and> length (rs_data r) \<le> MAX_EXTENT_SIZE \<and>
     (rs_command r = Dispatch.NFS_READ_RSP \<and> rs_file_wc r = 0 \<or> rs_command r = Dispatch.NFS_WRITE_RSP \<and> rs_data r = [])"

lemma success_word: "sint (of_int SSTACK_SUCCESS :: 32 word) = SSTACK_SUCCESS"
  by (simp add: SSTACK_SUCCESS_def)

lemma message_of_response:
  assumes "success r"
  shows "first_message pb l (response_payload rest q r) job_id job priority s =
    Inr (Some (response_message pb (sequence s) job_id job priority r))"
proof -
  have "unat (of_nat (length (rs_data r)) :: 64 word) = length (rs_data r)"
    using assms by (intro small_words) (simp add: success_def MAX_EXTENT_SIZE_def)
  then show ?thesis
    using assms by (auto simp: success_def first_message_def message_of_def response_payload_def response_message_def send_read_rsp_def
      send_write_rsp_def send_data_def storage_command_def status_rsp_def pb_response_init_def Let_def)
qed

lemma received_response_same:
  assumes "same_response (response_payload rest q r) a" "success r"
  shows "received_response a = r"
proof -
  have "unat (of_nat (length (rs_data r)) :: 64 word) = length (rs_data r)"
    using assms(2) by (intro small_words) (simp add: success_def MAX_EXTENT_SIZE_def)
  then show ?thesis
    using assms success_word
    by (cases r) (auto simp: same_response_def received_response_def response_payload_def success_def Let_def)
qed

lemma response_delivered:
  assumes l: "link_ok l" and s: "stream s = []" "unat job_id < MAX_OUTSTANDING_JOBS" and r: "success r"
    and pb: "carried pb (response_message pb (sequence s) job_id job priority r)"
  shows "\<exists>a. transmit pb l (response_payload rest q r) job_id job priority s = Inr (0, Some a, s\<lparr>sequence := sequence s + 1\<rparr>) \<and>
    received_response a = r \<and> same_hdr job_id job priority a"
proof -
  let ?p = "response_payload rest q r"
  have n: "unat (of_nat (length (rs_data r)) :: 64 word) = length (rs_data r)"
    using r by (intro small_words) (simp add: success_def MAX_EXTENT_SIZE_def)
  have c: "\<forall>msg. first_message pb l ?p job_id job priority s = Inr (Some msg) \<longrightarrow> carried pb msg"
    using pb message_of_response [OF r] by simp
  show ?thesis
  proof (cases "rs_command r = Dispatch.NFS_READ_RSP")
    case True
    then have "py_command ?p = Payload_Types.NFS_READ_RSP" "data_ok (ro_data (py_response_struct ?p))"
      using r n by (auto simp: response_payload_def success_def data_ok_def MAX_EXTENT_SIZE_def)
    from read_rsp_delivered [OF l s c this] show ?thesis using received_response_same [OF _ r] by blast
  next
    case False
    then have "py_command ?p = Payload_Types.NFS_WRITE_RSP" by (simp add: response_payload_def)
    from write_rsp_delivered [OF l s c this] show ?thesis using received_response_same [OF _ r] by blast
  qed
qed

lemma wire_call_ok:
  assumes "link_ok l" "link_ok l'" "stream s = []" "stream s' = []" "unat job_id < MAX_OUTSTANDING_JOBS" "wire_ok (lk_recv l) buf p"
    and call: "handle_command env mnt mounted mem move blank (direct_command buf p) d = Inr (r, d')" "rs_command_ok r = SSTACK_SUCCESS"
    and pb: "\<forall>msg. first_message pb l (wire_payload buf p) job_id job priority s = Inr (Some msg) \<longrightarrow> carried pb msg"
      "carried pb (response_message pb (sequence s') job_id job priority r)"
  shows "\<exists>a. wire_call pb l l' (process_payload env mnt mounted mem move blank shared) (wire_payload buf p) job_id job priority s s' d =
      Inr (Some a, d', s\<lparr>sequence := sequence s + 1\<rparr>, s'\<lparr>sequence := sequence s' + 1\<rparr>) \<and>
    received_response a = r \<and> same_hdr job_id job priority a"
proof -
  obtain q where q: "transmit pb l (wire_payload buf p) job_id job priority s = Inr (0, Some q, s\<lparr>sequence := sequence s + 1\<rparr>)"
    "same_hdr job_id job priority q"
    "(if py_command q = Payload_Types.NFS_READ then Read_Extent (received_read q) else Write_Extent (received_write q)) = direct_command buf p"
    using request_delivered [OF assms(1,3,5,6) pb(1)] by blast
  have "success r" using call_response [OF call(1)] call(2) by (cases "ip_command p") (simp_all add: success_def)
  then obtain a where a: "transmit pb l' (response_payload (shared q) q r) job_id job priority s' =
      Inr (0, Some a, s'\<lparr>sequence := sequence s' + 1\<rparr>)" "received_response a = r" "same_hdr job_id job priority a"
    using response_delivered [OF assms(2,4,5) _ pb(2)] by blast
  have "py_hdr (response_payload (shared q) q r) = py_hdr q" by (simp add: response_payload_def Let_def)
  then show ?thesis
    using q a call(1) by (simp add: wire_call_def process_payload_def same_hdr_def)
qed


section \<open>The data of a file\<close>

text \<open>The answer that \<^verbatim>\<open>sfs_process_payload\<close> and the waiting thread get from a payload \<open>a\<close>, in the memory of \<open>p\<close>.\<close>

definition reply :: "sstack_payload \<Rightarrow> payload_t \<Rightarrow> sstack_payload \<times> io_response" where
  "reply p a = answer (p\<lparr>pl_job_id := hd_job_id (py_hdr a)\<rparr>) (received_response a)"

text \<open>A connection in both directions, and the two messages of a request and its answer, which the encoding restores.\<close>

definition connection ::
  "protobuf \<Rightarrow> link \<Rightarrow> link \<Rightarrow> serdes_state \<Rightarrow> serdes_state \<Rightarrow> 64 word \<Rightarrow> addr \<Rightarrow> 8 word list \<Rightarrow> io_payload \<Rightarrow> sd_response \<Rightarrow> bool" where
  "connection pb l l' w w' i job buf p r \<longleftrightarrow>
     link_ok l \<and> link_ok l' \<and> stream w = [] \<and> stream w' = [] \<and> unat i < MAX_OUTSTANDING_JOBS \<and>
     (\<forall>msg. first_message pb l (wire_payload buf p) i (of_nat job) 0 w = Inr (Some msg) \<longrightarrow> carried pb msg) \<and>
     carried pb (response_message pb (sequence w') i (of_nat job) 0 r)"

lemma connection_call:
  assumes "connection pb l l' w w' i job buf p r" "wire_ok (lk_recv l) buf p"
    and "handle_command env mnt mounted mem move blank (direct_command buf p) d = Inr (r, d')" "rs_command_ok r = SSTACK_SUCCESS"
  shows "\<exists>a. wire_call pb l l' (process_payload env mnt mounted mem move blank shared) (wire_payload buf p) i (of_nat job) 0 w w' d =
      Inr (Some a, d', w\<lparr>sequence := sequence w + 1\<rparr>, w'\<lparr>sequence := sequence w' + 1\<rparr>) \<and>
    (\<forall>q. reply q a = answer (q\<lparr>pl_job_id := i\<rparr>) r)"
proof -
  obtain a where a: "wire_call pb l l' (process_payload env mnt mounted mem move blank shared) (wire_payload buf p) i (of_nat job) 0 w w' d =
      Inr (Some a, d', w\<lparr>sequence := sequence w + 1\<rparr>, w'\<lparr>sequence := sequence w' + 1\<rparr>)" "received_response a = r" "same_hdr i (of_nat job) 0 a"
    using wire_call_ok [of l l' w w' i buf p env mnt mounted mem move blank d r d' pb "of_nat job" 0] assms unfolding connection_def by blast
  then show ?thesis by (auto simp: reply_def same_hdr_def)
qed

lemma io_wire_ok:
  assumes "length x \<le> MAX_EXTENT_SIZE"
  shows "wire_ok env x (write_io i job inum x)" "Payload_Serdes.handle_ok env h \<Longrightarrow> wire_ok env buf (read_io i job inum n h)"
  using assms
  by (simp_all add: wire_ok_def write_io_def read_io_def fill_io_def payload_zero_def clear_handle_def MAX_EXTENT_SIZE_def unat_of_nat take_bit_nat_eq_self)

lemma io_direct:
  assumes "length x < 2 ^ 31"
  shows "direct_command x (write_io i job inum x) = Write_Extent (first_request inum x)"
    "direct_command buf (read_io i job inum n h) =
      Read_Extent \<lparr>rq_inode_no = inum, rq_offset = 0, rq_read_ecode = False, rq_extent_handle = h\<rparr>"
  using io_requests [OF assms] by (simp_all add: direct_command_def) (simp_all add: write_io_def read_io_def fill_io_def)

lemma done_ok: "rs_command_ok (write_done n) = SSTACK_SUCCESS" "rs_command_ok (read_data x) = SSTACK_SUCCESS"
  by (simp_all add: write_done_def read_data_def)

text \<open>The extent that the sfsd stores for the first write, as the inode of the database shows it to a later read.\<close>

lemma stored_extent:
  assumes "first_extent denv (first_request inum x) inode d" "chunk_ready (se_now denv) d" "se_write denv = Some n" "length x \<le> n"
    "length x \<le> MAX_EXTENT_SIZE" "se_inode_mem denv'" "se_get_inode denv' = se_get_inode denv" "se_crc denv' = se_crc denv"
    "se_buffer denv' = Some b" "se_open denv'" "se_pread denv' = Some k" "length x \<le> k"
    and hdl: "hdl = new_handle (next_chunk (sd_chunk d)) (se_now denv)"
  shows "\<exists>d' ino e. handle_command denv mnt mounted mem move blank (Write_Extent (first_request inum x)) d = Inr (write_done (length x), d') \<and>
    handle_command denv' mnt mounted mem move blank
      (Read_Extent \<lparr>rq_inode_no = inum, rq_offset = 0, rq_read_ecode = False, rq_extent_handle = hdl\<rparr>) d' = Inr (read_data x, d') \<and>
    se_get_inode denv inum (sd_db d') = Inr ino \<and> i_num ino = inum \<and> i_primary ino = i_primary inode \<and> i_extent ino = [e] \<and>
    i_size ino = of_nat (length x) \<and> e_offset e = 0 \<and> e_size e = of_nat (length x) \<and> e_path e = Some hdl"
proof -
  have cmd: "wq_data (first_request inum x) = x" "wq_inode_no (first_request inum x) = inum" by (simp_all add: first_request_def)
  have "i_num inode = inum" using assms(1) cmd by (simp add: first_extent_def)
  then show ?thesis
    using sfsd_write_read [OF assms(1-3) _ _ assms(6-11), unfolded cmd, of mnt mounted mem move blank] assms(4,5,12)
    unfolding hdl write_done_def read_data_def by fastforce
qed


text \<open>A codec for two messages, and a write of three bytes to the file of the example.\<close>

definition wire_codec :: "pb_payload \<Rightarrow> pb_payload \<Rightarrow> protobuf" where
  "wire_codec m1 m2 = \<lparr>pb_first = Payload_Types.NFS_READ, pb_first_proto = NFS, pb_pack = (\<lambda>m. if m = m1 then [1] else [2]),
     pb_unpack = (\<lambda>b. if b = [1] then Some m1 else Some m2)\<rparr>"

lemma wire_codec_carried: "carried (wire_codec m1 m2) m1" "carried (wire_codec m1 m2) m2"
  by (auto simp: carried_def wire_codec_def SIZEOF_PAYLOAD_def)

definition wire_write :: io_payload where
  "wire_write = payload_zero\<lparr>ip_command := File_IO.NFS_WRITE, ip_inode_no := 11, ip_count := 3, ip_data_len := 3\<rparr>"

definition wire_answer :: sd_response where
  "wire_answer = \<lparr>rs_command = Dispatch.NFS_WRITE_RSP, rs_command_ok = SSTACK_SUCCESS, rs_data = [], rs_file_wc = 3\<rparr>"

definition wire_write_msg :: pb_payload where
  "wire_write_msg = sample_write_msg\<lparr>pm_command_struct := Some (pb_command_init\<lparr>pc_write_cmd := Some \<lparr>pw_inode_no = 11, pw_offset = 0,
     pw_count = 3, pw_data = \<lparr>pd_len = 3, pd_buf = [10, 11, 12]\<rparr>,
     pw_pe = \<lparr>pp_attr = \<lparr>pt_ver = 0, pt_qoslevel = 0, pt_ishidden = 0, pt_numreplicas = 0, pt_enable_dr = 0\<rparr>,
       pp_num_plugins = 0, pp_refcount = 0, pp_lock = 0, pp_index = 0\<rparr>\<rparr>\<rparr>)\<rparr>"

definition example_codec :: protobuf where
  "example_codec = wire_codec wire_write_msg
     \<lparr>pm_hdr = \<lparr>ph_sequence = 5, ph_payload_len = of_nat SIZEOF_HDR, ph_job_id = 2, ph_priority = 1, ph_arg = 77\<rparr>,
      pm_command = Payload_Types.NFS_WRITE_RSP, pm_storage = None, pm_command_struct = None,
      pm_response_struct = Some (pb_response_init\<lparr>ps_write_resp := Some (100, 3)\<rparr>)\<rparr>"

lemma example_messages:
  "first_message example_codec sample_link (wire_payload [10, 11, 12] wire_write) 2 77 1 \<lparr>sequence = 1, stream = []\<rparr> = Inr (Some wire_write_msg)"
  "carried example_codec wire_write_msg" "carried example_codec (response_message example_codec 5 2 77 1 wire_answer)"
proof -
  show "first_message example_codec sample_link (wire_payload [10, 11, 12] wire_write) 2 77 1 \<lparr>sequence = 1, stream = []\<rparr> = Inr (Some wire_write_msg)"
    by (simp add: first_message_def new_message_def message_of_def wire_payload_def wire_command_def wire_write_def payload_zero_def
      wire_write_msg_def sample_write_msg_def clear_payload_def send_write_def send_policy_def send_data_def clear_policy_def
      storage_command_def Let_def)
  show "carried example_codec wire_write_msg" unfolding example_codec_def by (rule wire_codec_carried)
  show "carried example_codec (response_message example_codec 5 2 77 1 wire_answer)"
    using wire_codec_carried(2)
    by (simp add: response_message_def wire_answer_def new_message_def SSTACK_SUCCESS_def) (simp add: example_codec_def wire_codec_def)
qed



text \<open>A codec for a list of messages, and the four messages of a write and a read of three bytes.\<close>

definition list_codec :: "pb_payload list \<Rightarrow> protobuf" where
  "list_codec ms = \<lparr>pb_first = Payload_Types.NFS_READ, pb_first_proto = NFS, pb_pack = (\<lambda>m. replicate (length (takeWhile (\<lambda>x. x \<noteq> m) ms)) 0),
     pb_unpack = (\<lambda>b. if length b < length ms then Some (ms ! length b) else None)\<rparr>"

lemma list_codec_carried:
  assumes "m \<in> set ms" "length ms \<le> SIZEOF_PAYLOAD"
  shows "carried (list_codec ms) m"
proof -
  let ?n = "length (takeWhile (\<lambda>x. x \<noteq> m) ms)"
  obtain ys zs where "ms = ys @ m # zs" "m \<notin> set ys" using split_list_first [OF assms(1)] by blast
  then have "takeWhile (\<lambda>x. x \<noteq> m) ms = ys" by (auto simp: takeWhile_append)
  then have "?n < length ms" "ms ! ?n = m" using \<open>ms = ys @ m # zs\<close> by simp_all
  then show ?thesis using assms(2) by (simp add: carried_def list_codec_def)
qed

definition example_hdl :: file_handle where
  "example_hdl = new_handle example_storage 7"

definition request_messages :: "io_payload \<Rightarrow> serdes_state \<Rightarrow> pb_payload list" where
  "request_messages p w =
     (case first_message (list_codec []) sample_link (wire_payload [1, 2, 3] p) (next_job_id sample_io) 7 0 w of Inr (Some m) \<Rightarrow> [m] | _ \<Rightarrow> [])"

definition file_messages :: "pb_payload list" where
  "file_messages =
     request_messages (write_io (next_job_id sample_io) 7 11 [1, 2, 3]) \<lparr>sequence = 1, stream = []\<rparr> @
     request_messages (read_io (next_job_id sample_io) 7 11 3 example_hdl) \<lparr>sequence = 2, stream = []\<rparr> @
     [response_message (list_codec []) 5 (next_job_id sample_io) 7 0 (write_done 3),
      response_message (list_codec []) 6 (next_job_id sample_io) 7 0 (read_data [1, 2, 3])]"

lemma codec_messages:
  "first_message (list_codec ms) l (wire_payload buf p) i job pr w = first_message (list_codec []) l (wire_payload buf p) i job pr w"
  "response_message (list_codec ms) seq i job pr r = response_message (list_codec []) seq i job pr r"
proof -
  have new: "new_message (list_codec ms) seq i job pr = new_message (list_codec []) seq i job pr" for seq
    by (simp add: new_message_def list_codec_def)
  show "first_message (list_codec ms) l (wire_payload buf p) i job pr w = first_message (list_codec []) l (wire_payload buf p) i job pr w"
    by (cases "ip_command p")
      (simp_all add: first_message_def new message_of_def wire_payload_def wire_command_def clear_payload_def storage_command_def Let_def)
  show "response_message (list_codec ms) seq i job pr r = response_message (list_codec []) seq i job pr r"
    by (simp add: response_message_def new)
qed

lemma read_buffer_unused:
  "first_message pb l (wire_payload buf (read_io i job inum n h)) j k pr w = first_message pb l (wire_payload buf' (read_io i job inum n h)) j k pr w"
  by (simp add: first_message_def message_of_def wire_payload_def read_io_def fill_io_def wire_command_def clear_payload_def storage_command_def send_read_def Let_def)

lemma example_carried:
  "(\<forall>msg. first_message (list_codec []) sample_link (wire_payload [1, 2, 3] (write_io (next_job_id sample_io) 7 11 [1, 2, 3])) (next_job_id sample_io) 7 0
      \<lparr>sequence = 1, stream = []\<rparr> = Inr (Some msg) \<longrightarrow> msg \<in> set file_messages)"
  "(\<forall>msg. first_message (list_codec []) sample_link (wire_payload [1, 2, 3] (read_io (next_job_id sample_io) 7 11 3 example_hdl)) (next_job_id sample_io) 7 0
      \<lparr>sequence = 2, stream = []\<rparr> = Inr (Some msg) \<longrightarrow> msg \<in> set file_messages)"
  "length file_messages \<le> SIZEOF_PAYLOAD"
proof -
  have "length (request_messages p w) \<le> 1" for p w by (simp add: request_messages_def split: sum.split option.split)
  from this [of "write_io (next_job_id sample_io) 7 11 [1, 2, 3]" "\<lparr>sequence = 1, stream = []\<rparr>"]
    this [of "read_io (next_job_id sample_io) 7 11 3 example_hdl" "\<lparr>sequence = 2, stream = []\<rparr>"]
  show "length file_messages \<le> SIZEOF_PAYLOAD" by (simp add: file_messages_def SIZEOF_PAYLOAD_def)
qed (auto simp: file_messages_def request_messages_def)

lemma example_connections:
  "connection (list_codec file_messages) sample_link sample_link \<lparr>sequence = 1, stream = []\<rparr> \<lparr>sequence = 5, stream = []\<rparr> (next_job_id sample_io) 7
     [1, 2, 3] (write_io (next_job_id sample_io) 7 11 [1, 2, 3]) (write_done 3)"
  "connection (list_codec file_messages) sample_link sample_link \<lparr>sequence = 2, stream = []\<rparr> \<lparr>sequence = 6, stream = []\<rparr> (next_job_id sample_io) 7
     [0, 0, 0, 0, 0] (read_io (next_job_id sample_io) 7 11 3 example_hdl) (read_data [1, 2, 3])"
proof -
  note c = list_codec_carried [OF _ example_carried(3)]
  have id: "unat (next_job_id sample_io) < MAX_OUTSTANDING_JOBS" by (simp add: sample_io_id MAX_OUTSTANDING_JOBS_def)
  have "carried (list_codec file_messages) (response_message (list_codec []) 5 (next_job_id sample_io) 7 0 (write_done 3))"
    "carried (list_codec file_messages) (response_message (list_codec []) 6 (next_job_id sample_io) 7 0 (read_data [1, 2, 3]))"
    by (rule c, simp add: file_messages_def)+
  then show "connection (list_codec file_messages) sample_link sample_link \<lparr>sequence = 1, stream = []\<rparr> \<lparr>sequence = 5, stream = []\<rparr>
       (next_job_id sample_io) 7 [1, 2, 3] (write_io (next_job_id sample_io) 7 11 [1, 2, 3]) (write_done 3)"
    "connection (list_codec file_messages) sample_link sample_link \<lparr>sequence = 2, stream = []\<rparr> \<lparr>sequence = 6, stream = []\<rparr> (next_job_id sample_io) 7
       [0, 0, 0, 0, 0] (read_io (next_job_id sample_io) 7 11 3 example_hdl) (read_data [1, 2, 3])"
    using sample_link_ok id c example_carried(1,2) unfolding connection_def codec_messages [of file_messages]
      read_buffer_unused [of _ _ "[0, 0, 0, 0, 0]" _ _ _ _ _ _ _ _ _ "[1, 2, 3]"] by simp_all
qed

lemma example_next: "next_chunk (sd_chunk example_state) = example_storage"
  by (simp add: next_chunk_def example_state_def chunks_def)

lemma seven: "decimal 7 = ''7''"
  by code_simp

lemma example_hdl_ok: "Payload_Serdes.handle_ok (lk_recv sample_link) example_hdl"
  by (simp add: Payload_Serdes.handle_ok_def example_hdl_def new_handle_def extent_name_def example_storage_def seven c_string_def PATH_MAX_def
      IPV4_ADDR_MAX_def sample_link_def)


end
