(* ===== verification/Storage_Path.thy ===== *)
theory Storage_Path
  imports Cli_Server Wire_Path
begin

text \<open>
  The path of a storage command behind the handler of the command line: its payload as \<^verbatim>\<open>sstack_send_payload\<close> gets it, the device that
  \<^verbatim>\<open>handle_command\<close> of src/sfsd/src/sfsd_threads.c takes from the payload it receives, its answer, and the answer as
  \<^verbatim>\<open>sfs_process_payload\<close> gets it.
\<close>

section \<open>Payloads\<close>

definition storage_wire_command :: "payload_command \<Rightarrow> sstack_command_t" where
  "storage_wire_command c = (case c of Storage_Cmd.SSTACK_ADD_STORAGE \<Rightarrow> Payload_Types.SSTACK_ADD_STORAGE
     | Storage_Cmd.SSTACK_REMOVE_STORAGE \<Rightarrow> Payload_Types.SSTACK_REMOVE_STORAGE
     | Storage_Cmd.SSTACK_UPDATE_STORAGE \<Rightarrow> Payload_Types.SSTACK_UPDATE_STORAGE)"

definition type_number :: "sstack_storage_type \<Rightarrow> 32 word" where
  "type_number t = (case t of SSTACK_STORAGE_HDD \<Rightarrow> 1 | SSTACK_STORAGE_SSD \<Rightarrow> 2 | Unlisted_Type n \<Rightarrow> n)"

text \<open>The protocol in the first four bytes of an address, low byte first.\<close>

definition address_family :: "8 word list \<Rightarrow> sstack_network_protocol option" where
  "address_family a =
     (let n = of_nat (foldr (\<lambda>b n. unat b + 256 * n) (take 4 a) 0) in
      if n = 0 then None else if n = 1 then Some IPV4 else if n = 2 then Some IPV6 else Some (Unlisted_Network n))"

text \<open>The payload that the handler has filled in; what it does not set has been cleared.\<close>

definition storage_wire :: "storage_payload \<Rightarrow> payload_t" where
  "storage_wire p =
     (clear_payload (storage_wire_command (sp_command p)))\<lparr>py_storage := clear_storage\<lparr>sr_path := sp_path p,
       sr_weight := type_number (sp_weight p), sr_nblocks := sp_nblocks p, sr_protocol := sp_protocol p,
       sr_family := address_family (sp_address p), sr_address := bytes_str (drop 4 (sp_address p))\<rparr>\<rparr>"

definition received_storage :: "payload_t \<Rightarrow> sfsd_storage" where
  "received_storage q =
     (let st = py_storage q in
      \<lparr>sg_path = sr_path st, sg_mount_point = sr_mount_point st, sg_weight = sr_weight st, sg_nblocks = sr_nblocks st,
       sg_protocol = sr_protocol st,
       sg_address = \<lparr>na_protocol = (case sr_family st of None \<Rightarrow> Unlisted_Network 0 | Some f \<Rightarrow> f), na_address = sr_address st\<rparr>\<rparr>)"

text \<open>
  The sfsd handles a storage command and turns its payload into the answer; \<open>shared\<close> is what the memory of the command holds as a response.
\<close>

definition storage_rsp_payload :: "response_t \<Rightarrow> payload_t \<Rightarrow> sd_response \<Rightarrow> payload_t" where
  "storage_rsp_payload rest q r =
     q\<lparr>py_command := (if rs_command r = Dispatch.SSTACK_ADD_STORAGE_RSP then Payload_Types.SSTACK_ADD_STORAGE_RSP
         else if rs_command r = Dispatch.SSTACK_UPDATE_STORAGE_RSP then Payload_Types.SSTACK_UPDATE_STORAGE_RSP
         else Payload_Types.SSTACK_REMOVE_STORAGE_RSP),
       py_response_struct := rest\<lparr>ro_command_ok := of_int (rs_command_ok r)\<rparr>\<rparr>"

definition process_storage ::
  "('d, 'z) sd_env_scheme \<Rightarrow> string option \<Rightarrow> bool \<Rightarrow> bool \<times> bool \<Rightarrow> (nat \<Rightarrow> sfsd_storage \<Rightarrow> sfsd_storage \<Rightarrow> sfsd_storage) \<Rightarrow>
   sfsd_storage \<Rightarrow> (payload_t \<Rightarrow> response_t) \<Rightarrow> payload_t \<Rightarrow> 'd sd_state \<Rightarrow> (payload_t \<times> 'd sd_state) exec" where
  "process_storage env mnt mounted mem move blank shared q d =
     (let st = received_storage q in
      exec_bind (handle_command env mnt mounted mem move blank
        (if py_command q = Payload_Types.SSTACK_ADD_STORAGE then Add_Storage st
         else if py_command q = Payload_Types.SSTACK_UPDATE_STORAGE then Update_Storage st else Remove_Storage st) d) (\<lambda>(r, d).
      Inr (storage_rsp_payload (shared q) q r, d)))"

text \<open>The answer as it is given to \<^verbatim>\<open>sfs_process_payload\<close>, at the address \<open>p\<close>; \<open>ecode\<close> is what the union holds of a read.\<close>

definition received_answer :: "addr \<Rightarrow> bool \<Rightarrow> payload_t \<Rightarrow> sstack_payload" where
  "received_answer p ecode a =
     \<lparr>pl_addr = p,
      pl_command = (if py_command a = Payload_Types.SSTACK_ADD_STORAGE_RSP then Dispatch.SSTACK_ADD_STORAGE_RSP
        else if py_command a = Payload_Types.SSTACK_UPDATE_STORAGE_RSP then Dispatch.SSTACK_UPDATE_STORAGE_RSP
        else if py_command a = Payload_Types.SSTACK_REMOVE_STORAGE_RSP then Dispatch.SSTACK_REMOVE_STORAGE_RSP
        else Other_command),
      pl_job_id = hd_job_id (py_hdr a), command_ok = sint (ro_command_ok (py_response_struct a)), read_ecode = ecode\<rparr>"

section \<open>Adding a device\<close>

text \<open>The device that an added one becomes on the sfsd; its address has no family, which is not sent.\<close>

definition sfsd_device :: "storage_cmd \<Rightarrow> string \<Rightarrow> sfsd_storage" where
  "sfsd_device cmd m =
     \<lparr>sg_path = sc_rpath cmd, sg_mount_point = m, sg_weight = type_number (sc_type cmd), sg_nblocks = sc_size cmd,
      sg_protocol = sc_protocol cmd,
      sg_address = \<lparr>na_protocol = Unlisted_Network 0, na_address = bytes_str (drop 4 (sc_address cmd))\<rparr>\<rparr>"

definition add_answer :: sd_response where
  "add_answer = storage_response Dispatch.SSTACK_ADD_STORAGE_RSP SSTACK_SUCCESS"

lemma received_device:
  assumes "same_storage (storage_wire (fill_payload cmd i pr job p)) q" "sc_op cmd = STORAGE_ADD_CMD"
  shows "received_storage q = sfsd_device cmd []"
  using assms by (simp add: same_storage_def received_storage_def storage_wire_def fill_payload_def sfsd_device_def clear_storage_def Let_def)

lemma device_added:
  assumes "cd_ok (sd_chunk d)" "sc_protocol cmd = NFS" "length (chunks (sd_chunk d)) + 1 < 2 ^ 32" "length m \<le> MAX_MOUNT_POINT_LEN"
    "length (sc_rpath cmd) < PATH_MAX" "length (bytes_str (drop 4 (sc_address cmd))) < IPV4_ADDR_MAX"
  shows "\<exists>c. handle_command env (Some m) True (True, True) move blank (Add_Storage (sfsd_device cmd [])) d = Inr (add_answer, d\<lparr>sd_chunk := c\<rparr>) \<and>
    cd_ok c \<and> chunks c = chunks (sd_chunk d) @ [sfsd_device cmd m] \<and> cd_size_in_blks c = cd_size_in_blks (sd_chunk d) + sc_size cmd"
proof -
  have "mount_args_fit (sfsd_device cmd [])"
    using assms(5,6) by (simp add: mount_args_fit_def sfsd_device_def PATH_MAX_def IPV4_ADDR_MAX_def)
  then obtain c where c: "sfsd_add_chunk (Some m) True (True, True) (Some (sd_chunk d)) (Some (sfsd_device cmd [])) = Inr (Some m, Some c)" "cd_ok c"
    "chunks c = chunks (sd_chunk d) @ [(sfsd_device cmd [])\<lparr>sg_mount_point := take MAX_MOUNT_POINT_LEN m\<rparr>]"
    "cd_size_in_blks c = cd_size_in_blks (sd_chunk d) + sg_nblocks (sfsd_device cmd [])"
    using add_chunk_ok [OF assms(1) _ assms(3), of "sfsd_device cmd []" m] assms(2) by (auto simp: sfsd_device_def)
  then show ?thesis
    using assms(4) by (intro exI [of _ c]) (simp add: handle_command_def add_answer_def sfsd_device_def)
qed

lemma answer_back:
  assumes "same_response (storage_rsp_payload rest q add_answer) a" "same_hdr i job pr a"
  shows "received_answer p e a = \<lparr>pl_addr = p, pl_command = Dispatch.SSTACK_ADD_STORAGE_RSP, pl_job_id = i, command_ok = SSTACK_SUCCESS,
    read_ecode = e\<rparr>"
  using assms success_word
  by (simp add: received_answer_def same_response_def same_hdr_def storage_rsp_payload_def add_answer_def storage_response_def Let_def)

lemma storage_call:
  assumes "link_ok l" "link_ok l'" "stream s = []" "stream s' = []" "unat i < MAX_OUTSTANDING_JOBS"
    and cmd: "sc_op cmd = STORAGE_ADD_CMD" "sc_protocol cmd = NFS" "c_string (sc_rpath cmd)" "length (sc_rpath cmd) < PATH_MAX"
      "c_string (bytes_str (drop 4 (sc_address cmd)))" "length (bytes_str (drop 4 (sc_address cmd))) < IPV4_ADDR_MAX"
    and d: "cd_ok (sd_chunk d)" "length (chunks (sd_chunk d)) + 1 < 2 ^ 32" "length m \<le> MAX_MOUNT_POINT_LEN"
    and pb: "\<forall>msg. first_message pb l (storage_wire (fill_payload cmd i pr job p)) i arg prio s = Inr (Some msg) \<longrightarrow> carried pb msg"
      "\<forall>q msg. first_message pb l' (storage_rsp_payload (shared q) q add_answer) i arg prio s' = Inr (Some msg) \<longrightarrow> carried pb msg"
  shows "\<exists>a c. wire_call pb l l' (process_storage env (Some m) True (True, True) move blank shared) (storage_wire (fill_payload cmd i pr job p))
      i arg prio s s' d =
      Inr (Some a, d\<lparr>sd_chunk := c\<rparr>, s\<lparr>sequence := sequence s + 1\<rparr>, s'\<lparr>sequence := sequence s' + 1\<rparr>) \<and>
    (\<forall>p e. received_answer p e a = \<lparr>pl_addr = p, pl_command = Dispatch.SSTACK_ADD_STORAGE_RSP, pl_job_id = i, command_ok = SSTACK_SUCCESS,
       read_ecode = e\<rparr>) \<and>
    cd_ok c \<and> chunks c = chunks (sd_chunk d) @ [sfsd_device cmd m] \<and> cd_size_in_blks c = cd_size_in_blks (sd_chunk d) + sc_size cmd"
proof -
  let ?p = "storage_wire (fill_payload cmd i pr job p)"
  have add: "py_command ?p = Payload_Types.SSTACK_ADD_STORAGE"
    using cmd(1) by (simp add: storage_wire_def fill_payload_def storage_wire_command_def clear_payload_def Let_def)
  have fits: "storage_command (py_command ?p)" "storage_fits (py_storage ?p)"
    using add cmd by (simp_all add: storage_command_def storage_fits_def storage_wire_def fill_payload_def clear_storage_def Let_def
      c_string_def MAX_MOUNT_POINT_LEN_def)
  obtain q where q: "transmit pb l ?p i arg prio s = Inr (0, Some q, s\<lparr>sequence := sequence s + 1\<rparr>)"
    "py_command q = Payload_Types.SSTACK_ADD_STORAGE" "same_storage ?p q" "same_hdr i arg prio q"
    using storage_delivered [OF assms(1,3,5) pb(1) fits] add by auto
  obtain c where c: "handle_command env (Some m) True (True, True) move blank (Add_Storage (sfsd_device cmd [])) d = Inr (add_answer, d\<lparr>sd_chunk := c\<rparr>)"
    "cd_ok c" "chunks c = chunks (sd_chunk d) @ [sfsd_device cmd m]" "cd_size_in_blks c = cd_size_in_blks (sd_chunk d) + sc_size cmd"
    using device_added [OF d(1) cmd(2) d(2,3) cmd(4,6)] by blast
  have rsp: "status_rsp (py_command (storage_rsp_payload (shared q) q add_answer))"
    "py_hdr (storage_rsp_payload (shared q) q add_answer) = py_hdr q"
    by (simp_all add: storage_rsp_payload_def add_answer_def storage_response_def status_rsp_def)
  obtain a where a: "transmit pb l' (storage_rsp_payload (shared q) q add_answer) i arg prio s' =
      Inr (0, Some a, s'\<lparr>sequence := sequence s' + 1\<rparr>)" "same_response (storage_rsp_payload (shared q) q add_answer) a" "same_hdr i arg prio a"
    using status_delivered [OF assms(2,4,5) _ rsp(1)] pb(2) by blast
  have "wire_call pb l l' (process_storage env (Some m) True (True, True) move blank shared) ?p i arg prio s s' d =
      Inr (Some a, d\<lparr>sd_chunk := c\<rparr>, s\<lparr>sequence := sequence s + 1\<rparr>, s'\<lparr>sequence := sequence s' + 1\<rparr>)"
    using q c(1) a(1) rsp(2) received_device [OF q(3) cmd(1)] by (simp add: wire_call_def process_storage_def same_hdr_def)
  then show ?thesis using answer_back [OF a(2,3)] c(2-4) by blast
qed

end
