(* ===== verification/Xattr.thy ===== *)
theory Xattr
  imports Inode_Record File_Lock
begin

text \<open>
  The extended attributes of files in \<^verbatim>\<open>sfs/src/sfs_entry.c\<close>: \<^verbatim>\<open>sfs_setxattr\<close>, \<^verbatim>\<open>sfs_getxattr\<close>,
  \<^verbatim>\<open>sfs_listxattr\<close> and \<^verbatim>\<open>sfs_removexattr\<close> with the functions they use, and \<^verbatim>\<open>sstack_free_inode_res\<close> of
  \<^verbatim>\<open>common/src/sstack_helper.c\<close>.  The attributes of an inode are a block of records \<open>name=value\<close>, each
  ended by a null byte, which is read and changed byte by byte on the heap of the inode records.

  The inode number that memcached and \<^verbatim>\<open>atoll\<close> deliver for a path, what the local inode
  and the local \<^verbatim>\<open>size\<close> hold before they are set, the database and the outcomes of allocations are the
  fields of an environment.  Calls of the log are left out.
\<close>

abbreviation EEXIST :: int where "EEXIST \<equiv> 17"
abbreviation ENOATTR :: int where "ENOATTR \<equiv> 61"

definition MAX_KEY_LEN :: nat where "MAX_KEY_LEN = 128"

definition XATTR_CREATE :: int where "XATTR_CREATE = 1"
definition XATTR_REPLACE :: int where "XATTR_REPLACE = 2"

definition EQUALS :: "8 word" where "EQUALS = 61"

section \<open>Blocks\<close>

text \<open>
  \<^verbatim>\<open>*(p + i)\<close> for an index of type \<^verbatim>\<open>int\<close>, writing through a pointer, \<^verbatim>\<open>free\<close>, and \<^verbatim>\<open>realloc\<close> to \<open>n > 0\<close>
  bytes at address \<open>q\<close>, or without success if \<open>q\<close> is null.
\<close>

definition char_at :: "heap \<Rightarrow> 64 word \<Rightarrow> nat \<Rightarrow> 8 word exec" where
  "char_at h p i = (if 2 ^ 31 \<le> i then Inl Undefined else exec_bind (mem_read h p i 1) (\<lambda>x. Inr (hd x)))"

definition mem_write :: "heap \<Rightarrow> 64 word \<Rightarrow> nat \<Rightarrow> 8 word list \<Rightarrow> heap exec" where
  "mem_write h p i xs =
     (if xs = [] then Inr h
      else if p = 0 then Inl Null_Deref
      else case h p of None \<Rightarrow> Inl Bad_Access | Some b \<Rightarrow> exec_bind (put_at i xs b) (\<lambda>b. Inr (h(p \<mapsto> b))))"

definition mem_free :: "heap \<Rightarrow> 64 word \<Rightarrow> heap exec" where
  "mem_free h p = (if p = 0 then Inr h else case h p of None \<Rightarrow> Inl Bad_Access | Some b \<Rightarrow> Inr (h(p := None)))"

definition mem_realloc :: "(nat \<Rightarrow> 8 word) \<Rightarrow> 64 word \<Rightarrow> heap \<Rightarrow> 64 word \<Rightarrow> nat \<Rightarrow> heap option exec" where
  "mem_realloc junk q h p n =
     (if p \<noteq> 0 \<and> h p = None then Inl Bad_Access
      else if q = 0 then Inr None
      else Inr (Some ((h(p := None))(q \<mapsto> resize junk n (block_of h p)))))"

text \<open>Setting \<^verbatim>\<open>i_xattrlen\<close> among the fixed fields.\<close>

definition set_xattrlen :: "32 word \<Rightarrow> mem_inode \<Rightarrow> mem_inode" where
  "set_xattrlen n inode =
     inode\<lparr>in_fixed := take 4252 (in_fixed inode) @ le_bytes 4 (unat n) @ drop 4256 (in_fixed inode)\<rparr>"

section \<open>Freeing an inode\<close>

fun free_paths :: "heap \<Rightarrow> 64 word \<Rightarrow> nat \<Rightarrow> nat \<Rightarrow> heap exec" where
  "free_paths h p i 0 = Inr h"
| "free_paths h p i (Suc n) =
     exec_bind (mem_read h p (EXTENT_SIZE * i + EXTENT_FIXED) 8) (\<lambda>q.
     exec_bind (mem_free h (rd64 0 q)) (\<lambda>h. free_paths h p (Suc i) n))"

definition sstack_free_erasure :: "heap \<Rightarrow> 64 word \<Rightarrow> int \<Rightarrow> heap exec" where
  "sstack_free_erasure h erasure num_erasure =
     (if erasure = 0 then Inr h
      else exec_bind (free_paths h erasure 0 (nat num_erasure)) (\<lambda>h. mem_free h erasure))"

definition sstack_free_inode_res :: "heap \<Rightarrow> mem_inode option \<Rightarrow> heap exec" where
  "sstack_free_inode_res h inode =
     (case inode of None \<Rightarrow> Inr h | Some inode \<Rightarrow>
      exec_bind (if sint (xattrlen (in_fixed inode)) > 0 then mem_free h (in_xattr inode) else Inr h) (\<lambda>h.
      exec_bind (if sint (numextents (in_fixed inode)) > 0 then mem_free h (in_extent inode) else Inr h) (\<lambda>h.
      if numerasure (in_fixed inode) > 0 \<and> in_erasure inode \<noteq> 0
      then sstack_free_erasure h (in_erasure inode) (sint (numerasure (in_fixed inode)))
      else Inr h)))"

section \<open>The walk over the records\<close>

text \<open>
  The copy of a name up to \<open>=\<close>.  \<^verbatim>\<open>xattr_remove\<close> stores it at the start of \<^verbatim>\<open>key\<close> (\<open>own\<close>); all others
  store it at the offset that it has in the block.
\<close>

lemma char_at_Inr: "char_at h p i = Inr c \<longleftrightarrow> i < 2 ^ 31 \<and> p \<noteq> 0 \<and> (\<exists>b. h p = Some b \<and> i < length b \<and> c = b ! i)"
  by (auto simp: char_at_def mem_read_def get_at_def exec_bind_Inr_iff hd_drop_conv_nth take_Suc
      split: option.splits if_splits)

lemma char_at_inside: "char_at h p i = Inr c \<Longrightarrow> i < length (block_of h p)"
  by (auto simp: char_at_Inr block_of_def)

function copy_key :: "bool \<Rightarrow> heap \<Rightarrow> 64 word \<Rightarrow> nat \<Rightarrow> nat \<Rightarrow> 8 word list \<Rightarrow> (nat \<times> nat \<times> 8 word list) exec" where
  "copy_key own h p i j key =
     exec_bind (char_at h p i) (\<lambda>c.
     if c = EQUALS then Inr (i, j, key)
     else exec_bind (put_at (if own then j else i) [c] key) (\<lambda>key. copy_key own h p (i + 1) (j + 1) key))"
  by pat_completeness auto
termination
  by (relation "measure (\<lambda>(own, h, p, i, j, key). length (block_of h p) - i)") (auto dest: char_at_inside)

function skip_value :: "heap \<Rightarrow> 64 word \<Rightarrow> nat \<Rightarrow> nat exec" where
  "skip_value h p i = exec_bind (char_at h p i) (\<lambda>c. if c = 0 then Inr i else skip_value h p (i + 1))"
  by pat_completeness auto
termination
  by (relation "measure (\<lambda>(h, p, i). length (block_of h p) - i)") (auto dest: char_at_inside)

declare copy_key.simps [simp del] skip_value.simps [simp del]

lemma copy_key_forward: "copy_key own h p i j key = Inr (i', j', key') \<Longrightarrow> i \<le> i' \<and> i' - i = j' - j \<and> j \<le> j'"
proof (induction own h p i j key rule: copy_key.induct)
  case (1 own h p i j key)
  from 1(2) show ?case
    by (subst (asm) copy_key.simps) (force simp: exec_bind_Inr_iff split: if_splits dest: 1(1))
qed

lemma skip_value_forward: "skip_value h p i = Inr e \<Longrightarrow> i \<le> e \<and> char_at h p e = Inr 0"
proof (induction h p i rule: skip_value.induct)
  case (1 h p i)
  from 1(2) show ?case
    by (subst (asm) skip_value.simps) (force simp: exec_bind_Inr_iff split: if_splits dest: 1(1))
qed

text \<open>One record: the end of its name, the length of the name and what \<^verbatim>\<open>key\<close> holds.\<close>

definition read_key :: "bool \<Rightarrow> heap \<Rightarrow> 64 word \<Rightarrow> nat \<Rightarrow> (nat \<times> nat \<times> 8 word list) exec" where
  "read_key own h p i =
     exec_bind (copy_key own h p i 0 (replicate MAX_KEY_LEN 0)) (\<lambda>(i, j, key).
     exec_bind (put_at (j + 1) [0] key) (\<lambda>key. Inr (i, j, key)))"

text \<open>
  Where a walk stops: at the \<open>=\<close> of the record that has been looked for, with the start of the record, or
  behind the records.
\<close>

datatype xattr_walk = Found nat nat "8 word list" | Ended nat

lemma walk_forward:
  assumes "char_at h p i = Inr c" "c \<noteq> 0" "read_key own h p i = Inr (i', j, key)" "skip_value h p (i' + k) = Inr e"
  shows "i < e"
proof -
  have "i \<le> e" using assms(3) copy_key_forward [of own h p i 0] skip_value_forward [OF assms(4)]
    by (fastforce simp: read_key_def exec_bind_Inr_iff)
  moreover have "i \<noteq> e" using skip_value_forward [OF assms(4)] assms(1,2) by auto
  ultimately show ?thesis by simp
qed

function find_xattr :: "bool \<Rightarrow> heap \<Rightarrow> 64 word \<Rightarrow> int \<Rightarrow> string \<Rightarrow> nat \<Rightarrow> xattr_walk exec" where
  "find_xattr own h p len name i =
     (if int i < len then
        exec_bind (char_at h p i) (\<lambda>c.
        if c = 0 then find_xattr own h p len name (i + 1)
        else
        exec_bind (read_key own h p i) (\<lambda>(i', j, key).
        if bytes_str key = name then Inr (Found i i' key)
        else
        exec_bind (skip_value h p (i' + (if own then length (bytes_str key) else j))) (\<lambda>e.
        find_xattr own h p len name e)))
      else Inr (Ended i))"
  by pat_completeness auto
termination
  by (relation "measure (\<lambda>(own, h, p, len, name, i). nat (len - int i))") (auto dest: walk_forward)

declare find_xattr.simps [simp del]

section \<open>Helpers of the operations\<close>

record 's xattr_state =
  xa_locks :: fl_globals
  xa_heap :: heap
  xa_db :: 's
  xa_errno :: int

record 's xattr_env =
  xe_inode_num :: "string \<Rightarrow> 64 word option"
  xe_size :: "64 word"
  xe_inode :: mem_inode
  xe_lock_node :: "sstack_file_lock option"
  xe_lock_key :: sstack_file_lock
  xe_al :: "nat \<Rightarrow> 64 word"
  xe_junk :: "nat \<Rightarrow> 8 word"
  xe_realloc :: "64 word"
  xe_db :: "'s inode_db option"
  xe_ok :: "nat \<Rightarrow> bool"
  xe_moved :: bool
  xe_beyond :: "8 word list"

text \<open>The end of \<^verbatim>\<open>replace_xattr\<close> and \<^verbatim>\<open>append_xattr\<close>; both change the caller's inode.\<close>

definition store_xattr :: "'s xattr_env \<Rightarrow> mem_inode \<Rightarrow> 's xattr_state \<Rightarrow> (int \<times> mem_inode \<times> 's xattr_state) exec" where
  "store_xattr env inode s =
     exec_bind (put_inode (xe_ok env) (xe_moved env) (xe_beyond env) (xa_heap s) (Some inode) (xe_db env) 1 (xa_db s)) (\<lambda>(ret, t).
     Inr (if ret \<noteq> 0 then -1 else 0, inode, s\<lparr>xa_db := t\<rparr>))"

text \<open>
  The old value has \<open>j\<close> bytes from offset \<open>i\<close> on.  \<open>None\<close>: there is no memory.  The numbers of bytes to move
  are computed as \<^verbatim>\<open>size_t\<close>.
\<close>

definition replace_value ::
  "'s xattr_env \<Rightarrow> heap \<Rightarrow> mem_inode \<Rightarrow> nat \<Rightarrow> nat \<Rightarrow> 8 word list \<Rightarrow> 64 word \<Rightarrow> (mem_inode \<times> heap) option exec" where
  "replace_value env h inode i j value len =
     (let p = in_xattr inode; n = xattrlen (in_fixed inode); rest = unat (scast n - (of_nat j - len) :: 64 word) in
      if len < of_nat j then
        exec_bind (get_at 0 (unat len) value) (\<lambda>v.
        exec_bind (mem_write h p i v) (\<lambda>h.
        exec_bind (mem_read h p (i + j) rest) (\<lambda>x.
        exec_bind (mem_write h p (i + unat len) x) (\<lambda>h.
        Inr (Some (set_xattrlen (n - of_nat j + ucast len) inode, h))))))
      else if len = of_nat j then
        exec_bind (get_at 0 (unat len) value) (\<lambda>v.
        exec_bind (mem_write h p i v) (\<lambda>h. Inr (Some (inode, h))))
      else
        exec_bind (mem_realloc (xe_junk env) (xe_realloc env) h p (unat (scast n + (len - of_nat j) :: 64 word))) (\<lambda>r.
        case r of None \<Rightarrow> Inr None | Some h \<Rightarrow>
        let temp = xe_realloc env in
        exec_bind (mem_read h temp (i + j) rest) (\<lambda>x.
        exec_bind (mem_write h temp (i + unat len) x) (\<lambda>h.
        exec_bind (get_at 0 (unat len) value) (\<lambda>v.
        exec_bind (mem_write h temp i v) (\<lambda>h.
        Inr (Some ((set_xattrlen (n + ucast (len - of_nat j)) inode)\<lparr>in_xattr := temp\<rparr>, h))))))))"

text \<open>Without a match the walk ends behind the records, and what follows is taken for the value.\<close>

definition replace_xattr ::
  "'s xattr_env \<Rightarrow> mem_inode \<Rightarrow> string option \<Rightarrow> 8 word list option \<Rightarrow> 64 word \<Rightarrow> 's xattr_state \<Rightarrow>
   (int \<times> mem_inode \<times> 's xattr_state) exec" where
  "replace_xattr env inode name value len s =
     (case (name, value) of
        (Some name, Some value) \<Rightarrow>
          if len = 0 then Inr (-1, inode, s\<lparr>xa_errno := EINVAL\<rparr>)
          else
          let p = in_xattr inode; h = xa_heap s in
          exec_bind (find_xattr False h p (sint (xattrlen (in_fixed inode))) name 0) (\<lambda>w.
          let i = (case w of Found pos i key \<Rightarrow> i | Ended i \<Rightarrow> i) + 1 in
          exec_bind (skip_value h p i) (\<lambda>e.
          exec_bind (replace_value env h inode i (e - i) value len) (\<lambda>r.
          case r of
            None \<Rightarrow> Inr (-1, inode, s\<lparr>xa_errno := ENOMEM\<rparr>)
          | Some (inode, h) \<Rightarrow> store_xattr env inode (s\<lparr>xa_heap := h\<rparr>))))
      | _ \<Rightarrow> Inr (-1, inode, s\<lparr>xa_errno := EINVAL\<rparr>))"

text \<open>\<^verbatim>\<open>strcpy\<close> from an array; the terminator has to be in it.\<close>

definition string_in :: "8 word list \<Rightarrow> 8 word list exec" where
  "string_in b = (if 0 \<in> set b then Inr (takeWhile (\<lambda>x. x \<noteq> 0) b @ [0]) else Inl Bad_Access)"

text \<open>The length of the name is only set if it is too long.\<close>

definition key_len_of :: "string \<Rightarrow> nat" where
  "key_len_of name = (if length name > MAX_KEY_LEN then MAX_KEY_LEN else 0)"

definition append_record :: "heap \<Rightarrow> 64 word \<Rightarrow> int \<Rightarrow> string \<Rightarrow> 8 word list \<Rightarrow> heap exec" where
  "append_record h p n name value =
     (if n < 0 then Inl Bad_Access
      else
      let key_len = key_len_of name; cur_len = nat n in
      exec_bind (mem_write h p cur_len (take key_len (str_bytes name))) (\<lambda>h.
      exec_bind (mem_write h p (cur_len + key_len) [EQUALS]) (\<lambda>h.
      if 2 ^ 31 \<le> cur_len + key_len + 1 then Inl Undefined
      else
      exec_bind (string_in value) (\<lambda>v. mem_write h p (cur_len + key_len + 1) v))))"

definition append_xattr ::
  "'s xattr_env \<Rightarrow> mem_inode \<Rightarrow> string option \<Rightarrow> 8 word list option \<Rightarrow> 64 word \<Rightarrow> 's xattr_state \<Rightarrow>
   (int \<times> mem_inode \<times> 's xattr_state) exec" where
  "append_xattr env inode name value len s =
     (case (name, value) of
        (Some name, Some value) \<Rightarrow>
          let key_len = key_len_of name; n = xattrlen (in_fixed inode); p = xe_realloc env in
          if len = 0 then Inr (-1, inode, s\<lparr>xa_errno := EINVAL\<rparr>)
          else if 2 ^ 31 \<le> sint n + int key_len then Inl Undefined
          else
          exec_bind (mem_realloc (xe_junk env) p (xa_heap s) (in_xattr inode)
                      (unat (scast (n + of_nat key_len) + len + 1 + 1 :: 64 word))) (\<lambda>r.
          case r of
            None \<Rightarrow> Inr (-1, inode, s\<lparr>xa_errno := ENOMEM\<rparr>)
          | Some h \<Rightarrow>
              exec_bind (append_record h p (sint n) name value) (\<lambda>h.
              store_xattr env ((set_xattrlen (n + of_nat key_len + 1 + ucast len) inode)\<lparr>in_xattr := p\<rparr>)
                (s\<lparr>xa_heap := h\<rparr>)))
      | _ \<Rightarrow> Inr (-1, inode, s\<lparr>xa_errno := EINVAL\<rparr>))"

definition xattr_exists :: "mem_inode \<Rightarrow> string option \<Rightarrow> 's xattr_state \<Rightarrow> (int \<times> 's xattr_state) exec" where
  "xattr_exists inode name s =
     (case name of
        None \<Rightarrow> Inr (-1, s\<lparr>xa_errno := EINVAL\<rparr>)
      | Some name \<Rightarrow>
          if in_xattr inode = 0 \<or> xattrlen (in_fixed inode) = 0 then Inr (-1, s\<lparr>xa_errno := EINVAL\<rparr>)
          else
          exec_bind (find_xattr False (xa_heap s) (in_xattr inode) (sint (xattrlen (in_fixed inode))) name 0) (\<lambda>w.
          case w of Found pos i key \<Rightarrow> Inr (1, s) | Ended i \<Rightarrow> Inr (-1, s)))"

section \<open>The operations\<close>

text \<open>
  The beginning that all operations share: inode number, lock and inode.  \<open>fail\<close> is what they return
  without one of these.
\<close>

definition xattr_unlock :: "'s xattr_env \<Rightarrow> 64 word \<Rightarrow> 'r \<Rightarrow> 's xattr_state \<Rightarrow> ('r \<times> 's xattr_state) exec" where
  "xattr_unlock env inum r s =
     exec_bind (sfs_unlock (xe_lock_key env) inum (xa_locks s)) (\<lambda>(_, l). Inr (r, s\<lparr>xa_locks := l\<rparr>))"

definition xattr_open ::
  "(64 word \<Rightarrow> fl_globals \<Rightarrow> (int \<times> fl_globals) exec) \<Rightarrow> 's xattr_env \<Rightarrow> string \<Rightarrow> 'r \<Rightarrow>
   (64 word \<Rightarrow> mem_inode \<Rightarrow> 's xattr_state \<Rightarrow> ('r \<times> 's xattr_state) exec) \<Rightarrow> 's xattr_state \<Rightarrow> ('r \<times> 's xattr_state) exec" where
  "xattr_open lock env path fail rest s =
     (case xe_inode_num env path of None \<Rightarrow> Inr (fail, s\<lparr>xa_errno := ENOENT\<rparr>) | Some inum \<Rightarrow>
      exec_bind (lock inum (xa_locks s)) (\<lambda>(ret, l).
      let s = s\<lparr>xa_locks := l\<rparr> in
      if ret = -1 then Inr (fail, s\<lparr>xa_errno := EAGAIN\<rparr>)
      else
      exec_bind (get_inode (xe_al env) (xe_junk env) (xa_heap s) inum (Some (xe_inode env)) (xe_db env) (xa_db s)) (\<lambda>(ret, inode, h).
      let s = s\<lparr>xa_heap := h\<rparr> in
      if ret \<noteq> 0 then xattr_unlock env inum fail (s\<lparr>xa_errno := ret\<rparr>)
      else case inode of None \<Rightarrow> Inl Null_Deref | Some inode \<Rightarrow> rest inum inode s)))"

definition xattr_close ::
  "'s xattr_env \<Rightarrow> 64 word \<Rightarrow> mem_inode \<Rightarrow> 'r \<Rightarrow> 's xattr_state \<Rightarrow> ('r \<times> 's xattr_state) exec" where
  "xattr_close env inum inode r s =
     exec_bind (sstack_free_inode_res (xa_heap s) (Some inode)) (\<lambda>h. xattr_unlock env inum r (s\<lparr>xa_heap := h\<rparr>))"

text \<open>What \<^verbatim>\<open>sfs_setxattr\<close> does with the inode, once it has the lock.\<close>

definition set_locked ::
  "'s xattr_env \<Rightarrow> string option \<Rightarrow> 8 word list option \<Rightarrow> 64 word \<Rightarrow> int \<Rightarrow> 64 word \<Rightarrow> mem_inode \<Rightarrow> 's xattr_state \<Rightarrow>
   (int \<times> 's xattr_state) exec" where
  "set_locked env name value len flags inum inode s =
     (let finish = (\<lambda>(ret, inode, s). xattr_close env inum inode (if ret = -1 then -1 else 0) s) in
      if flags = XATTR_CREATE then
        exec_bind (xattr_exists inode name s) (\<lambda>(r, s).
        if r = 1 then xattr_close env inum inode (-1) (s\<lparr>xa_errno := EEXIST\<rparr>)
        else exec_bind (append_xattr env inode name value len s) finish)
      else if flags = XATTR_REPLACE then
        exec_bind (xattr_exists inode name s) (\<lambda>(r, s).
        if r \<noteq> 1 then xattr_close env inum inode (-1) (s\<lparr>xa_errno := ENOATTR\<rparr>)
        else exec_bind (replace_xattr env inode name value len s) finish)
      else if flags = 0 then
        exec_bind (xattr_exists inode name s) (\<lambda>(r, s).
        if r = 1 then exec_bind (replace_xattr env inode name value len s) finish
        else exec_bind (append_xattr env inode name value len s) finish)
      else xattr_close env inum inode (-1) (s\<lparr>xa_errno := EINVAL\<rparr>))"

definition sfs_setxattr ::
  "'s xattr_env \<Rightarrow> string option \<Rightarrow> string option \<Rightarrow> 8 word list option \<Rightarrow> 64 word \<Rightarrow> int \<Rightarrow> 's xattr_state \<Rightarrow>
   (int \<times> 's xattr_state) exec" where
  "sfs_setxattr env path name value len flags s =
     (case path of None \<Rightarrow> Inr (-1, s\<lparr>xa_errno := EINVAL\<rparr>) | Some path \<Rightarrow>
      if name = None \<or> value = None \<or> xe_size env = 0 then Inr (-1, s\<lparr>xa_errno := EINVAL\<rparr>)
      else
      xattr_open (sfs_rdlock (xe_lock_node env) (xe_lock_key env)) env path (-1) (set_locked env name value len flags) s)"

text \<open>The copy of a value to the caller's buffer, of which \<open>k\<close> bytes are written.\<close>

function copy_value :: "heap \<Rightarrow> 64 word \<Rightarrow> nat \<Rightarrow> nat \<Rightarrow> nat \<Rightarrow> 8 word list \<Rightarrow> (nat \<times> 8 word list) exec" where
  "copy_value h p sz i k buf =
     exec_bind (char_at h p i) (\<lambda>c.
     if c \<noteq> 0 \<and> k < sz then exec_bind (put_at k [c] buf) (\<lambda>buf. copy_value h p sz (i + 1) (k + 1) buf)
     else Inr (k, buf))"
  by pat_completeness auto
termination
  by (relation "measure (\<lambda>(h, p, sz, i, k, buf). length (block_of h p) - i)") (auto dest: char_at_inside)

declare copy_value.simps [simp del]

definition get_locked ::
  "'s xattr_env \<Rightarrow> string \<Rightarrow> 8 word list \<Rightarrow> 64 word \<Rightarrow> 64 word \<Rightarrow> mem_inode \<Rightarrow> 's xattr_state \<Rightarrow>
   ((int \<times> 8 word list option) \<times> 's xattr_state) exec" where
  "get_locked env name buf sz inum inode s =
     (let p = in_xattr inode in
      exec_bind (find_xattr False (xa_heap s) p (sint (xattrlen (in_fixed inode))) name 0) (\<lambda>w.
      case w of
        Found pos i key \<Rightarrow>
          exec_bind (copy_value (xa_heap s) p (unat sz) i 0 buf) (\<lambda>(k, buf).
          xattr_unlock env inum (int k, Some buf) s)
      | Ended i \<Rightarrow> xattr_close env inum inode (-1, Some buf) (s\<lparr>xa_errno := EINVAL\<rparr>)))"

text \<open>The result is the returned number and the caller's buffer.\<close>

definition sfs_getxattr ::
  "'s xattr_env \<Rightarrow> string option \<Rightarrow> string option \<Rightarrow> 8 word list option \<Rightarrow> 64 word \<Rightarrow> 's xattr_state \<Rightarrow>
   ((int \<times> 8 word list option) \<times> 's xattr_state) exec" where
  "sfs_getxattr env path name value sz s =
     (case name of None \<Rightarrow> Inl Null_Deref | Some name \<Rightarrow>
      if name = ''security.ima'' then Inr ((-1, value), s)
      else
      case path of None \<Rightarrow> Inr ((-1, value), s\<lparr>xa_errno := EINVAL\<rparr>) | Some path \<Rightarrow>
      case value of None \<Rightarrow> Inr ((-1, value), s\<lparr>xa_errno := EINVAL\<rparr>) | Some buf \<Rightarrow>
      if sz = 0 then Inr ((-1, value), s\<lparr>xa_errno := EINVAL\<rparr>)
      else if path = ''.'' \<or> path = ''..'' then Inr ((0, value), s)
      else
      xattr_open (sfs_rdlock (xe_lock_node env) (xe_lock_key env)) env path (-1, value) (get_locked env name buf sz) s)"

text \<open>The walk of \<^verbatim>\<open>sfs_listxattr\<close>: \<open>n\<close> bytes are in the list so far.\<close>

function list_xattr :: "heap \<Rightarrow> 64 word \<Rightarrow> int \<Rightarrow> nat \<Rightarrow> nat \<Rightarrow> nat \<Rightarrow> 8 word list \<Rightarrow> (nat \<times> 8 word list) exec" where
  "list_xattr h p len sz i n buf =
     (if int i < len then
        exec_bind (char_at h p i) (\<lambda>c.
        if c = 0 then list_xattr h p len sz (i + 1) n buf
        else
        exec_bind (read_key False h p i) (\<lambda>(i', j, key).
        if n < sz \<and> n + (j + 1) < sz then
          exec_bind (string_in key) (\<lambda>t.
          exec_bind (put_at n t buf) (\<lambda>buf.
          exec_bind (skip_value h p (i' + j)) (\<lambda>e. list_xattr h p len sz e (n + (j + 1)) buf)))
        else Inr (n, buf)))
      else Inr (n, buf))"
  by pat_completeness auto
termination
  by (relation "measure (\<lambda>(h, p, len, sz, i, n, buf). nat (len - int i))") (auto dest: walk_forward)

declare list_xattr.simps [simp del]

definition list_locked ::
  "'s xattr_env \<Rightarrow> 8 word list \<Rightarrow> 64 word \<Rightarrow> 64 word \<Rightarrow> mem_inode \<Rightarrow> 's xattr_state \<Rightarrow>
   ((int \<times> 8 word list option) \<times> 's xattr_state) exec" where
  "list_locked env buf sz inum inode s =
     exec_bind (list_xattr (xa_heap s) (in_xattr inode) (sint (xattrlen (in_fixed inode))) (unat sz) 0 0 buf) (\<lambda>(n, buf).
     xattr_close env inum inode (int n, Some buf) s)"

definition sfs_listxattr ::
  "'s xattr_env \<Rightarrow> string option \<Rightarrow> 8 word list option \<Rightarrow> 64 word \<Rightarrow> 's xattr_state \<Rightarrow>
   ((int \<times> 8 word list option) \<times> 's xattr_state) exec" where
  "sfs_listxattr env path list sz s =
     (case path of None \<Rightarrow> Inr ((-1, list), s\<lparr>xa_errno := EINVAL\<rparr>) | Some path \<Rightarrow>
      case list of None \<Rightarrow> Inr ((-1, list), s\<lparr>xa_errno := EINVAL\<rparr>) | Some buf \<Rightarrow>
      if sz = 0 then Inr ((-1, list), s\<lparr>xa_errno := EINVAL\<rparr>)
      else
      xattr_open (sfs_rdlock (xe_lock_node env) (xe_lock_key env)) env path (-1, list) (list_locked env buf sz) s)"

text \<open>
  The removal of the pair of \<open>pair_len\<close> bytes at \<open>pos\<close> that ends at \<open>i\<close>.  A negative number of bytes to move is
  a huge one.
\<close>

definition cut_pair :: "heap \<Rightarrow> 64 word \<Rightarrow> int \<Rightarrow> nat \<Rightarrow> nat \<Rightarrow> nat \<Rightarrow> 8 word list \<Rightarrow> heap exec" where
  "cut_pair h p len pos i pair_len key =
     (if int i = len - 1 then Inr h
      else
      exec_bind (char_at h p 0) (\<lambda>c.
      let at = (if key ! 0 = c then 0 else pos) in
      if len < int pair_len then Inl Bad_Access
      else
      exec_bind (mem_read h p (at + pair_len) (nat (len - int pair_len))) (\<lambda>x. mem_write h p at x)))"

definition xattr_remove :: "mem_inode \<Rightarrow> string option \<Rightarrow> 's xattr_state \<Rightarrow> (int \<times> 's xattr_state) exec" where
  "xattr_remove inode name s =
     (case name of None \<Rightarrow> Inr (-1, s\<lparr>xa_errno := EINVAL\<rparr>) | Some name \<Rightarrow>
      let p = in_xattr inode; len = sint (xattrlen (in_fixed inode)); h = xa_heap s in
      if name \<noteq> ''security.ima'' \<and> (p = 0 \<or> len \<le> 0) then Inr (-1, s\<lparr>xa_errno := EINVAL\<rparr>)
      else
      exec_bind (find_xattr True h p len name 0) (\<lambda>w.
      case w of
        Ended i \<Rightarrow> Inr (-1, s\<lparr>xa_errno := ENOATTR\<rparr>)
      | Found pos i key \<Rightarrow>
          exec_bind (skip_value h p (i + 1)) (\<lambda>e.
          let pair_len = length (bytes_str key) + 1 + (e - (i + 1)) + 1 in
          exec_bind (cut_pair h p len pos e pair_len key) (\<lambda>h.
          Inr (len - int pair_len, s\<lparr>xa_heap := h\<rparr>)))))"

text \<open>The new length is not stored in the inode.\<close>

definition remove_locked ::
  "'s xattr_env \<Rightarrow> string \<Rightarrow> 64 word \<Rightarrow> mem_inode \<Rightarrow> 's xattr_state \<Rightarrow> (int \<times> 's xattr_state) exec" where
  "remove_locked env name inum inode s =
     exec_bind (xattr_remove inode (Some name) s) (\<lambda>(ret, s).
     if ret = -1 \<and> name \<noteq> ''security.ima'' then xattr_close env inum inode (-1) (s\<lparr>xa_errno := ENOATTR\<rparr>)
     else if name = ''security.ima'' then Inr (0, s)
     else
     exec_bind (put_inode (xe_ok env) (xe_moved env) (xe_beyond env) (xa_heap s) (Some inode) (xe_db env) 1 (xa_db s)) (\<lambda>(ret, t).
     xattr_close env inum inode (if ret \<noteq> 0 then -1 else 0) (s\<lparr>xa_db := t\<rparr>)))"

definition sfs_removexattr ::
  "'s xattr_env \<Rightarrow> string option \<Rightarrow> string option \<Rightarrow> 's xattr_state \<Rightarrow> (int \<times> 's xattr_state) exec" where
  "sfs_removexattr env path name s =
     (case name of None \<Rightarrow> Inl Null_Deref | Some name \<Rightarrow>
      if name = ''security.ima'' then Inr (-1, s)
      else
      case path of None \<Rightarrow> Inr (-1, s\<lparr>xa_errno := EINVAL\<rparr>) | Some path \<Rightarrow>
      xattr_open (sfs_wrlock (xe_lock_node env) (xe_lock_key env)) env path (-1) (remove_locked env name) s)"

section \<open>Locks\<close>

text \<open>
  What an operation on \<open>inum\<close> does to the lock table: nothing, or it takes an inode out of the table that
  is not write locked.
\<close>

definition locks_after :: "64 word \<Rightarrow> fl_globals \<Rightarrow> fl_globals \<Rightarrow> bool" where
  "locks_after inum l l' \<longleftrightarrow> fl_inv l' \<and>
     (fl_abs l' = fl_abs l \<or> fl_abs l inum \<noteq> Some WRLOCKED \<and> fl_abs l' = (fl_abs l)(inum := None))"

text \<open>The state \<open>s'\<close> is one in which the lock that \<open>s\<close> holds on \<open>inum\<close> has been released.\<close>

definition released :: "'s xattr_env \<Rightarrow> 64 word \<Rightarrow> 's xattr_state \<Rightarrow> 's xattr_state \<Rightarrow> bool" where
  "released env inum s s' \<longleftrightarrow> (\<exists>r. sfs_unlock (xe_lock_key env) inum (xa_locks s) = Inr (r, xa_locks s'))"

lemma released_abs:
  assumes "fl_inv (xa_locks s)" "released env inum s s'"
  shows "fl_inv (xa_locks s')" "fl_abs (xa_locks s') = (fl_abs (xa_locks s))(inum := None)"
proof -
  from assms(2) obtain r where r: "sfs_unlock (xe_lock_key env) inum (xa_locks s) = Inr (r, xa_locks s')"
    unfolding released_def by blast
  with fl_unlock [OF assms(1), of "xe_lock_key env" inum]
  show "fl_inv (xa_locks s')" "fl_abs (xa_locks s') = (fl_abs (xa_locks s))(inum := None)"
    by (auto simp: fl_keeps_def fl_view_def split: option.splits)
qed

lemma xattr_unlock_released: "xattr_unlock env inum r s = Inr (v, s') \<Longrightarrow> released env inum s s'"
  by (auto simp: xattr_unlock_def released_def exec_bind_Inr_iff)

lemma xattr_close_released: "xattr_close env inum inode r s = Inr (v, s') \<Longrightarrow> released env inum s s'"
  by (auto simp: xattr_close_def exec_bind_Inr_iff released_def dest: xattr_unlock_released)

lemma released_locks: "xa_locks s1 = xa_locks s \<Longrightarrow> released env inum s1 s' \<longleftrightarrow> released env inum s s'"
  by (simp add: released_def)

lemma store_xattr_locks: "store_xattr env inode s = Inr (r, inode', s') \<Longrightarrow> xa_locks s' = xa_locks s"
  by (auto simp: store_xattr_def exec_bind_Inr_iff)

lemmas xattr_splits = sum.split_asm prod.split_asm option.split_asm if_split_asm xattr_walk.split_asm

lemma xattr_exists_state: "xattr_exists inode name s = Inr (r, s') \<Longrightarrow> xa_locks s' = xa_locks s"
  by (auto simp: xattr_exists_def exec_bind_def split: xattr_splits)

lemma replace_xattr_locks: "replace_xattr env inode name value len s = Inr (r, inode', s') \<Longrightarrow> xa_locks s' = xa_locks s"
  by (auto simp: replace_xattr_def exec_bind_def Let_def split: xattr_splits dest!: store_xattr_locks)

lemma append_xattr_locks: "append_xattr env inode name value len s = Inr (r, inode', s') \<Longrightarrow> xa_locks s' = xa_locks s"
  by (auto simp: append_xattr_def exec_bind_def Let_def split: xattr_splits dest!: store_xattr_locks)

lemma xattr_remove_locks: "xattr_remove inode name s = Inr (r, s') \<Longrightarrow> xa_locks s' = xa_locks s"
  by (auto simp: xattr_remove_def exec_bind_def Let_def split: xattr_splits)

lemmas xattr_locks = xattr_exists_state replace_xattr_locks append_xattr_locks xattr_remove_locks

text \<open>
  A call that takes a lock: it leaves the other inodes alone, leaves the table as it is if it fails, and fails on
  an inode that is write locked.
\<close>

locale lock_call =
  fixes lock :: "64 word \<Rightarrow> fl_globals \<Rightarrow> (int \<times> fl_globals) exec"
  assumes lock_inv: "fl_inv l \<Longrightarrow> lock i l = Inr (ret, l') \<Longrightarrow> fl_inv l'"
    and lock_other: "fl_inv l \<Longrightarrow> lock i l = Inr (ret, l') \<Longrightarrow> (fl_abs l')(i := None) = (fl_abs l)(i := None)"
    and lock_failed: "fl_inv l \<Longrightarrow> lock i l = Inr (-1, l') \<Longrightarrow> fl_abs l' = fl_abs l"
    and lock_writer: "fl_inv l \<Longrightarrow> lock i l = Inr (ret, l') \<Longrightarrow> fl_abs l i = Some WRLOCKED \<Longrightarrow> ret = -1"
begin

text \<open>An operation whose part after the start ends with the release of the lock.\<close>

lemma open_locks:
  assumes inv: "fl_inv (xa_locks s)"
    and rest: "\<And>i inode s r s'. rest i inode s = Inr (r, s') \<Longrightarrow> released env i s s'"
    and run: "xattr_open lock env path fail rest s = Inr (r, s')"
  shows "case xe_inode_num env path of None \<Rightarrow> xa_locks s' = xa_locks s | Some i \<Rightarrow> locks_after i (xa_locks s) (xa_locks s')"
proof (cases "xe_inode_num env path")
  case None
  then show ?thesis using run by (auto simp: xattr_open_def)
next
  case (Some i)
  with run obtain ret l where l: "lock i (xa_locks s) = Inr (ret, l)"
    by (auto simp: xattr_open_def exec_bind_Inr_iff)
  show ?thesis
  proof (cases "ret = -1")
    case True
    then have "xa_locks s' = l" using run Some l by (auto simp: xattr_open_def)
    then show ?thesis using lock_inv [OF inv l] lock_failed [OF inv] l True Some by (simp add: locks_after_def)
  next
    case False
    then obtain s1 where "released env i s1 s'" "xa_locks s1 = l"
      using run Some l
      by (fastforce simp: xattr_open_def exec_bind_Inr_iff Let_def split: if_split_asm option.split_asm
          dest: xattr_unlock_released rest)
    then show ?thesis
      using released_abs [of s1 env i s'] lock_inv [OF inv l] lock_other [OF inv l] lock_writer [OF inv l] False Some
      by (auto simp: locks_after_def)
  qed
qed

end

interpretation rdl: lock_call "sfs_rdlock mem n" for mem n
proof
  fix l i ret l' assume inv: "fl_inv l" and run: "sfs_rdlock mem n i l = Inr (ret, l')"
  note v = fl_rdlock [OF inv, of mem n i, unfolded run]
  then show "fl_inv l'" by (simp add: fl_keeps_def)
  from v(1) show "(fl_abs l')(i := None) = (fl_abs l)(i := None)" "fl_abs l i = Some WRLOCKED \<Longrightarrow> ret = -1"
    by (auto simp: fl_view_def split: option.split_asm sstack_lock_state.split_asm if_split_asm)
next
  fix l i l' assume inv: "fl_inv l" and run: "sfs_rdlock mem n i l = Inr (-1, l')"
  from fl_rdlock(1) [OF inv, of mem n i, unfolded run] show "fl_abs l' = fl_abs l"
    by (auto simp: fl_view_def split: option.split_asm sstack_lock_state.split_asm if_split_asm)
qed

interpretation wrl: lock_call "sfs_wrlock mem n" for mem n
proof
  fix l i ret l' assume inv: "fl_inv l" and run: "sfs_wrlock mem n i l = Inr (ret, l')"
  note v = fl_wrlock [OF inv, of mem n i, unfolded run]
  then show "fl_inv l'" by (simp add: fl_keeps_def)
  from v(1) show "(fl_abs l')(i := None) = (fl_abs l)(i := None)" "fl_abs l i = Some WRLOCKED \<Longrightarrow> ret = -1"
    by (auto simp: fl_view_def split: option.split_asm sstack_lock_state.split_asm if_split_asm)
next
  fix l i l' assume inv: "fl_inv l" and run: "sfs_wrlock mem n i l = Inr (-1, l')"
  from fl_wrlock(1) [OF inv, of mem n i, unfolded run] show "fl_abs l' = fl_abs l"
    by (auto simp: fl_view_def split: option.split_asm sstack_lock_state.split_asm if_split_asm)
qed

text \<open>The four operations as one call; \<^verbatim>\<open>path\<close> comes first.\<close>

datatype xattr_op =
  Op_set "string option" "string option" "8 word list option" "64 word" int
| Op_get "string option" "string option" "8 word list option" "64 word"
| Op_list "string option" "8 word list option" "64 word"
| Op_remove "string option" "string option"

fun xattr_do :: "'s xattr_env \<Rightarrow> xattr_op \<Rightarrow> 's xattr_state \<Rightarrow> (int \<times> 's xattr_state) exec" where
  "xattr_do env (Op_set path name value len flags) s = sfs_setxattr env path name value len flags s"
| "xattr_do env (Op_get path name value sz) s = exec_bind (sfs_getxattr env path name value sz s) (\<lambda>((r, _), s). Inr (r, s))"
| "xattr_do env (Op_list path list sz) s = exec_bind (sfs_listxattr env path list sz s) (\<lambda>((r, _), s). Inr (r, s))"
| "xattr_do env (Op_remove path name) s = sfs_removexattr env path name s"

fun xattr_path :: "xattr_op \<Rightarrow> string option" where
  "xattr_path (Op_set path name value len flags) = path"
| "xattr_path (Op_get path name value sz) = path"
| "xattr_path (Op_list path list sz) = path"
| "xattr_path (Op_remove path name) = path"

text \<open>What the locks are after a call on \<open>path\<close>.\<close>

definition call_locks :: "'s xattr_env \<Rightarrow> string option \<Rightarrow> 's xattr_state \<Rightarrow> 's xattr_state \<Rightarrow> bool" where
  "call_locks env path s s' \<longleftrightarrow> xa_locks s' = xa_locks s \<or>
     (\<exists>q i. path = Some q \<and> xe_inode_num env q = Some i \<and> locks_after i (xa_locks s) (xa_locks s'))"

lemma call_locks_open:
  "(case xe_inode_num env q of None \<Rightarrow> xa_locks s' = xa_locks s | Some i \<Rightarrow> locks_after i (xa_locks s) (xa_locks s')) \<Longrightarrow>
   call_locks env (Some q) s s'"
  by (auto simp: call_locks_def split: option.split_asm)

lemma set_released:
  assumes "set_locked env name value len flags inum inode s = Inr (r, s')"
  shows "released env inum s s'"
  using assms
  by (auto simp: set_locked_def Let_def exec_bind_Inr_iff released_def split: if_split_asm dest!: xattr_close_released xattr_locks)

lemma get_released: "get_locked env name buf sz inum inode s = Inr (r, s') \<Longrightarrow> released env inum s s'"
  by (auto simp: get_locked_def Let_def exec_bind_def released_def split: xattr_splits
      dest!: xattr_close_released xattr_unlock_released)

lemma list_released: "list_locked env buf sz inum inode s = Inr (r, s') \<Longrightarrow> released env inum s s'"
  by (auto simp: list_locked_def exec_bind_Inr_iff dest!: xattr_close_released)

lemma remove_released:
  "name \<noteq> ''security.ima'' \<Longrightarrow> remove_locked env name inum inode s = Inr (r, s') \<Longrightarrow> released env inum s s'"
  by (auto simp: remove_locked_def exec_bind_Inr_iff released_def split: if_split_asm
      dest!: xattr_close_released xattr_remove_locks)

lemma xattr_do_locks:
  assumes "fl_inv (xa_locks s)" "xattr_do env op s = Inr (r, s')"
  shows "call_locks env (xattr_path op) s s'"
proof -
  note rd = call_locks_open [OF rdl.open_locks, OF assms(1)] and wr = call_locks_open [OF wrl.open_locks, OF assms(1)]
  have same: "xa_locks s' = xa_locks s \<Longrightarrow> ?thesis" by (simp add: call_locks_def)
  show ?thesis
  proof (cases op)
    case (Op_set path name val len flags)
    then show ?thesis
      using assms(2) same rd [OF set_released] by (auto simp: sfs_setxattr_def split: option.split_asm if_split_asm)
  next
    case (Op_get path name val sz)
    then show ?thesis
      using assms(2) same rd [OF get_released]
      by (auto simp: sfs_getxattr_def exec_bind_Inr_iff split: option.split_asm if_split_asm)
  next
    case (Op_list path list sz)
    then show ?thesis
      using assms(2) same rd [OF list_released]
      by (auto simp: sfs_listxattr_def exec_bind_Inr_iff split: option.split_asm if_split_asm)
  next
    case (Op_remove path name)
    then show ?thesis
      using assms(2) same wr [OF remove_released]
      by (auto simp: sfs_removexattr_def split: option.split_asm if_split_asm)
  qed
qed

section \<open>Records\<close>

text \<open>A block of records, and records with names and values that can be told apart in it.\<close>

definition pair_bytes :: "string \<times> 8 word list \<Rightarrow> 8 word list" where
  "pair_bytes kv = str_bytes (fst kv) @ EQUALS # snd kv @ [0]"

definition attr_bytes :: "(string \<times> 8 word list) list \<Rightarrow> 8 word list" where
  "attr_bytes rs = concat (map pair_bytes rs)"

definition attr_ok :: "string \<times> 8 word list \<Rightarrow> bool" where
  "attr_ok kv \<longleftrightarrow> c_string (fst kv) \<and> CHR ''='' \<notin> set (fst kv) \<and> 0 \<notin> set (snd kv)"

lemma attr_bytes_simps [simp]:
  "attr_bytes [] = []" "attr_bytes (r # rs) = pair_bytes r @ attr_bytes rs" "attr_bytes (rs @ rs') = attr_bytes rs @ attr_bytes rs'"
  by (simp_all add: attr_bytes_def)

lemma length_pair_bytes: "length (pair_bytes kv) = length (fst kv) + length (snd kv) + 2"
  by (simp add: pair_bytes_def)

lemma of_char_equals: "(of_char c :: 8 word) = EQUALS \<longleftrightarrow> c = CHR ''=''"
proof -
  have "(of_char c :: 8 word) = EQUALS \<longleftrightarrow> unat (of_char c :: 8 word) = unat (EQUALS)" by (simp add: word_unat_eq_iff)
  also have "\<dots> \<longleftrightarrow> (of_char c :: nat) = of_char (CHR ''='')" by (simp add: unat_of_char EQUALS_def)
  finally show ?thesis by (simp only: of_char_eq_iff)
qed

lemma attr_ok_bytes:
  assumes "attr_ok kv"
  shows "0 \<notin> set (str_bytes (fst kv))" "EQUALS \<notin> set (str_bytes (fst kv))" "0 \<notin> set (snd kv)"
  using assms by (auto simp: attr_ok_def c_string_def str_bytes_def of_char_zero of_char_equals dest: sym)

text \<open>Reading at the end of a prefix.\<close>

lemma char_at_middle: "h p = Some (xs @ c # ys) \<Longrightarrow> p \<noteq> 0 \<Longrightarrow> length xs < 2 ^ 31 \<Longrightarrow> char_at h p (length xs) = Inr c"
  by (simp add: char_at_Inr)

lemma copy_key_own:
  assumes "h p = Some (xs @ ks @ EQUALS # ys)" "p \<noteq> 0" "length xs + length ks < 2 ^ 31" "EQUALS \<notin> set ks"
  shows "copy_key True h p (length xs) (length pre) (pre @ replicate (length ks + m) 0) =
    Inr (length xs + length ks, length pre + length ks, pre @ ks @ replicate m 0)"
  using assms
proof (induction ks arbitrary: xs pre)
  case Nil
  then show ?case by (subst copy_key.simps) (simp add: char_at_middle)
next
  case (Cons c ks)
  have "char_at h p (length xs) = Inr c" using Cons(2-4) by (intro char_at_middle) auto
  moreover have "put_at (length pre) [c] (pre @ replicate (length (c # ks) + m) 0) = Inr ((pre @ [c]) @ replicate (length ks + m) 0)"
    by (simp add: put_at_def)
  ultimately show ?case
    using Cons(1) [of "xs @ [c]" "pre @ [c]"] Cons(2-) by (subst copy_key.simps) auto
qed

lemma skip_value_middle:
  assumes "h p = Some (xs @ vs @ 0 # ys)" "p \<noteq> 0" "length xs + length vs < 2 ^ 31" "0 \<notin> set vs"
  shows "skip_value h p (length xs) = Inr (length xs + length vs)"
  using assms
proof (induction vs arbitrary: xs)
  case Nil
  then show ?case by (subst skip_value.simps) (simp add: char_at_middle)
next
  case (Cons c vs)
  have "char_at h p (length xs) = Inr c" using Cons(2-4) by (intro char_at_middle) auto
  then show ?case
    using Cons(1) [of "xs @ [c]"] Cons(2-) by (subst skip_value.simps) auto
qed

text \<open>
  The records that the walk of \<^verbatim>\<open>xattr_remove\<close> gets past: names of at most 126 bytes that are not empty and at most
  one byte longer than their value, because the walk goes on behind \<open>=\<close> by the length of the name.
\<close>

definition attr_plain :: "string \<times> 8 word list \<Rightarrow> bool" where
  "attr_plain kv \<longleftrightarrow> attr_ok kv \<and> fst kv \<noteq> [] \<and> length (fst kv) \<le> 126 \<and> length (fst kv) \<le> length (snd kv) + 1"

definition key_array :: "string \<Rightarrow> 8 word list" where
  "key_array k = str_bytes k @ replicate (MAX_KEY_LEN - length k) 0"

lemma bytes_str_key_array: "c_string k \<Longrightarrow> length k < MAX_KEY_LEN \<Longrightarrow> bytes_str (key_array k) = k"
  using bytes_str_append(1) [of k "replicate (MAX_KEY_LEN - length k - 1) 0"]
  by (simp add: key_array_def Suc_diff_Suc flip: replicate_Suc)

lemma read_key_own:
  assumes "h p = Some (xs @ pair_bytes kv @ ys)" "p \<noteq> 0" "length xs + length (pair_bytes kv) < 2 ^ 31" "attr_plain kv"
  shows "read_key True h p (length xs) = Inr (length xs + length (fst kv), length (fst kv), key_array (fst kv))"
proof -
  let ?k = "str_bytes (fst kv)" and ?m = "MAX_KEY_LEN - length (fst kv)"
  have k: "length (fst kv) + ?m = MAX_KEY_LEN" "2 \<le> ?m"
    using assms(4) by (auto simp: attr_plain_def MAX_KEY_LEN_def)
  have "copy_key True h p (length xs) 0 (replicate (length (fst kv) + ?m) 0) =
      Inr (length xs + length (fst kv), length (fst kv), ?k @ replicate ?m 0)"
    using copy_key_own [of h p xs ?k "snd kv @ 0 # ys" "[]" ?m] assms attr_ok_bytes(2) [of kv]
    by (simp add: pair_bytes_def attr_plain_def)
  moreover have "put_at (length (fst kv) + 1) [0] (?k @ replicate ?m 0) = Inr (?k @ replicate ?m 0)"
    using k(2) by (auto simp: put_at_def simp flip: replicate_Suc replicate_append_same replicate_add)
  ultimately show ?thesis using k by (simp add: read_key_def key_array_def)
qed

text \<open>The step from a record to the next.\<close>

lemma skip_plain:
  assumes "h p = Some (xs @ pair_bytes kv @ ys)" "p \<noteq> 0" "length xs + length (pair_bytes kv) < 2 ^ 31"
    "0 \<notin> set (snd kv)" "n \<le> length (snd kv) + 1"
  shows "skip_value h p (length xs + length (fst kv) + n) = Inr (length xs + length (pair_bytes kv) - 1)"
proof -
  let ?v = "EQUALS # snd kv"
  have "h p = Some ((xs @ str_bytes (fst kv) @ take n ?v) @ drop n ?v @ 0 # ys)"
    using assms(1) by (simp add: pair_bytes_def)
  moreover have "0 \<notin> set (drop n ?v)"
    using assms(4) set_drop_subset [of n ?v] by (auto simp: EQUALS_def)
  moreover have "min (length ?v) n = n" using assms(5) by simp
  ultimately show ?thesis
    using skip_value_middle [of h p "xs @ str_bytes (fst kv) @ take n ?v" "drop n ?v" ys] assms(2,3,5)
    by (simp add: length_pair_bytes add.assoc)
qed

lemma find_own:
  assumes "h p = Some (attr_bytes (ps @ rs) @ ys)" "p \<noteq> 0" "length (attr_bytes (ps @ rs)) < 2 ^ 31" "\<forall>kv\<in>set rs. attr_plain kv"
  shows "find_xattr True h p (int (length (attr_bytes (ps @ rs)))) name (length (attr_bytes ps)) =
    (let n = length (attr_bytes (ps @ takeWhile (\<lambda>kv. fst kv \<noteq> name) rs)) in
     Inr (if name \<in> fst ` set rs then Found n (n + length name) (key_array name) else Ended n))"
  using assms
proof (induction rs arbitrary: ps)
  case Nil
  then show ?case by (subst find_xattr.simps) simp
next
  case (Cons kv rs)
  let ?b = "attr_bytes ps" and ?i = "length (attr_bytes ps)" and ?len = "int (length (attr_bytes (ps @ kv # rs)))"
  have plain: "attr_plain kv" and b: "h p = Some (?b @ pair_bytes kv @ attr_bytes rs @ ys)"
    and lt: "?i + length (pair_bytes kv) < 2 ^ 31" and pos: "int ?i < ?len" "int (?i + length (pair_bytes kv) - 1) < ?len"
    using Cons.prems by (auto simp: length_pair_bytes)
  obtain c cs where c: "str_bytes (fst kv) = c # cs" "c \<noteq> 0"
    using plain attr_ok_bytes(1) [of kv] by (cases "str_bytes (fst kv)") (auto simp: attr_plain_def str_bytes_def)
  then have at: "char_at h p ?i = Inr c"
    using b Cons.prems(2) lt by (intro char_at_middle [of _ _ _ _ "cs @ EQUALS # snd kv @ 0 # attr_bytes rs @ ys"]) (auto simp: pair_bytes_def)
  have key: "bytes_str (key_array (fst kv)) = fst kv"
    using plain by (intro bytes_str_key_array) (auto simp: attr_plain_def attr_ok_def MAX_KEY_LEN_def)
  note step = at c(2) read_key_own [of h p ?b kv, OF b Cons.prems(2) lt plain] key
  show ?case
  proof (cases "fst kv = name")
    case True
    then show ?thesis using step pos by (subst find_xattr.simps) (simp add: Let_def)
  next
    case False
    have skip: "skip_value h p (?i + length (fst kv) + length (fst kv)) = Inr (?i + length (pair_bytes kv) - 1)"
      using plain by (intro skip_plain [of h p ?b kv, OF b Cons.prems(2) lt]) (auto simp: attr_plain_def attr_ok_def)
    have "char_at h p (?i + length (pair_bytes kv) - 1) = Inr 0"
      using skip_value_forward [OF skip] by simp
    then have "find_xattr True h p ?len name (?i + length (pair_bytes kv) - 1) = find_xattr True h p ?len name (?i + length (pair_bytes kv))"
      using pos(2) by (subst find_xattr.simps) (simp add: length_pair_bytes)
    then have "find_xattr True h p ?len name ?i = find_xattr True h p ?len name (length (attr_bytes (ps @ [kv])))"
      using step pos False skip by (subst find_xattr.simps) simp
    then show ?thesis using Cons.IH [of "ps @ [kv]"] Cons.prems False by (auto simp: Let_def)
  qed
qed

text \<open>An inode whose attributes are the records \<open>rs\<close>; \<open>ys\<close> is what follows them in the block.\<close>

definition attrs_of :: "heap \<Rightarrow> mem_inode \<Rightarrow> (string \<times> 8 word list) list \<Rightarrow> 8 word list \<Rightarrow> bool" where
  "attrs_of h inode rs ys \<longleftrightarrow> in_xattr inode \<noteq> 0 \<and> h (in_xattr inode) = Some (attr_bytes rs @ ys) \<and>
     length (attr_bytes rs) < 2 ^ 31 \<and> xattrlen (in_fixed inode) = of_nat (length (attr_bytes rs))"

lemma attrs_of_len: "attrs_of h inode rs ys \<Longrightarrow> sint (xattrlen (in_fixed inode)) = int (length (attr_bytes rs))"
  by (simp add: attrs_of_def sint_of_nat_small)

lemma xattr_remove_found:
  assumes "attrs_of (xa_heap s) inode (ps @ kv # rs) ys" "\<forall>kv\<in>set (ps @ kv # rs). attr_plain kv" "fst kv \<notin> fst ` set ps"
  shows "xattr_remove inode (Some (fst kv)) s =
    exec_bind (cut_pair (xa_heap s) (in_xattr inode) (int (length (attr_bytes (ps @ kv # rs)))) (length (attr_bytes ps))
      (length (attr_bytes (ps @ [kv])) - 1) (length (pair_bytes kv)) (key_array (fst kv))) (\<lambda>h.
    Inr (int (length (attr_bytes (ps @ rs))), s\<lparr>xa_heap := h\<rparr>))"
proof -
  let ?h = "xa_heap s" and ?p = "in_xattr inode" and ?n = "length (attr_bytes ps)"
  have b: "?h ?p = Some (attr_bytes ps @ pair_bytes kv @ attr_bytes rs @ ys)" "?p \<noteq> 0"
    and lt: "?n + length (pair_bytes kv) < 2 ^ 31" and ok: "attr_plain kv"
    using assms(1,2) by (auto simp: attrs_of_def)
  have tw: "takeWhile (\<lambda>x. fst x \<noteq> fst kv) (ps @ kv # rs) = ps"
    using assms(3) by (auto simp: image_iff takeWhile_tail takeWhile_append2)
  have "find_xattr True ?h ?p (int (length (attr_bytes (ps @ kv # rs)))) (fst kv) 0 =
      Inr (Found ?n (?n + length (fst kv)) (key_array (fst kv)))"
    using find_own [of ?h ?p "[]" "ps @ kv # rs" ys "fst kv"] assms(1,2) tw by (simp add: attrs_of_def Let_def)
  moreover have "skip_value ?h ?p (?n + length (fst kv) + 1) = Inr (?n + length (pair_bytes kv) - 1)"
    using ok by (intro skip_plain [of ?h ?p "attr_bytes ps" kv, OF b lt]) (auto simp: attr_plain_def attr_ok_def)
  moreover have "bytes_str (key_array (fst kv)) = fst kv"
    using ok by (intro bytes_str_key_array) (auto simp: attr_plain_def attr_ok_def MAX_KEY_LEN_def)
  ultimately show ?thesis
    using b(2) attrs_of_len [OF assms(1)]
    by (simp add: xattr_remove_def Let_def length_pair_bytes)
qed

lemma cut_last:
  "cut_pair h p (int (length (attr_bytes (ps @ [kv])))) n (length (attr_bytes (ps @ [kv])) - 1) m key = Inr h"
  by (simp add: cut_pair_def length_pair_bytes)

lemma cut_first:
  assumes "h p = Some (attr_bytes (kv # rs) @ ys)" "p \<noteq> 0" "attr_plain kv" "rs \<noteq> []"
  shows "\<exists>zs. cut_pair h p (int (length (attr_bytes (kv # rs)))) 0 (length (pair_bytes kv) - 1) (length (pair_bytes kv))
      (key_array (fst kv)) = Inr (h(p \<mapsto> attr_bytes rs @ zs))"
proof -
  let ?a = "pair_bytes kv" and ?c = "attr_bytes rs"
  obtain c cs where c: "str_bytes (fst kv) = c # cs"
    using assms(3) by (cases "str_bytes (fst kv)") (auto simp: attr_plain_def str_bytes_def)
  have ne: "?c \<noteq> []" using assms(4) by (cases rs) (auto simp: pair_bytes_def)
  have "char_at h p 0 = Inr c"
    using char_at_middle [of h p "[]" c "cs @ EQUALS # snd kv @ 0 # ?c @ ys"] assms(1,2) c by (simp add: pair_bytes_def)
  moreover have "key_array (fst kv) ! 0 = c" using c by (simp add: key_array_def)
  moreover have "mem_read h p (length ?a) (length ?c) = Inr ?c"
    using assms(1,2) ne by (simp add: mem_read_def get_at_def)
  moreover have "mem_write h p 0 ?c = Inr (h(p \<mapsto> ?c @ drop (length ?c) (?a @ ?c @ ys)))"
    using assms(1,2) ne by (simp add: mem_write_def put_at_def)
  ultimately show ?thesis
    using ne by (auto simp: cut_pair_def length_pair_bytes Let_def)
qed

section \<open>Appending\<close>

lemma set_xattrlen_len: "4256 \<le> length (in_fixed inode) \<Longrightarrow> xattrlen (in_fixed (set_xattrlen n inode)) = n"
proof -
  have "(of_nat (k mod 4294967296) :: 32 word) = of_nat k" for k by (simp add: word_of_nat_eq_iff take_bit_nat_def)
  then show "4256 \<le> length (in_fixed inode) \<Longrightarrow> xattrlen (in_fixed (set_xattrlen n inode)) = n"
    by (simp add: set_xattrlen_def xattrlen_def rd32_def le_nat_le_bytes)
qed

lemma append_record_bytes:
  assumes "h q = Some (a @ c)" "q \<noteq> 0" "length name \<le> MAX_KEY_LEN" "0 \<notin> set v" "length c = length v + 3" "length a + 1 < 2 ^ 31"
  shows "append_record h q (int (length a)) name (v @ 0 # ws) = Inr (h(q \<mapsto> a @ pair_bytes ([], v) @ drop (length v + 2) c))"
proof -
  obtain x cs where c: "c = x # cs" "length cs = length v + 2" using assms(5) by (cases c) auto
  have "mem_write h q (length a) [EQUALS] = Inr (h(q \<mapsto> a @ EQUALS # cs))"
    using assms(1,2) c by (simp add: mem_write_def put_at_def)
  moreover have "mem_write (h(q \<mapsto> a @ EQUALS # cs)) q (length a + 1) (v @ [0]) = Inr (h(q \<mapsto> a @ EQUALS # v @ 0 # drop (length v + 1) cs))"
    using assms(2) c(2) by (simp add: mem_write_def put_at_def)
  moreover have "string_in (v @ 0 # ws) = Inr (v @ [0])" using assms(4) by (subst string_in_def) (auto simp: takeWhile_append)
  ultimately show ?thesis
    using assms(3,6) c(1) by (simp add: append_record_def key_len_of_def mem_write_def [of _ _ _ "[]"] pair_bytes_def str_bytes_def)
qed

lemma store_xattr_same: "store_xattr env inode s = Inr (r, inode', s') \<Longrightarrow> inode' = inode \<and> xa_heap s' = xa_heap s"
  by (auto simp: store_xattr_def exec_bind_Inr_iff)

lemma scast_of_nat_32: "n < 2 ^ 31 \<Longrightarrow> (scast (of_nat n :: 32 word) :: 64 word) = of_nat n"
  by (simp add: signed_of_int sint_of_nat_small scast_eq)

lemma ucast_of_nat_64: "n < 2 ^ 31 \<Longrightarrow> (ucast (of_nat n :: 64 word) :: 32 word) = of_nat n"
  by (simp add: unsigned_of_nat take_bit_nat_eq_self)

lemma append_xattr_bytes:
  assumes run: "append_xattr env inode (Some name) (Some (v @ 0 # ws)) (of_nat (length v + 1)) s = Inr (0, inode', s')"
    and old: "block_of (xa_heap s) (in_xattr inode) = attr_bytes rs @ ys" "xattrlen (in_fixed inode) = of_nat (length (attr_bytes rs))"
    and v: "length name \<le> MAX_KEY_LEN" "0 \<notin> set v" "length (attr_bytes rs) + length v + 2 < 2 ^ 31"
    and fixed: "length (in_fixed inode) = FIXED_LEN"
  shows "\<exists>ys. attrs_of (xa_heap s') inode' (rs @ [([], v)]) ys" "length (in_fixed inode') = FIXED_LEN"
proof -
  let ?a = "attr_bytes rs" and ?n = "length (attr_bytes rs)" and ?q = "xe_realloc env" and ?h = "xa_heap s" and ?p = "in_xattr inode"
  let ?b = "resize (xe_junk env) (?n + length v + 3) (?a @ ys)" and ?len = "of_nat (length v + 1) :: 64 word"
  have n: "unat (scast (of_nat ?n :: 32 word) + ?len + 1 + 1 :: 64 word) = ?n + length v + 3"
    using v(3) unat_of_nat_64 [of "?n + length v + 3"] by (simp add: scast_of_nat_32 ac_simps)
  obtain c where c: "?b = ?a @ c" "length c = length v + 3" by (auto simp: resize_def)
  define h where "h = (?h(?p := None))(?q \<mapsto> ?a @ c)"
  define inode1 where "inode1 = (set_xattrlen (of_nat ?n + 1 + ucast ?len) inode)\<lparr>in_xattr := ?q\<rparr>"
  have q: "?q \<noteq> 0" and "exec_bind (append_record h ?q (int ?n) name (v @ 0 # ws)) (\<lambda>h. store_xattr env inode1 (s\<lparr>xa_heap := h\<rparr>)) = Inr (0, inode', s')"
    using run v(1,3) old n c(1)
    by (auto simp: append_xattr_def key_len_of_def mem_realloc_def Let_def sint_of_nat_small h_def inode1_def split: if_split_asm)
  then have s': "inode' = inode1" "xa_heap s' = h(?q \<mapsto> ?a @ pair_bytes ([], v) @ drop (length v + 2) c)"
    using append_record_bytes [of h ?q ?a c name v ws] v c(2) store_xattr_same [of env inode1]
    by (auto simp: h_def)
  have "xattrlen (in_fixed inode1) = of_nat (?n + length v + 2)"
    using set_xattrlen_len [of inode] fixed ucast_of_nat_64 [of "length v + 1"] v(3) by (simp add: inode1_def FIXED_LEN_def)
  then show "\<exists>ys. attrs_of (xa_heap s') inode' (rs @ [([], v)]) ys"
    using s' q v(3) by (auto simp: attrs_of_def length_pair_bytes inode1_def)
  show "length (in_fixed inode') = FIXED_LEN" using s'(1) fixed by (simp add: inode1_def set_xattrlen_def FIXED_LEN_def)
qed


text \<open>The other walk finds no name in records without one.\<close>

lemma EQUALS_neq_0 [simp]: "EQUALS \<noteq> 0"
  by (simp add: EQUALS_def)

lemma bytes_str_zeros: "bytes_str (replicate n 0) = []"
  by (cases n) (simp_all add: bytes_str_def)

lemma find_anonymous:
  assumes "h p = Some (attr_bytes (ps @ map (Pair []) vs) @ ys)" "p \<noteq> 0" "length (attr_bytes (ps @ map (Pair []) vs)) < 2 ^ 31"
    "\<forall>v\<in>set vs. 0 \<notin> set v" "name \<noteq> []"
  shows "\<exists>i. find_xattr False h p (int (length (attr_bytes (ps @ map (Pair []) vs)))) name (length (attr_bytes ps)) = Inr (Ended i)"
  using assms
proof (induction vs arbitrary: ps)
  case Nil
  then show ?case by (subst find_xattr.simps) simp
next
  case (Cons v vs)
  let ?b = "attr_bytes ps" and ?i = "length (attr_bytes ps)" and ?len = "int (length (attr_bytes (ps @ map (Pair []) (v # vs))))"
  let ?r = "([] :: string, v)"
  have b: "h p = Some (?b @ pair_bytes ?r @ attr_bytes (map (Pair []) vs) @ ys)"
    and lt: "?i + length (pair_bytes ?r) < 2 ^ 31" and pos: "int ?i < ?len" "int (?i + length (pair_bytes ?r) - 1) < ?len"
    using Cons.prems by (auto simp: length_pair_bytes)
  have at: "char_at h p ?i = Inr EQUALS"
    using b Cons.prems(2) lt by (intro char_at_middle [of _ _ _ _ "v @ 0 # attr_bytes (map (Pair []) vs) @ ys"]) (auto simp: pair_bytes_def str_bytes_def)
  then have key: "read_key False h p ?i = Inr (?i, 0, replicate MAX_KEY_LEN 0)"
    by (simp add: read_key_def copy_key.simps [of _ _ _ ?i] put_at_def MAX_KEY_LEN_def numeral_eq_Suc)
  have skip: "skip_value h p ?i = Inr (?i + length (pair_bytes ?r) - 1)"
    using skip_plain [of h p ?b ?r "attr_bytes (map (Pair []) vs) @ ys" 0] b lt Cons.prems(2,4) by simp
  have "char_at h p (?i + length (pair_bytes ?r) - 1) = Inr 0" using skip_value_forward [OF skip] by simp
  then have "find_xattr False h p ?len name (?i + length (pair_bytes ?r) - 1) = find_xattr False h p ?len name (?i + length (pair_bytes ?r))"
    using pos(2) by (subst find_xattr.simps) (simp add: length_pair_bytes)
  then have "find_xattr False h p ?len name ?i = find_xattr False h p ?len name (length (attr_bytes (ps @ [?r])))"
    using at key skip pos Cons.prems(5)
    by (subst find_xattr.simps) (simp add: bytes_str_zeros)
  then show ?case using Cons.IH [of "ps @ [?r]"] Cons.prems by simp
qed

text \<open>
  The inodes that come from one without attributes by setting attributes with names of at most 128 bytes, one after the
  other: each value is a string, and its length includes the terminator.
\<close>

inductive attr_run :: "mem_inode \<Rightarrow> 's xattr_state \<Rightarrow> 8 word list list \<Rightarrow> bool" where
  attr_start: "in_xattr inode = 0 \<Longrightarrow> xattrlen (in_fixed inode) = 0 \<Longrightarrow> length (in_fixed inode) = FIXED_LEN \<Longrightarrow> attr_run inode s []"
| attr_append: "attr_run inode s vs \<Longrightarrow>
    append_xattr env inode (Some name) (Some (v @ 0 # ws)) (of_nat (length v + 1)) s = Inr (0, inode', s') \<Longrightarrow>
    length name \<le> MAX_KEY_LEN \<Longrightarrow> 0 \<notin> set v \<Longrightarrow> unat (xattrlen (in_fixed inode)) + length v + 2 < 2 ^ 31 \<Longrightarrow>
    attr_run inode' s' (vs @ [v])"

lemma attr_run_bytes:
  assumes "attr_run inode s vs"
  shows "(vs = [] \<and> in_xattr inode = 0 \<and> xattrlen (in_fixed inode) = 0 \<or> (\<exists>ys. attrs_of (xa_heap s) inode (map (Pair []) vs) ys)) \<and>
    length (in_fixed inode) = FIXED_LEN \<and> (\<forall>v\<in>set vs. 0 \<notin> set v)"
  using assms
proof induction
  case (attr_append inode s vs env name v ws inode' s')
  let ?rs = "map (Pair []) vs"
  have "\<exists>ys. block_of (xa_heap s) (in_xattr inode) = attr_bytes ?rs @ ys" and lt: "length (attr_bytes ?rs) < 2 ^ 31"
    and len: "xattrlen (in_fixed inode) = of_nat (length (attr_bytes ?rs))"
    using attr_append.IH by (auto simp: attrs_of_def block_of_def)
  then obtain ys where ys: "block_of (xa_heap s) (in_xattr inode) = attr_bytes ?rs @ ys" by blast
  have "unat (xattrlen (in_fixed inode)) = length (attr_bytes ?rs)"
    using lt len by (simp add: unat_of_nat take_bit_nat_eq_self)
  then have "length (attr_bytes ?rs) + length v + 2 < 2 ^ 31" using attr_append.hyps(5) by simp
  from append_xattr_bytes [OF attr_append.hyps(2) ys len attr_append.hyps(3,4) this] attr_append.IH attr_append.hyps(4)
  show ?case by simp
qed simp_all


section \<open>Replacing\<close>

lemma mem_write_length: "mem_write h p i xs = Inr h' \<Longrightarrow> map_option length (h' q) = map_option length (h q)"
  by (auto simp: mem_write_def put_at_def exec_bind_Inr_iff split: if_split_asm option.split_asm)

text \<open>
  A value is only ever replaced by one of the same length: otherwise the bytes to move reach beyond the block, which ends
  at most one byte behind the attributes.
\<close>

theorem replace_keeps_length:
  assumes "replace_value env h inode i j val len = Inr (Some (inode', h'))" "0 < i" "i + j < length b" "0 < len"
    "in_xattr inode \<noteq> 0" "h (in_xattr inode) = Some b" "length b \<le> unat (xattrlen (in_fixed inode)) + 1"
    "0 < sint (xattrlen (in_fixed inode))" "unat len < 2 ^ 31"
  shows "len = of_nat j"
proof (rule ccontr)
  let ?w = "xattrlen (in_fixed inode)" and ?p = "in_xattr inode"
  let ?n = "unat ?w" and ?l = "unat len" and ?rest = "unat (scast ?w - (of_nat j - len) :: 64 word)"
  assume ne: "len \<noteq> of_nat j"
  have "?n < 2 ^ 31" using nat_sint_pos [OF assms(8)] assms(8) sint_lt [of ?w] by simp
  then have n: "?n < 2 ^ 31" "(scast ?w :: 64 word) = of_nat ?n" using scast_of_nat_32 [of ?n] by simp_all
  have l: "len = of_nat ?l" "0 < ?l" using assms(4) by (simp_all add: unat_gt_0 word_neq_0_conv)
  have jn: "j < ?n" using assms(2,3,7) by simp
  have lj: "len < of_nat j \<longleftrightarrow> ?l < j" using jn n(1) unat_of_nat_64 [of j] by (simp add: word_less_nat_alt)
  have "scast ?w - (of_nat j - len) = (of_nat (?n - j + ?l) :: 64 word)" using n(2) l(1) jn by (simp add: of_nat_diff)
  then have rest: "?rest = ?n - j + ?l" by (simp only:) (rule unat_of_nat_64, use n(1) assms(9) in simp)
  show False
  proof (cases "?l < j")
    case True
    with assms(1) lj obtain v h1 x where "mem_write h ?p i v = Inr h1" "mem_read h1 ?p (i + j) ?rest = Inr x"
      by (auto simp: replace_value_def Let_def exec_bind_Inr_iff)
    moreover from this(1) obtain b1 where "h1 ?p = Some b1" "length b1 = length b"
      using mem_write_length [of h ?p i v h1 ?p] assms(6) by auto
    ultimately show False
      using rest l(2) jn assms(2,3,5,7) by (simp add: mem_read_def get_at_def split: if_split_asm)
  next
    case False
    have "scast ?w + (len - of_nat j) = (of_nat (?n + (?l - j)) :: 64 word)" using n(2) l(1) False by (simp add: of_nat_diff)
    then have sz: "unat (scast ?w + (len - of_nat j) :: 64 word) = ?n + (?l - j)"
      using n(1) assms(9) unat_of_nat_64 [of "?n + (?l - j)"] by simp
    define q where "q = xe_realloc env"
    obtain x where "q \<noteq> 0" and x: "mem_read ((h(?p := None))(q \<mapsto> resize (xe_junk env) (?n + (?l - j)) b)) q (i + j) ?rest = Inr x"
      using assms(1,5,6) lj False ne sz
      by (auto simp: replace_value_def Let_def exec_bind_Inr_iff mem_realloc_def block_of_def q_def split: if_split_asm option.split_asm)
    moreover have "length (resize (xe_junk env) (?n + (?l - j)) b) \<le> ?n + (?l - j)" by (simp add: resize_def)
    ultimately show False
      using rest l(2) jn assms(2) False by (simp add: mem_read_def get_at_def split: if_split_asm)
  qed
qed

section \<open>Properties\<close>

text \<open>
  C27: A call that sets, gets, lists or removes an extended attribute and that returns, on any of its paths, keeps the
  invariant of the lock tree and leaves no lock behind: the table is the one before the call, or the one before the
  call without the inode of the path.  The lock of a writer is never taken away.
\<close>

theorem xattr_calls_unlock:
  assumes "fl_inv (xa_locks s)" "xattr_do env op s = Inr (r, s')"
  shows "fl_inv (xa_locks s') \<and>
    (fl_abs (xa_locks s') = fl_abs (xa_locks s) \<or>
     (\<exists>path i. xattr_path op = Some path \<and> xe_inode_num env path = Some i \<and>
        fl_abs (xa_locks s) i \<noteq> Some WRLOCKED \<and> fl_abs (xa_locks s') = (fl_abs (xa_locks s))(i := None)))"
  using xattr_do_locks [OF assms] assms(1) by (auto simp: call_locks_def locks_after_def)

text \<open>
  C28: Removing an attribute from the block of an inode, where names are at most one byte longer than their values:
  without a record of that name it fails with \<^verbatim>\<open>ENOATTR\<close> and changes nothing else; if the record is the first or the
  last one, the block starts with the other records in their order, and their length is returned.
\<close>

theorem xattr_remove_pair:
  assumes "attrs_of (xa_heap s) inode rs ys" "rs \<noteq> []" "\<forall>kv\<in>set rs. attr_plain kv" "distinct (map fst rs)"
    "name \<in> fst ` set rs \<longrightarrow> name = fst (hd rs) \<or> name = fst (last rs)"
  shows "if name \<notin> fst ` set rs then xattr_remove inode (Some name) s = Inr (-1, s\<lparr>xa_errno := ENOATTR\<rparr>)
    else \<exists>zs. xattr_remove inode (Some name) s =
      Inr (int (length (attr_bytes (filter (\<lambda>kv. fst kv \<noteq> name) rs))),
        s\<lparr>xa_heap := (xa_heap s)(in_xattr inode \<mapsto> attr_bytes (filter (\<lambda>kv. fst kv \<noteq> name) rs) @ zs)\<rparr>)"
proof (cases "name \<in> fst ` set rs")
  case False
  have "0 < length (attr_bytes rs)" using assms(2) by (cases rs) (auto simp: length_pair_bytes)
  then show ?thesis
    using False find_own [of "xa_heap s" "in_xattr inode" "[]" rs ys name] assms(1,3) attrs_of_len [OF assms(1)]
    by (simp add: xattr_remove_def attrs_of_def Let_def)
next
  case True
  show ?thesis
  proof (cases "name = fst (last rs)")
    case True
    then obtain ps kv where rs: "rs = ps @ [kv]" "name = fst kv" using assms(2) by (metis append_butlast_last_id)
    moreover have "name \<notin> fst ` set ps" using rs assms(4) by simp
    then have "\<forall>x\<in>set ps. fst x \<noteq> name" by blast
    then have "filter (\<lambda>x. fst x \<noteq> name) rs = ps" using rs by simp
    ultimately show ?thesis
      using xattr_remove_found [of s inode ps kv "[]" ys] assms cut_last
      by (auto simp: attrs_of_def fun_upd_idem image_iff intro!: exI [of _ "pair_bytes kv @ ys"])
  next
    case last: False
    then obtain kv qs where rs: "rs = kv # qs" "name = fst kv" "qs \<noteq> []" using assms(2,5) True
      by (cases rs) (auto split: if_split_asm)
    moreover have "name \<notin> fst ` set qs" using rs assms(4) by simp
    then have "\<forall>x\<in>set qs. fst x \<noteq> name" by blast
    then have "filter (\<lambda>x. fst x \<noteq> name) rs = qs" using rs by simp
    ultimately show ?thesis
      using xattr_remove_found [of s inode "[]" kv qs ys] assms cut_first [of "xa_heap s" "in_xattr inode" kv qs ys]
      by (auto simp: attrs_of_def)
  qed
qed

text \<open>
  C29: However many attributes are set on an inode that has none, the block holds the values in their order, each as
  a record with an empty name, and no attribute of any name is found in it: names of up to 128 bytes are not stored.
\<close>

theorem appended_names_lost:
  assumes "attr_run inode s vs" "name \<noteq> []"
  shows "(vs = [] \<or> (\<exists>ys. in_xattr inode \<noteq> 0 \<and> xa_heap s (in_xattr inode) = Some (attr_bytes (map (Pair []) vs) @ ys) \<and>
      xattrlen (in_fixed inode) = of_nat (length (attr_bytes (map (Pair []) vs))))) \<and>
    (\<exists>s'. xattr_exists inode (Some name) s = Inr (-1, s'))"
proof (cases "\<exists>ys. attrs_of (xa_heap s) inode (map (Pair []) vs) ys")
  case True
  then obtain ys where ys: "attrs_of (xa_heap s) inode (map (Pair []) vs) ys" by blast
  moreover obtain i where "find_xattr False (xa_heap s) (in_xattr inode) (sint (xattrlen (in_fixed inode))) name 0 = Inr (Ended i)"
    using find_anonymous [of "xa_heap s" "in_xattr inode" "[]" vs ys name] ys attrs_of_len [OF ys] attr_run_bytes [OF assms(1)] assms(2)
    by (auto simp: attrs_of_def)
  ultimately show ?thesis by (auto simp: xattr_exists_def attrs_of_def)
next
  case False
  then show ?thesis using attr_run_bytes [OF assms(1)] by (simp add: xattr_exists_def)
qed

section \<open>Concrete attributes\<close>

definition sample_xenv :: "8 word list option xattr_env" where
  "sample_xenv = \<lparr>xe_inode_num = (\<lambda>_. Some 7), xe_size = 1, xe_inode = new_inode, xe_lock_node = Some fl_n0, xe_lock_key = fl_n0,
     xe_al = sample_al, xe_junk = (\<lambda>_. 0), xe_realloc = 5, xe_db = Some sample_db, xe_ok = (\<lambda>_. True), xe_moved = False, xe_beyond = []\<rparr>"

definition sample_attrs :: "8 word list \<Rightarrow> mem_inode" where
  "sample_attrs b = new_inode\<lparr>in_fixed := sample_fixed 0 0 (length b), in_xattr := (if b = [] then 0 else 5)\<rparr>"

definition sample_xstate :: "8 word list \<Rightarrow> 8 word list option xattr_state" where
  "sample_xstate b = \<lparr>xa_locks = fl_init, xa_heap = (\<lambda>_. None)(5 := (if b = [] then None else Some b)),
     xa_db = Some (sample_fixed 0 0 0), xa_errno = 0\<rparr>"

lemma sample_attrs_of: "length (attr_bytes rs) < 2 ^ 31 \<Longrightarrow> rs \<noteq> [] \<Longrightarrow>
    attrs_of (xa_heap (sample_xstate (attr_bytes rs))) (sample_attrs (attr_bytes rs)) rs []"
  by (cases rs) (auto simp: attrs_of_def sample_attrs_def sample_xstate_def sample_fixed_fields pair_bytes_def)

theorem xattr_remove_pair_witness:
  "\<exists>s' zs. xattr_remove (sample_attrs (attr_bytes [(''k'', [65, 66]), (''m'', [67])])) (Some ''k'')
       (sample_xstate (attr_bytes [(''k'', [65, 66]), (''m'', [67])])) = Inr (4, s') \<and>
     xa_heap s' 5 = Some (attr_bytes [(''m'', [67])] @ zs)"
proof -
  let ?rs = "[(''k'', [65, 66]), (''m'', [67])] :: (string \<times> 8 word list) list"
  have "\<forall>kv\<in>set ?rs. attr_plain kv" "distinct (map fst ?rs)" "length (attr_bytes ?rs) < 2 ^ 31"
    by (simp_all add: attr_plain_def attr_ok_def c_string_def length_pair_bytes)
  then show ?thesis
    using xattr_remove_pair [OF sample_attrs_of [of ?rs], of "''k''"]
    by (auto simp: sample_attrs_def length_pair_bytes pair_bytes_def)
qed

text \<open>One attribute that is set on an inode without attributes.\<close>

lemma sample_append:
  "\<exists>inode s. append_xattr sample_xenv (sample_attrs []) (Some ''user.a'') (Some [65, 0]) 2 (sample_xstate []) = Inr (0, inode, s)"
proof -
  have z: "mem_realloc (\<lambda>_. 0) 5 ((\<lambda>_. None)(5 := None)) 0 4 = Inr (Some ((\<lambda>_. None)(5 \<mapsto> [0, 0, 0, 0])))"
  proof -
    have "map (\<lambda>_. 0 :: 8 word) [0..<4] = [0, 0, 0, 0]" by (simp add: numeral_eq_Suc)
    then show ?thesis by (simp add: mem_realloc_def resize_def block_of_def fun_eq_iff)
  qed
  have r: "append_record ((\<lambda>_. None)(5 \<mapsto> [0, 0, 0, 0])) 5 0 ''user.a'' [65, 0] = Inr ((\<lambda>_. None)(5 \<mapsto> [EQUALS, 65, 0, 0]))"
    using append_record_bytes [of "(\<lambda>_. None)(5 \<mapsto> [0, 0, 0, 0])" 5 "[]" "[0, 0, 0, 0]" "''user.a''" "[65]" "[]"]
    by (simp add: MAX_KEY_LEN_def pair_bytes_def str_bytes_def)
  have f: "in_fixed (set_xattrlen 3 (sample_attrs [])) = sample_fixed 0 0 3"
    by (simp add: set_xattrlen_def sample_attrs_def numbered_fixed_def)
  have "\<exists>t. put_inode (\<lambda>_. True) False [] ((\<lambda>_. None)(5 \<mapsto> [EQUALS, 65, 0, 0])) (Some ((set_xattrlen 3 (sample_attrs []))\<lparr>in_xattr := 5\<rparr>))
      (Some sample_db) 1 (Some (sample_fixed 0 0 0)) = Inr (0, t)"
    using f sample_fixed_fields [of 0 0 3]
    by (simp add: put_inode_def INODE_NUM_START_def flatten_inode_def flat_xattr_def flat_erasure_def flat_sfsds_def mem_read_def get_at_def
        sample_db_def FIXED_LEN_def)
  then show ?thesis
    using z r sample_fixed_fields [of 0 0 0]
    by (auto simp: append_xattr_def key_len_of_def MAX_KEY_LEN_def sample_xenv_def sample_xstate_def sample_attrs_def new_inode_def
        store_xattr_def Let_def)
qed

theorem appended_names_lost_witness:
  "\<exists>inode s ys s'. attr_run inode (s :: 8 word list option xattr_state) [[65]] \<and>
     xa_heap s (in_xattr inode) = Some ([EQUALS, 65, 0] @ ys) \<and> xattr_exists inode (Some ''user.a'') s = Inr (-1, s')"
proof -
  obtain inode s where a: "append_xattr sample_xenv (sample_attrs []) (Some ''user.a'') (Some [65, 0]) 2 (sample_xstate []) = Inr (0, inode, s)"
    using sample_append by blast
  have "attr_run (sample_attrs []) (sample_xstate []) []"
    using sample_fixed_fields [of 0 0 0] by (intro attr_start) (simp_all add: sample_attrs_def)
  from attr_append [OF this, of sample_xenv "''user.a''" "[65]" "[]" inode s] a
  have run: "attr_run inode s [[65]]"
    using sample_fixed_fields [of 0 0 0] by (simp add: MAX_KEY_LEN_def sample_attrs_def)
  from appended_names_lost [OF run, of "''user.a''"] run show ?thesis by (auto simp: pair_bytes_def str_bytes_def)
qed

text \<open>A call on a file without attributes.\<close>

lemma sample_get:
  "\<exists>s. xattr_do sample_xenv (Op_get (Some ''f'') (Some ''user.a'') (Some [0]) 1) (sample_xstate []) = Inr (-1, s)"
proof -
  have f: "length (sample_fixed 0 0 0) = FIXED_LEN" "numclients (sample_fixed 0 0 0) = 0" "numextents (sample_fixed 0 0 0) = 0"
    "xattrlen (sample_fixed 0 0 0) = 0" "numerasure (sample_fixed 0 0 0) = 0"
    using sample_fixed_fields [of 0 0 0] by simp_all
  obtain inode h where g: "get_inode sample_al (\<lambda>_. 0) (\<lambda>_. None) 7 (Some new_inode) (Some sample_db) (Some (sample_fixed 0 0 0)) =
      Inr (0, Some inode, h)" "in_fixed inode = sample_fixed 0 0 0"
    using f sample_al_ok(3)
    by (simp add: get_inode_def INODE_NUM_START_def sample_db_def fill_inode_def get_at_def fill_xattr_def fill_sfsds_def Let_def)
  have "\<exists>r l. sfs_unlock fl_n0 7 (fl_one RDLOCKED) = Inr (r, l)"
    using fl_unlock(1) [OF fl_inv_one, of fl_n0 7 RDLOCKED]
    by (cases "sfs_unlock fl_n0 7 (fl_one RDLOCKED)") (auto simp: fl_view_def split: option.split_asm)
  then show ?thesis
    using g f fl_eval_lock(2)
    by (auto simp: sfs_getxattr_def sample_xenv_def sample_xstate_def xattr_open_def get_locked_def xattr_close_def xattr_unlock_def
        sstack_free_inode_res_def find_xattr.simps fun_upd_def Let_def)
qed

theorem xattr_calls_unlock_witness:
  "\<exists>s. xattr_do sample_xenv (Op_get (Some ''f'') (Some ''user.a'') (Some [0]) 1) (sample_xstate []) = Inr (-1, s) \<and>
     fl_inv (xa_locks s) \<and> fl_abs (xa_locks s) = fl_abs fl_init"
proof -
  obtain s where s: "xattr_do sample_xenv (Op_get (Some ''f'') (Some ''user.a'') (Some [0]) 1) (sample_xstate []) = Inr (-1, s)"
    using sample_get by blast
  have "fl_inv (xa_locks (sample_xstate []))" "fl_abs fl_init = (\<lambda>_. None)"
    using fl_good_init by (auto simp: sample_xstate_def fl_good_def fl_abs_def fl_init_def rb_new_def)
  with xattr_calls_unlock [OF _ s] s show ?thesis by (auto simp: sample_xstate_def)
qed

end
