(* ===== verification/Spec2Isabelle.thy ===== *)
theory Spec2Isabelle
  imports Job_Trees File_Lock Storage_Tree Job_Ids Job_Queue Slab_Reclaim Cli_Serdes Crc Pool_List
    Storage_Cmd Data_Path Mongo_Store Sfsd_Pool Policy Storage_Path Xattr
begin

text \<open>
  SeamlessStack is a distributed file system.  The server \<^verbatim>\<open>sfs\<close> answers FUSE requests and the
  commands of a CLI; it splits them into jobs, queues these by priority, and a dispatcher
  sends them to the storage daemons \<^verbatim>\<open>sfsd\<close>.  Answers are matched with the waiting thread through
  two red-black trees.  This library models the parts of the sources below on which the rest
  stands and proves them correct, or shows where they are not.

  \<^bold>\<open>Conventions.\<close>  A C function is an Isabelle function with the state it works on as
  an argument and a result.  A failed assertion, a null pointer, an access outside an object,
  undefined behaviour and a lock that is never released are values of the type \<open>crash\<close>; a
  function that can end in one has a result of type \<open>'a exec\<close> (theory \<open>SFS_Prelude\<close>).  The outcome of
  \<^verbatim>\<open>malloc\<close> and the contents of fresh or uninitialised memory are arguments.  Machine integers are
  words, or integers where the sources never reach their bounds.  Spin locks and mutexes are
  flags, since the modelled functions run one at a time except where interleavings are modelled
  (the thread pool and the handlers of the answers to reads).  A loop that may not end has the result \<open>None\<close> in that case.

  \<^bold>\<open>Trees.\<close>  \<open>Rb_Tree\<close> models \<^verbatim>\<open>oss/rb.h\<close>: every operation that \<^verbatim>\<open>rb_gen\<close> generates, with its path array
  as a list of frames.  \<open>Rb_Correct\<close> shows that insertion and removal keep the tree balanced and
  ordered, change exactly one node and stay within the path array, and that iteration is in
  order; the locale \<open>ordered_nodes\<close> gives the map view to every tree with a lawful comparison.  \<open>Job_Trees\<close>
  (\<^verbatim>\<open>sfs_jobmap_tree.h\<close>, \<^verbatim>\<open>sfs_jobid_tree.h\<close>) and \<open>File_Lock\<close> (\<^verbatim>\<open>sfs_lock_tree.h\<close>) interpret it and refine finite
  maps and a lock table.  \<open>Storage_Tree\<close> (\<^verbatim>\<open>sfs_storage_tree.h\<close>) has a comparison that never reports
  equality, so that nothing is ever found in it.

  \<^bold>\<open>Jobs.\<close>  \<open>Job_Ids\<close> models the bitmap of ids and \<^verbatim>\<open>get_next_job_id\<close>, \<open>Bds_List\<close> the intrusive list
  of \<^verbatim>\<open>bds_list.h\<close> over an explicit heap of links with the locale \<open>linked_list\<close>, \<open>Job_Queue\<close> the queues of
  \<^verbatim>\<open>sfs_job.c\<close>.  \<open>Dispatch\<close> models the dispatcher and the handlers of responses of \<^verbatim>\<open>sfs.c\<close>, and shows for all interleavings of the handlers
  of successful reads when the waiting thread is signalled; \<open>Job_Setup\<close> models the creation of jobs and the invariant \<open>sys_ok\<close> of the job system.  \<open>Storage_Cmd\<close> models
  the storage commands of \<^verbatim>\<open>get_storage_command_response\<close> of \<^verbatim>\<open>sfs_sfscli.c\<close>, composed with the dispatcher and the answer of the
  sfsd, and the blocks that are freed while the queue and the trees still refer to them.

  \<^bold>\<open>Command line.\<close>  \<open>Cli_Parse\<close> models the client: the options of the four kinds of commands (\<^verbatim>\<open>sfscli_storage.c\<close>, \<^verbatim>\<open>sfscli_policy.c\<close>,
  \<^verbatim>\<open>sfscli_sfsd.c\<close>, \<^verbatim>\<open>sfscli_license.c\<close>), with the results of \<^verbatim>\<open>getopt_long\<close> as a parameter, and \<^verbatim>\<open>process_args\<close> of \<^verbatim>\<open>sfscli.c\<close>.  \<open>Cli_Server\<close> models
  the rest of \<^verbatim>\<open>sfs_sfscli.c\<close>: decoding a message, the four handlers, the listing of the devices and the response.  \<open>Storage_Path\<close> takes a
  storage command over the wire to the sfsd and its answer back.  This theory composes them: a device that is added on the command
  line is in the storage tree of sfs and in the chunk domain of the sfsd when the client reads the reply; a command that fails
  leaves its thread registered, and the next one fails an assertion.

  \<^bold>\<open>Memory and threads.\<close>  \<open>Slab_Size\<close>, \<open>Slab_Alloc\<close>, \<open>Slab_Free\<close> and \<open>Slab_Reclaim\<close> model one cache of
  \<^verbatim>\<open>bds_slab.c\<close>: layout, allocation, freeing, garbage collection and destruction, with the pages that are unmapped and the blocks that are
  freed.  \<open>Thread_Pool\<close> models \<^verbatim>\<open>sstack_thread_pool.c\<close> as a step relation over the critical sections of workers and callers, with the
  signals of the three condition variables, their delivery to any one waiting thread, and spurious wake-ups: no job is lost or
  overtaken, the counters are exact, and no wake-up is lost;
  \<open>Pool_List\<close> the global list of pools.

  \<^bold>\<open>Files.\<close>  \<open>Metadata\<close> holds the structures that sfs and sfsd share, \<open>Inode_Record\<close> the flattening of inodes and
  back (\<^verbatim>\<open>sstack_helper.c\<close>), \<open>Mongo_Store\<close> the back end of the database (\<^verbatim>\<open>mongo_db.c\<close>) over a parameter for driver
  and server.  \<open>File_IO\<close> models \<^verbatim>\<open>sfs_read\<close> and \<^verbatim>\<open>sfs_write\<close> of \<^verbatim>\<open>sfs_entry.c\<close>, \<open>File_Access\<close> their composition with
  the dispatcher and the handlers of answers, \<open>Sfsd_Pool\<close> the pools of \<^verbatim>\<open>sfs_helper.c\<close>.  \<open>Chunk_Domain\<close> (\<^verbatim>\<open>sfsd_chunk.c\<close>) and
  \<open>Sfsd_Ops\<close> (\<^verbatim>\<open>sfsd_ops.c\<close>, \<^verbatim>\<open>sfsd_threads.c\<close>) are the side of the sfsd, and \<open>Data_Path\<close> relates the requests and answers of
  both.  \<open>Xattr\<close> models the extended attributes of \<^verbatim>\<open>sfs_entry.c\<close> on a heap of blocks: the calls leave
  no lock behind, the first and the last attribute are removed correctly, and names are lost when attributes are set.  Its locale
  \<open>lock_call\<close> is the contract of a call that takes a lock.

  \<^bold>\<open>Formats.\<close>  \<open>Cli_Serdes\<close> models the wire format of CLI commands (\<^verbatim>\<open>sfscli_serdes.c\<close>) and its round
  trips, \<open>Crc\<close> the checksums of \<^verbatim>\<open>oss/crc/crc.c\<close> and \<^verbatim>\<open>sstack_checksum.c\<close>.  \<open>Payload_Types\<close> holds the messages of \<^verbatim>\<open>jobs.proto\<close>
  and the payloads of \<^verbatim>\<open>sstack_jobs.h\<close>, \<open>Payload_Serdes\<close> their serialisation (\<^verbatim>\<open>sstack_serdes.c\<close>) and the TCP transport
  (\<^verbatim>\<open>sstack_transport_tcp.c\<close>), with the code that protobuf-c generates as a parameter: requests and responses arrive as they
  were sent, within the bounds stated there.  \<open>Wire_Path\<close> shows that a read or a write over the wire is the direct call of the sfsd, and
  that what is written to a file is read back through both daemons and the wire.

  \<^bold>\<open>Policies.\<close>  \<open>Policy\<close> models \<^verbatim>\<open>policy.c\<close>: the table of plugins, the search table over JudySL arrays, which are a parameter,
  and submitting, deleting, listing and looking up policies.

  \<^bold>\<open>Bounds.\<close>  No fuel is used: loops are structural recursions, or walks over lists whose end is
  proved from the invariant.  A message is received whole only up to 12496 bytes, the size of \<^verbatim>\<open>sstack_payload_t\<close>.

  \<^bold>\<open>Not modelled.\<close>  The operations of \<^verbatim>\<open>sfs_entry.c\<close> on directories and attributes, which run a system call and then bring
  the inode, the database and memcached up to date under the lock of the inode, with the steps that are modelled for reads, writes and
  extended attributes; the NFS commands of \<^verbatim>\<open>sfsd_ops.c\<close> other than reads and writes, which pass one system call on; erasure coding by jerasure; the other database
  back ends, memcached, the memory cache over the vendored \<^verbatim>\<open>red_black_tree\<close> and the SSD cache, whose operations are mostly empty; setting
  up sockets and \<^verbatim>\<open>select\<close>, with the daemon that passes the bytes of the command line on; loading plugins from shared objects; logging,
  traces and the clish front end.  They are calls into third-party libraries and the
  operating system.  The vendored libraries under \<^verbatim>\<open>oss\<close> other than \<^verbatim>\<open>rb.h\<close> and \<^verbatim>\<open>crc\<close> are not part
  of this program's own logic.  Concurrency is modelled for the thread pool and for the answers to
  reads only; elsewhere one operation runs at a time.
\<close>

section \<open>A storage command from end to end\<close>

text \<open>The system when a storage command arrives: the thread is not registered, and there is room in the high priority queue.\<close>

definition server_ready ::
  "lane set \<Rightarrow> (lane \<Rightarrow> addr list) \<Rightarrow> ('j, 'd) server_env \<Rightarrow> addr \<Rightarrow> addr \<Rightarrow> addr \<Rightarrow> ('j, 'd) cli_server \<Rightarrow> bool" where
  "server_ready I f env job m payload s \<longleftrightarrow> server_decodes env \<and> ve_resp env \<and> cmd_ready I f (ve_cli env) job m payload (sv_cli s) \<and>
     jm_abs (st_jm (cs_sfs (sv_cli s))) (env_thread_id (ve_cli env)) = None \<and> length (f (Jobs 0)) < 64 \<and>
     (\<forall>j \<in> set (f (Jobs 0)). sendable (st_jobs (cs_sfs (sv_cli s)) j)) \<and> llrb (storage_tree (cs_storage (sv_cli s)))"

text \<open>The device of a command, and the payload that is sent for it.\<close>

abbreviation request_cmd :: "storage_op \<Rightarrow> storage_input sfscli_cli_cmd \<Rightarrow> storage_cmd" where
  "request_cmd op c \<equiv> storage_cmd_of op (cc_input c)"

abbreviation request_payload ::
  "storage_op \<Rightarrow> storage_input sfscli_cli_cmd \<Rightarrow> addr \<Rightarrow> addr \<Rightarrow> ('j, 'd) cli_server \<Rightarrow> storage_payload" where
  "request_payload op c job payload s \<equiv>
     fill_payload (request_cmd op c) (next_job_id (sv_cli s)) 0 job (cs_payloads (sv_cli s) payload)"

text \<open>
  What a command leaves behind: the thread is free again, the lists of the queues are linked, and its payload has been sent last.  The
  job has been freed, but it is still in the pending queue and in the job id tree.
\<close>

definition command_done ::
  "lane set \<Rightarrow> (lane \<Rightarrow> addr list) \<Rightarrow> ('j, 'd) server_env \<Rightarrow> storage_op \<Rightarrow> storage_input sfscli_cli_cmd \<Rightarrow> addr \<Rightarrow> addr \<Rightarrow> addr \<Rightarrow>
   ('j, 'd) cli_server \<Rightarrow> ('j, 'd) cli_server \<Rightarrow> bool" where
  "command_done I f env op c job m payload s s' \<longleftrightarrow>
     (let d = cs_sfs (sv_cli s); d' = cs_sfs (sv_cli s'); t = storage_tree (cs_storage (sv_cli s)); t' = storage_tree (cs_storage (sv_cli s')) in
      sys_ok I (after_pass job f) (sv_cli s') \<and> jm_abs (st_jm d') = jm_abs (st_jm d) \<and>
      jt_abs (st_jt d') = (jt_abs (st_jt d))(next_job_id (sv_cli s) \<mapsto> (env_thread_id (ve_cli env), Some job)) \<and>
      st_sent d' = st_sent d @ concat (map (\<lambda>j. sends_of (st_jobs d j)) (f (Jobs 0))) @
        [(env_accept_sfsd (ve_cli env), Some payload, next_job_id (sv_cli s))] \<and>
      cs_payloads (sv_cli s') payload = request_payload op c job payload s \<and>
      cs_freed (sv_cli s') = cs_freed (sv_cli s) \<union> {Map_Block m, Job_Block job} \<and> llrb t' \<and>
      (if op = STORAGE_ADD_CMD then set (rb_inorder t') = insert (cmd_device (request_cmd op c)) (set (rb_inorder t)) else t' = t))"

lemma client_path:
  assumes "client_storage c"
  shows "length (sc_rpath (request_cmd op c)) < PATH_MAX" "c_string (sc_rpath (request_cmd op c))"
    "c_string (bytes_str (drop 4 (sc_address (request_cmd op c))))"
    "bytes_str (drop 4 (sc_address (request_cmd op c))) = bytes_str (ad_address (si_address (cc_input c)))"
proof -
  obtain t u where "c_string t" "length t < 4096" "si_rpath (cc_input c) = array_of 4096 t" "c_string u"
    "ad_address (si_address (cc_input c)) = array_of 40 u"
    using assms by (auto simp: client_storage_def holds_string_def Let_def)
  then show "length (sc_rpath (request_cmd op c)) < PATH_MAX" "c_string (sc_rpath (request_cmd op c))"
    "c_string (bytes_str (drop 4 (sc_address (request_cmd op c))))"
    "bytes_str (drop 4 (sc_address (request_cmd op c))) = bytes_str (ad_address (si_address (cc_input c)))"
    by (simp_all add: storage_cmd_of_def array_of_props PATH_MAX_def address_bytes_def)
qed

lemma request_done:
  assumes "server_ready I f env job m payload s" "storage_request (ve_shl env) c msg" "client_storage c"
    "storage_op_of (cc_sub_cmd c) = Some op" "storage_rsp (pl_command p)" "pl_job_id p = next_job_id (sv_cli s)" "command_ok p = SSTACK_SUCCESS"
  shows "\<exists>s'. handle_cli_request (env\<lparr>ve_answer := p\<rparr>) msg s = Inr (Some (storage_reply op), s') \<and>
    command_done I f env op c job m payload s s' \<and> sv_resp s' = Some (storage_reply op)"
proof -
  let ?cmd = "request_cmd op c" and ?env = "env\<lparr>ve_answer := p\<rparr>"
  have ready: "cmd_ready I f (ve_cli env) job m payload (sv_cli s)" "jm_abs (st_jm (cs_sfs (sv_cli s))) (env_thread_id (ve_cli env)) = None"
    "length (f (Jobs 0)) < 64" "\<forall>j \<in> set (f (Jobs 0)). sendable (st_jobs (cs_sfs (sv_cli s)) j)" "llrb (storage_tree (cs_storage (sv_cli s)))"
    using assms(1) by (simp_all add: server_ready_def)
  have op: "sc_op ?cmd = op" by (simp add: storage_cmd_of_def)
  obtain c' where c': "storage_command_run (ve_jt_key env) (ve_jm_key env) (ve_cli env) ?cmd p (sv_cli s) = Inr (Some (storage_reply op), c')"
    "command_done I f env op c job m payload s (s\<lparr>sv_cli := c', sv_resp := Some (storage_reply op)\<rparr>)"
    using storage_command_answered [OF ready(1-4) assms(5-7) ready(5) client_path(1) [OF assms(3), of op], of "ve_jt_key env" "ve_jm_key env"]
    unfolding op command_done_def Let_def by auto
  have "storage_reply op \<noteq> []" by (simp add: storage_reply_def split: storage_op.split)
  then have "handle_cli_request ?env msg s = Inr (Some (storage_reply op), s\<lparr>sv_cli := c', sv_resp := Some (storage_reply op)\<rparr>)"
    using assms(1,2,4) c'(1) by (intro storage_request_replies) (simp_all add: server_ready_def server_decodes_def)
  then show ?thesis using c'(2) by auto
qed

text \<open>
  C1: adding a device, from the command line to the disk server, over messages of at most 12496 bytes.  The client turns options with an NFS address of up to 15
  characters, a path below 4096 and a size below \<open>2 ^ 31\<close> into a message.  The server decodes it, registers a job and sends its payload, after
  those of at most 63 other jobs, to the sfsd; the sfsd receives the payload, mounts the device, puts it into its chunk domain
  and answers; the answer finds the waiting thread, and the device is put into the storage tree.  The client gets the reply that the
  device has been added.  The device has the path, the size, the type and the address of the options at both places.  The thread is no
  longer registered; the job of the command has been freed, and is still in the pending queue and in the job id tree.
\<close>

theorem add_storage_end_to_end:
  assumes client: "client_memory ct" "\<forall>r \<in> set (ct_getopt ct ''storage''). storage_option_ok r"
      "parse_fill_storage_input True (ct_getopt ct ''storage'') = Inr (Some c)" "cc_sub_cmd c = STORAGE_ADD"
      "si_access_protocol (cc_input c) = 1" "length (bytes_str (ad_address (si_address (cc_input c)))) < IPV4_ADDR_MAX"
    and server: "server_ready I f env job m payload s" "ve_shl env = ct_shl ct" "unat (next_job_id (sv_cli s)) < MAX_OUTSTANDING_JOBS"
    and sfsd: "cd_ok (sd_chunk d)" "length (chunks (sd_chunk d)) + 1 < 2 ^ 32" "length mp \<le> MAX_MOUNT_POINT_LEN"
    and wire: "link_ok l" "link_ok l'" "stream w = []" "stream w' = []"
      "\<forall>msg. first_message pb l (storage_wire (request_payload STORAGE_ADD_CMD c job payload s)) (next_job_id (sv_cli s)) (of_nat job) 0 w =
         Inr (Some msg) \<longrightarrow> carried pb msg"
      "\<forall>q msg. first_message pb l' (storage_rsp_payload (shared q) q add_answer) (next_job_id (sv_cli s)) (of_nat job) 0 w' =
         Inr (Some msg) \<longrightarrow> carried pb msg"
  shows "\<exists>msg a chunk s'. process_args ct prog (Some ''storage'') = Inr (0, Some msg) \<and>
    wire_call pb l l' (process_storage sd (Some mp) True (True, True) move blank shared) (storage_wire (request_payload STORAGE_ADD_CMD c job payload s))
      (next_job_id (sv_cli s)) (of_nat job) 0 w w' d =
      Inr (Some a, d\<lparr>sd_chunk := chunk\<rparr>, w\<lparr>sequence := sequence w + 1\<rparr>, w'\<lparr>sequence := sequence w' + 1\<rparr>) \<and>
    handle_cli_request (env\<lparr>ve_answer := received_answer p e a\<rparr>) msg s = Inr (Some ''Add storage successful'', s') \<and>
    command_done I f env STORAGE_ADD_CMD c job m payload s s' \<and>
    cd_ok chunk \<and> chunks chunk = chunks (sd_chunk d) @ [sfsd_device (request_cmd STORAGE_ADD_CMD c) mp]"
proof -
  obtain msg where msg: "process_args ct prog (Some ''storage'') = Inr (0, Some msg)" "client_storage c" "storage_request (ve_shl env) c msg"
    using client_request [OF client(1-3)] server(2) by metis
  let ?cmd = "request_cmd STORAGE_ADD_CMD c"
  have cmd: "sc_op ?cmd = STORAGE_ADD_CMD" "sc_protocol ?cmd = NFS" using client(5) by (simp_all add: storage_cmd_of_def protocol_of_def)
  have path: "length (sc_rpath ?cmd) < PATH_MAX" "c_string (sc_rpath ?cmd)" "c_string (bytes_str (drop 4 (sc_address ?cmd)))"
    "length (bytes_str (drop 4 (sc_address ?cmd))) < IPV4_ADDR_MAX"
    using client_path [OF msg(2), of STORAGE_ADD_CMD] client(6) by simp_all
  obtain a chunk where a: "wire_call pb l l' (process_storage sd (Some mp) True (True, True) move blank shared)
      (storage_wire (request_payload STORAGE_ADD_CMD c job payload s)) (next_job_id (sv_cli s)) (of_nat job) 0 w w' d =
      Inr (Some a, d\<lparr>sd_chunk := chunk\<rparr>, w\<lparr>sequence := sequence w + 1\<rparr>, w'\<lparr>sequence := sequence w' + 1\<rparr>)"
    "\<forall>p e. received_answer p e a = \<lparr>pl_addr = p, pl_command = Dispatch.SSTACK_ADD_STORAGE_RSP, pl_job_id = next_job_id (sv_cli s),
       command_ok = SSTACK_SUCCESS, read_ecode = e\<rparr>"
    "cd_ok chunk" "chunks chunk = chunks (sd_chunk d) @ [sfsd_device ?cmd mp]"
    using storage_call [OF wire(1-4) server(3) cmd path(2,1,3,4) sfsd(1,2,3) wire(5,6)] by blast
  have "storage_op_of (cc_sub_cmd c) = Some STORAGE_ADD_CMD" using client(4) by (simp add: storage_op_of_def)
  then have "\<exists>s'. handle_cli_request (env\<lparr>ve_answer := received_answer p e a\<rparr>) msg s = Inr (Some ''Add storage successful'', s') \<and>
    command_done I f env STORAGE_ADD_CMD c job m payload s s'"
    using request_done [OF server(1) msg(3,2), of STORAGE_ADD_CMD "received_answer p e a"] a(2) by (auto simp: storage_rsp_def storage_reply_def)
  then show ?thesis using msg(1) a(1,3,4) by blast
qed

text \<open>
  C31: a client that lists the devices of a server for the first time gets no more of the listing than its request was long.  The
  server builds the listing of all devices in the order of the storage tree, but takes the length of the request for that of the
  listing, and copies it over its previous response: without one it dereferences a null pointer, and where the previous response or the
  listing is shorter than the request it accesses memory behind them.  Only otherwise is the start of the listing sent.
\<close>

theorem storage_listing:
  assumes "server_decodes env" "storage_request (ve_shl env) c msg" "cc_sub_cmd c = STORAGE_SHOW"
    "ds = rb_inorder (storage_tree (cs_storage (sv_cli s)))" "sv_buf s = No_Buf" "sv_buf_len s = 0" "sv_index s = 0"
    "ds \<noteq> []" "int (length ds) < 2 ^ 31" "\<forall>i. ve_line env i" "\<forall>k < length ds. line_fits (int k) (ds ! k)"
    "length (device_lines 0 ds) < 2 ^ 31"
  shows "handle_cli_request env msg s =
    (case sv_resp s of None \<Rightarrow> Inl Null_Deref | Some r \<Rightarrow>
       if length msg \<le> length r \<and> length msg \<le> length (device_lines 0 ds)
       then let t = take (length msg) (device_lines 0 ds) in
         Inr (Some t, s\<lparr>sv_index := int (length ds), sv_buf := Freed_Buf, sv_buf_len := length (device_lines 0 ds),
           sv_resp := Some (t @ drop (length msg) r)\<rparr>)
       else Inl Bad_Access)"
proof -
  have "show_devices env n s =
    (case sv_resp s of None \<Rightarrow> Inl Null_Deref | Some r \<Rightarrow>
       if n \<le> length r \<and> n \<le> length (device_lines 0 ds)
       then Inr (Some (int n), s\<lparr>sv_index := int (length ds), sv_buf := Freed_Buf, sv_buf_len := length (device_lines 0 ds),
         sv_resp := Some (take n (device_lines 0 ds) @ drop n r)\<rparr>)
       else Inl Bad_Access)" for n
    using display_first [OF assms(5-12)] by (simp add: show_devices_def listing_list Let_def flip: assms(4) split: option.split)
  then show ?thesis
    using request_handled [OF assms(2), of env s] storage_request_response [OF assms(1,2)] assms(3)
    by (auto simp: Let_def split: option.split)
qed


definition sample_cli :: cli_state where
  "sample_cli =
     \<lparr>cs_sfs = (sample_sfs 1 \<lparr>nxt = id, prv = id\<rparr>)\<lparr>st_jt := sample_jt, st_jm := sample_jm\<rparr>, cs_ids = ji_init,
      cs_storage = \<lparr>storage_tree = rb_new, st_errno = 0\<rparr>,
      cs_payloads = (\<lambda>_. \<lparr>sp_job_id = 0, sp_priority = 0, sp_arg = 0, sp_command = Storage_Cmd.SSTACK_UPDATE_STORAGE, sp_address = [],
        sp_path = [], sp_protocol = NFS, sp_nblocks = 0, sp_weight = SSTACK_STORAGE_HDD\<rparr>), cs_freed = {}\<rparr>"

definition sample_env :: "addr \<Rightarrow> addr \<Rightarrow> addr \<Rightarrow> cli_env" where
  "sample_env job m payload =
     (let st = \<lparr>st_magic = 0, st_address = [], st_rpath = [], st_access_protocol = NFS, st_type = SSTACK_STORAGE_HDD, st_size = 0\<rparr> in
      \<lparr>env_thread_id = 5, env_accept_sfsd = 40, env_job_map = Some m, env_job = Some job, env_payload = Some payload,
       env_job_ids = True, env_jt_node = Some sample_jtk, env_jm_node = Some sample_jmk, env_jt_key = sample_jtk,
       env_jm_key = sample_jmk, env_st_node = Some st, env_st_key = st\<rparr>)"

definition sample_add :: storage_cmd where
  "sample_add = \<lparr>sc_op = STORAGE_ADD_CMD, sc_address = [10, 0, 0, 1], sc_rpath = ''/export'', sc_protocol = NFS,
     sc_type = SSTACK_STORAGE_SSD, sc_size = 9\<rparr>"

definition sample_answer :: "64 word \<Rightarrow> int \<Rightarrow> sstack_payload" where
  "sample_answer i ok = (sample_response Dispatch.SSTACK_ADD_STORAGE_RSP ok)\<lparr>pl_job_id := i\<rparr>"

lemma sample_cli_ready: "cmd_ready {Jobs 0, Pending 0} (\<lambda>_. []) (sample_env 7 9 70) 7 9 70 sample_cli"
proof -
  have "sys_ok {Jobs 0, Pending 0} (\<lambda>_. []) sample_cli"
    using sample_jt(1) sample_jm(1) ji_ok_init
    by (simp add: sys_ok_def queues_ok_def disp_inv_def trees_ok_def lists_in_def dlist_def sample_cli_def sample_sfs_def
        sample_queues_def) (simp add: ji_init_def)
  then show ?thesis
    using sample_jt(2)
    by (simp add: cmd_ready_def env_ok_def sample_env_def fresh_job_def Let_def)
      (simp add: ids_left_def sample_cli_def sample_sfs_def sample_queues_def ji_init_def MAX_OUTSTANDING_JOBS_def)
qed

definition sample_options :: "getopt_result list" where
  "sample_options = map (\<lambda>(c, t). \<lparr>go_c = c, go_index = -1, go_optarg = t\<rparr>)
     [(CHR ''a'', None), (CHR ''A'', Some ''10.0.0.1''), (CHR ''R'', Some ''/export''), (CHR ''P'', Some ''nfs''), (CHR ''t'', Some ''SSD''),
      (CHR ''s'', Some ''9'')]"

definition sample_client :: "getopt_result list \<Rightarrow> cli_client" where
  "sample_client rs = \<lparr>ct_shl = shl_x86, ct_parse = True, ct_ser = True, ct_storage = Some zero_storage, ct_policy = None, ct_sfsd = None,
     ct_license = None, ct_getopt = (\<lambda>_. rs)\<rparr>"

definition sample_request :: "storage_input sfscli_cli_cmd" where
  "sample_request = \<lparr>cc_cmd = SFSCLI_STORAGE_CMD, cc_sub_cmd = STORAGE_ADD, cc_input =
     \<lparr>si_address = \<lparr>ad_protocol = IPV4_PROTOCOL, ad_address = array_of 40 ''10.0.0.1''\<rparr>, si_rpath = array_of 4096 ''/export'',
      si_access_protocol = 1, si_type = 2, si_size = 9\<rparr>\<rparr>"

definition sample_server_env :: "(string \<rightharpoonup> nat, unit) server_env" where
  "sample_server_env = \<lparr>ve_shl = shl_x86, ve_cmd = 0, ve_storage = Some zero_storage, ve_policy = None, ve_sfsd = None, ve_license = None,
     ve_pi_index = 0, ve_resp = True, ve_line = (\<lambda>_. True), ve_fill = (\<lambda>n. replicate n CHR ''x''), ve_cli = sample_env 7 9 70,
     ve_jt_key = sample_jtk, ve_jm_key = sample_jmk, ve_answer = sample_answer 1 100, ve_judy = map_judy, ve_strings = no_strings,
     ve_entry = 8, ve_entry_junk = ce_junk (zero_env 0), ve_record_junk = zero_record, ve_records = zero_env, ve_show = (\<lambda>_. True),
     ve_db = list_db []\<rparr>"

definition sample_server :: "cli_state \<Rightarrow> string option \<Rightarrow> (string \<rightharpoonup> nat, unit) cli_server" where
  "sample_server c r = \<lparr>sv_cli = c, sv_policy = ready_policy, sv_db = (), sv_index = 0, sv_buf = No_Buf, sv_buf_len = 0, sv_resp = r\<rparr>"

lemma zero_array: "replicate k 0 = array_of k []"
  by (simp add: array_of_def str_bytes_def)

lemma sample_words:
  "same_nocase ''nfs'' ''NFS'' 3" "\<not> same_nocase ''SSD'' ''HDD'' 3" "same_nocase ''SSD'' ''SSD'' 3" "strtol ''9'' = (9, [])"
  by code_simp+

lemma sample_parsed: "parse_fill_storage_input True sample_options = Inr (Some sample_request)"
  by (simp add: parse_fill_storage_input_def sample_options_def storage_option_def with_arg_def strtol_check_error_jump_def sample_words
    check_command_def ipv4_address_def zero_storage_def zero_array strncpy_array sample_request_def STORAGE_ADD_def Let_def)

lemma sample_options_ok: "\<forall>r \<in> set sample_options. storage_option_ok r"
  by (simp add: sample_options_def storage_option_ok_def c_string_def sample_words)

lemma sample_client_memory: "client_memory (sample_client rs)"
  by (simp add: client_memory_def sample_client_def c_shl_x86 zero_storage_def)

lemma sample_server_ready: "server_ready {Jobs 0, Pending 0} (\<lambda>_. []) sample_server_env 7 9 70 (sample_server sample_cli r)"
  using sample_cli_ready sample_jm(2)
  by (simp add: server_ready_def server_decodes_def sample_server_env_def sample_server_def c_shl_x86)
    (simp add: sample_cli_def llrb_def rb_new_def)

text \<open>The messages of the example, and a codec for them.\<close>

definition sample_storage_msg :: pb_payload where
  "sample_storage_msg =
     \<lparr>pm_hdr = \<lparr>ph_sequence = 1, ph_payload_len = of_nat SIZEOF_HDR, ph_job_id = 1, ph_priority = 0, ph_arg = 7\<rparr>,
      pm_command = Payload_Types.SSTACK_ADD_STORAGE,
      pm_storage = Some \<lparr>pg_path = str_bytes ''/export'', pg_mount_point = [], pg_weight = 2, pg_nblocks = 9, pg_protocol = NFS,
        pg_num_chunks_written = 0,
        pg_address = \<lparr>pa_protocol = IPV4, pa_ipv4_address = Some (str_bytes ''10.0.0.1'' @ [0, 0, 0, 0, 0, 0, 0, 0]), pa_ipv6_address = None\<rparr>\<rparr>,
      pm_command_struct = None, pm_response_struct = None\<rparr>"

definition sample_storage_rsp :: pb_payload where
  "sample_storage_rsp =
     \<lparr>pm_hdr = \<lparr>ph_sequence = 5, ph_payload_len = of_nat SIZEOF_PAYLOAD, ph_job_id = 1, ph_priority = 0, ph_arg = 7\<rparr>,
      pm_command = Payload_Types.SSTACK_ADD_STORAGE_RSP, pm_storage = None, pm_command_struct = None,
      pm_response_struct = Some (pb_response_init\<lparr>ps_command_ok := 100, ps_handle := 0\<rparr>)\<rparr>"

lemma sample_storage_wire:
  "first_message pb sample_link (storage_wire (fill_payload (request_cmd STORAGE_ADD_CMD sample_request) 1 0 7 p)) 1 7 0
     \<lparr>sequence = 1, stream = []\<rparr> = Inr (Some sample_storage_msg)"
  "first_message pb sample_link (storage_rsp_payload clear_response q add_answer) 1 7 0 \<lparr>sequence = 5, stream = []\<rparr> = Inr (Some sample_storage_rsp)"
proof -
  have "c_string ''10.0.0.1''" "c_string ''/export''" by (simp_all add: c_string_def)
  note a = array_of_props(4) [OF this(1), of 40] array_of_props(4) [OF this(2), of 4096]
  show "first_message pb sample_link (storage_wire (fill_payload (request_cmd STORAGE_ADD_CMD sample_request) 1 0 7 p)) 1 7 0
     \<lparr>sequence = 1, stream = []\<rparr> = Inr (Some sample_storage_msg)"
    using a by (simp add: first_message_def message_of_def storage_command_def send_storage_def storage_wire_def fill_payload_def
      sample_request_def storage_cmd_of_def storage_wire_command_def clear_payload_def copy_string_def copy_address_def sample_link_def
      get_tcp_transport_def address_bytes_def type_number_def type_of_def protocol_of_def sample_storage_msg_def new_message_def
      clear_storage_def IPV4_ADDR_MAX_def Let_def str_bytes_def upt_rec)
  show "first_message pb sample_link (storage_rsp_payload clear_response q add_answer) 1 7 0 \<lparr>sequence = 5, stream = []\<rparr> = Inr (Some sample_storage_rsp)"
    by (simp add: first_message_def status_message status_rsp_def send_status_def storage_rsp_payload_def add_answer_def storage_response_def
      clear_response_def sample_storage_rsp_def new_message_def SSTACK_SUCCESS_def Let_def)
qed

theorem add_storage_end_to_end_witness:
  "\<exists>msg a chunk s'. process_args (sample_client sample_options) ''sfscli'' (Some ''storage'') = Inr (0, Some msg) \<and>
    wire_call (wire_codec sample_storage_msg sample_storage_rsp) sample_link sample_link
      (process_storage example_env (Some ''/tmp/dirA'') True (True, True) (\<lambda>_ _ x. x) example_storage (\<lambda>_. clear_response))
      (storage_wire (request_payload STORAGE_ADD_CMD sample_request 7 70 (sample_server sample_cli None))) 1 7 0
      \<lparr>sequence = 1, stream = []\<rparr> \<lparr>sequence = 5, stream = []\<rparr> example_state =
      Inr (Some a, example_state\<lparr>sd_chunk := chunk\<rparr>, \<lparr>sequence = 2, stream = []\<rparr>, \<lparr>sequence = 6, stream = []\<rparr>) \<and>
    handle_cli_request (sample_server_env\<lparr>ve_answer := received_answer 80 False a\<rparr>) msg (sample_server sample_cli None) =
      Inr (Some ''Add storage successful'', s') \<and>
    chunks chunk = [example_storage, sfsd_device (request_cmd STORAGE_ADD_CMD sample_request) ''/tmp/dirA'']"
proof -
  let ?pb = "wire_codec sample_storage_msg sample_storage_rsp" and ?s = "sample_server sample_cli None"
  let ?w = "\<lparr>sequence = 1, stream = []\<rparr>" and ?w' = "\<lparr>sequence = 5, stream = []\<rparr>"
  have id: "next_job_id (sv_cli ?s) = 1" by (simp add: next_job_id_def sample_server_def sample_cli_def ji_init_def)
  have c: "cc_sub_cmd sample_request = STORAGE_ADD" "si_access_protocol (cc_input sample_request) = 1"
    "length (bytes_str (ad_address (si_address (cc_input sample_request)))) < IPV4_ADDR_MAX"
    by (simp_all add: sample_request_def array_of_props c_string_def IPV4_ADDR_MAX_def)
  have chunk: "cd_ok (sd_chunk example_state)" "chunks (sd_chunk example_state) = [example_storage]"
    by (simp_all add: example_state_def cd_ok_def chunks_def)
  have wire: "\<forall>msg. first_message ?pb sample_link (storage_wire (request_payload STORAGE_ADD_CMD sample_request 7 70 ?s)) (next_job_id (sv_cli ?s))
      (of_nat 7) 0 ?w = Inr (Some msg) \<longrightarrow> carried ?pb msg"
    "\<forall>q msg. first_message ?pb sample_link (storage_rsp_payload clear_response q add_answer) (next_job_id (sv_cli ?s)) (of_nat 7) 0 ?w' =
      Inr (Some msg) \<longrightarrow> carried ?pb msg"
    unfolding id by (simp_all add: sample_storage_wire wire_codec_carried)
  show ?thesis
    using add_storage_end_to_end [OF sample_client_memory, of sample_options sample_request "{Jobs 0, Pending 0}" "\<lambda>_. []" sample_server_env
        7 9 70 ?s example_state "''/tmp/dirA''" sample_link sample_link ?w ?w' ?pb "\<lambda>_. clear_response" "''sfscli''" example_env
        "\<lambda>_ _ x. x" example_storage 80 False] sample_options_ok sample_parsed c sample_server_ready chunk sample_link_ok wire id
    by (simp add: sample_client_def sample_server_env_def MAX_OUTSTANDING_JOBS_def MAX_MOUNT_POINT_LEN_def) blast
qed

text \<open>A server with one device, and a client that lists the devices.\<close>

definition sample_devices :: "(string \<rightharpoonup> nat, unit) cli_server" where
  "sample_devices = sample_server (sample_cli\<lparr>cs_storage :=
     \<lparr>storage_tree = RbNode False RbNil (cmd_device (request_cmd STORAGE_ADD_CMD sample_request)) RbNil, st_errno = 0\<rparr>\<rparr>) None"

definition sample_show :: "getopt_result list" where
  "sample_show = [\<lparr>go_c = CHR ''l'', go_index = 2, go_optarg = None\<rparr>]"

lemma sample_line:
  "device_line 0 (cmd_device (request_cmd STORAGE_ADD_CMD sample_request)) =
     ''Index: 0'' @ [CHR 0x09] @ '' IP: 10.0.0.1   Remotepath: /export'' @ [CHR 0x09] @ ''Proto: NFS   Type: SSD  Size: 9'' @ [CHR 0x0A]"
  "line_fits 0 (cmd_device (request_cmd STORAGE_ADD_CMD sample_request))"
proof -
  have t: "c_string ''10.0.0.1''" "c_string ''/export''" by (simp_all add: c_string_def)
  note a = array_of_props(4) [OF t(1), of 40] array_of_props(4) [OF t(2), of 4096] array_of_props(3) [OF t(1), of 40]
  have digits: "char_of (48 :: nat) = CHR ''0''" "char_of (57 :: nat) = CHR ''9''" by code_simp+
  show l: "device_line 0 (cmd_device (request_cmd STORAGE_ADD_CMD sample_request)) =
     ''Index: 0'' @ [CHR 0x09] @ '' IP: 10.0.0.1   Remotepath: /export'' @ [CHR 0x09] @ ''Proto: NFS   Type: SSD  Size: 9'' @ [CHR 0x0A]"
    using a by (simp add: device_line_def cmd_device_def storage_cmd_of_def sample_request_def address_bytes_def protocol_of_def type_of_def
      sdecimal_def decimal.simps digits Let_def)
  show "line_fits 0 (cmd_device (request_cmd STORAGE_ADD_CMD sample_request))"
    unfolding line_fits_def l using a(3)
    by (simp add: MAX_RESPONSE_LEN_def cmd_device_def storage_cmd_of_def sample_request_def address_bytes_def)
qed

theorem storage_listing_witness:
  "\<exists>msg. process_args (sample_client sample_show) ''sfscli'' (Some ''storage'') = Inr (0, Some msg) \<and>
    handle_cli_request sample_server_env msg sample_devices = Inl Null_Deref"
proof -
  let ?c = "zero_storage\<lparr>cc_cmd := SFSCLI_STORAGE_CMD, cc_sub_cmd := STORAGE_SHOW\<rparr>"
  have "parse_fill_storage_input True sample_show = Inr (Some ?c)"
    by (simp add: parse_fill_storage_input_def sample_show_def storage_option_def check_command_def STORAGE_SHOW_def Let_def)
  moreover have "\<forall>r \<in> set sample_show. storage_option_ok r" by (simp add: sample_show_def storage_option_ok_def)
  ultimately obtain msg where msg: "process_args (sample_client sample_show) ''sfscli'' (Some ''storage'') = Inr (0, Some msg)"
    "storage_request shl_x86 ?c msg"
    using client_request [OF sample_client_memory, of sample_show ?c "''sfscli''"] by (auto simp: sample_client_def)
  have "server_decodes sample_server_env" "ve_shl sample_server_env = shl_x86" "\<forall>i. ve_line sample_server_env i"
    by (simp_all add: server_decodes_def sample_server_env_def c_shl_x86)
  then have "handle_cli_request sample_server_env msg sample_devices = Inl Null_Deref"
    using storage_listing [of sample_server_env ?c msg "[cmd_device (request_cmd STORAGE_ADD_CMD sample_request)]" sample_devices] msg(2)
      sample_line by (simp add: sample_devices_def sample_server_def)
  then show ?thesis using msg(1) by blast
qed


end
